(* ===== verification/Go_Prelude.thy ===== *)
theory Go_Prelude
  imports Main "HOL-Library.Word" "HOL-Library.Char_ord" "HOL-Library.List_Lexorder"
    "HOL-Library.Sublist" "HOL-Library.Multiset"
begin

text \<open>
  What the components share: the Go values they compute with and the parts of Go's standard
  library they call.

  \<^item> A Go string is its bytes, so \<open>string\<close> (a list of 8-bit characters) is the same data.
    The functions of package \<open>strings\<close> used by the agent are defined on bytes.
    \<open>strings.TrimSpace\<close> and \<open>strings.Fields\<close> know every white space rune of Unicode in its
    UTF-8 encoding. \<open>strings.ToLower\<close> and \<open>strings.EqualFold\<close> map the ASCII letters and the
    non-ASCII letters whose image is an ASCII letter; another non-ASCII letter is kept as it
    is, so two spellings of it that differ in case stay different. The agent only looks for
    ASCII words in a lowered text, and those answers are exact.
  \<^item> \<open>time.Time\<close> is the number of nanoseconds since January 1 of the year 1 in UTC, so that
    \<open>IsZero\<close> is being 0, and \<open>time.Duration\<close> is a number of nanoseconds. Subtraction of two
    times saturates at the bounds of an \<open>int64\<close>, and the product of a duration wraps around,
    as in Go.
  \<^item> \<open>uint32\<close> and \<open>uint64\<close> values are words of that width.
  \<^item> A call that returns an error next to its value is a sum, \<open>Inl\<close> with the text of the
    error.
\<close>

named_theorems go_simps \<open>defining equations of the Go library functions, for evaluation\<close>

section \<open>Definitions\<close>

subsection \<open>Time\<close>

type_synonym gotime = int
type_synonym duration = int

definition wrap64 :: "int \<Rightarrow> int" where
  "wrap64 i = (i + 2 ^ 63) mod 2 ^ 64 - 2 ^ 63"

definition time_sub :: "gotime \<Rightarrow> gotime \<Rightarrow> duration" where
  "time_sub t u = max (- (2 ^ 63)) (min (2 ^ 63 - 1) (t - u))"

text \<open>Go's integer division, which rounds towards zero.\<close>

definition go_div :: "int \<Rightarrow> int \<Rightarrow> int" where
  "go_div a b = sgn a * sgn b * (\<bar>a\<bar> div \<bar>b\<bar>)"

abbreviation millisecond :: duration where "millisecond \<equiv> 1000000"
abbreviation second :: duration where "second \<equiv> 1000000000"
abbreviation minute :: duration where "minute \<equiv> 60000000000"

subsection \<open>Strings\<close>

definition has_prefix :: "string \<Rightarrow> string \<Rightarrow> bool" where
  "has_prefix s p \<longleftrightarrow> take (length p) s = p"

definition has_suffix :: "string \<Rightarrow> string \<Rightarrow> bool" where
  "has_suffix s p \<longleftrightarrow> length p \<le> length s \<and> drop (length s - length p) s = p"

definition cut_prefix :: "string \<Rightarrow> string \<Rightarrow> string option" where
  "cut_prefix s p = (if has_prefix s p then Some (drop (length p) s) else None)"

definition cut_suffix :: "string \<Rightarrow> string \<Rightarrow> string option" where
  "cut_suffix s p = (if has_suffix s p then Some (take (length s - length p) s) else None)"

definition trim_prefix :: "string \<Rightarrow> string \<Rightarrow> string" where
  "trim_prefix s p = (if has_prefix s p then drop (length p) s else s)"

definition trim_suffix :: "string \<Rightarrow> string \<Rightarrow> string" where
  "trim_suffix s p = (if has_suffix s p then take (length s - length p) s else s)"

fun str_index :: "string \<Rightarrow> string \<Rightarrow> nat option" where
  "str_index [] p = (if p = [] then Some 0 else None)"
| "str_index (c # s) p =
     (if has_prefix (c # s) p then Some 0 else map_option Suc (str_index s p))"

fun str_last_index :: "string \<Rightarrow> string \<Rightarrow> nat option" where
  "str_last_index [] p = (if p = [] then Some 0 else None)"
| "str_last_index (c # s) p =
     (case str_last_index s p of
        Some i \<Rightarrow> Some (Suc i)
      | None \<Rightarrow> (if has_prefix (c # s) p then Some 0 else None))"

definition str_contains :: "string \<Rightarrow> string \<Rightarrow> bool" where
  "str_contains s p \<longleftrightarrow> str_index s p \<noteq> None"

definition str_cut :: "string \<Rightarrow> string \<Rightarrow> string \<times> string \<times> bool" where
  "str_cut s sep =
     (case str_index s sep of
        None \<Rightarrow> (s, [], False)
      | Some i \<Rightarrow> (take i s, drop (i + length sep) s, True))"

definition contains_any :: "string \<Rightarrow> string \<Rightarrow> bool" where
  "contains_any s cs \<longleftrightarrow> list_ex (\<lambda>c. c \<in> set cs) s"

definition trim_left :: "string \<Rightarrow> string \<Rightarrow> string" where
  "trim_left s cs = dropWhile (\<lambda>c. c \<in> set cs) s"

definition trim_right :: "string \<Rightarrow> string \<Rightarrow> string" where
  "trim_right s cs = rev (dropWhile (\<lambda>c. c \<in> set cs) (rev s))"

text \<open>The white space runes of \<open>unicode.IsSpace\<close>, in UTF-8.\<close>

definition space_runes :: "string list" where
  "space_runes =
     [[CHR 0x20], [CHR 0x09], [CHR 0x0A], [CHR 0x0B], [CHR 0x0C], [CHR 0x0D],
      [CHR 0xC2, CHR 0x85], [CHR 0xC2, CHR 0xA0], [CHR 0xE1, CHR 0x9A, CHR 0x80],
      [CHR 0xE2, CHR 0x80, CHR 0x80], [CHR 0xE2, CHR 0x80, CHR 0x81],
      [CHR 0xE2, CHR 0x80, CHR 0x82], [CHR 0xE2, CHR 0x80, CHR 0x83],
      [CHR 0xE2, CHR 0x80, CHR 0x84], [CHR 0xE2, CHR 0x80, CHR 0x85],
      [CHR 0xE2, CHR 0x80, CHR 0x86], [CHR 0xE2, CHR 0x80, CHR 0x87],
      [CHR 0xE2, CHR 0x80, CHR 0x88], [CHR 0xE2, CHR 0x80, CHR 0x89],
      [CHR 0xE2, CHR 0x80, CHR 0x8A], [CHR 0xE2, CHR 0x80, CHR 0xA8],
      [CHR 0xE2, CHR 0x80, CHR 0xA9], [CHR 0xE2, CHR 0x80, CHR 0xAF],
      [CHR 0xE2, CHR 0x81, CHR 0x9F], [CHR 0xE3, CHR 0x80, CHR 0x80]]"

definition space_at_front :: "string \<Rightarrow> nat" where
  "space_at_front s =
     (case find (\<lambda>r. has_prefix s r) space_runes of None \<Rightarrow> 0 | Some r \<Rightarrow> length r)"

definition space_at_end :: "string \<Rightarrow> nat" where
  "space_at_end s =
     (case find (\<lambda>r. has_suffix s r) space_runes of None \<Rightarrow> 0 | Some r \<Rightarrow> length r)"

lemma space_at_front_le: "space_at_front s \<le> length s"
  by (auto simp: space_at_front_def has_prefix_def find_Some_iff split: option.splits)
    (metis length_take min.cobounded1)

lemma space_at_end_le: "space_at_end s \<le> length s"
  by (auto simp: space_at_end_def has_suffix_def find_Some_iff split: option.splits)

lemma space_shrinks:
  "0 < space_at_front s \<Longrightarrow> length s - space_at_front s < length s"
  "0 < space_at_end s \<Longrightarrow> length s - space_at_end s < length s"
  using space_at_front_le [of s] space_at_end_le [of s] by auto

function trim_left_space :: "string \<Rightarrow> string" where
  "trim_left_space s =
     (if space_at_front s = 0 then s else trim_left_space (drop (space_at_front s) s))"
  by pat_completeness auto
termination
  by (relation "measure length") (auto intro: space_shrinks)

function trim_right_space :: "string \<Rightarrow> string" where
  "trim_right_space s =
     (if space_at_end s = 0 then s
      else trim_right_space (take (length s - space_at_end s) s))"
  by pat_completeness auto
termination
  by (relation "measure length") (auto intro: space_shrinks)

declare trim_left_space.simps [simp del] trim_right_space.simps [simp del]

definition trim_space :: "string \<Rightarrow> string" where
  "trim_space s = trim_right_space (trim_left_space s)"

text \<open>\<open>strings.Fields\<close>: the maximal runs of bytes that no white space rune covers.\<close>

function fields_from :: "string \<Rightarrow> string \<Rightarrow> string list" where
  "fields_from cur s =
     (if s = [] then (if cur = [] then [] else [rev cur])
      else if space_at_front s = 0 then fields_from (hd s # cur) (tl s)
      else (if cur = [] then [] else [rev cur]) @ fields_from [] (drop (space_at_front s) s))"
  by pat_completeness auto
termination
  by (relation "measure (\<lambda>(cur, s). length s)") auto

declare fields_from.simps [simp del]

definition str_fields :: "string \<Rightarrow> string list" where
  "str_fields s = fields_from [] s"

definition lower_char :: "char \<Rightarrow> char" where
  "lower_char c =
     (if CHR ''A'' \<le> c \<and> c \<le> CHR ''Z'' then char_of (of_char c + (32 :: nat)) else c)"

text \<open>
  \<open>strings.ToLower\<close>. U+212A (KELVIN SIGN) and U+0130 (LATIN CAPITAL LETTER I WITH DOT
  ABOVE) are the two non-ASCII runes whose lower case is an ASCII letter.
\<close>

fun to_lower :: "string \<Rightarrow> string" where
  "to_lower [] = []"
| "to_lower (c # s) =
     (if take 3 (c # s) = [CHR 0xE2, CHR 0x84, CHR 0xAA] then CHR ''k'' # to_lower (drop 2 s)
      else if take 2 (c # s) = [CHR 0xC4, CHR 0xB0] then CHR ''i'' # to_lower (drop 1 s)
      else lower_char c # to_lower s)"

text \<open>
  The folding \<open>strings.EqualFold\<close> compares under: U+212A folds with the letter k and
  U+017F (LATIN SMALL LETTER LONG S) with the letter s.
\<close>

fun fold_case :: "string \<Rightarrow> string" where
  "fold_case [] = []"
| "fold_case (c # s) =
     (if take 3 (c # s) = [CHR 0xE2, CHR 0x84, CHR 0xAA] then CHR ''k'' # fold_case (drop 2 s)
      else if take 2 (c # s) = [CHR 0xC5, CHR 0xBF] then CHR ''s'' # fold_case (drop 1 s)
      else lower_char c # fold_case s)"

definition equal_fold :: "string \<Rightarrow> string \<Rightarrow> bool" where
  "equal_fold a b \<longleftrightarrow> fold_case a = fold_case b"

subsection \<open>Numbers in decimal\<close>

definition is_digit :: "char \<Rightarrow> bool" where
  "is_digit c \<longleftrightarrow> CHR ''0'' \<le> c \<and> c \<le> CHR ''9''"

definition digit_val :: "char \<Rightarrow> nat" where
  "digit_val c = of_char c - 48"

definition digit_char :: "nat \<Rightarrow> char" where
  "digit_char d = char_of (48 + d)"

fun digits_val :: "nat \<Rightarrow> string \<Rightarrow> nat" where
  "digits_val acc [] = acc"
| "digits_val acc (c # s) = digits_val (acc * 10 + digit_val c) s"

fun show_nat :: "nat \<Rightarrow> string" where
  "show_nat n = (if n < 10 then [digit_char n] else show_nat (n div 10) @ [digit_char (n mod 10)])"

declare show_nat.simps [simp del]

text \<open>\<open>strconv.Itoa\<close> and \<open>strconv.FormatInt\<close> in base 10.\<close>

definition itoa :: "int \<Rightarrow> string" where
  "itoa i = (if i < 0 then CHR ''-'' # show_nat (nat (- i)) else show_nat (nat i))"

text \<open>\<open>strconv.ParseUint(s, 10, bits)\<close>: digits only, and in range.\<close>

definition parse_uint :: "nat \<Rightarrow> string \<Rightarrow> nat option" where
  "parse_uint bits s =
     (if s = [] \<or> \<not> list_all is_digit s then None
      else let n = digits_val 0 s in if n < 2 ^ bits then Some n else None)"

text \<open>\<open>strconv.ParseInt(s, 10, 64)\<close> and \<open>strconv.Atoi\<close> on a 64-bit platform.\<close>

definition parse_int :: "string \<Rightarrow> int option" where
  "parse_int s =
     (let neg = has_prefix s ''-'';
          t = (if neg \<or> has_prefix s ''+'' then drop 1 s else s)
      in if t = [] \<or> \<not> list_all is_digit t then None
         else let n = int (digits_val 0 t)
              in if neg then (if n \<le> 2 ^ 63 then Some (- n) else None)
                 else (if n < 2 ^ 63 then Some n else None))"

section \<open>Lemmas\<close>

subsection \<open>Prefixes, suffixes and cuts\<close>

lemma has_prefix_append [simp]: "has_prefix (p @ s) p"
  by (simp add: has_prefix_def)

lemma has_prefix_iff: "has_prefix s p \<longleftrightarrow> (\<exists>t. s = p @ t)"
  by (auto simp: has_prefix_def) (metis append_take_drop_id)

lemma has_suffix_append [simp]: "has_suffix (s @ p) p"
  by (simp add: has_suffix_def)

lemma has_suffix_iff: "has_suffix s p \<longleftrightarrow> (\<exists>t. s = t @ p)"
proof
  assume "has_suffix s p"
  then have "s = take (length s - length p) s @ p"
    by (auto simp: has_suffix_def) (metis append_take_drop_id)
  then show "\<exists>t. s = t @ p" ..
qed auto

lemma has_prefix_Nil [simp]: "has_prefix s []"
  by (simp add: has_prefix_def)

lemma has_prefix_of_Nil [simp]: "has_prefix [] p \<longleftrightarrow> p = []"
  by (auto simp: has_prefix_def)

lemma has_prefix_Cons [simp]: "has_prefix (c # s) (d # p) \<longleftrightarrow> c = d \<and> has_prefix s p"
  by (auto simp: has_prefix_def)

lemma cut_prefix_append [simp]: "cut_prefix (p @ s) p = Some s"
  by (simp add: cut_prefix_def)

lemma cut_prefix_Some: "cut_prefix s p = Some t \<Longrightarrow> s = p @ t"
  by (auto simp: cut_prefix_def has_prefix_iff split: if_splits)

lemma cut_suffix_append [simp]: "cut_suffix (s @ p) p = Some s"
  by (simp add: cut_suffix_def)

lemma cut_suffix_Some: "cut_suffix s p = Some t \<Longrightarrow> s = t @ p"
  by (auto simp: cut_suffix_def has_suffix_iff split: if_splits)

lemma str_index_Some: "str_index s p = Some i \<Longrightarrow> s = take i s @ p @ drop (i + length p) s"
proof (induction s arbitrary: i)
  case Nil
  then show ?case by (auto split: if_splits)
next
  case (Cons c s)
  show ?case
  proof (cases "has_prefix (c # s) p")
    case True
    with Cons.prems show ?thesis
      by (auto simp: has_prefix_iff)
  next
    case False
    with Cons.prems obtain j where j: "str_index s p = Some j" "i = Suc j"
      by auto
    with Cons.IH show ?thesis by simp
  qed
qed

lemma str_index_le: "str_index s p = Some i \<Longrightarrow> i + length p \<le> length s"
proof (induction s arbitrary: i)
  case Nil
  then show ?case by (auto split: if_splits)
next
  case (Cons c s)
  then show ?case
    by (auto simp: has_prefix_iff split: if_splits)
      (metis length_Cons length_append le_add1)
qed

lemma str_cut_found: "str_cut s sep = (a, b, True) \<Longrightarrow> s = a @ sep @ b"
  by (auto simp: str_cut_def dest: str_index_Some split: option.splits)

lemma str_cut_not_found: "str_cut s sep = (a, b, False) \<Longrightarrow> a = s \<and> b = []"
  by (auto simp: str_cut_def split: option.splits)

text \<open>A separator is found where it first occurs.\<close>

lemma str_index_append:
  assumes "p \<noteq> []" "hd p \<notin> set a"
  shows "str_index (a @ p @ b) p = Some (length a)"
  using assms(2)
proof (induction a)
  case Nil
  obtain c q where "p = c # q" using assms(1) by (cases p) auto
  then show ?case using has_prefix_append [of p b] by simp
next
  case (Cons c a)
  have "\<not> has_prefix (c # (a @ p @ b)) p"
    using Cons.prems assms(1) by (cases p) auto
  with Cons show ?case by simp
qed

lemma str_cut_append:
  "p \<noteq> [] \<Longrightarrow> hd p \<notin> set a \<Longrightarrow> str_cut (a @ p @ b) p = (a, b, True)"
  by (simp add: str_cut_def str_index_append)

lemma str_index_None_if:
  "p \<noteq> [] \<Longrightarrow> hd p \<notin> set s \<Longrightarrow> str_index s p = None"
  by (induction s) (auto simp: has_prefix_def, cases p, auto)

subsection \<open>Decimal numbers\<close>

lemma of_char_digit_char [simp]: "d < 10 \<Longrightarrow> (of_char (digit_char d) :: nat) = 48 + d"
  by (simp add: digit_char_def)

lemma is_digit_iff: "is_digit c \<longleftrightarrow> 48 \<le> (of_char c :: nat) \<and> (of_char c :: nat) \<le> 57"
  by (simp add: is_digit_def less_eq_char_def)

lemma is_digit_digit_char [simp]: "d < 10 \<Longrightarrow> is_digit (digit_char d)"
  by (simp add: is_digit_iff)

lemma digit_val_digit_char [simp]: "d < 10 \<Longrightarrow> digit_val (digit_char d) = d"
  by (simp add: digit_val_def)

lemma digits_val_append [simp]: "digits_val acc (s @ t) = digits_val (digits_val acc s) t"
  by (induction acc s rule: digits_val.induct) auto

lemma digits_val_show_nat [simp]: "digits_val 0 (show_nat n) = n"
proof (induction n rule: show_nat.induct)
  case (1 n)
  then show ?case by (cases "n < 10") (simp_all add: show_nat.simps [of n])
qed

lemma show_nat_digits [simp]: "list_all is_digit (show_nat n)"
proof (induction n rule: show_nat.induct)
  case (1 n)
  then show ?case by (cases "n < 10") (simp_all add: show_nat.simps [of n])
qed

lemma show_nat_not_Nil [simp]: "show_nat n \<noteq> []"
  by (simp add: show_nat.simps [of n])

lemma show_nat_digit_mem: "c \<in> set (show_nat n) \<Longrightarrow> is_digit c"
  using show_nat_digits [of n] by (simp add: list_all_iff)

lemma parse_uint_show_nat [simp]: "n < 2 ^ b \<Longrightarrow> parse_uint b (show_nat n) = Some n"
  by (simp add: parse_uint_def)

lemma parse_int_show_nat:
  assumes "n < 2 ^ 63"
  shows "parse_int (show_nat n) = Some (int n)"
proof -
  obtain c s where cs: "show_nat n = c # s"
    using show_nat_not_Nil [of n] by (cases "show_nat n") auto
  then have "is_digit c"
    using show_nat_digit_mem [of c n] by simp
  then have "c \<noteq> CHR ''-'' \<and> c \<noteq> CHR ''+''"
    by (auto simp: is_digit_iff)
  then have "\<not> has_prefix (show_nat n) ''-''" "\<not> has_prefix (show_nat n) ''+''"
    by (auto simp: cs)
  with assms show ?thesis
    by (simp add: parse_int_def Let_def del: has_prefix_Cons)
qed

subsection \<open>White space\<close>

lemma space_runes_nonempty: "r \<in> set space_runes \<Longrightarrow> r \<noteq> []"
  by (auto simp: space_runes_def)

lemma space_at_front_0_iff: "space_at_front s = 0 \<longleftrightarrow> (\<forall>r \<in> set space_runes. \<not> has_prefix s r)"
  by (auto simp: space_at_front_def find_None_iff find_Some_iff space_runes_nonempty
      split: option.splits)

lemma space_at_end_0_iff: "space_at_end s = 0 \<longleftrightarrow> (\<forall>r \<in> set space_runes. \<not> has_suffix s r)"
  by (auto simp: space_at_end_def find_None_iff find_Some_iff space_runes_nonempty
      split: option.splits)

lemma trim_left_space_clean: "space_at_front (trim_left_space s) = 0"
proof (induction s rule: trim_left_space.induct)
  case (1 s)
  then show ?case
    by (cases "space_at_front s = 0") (simp_all add: trim_left_space.simps [of s])
qed

lemma trim_right_space_clean: "space_at_end (trim_right_space s) = 0"
proof (induction s rule: trim_right_space.induct)
  case (1 s)
  then show ?case
    by (cases "space_at_end s = 0") (simp_all add: trim_right_space.simps [of s])
qed

lemma trim_right_space_prefix: "prefix (trim_right_space s) s"
proof (induction s rule: trim_right_space.induct)
  case (1 s)
  then show ?case
    by (cases "space_at_end s = 0")
      (auto simp: trim_right_space.simps [of s] intro: prefix_order.trans take_is_prefix)
qed

lemma space_at_front_prefix: "prefix t s \<Longrightarrow> space_at_front s = 0 \<Longrightarrow> space_at_front t = 0"
  by (auto simp: space_at_front_0_iff has_prefix_iff prefix_def)

lemma trim_space_clean:
  "space_at_front (trim_space s) = 0" "space_at_end (trim_space s) = 0"
  unfolding trim_space_def
  by (rule space_at_front_prefix [OF trim_right_space_prefix trim_left_space_clean])
    (rule trim_right_space_clean)

lemma trim_space_id: "space_at_front s = 0 \<Longrightarrow> space_at_end s = 0 \<Longrightarrow> trim_space s = s"
  by (simp add: trim_space_def trim_left_space.simps [of s] trim_right_space.simps [of s])

lemma trim_space_idem [simp]: "trim_space (trim_space s) = trim_space s"
  by (simp add: trim_space_id trim_space_clean)

lemma trim_space_Nil [simp]: "trim_space [] = []"
proof -
  have "space_at_front [] = 0" "space_at_end [] = 0"
    using space_at_front_le [of "[]"] space_at_end_le [of "[]"] by simp_all
  then show ?thesis by (rule trim_space_id)
qed

subsection \<open>Time\<close>

lemma wrap64_id: "- (2 ^ 63) \<le> i \<Longrightarrow> i < 2 ^ 63 \<Longrightarrow> wrap64 i = i"
  by (simp add: wrap64_def)

lemma time_sub_nonneg_iff: "0 \<le> time_sub t u \<longleftrightarrow> u \<le> t"
  by (auto simp: time_sub_def)

lemma time_sub_exact: "\<bar>t - u\<bar> < 2 ^ 63 \<Longrightarrow> time_sub t u = t - u"
  by (auto simp: time_sub_def)

lemma time_sub_mono: "t \<le> t' \<Longrightarrow> time_sub t u \<le> time_sub t' u"
  by (auto simp: time_sub_def)

lemma time_sub_ge_iff: "- (2 ^ 63) < d \<Longrightarrow> d < 2 ^ 63 \<Longrightarrow> d \<le> time_sub t u \<longleftrightarrow> u + d \<le> t"
  by (auto simp: time_sub_def)

lemma time_sub_bounds: "- (2 ^ 63) \<le> time_sub t u" "time_sub t u < 2 ^ 63"
  by (auto simp: time_sub_def)

subsection \<open>Runs of a component\<close>

text \<open>
  A component whose calls are serialised by a mutex is a step function on its state. An
  invariant that each call keeps holds after every sequence of calls.
\<close>

locale invariant_run =
  fixes step :: "'s \<Rightarrow> 'op \<Rightarrow> 's"
    and inv :: "'s \<Rightarrow> bool"
  assumes step_inv: "inv s \<Longrightarrow> inv (step s op)"
begin

lemma run_inv: "inv s \<Longrightarrow> inv (foldl step s ops)"
  by (induction ops arbitrary: s) (auto intro: step_inv)

end

lemmas [go_simps] =
  has_prefix_def has_suffix_def cut_prefix_def cut_suffix_def trim_prefix_def trim_suffix_def
  str_contains_def str_cut_def contains_any_def trim_left_def trim_right_def

end
