(* ===== verification/Singbox_Log.thy ===== *)
theory Singbox_Log
  imports Go_Prelude
begin

text \<open>
  The log parser of \<open>internal/singboxlog\<close> (\<open>types.go\<close>, \<open>parse.go\<close>). The \<open>Line\<close> struct is the
  record \<^verbatim>\<open>log_line\<close>; the functions that fill it through a pointer return the filled
  record, and those that also report whether they recognised the message return an option.
  \<open>json.Unmarshal\<close> of an entry is a parameter of \<^verbatim>\<open>ParseEntry\<close>. \<open>time.ParseDuration\<close>, the
  fallback for an elapsed time, is modelled after Go's library; its product with the decimal
  fraction is taken exactly where Go uses a float64.
\<close>

section \<open>Definitions\<close>

subsection \<open>Types\<close>

datatype event =
    EventInboundFrom
  | EventInboundTo
  | EventRuleMatch
  | EventSniffed
  | EventOutboundTo
  | EventDNS
  | EventFinished
  | EventClosed
  | EventConnectionClosed
  | EventDialFailed
  | EventAuthFailed
  | EventHandshakeFailed
  | EventOther

text \<open>\<open>TagUnset\<close> is the zero value of Go's string type.\<close>

datatype tag_kind =
    TagUnset
  | TagInbound
  | TagOutbound
  | TagRouter
  | TagConnection
  | TagDNS
  | TagOther

datatype direction = DirectionNone | DirectionUpload | DirectionDownload

record log_line =
  ln_At :: gotime
  ln_Level :: string
  ln_LogID :: "32 word"
  ln_HasLogID :: bool
  ln_ElapsedMS :: int
  ln_Tag :: string
  ln_TagKind :: tag_kind
  ln_TagType :: string
  ln_TagName :: string
  ln_Event :: event
  ln_Message :: string
  ln_Raw :: string
  ln_User :: string
  ln_SrcIP :: string
  ln_SrcPort :: int
  ln_DstHost :: string
  ln_DstPort :: int
  ln_RuleIndex :: int
  ln_HasRule :: bool
  ln_RuleText :: string
  ln_Action :: string
  ln_Outbound :: string
  ln_SniffProtocol :: string
  ln_SniffDomain :: string
  ln_DNSDomain :: string
  ln_DNSResult :: "string list"
  ln_Direction :: direction
  ln_Error :: string
  ln_OutboundType :: string
  ln_OutboundName :: string
  ln_Packet :: bool

definition blank_line :: "gotime \<Rightarrow> string \<Rightarrow> string \<Rightarrow> log_line" where
  "blank_line at level raw =
     \<lparr>ln_At = at, ln_Level = level, ln_LogID = 0, ln_HasLogID = False, ln_ElapsedMS = 0,
      ln_Tag = [], ln_TagKind = TagUnset, ln_TagType = [], ln_TagName = [],
      ln_Event = EventOther, ln_Message = [], ln_Raw = raw, ln_User = [], ln_SrcIP = [],
      ln_SrcPort = 0, ln_DstHost = [], ln_DstPort = 0, ln_RuleIndex = 0, ln_HasRule = False,
      ln_RuleText = [], ln_Action = [], ln_Outbound = [], ln_SniffProtocol = [],
      ln_SniffDomain = [], ln_DNSDomain = [], ln_DNSResult = [], ln_Direction = DirectionNone,
      ln_Error = [], ln_OutboundType = [], ln_OutboundName = [], ln_Packet = False\<rparr>"

definition Parsed :: "log_line \<Rightarrow> bool" where
  "Parsed l \<longleftrightarrow> ln_Event l \<noteq> EventOther"

subsection \<open>Small readers\<close>

definition allDigits :: "string \<Rightarrow> bool" where
  "allDigits s \<longleftrightarrow> s \<noteq> [] \<and> list_all is_digit s"

definition parsePort :: "string \<Rightarrow> int option" where
  "parsePort s =
     (if s = [] \<or> \<not> allDigits s then None
      else case parse_int s of
             None \<Rightarrow> None
           | Some n \<Rightarrow> (if n < 0 \<or> n > 65535 then None else Some n))"

definition splitHostPort :: "string \<Rightarrow> string \<times> int" where
  "splitHostPort s =
     (if s = [] then ([], 0)
      else if has_prefix s ''['' then
        (case str_last_index s '']'' of
           None \<Rightarrow> (s, 0)
         | Some e \<Rightarrow>
             let inner = drop 1 (take e s); tail = drop (e + 1) s
             in if tail = [] then (inner, 0)
                else case cut_prefix tail '':'' of
                       None \<Rightarrow> (s, 0)
                     | Some text \<Rightarrow>
                         (case parsePort text of None \<Rightarrow> (s, 0) | Some n \<Rightarrow> (inner, n)))
      else
        (case str_last_index s '':'' of
           None \<Rightarrow> (s, 0)
         | Some i \<Rightarrow>
             if str_index (take i s) '':'' \<noteq> None then (s, 0)
             else case parsePort (drop (i + 1) s) of
                    None \<Rightarrow> (s, 0)
                  | Some n \<Rightarrow> (take i s, n)))"

definition is_param_byte :: "char \<Rightarrow> bool" where
  "is_param_byte c \<longleftrightarrow> CHR 0x20 \<le> c \<and> c \<le> CHR 0x3F"

function stripANSI :: "string \<Rightarrow> string" where
  "stripANSI s =
     (case s of
        [] \<Rightarrow> []
      | c # t \<Rightarrow>
          if c \<noteq> CHR 0x1B then c # stripANSI t
          else if has_prefix t ''['' then stripANSI (drop 1 (dropWhile is_param_byte (drop 1 t)))
          else stripANSI t)"
  by pat_completeness auto
termination
proof (relation "measure length", goal_cases)
  case (3 s c t)
  have "length (dropWhile is_param_byte (drop 1 t)) \<le> length (drop 1 t)"
    by (rule length_dropWhile_le)
  with 3 show ?case by simp
qed auto

declare stripANSI.simps [simp del]

subsection \<open>Elapsed times\<close>

definition unit_ns :: "string \<Rightarrow> nat option" where
  "unit_ns u =
     map_of [(''ns'', 1), (''us'', 1000), ([CHR 0xC2, CHR 0xB5, CHR ''s''], 1000),
             ([CHR 0xCE, CHR 0xBC, CHR ''s''], 1000), (''ms'', 1000000),
             (''s'', 1000000000), (''m'', 60000000000), (''h'', 3600000000000)] u"

text \<open>\<open>leadingFraction\<close> of package time: the digits, the power of ten they are over.\<close>

fun leading_fraction :: "nat \<Rightarrow> nat \<Rightarrow> bool \<Rightarrow> string \<Rightarrow> nat \<times> nat" where
  "leading_fraction x scale overflow [] = (x, scale)"
| "leading_fraction x scale overflow (c # s) =
     (if \<not> is_digit c then (x, scale)
      else if overflow then leading_fraction x scale True s
      else if x > (2 ^ 63 - 1) div 10 then leading_fraction x scale True s
      else let y = x * 10 + digit_val c
           in if y > 2 ^ 63 then leading_fraction x scale True s
              else leading_fraction y (scale * 10) False s)"

definition is_num_byte :: "char \<Rightarrow> bool" where
  "is_num_byte c \<longleftrightarrow> c = CHR ''.'' \<or> is_digit c"

function duration_loop :: "string \<Rightarrow> nat \<Rightarrow> nat option" where
  "duration_loop s d =
     (if s = [] then Some d
      else if \<not> is_num_byte (hd s) then None
      else
        let ds = takeWhile is_digit s; v = digits_val 0 ds; s1 = dropWhile is_digit s;
            dot = has_prefix s1 ''.''; s2 = (if dot then tl s1 else s1);
            fs = (if dot then takeWhile is_digit s2 else []);
            (f, scale) = (if dot then leading_fraction 0 1 False s2 else (0, 1));
            s3 = (if dot then dropWhile is_digit s2 else s1);
            u = takeWhile (\<lambda>c. \<not> is_num_byte c) s3
        in if v > 2 ^ 63 then None
           else if ds = [] \<and> fs = [] then None
           else if u = [] then None
           else case unit_ns u of
                  None \<Rightarrow> None
                | Some un \<Rightarrow>
                    if v > 2 ^ 63 div un then None
                    else let v2 = v * un + f * un div scale
                         in if v2 > 2 ^ 63 then None
                            else if d + v2 > 2 ^ 63 then None
                            else duration_loop (dropWhile (\<lambda>c. \<not> is_num_byte c) s3) (d + v2))"
  by pat_completeness auto
termination
proof (relation "measure (\<lambda>(s, d). length s)", goal_cases)
  case 1
  then show ?case by simp
next
  case (2 s d ds v s1 dot s2 fs p f scale s3 u un v2)
  have s1: "length s1 \<le> length s"
    unfolding 2(5) by (rule length_dropWhile_le)
  have "length s2 \<le> length s1"
    unfolding 2(7) by simp
  moreover have "length (dropWhile is_digit s2) \<le> length s2"
    by (rule length_dropWhile_le)
  ultimately have s3: "length s3 \<le> length s"
    using s1 unfolding 2(11) by (simp split: if_splits)
  have "length (dropWhile (\<lambda>c. \<not> is_num_byte c) s3) < length s3"
    using 2(12,15) by (cases s3) (auto simp: le_imp_less_Suc length_dropWhile_le split: if_splits)
  with s3 show ?case by simp
qed

declare duration_loop.simps [simp del]

definition parse_duration :: "string \<Rightarrow> int option" where
  "parse_duration s0 =
     (let neg = has_prefix s0 ''-'';
          s = (if neg \<or> has_prefix s0 ''+'' then drop 1 s0 else s0)
      in if s = ''0'' then Some 0
         else if s = [] then None
         else case duration_loop s 0 of
                None \<Rightarrow> None
              | Some d \<Rightarrow>
                  (if neg then Some (- int d)
                   else if d > 2 ^ 63 - 1 then None else Some (int d)))"

definition centi_form :: "string \<Rightarrow> (string \<times> string) option" where
  "centi_form s =
     (case cut_suffix s ''s'' of
        None \<Rightarrow> None
      | Some v \<Rightarrow>
          (case str_cut v ''.'' of
             (seconds, frac, found) \<Rightarrow>
               if found \<and> 1 \<le> length frac \<and> length frac \<le> 2 \<and> allDigits seconds \<and> allDigits frac
               then Some (seconds, frac) else None))"

definition parseElapsedMS :: "string \<Rightarrow> int option" where
  "parseElapsedMS s =
     (if s = [] then None
      else case cut_suffix s ''ms'' of
        Some v \<Rightarrow> parse_int v
      | None \<Rightarrow>
          (case centi_form s of
             Some (seconds, frac) \<Rightarrow>
               (case parse_int seconds of
                  None \<Rightarrow> None
                | Some whole \<Rightarrow>
                    (case parse_int frac of
                       None \<Rightarrow> None
                     | Some centis \<Rightarrow> Some (wrap64 (whole * 1000 + centis * 10))))
           | None \<Rightarrow> map_option (\<lambda>d. go_div d 1000000) (parse_duration s)))"

subsection \<open>The parts of a line\<close>

text \<open>The second component is 0 when the elapsed time cannot be read.\<close>

definition cutLogID :: "string \<Rightarrow> (32 word \<times> int \<times> string) option" where
  "cutLogID s =
     (if \<not> has_prefix s ''['' then None
      else case str_index s '']'' of
        None \<Rightarrow> None
      | Some e \<Rightarrow>
          (case str_cut (drop 1 (take e s)) '' '' of
             (idText, durText, found) \<Rightarrow>
               if \<not> found then None
               else case parse_uint 32 idText of
                      None \<Rightarrow> None
                    | Some n \<Rightarrow>
                        Some (of_nat n,
                              (case parseElapsedMS durText of None \<Rightarrow> 0 | Some ms \<Rightarrow> ms),
                              trim_prefix (drop (e + 1) s) '' '')))"

definition cutTag :: "string \<Rightarrow> string \<times> string" where
  "cutTag s =
     (case str_index s '': '' of
        None \<Rightarrow> ([], s)
      | Some i \<Rightarrow>
          (if i = 0 then ([], s)
           else let candidate = take i s
                in if contains_any candidate [CHR '' '', CHR 0x09] then ([], s)
                   else (candidate, drop (i + 2) s)))"

definition bracket_split :: "string \<Rightarrow> string \<times> string" where
  "bracket_split rest =
     (case str_index rest ''['' of
        None \<Rightarrow> (rest, [])
      | Some i \<Rightarrow>
          (if has_suffix rest '']'' then (take i rest, drop (i + 1) (take (length rest - 1) rest))
           else (rest, [])))"

definition decomposeTag :: "string \<Rightarrow> tag_kind \<times> string \<times> string" where
  "decomposeTag tag =
     (if tag = [] then (TagOther, [], [])
      else case str_cut tag ''/'' of
        (kind, rest, ok) \<Rightarrow>
          if \<not> ok then
            ((if tag = ''inbound'' then TagInbound
              else if tag = ''outbound'' then TagOutbound
              else if tag = ''router'' then TagRouter
              else if tag = ''connection'' then TagConnection
              else if tag = ''dns'' then TagDNS
              else TagOther), [], [])
          else
            let tagKind = (if kind = ''inbound'' then TagInbound
                           else if kind = ''outbound'' then TagOutbound
                           else if kind = ''dns'' then TagDNS
                           else TagOther);
                (tagType, tagName) = bracket_split rest
            in (tagKind, tagType, tagName))"

definition fileLevel :: "string \<Rightarrow> string option" where
  "fileLevel token =
     (if token \<in> {''TRACE'', ''DEBUG'', ''INFO'', ''WARN'', ''ERROR'', ''FATAL'', ''PANIC''}
      then Some (to_lower token) else None)"

text \<open>The first argument counts the tokens that may still be looked at.\<close>

fun cutFileLevel :: "nat \<Rightarrow> string \<Rightarrow> (string \<times> string) option" where
  "cutFileLevel 0 s = None"
| "cutFileLevel (Suc n) s =
     (let t = dropWhile (\<lambda>c. c = CHR '' '') s;
          token = takeWhile (\<lambda>c. c \<noteq> CHR '' '') t;
          rest = dropWhile (\<lambda>c. c \<noteq> CHR '' '') t
      in if token = [] then None
         else case fileLevel token of
                Some lower \<Rightarrow> Some (lower, dropWhile (\<lambda>c. c = CHR '' '') rest)
              | None \<Rightarrow> cutFileLevel n rest)"

subsection \<open>Classification\<close>

definition cutUserPrefix :: "string \<Rightarrow> (string \<times> string) option" where
  "cutUserPrefix s =
     (if \<not> has_prefix s ''['' then None
      else case str_index s ''] '' of
        None \<Rightarrow> None
      | Some e \<Rightarrow>
          let user = drop 1 (take e s);
              user' = (if user = [] \<or> allDigits user then [] else user)
          in Some (user', drop (e + 2) s))"

definition is_qualifier_byte :: "char \<Rightarrow> bool" where
  "is_qualifier_byte r \<longleftrightarrow>
     CHR ''a'' \<le> r \<and> r \<le> CHR ''z'' \<or> CHR ''A'' \<le> r \<and> r \<le> CHR ''Z'' \<or>
     CHR ''0'' \<le> r \<and> r \<le> CHR ''9'' \<or> r = CHR '' ''"

definition isQualifier :: "string \<Rightarrow> bool" where
  "isQualifier s \<longleftrightarrow> list_all is_qualifier_byte s"

definition cutQualified :: "string \<Rightarrow> string \<Rightarrow> (string \<times> string) option" where
  "cutQualified s sep =
     (case str_cut s sep of
        (pre, post, found) \<Rightarrow>
          if \<not> found \<or> \<not> isQualifier pre then None else Some (pre, post))"

definition bareConnection :: "string \<Rightarrow> string option" where
  "bareConnection rest =
     (case cut_suffix rest ''connection'' of
        Some qualifier \<Rightarrow> (if isQualifier qualifier then Some qualifier else None)
      | None \<Rightarrow> None)"

definition classifyInbound :: "log_line \<Rightarrow> string \<Rightarrow> log_line option" where
  "classifyInbound l rest =
     (case cutQualified rest ''connection to '' of
        Some (qualifier, dst) \<Rightarrow>
          Some (l\<lparr>ln_Event := EventInboundTo, ln_Packet := str_contains qualifier ''packet'',
                  ln_DstHost := fst (splitHostPort dst), ln_DstPort := snd (splitHostPort dst)\<rparr>)
      | None \<Rightarrow>
          (case cutQualified rest ''connection from '' of
             Some (qualifier, src) \<Rightarrow>
               Some (l\<lparr>ln_Event := EventInboundFrom, ln_Packet := str_contains qualifier ''packet'',
                       ln_SrcIP := fst (splitHostPort src), ln_SrcPort := snd (splitHostPort src)\<rparr>)
           | None \<Rightarrow>
               (case bareConnection rest of
                  Some qualifier \<Rightarrow>
                    Some (l\<lparr>ln_Event := EventInboundTo,
                            ln_Packet := str_contains qualifier ''packet''\<rparr>)
                | None \<Rightarrow> None)))"

definition classifyOutbound :: "log_line \<Rightarrow> string \<Rightarrow> log_line option" where
  "classifyOutbound l rest =
     (case cutQualified rest ''connection to '' of
        Some (qualifier, dst) \<Rightarrow>
          Some (l\<lparr>ln_Event := EventOutboundTo, ln_Packet := str_contains qualifier ''packet'',
                  ln_DstHost := fst (splitHostPort dst), ln_DstPort := snd (splitHostPort dst)\<rparr>)
      | None \<Rightarrow>
          (case bareConnection rest of
             Some qualifier \<Rightarrow>
               Some (l\<lparr>ln_Event := EventOutboundTo,
                       ln_Packet := str_contains qualifier ''packet''\<rparr>)
           | None \<Rightarrow> None))"

definition cutParens :: "string \<Rightarrow> (string \<times> string) option" where
  "cutParens s =
     (if \<not> has_suffix s '')'' then None
      else case str_index s ''('' of
             None \<Rightarrow> None
           | Some i \<Rightarrow> Some (take i s, drop (i + 1) (take (length s - 1) s)))"

text \<open>The rule text and the action of what follows \<open>match[n]\<close>.\<close>

definition rule_and_action :: "string \<Rightarrow> (string \<times> string) option" where
  "rule_and_action tail =
     (case cut_prefix tail ''=> '' of
        Some action \<Rightarrow> Some ([], action)
      | None \<Rightarrow>
          (case str_last_index tail '' => '' of
             Some i \<Rightarrow> Some (take i tail, drop (i + 4) tail)
           | None \<Rightarrow> None))"

definition classifyRuleMatch :: "log_line \<Rightarrow> string \<Rightarrow> log_line option" where
  "classifyRuleMatch l body =
     (let rest = (case cut_prefix body ''pre-match['' of
                    Some trimmed \<Rightarrow> trimmed
                  | None \<Rightarrow> trim_prefix body ''match['')
      in case str_cut rest ''] '' of
           (index, tail, ok) \<Rightarrow>
             if \<not> ok then None
             else case parse_int index of
               None \<Rightarrow> None
             | Some n \<Rightarrow>
                 (case rule_and_action tail of
                    None \<Rightarrow> None
                  | Some (ruleText, action) \<Rightarrow>
                      let l1 = l\<lparr>ln_Event := EventRuleMatch, ln_RuleIndex := n, ln_HasRule := True,
                                 ln_RuleText := ruleText, ln_Action := action\<rparr>
                      in Some (case cutParens action of
                                 None \<Rightarrow> l1
                               | Some (name, args) \<Rightarrow>
                                   (if name = ''route'' \<or> name = ''bypass''
                                    then l1\<lparr>ln_Action := name,
                                            ln_Outbound := fst (str_cut args '','')\<rparr>
                                    else l1\<lparr>ln_Action := name\<rparr>))))"

text \<open>The loop over the parts after the protocol.\<close>

lemma str_cut_shrinks: "s \<noteq> [] \<Longrightarrow> sep \<noteq> [] \<Longrightarrow> length (fst (snd (str_cut s sep))) < length s"
  by (auto simp: str_cut_def split: option.splits)

function sniffed_parts :: "log_line \<Rightarrow> string \<Rightarrow> log_line" where
  "sniffed_parts l tail =
     (if tail = [] then l
      else let part = fst (str_cut tail '', ''); tail' = fst (snd (str_cut tail '', ''))
           in sniffed_parts
                (case cut_prefix part ''domain: '' of
                   Some domain \<Rightarrow> l\<lparr>ln_SniffDomain := domain\<rparr>
                 | None \<Rightarrow> l) tail')"
  by pat_completeness auto
termination
  by (relation "measure (\<lambda>(l, tail). length tail)") (auto intro: str_cut_shrinks)

declare sniffed_parts.simps [simp del]

definition classifySniffed :: "log_line \<Rightarrow> string \<Rightarrow> log_line" where
  "classifySniffed l rest =
     (case str_cut rest '', '' of
        (protocol, tail, _) \<Rightarrow>
          sniffed_parts (l\<lparr>ln_Event := EventSniffed, ln_SniffProtocol := protocol\<rparr>) tail)"

definition classifyDialFailure :: "log_line \<Rightarrow> string \<Rightarrow> log_line option" where
  "classifyDialFailure l body =
     (let opened = (case cut_prefix body ''open connection to '' of
                      Some rest \<Rightarrow> Some (rest, False)
                    | None \<Rightarrow>
                        (case cut_prefix body ''open packet connection to '' of
                           Some rest \<Rightarrow> Some (rest, True)
                         | None \<Rightarrow> None))
      in case opened of
           None \<Rightarrow> None
         | Some (rest, packet) \<Rightarrow>
             let (l1, dst, errText) =
               (case str_index rest '' using outbound/'' of
                  Some i \<Rightarrow>
                    (case str_cut (drop (i + length '' using outbound/'') rest) '': '' of
                       (outbound, cause, found) \<Rightarrow>
                         (case bracket_split outbound of
                            (ty, name) \<Rightarrow>
                              (l\<lparr>ln_OutboundType := ty, ln_OutboundName := name\<rparr>, take i rest,
                               if found then cause else [])))
                | None \<Rightarrow>
                    (case str_cut rest '': '' of
                       (host, cause, found) \<Rightarrow>
                         if found then (l, host, cause) else (l, rest, [])))
             in Some (l1\<lparr>ln_Event := EventDialFailed, ln_Packet := packet,
                         ln_DstHost := fst (splitHostPort dst),
                         ln_DstPort := snd (splitHostPort dst), ln_Error := errText\<rparr>))"

definition isHandshakeError :: "string \<Rightarrow> bool" where
  "isHandshakeError errText \<longleftrightarrow> str_contains (to_lower errText) ''handshake''"

definition classifyAuthFailure :: "log_line \<Rightarrow> string \<Rightarrow> log_line" where
  "classifyAuthFailure l rest =
     (case str_cut rest '': '' of
        (src, errText, _) \<Rightarrow>
          l\<lparr>ln_SrcIP := fst (splitHostPort src), ln_SrcPort := snd (splitHostPort src),
            ln_Error := errText,
            ln_Event := (if isHandshakeError errText then EventHandshakeFailed
                         else EventAuthFailed)\<rparr>)"

definition classifyConnection :: "log_line \<Rightarrow> string \<Rightarrow> log_line option" where
  "classifyConnection l rest0 =
     (let (direction, rest) =
        (if has_prefix rest0 ''upload '' then (DirectionUpload, drop (length ''upload '') rest0)
         else if has_prefix rest0 ''download ''
         then (DirectionDownload, drop (length ''download '') rest0)
         else (DirectionNone, rest0))
      in if direction = DirectionNone then
           (case cut_prefix rest ''closed: '' of
              Some errText \<Rightarrow> Some (l\<lparr>ln_Event := EventConnectionClosed, ln_Error := errText\<rparr>)
            | None \<Rightarrow>
                (if rest = ''closed'' then Some (l\<lparr>ln_Event := EventConnectionClosed\<rparr>) else None))
         else
           (case cut_prefix rest ''handshake: '' of
              Some errText \<Rightarrow>
                Some (l\<lparr>ln_Event := EventHandshakeFailed, ln_Direction := direction,
                        ln_Error := errText\<rparr>)
            | None \<Rightarrow>
                (if rest = ''handshake''
                 then Some (l\<lparr>ln_Event := EventHandshakeFailed, ln_Direction := direction\<rparr>)
                 else if rest = ''finished''
                 then Some (l\<lparr>ln_Event := EventFinished, ln_Direction := direction\<rparr>)
                 else if rest = ''closed''
                 then Some (l\<lparr>ln_Event := EventClosed, ln_Direction := direction\<rparr>)
                 else case cut_prefix rest ''closed: '' of
                        Some errText \<Rightarrow>
                          Some (l\<lparr>ln_Event := EventClosed, ln_Direction := direction,
                                  ln_Error := errText\<rparr>)
                      | None \<Rightarrow> None)))"

definition classifyLookup :: "log_line \<Rightarrow> string \<Rightarrow> log_line option" where
  "classifyLookup l rest =
     (if has_prefix rest ''domain '' then
        Some (l\<lparr>ln_Event := EventDNS, ln_DNSDomain := drop (length ''domain '') rest\<rparr>)
      else if has_prefix rest ''succeed for '' then
        (case str_cut (drop (length ''succeed for '') rest) '': '' of
           (domain, addresses, _) \<Rightarrow>
             Some (l\<lparr>ln_Event := EventDNS, ln_DNSDomain := domain,
                     ln_DNSResult := str_fields addresses\<rparr>))
      else if has_prefix rest ''failed for '' then
        (case str_cut (drop (length ''failed for '') rest) '': '' of
           (domain, errText, _) \<Rightarrow>
             Some (l\<lparr>ln_Event := EventDNS, ln_DNSDomain := domain, ln_Error := errText\<rparr>))
      else None)"

text \<open>What the switch of \<open>classify\<close> recognises; \<open>None\<close> falls through to the tag.\<close>

definition classify_body :: "log_line \<Rightarrow> string \<Rightarrow> log_line option" where
  "classify_body l body =
     (if has_prefix body ''inbound '' then classifyInbound l (drop (length ''inbound '') body)
      else if has_prefix body ''outbound '' then classifyOutbound l (drop (length ''outbound '') body)
      else if has_prefix body ''match['' \<or> has_prefix body ''pre-match['' then classifyRuleMatch l body
      else if has_prefix body ''sniffed protocol: ''
      then Some (classifySniffed l (drop (length ''sniffed protocol: '') body))
      else if has_prefix body ''open '' then classifyDialFailure l body
      else if has_prefix body ''process connection from ''
      then Some (classifyAuthFailure l (drop (length ''process connection from '') body))
      else if has_prefix body ''connection ''
      then classifyConnection l (drop (length ''connection '') body)
      else if has_prefix body ''lookup '' then classifyLookup l (drop (length ''lookup '') body)
      else None)"

definition classify :: "log_line \<Rightarrow> string \<Rightarrow> log_line" where
  "classify l message =
     (let (l1, body) =
        (case cutUserPrefix message of
           Some (user, tail) \<Rightarrow>
             (if has_prefix tail ''inbound '' then (l\<lparr>ln_User := user\<rparr>, tail) else (l, message))
         | None \<Rightarrow> (l, message))
      in case classify_body l1 body of
           Some l2 \<Rightarrow> l2
         | None \<Rightarrow>
             (if ln_TagKind l1 = TagDNS then l1\<lparr>ln_Event := EventDNS\<rparr>
              else l1\<lparr>ln_Event := EventOther\<rparr>))"

subsection \<open>Entry points\<close>

definition parseBody :: "log_line \<Rightarrow> string \<Rightarrow> log_line" where
  "parseBody l body =
     (let rest0 = trim_space body;
          (l1, rest) =
            (case cutLogID rest0 of
               Some (lid, elapsed, tail) \<Rightarrow>
                 (l\<lparr>ln_LogID := lid, ln_HasLogID := True, ln_ElapsedMS := elapsed\<rparr>, tail)
             | None \<Rightarrow> (l, rest0));
          (tag, message) = cutTag rest;
          (kind, ty, name) = decomposeTag tag
      in classify (l1\<lparr>ln_Tag := tag, ln_Message := message, ln_TagKind := kind,
                      ln_TagType := ty, ln_TagName := name\<rparr>) message)"

definition ParsePayload :: "string \<Rightarrow> string \<Rightarrow> gotime \<Rightarrow> log_line" where
  "ParsePayload raw level at = parseBody (blank_line at level raw) (stripANSI raw)"

text \<open>
  \<open>decode\<close> stands for \<open>json.Unmarshal\<close> into the struct of type and payload; \<open>None\<close> is its error.
\<close>

definition ParseEntry ::
  "(string \<Rightarrow> (string \<times> string) option) \<Rightarrow> string \<Rightarrow> gotime \<Rightarrow> log_line \<times> bool" where
  "ParseEntry decode data at =
     (case decode data of
        None \<Rightarrow> (blank_line at [] data, False)
      | Some (ty, payload) \<Rightarrow> (ParsePayload payload ty at, True))"

definition ParseFileLine :: "string \<Rightarrow> gotime \<Rightarrow> log_line \<times> bool" where
  "ParseFileLine raw at =
     (case cutFileLevel 4 (trim_right (stripANSI raw) [CHR 0x0D, CHR 0x0A]) of
        None \<Rightarrow> (blank_line at [] raw, False)
      | Some (level, body) \<Rightarrow> (parseBody (blank_line at level raw) body, True))"

section \<open>Lemmas\<close>

subsection \<open>The header of a line\<close>

text \<open>Classification fills in the event and its fields and leaves the parsed header alone.\<close>

definition header_of :: "log_line \<Rightarrow> gotime \<times> string \<times> string \<times> 32 word \<times> bool \<times> int \<times> string \<times> string \<times> string" where
  "header_of l = (ln_At l, ln_Level l, ln_Raw l, ln_LogID l, ln_HasLogID l, ln_ElapsedMS l, ln_Tag l,
     ln_Message l, ln_User l)"

lemma header_upd [simp]:
  "header_of (l\<lparr>ln_Event := e\<rparr>) = header_of l"
  "header_of (l\<lparr>ln_SrcIP := s\<rparr>) = header_of l" "header_of (l\<lparr>ln_SrcPort := n\<rparr>) = header_of l"
  "header_of (l\<lparr>ln_DstHost := s\<rparr>) = header_of l" "header_of (l\<lparr>ln_DstPort := n\<rparr>) = header_of l"
  "header_of (l\<lparr>ln_RuleIndex := n\<rparr>) = header_of l" "header_of (l\<lparr>ln_HasRule := b\<rparr>) = header_of l"
  "header_of (l\<lparr>ln_RuleText := s\<rparr>) = header_of l" "header_of (l\<lparr>ln_Action := s\<rparr>) = header_of l"
  "header_of (l\<lparr>ln_Outbound := s\<rparr>) = header_of l" "header_of (l\<lparr>ln_SniffProtocol := s\<rparr>) = header_of l"
  "header_of (l\<lparr>ln_SniffDomain := s\<rparr>) = header_of l" "header_of (l\<lparr>ln_DNSDomain := s\<rparr>) = header_of l"
  "header_of (l\<lparr>ln_DNSResult := ss\<rparr>) = header_of l" "header_of (l\<lparr>ln_Direction := d\<rparr>) = header_of l"
  "header_of (l\<lparr>ln_Error := s\<rparr>) = header_of l" "header_of (l\<lparr>ln_OutboundType := s\<rparr>) = header_of l"
  "header_of (l\<lparr>ln_OutboundName := s\<rparr>) = header_of l" "header_of (l\<lparr>ln_Packet := b\<rparr>) = header_of l"
  by (simp_all add: header_of_def)

lemma sniffed_parts_header: "header_of (sniffed_parts l tail) = header_of l"
proof (induction l tail rule: sniffed_parts.induct)
  case (1 l tail)
  show ?case
  proof (cases "tail = []")
    case True
    show ?thesis by (subst sniffed_parts.simps) (simp add: True)
  next
    case False
    show ?thesis
      using 1 [OF False refl refl] False
      by (subst sniffed_parts.simps) (simp add: Let_def split: option.splits)
  qed
qed

lemma classifyInbound_header: "classifyInbound l rest = Some l' \<Longrightarrow> header_of l' = header_of l"
  by (auto simp: classifyInbound_def split: option.splits)

lemma classifyOutbound_header: "classifyOutbound l rest = Some l' \<Longrightarrow> header_of l' = header_of l"
  by (auto simp: classifyOutbound_def split: option.splits)

lemma classifyRuleMatch_header: "classifyRuleMatch l rest = Some l' \<Longrightarrow> header_of l' = header_of l"
  by (auto simp: classifyRuleMatch_def Let_def split: option.splits prod.splits if_splits)

lemma classifySniffed_header: "header_of (classifySniffed l rest) = header_of l"
  by (simp add: classifySniffed_def sniffed_parts_header split: prod.splits)

lemma classifyDialFailure_header: "classifyDialFailure l rest = Some l' \<Longrightarrow> header_of l' = header_of l"
  unfolding classifyDialFailure_def Let_def
  by (clarsimp split: option.splits prod.splits if_splits)

lemma classifyAuthFailure_header: "header_of (classifyAuthFailure l rest) = header_of l"
  by (simp add: classifyAuthFailure_def split: prod.splits)

lemma classifyConnection_header: "classifyConnection l rest = Some l' \<Longrightarrow> header_of l' = header_of l"
  by (auto simp: classifyConnection_def Let_def split: option.splits if_splits)

lemma classifyLookup_header: "classifyLookup l rest = Some l' \<Longrightarrow> header_of l' = header_of l"
  by (auto simp: classifyLookup_def split: prod.splits if_splits)

lemma classify_body_header: "classify_body l body = Some l' \<Longrightarrow> header_of l' = header_of l"
  unfolding classify_body_def
  by (auto simp: classifySniffed_header classifyAuthFailure_header split: if_splits
      dest: classifyInbound_header classifyOutbound_header classifyRuleMatch_header
        classifyDialFailure_header classifyConnection_header classifyLookup_header)

definition message_user :: "string \<Rightarrow> string" where
  "message_user message =
     (case cutUserPrefix message of
        Some (user, tail) \<Rightarrow> (if has_prefix tail ''inbound '' then user else [])
      | None \<Rightarrow> [])"

lemma classify_header:
  "ln_User l = [] \<Longrightarrow> header_of (classify l message) = header_of (l\<lparr>ln_User := message_user message\<rparr>)"
  by (auto simp: classify_def message_user_def Let_def header_of_def [of "l\<lparr>ln_User := []\<rparr>"] header_of_def [of l]
      split: option.splits prod.splits dest: classify_body_header)

lemma stripANSI_id: "CHR 0x1B \<notin> set s \<Longrightarrow> stripANSI s = s"
proof (induction s)
  case Nil
  then show ?case by (simp add: stripANSI.simps)
next
  case (Cons c s)
  then show ?case by (auto simp: stripANSI.simps [of "c # s"])
qed

text \<open>A payload as sing-box writes it.\<close>

definition log_payload :: "nat \<Rightarrow> string \<Rightarrow> string \<Rightarrow> string \<Rightarrow> string" where
  "log_payload i elapsed tag message =
     ''['' @ show_nat i @ '' '' @ elapsed @ ''] '' @ tag @ '': '' @ message"

lemma digit_not_mem: "\<not> is_digit c \<Longrightarrow> c \<notin> set (show_nat n)"
  using show_nat_digit_mem by blast

lemma cutLogID_payload:
  assumes "i < 2 ^ 32" "CHR '']'' \<notin> set elapsed"
  shows "cutLogID (log_payload i elapsed tag message) =
    Some (word_of_nat i, (case parseElapsedMS elapsed of None \<Rightarrow> 0 | Some ms \<Rightarrow> ms), tag @ '': '' @ message)"
proof -
  let ?h = "''['' @ show_nat i @ '' '' @ elapsed"
  let ?t = "'' '' @ tag @ '': '' @ message"
  have nd: "CHR '']'' \<notin> set (show_nat i)" "CHR '' '' \<notin> set (show_nat i)"
    by (rule digit_not_mem, simp add: is_digit_iff)+
  have p: "log_payload i elapsed tag message = ?h @ '']'' @ ?t" by (simp add: log_payload_def)
  have "str_index (?h @ '']'' @ ?t) '']'' = Some (length ?h)"
    by (rule str_index_append) (use assms nd in auto)
  moreover have "str_cut (show_nat i @ '' '' @ elapsed) '' '' = (show_nat i, elapsed, True)"
    by (rule str_cut_append) (use nd in auto)
  moreover have "drop 1 (take (length ?h) (?h @ '']'' @ ?t)) = show_nat i @ '' '' @ elapsed" by simp
  moreover have "drop (length ?h + 1) (?h @ '']'' @ ?t) = ?t" by simp
  moreover have "trim_prefix ?t '' '' = tag @ '': '' @ message" by (simp add: trim_prefix_def)
  moreover have "has_prefix (?h @ '']'' @ ?t) ''[''" by simp
  ultimately show ?thesis
    unfolding cutLogID_def p using assms(1) by (simp only: if_False not_True_eq_False option.case
        prod.case parse_uint_show_nat [of i 32] simp_thms)
qed

lemma cutTag_payload:
  assumes "tag \<noteq> []" "CHR '':'' \<notin> set tag" "CHR '' '' \<notin> set tag" "CHR 0x09 \<notin> set tag"
  shows "cutTag (tag @ '': '' @ message) = (tag, message)"
proof -
  have "str_index (tag @ '': '' @ message) '': '' = Some (length tag)"
    by (rule str_index_append) (use assms in auto)
  moreover have "\<not> contains_any tag [CHR '' '', CHR 0x09]"
    using assms by (auto simp: contains_any_def list_ex_iff)
  ultimately show ?thesis using assms(1) by (simp add: cutTag_def)
qed

lemma parse_header:
  "header_of (ParsePayload raw level at) =
     (let b = trim_space (stripANSI raw);
          (lid, has, ms, rest) = (case cutLogID b of Some (i, e, t) \<Rightarrow> (i, True, e, t) | None \<Rightarrow> (0, False, 0, b));
          (tag, message) = cutTag rest
      in (at, level, raw, lid, has, ms, tag, message, message_user message))"
  by (auto simp: ParsePayload_def parseBody_def Let_def classify_header blank_line_def
      split: option.splits prod.splits) (simp_all add: header_of_def)

lemma message_user_shape:
  assumes "message_user message \<noteq> []"
  shows "\<not> allDigits (message_user message) \<and> has_prefix message (''['' @ message_user message @ ''] inbound '')"
proof -
  let ?u = "message_user message"
  from assms obtain e where pre: "has_prefix message ''[''" and e: "str_index message ''] '' = Some e"
    and u: "?u = drop 1 (take e message)" "\<not> allDigits ?u"
    and t: "has_prefix (drop (e + 2) message) ''inbound ''"
    by (auto simp: message_user_def cutUserPrefix_def Let_def split: option.splits if_splits)
  from t obtain r where r: "drop (e + 2) message = ''inbound '' @ r" by (auto simp: has_prefix_iff)
  have m: "message = take e message @ ''] '' @ ''inbound '' @ r" using str_index_Some [OF e] r by simp
  have "take e message = ''['' @ ?u"
  proof (cases "take e message")
    case Nil
    have "?u = []" unfolding u(1) Nil by simp
    with assms show ?thesis by simp
  next
    case (Cons c s)
    then have "c = CHR ''[''" using pre by (cases message; cases e) auto
    then show ?thesis using u Cons by simp
  qed
  then have "message = (''['' @ ?u @ ''] inbound '') @ r" using m by simp
  then show ?thesis using u(2) has_prefix_append by metis
qed

subsection \<open>Elapsed times\<close>

lemma takeWhile_digits: "\<not> is_digit c \<Longrightarrow> takeWhile is_digit (show_nat n @ c # s) = show_nat n"
  using show_nat_digits [of n] by (simp add: takeWhile_tail takeWhile_append2 list_all_iff)

lemma dropWhile_digits: "\<not> is_digit c \<Longrightarrow> dropWhile is_digit (show_nat n @ c # s) = c # s"
  using show_nat_digits [of n] by (simp add: dropWhile_append2 list_all_iff)

lemma show_nat_front: "is_digit (hd (show_nat n @ s))"
  using show_nat_digits [of n] show_nat_not_Nil [of n] by (cases "show_nat n") auto

lemma duration_unit:
  assumes u: "unit_ns u = Some k" "u \<noteq> []" "list_all (\<lambda>c. \<not> is_num_byte c) u"
    and s: "s = [] \<or> is_digit (hd s)" and n: "d + n * k \<le> 2 ^ 63" and k: "0 < k"
  shows "duration_loop (show_nat n @ u @ s) d = duration_loop s (d + n * k)"
proof -
  obtain c u' where cu: "u = c # u'" using u(2) by (cases u) auto
  have c: "\<not> is_digit c" "c \<noteq> CHR ''.''" using u(3) by (auto simp: cu is_num_byte_def)
  have all: "\<forall>x \<in> set u. \<not> is_num_byte x" using u(3) by (simp add: list_all_iff)
  have tw: "takeWhile (\<lambda>c. \<not> is_num_byte c) (u @ s) = u"
    using all s by (cases s) (auto simp: takeWhile_append2 is_num_byte_def takeWhile_eq_Nil_iff)
  have dw: "dropWhile (\<lambda>c. \<not> is_num_byte c) (u @ s) = s"
    using all s by (cases s) (auto simp: dropWhile_append2 is_num_byte_def)
  have ds: "takeWhile is_digit (show_nat n @ u @ s) = show_nat n"
    "dropWhile is_digit (show_nat n @ u @ s) = u @ s"
    using takeWhile_digits [OF c(1)] dropWhile_digits [OF c(1)] by (simp_all add: cu)
  have nk: "n * k \<le> 2 ^ 63" using n by simp
  then have "n \<le> 2 ^ 63 div k" using k by (simp add: less_eq_div_iff_mult_less_eq)
  moreover have "n \<le> 2 ^ 63"
    using nk k by (metis One_nat_def Suc_leI le_trans mult_le_mono2 mult.right_neutral)
  moreover have "\<not> has_prefix (u @ s) ''.''" using c by (simp add: cu)
  moreover have "is_num_byte (hd (show_nat n @ u @ s))"
    using show_nat_front [of n "u @ s"] by (simp add: is_num_byte_def)
  ultimately show ?thesis
    using n nk u(1,2)
    by (subst duration_loop.simps) (simp add: ds tw dw Let_def del: has_prefix_Cons)
qed

lemma parse_int_digits: "n < 2 ^ 63 \<Longrightarrow> parse_int (show_nat n) = Some (int n)"
  by (rule parse_int_show_nat)

lemma no_suffix_ms: "\<not> has_suffix (a @ show_nat n @ ''s'') ''ms''"
proof
  assume "has_suffix (a @ show_nat n @ ''s'') ''ms''"
  then obtain t where "a @ show_nat n @ ''s'' = t @ ''ms''" by (auto simp: has_suffix_iff)
  then have "a @ show_nat n = t @ ''m''" by (metis append.assoc append_Cons append_Nil append_same_eq same_append_eq)
  then have "last (show_nat n) = CHR ''m''" by (metis last_appendR last_ConsL list.discI append_is_Nil_conv show_nat_not_Nil last_snoc)
  moreover have "is_digit (last (show_nat n))" using show_nat_digit_mem [of "last (show_nat n)" n] by simp
  ultimately show False by (simp add: is_digit_iff)
qed

lemma elapsed_ms: "n < 2 ^ 63 \<Longrightarrow> parseElapsedMS (show_nat n @ ''ms'') = Some (int n)"
  by (simp add: parseElapsedMS_def parse_int_show_nat)

lemma show_nat_two: "n < 100 \<Longrightarrow> length (show_nat n) \<le> 2 \<and> 1 \<le> length (show_nat n)"
  by (simp add: show_nat.simps [of n] show_nat.simps [of "n div 10"] div_less_iff_less_mult)

lemma allDigits_show_nat [simp]: "allDigits (show_nat n)"
  by (simp add: allDigits_def)

lemma elapsed_seconds:
  assumes "cc < 100" "1000 * s + 1000 < 2 ^ 63"
  shows "parseElapsedMS (show_nat s @ ''.'' @ show_nat cc @ ''s'') = Some (int (1000 * s + 10 * cc))"
proof -
  let ?v = "show_nat s @ ''.'' @ show_nat cc"
  have e: "show_nat s @ ''.'' @ show_nat cc @ ''s'' = ?v @ ''s''" by simp
  have ms: "cut_suffix (?v @ ''s'') ''ms'' = None"
    using no_suffix_ms [of "show_nat s @ ''.''" cc] by (simp add: cut_suffix_def)
  have dot: "str_cut ?v ''.'' = (show_nat s, show_nat cc, True)"
    by (rule str_cut_append) (auto dest: show_nat_digit_mem simp: is_digit_iff)
  have "centi_form (?v @ ''s'') = Some (show_nat s, show_nat cc)"
    unfolding centi_form_def cut_suffix_append using show_nat_two [OF assms(1)] dot by simp
  moreover have "parse_int (show_nat s) = Some (int s)" "parse_int (show_nat cc) = Some (int cc)"
    using assms by (simp_all add: parse_int_show_nat)
  ultimately show ?thesis
    unfolding e parseElapsedMS_def ms using assms by (simp add: wrap64_id)
qed

lemma elapsed_minutes:
  assumes "(60 * m + s) * 1000000000 < 2 ^ 63"
  shows "parseElapsedMS (show_nat m @ ''m'' @ show_nat s @ ''s'') = Some (int (1000 * (60 * m + s)))"
proof -
  let ?e = "show_nat m @ ''m'' @ show_nat s @ ''s''" and ?v = "show_nat m @ ''m'' @ show_nat s"
  have ms: "cut_suffix ?e ''ms'' = None"
    using no_suffix_ms [of "show_nat m @ ''m''" s] by (simp add: cut_suffix_def)
  have "CHR ''.'' \<notin> set ?v" by (auto dest: show_nat_digit_mem simp: is_digit_iff)
  then have "str_index ?v ''.'' = None" by (intro str_index_None_if) auto
  moreover have "cut_suffix ?e ''s'' = Some ?v" using cut_suffix_append [of ?v "''s''"] by simp
  ultimately have centi: "centi_form ?e = None" by (simp add: centi_form_def str_cut_def)
  have u: "unit_ns ''m'' = Some 60000000000" "unit_ns ''s'' = Some 1000000000"
    by (simp_all add: unit_ns_def)
  have "duration_loop (show_nat m @ ''m'' @ (show_nat s @ ''s'')) 0
      = duration_loop (show_nat s @ ''s'') (0 + m * 60000000000)"
    by (rule duration_unit) (use u assms show_nat_front in \<open>auto simp: is_num_byte_def is_digit_iff\<close>)
  also have "\<dots> = duration_loop (show_nat s @ ''s'' @ []) (m * 60000000000)" by simp
  also have "\<dots> = duration_loop [] (m * 60000000000 + s * 1000000000)"
    by (rule duration_unit) (use u assms in \<open>auto simp: is_num_byte_def is_digit_iff\<close>)
  also have "\<dots> = Some ((60 * m + s) * 1000000000)" by (simp add: duration_loop.simps)
  finally have loop: "duration_loop ?e 0 = Some ((60 * m + s) * 1000000000)" by simp
  obtain c r where cr: "show_nat m = c # r" using show_nat_not_Nil by (cases "show_nat m") auto
  then have "is_digit c" using show_nat_digit_mem [of c m] by simp
  then have "c \<noteq> CHR ''-''" "c \<noteq> CHR ''+''" by (auto simp: is_digit_iff)
  then have "parse_duration ?e = Some (int ((60 * m + s) * 1000000000))"
    using loop assms by (simp add: parse_duration_def cr Let_def)
  moreover have "go_div (int ((60 * m + s) * 1000000000)) 1000000 = int (1000 * (60 * m + s))"
  proof -
    have "int ((60 * m + s) * 1000000000) = int (1000 * (60 * m + s)) * 1000000" by simp
    then show ?thesis by (simp add: go_div_def sgn_if abs_mult)
  qed
  moreover have "?e \<noteq> []" by simp
  ultimately show ?thesis unfolding parseElapsedMS_def ms centi by simp
qed

subsection \<open>Hosts and ports\<close>

lemma parsePort_show_nat: "p \<le> 65535 \<Longrightarrow> parsePort (show_nat p) = Some (int p)"
  by (simp add: parsePort_def parse_int_show_nat)

lemma parsePort_bounds: "parsePort s = Some n \<Longrightarrow> 0 \<le> n \<and> n \<le> 65535 \<and> s \<noteq> []"
  by (auto simp: parsePort_def split: if_splits option.splits)

lemma str_last_index_Some:
  "str_last_index s [c] = Some i \<Longrightarrow> s = take i s @ c # drop (i + 1) s \<and> i < length s"
proof (induction s arbitrary: i)
  case (Cons d s)
  then show ?case by (auto simp: split: option.splits if_splits)
qed simp

lemma str_last_index_append: "c \<notin> set b \<Longrightarrow> str_last_index (a @ c # b) [c] = Some (length a)"
proof (induction a)
  case Nil
  have "str_last_index b [c] = None" using Nil by (induction b) auto
  then show ?case by simp
qed simp

lemma splitHostPort_plain:
  assumes "CHR '':'' \<notin> set h" "\<not> has_prefix h ''[''" "p \<le> 65535"
  shows "splitHostPort (h @ '':'' @ show_nat p) = (h, int p)"
proof -
  have "CHR '':'' \<notin> set (show_nat p)" by (auto dest: show_nat_digit_mem simp: is_digit_iff)
  then have i: "str_last_index (h @ '':'' @ show_nat p) '':'' = Some (length h)"
    using str_last_index_append [of "CHR '':''" "show_nat p" h] by simp
  have n: "str_index h '':'' = None" using assms(1) by (intro str_index_None_if) auto
  have b: "\<not> has_prefix (h @ '':'' @ show_nat p) ''[''" using assms(2) by (cases h) auto
  have "h @ '':'' @ show_nat p \<noteq> []" by simp
  with i n b show ?thesis unfolding splitHostPort_def by (simp add: parsePort_show_nat [OF assms(3)])
qed

lemma splitHostPort_bracket:
  assumes "p \<le> 65535"
  shows "splitHostPort (''['' @ h @ '']:'' @ show_nat p) = (h, int p)"
proof -
  have "CHR '']'' \<notin> set ('':'' @ show_nat p)" by (auto dest: show_nat_digit_mem simp: is_digit_iff)
  then have i: "str_last_index ((''['' @ h) @ CHR '']'' # '':'' @ show_nat p) '']'' = Some (length (''['' @ h))"
    by (rule str_last_index_append)
  have "''['' @ h @ '']:'' @ show_nat p = (''['' @ h) @ CHR '']'' # '':'' @ show_nat p" by simp
  then show ?thesis
    unfolding splitHostPort_def using i parsePort_show_nat [OF assms]
    by (simp add: cut_prefix_def)
qed

lemma splitHostPort_shape:
  assumes "splitHostPort s = (h, p)"
  shows "0 \<le> p \<and> p \<le> 65535 \<and>
    (h = s \<and> p = 0 \<or> s = ''['' @ h @ '']'' \<and> p = 0 \<or>
     (\<exists>t. (s = h @ '':'' @ t \<or> s = ''['' @ h @ '']:'' @ t) \<and> parsePort t = Some p))"
proof (cases "has_prefix s ''[''")
  case True
  show ?thesis
  proof (cases "str_last_index s '']''")
    case None
    with assms True show ?thesis by (auto simp: splitHostPort_def split: if_splits)
  next
    case (Some e)
    from str_last_index_Some [OF this] True obtain x where
      s: "s = ''['' @ x @ '']'' @ drop (e + 1) s" "drop 1 (take e s) = x"
      by (cases s; cases e) auto
    show ?thesis
    proof (cases "drop (e + 1) s = []")
      case True
      with assms Some s \<open>has_prefix s ''[''\<close> show ?thesis
        by (auto simp: splitHostPort_def Let_def split: if_splits)
    next
      case False
      show ?thesis
      proof (cases "cut_prefix (drop (e + 1) s) '':''")
        case None
        with assms Some s False \<open>has_prefix s ''[''\<close> show ?thesis
          by (auto simp: splitHostPort_def Let_def split: if_splits)
      next
        case (Some t)
        note t = cut_prefix_Some [OF this]
        show ?thesis
        proof (cases "parsePort t")
          case None
          with assms \<open>str_last_index s _ = _\<close> Some False \<open>has_prefix s ''[''\<close> show ?thesis
            by (auto simp: splitHostPort_def Let_def split: if_splits)
        next
          case (Some n)
          then have "(h, p) = (x, n)"
            using assms \<open>str_last_index s _ = _\<close> \<open>cut_prefix _ _ = _\<close> False s(2) \<open>has_prefix s ''[''\<close>
            by (auto simp: splitHostPort_def Let_def split: if_splits)
          then show ?thesis using parsePort_bounds [OF Some] Some s(1) t by auto
        qed
      qed
    qed
  qed
next
  case False
  show ?thesis
  proof (cases "str_last_index s '':''")
    case None
    with assms False show ?thesis by (auto simp: splitHostPort_def split: if_splits)
  next
    case (Some i)
    note s = str_last_index_Some [OF this]
    then show ?thesis
      using assms False Some parsePort_bounds
      by (auto simp: splitHostPort_def split: if_splits option.splits)
  qed
qed

subsection \<open>A whole payload\<close>

lemma parse_payload:
  assumes "i < 2 ^ 32" "CHR '']'' \<notin> set elapsed"
    and "tag \<noteq> []" "CHR '':'' \<notin> set tag" "CHR '' '' \<notin> set tag" "CHR 0x09 \<notin> set tag"
    and "raw = log_payload i elapsed tag message" "CHR 0x1B \<notin> set raw" "trim_space raw = raw"
  shows "header_of (ParsePayload raw level at) = (at, level, raw, word_of_nat i, True,
    (case parseElapsedMS elapsed of None \<Rightarrow> 0 | Some ms \<Rightarrow> ms), tag, message, message_user message)"
proof -
  have "trim_space (stripANSI raw) = log_payload i elapsed tag message"
    using assms(7,8,9) by (simp add: stripANSI_id)
  then show ?thesis
    unfolding parse_header
    using cutLogID_payload [OF assms(1,2), of tag message] cutTag_payload [OF assms(3-6), of message]
    by (simp add: Let_def)
qed

section \<open>Properties\<close>



text \<open>
  Elapsed times. The three spellings of an elapsed time that sing-box prints are read exactly:
  milliseconds, seconds with centiseconds that are not padded, and minutes with seconds.
\<close>

theorem elapsed_spellings:
  assumes "n < 2 ^ 63" "cc < 100" "1000 * s + 1000 < 2 ^ 63" "(60 * m + sec) * 1000000000 < 2 ^ 63"
  shows "parseElapsedMS (show_nat n @ ''ms'') = Some (int n)
    \<and> parseElapsedMS (show_nat s @ ''.'' @ show_nat cc @ ''s'') = Some (int (1000 * s + 10 * cc))
    \<and> parseElapsedMS (show_nat m @ ''m'' @ show_nat sec @ ''s'') = Some (int (1000 * (60 * m + sec)))"
  using elapsed_ms [OF assms(1)] elapsed_seconds [OF assms(2,3)] elapsed_minutes [OF assms(4)] by blast

theorem elapsed_spellings_witness:
  "parseElapsedMS (show_nat 1 @ ''.'' @ show_nat 4 @ ''s'') = Some 1040"
  using elapsed_spellings [of 0 4 1 0 0] by simp

text \<open>
  Addresses. A host and a port written together are split back into the two, with and without
  brackets around an IPv6 address; and for any text the result is either a whole split, with a
  port between 0 and 65535, or the text as it was with port 0, never a part of it.
\<close>

theorem splitHostPort_exact:
  assumes "p \<le> 65535" "CHR '':'' \<notin> set h" "\<not> has_prefix h ''[''"
  shows "splitHostPort (h @ '':'' @ show_nat p) = (h, int p)
    \<and> splitHostPort (''['' @ v6 @ '']:'' @ show_nat p) = (v6, int p)
    \<and> (case splitHostPort s of (x, n) \<Rightarrow> 0 \<le> n \<and> n \<le> 65535 \<and>
        (x = s \<and> n = 0 \<or> s = ''['' @ x @ '']'' \<and> n = 0 \<or>
         (\<exists>t. (s = x @ '':'' @ t \<or> s = ''['' @ x @ '']:'' @ t) \<and> parsePort t = Some n)))"
proof -
  obtain x n where "splitHostPort s = (x, n)" by fastforce
  from splitHostPort_shape [OF this] this show ?thesis
    using splitHostPort_plain [OF assms(2,3,1)] splitHostPort_bracket [OF assms(1), of v6] by simp
qed

theorem splitHostPort_exact_witness:
  "splitHostPort (''a.example'' @ '':'' @ show_nat 443) = (''a.example'', 443)"
  using splitHostPort_exact [of 443 "''a.example''" "''::1''" "''x''"] by simp

text \<open>
  A user name is read only where sing-box prints one. If a parsed line carries a user, its
  message starts with that user in brackets followed by the word inbound, and the user is not
  the bare index that sing-box prints for a user without a name.
\<close>

theorem user_only_when_named:
  assumes "l = ParsePayload raw level at" "ln_User l \<noteq> []"
  shows "\<not> allDigits (ln_User l) \<and> has_prefix (ln_Message l) (''['' @ ln_User l @ ''] inbound '')"
proof -
  have "ln_User l = message_user (ln_Message l)"
    using parse_header [of raw level at, folded assms(1)]
    by (simp add: header_of_def Let_def split: prod.splits)
  then show ?thesis using message_user_shape [of "ln_Message l"] assms(2) by simp
qed

definition user_payload :: string where
  "user_payload = log_payload 7 ''1ms'' ''inbound/vless[in]'' ''[bob] inbound connection to a.example:443''"

theorem user_only_when_named_witness:
  "\<not> allDigits (ln_User (ParsePayload user_payload ''info'' 5))"
proof -
  have x: "CHR 0x1B \<notin> set user_payload" "trim_space user_payload = user_payload" by code_simp+
  have "ln_User (ParsePayload user_payload ''info'' 5)
      = message_user ''[bob] inbound connection to a.example:443''"
    using parse_payload [OF _ _ _ _ _ _ user_payload_def x, of "''info''" 5] by (simp add: header_of_def)
  also have "\<dots> = ''bob''" by code_simp
  finally show ?thesis using user_only_when_named [OF refl, of user_payload "''info''" 5] by simp
qed

end
