(* ===== verification/Task_Outbox.thy ===== *)
theory Task_Outbox
  imports Go_Prelude "HOL-Library.AList"
begin

text \<open>
  The journal of leased tasks and their results, \<open>internal/taskoutbox/outbox.go\<close>. The outbox
  directory is a list of named files, next to the directory as of the last successful
  \<open>fsync\<close> of it, which is what a crash leaves. Every system call a method makes may fail; which
  ones do is an argument of the method (\<^verbatim>\<open>read_io\<close>, \<^verbatim>\<open>write_io\<close>), so an operation is a function
  of the store and of what the operating system answers. The file locking, the creation of the
  directory itself and the texts of the error messages are not modelled.

  The journal's encoding is not under the repository's control, because an entry embeds the
  SDK's \<open>Task\<close> and \<open>TaskResult\<close>: \<open>json.Marshal\<close>, the strict decoding of exactly one JSON value
  and the hexadecimal SHA-256 are the fields of \<^verbatim>\<open>codec\<close>, an argument of the definitions, and
  \<^verbatim>\<open>codec_ok\<close> states that decoding gives back what was encoded. The fields of a task or a
  result that the outbox only stores and compares are one field each.
\<close>

section \<open>Definitions\<close>

subsection \<open>Types\<close>

definition entryVersion :: int where "entryVersion = 1"
definition stateLeased :: string where "stateLeased = ''leased''"
definition stateDone :: string where "stateDone = ''completed''"
definition maxEntries :: int where "maxEntries = 1024"
definition maxEntrySize :: int where "maxEntrySize = 4 * 2 ^ 20"

record task =
  tk_ID :: string
  tk_LeaseID :: string
  tk_Rest :: string

record task_result =
  tr_TaskID :: string
  tr_LeaseID :: string
  tr_NodeID :: string
  tr_ExitCode :: int
  tr_Error :: string
  tr_StartedAt :: gotime
  tr_FinishedAt :: gotime
  tr_Rest :: string

record entry =
  en_Version :: int
  en_State :: string
  en_Task :: task
  en_DurableProtocol :: string
  en_Result :: "task_result option"
  en_ExecutionStartedAt :: gotime
  en_UpdatedAt :: gotime
  en_key :: string

datatype outbox_error =
    ErrInspect | ErrNotRegular | ErrNotPrivate | ErrTooLarge | ErrOpen | ErrDecode | ErrInvalid
  | ErrProtocol | ErrKeyMismatch | ErrState | ErrLeasedResult | ErrDoneMismatch
  | ErrReadDir | ErrCapacity | ErrIDsRequired | ErrRedelivered | ErrNotAwaiting | ErrNoLease
  | ErrEncode | ErrCreate | ErrSecure | ErrWrite | ErrSyncFile | ErrClose | ErrPublish
  | ErrRemoveTemp | ErrSyncDir | ErrNeedsLinechain | ErrUnconfirmed | ErrRemove | ErrStaleTemp

text \<open>A file of the directory. Its content was synced before the file was published.\<close>

datatype node_kind = RegularFile | Directory | SpecialFile

record node =
  nd_kind :: node_kind
  nd_private :: bool
  nd_content :: string

definition nd_isDir :: "node \<Rightarrow> bool" where
  "nd_isDir nd \<longleftrightarrow> nd_kind nd = Directory"

definition nd_regular :: "node \<Rightarrow> bool" where
  "nd_regular nd \<longleftrightarrow> nd_kind nd = RegularFile"

record outbox =
  ob_files :: "(string \<times> node) list"
  ob_durable :: "(string \<times> node) list"
  ob_unconfirmed :: bool

record codec =
  cd_marshal :: "entry \<Rightarrow> string option"
  cd_decode :: "string \<Rightarrow> entry option"
  cd_sha256 :: "string \<Rightarrow> string"

record read_io =
  rio_readDir :: bool
  rio_lstat :: "string \<Rightarrow> bool"
  rio_open :: "string \<Rightarrow> bool"

record write_io =
  wio_rand :: string
  wio_create :: bool
  wio_chmod :: bool
  wio_write :: bool
  wio_sync :: bool
  wio_close :: bool
  wio_publish :: bool
  wio_removeTemp :: bool
  wio_syncDir :: bool

subsection \<open>Reading\<close>

definition entryKey :: "codec \<Rightarrow> string \<Rightarrow> string \<Rightarrow> string" where
  "entryKey cd taskID leaseID = cd_sha256 cd (taskID @ [CHR 0x00] @ leaseID)"

definition path :: "string \<Rightarrow> string" where
  "path key = key @ ''.json''"

definition check_entry :: "codec \<Rightarrow> string \<Rightarrow> entry \<Rightarrow> outbox_error + entry" where
  "check_entry cd key e =
     (if en_Version e \<noteq> entryVersion \<or> tk_ID (en_Task e) = [] \<or> tk_LeaseID (en_Task e) = []
      then Inl ErrInvalid
      else if has_prefix (en_DurableProtocol e) ''linechain-e3-''
              \<and> en_DurableProtocol e \<noteq> ''linechain-e3-v2'' then Inl ErrProtocol
      else if key \<noteq> entryKey cd (tk_ID (en_Task e)) (tk_LeaseID (en_Task e)) then Inl ErrKeyMismatch
      else if en_State e \<noteq> stateLeased \<and> en_State e \<noteq> stateDone then Inl ErrState
      else if en_State e = stateLeased \<and> en_Result e \<noteq> None then Inl ErrLeasedResult
      else if en_State e = stateDone \<and>
              (case en_Result e of None \<Rightarrow> True
               | Some r \<Rightarrow> tr_TaskID r \<noteq> tk_ID (en_Task e) \<or> tr_LeaseID r \<noteq> tk_LeaseID (en_Task e))
      then Inl ErrDoneMismatch
      else Inr (e\<lparr>en_key := key\<rparr>))"

definition read_entry :: "codec \<Rightarrow> read_io \<Rightarrow> outbox \<Rightarrow> string \<Rightarrow> outbox_error + entry" where
  "read_entry cd io s key =
     (case map_of (ob_files s) (path key) of
        None \<Rightarrow> Inl ErrInspect
      | Some nd \<Rightarrow>
          (if \<not> rio_lstat io key then Inl ErrInspect
           else if \<not> nd_regular nd then Inl ErrNotRegular
           else if \<not> nd_private nd then Inl ErrNotPrivate
           else if int (length (nd_content nd)) > maxEntrySize then Inl ErrTooLarge
           else if \<not> rio_open io key then Inl ErrOpen
           else case cd_decode cd (nd_content nd) of
                  None \<Rightarrow> Inl ErrDecode
                | Some e \<Rightarrow> check_entry cd key e))"

text \<open>\<open>os.ReadDir\<close> lists the directory in the order of the names.\<close>

definition journal_names :: "(string \<times> node) list \<Rightarrow> string list" where
  "journal_names fs =
     sort (map fst (filter (\<lambda>(n, nd). \<not> nd_isDir nd \<and> has_suffix n ''.json'') fs))"

fun read_loop ::
  "codec \<Rightarrow> read_io \<Rightarrow> outbox \<Rightarrow> entry list \<Rightarrow> string list \<Rightarrow> outbox_error + entry list" where
  "read_loop cd io s entries [] = Inr entries"
| "read_loop cd io s entries (n # ns) =
     (if int (length entries) \<ge> maxEntries then Inl ErrCapacity
      else case read_entry cd io s (trim_suffix n ''.json'') of
             Inl e \<Rightarrow> Inl e
           | Inr e \<Rightarrow> read_loop cd io s (entries @ [e]) ns)"

definition readAll :: "codec \<Rightarrow> read_io \<Rightarrow> outbox \<Rightarrow> outbox_error + entry list" where
  "readAll cd io s =
     (if \<not> rio_readDir io then Inl ErrReadDir
      else read_loop cd io s [] (journal_names (ob_files s)))"

subsection \<open>Writing\<close>

definition sync_dir :: "bool \<Rightarrow> outbox \<Rightarrow> outbox" where
  "sync_dir ok s = (if ok then s\<lparr>ob_durable := ob_files s\<rparr> else s)"

definition put_file :: "string \<Rightarrow> node \<Rightarrow> outbox \<Rightarrow> outbox" where
  "put_file n nd s = s\<lparr>ob_files := AList.update n nd (ob_files s)\<rparr>"

definition drop_file :: "string \<Rightarrow> outbox \<Rightarrow> outbox" where
  "drop_file n s = s\<lparr>ob_files := AList.delete n (ob_files s)\<rparr>"

text \<open>After the publication: sync the directory and note whether that is confirmed.\<close>

definition confirm_write :: "bool \<Rightarrow> outbox \<Rightarrow> outbox \<times> bool \<times> outbox_error option" where
  "confirm_write ok s =
     (if \<not> ok then (s\<lparr>ob_unconfirmed := True\<rparr>, True, Some ErrSyncDir)
      else ((sync_dir True s)\<lparr>ob_unconfirmed := False\<rparr>, True, None))"

text \<open>The name \<open>os.CreateTemp\<close> makes from its pattern.\<close>

definition tmp_name :: "write_io \<Rightarrow> string" where
  "tmp_name io = ''.task-result-'' @ wio_rand io @ ''.tmp''"

definition writeEntry ::
  "codec \<Rightarrow> write_io \<Rightarrow> outbox \<Rightarrow> string \<Rightarrow> entry \<Rightarrow> bool \<Rightarrow> outbox \<times> bool \<times> outbox_error option" where
  "writeEntry cd io s key e createOnly =
     (case cd_marshal cd e of
        None \<Rightarrow> (s, False, Some ErrEncode)
      | Some data \<Rightarrow>
          (if int (length data) > maxEntrySize then (s, False, Some ErrTooLarge)
           else if \<not> wio_create io \<or> map_of (ob_files s) (tmp_name io) \<noteq> None
           then (s, False, Some ErrCreate)
           else
             let nd = \<lparr>nd_kind = RegularFile, nd_private = True, nd_content = data\<rparr>;
                 t = put_file (tmp_name io) nd s;
                 undo = (if wio_removeTemp io then drop_file (tmp_name io) t else t)
             in if \<not> wio_chmod io then (undo, False, Some ErrSecure)
                else if \<not> wio_write io then (undo, False, Some ErrWrite)
                else if \<not> wio_sync io then (undo, False, Some ErrSyncFile)
                else if \<not> wio_close io then (undo, False, Some ErrClose)
                else if createOnly then
                  (if \<not> wio_publish io \<or> map_of (ob_files t) (path key) \<noteq> None
                   then (undo, False, Some ErrPublish)
                   else let p = put_file (path key) nd t in
                     if \<not> wio_removeTemp io
                     then (p\<lparr>ob_unconfirmed := True\<rparr>, True, Some ErrRemoveTemp)
                     else confirm_write (wio_syncDir io) (drop_file (tmp_name io) p))
                else if \<not> wio_publish io then (undo, False, Some ErrPublish)
                else confirm_write (wio_syncDir io)
                       (put_file (path key) nd (drop_file (tmp_name io) t))))"

subsection \<open>Operations\<close>

definition confirmDurability :: "bool \<Rightarrow> outbox \<Rightarrow> outbox \<times> outbox_error option" where
  "confirmDurability ok s =
     (if \<not> ok then (s, Some ErrSyncDir) else ((sync_dir True s)\<lparr>ob_unconfirmed := False\<rparr>, None))"

text \<open>The search of \<open>begin\<close>: \<open>Some\<close> when an entry of the same task id decides the call.\<close>

fun begin_seen :: "task \<Rightarrow> string \<Rightarrow> string \<Rightarrow> entry list \<Rightarrow> outbox_error option option" where
  "begin_seen t protocol key [] = None"
| "begin_seen t protocol key (e # es) =
     (if tk_ID (en_Task e) = tk_ID t then
        Some (if en_key e = key \<and> en_Task e = t \<and> en_DurableProtocol e = protocol then None
              else Some ErrRedelivered)
      else begin_seen t protocol key es)"

definition begin_task ::
  "codec \<Rightarrow> read_io \<Rightarrow> write_io \<Rightarrow> gotime \<Rightarrow> outbox \<Rightarrow> task \<Rightarrow> string \<Rightarrow>
   outbox \<times> bool \<times> outbox_error option" where
  "begin_task cd rio wio now s t protocol =
     (if trim_space (tk_ID t) = [] \<or> trim_space (tk_LeaseID t) = []
      then (s, False, Some ErrIDsRequired)
      else case readAll cd rio s of
             Inl e \<Rightarrow> (s, False, Some e)
           | Inr entries \<Rightarrow>
               (let key = entryKey cd (tk_ID t) (tk_LeaseID t) in
                case begin_seen t protocol key entries of
                  Some e \<Rightarrow> (s, False, e)
                | None \<Rightarrow>
                    (if int (length entries) \<ge> maxEntries then (s, False, Some ErrCapacity)
                     else writeEntry cd wio s key
                            \<lparr>en_Version = entryVersion, en_State = stateLeased, en_Task = t,
                             en_DurableProtocol = protocol, en_Result = None,
                             en_ExecutionStartedAt = now, en_UpdatedAt = now, en_key = []\<rparr> True)))"

definition complete_task ::
  "codec \<Rightarrow> read_io \<Rightarrow> write_io \<Rightarrow> gotime \<Rightarrow> outbox \<Rightarrow> task_result \<Rightarrow>
   outbox \<times> bool \<times> outbox_error option" where
  "complete_task cd rio wio now s r =
     (let key = entryKey cd (tr_TaskID r) (tr_LeaseID r) in
      case read_entry cd rio s key of
        Inl e \<Rightarrow> (s, False, Some e)
      | Inr e \<Rightarrow>
          (if en_State e = stateDone \<and> en_Result e = Some r then (s, False, None)
           else if en_State e \<noteq> stateLeased then (s, False, Some ErrNotAwaiting)
           else if tk_ID (en_Task e) \<noteq> tr_TaskID r \<or> tk_LeaseID (en_Task e) \<noteq> tr_LeaseID r
           then (s, False, Some ErrNoLease)
           else writeEntry cd wio s key
                  (e\<lparr>en_State := stateDone, en_Result := Some r, en_UpdatedAt := now\<rparr>) False))"

definition unknown_outcome :: "string \<Rightarrow> gotime \<Rightarrow> entry \<Rightarrow> task_result" where
  "unknown_outcome nodeID now e =
     \<lparr>tr_TaskID = tk_ID (en_Task e), tr_LeaseID = tk_LeaseID (en_Task e), tr_NodeID = nodeID,
      tr_ExitCode = -1,
      tr_Error = ''agent restarted or lost durable result after task launch; execution outcome is unknown and the task was not re-executed'',
      tr_StartedAt = en_ExecutionStartedAt e, tr_FinishedAt = now, tr_Rest = []\<rparr>"

definition recovered :: "string \<Rightarrow> gotime \<Rightarrow> entry \<Rightarrow> entry" where
  "recovered nodeID now e =
     e\<lparr>en_State := stateDone, en_Result := Some (unknown_outcome nodeID now e), en_UpdatedAt := now\<rparr>"

text \<open>The answers of the system during a recovery: one write and one more sync per entry.\<close>

record recover_io =
  vio_now :: gotime
  vio_write :: write_io
  vio_confirm :: bool

fun recover_loop ::
  "codec \<Rightarrow> string \<Rightarrow> (nat \<Rightarrow> recover_io) \<Rightarrow> nat \<Rightarrow> outbox \<Rightarrow> entry list \<Rightarrow> outbox \<times> outbox_error option" where
  "recover_loop cd nodeID ios k s [] = (s, None)"
| "recover_loop cd nodeID ios k s (e # es) =
     (if en_State e \<noteq> stateLeased then recover_loop cd nodeID ios (Suc k) s es
      else if en_DurableProtocol e = ''linechain-e3-v2'' then (s, Some ErrNeedsLinechain)
      else
        let (s, committed, err) =
              writeEntry cd (vio_write (ios k)) s (en_key e)
                (recovered nodeID (vio_now (ios k)) e) False
        in case err of
             None \<Rightarrow> recover_loop cd nodeID ios (Suc k) s es
           | Some x \<Rightarrow>
               (if \<not> committed then (s, Some x)
                else case confirmDurability (vio_confirm (ios k)) s of
                       (s, Some y) \<Rightarrow> (s, Some y)
                     | (s, None) \<Rightarrow> recover_loop cd nodeID ios (Suc k) s es))"

definition recoverInterrupted ::
  "codec \<Rightarrow> read_io \<Rightarrow> bool \<Rightarrow> (nat \<Rightarrow> recover_io) \<Rightarrow> outbox \<Rightarrow> string \<Rightarrow> outbox \<times> outbox_error option" where
  "recoverInterrupted cd rio confirmed ios s nodeID =
     (case confirmDurability confirmed s of
        (s, Some e) \<Rightarrow> (s, Some e)
      | (s, None) \<Rightarrow>
          (case readAll cd rio s of
             Inl e \<Rightarrow> (s, Some e)
           | Inr entries \<Rightarrow> recover_loop cd nodeID ios 0 s entries))"

definition pending :: "codec \<Rightarrow> read_io \<Rightarrow> outbox \<Rightarrow> outbox_error + entry list" where
  "pending cd rio s =
     (if ob_unconfirmed s then Inl ErrUnconfirmed
      else case readAll cd rio s of
             Inl e \<Rightarrow> Inl e
           | Inr entries \<Rightarrow>
               Inr (sort_key en_UpdatedAt
                 (sort_key en_key (filter (\<lambda>e. en_State e = stateDone \<and> en_Result e \<noteq> None) entries))))"

definition outbox_snapshot :: "codec \<Rightarrow> read_io \<Rightarrow> outbox \<Rightarrow> outbox_error + entry list" where
  "outbox_snapshot cd rio s = readAll cd rio s"

definition remove_entry :: "codec \<Rightarrow> bool \<Rightarrow> bool \<Rightarrow> outbox \<Rightarrow> entry \<Rightarrow> outbox \<times> outbox_error option" where
  "remove_entry cd unlinked synced s e =
     (let key = (if en_key e = [] then entryKey cd (tk_ID (en_Task e)) (tk_LeaseID (en_Task e)) else en_key e)
      in if \<not> unlinked \<or> map_of (ob_files s) (path key) = None then (s, Some ErrRemove)
         else let s = drop_file (path key) s
              in if \<not> synced then (s\<lparr>ob_unconfirmed := True\<rparr>, Some ErrSyncDir)
                 else (sync_dir True s, None))"

text \<open>\<open>Open\<close>: the stale temporary files are removed and every entry must be readable.\<close>

definition is_temp :: "string \<Rightarrow> bool" where
  "is_temp n \<longleftrightarrow> has_prefix n ''.task-result-'' \<and> has_suffix n ''.tmp''"

fun clean_loop :: "(string \<Rightarrow> bool) \<Rightarrow> outbox \<Rightarrow> string list \<Rightarrow> outbox \<times> bool \<times> outbox_error option" where
  "clean_loop unlinks s [] = (s, False, None)"
| "clean_loop unlinks s (n # ns) =
     (if \<not> is_temp n then clean_loop unlinks s ns
      else case map_of (ob_files s) n of
             None \<Rightarrow> (s, False, Some ErrInspect)
           | Some nd \<Rightarrow>
               (if \<not> nd_regular nd then (s, False, Some ErrStaleTemp)
                else if \<not> unlinks n then (s, False, Some ErrRemove)
                else case clean_loop unlinks (drop_file n s) ns of (s, _, err) \<Rightarrow> (s, True, err)))"

definition cleanupTemps :: "(string \<Rightarrow> bool) \<Rightarrow> bool \<Rightarrow> outbox \<Rightarrow> outbox \<times> outbox_error option" where
  "cleanupTemps unlinks synced s =
     (case clean_loop unlinks s (sort (map fst (ob_files s))) of
        (s, _, Some e) \<Rightarrow> (s, Some e)
      | (s, False, None) \<Rightarrow> (s, None)
      | (s, True, None) \<Rightarrow> (if synced then (sync_dir True s, None) else (s, Some ErrSyncDir)))"

definition open_outbox ::
  "codec \<Rightarrow> read_io \<Rightarrow> (string \<Rightarrow> bool) \<Rightarrow> bool \<Rightarrow> outbox \<Rightarrow> outbox_error + outbox" where
  "open_outbox cd rio unlinks synced s =
     (case cleanupTemps unlinks synced (s\<lparr>ob_unconfirmed := False\<rparr>) of
        (s, Some e) \<Rightarrow> Inl e
      | (s, None) \<Rightarrow> (case readAll cd rio s of Inl e \<Rightarrow> Inl e | Inr _ \<Rightarrow> Inr s))"

subsection \<open>What is relied on\<close>

definition codec_ok :: "codec \<Rightarrow> bool" where
  "codec_ok cd \<longleftrightarrow>
     (\<forall>e data. cd_marshal cd e = Some data \<longrightarrow> cd_decode cd data = Some (e\<lparr>en_key := []\<rparr>))"

subsection \<open>Steps\<close>

text \<open>
  The steps of an agent's life: the calls, with any answers of the system, a restart of the
  agent, and a crash of the machine. A crash keeps, of each name, the version of the last
  synced directory or the latest one. A step of kind \<open>Removed k\<close> is the acknowledgement of the
  entry with that key.
\<close>

datatype outbox_label = Called | Removed string | Reopened | Crashed

inductive outbox_step :: "codec \<Rightarrow> outbox \<Rightarrow> outbox_label \<Rightarrow> outbox \<Rightarrow> bool" for cd where
  step_begin: "begin_task cd rio wio now s t protocol = (s', c, err) \<Longrightarrow> outbox_step cd s Called s'"
| step_complete: "complete_task cd rio wio now s r = (s', c, err) \<Longrightarrow> outbox_step cd s Called s'"
| step_confirm: "confirmDurability ok s = (s', err) \<Longrightarrow> outbox_step cd s Called s'"
| step_recover: "recoverInterrupted cd rio ok ios s nodeID = (s', err) \<Longrightarrow> outbox_step cd s Called s'"
| step_remove: "remove_entry cd unlinked synced s e = (s', err) \<Longrightarrow>
    k = (if en_key e = [] then entryKey cd (tk_ID (en_Task e)) (tk_LeaseID (en_Task e)) else en_key e) \<Longrightarrow>
    outbox_step cd s (Removed k) s'"
| step_open: "open_outbox cd rio unlinks synced s = Inr s' \<Longrightarrow> outbox_step cd s Reopened s'"
| step_crash: "(\<And>n. map_of fs n = map_of (ob_files s) n \<or> map_of fs n = map_of (ob_durable s) n) \<Longrightarrow>
    distinct (map fst fs) \<Longrightarrow>
    outbox_step cd s Crashed \<lparr>ob_files = fs, ob_durable = fs, ob_unconfirmed = False\<rparr>"

inductive outbox_reach :: "codec \<Rightarrow> outbox_label set \<Rightarrow> outbox \<Rightarrow> outbox \<Rightarrow> bool" for cd ls where
  reach_refl: "outbox_reach cd ls s s"
| reach_step: "outbox_reach cd ls s t \<Longrightarrow> outbox_step cd t l u \<Longrightarrow> l \<in> ls \<Longrightarrow> outbox_reach cd ls s u"

inductive_cases outbox_stepE: "outbox_step cd s l s'"

section \<open>Lemmas\<close>

lemma path_inj [simp]: "path a = path b \<longleftrightarrow> a = b"
  by (simp add: path_def)

lemma path_suffix: "has_suffix (path k) ''.json''"
  by (simp add: path_def)

lemma trim_path [simp]: "trim_suffix (path k) ''.json'' = k"
  by (simp add: trim_suffix_def path_def)

lemma path_of: "has_suffix n ''.json'' \<Longrightarrow> path (trim_suffix n ''.json'') = n"
  by (auto simp: has_suffix_iff trim_suffix_def path_def)

lemma tmp_not_path [simp]: "tmp_name io \<noteq> path k" "path k \<noteq> tmp_name io"
proof -
  have "last (tmp_name io) = CHR ''p''" "last (path k) = CHR ''n''"
    by (simp_all add: tmp_name_def path_def)
  then show "tmp_name io \<noteq> path k" "path k \<noteq> tmp_name io" by auto
qed

lemma temp_not_path: "is_temp n \<Longrightarrow> n \<noteq> path k"
proof
  assume "is_temp n" "n = path k"
  then have "last (path k) = CHR ''p''" by (auto simp: is_temp_def has_suffix_iff)
  then show False by (simp add: path_def)
qed

lemma file_fields [simp]:
  "map_of (ob_files (put_file n nd s)) = (map_of (ob_files s))(n \<mapsto> nd)"
  "map_of (ob_files (drop_file n s)) = (map_of (ob_files s))(n := None)"
  "ob_durable (put_file n nd s) = ob_durable s" "ob_durable (drop_file n s) = ob_durable s"
  "ob_unconfirmed (put_file n nd s) = ob_unconfirmed s"
  "ob_unconfirmed (drop_file n s) = ob_unconfirmed s"
  "ob_files (sync_dir ok s) = ob_files s" "ob_unconfirmed (sync_dir ok s) = ob_unconfirmed s"
  "ob_durable (sync_dir ok s) = (if ok then ob_files s else ob_durable s)"
  by (simp_all add: put_file_def drop_file_def sync_dir_def update_conv' delete_conv')

text \<open>
  What a write can do to the journal: nothing, or publish the entry under its key, and then
  sync the directory or remember that it could not.
\<close>

definition journal_node :: "codec \<Rightarrow> entry \<Rightarrow> node \<Rightarrow> bool" where
  "journal_node cd e nd \<longleftrightarrow>
     \<not> nd_isDir nd \<and> nd_regular nd \<and> nd_private nd \<and> int (length (nd_content nd)) \<le> maxEntrySize \<and>
     cd_marshal cd e = Some (nd_content nd)"

lemma writeEntry_cases:
  assumes w: "writeEntry cd io s key e createOnly = (s', committed, err)"
  obtains (kept) "\<not> committed" "err \<noteq> None" "ob_durable s' = ob_durable s"
      "ob_unconfirmed s' = ob_unconfirmed s"
      "\<And>k. map_of (ob_files s') (path k) = map_of (ob_files s) (path k)"
  | (published) nd where "committed" "journal_node cd e nd"
      "\<And>k. map_of (ob_files s') (path k) = (if k = key then Some nd else map_of (ob_files s) (path k))"
      "createOnly \<longrightarrow> map_of (ob_files s) (path key) = None"
      "if err = None then ob_durable s' = ob_files s' \<and> \<not> ob_unconfirmed s'
       else ob_durable s' = ob_durable s \<and> ob_unconfirmed s'"
proof (cases "cd_marshal cd e")
  case None
  with w show thesis by (intro kept) (auto simp: writeEntry_def)
next
  case (Some data)
  let ?nd = "\<lparr>nd_kind = RegularFile, nd_private = True, nd_content = data\<rparr>"
  show thesis
  proof (cases "committed")
    case True
    with w Some show thesis
      by (intro published [of ?nd])
        (auto simp: writeEntry_def Let_def journal_node_def confirm_write_def nd_isDir_def nd_regular_def
          split: if_splits)
  next
    case False
    with w Some show thesis
      by (intro kept)
        (auto simp: writeEntry_def Let_def confirm_write_def split: if_splits)
  qed
qed

subsection \<open>Reading the journal\<close>

lemma check_entry_Inr:
  "check_entry cd key e = Inr x \<Longrightarrow> x = e\<lparr>en_key := key\<rparr> \<and> key = entryKey cd (tk_ID (en_Task e)) (tk_LeaseID (en_Task e))"
  by (auto simp: check_entry_def split: if_splits)

lemma read_entry_Inr:
  assumes "read_entry cd io s k = Inr e"
  obtains nd x where "map_of (ob_files s) (path k) = Some nd" "cd_decode cd (nd_content nd) = Some x"
    "check_entry cd k x = Inr e" "e = x\<lparr>en_key := k\<rparr>" "en_key e = k" "\<not> nd_isDir nd"
  using assms check_entry_Inr
  by (fastforce simp: read_entry_def nd_regular_def nd_isDir_def split: option.splits if_splits)

lemma read_loop_Inr:
  "read_loop cd io s acc ns = Inr es \<Longrightarrow>
    \<exists>es'. es = acc @ es' \<and> list_all2 (\<lambda>n e. read_entry cd io s (trim_suffix n ''.json'') = Inr e) ns es'
      \<and> (ns \<noteq> [] \<longrightarrow> int (length es) \<le> maxEntries)"
proof (induction ns arbitrary: acc)
  case (Cons n ns)
  from Cons.prems obtain e where e: "read_entry cd io s (trim_suffix n ''.json'') = Inr e"
    and acc: "int (length acc) < maxEntries" and rest: "read_loop cd io s (acc @ [e]) ns = Inr es"
    by (auto split: if_splits sum.splits)
  from Cons.IH [OF rest] e acc show ?case
    by (cases "ns = []") auto
qed simp

lemma readAll_Inr:
  assumes "readAll cd io s = Inr es"
  shows "list_all2 (\<lambda>n e. read_entry cd io s (trim_suffix n ''.json'') = Inr e) (journal_names (ob_files s)) es"
    "int (length es) \<le> maxEntries"
  using assms read_loop_Inr [of cd io s "[]" "journal_names (ob_files s)" es]
  by (auto simp: readAll_def maxEntries_def split: if_splits)

lemma readAll_mem:
  assumes "readAll cd io s = Inr es" "e \<in> set es"
  shows "read_entry cd io s (en_key e) = Inr e"
proof -
  from readAll_Inr(1) [OF assms(1)] assms(2)
  obtain n where "read_entry cd io s (trim_suffix n ''.json'') = Inr e"
    by (fastforce simp: list_all2_conv_all_nth in_set_conv_nth)
  then show ?thesis by (metis read_entry_Inr)
qed

lemma readAll_complete:
  assumes r: "readAll cd io s = Inr es" and f: "map_of (ob_files s) (path k) = Some nd" "\<not> nd_isDir nd"
  obtains e where "e \<in> set es" "read_entry cd io s k = Inr e"
proof -
  have "(path k, nd) \<in> set (ob_files s)" using f(1) by (rule map_of_SomeD)
  then have "path k \<in> set (journal_names (ob_files s))"
    using f(2) path_suffix [of k] by (force simp: journal_names_def)
  then obtain e where "e \<in> set es" "read_entry cd io s (trim_suffix (path k) ''.json'') = Inr e"
    using readAll_Inr(1) [OF r] by (fastforce simp: list_all2_conv_all_nth in_set_conv_nth)
  then show thesis using that by simp
qed

subsection \<open>What stays in the journal\<close>

text \<open>
  A property of an entry that completing the entry keeps. As long as the entry is not
  acknowledged, the journal holds an entry with that property under its key, in the visible
  directory and in the one that survives a crash.
\<close>

definition holds_in :: "codec \<Rightarrow> (entry \<Rightarrow> bool) \<Rightarrow> string \<Rightarrow> (string \<times> node) list \<Rightarrow> bool" where
  "holds_in cd P k fs \<longleftrightarrow>
     (\<exists>nd e. map_of fs (path k) = Some nd \<and> \<not> nd_isDir nd \<and> cd_decode cd (nd_content nd) = Some e \<and> P e)"

definition journaled :: "codec \<Rightarrow> (entry \<Rightarrow> bool) \<Rightarrow> string \<Rightarrow> outbox \<Rightarrow> bool" where
  "journaled cd P k s \<longleftrightarrow> holds_in cd P k (ob_files s) \<and> holds_in cd P k (ob_durable s)"

locale journal_property =
  fixes P :: "entry \<Rightarrow> bool"
  assumes completes: "P e \<Longrightarrow> en_State e = stateLeased \<Longrightarrow>
      P (e\<lparr>en_State := stateDone, en_Result := Some r, en_UpdatedAt := now\<rparr>)"
    and key_free: "P (e\<lparr>en_key := k\<rparr>) = P e"
begin

lemma journal_node_holds:
  "codec_ok cd \<Longrightarrow> journal_node cd e nd \<Longrightarrow> P e \<Longrightarrow> map_of fs (path k) = Some nd \<Longrightarrow> holds_in cd P k fs"
  by (auto simp: holds_in_def journal_node_def codec_ok_def key_free)

lemma read_holds:
  assumes "journaled cd P k s" "read_entry cd io s k = Inr e"
  shows "P e"
  by (rule read_entry_Inr [OF assms(2)])
    (use assms(1) in \<open>auto simp: journaled_def holds_in_def key_free\<close>)

lemma write_keeps:
  assumes cd: "codec_ok cd" and j: "journaled cd P k s"
    and w: "writeEntry cd io s key e createOnly = (s', c, err)"
    and e: "key = k \<Longrightarrow> createOnly \<or> P e"
  shows "journaled cd P k s'"
  using w
proof (cases rule: writeEntry_cases)
  case kept
  with j show ?thesis by (simp add: journaled_def holds_in_def)
next
  case (published nd)
  have "holds_in cd P k (ob_files s')"
  proof (cases "key = k")
    case True
    with j published(4) have "\<not> createOnly" by (auto simp: journaled_def holds_in_def)
    with e True have "P e" by simp
    then show ?thesis using journal_node_holds [OF cd published(2)] published(3) [of k] True by simp
  next
    case False
    with j published(3) [of k] show ?thesis by (auto simp: journaled_def holds_in_def)
  qed
  then show ?thesis using j published(5) by (auto simp: journaled_def split: if_splits)
qed

lemma confirm_keeps: "journaled cd P k s \<Longrightarrow> confirmDurability ok s = (s', err) \<Longrightarrow> journaled cd P k s'"
  by (auto simp: confirmDurability_def journaled_def split: if_splits)

lemma recover_loop_keeps:
  "codec_ok cd \<Longrightarrow> journaled cd P k s \<Longrightarrow> \<forall>e \<in> set es. en_key e = k \<longrightarrow> P e \<Longrightarrow>
   recover_loop cd nodeID ios n s es = (s', err) \<Longrightarrow> journaled cd P k s'"
proof (induction es arbitrary: n s)
  case (Cons e es)
  obtain t c x where w: "writeEntry cd (vio_write (ios n)) s (en_key e)
      (recovered nodeID (vio_now (ios n)) e) False = (t, c, x)" by (metis prod_cases3)
  obtain u y where cf: "confirmDurability (vio_confirm (ios n)) t = (u, y)" by fastforce
  have t: "journaled cd P k t" if "en_State e = stateLeased"
    using Cons.prems that by (intro write_keeps [OF _ _ w]) (auto simp: recovered_def completes)
  from Cons.prems Cons.IH t confirm_keeps [OF _ cf] show ?case
    by (auto simp: w cf split: if_splits option.splits)
qed simp

lemma clean_loop_keeps:
  "clean_loop unlinks s ns = (s', r, err) \<Longrightarrow>
     (\<forall>k. map_of (ob_files s') (path k) = map_of (ob_files s) (path k)) \<and> ob_durable s' = ob_durable s"
proof (induction ns arbitrary: s s' r)
  case (Cons n ns)
  show ?case
  proof (cases "is_temp n")
    case True
    then show ?thesis
      using Cons temp_not_path [OF True]
      by (fastforce split: option.splits if_splits prod.splits)
  next
    case False
    then show ?thesis using Cons by auto
  qed
qed simp

lemma step_keeps:
  assumes cd: "codec_ok cd" and step: "outbox_step cd s l s'"
    and j: "journaled cd P k s" and l: "l \<noteq> Removed k"
  shows "journaled cd P k s'"
  using step
proof (cases rule: outbox_step.cases)
  case (step_begin rio wio now t protocol c err)
  then show ?thesis
    using j by (auto simp: begin_task_def Let_def split: if_splits sum.splits option.splits
        intro: write_keeps [OF cd j])
next
  case (step_complete rio wio now r c err)
  then show ?thesis
    using j by (auto simp: complete_task_def Let_def completes read_holds split: if_splits sum.splits
        intro: write_keeps [OF cd j])
next
  case (step_confirm ok err)
  then show ?thesis using j confirm_keeps by blast
next
  case (step_recover rio ok ios nodeID err)
  obtain u y where cf: "confirmDurability ok s = (u, y)" by fastforce
  have u: "journaled cd P k u" using confirm_keeps [OF j cf] .
  have "journaled cd P k s'" if "y = None" "readAll cd rio u = Inr es" for es
  proof (rule recover_loop_keeps [OF cd u])
    show "\<forall>e \<in> set es. en_key e = k \<longrightarrow> P e" using readAll_mem [OF that(2)] read_holds [OF u] by metis
    show "recover_loop cd nodeID ios 0 u es = (s', err)"
      using step_recover(2) that cf by (simp add: recoverInterrupted_def)
  qed
  then show ?thesis
    using step_recover(2) u cf by (auto simp: recoverInterrupted_def split: option.splits sum.splits)
next
  case (step_remove unlinked synced e err k')
  then show ?thesis
    using j l by (auto simp: remove_entry_def Let_def journaled_def holds_in_def split: if_splits)
next
  case (step_open rio unlinks synced)
  obtain t r x where c: "clean_loop unlinks (s\<lparr>ob_unconfirmed := False\<rparr>) (sort (map fst (ob_files s))) = (t, r, x)"
    by (metis prod_cases3)
  have "s' = t \<or> s' = sync_dir True t"
    using step_open c
    by (auto simp: open_outbox_def cleanupTemps_def split: option.splits bool.splits sum.splits if_splits)
  then show ?thesis using clean_loop_keeps [OF c] j by (auto simp: journaled_def holds_in_def)
next
  case (step_crash fs)
  have "map_of fs (path k) = map_of (ob_files s) (path k) \<or> map_of fs (path k) = map_of (ob_durable s) (path k)"
    using step_crash by blast
  then have "holds_in cd P k fs" using j unfolding journaled_def holds_in_def by metis
  then show ?thesis using step_crash by (simp add: journaled_def)
qed

lemma reach_keeps:
  assumes cd: "codec_ok cd" and r: "outbox_reach cd ls s s'" and j: "journaled cd P k s"
    and l: "Removed k \<notin> ls"
  shows "journaled cd P k s'"
  using r j
proof (induction rule: outbox_reach.induct)
  case (reach_step s t l u)
  then show ?case using step_keeps [OF cd reach_step.hyps(2)] l by blast
qed

end

interpretation of_task: journal_property "\<lambda>e. en_Task e = t" for t
  by unfold_locales simp_all

interpretation of_result: journal_property
  "\<lambda>e. en_State e = stateDone \<and> en_Result e = Some r" for r
  by unfold_locales (simp_all add: stateDone_def stateLeased_def)

lemma begin_seen_None:
  "begin_seen t p k es = None \<Longrightarrow> e \<in> set es \<Longrightarrow> tk_ID (en_Task e) \<noteq> tk_ID t"
  by (induction es) (auto split: if_splits)

lemma begin_committed:
  assumes "begin_task cd rio wio now s t protocol = (s', True, err)"
  obtains es e where "readAll cd rio s = Inr es" "begin_seen t protocol (entryKey cd (tk_ID t) (tk_LeaseID t)) es = None"
    "int (length es) < maxEntries" "en_Task e = t" "en_State e = stateLeased" "en_Result e = None"
    "writeEntry cd wio s (entryKey cd (tk_ID t) (tk_LeaseID t)) e True = (s', True, err)"
proof -
  define e where "e = \<lparr>en_Version = entryVersion, en_State = stateLeased, en_Task = t,
    en_DurableProtocol = protocol, en_Result = None, en_ExecutionStartedAt = now,
    en_UpdatedAt = now, en_key = []\<rparr>"
  from assms obtain es where "readAll cd rio s = Inr es"
    "begin_seen t protocol (entryKey cd (tk_ID t) (tk_LeaseID t)) es = None"
    "int (length es) < maxEntries"
    "writeEntry cd wio s (entryKey cd (tk_ID t) (tk_LeaseID t)) e True = (s', True, err)"
    unfolding begin_task_def Let_def e_def by (auto split: if_splits sum.splits option.splits)
  then show thesis using that [of es e] by (simp add: e_def)
qed

lemma begin_journals:
  assumes cd: "codec_ok cd" and b: "begin_task cd rio wio now s t protocol = (s', True, None)"
  shows "journaled cd (\<lambda>e. en_Task e = t) (entryKey cd (tk_ID t) (tk_LeaseID t)) s'"
proof -
  from b obtain e where e: "en_Task e = t"
    and w: "writeEntry cd wio s (entryKey cd (tk_ID t) (tk_LeaseID t)) e True = (s', True, None)"
    by (rule begin_committed)
  from w show ?thesis
    by (cases rule: writeEntry_cases)
      (use of_task.journal_node_holds [OF cd, of e] e in \<open>auto simp: journaled_def\<close>)
qed

lemma complete_journals:
  assumes cd: "codec_ok cd" and c: "complete_task cd rio wio now s r = (s', True, None)"
  shows "journaled cd (\<lambda>e. en_State e = stateDone \<and> en_Result e = Some r) (entryKey cd (tr_TaskID r) (tr_LeaseID r)) s'"
proof -
  let ?k = "entryKey cd (tr_TaskID r) (tr_LeaseID r)"
  from c obtain e where w: "writeEntry cd wio s ?k e False = (s', True, None)"
    and e: "en_State e = stateDone" "en_Result e = Some r"
    by (auto simp: complete_task_def Let_def split: sum.splits if_splits)
  from w show ?thesis
    by (cases rule: writeEntry_cases)
      (use of_result.journal_node_holds [OF cd, of e] e in \<open>auto simp: journaled_def\<close>)
qed

subsection \<open>The durability gate\<close>

definition gate :: "outbox \<Rightarrow> bool" where
  "gate s \<longleftrightarrow> ob_unconfirmed s \<or> (\<forall>k. map_of (ob_files s) (path k) = map_of (ob_durable s) (path k))"

lemma gate_write: "gate s \<Longrightarrow> writeEntry cd io s key e co = (s', c, err) \<Longrightarrow> gate s'"
  by (erule writeEntry_cases) (auto simp: gate_def split: if_splits)

lemma gate_confirm: "gate s \<Longrightarrow> confirmDurability ok s = (s', err) \<Longrightarrow> gate s'"
  by (auto simp: gate_def confirmDurability_def split: if_splits)

lemma gate_recover_loop: "gate s \<Longrightarrow> recover_loop cd nodeID ios n s es = (s', err) \<Longrightarrow> gate s'"
proof (induction es arbitrary: n s)
  case (Cons e es)
  obtain t c x where w: "writeEntry cd (vio_write (ios n)) s (en_key e)
      (recovered nodeID (vio_now (ios n)) e) False = (t, c, x)" by (metis prod_cases3)
  obtain u y where cf: "confirmDurability (vio_confirm (ios n)) t = (u, y)" by fastforce
  from Cons.prems Cons.IH gate_write [OF Cons.prems(1) w] gate_confirm [OF _ cf] show ?case
    by (auto simp: w cf split: if_splits option.splits)
qed simp

lemma gate_step:
  assumes "outbox_step cd s l s'" "gate s" "l = Called \<or> l = Removed k"
  shows "gate s'"
  using assms(1)
proof (cases rule: outbox_step.cases)
  case (step_recover rio ok ios nodeID err)
  obtain u y where cf: "confirmDurability ok s = (u, y)" by fastforce
  show ?thesis
    using step_recover(2) cf gate_confirm [OF assms(2) cf] gate_recover_loop
    by (auto simp: recoverInterrupted_def split: option.splits sum.splits)
next
  case (step_begin rio wio now t protocol c err)
  then show ?thesis using assms(2) gate_write [OF assms(2)]
    by (auto simp: begin_task_def Let_def split: if_splits sum.splits option.splits)
next
  case (step_complete rio wio now r c err)
  then show ?thesis using assms(2) gate_write [OF assms(2)]
    by (auto simp: complete_task_def Let_def split: if_splits sum.splits)
next
  case (step_confirm ok err)
  then show ?thesis using gate_confirm [OF assms(2)] by blast
next
  case (step_remove unlinked synced e err k')
  then show ?thesis using assms(2) by (auto simp: remove_entry_def gate_def Let_def split: if_splits)
qed (use assms(3) in auto)

text \<open>A recovery that reports no error leaves a synced directory without leased entries.\<close>

lemma stateDone_not_leased [simp]: "stateDone \<noteq> stateLeased" "stateLeased \<noteq> stateDone"
  by (simp_all add: stateDone_def stateLeased_def)

lemma recover_loop_settles:
  "codec_ok cd \<Longrightarrow> recover_loop cd nodeID ios n s es = (s', None) \<Longrightarrow>
   ob_durable s = ob_files s \<Longrightarrow> \<not> ob_unconfirmed s \<Longrightarrow>
   \<forall>k. holds_in cd (\<lambda>e. en_State e = stateLeased) k (ob_files s) \<longrightarrow>
     (\<exists>e \<in> set es. en_key e = k \<and> en_State e = stateLeased) \<Longrightarrow>
   ob_durable s' = ob_files s' \<and> \<not> ob_unconfirmed s' \<and>
   (\<forall>k. \<not> holds_in cd (\<lambda>e. en_State e = stateLeased) k (ob_files s'))"
proof (induction es arbitrary: n s)
  case (Cons e es)
  show ?case
  proof (cases "en_State e = stateLeased")
    case False
    with Cons.prems show ?thesis by (intro Cons.IH) fastforce+
  next
    case True
    obtain t c x where w: "writeEntry cd (vio_write (ios n)) s (en_key e)
        (recovered nodeID (vio_now (ios n)) e) False = (t, c, x)" by (metis prod_cases3)
    obtain u y where cf: "confirmDurability (vio_confirm (ios n)) t = (u, y)" by fastforce
    have c: "c" and next': "(x = None \<and> recover_loop cd nodeID ios (Suc n) t es = (s', None)) \<or>
        (y = None \<and> recover_loop cd nodeID ios (Suc n) u es = (s', None))"
      using Cons.prems(2) True writeEntry_cases [OF w] by (auto simp: w cf split: if_splits option.splits)
    from w c obtain nd where nd: "journal_node cd (recovered nodeID (vio_now (ios n)) e) nd"
        "\<And>k. map_of (ob_files t) (path k) = (if k = en_key e then Some nd else map_of (ob_files s) (path k))"
        "x = None \<Longrightarrow> ob_durable t = ob_files t \<and> \<not> ob_unconfirmed t"
      by (cases rule: writeEntry_cases) auto
    have left: "\<forall>k. holds_in cd (\<lambda>e. en_State e = stateLeased) k (ob_files t) \<longrightarrow>
        (\<exists>e \<in> set es. en_key e = k \<and> en_State e = stateLeased)"
    proof (intro allI impI)
      fix k assume h: "holds_in cd (\<lambda>e. en_State e = stateLeased) k (ob_files t)"
      have "k \<noteq> en_key e"
        using h nd(1,2) Cons.prems(1) by (auto simp: holds_in_def journal_node_def codec_ok_def recovered_def)
      then show "\<exists>e \<in> set es. en_key e = k \<and> en_State e = stateLeased"
        using h nd(2) [of k] Cons.prems(5) by (auto simp: holds_in_def)
    qed
    have u: "ob_files u = ob_files t" "y = None \<Longrightarrow> ob_durable u = ob_files u \<and> \<not> ob_unconfirmed u"
      using cf by (auto simp: confirmDurability_def split: if_splits)
    from next' show ?thesis
    proof (elim disjE conjE)
      assume "x = None" and r: "recover_loop cd nodeID ios (Suc n) t es = (s', None)"
      then show ?thesis using nd(3) left by (intro Cons.IH [OF Cons.prems(1) r]) auto
    next
      assume "y = None" and r: "recover_loop cd nodeID ios (Suc n) u es = (s', None)"
      then show ?thesis using u left by (intro Cons.IH [OF Cons.prems(1) r]) auto
    qed
  qed
qed auto

lemma recover_settles:
  assumes cd: "codec_ok cd" and r: "recoverInterrupted cd rio ok ios s nodeID = (s', None)"
  shows "ob_durable s' = ob_files s'" "\<not> ob_unconfirmed s'"
    "\<not> holds_in cd (\<lambda>e. en_State e = stateLeased) k (ob_files s')"
proof -
  obtain u y where cf: "confirmDurability ok s = (u, y)" by fastforce
  from r cf obtain es where es: "readAll cd rio u = Inr es" and y: "y = None"
    and l: "recover_loop cd nodeID ios 0 u es = (s', None)"
    by (auto simp: recoverInterrupted_def split: option.splits sum.splits)
  have u: "ob_durable u = ob_files u" "\<not> ob_unconfirmed u"
    using cf y by (auto simp: confirmDurability_def split: if_splits)
  have "\<forall>k. holds_in cd (\<lambda>e. en_State e = stateLeased) k (ob_files u) \<longrightarrow>
      (\<exists>e \<in> set es. en_key e = k \<and> en_State e = stateLeased)"
  proof (intro allI impI)
    fix k assume "holds_in cd (\<lambda>e. en_State e = stateLeased) k (ob_files u)"
    then obtain nd x where nd: "map_of (ob_files u) (path k) = Some nd" "\<not> nd_isDir nd"
      "cd_decode cd (nd_content nd) = Some x" "en_State x = stateLeased" by (auto simp: holds_in_def)
    from readAll_complete [OF es nd(1,2)] obtain e where e: "e \<in> set es" "read_entry cd rio u k = Inr e" .
    from e(2) nd have "en_key e = k" "en_State e = stateLeased" by (auto elim!: read_entry_Inr)
    with e(1) show "\<exists>e \<in> set es. en_key e = k \<and> en_State e = stateLeased" by blast
  qed
  from recover_loop_settles [OF cd l u this]
  show "ob_durable s' = ob_files s'" "\<not> ob_unconfirmed s'"
    "\<not> holds_in cd (\<lambda>e. en_State e = stateLeased) k (ob_files s')" by blast+
qed

section \<open>Properties\<close>

text \<open>
  C3. A task is started at most once, even across crashes. When \<open>Begin\<close> has published a lease and
  confirmed it, then after any calls with any failures, restarts of the agent and crashes of
  the machine, and until the entry is acknowledged, no further \<open>Begin\<close> of a task with that id
  commits: it changes nothing.
\<close>

theorem task_begins_once:
  assumes "codec_ok cd"
    and "begin_task cd rio wio now s t protocol = (s1, True, None)"
    and "outbox_reach cd ls s1 s2" "Removed (entryKey cd (tk_ID t) (tk_LeaseID t)) \<notin> ls"
    and "tk_ID t' = tk_ID t"
    and "begin_task cd rio' wio' now' s2 t' protocol' = (s3, committed, err)"
  shows "\<not> committed \<and> s3 = s2"
proof -
  let ?k = "entryKey cd (tk_ID t) (tk_LeaseID t)" and ?k' = "entryKey cd (tk_ID t') (tk_LeaseID t')"
  have j: "journaled cd (\<lambda>e. en_Task e = t) ?k s2"
    using of_task.reach_keeps [OF assms(1,3) begin_journals [OF assms(1,2)] assms(4)] .
  then obtain nd where nd: "map_of (ob_files s2) (path ?k) = Some nd" "\<not> nd_isDir nd"
    by (auto simp: journaled_def holds_in_def)
  have "begin_seen t' protocol' ?k' es \<noteq> None" if es: "readAll cd rio' s2 = Inr es" for es
  proof -
    from readAll_complete [OF es nd] obtain e where e: "e \<in> set es" "read_entry cd rio' s2 ?k = Inr e" .
    then have "en_Task e = t" using of_task.read_holds [OF j] by blast
    then show ?thesis using begin_seen_None [of t' protocol' ?k' es e] e(1) assms(5) by auto
  qed
  then show ?thesis
    using assms(6) by (auto simp: begin_task_def Let_def split: if_splits sum.splits option.splits)
qed

text \<open>A journal with one task, its encoding by a table, and a system that answers well.\<close>

definition demo_task :: task where
  "demo_task = \<lparr>tk_ID = ''t'', tk_LeaseID = ''l'', tk_Rest = []\<rparr>"

definition demo_result :: task_result where
  "demo_result = \<lparr>tr_TaskID = ''t'', tr_LeaseID = ''l'', tr_NodeID = ''n'', tr_ExitCode = 0,
     tr_Error = [], tr_StartedAt = 1, tr_FinishedAt = 2, tr_Rest = []\<rparr>"

definition demo_leased :: entry where
  "demo_leased = \<lparr>en_Version = 1, en_State = ''leased'', en_Task = demo_task, en_DurableProtocol = [],
     en_Result = None, en_ExecutionStartedAt = 1, en_UpdatedAt = 1, en_key = []\<rparr>"

definition demo_done :: entry where
  "demo_done = demo_leased\<lparr>en_State := ''completed'', en_Result := Some demo_result, en_UpdatedAt := 2\<rparr>"

definition demo_unknown :: entry where
  "demo_unknown = recovered ''n'' 9 demo_leased"

definition demo_codec :: codec where
  "demo_codec = \<lparr>cd_marshal = (\<lambda>e. if e\<lparr>en_key := []\<rparr> = demo_leased then Some ''L''
       else if e\<lparr>en_key := []\<rparr> = demo_done then Some ''D''
       else if e\<lparr>en_key := []\<rparr> = demo_unknown then Some ''U'' else None),
     cd_decode = (\<lambda>s. if s = ''L'' then Some demo_leased else if s = ''D'' then Some demo_done
       else if s = ''U'' then Some demo_unknown else None),
     cd_sha256 = (\<lambda>s. s)\<rparr>"

definition good_read :: read_io where
  "good_read = \<lparr>rio_readDir = True, rio_lstat = (\<lambda>_. True), rio_open = (\<lambda>_. True)\<rparr>"

definition good_write :: write_io where
  "good_write = \<lparr>wio_rand = ''1'', wio_create = True, wio_chmod = True, wio_write = True,
     wio_sync = True, wio_close = True, wio_publish = True, wio_removeTemp = True, wio_syncDir = True\<rparr>"

definition empty_outbox :: outbox where
  "empty_outbox = \<lparr>ob_files = [], ob_durable = [], ob_unconfirmed = False\<rparr>"

lemma demo_codec_ok: "codec_ok demo_codec"
  by (auto simp: codec_ok_def demo_codec_def)

lemmas demo_eval = begin_task_def complete_task_def readAll_def writeEntry_def confirm_write_def
  journal_names_def demo_codec_def good_read_def good_write_def empty_outbox_def demo_task_def
  demo_leased_def demo_done_def demo_result_def stateLeased_def stateDone_def entryVersion_def
  maxEntries_def maxEntrySize_def put_file_def drop_file_def sync_dir_def tmp_name_def path_def
  entryKey_def read_entry_def check_entry_def has_prefix_def has_suffix_def trim_suffix_def Let_def
  nd_isDir_def nd_regular_def

lemma trim_demo: "trim_space ''t'' = ''t''" "trim_space ''l'' = ''l''"
  by code_simp+

lemma demo_begins:
  "\<exists>s. begin_task demo_codec good_read good_write 1 empty_outbox demo_task [] = (s, True, None)"
  by (simp add: demo_eval trim_demo)

theorem task_begins_once_witness:
  "\<exists>s. begin_task demo_codec good_read good_write 1 empty_outbox demo_task [] = (s, True, None)
     \<and> \<not> fst (snd (begin_task demo_codec good_read good_write 5 s demo_task []))"
proof -
  obtain s where s: "begin_task demo_codec good_read good_write 1 empty_outbox demo_task [] = (s, True, None)"
    using demo_begins by blast
  obtain s3 c e where b: "begin_task demo_codec good_read good_write 5 s demo_task [] = (s3, c, e)"
    by (metis prod_cases3)
  from task_begins_once [OF demo_codec_ok s reach_refl [of demo_codec "{}"] _ refl b] s b
  show ?thesis by auto
qed



text \<open>
  What is uploaded is durable. After a recovery that reported no error, and whatever calls
  follow without a restart, every entry a successful \<open>Pending\<close> returns is also in the directory
  that survives a crash, and it carries a result for its own task and lease.
\<close>

theorem pending_is_durable:
  assumes "codec_ok cd" "recoverInterrupted cd rio ok ios s nodeID = (s1, None)"
    and "outbox_reach cd ls s1 s2" "\<forall>l \<in> ls. l = Called \<or> (\<exists>k. l = Removed k)"
    and "pending cd rio' s2 = Inr es" "e \<in> set es"
  shows "read_entry cd rio' (s2\<lparr>ob_files := ob_durable s2\<rparr>) (en_key e) = Inr e
    \<and> (\<exists>r. en_Result e = Some r \<and> tr_TaskID r = tk_ID (en_Task e) \<and> tr_LeaseID r = tk_LeaseID (en_Task e))"
proof -
  have "gate s1" using recover_settles [OF assms(1,2)] by (simp add: gate_def)
  from assms(3) this have g: "gate s2"
  proof (induction rule: outbox_reach.induct)
    case (reach_step s t l u)
    then show ?case using gate_step [OF reach_step.hyps(2)] assms(4) by blast
  qed
  have u: "\<not> ob_unconfirmed s2" using assms(5) by (auto simp: pending_def)
  from assms(5,6) u obtain xs where xs: "readAll cd rio' s2 = Inr xs" "e \<in> set xs"
    "en_State e = stateDone" "en_Result e \<noteq> None"
    by (auto simp: pending_def split: sum.splits)
  have r: "read_entry cd rio' s2 (en_key e) = Inr e" using readAll_mem [OF xs(1,2)] .
  moreover have "read_entry cd rio' (s2\<lparr>ob_files := ob_durable s2\<rparr>) k = read_entry cd rio' s2 k" for k
    using g u by (simp add: read_entry_def gate_def)
  moreover obtain x where "check_entry cd (en_key e) x = Inr e" using r by (auto elim: read_entry_Inr)
  ultimately show ?thesis
    using xs(3,4) by (auto simp: check_entry_def split: if_splits)
qed

definition leased_outbox :: outbox where
  "leased_outbox = fst (begin_task demo_codec good_read good_write 1 empty_outbox demo_task [])"

definition good_recover :: "nat \<Rightarrow> recover_io" where
  "good_recover k = \<lparr>vio_now = 9, vio_write = good_write, vio_confirm = True\<rparr>"

definition settled_outbox :: outbox where
  "settled_outbox = fst (recoverInterrupted demo_codec good_read True good_recover leased_outbox ''n'')"

lemmas recover_eval = settled_outbox_def leased_outbox_def recoverInterrupted_def confirmDurability_def
  good_recover_def demo_eval demo_unknown_def recovered_def unknown_outcome_def trim_demo pending_def

lemma demo_recovers:
  "recoverInterrupted demo_codec good_read True good_recover leased_outbox ''n'' = (settled_outbox, None)"
  "readAll demo_codec good_read settled_outbox = Inr [demo_unknown\<lparr>en_key := ''t'' @ [CHR 0x00] @ ''l''\<rparr>]"
  "pending demo_codec good_read settled_outbox = Inr [demo_unknown\<lparr>en_key := ''t'' @ [CHR 0x00] @ ''l''\<rparr>]"
  by (simp_all add: recover_eval)

theorem pending_is_durable_witness:
  "\<exists>r. en_Result (demo_unknown\<lparr>en_key := ''t'' @ [CHR 0x00] @ ''l''\<rparr>) = Some r \<and> tr_TaskID r = ''t''"
  using pending_is_durable [OF demo_codec_ok demo_recovers(1) reach_refl [of demo_codec "{}"] _ demo_recovers(3)]
  by (auto simp: demo_unknown_def recovered_def demo_leased_def demo_task_def)

text \<open>
  Recovery settles every interrupted task without running it. When \<open>RecoverInterrupted\<close> reports
  no error, every entry of the journal is completed with a result for its own task and lease,
  and the directory is synced.
\<close>

theorem recovery_settles_all:
  assumes "codec_ok cd" "recoverInterrupted cd rio ok ios s nodeID = (s1, None)"
    and "readAll cd rio' s1 = Inr es" "e \<in> set es"
  shows "en_State e = stateDone \<and> ob_durable s1 = ob_files s1 \<and> \<not> ob_unconfirmed s1
    \<and> (\<exists>r. en_Result e = Some r \<and> tr_TaskID r = tk_ID (en_Task e) \<and> tr_LeaseID r = tk_LeaseID (en_Task e))"
proof -
  note R = recover_settles [OF assms(1,2)]
  have "read_entry cd rio' s1 (en_key e) = Inr e" using readAll_mem [OF assms(3,4)] .
  then obtain nd x where x: "map_of (ob_files s1) (path (en_key e)) = Some nd"
    "cd_decode cd (nd_content nd) = Some x" "check_entry cd (en_key e) x = Inr e"
    "e = x\<lparr>en_key := en_key e\<rparr>" "\<not> nd_isDir nd"
    by (rule read_entry_Inr) blast
  with R(3) [of "en_key e"] have "en_State x \<noteq> stateLeased" by (auto simp: holds_in_def)
  with x(3) R(1,2) show ?thesis by (auto simp: check_entry_def split: if_splits option.splits)
qed

theorem recovery_settles_all_witness:
  "en_State (demo_unknown\<lparr>en_key := ''t'' @ [CHR 0x00] @ ''l''\<rparr>) = stateDone \<and> \<not> ob_unconfirmed settled_outbox"
  using recovery_settles_all [OF demo_codec_ok demo_recovers(1,2)] by simp

end
