(* ===== verification/Sdk_Types.thy ===== *)
theory Sdk_Types
  imports Go_Prelude
begin

text \<open>
  The data of the trace subsystem that the agent exchanges with the server. The structs are
  declared in the SDK (package \<open>model\<close> of lattice-sdk), which the repository only imports, so
  the records here have exactly the fields the agent's sources read or write, under the SDK's
  names with a prefix. The SDK's string constants for close reasons and user kinds are only
  assigned and compared for equality by the agent; they are the constructors of a datatype,
  with one more constructor for Go's empty string. Trace levels stay strings, because the
  agent normalises their spelling.
\<close>

datatype close_reason =
    CloseUnset
  | CloseUnknown
  | CloseEOF
  | CloseReset
  | CloseTimeout
  | CloseHandshakeFailed
  | CloseDialFailed
  | CloseAuthFailed
  | CloseCanceled
  | CloseUDPIdle
  | CloseCoreRestart

datatype user_kind =
    UserKindUnobserved
  | UserKindUnnamed
  | UserKindManaged
  | UserKindLegacy

record conn_record =
  rec_NodeID :: string
  rec_LogID :: "32 word"
  rec_CoreGeneration :: "64 word"
  rec_Network :: string
  rec_StartedAt :: gotime
  rec_EndedAt :: gotime
  rec_DurationMS :: int
  rec_Open :: bool
  rec_UserKind :: user_kind
  rec_UserName :: string
  rec_InboundTag :: string
  rec_InboundType :: string
  rec_SrcIP :: string
  rec_SrcPort :: int
  rec_DstHost :: string
  rec_DstPort :: int
  rec_DstIP :: string
  rec_RuleIndex :: int
  rec_RuleText :: string
  rec_OutboundTag :: string
  rec_OutboundType :: string
  rec_SniffedProtocol :: string
  rec_SniffedDomain :: string
  rec_Upload :: int
  rec_Download :: int
  rec_BytesKnown :: bool
  rec_StalledAt :: gotime
  rec_SessionIDs :: "string list"
  rec_CloseReason :: close_reason
  rec_CloseError :: string

record trace_line =
  tl_NodeID :: string
  tl_At :: gotime
  tl_Level :: string
  tl_LogID :: "32 word"
  tl_Tag :: string
  tl_Message :: string
  tl_Raw :: string
  tl_SessionID :: string

record trace_batch =
  tb_NodeID :: string
  tb_CoreGeneration :: "64 word"
  tb_CoreStartedAt :: gotime
  tb_Dropped :: "64 word"
  tb_ShedConnections :: "64 word"
  tb_Unparsed :: "64 word"
  tb_CapturedAt :: gotime
  tb_Records :: "conn_record list"
  tb_Lines :: "trace_line list"

text \<open>The zero value of \<open>model.ConnRecord\<close>; user kind and close reason are always set.\<close>

definition zero_conn_record :: conn_record where
  "zero_conn_record =
     \<lparr>rec_NodeID = [], rec_LogID = 0, rec_CoreGeneration = 0, rec_Network = [],
      rec_StartedAt = 0, rec_EndedAt = 0, rec_DurationMS = 0, rec_Open = False,
      rec_UserKind = UserKindUnobserved, rec_UserName = [], rec_InboundTag = [],
      rec_InboundType = [], rec_SrcIP = [], rec_SrcPort = 0, rec_DstHost = [],
      rec_DstPort = 0, rec_DstIP = [], rec_RuleIndex = 0, rec_RuleText = [],
      rec_OutboundTag = [], rec_OutboundType = [], rec_SniffedProtocol = [],
      rec_SniffedDomain = [], rec_Upload = 0, rec_Download = 0, rec_BytesKnown = False,
      rec_StalledAt = 0, rec_SessionIDs = [], rec_CloseReason = CloseUnset,
      rec_CloseError = []\<rparr>"

end
