(* ===== verification/Trace_Ship.thy ===== *)
theory Trace_Ship
  imports Sdk_Types
begin

text \<open>
  The shipper of \<open>internal/traceship/traceship.go\<close>: a bounded queue of connection records
  and trace lines that one flush cycle at a time ships to the server in batches. The state
  is the \<open>Shipper\<close> struct; every operation that takes \<open>mu\<close> is one function on it, because
  the mutex makes it atomic. A flush cycle interleaves with the operations of the other
  goroutines at the points where it holds no lock: before a batch is taken and while the
  request is on the wire. Those points carry a list of operations in \<^verbatim>\<open>flush\<close> and are
  arbitrary in the step relation \<^verbatim>\<open>ship_reach\<close>. The server's answer to a request is an input.
\<close>

section \<open>Definitions\<close>

subsection \<open>Configuration and state\<close>

definition defaultMaxBatchRecords :: int where "defaultMaxBatchRecords = 200"
definition defaultMaxBatchLines :: int where "defaultMaxBatchLines = 500"
definition defaultMaxPending :: int where "defaultMaxPending = 5000"
definition defaultFlushInterval :: duration where "defaultFlushInterval = second"
definition maxBackoff :: duration where "maxBackoff = minute"
definition errBodyLimit :: nat where "errBodyLimit = 512"
definition maxBatchBytes :: int where "maxBatchBytes = 4 * 2 ^ 20"

record ship_config =
  cfg_Server :: string
  cfg_NodeID :: string
  cfg_Token :: string
  cfg_MaxBatchRecords :: int
  cfg_MaxBatchLines :: int
  cfg_MaxPending :: int
  cfg_FlushInterval :: duration

record shipper =
  sh_server :: string
  sh_nodeID :: string
  sh_token :: string
  sh_maxBatchRecords :: int
  sh_maxBatchLines :: int
  sh_maxPending :: int
  sh_flushInterval :: duration
  sh_records :: "conn_record list"
  sh_lines :: "trace_line list"
  sh_inflightRecords :: "conn_record list"
  sh_inflightLines :: "trace_line list"
  sh_coreGeneration :: "64 word"
  sh_coreStartedAt :: gotime
  sh_dropped :: "64 word"
  sh_droppedTotal :: "64 word"
  sh_unparsed :: "64 word"
  sh_unparsedTotal :: "64 word"
  sh_shed :: "64 word"
  sh_shippedRecords :: "64 word"
  sh_shippedLines :: "64 word"
  sh_shippedBatches :: "64 word"
  sh_lastError :: string
  sh_lastSuccess :: gotime
  sh_loggedShipErr :: bool
  sh_retryUntil :: gotime
  sh_backoffFailures :: int

definition new_shipper :: "ship_config \<Rightarrow> shipper" where
  "new_shipper cfg =
     \<lparr>sh_server = trim_right (trim_space (cfg_Server cfg)) ''/'',
      sh_nodeID = trim_space (cfg_NodeID cfg),
      sh_token = cfg_Token cfg,
      sh_maxBatchRecords =
        (if cfg_MaxBatchRecords cfg \<le> 0 then defaultMaxBatchRecords else cfg_MaxBatchRecords cfg),
      sh_maxBatchLines =
        (if cfg_MaxBatchLines cfg \<le> 0 then defaultMaxBatchLines else cfg_MaxBatchLines cfg),
      sh_maxPending =
        (if cfg_MaxPending cfg \<le> 0 then defaultMaxPending else cfg_MaxPending cfg),
      sh_flushInterval =
        (if cfg_FlushInterval cfg \<le> 0 then defaultFlushInterval else cfg_FlushInterval cfg),
      sh_records = [], sh_lines = [], sh_inflightRecords = [], sh_inflightLines = [],
      sh_coreGeneration = 0, sh_coreStartedAt = 0, sh_dropped = 0, sh_droppedTotal = 0,
      sh_unparsed = 0, sh_unparsedTotal = 0, sh_shed = 0, sh_shippedRecords = 0,
      sh_shippedLines = 0, sh_shippedBatches = 0, sh_lastError = [], sh_lastSuccess = 0,
      sh_loggedShipErr = False, sh_retryUntil = 0, sh_backoffFailures = 0\<rparr>"

subsection \<open>The capacity trim\<close>

fun trim_loop :: "nat \<Rightarrow> nat \<Rightarrow> nat \<Rightarrow> nat \<Rightarrow> nat \<Rightarrow> nat \<times> nat" where
  "trim_loop 0 lenR lenL dropR dropL = (dropR, dropL)"
| "trim_loop (Suc over) lenR lenL dropR dropL =
     (if lenR - dropR = 0 \<and> lenL - dropL = 0 then (dropR, dropL)
      else if lenL - dropL \<ge> lenR - dropR then trim_loop over lenR lenL dropR (Suc dropL)
      else trim_loop over lenR lenL (Suc dropR) dropL)"

definition trimLocked :: "shipper \<Rightarrow> shipper" where
  "trimLocked s =
     (let over = int (length (sh_records s)) + int (length (sh_lines s)) - sh_maxPending s
      in if over \<le> 0 then s
         else let (dropR, dropL) =
                    trim_loop (nat over) (length (sh_records s)) (length (sh_lines s)) 0 0;
                  n = of_nat (dropR + dropL)
              in s\<lparr>sh_records := drop dropR (sh_records s), sh_lines := drop dropL (sh_lines s),
                   sh_dropped := sh_dropped s + n, sh_droppedTotal := sh_droppedTotal s + n\<rparr>)"

subsection \<open>The operations of the other goroutines\<close>

definition addRecords :: "conn_record list \<Rightarrow> shipper \<Rightarrow> shipper" where
  "addRecords rs s =
     (if rs = [] then s else trimLocked (s\<lparr>sh_records := sh_records s @ rs\<rparr>))"

definition addLines :: "trace_line list \<Rightarrow> shipper \<Rightarrow> shipper" where
  "addLines ls s =
     (if ls = [] then s else trimLocked (s\<lparr>sh_lines := sh_lines s @ ls\<rparr>))"

definition setCore :: "64 word \<Rightarrow> gotime \<Rightarrow> shipper \<Rightarrow> shipper" where
  "setCore generation startedAt s =
     s\<lparr>sh_coreGeneration := generation, sh_coreStartedAt := startedAt\<rparr>"

definition addUnparsed :: "64 word \<Rightarrow> shipper \<Rightarrow> shipper" where
  "addUnparsed n s =
     (if n = 0 then s
      else s\<lparr>sh_unparsed := sh_unparsed s + n, sh_unparsedTotal := sh_unparsedTotal s + n\<rparr>)"

definition addDropped :: "64 word \<Rightarrow> shipper \<Rightarrow> shipper" where
  "addDropped n s =
     (if n = 0 then s
      else s\<lparr>sh_dropped := sh_dropped s + n, sh_droppedTotal := sh_droppedTotal s + n\<rparr>)"

definition addShed :: "64 word \<Rightarrow> shipper \<Rightarrow> shipper" where
  "addShed n s =
     (if n = 0 then s
      else s\<lparr>sh_shed := sh_shed s + n, sh_dropped := sh_dropped s + n,
             sh_droppedTotal := sh_droppedTotal s + n\<rparr>)"

datatype ship_op =
    AddRecords "conn_record list"
  | AddLines "trace_line list"
  | SetCore "64 word" gotime
  | AddUnparsed "64 word"
  | AddDropped "64 word"
  | AddShed "64 word"

fun ship_op_apply :: "ship_op \<Rightarrow> shipper \<Rightarrow> shipper" where
  "ship_op_apply (AddRecords rs) s = addRecords rs s"
| "ship_op_apply (AddLines ls) s = addLines ls s"
| "ship_op_apply (SetCore g t) s = setCore g t s"
| "ship_op_apply (AddUnparsed n) s = addUnparsed n s"
| "ship_op_apply (AddDropped n) s = addDropped n s"
| "ship_op_apply (AddShed n) s = addShed n s"

subsection \<open>Batches\<close>

definition record_size :: "conn_record \<Rightarrow> int" where
  "record_size r =
     int (length (rec_DstHost r)) + int (length (rec_CloseError r)) +
     int (length (rec_RuleText r)) + int (length (rec_UserName r)) + 256"

definition line_size :: "trace_line \<Rightarrow> int" where
  "line_size l =
     int (length (tl_Message l)) + int (length (tl_Raw l)) + int (length (tl_Tag l)) + 128"

fun fit_records :: "int \<Rightarrow> nat \<Rightarrow> conn_record list \<Rightarrow> int \<times> nat" where
  "fit_records sz kept [] = (sz, kept)"
| "fit_records sz kept (r # rs) =
     (if sz + record_size r > maxBatchBytes \<and> kept > 0 then (sz, kept)
      else fit_records (sz + record_size r) (Suc kept) rs)"

fun fit_lines :: "nat \<Rightarrow> int \<Rightarrow> nat \<Rightarrow> trace_line list \<Rightarrow> int \<times> nat" where
  "fit_lines keptRecords sz kept [] = (sz, kept)"
| "fit_lines keptRecords sz kept (l # ls) =
     (if sz + line_size l > maxBatchBytes \<and> keptRecords + kept > 0 then (sz, kept)
      else fit_lines keptRecords (sz + line_size l) (Suc kept) ls)"

definition trimToByteBudget :: "shipper \<Rightarrow> nat \<Rightarrow> nat \<Rightarrow> nat \<times> nat" where
  "trimToByteBudget s recordN lineN =
     (let (sz, keptRecords) = fit_records 0 0 (take recordN (sh_records s));
          (_, keptLines) = fit_lines keptRecords sz 0 (take lineN (sh_lines s))
      in (keptRecords, keptLines))"

text \<open>\<open>None\<close> is the \<open>false\<close> of the source: there is nothing to say, or a 429 holds it back.\<close>

definition takeBatch :: "gotime \<Rightarrow> shipper \<Rightarrow> trace_batch option \<times> shipper" where
  "takeBatch now s =
     (if sh_retryUntil s \<noteq> 0 \<and> now < sh_retryUntil s then (None, s)
      else
        let recordN0 = nat (min (int (length (sh_records s))) (sh_maxBatchRecords s));
            lineN0 = nat (min (int (length (sh_lines s))) (sh_maxBatchLines s));
            (recordN, lineN) = trimToByteBudget s recordN0 lineN0
        in if recordN = 0 \<and> lineN = 0 \<and> sh_dropped s = 0 \<and> sh_unparsed s = 0 \<and> sh_shed s = 0
           then (None, s)
           else
             let s1 = (if recordN > 0
                       then s\<lparr>sh_inflightRecords := take recordN (sh_records s),
                              sh_records := drop recordN (sh_records s)\<rparr>
                       else s);
                 s2 = (if lineN > 0
                       then s1\<lparr>sh_inflightLines := take lineN (sh_lines s1),
                               sh_lines := drop lineN (sh_lines s1)\<rparr>
                       else s1);
                 batch = \<lparr>tb_NodeID = sh_nodeID s, tb_CoreGeneration = sh_coreGeneration s,
                          tb_CoreStartedAt = sh_coreStartedAt s, tb_Dropped = sh_dropped s,
                          tb_ShedConnections = sh_shed s, tb_Unparsed = sh_unparsed s,
                          tb_CapturedAt = now,
                          tb_Records = (if recordN > 0 then sh_inflightRecords s1 else []),
                          tb_Lines = (if lineN > 0 then sh_inflightLines s2 else [])\<rparr>
             in (Some batch, s2))"

definition restore :: "shipper \<Rightarrow> shipper" where
  "restore s =
     (let s1 = (if sh_inflightRecords s \<noteq> []
                then s\<lparr>sh_records := sh_inflightRecords s @ sh_records s,
                       sh_inflightRecords := []\<rparr>
                else s);
          s2 = (if sh_inflightLines s1 \<noteq> []
                then s1\<lparr>sh_lines := sh_inflightLines s1 @ sh_lines s1, sh_inflightLines := []\<rparr>
                else s1)
      in trimLocked s2)"

definition saturatingSub :: "64 word \<Rightarrow> 64 word \<Rightarrow> 64 word" where
  "saturatingSub a b = (if a \<le> b then 0 else a - b)"

definition commit :: "trace_batch \<Rightarrow> gotime \<Rightarrow> shipper \<Rightarrow> shipper" where
  "commit batch now s =
     s\<lparr>sh_shippedRecords := sh_shippedRecords s + of_nat (length (sh_inflightRecords s)),
       sh_shippedLines := sh_shippedLines s + of_nat (length (sh_inflightLines s)),
       sh_inflightRecords := [], sh_inflightLines := [],
       sh_dropped := saturatingSub (sh_dropped s) (tb_Dropped batch),
       sh_shed := saturatingSub (sh_shed s) (tb_ShedConnections batch),
       sh_unparsed := saturatingSub (sh_unparsed s) (tb_Unparsed batch),
       sh_shippedBatches := sh_shippedBatches s + 1,
       sh_lastSuccess := now, sh_lastError := [], sh_loggedShipErr := False,
       sh_retryUntil := 0, sh_backoffFailures := 0\<rparr>"

subsection \<open>Refusals and backoff\<close>

text \<open>The doubling loop of \<open>backoffFor\<close>; \<open>left\<close> is how often it may still run.\<close>

fun backoff_loop :: "nat \<Rightarrow> duration \<Rightarrow> duration" where
  "backoff_loop 0 wait = wait"
| "backoff_loop (Suc left) wait =
     (if wait < maxBackoff then backoff_loop left (wrap64 (wait * 2)) else wait)"

definition backoffFor :: "int \<Rightarrow> duration \<Rightarrow> duration" where
  "backoffFor failures base0 =
     (let base = (if base0 \<le> 0 then defaultFlushInterval else base0);
          wait = backoff_loop (nat (failures - 1)) base
      in if wait > maxBackoff then maxBackoff else wait)"

text \<open>\<open>parse_http_time\<close> stands for \<open>http.ParseTime\<close>.\<close>

definition parseRetryAfter :: "(string \<Rightarrow> gotime option) \<Rightarrow> string \<Rightarrow> gotime \<Rightarrow> duration" where
  "parseRetryAfter parse_http_time header0 now =
     (let header = trim_space header0
      in if header = [] then 0
         else case parse_int header of
                Some secs \<Rightarrow> (if secs \<le> 0 then 0 else wrap64 (secs * second))
              | None \<Rightarrow>
                  (case parse_http_time header of
                     Some at \<Rightarrow> (let d = time_sub at now in if d > 0 then d else 0)
                   | None \<Rightarrow> 0))"

fun join_space :: "string list \<Rightarrow> string" where
  "join_space [] = []"
| "join_space [x] = x"
| "join_space (x # y # ys) = x @ '' '' @ join_space (y # ys)"

definition errorSnippet :: "string \<Rightarrow> string" where
  "errorSnippet body =
     (let text = join_space (str_fields (take errBodyLimit body))
      in if text = [] then [] else '': '' @ text)"

text \<open>What one HTTP exchange came to: an error of the transport, or a response.\<close>

datatype http_answer =
    TransportError string
  | Response (resp_code: int) (resp_status: string) (resp_retry_after: string) (resp_body: string)

fun post_result ::
  "(string \<Rightarrow> gotime option) \<Rightarrow> gotime \<Rightarrow> http_answer \<Rightarrow> int \<times> duration \<times> string option" where
  "post_result parse_http_time now (TransportError e) =
     (0, 0, Some (''ship trace batch: '' @ e))"
| "post_result parse_http_time now (Response code status ra body) =
     (if code \<noteq> 200
      then (code, parseRetryAfter parse_http_time ra now,
            Some (''ship trace batch: '' @ status @ errorSnippet body))
      else (code, 0, None))"

definition recordFailure ::
  "int \<Rightarrow> duration \<Rightarrow> string \<Rightarrow> gotime \<Rightarrow> shipper \<Rightarrow> shipper" where
  "recordFailure status retryAfter err now s =
     (let s1 = s\<lparr>sh_lastError := err\<rparr>;
          s2 = (if status = 429
                then let failures = sh_backoffFailures s1 + 1;
                         wait = (if retryAfter \<le> 0
                                 then backoffFor failures (sh_flushInterval s1) else retryAfter)
                     in s1\<lparr>sh_backoffFailures := failures, sh_retryUntil := now + wait\<rparr>
                else s1)
      in if sh_loggedShipErr s2 then s2 else s2\<lparr>sh_loggedShipErr := True\<rparr>)"

subsection \<open>A flush cycle\<close>

text \<open>
  One turn of the loop in \<open>Flush\<close>, seen from outside: what the other goroutines do before
  the batch is taken and while it is on the wire, the clock at both ends, and the answer.
\<close>

record exchange =
  x_before :: "ship_op list"
  x_during :: "ship_op list"
  x_taken_at :: gotime
  x_answered_at :: gotime
  x_answer :: http_answer

text \<open>
  \<open>None\<close> means that the loop is still running when the script of exchanges ends; otherwise
  the result is the state and the error \<open>Flush\<close> returns.
\<close>

fun flush ::
  "(string \<Rightarrow> gotime option) \<Rightarrow> exchange list \<Rightarrow> shipper \<Rightarrow> (shipper \<times> string option) option" where
  "flush ph [] s = None"
| "flush ph (x # xs) s =
     (case takeBatch (x_taken_at x) (fold ship_op_apply (x_before x) s) of
        (None, s1) \<Rightarrow> Some (s1, None)
      | (Some batch, s1) \<Rightarrow>
          let s2 = fold ship_op_apply (x_during x) s1
          in (case post_result ph (x_answered_at x) (x_answer x) of
                (status, retryAfter, Some err) \<Rightarrow>
                  Some (recordFailure status retryAfter err (x_answered_at x) (restore s2), Some err)
              | (_, _, None) \<Rightarrow> flush ph xs (commit batch (x_answered_at x) s2)))"

subsection \<open>Counters\<close>

record ship_stats =
  st_Pending :: int
  st_PendingRecords :: int
  st_PendingLines :: int
  st_ShippedRecords :: "64 word"
  st_ShippedLines :: "64 word"
  st_ShippedBatches :: "64 word"
  st_Dropped :: "64 word"
  st_DroppedTotal :: "64 word"
  st_Unparsed :: "64 word"
  st_UnparsedTotal :: "64 word"
  st_LastError :: string
  st_LastSuccess :: gotime

definition ship_stats_of :: "shipper \<Rightarrow> ship_stats" where
  "ship_stats_of s =
     (let pendingRecords = int (length (sh_records s)) + int (length (sh_inflightRecords s));
          pendingLines = int (length (sh_lines s)) + int (length (sh_inflightLines s))
      in \<lparr>st_Pending = pendingRecords + pendingLines, st_PendingRecords = pendingRecords,
          st_PendingLines = pendingLines, st_ShippedRecords = sh_shippedRecords s,
          st_ShippedLines = sh_shippedLines s, st_ShippedBatches = sh_shippedBatches s,
          st_Dropped = sh_dropped s, st_DroppedTotal = sh_droppedTotal s,
          st_Unparsed = sh_unparsed s, st_UnparsedTotal = sh_unparsedTotal s,
          st_LastError = sh_lastError s, st_LastSuccess = sh_lastSuccess s\<rparr>)"

subsection \<open>Reachable states\<close>

text \<open>
  What an observer outside the process can count: everything that was added, in order, what
  the server accepted, in order, the losses reported to the shipper from upstream, and the
  losses the accepted batches told the server about.
\<close>

record ledger =
  led_records :: "conn_record list"
  led_lines :: "trace_line list"
  led_sent_records :: "conn_record list"
  led_sent_lines :: "trace_line list"
  led_upstream :: nat
  led_reported :: nat

definition empty_ledger :: ledger where
  "empty_ledger = \<lparr>led_records = [], led_lines = [], led_sent_records = [], led_sent_lines = [],
     led_upstream = 0, led_reported = 0\<rparr>"

fun ledger_op :: "ship_op \<Rightarrow> ledger \<Rightarrow> ledger" where
  "ledger_op (AddRecords rs) g = g\<lparr>led_records := led_records g @ rs\<rparr>"
| "ledger_op (AddLines ls) g = g\<lparr>led_lines := led_lines g @ ls\<rparr>"
| "ledger_op (AddDropped n) g = g\<lparr>led_upstream := led_upstream g + unat n\<rparr>"
| "ledger_op (AddShed n) g = g\<lparr>led_upstream := led_upstream g + unat n\<rparr>"
| "ledger_op _ g = g"

definition ledger_accept :: "trace_batch \<Rightarrow> ledger \<Rightarrow> ledger" where
  "ledger_accept b g =
     g\<lparr>led_sent_records := led_sent_records g @ tb_Records b,
       led_sent_lines := led_sent_lines g @ tb_Lines b,
       led_reported := led_reported g + unat (tb_Dropped b)\<rparr>"

text \<open>
  The shipper with the batch on the wire, if there is one; \<open>shipMu\<close> admits one flush cycle
  at a time, so a batch is only taken when none is on the wire.
\<close>

inductive ship_reach :: "ship_config \<Rightarrow> shipper \<Rightarrow> trace_batch option \<Rightarrow> ledger \<Rightarrow> bool"
  for cfg where
  init: "ship_reach cfg (new_shipper cfg) None empty_ledger"
| op: "ship_reach cfg s b g \<Longrightarrow> ship_reach cfg (ship_op_apply x s) b (ledger_op x g)"
| idle: "ship_reach cfg s None g \<Longrightarrow> takeBatch now s = (None, s') \<Longrightarrow> ship_reach cfg s' None g"
| taken: "ship_reach cfg s None g \<Longrightarrow> takeBatch now s = (Some b, s') \<Longrightarrow>
     ship_reach cfg s' (Some b) g"
| accepted: "ship_reach cfg s (Some b) g \<Longrightarrow>
     ship_reach cfg (commit b now s) None (ledger_accept b g)"
| refused: "ship_reach cfg s (Some b) g \<Longrightarrow>
     ship_reach cfg (recordFailure status ra err now (restore s)) None g"

text \<open>How many items were lost: added or lost upstream, neither delivered nor still held.\<close>

definition lost :: "shipper \<Rightarrow> ledger \<Rightarrow> int" where
  "lost s g =
     int (length (led_records g)) + int (length (led_lines g)) + int (led_upstream g)
     - int (length (led_sent_records g)) - int (length (led_sent_lines g)) - st_Pending (ship_stats_of s)"

section \<open>Lemmas\<close>

subsection \<open>The trim\<close>

lemma trim_loop_spec:
  assumes "dropR \<le> lenR" "dropL \<le> lenL" "trim_loop over lenR lenL dropR dropL = (r, l)"
  shows "dropR \<le> r \<and> r \<le> lenR \<and> dropL \<le> l \<and> l \<le> lenL \<and>
    r + l = min (dropR + dropL + over) (lenR + lenL)"
  using assms
proof (induction over lenR lenL dropR dropL rule: trim_loop.induct)
  case (1 lenR lenL dropR dropL)
  then show ?case by auto
next
  case (2 over lenR lenL dropR dropL)
  show ?case
  proof (cases "lenR - dropR = 0 \<and> lenL - dropL = 0")
    case True
    with "2.prems" show ?thesis by auto
  next
    case ne: False
    show ?thesis
    proof (cases "lenL - dropL \<ge> lenR - dropR")
      case True
      with ne "2.prems" have "Suc dropL \<le> lenL" by arith
      with "2.IH"(1) [OF ne True] "2.prems" ne True show ?thesis by simp
    next
      case False
      with ne "2.prems" have "Suc dropR \<le> lenR" by arith
      with "2.IH"(2) [OF ne False] "2.prems" ne False show ?thesis by simp
    qed
  qed
qed

text \<open>The loop evens the two queues out, and lines go first on a tie.\<close>

lemma trim_loop_balance:
  assumes "dropR \<le> lenR" "dropL \<le> lenL" "trim_loop over lenR lenL dropR dropL = (r, l)"
    "dropR < r"
  shows "lenL - l \<le> lenR - r + 1"
  using assms
proof (induction over lenR lenL dropR dropL rule: trim_loop.induct)
  case (1 lenR lenL dropR dropL)
  then show ?case by auto
next
  case (2 over lenR lenL dropR dropL)
  show ?case
  proof (cases "lenR - dropR = 0 \<and> lenL - dropL = 0")
    case True
    with "2.prems" show ?thesis by auto
  next
    case ne: False
    show ?thesis
    proof (cases "lenL - dropL \<ge> lenR - dropR")
      case True
      with ne "2.prems" have "Suc dropL \<le> lenL" by arith
      with "2.IH"(1) [OF ne True] "2.prems" ne True show ?thesis by simp
    next
      case False
      with ne "2.prems" have le: "Suc dropR \<le> lenR" by arith
      from ne False "2.prems" have rec: "trim_loop over lenR lenL (Suc dropR) dropL = (r, l)"
        by (simp split: if_splits)
      show ?thesis
      proof (cases "Suc dropR < r")
        case True
        with "2.IH"(2) [OF ne False] le rec "2.prems" show ?thesis by simp
      next
        case nlt: False
        from trim_loop_spec [OF le _ rec] "2.prems" nlt have "r = Suc dropR" "dropL \<le> l"
          by auto
        with False show ?thesis by arith
      qed
    qed
  qed
qed

definition total_queued :: "shipper \<Rightarrow> int" where
  "total_queued s = int (length (sh_records s)) + int (length (sh_lines s))"

lemma trimLocked_cases:
  assumes "0 < sh_maxPending s"
  obtains r l where
    "trimLocked s = s\<lparr>sh_records := drop r (sh_records s), sh_lines := drop l (sh_lines s),
       sh_dropped := sh_dropped s + of_nat (r + l),
       sh_droppedTotal := sh_droppedTotal s + of_nat (r + l)\<rparr>"
    "r \<le> length (sh_records s)" "l \<le> length (sh_lines s)"
    "int (r + l) = max 0 (total_queued s - sh_maxPending s)"
proof (cases "total_queued s - sh_maxPending s \<le> 0")
  case True
  then have "trimLocked s = s" by (simp add: trimLocked_def total_queued_def)
  with True show ?thesis by (intro that [of 0 0]) simp_all
next
  case False
  obtain r l where rl: "trim_loop (nat (total_queued s - sh_maxPending s))
      (length (sh_records s)) (length (sh_lines s)) 0 0 = (r, l)"
    by (cases "trim_loop (nat (total_queued s - sh_maxPending s))
      (length (sh_records s)) (length (sh_lines s)) 0 0")
  with False have eq: "trimLocked s = s\<lparr>sh_records := drop r (sh_records s),
      sh_lines := drop l (sh_lines s), sh_dropped := sh_dropped s + of_nat (r + l),
      sh_droppedTotal := sh_droppedTotal s + of_nat (r + l)\<rparr>"
    by (simp add: trimLocked_def total_queued_def Let_def)
  from trim_loop_spec [OF _ _ rl] have "r \<le> length (sh_records s)" "l \<le> length (sh_lines s)"
    "r + l = min (nat (total_queued s - sh_maxPending s)) (length (sh_records s) + length (sh_lines s))"
    by auto
  with False assms eq show ?thesis
    by (intro that [of r l]) (auto simp: total_queued_def)
qed

lemma trimLocked_id: "total_queued s \<le> sh_maxPending s \<Longrightarrow> trimLocked s = s"
  by (simp add: trimLocked_def total_queued_def)

subsection \<open>Taking and giving back\<close>

lemma fit_records_spec:
  "fit_records sz kept rs = (sz', n) \<Longrightarrow> kept \<le> n \<and> n \<le> kept + length rs"
  by (induction sz kept rs arbitrary: sz' n rule: fit_records.induct)
    (force split: if_splits)+

lemma fit_lines_spec:
  "fit_lines k sz kept ls = (sz', n) \<Longrightarrow> kept \<le> n \<and> n \<le> kept + length ls"
  by (induction k sz kept ls arbitrary: sz' n rule: fit_lines.induct)
    (force split: if_splits)+

lemma fit_records_progress: "rs \<noteq> [] \<Longrightarrow> fit_records sz 0 rs = (sz', n) \<Longrightarrow> 0 < n"
  by (cases rs) (auto dest: fit_records_spec)

lemma fit_lines_progress: "ls \<noteq> [] \<Longrightarrow> fit_lines 0 sz 0 ls = (sz', n) \<Longrightarrow> 0 < n"
  by (cases ls) (auto dest: fit_lines_spec)

text \<open>The size of what is kept, and that only a single item may exceed the budget.\<close>

lemma fit_records_size:
  assumes "fit_records sz kept rs = (sz', n)" "sz \<le> maxBatchBytes \<or> kept = 1"
  shows "sz' = sz + sum_list (map record_size (take (n - kept) rs)) \<and>
    (sz' \<le> maxBatchBytes \<or> n = 1)"
  using assms
proof (induction sz kept rs rule: fit_records.induct)
  case (1 sz kept)
  then show ?case by auto
next
  case (2 sz kept r rs)
  show ?case
  proof (cases "sz + record_size r > maxBatchBytes \<and> kept > 0")
    case True
    with "2.prems" show ?thesis by auto
  next
    case False
    with "2.prems" have rec: "fit_records (sz + record_size r) (Suc kept) rs = (sz', n)" by auto
    with fit_records_spec [OF rec] have "n - kept = Suc (n - Suc kept)" by auto
    moreover have "sz + record_size r \<le> maxBatchBytes \<or> Suc kept = 1"
      using False by auto
    with 2 False rec show ?thesis using calculation by auto
  qed
qed

lemma fit_lines_size:
  assumes "fit_lines k sz kept ls = (sz', n)" "sz \<le> maxBatchBytes \<or> k + kept = 1"
  shows "sz' = sz + sum_list (map line_size (take (n - kept) ls)) \<and>
    (sz' \<le> maxBatchBytes \<or> k + n = 1)"
  using assms
proof (induction k sz kept ls rule: fit_lines.induct)
  case (1 k sz kept)
  then show ?case by auto
next
  case (2 k sz kept l ls)
  show ?case
  proof (cases "sz + line_size l > maxBatchBytes \<and> k + kept > 0")
    case True
    with "2.prems" show ?thesis by auto
  next
    case False
    with "2.prems" have rec: "fit_lines k (sz + line_size l) (Suc kept) ls = (sz', n)" by auto
    with fit_lines_spec [OF rec] have "n - kept = Suc (n - Suc kept)" by auto
    moreover have "sz + line_size l \<le> maxBatchBytes \<or> k + Suc kept = 1"
      using False by auto
    with 2 False rec show ?thesis using calculation by auto
  qed
qed

definition no_inflight :: "shipper \<Rightarrow> bool" where
  "no_inflight s \<longleftrightarrow> sh_inflightRecords s = [] \<and> sh_inflightLines s = []"

lemma takeBatch_None: "takeBatch now s = (None, s') \<Longrightarrow> s' = s"
  by (auto simp: takeBatch_def Let_def split: if_splits prod.splits)

lemma takeBatch_Some:
  assumes "takeBatch now s = (Some b, s')" "no_inflight s"
    "0 < sh_maxBatchRecords s" "0 < sh_maxBatchLines s"
  obtains r l where
    "trimToByteBudget s (nat (min (int (length (sh_records s))) (sh_maxBatchRecords s)))
       (nat (min (int (length (sh_lines s))) (sh_maxBatchLines s))) = (r, l)"
    "r \<le> length (sh_records s)" "l \<le> length (sh_lines s)"
    "int r \<le> sh_maxBatchRecords s" "int l \<le> sh_maxBatchLines s"
    "s' = s\<lparr>sh_inflightRecords := take r (sh_records s), sh_records := drop r (sh_records s),
       sh_inflightLines := take l (sh_lines s), sh_lines := drop l (sh_lines s)\<rparr>"
    "b = \<lparr>tb_NodeID = sh_nodeID s, tb_CoreGeneration = sh_coreGeneration s,
       tb_CoreStartedAt = sh_coreStartedAt s, tb_Dropped = sh_dropped s,
       tb_ShedConnections = sh_shed s, tb_Unparsed = sh_unparsed s, tb_CapturedAt = now,
       tb_Records = take r (sh_records s), tb_Lines = take l (sh_lines s)\<rparr>"
    "r \<noteq> 0 \<or> l \<noteq> 0 \<or> sh_dropped s \<noteq> 0 \<or> sh_unparsed s \<noteq> 0 \<or> sh_shed s \<noteq> 0"
proof -
  let ?r0 = "nat (min (int (length (sh_records s))) (sh_maxBatchRecords s))"
  let ?l0 = "nat (min (int (length (sh_lines s))) (sh_maxBatchLines s))"
  obtain sz r where r: "fit_records 0 0 (take ?r0 (sh_records s)) = (sz, r)"
    by (cases "fit_records 0 0 (take ?r0 (sh_records s))")
  obtain sz' l where l: "fit_lines r sz 0 (take ?l0 (sh_lines s)) = (sz', l)"
    by (cases "fit_lines r sz 0 (take ?l0 (sh_lines s))")
  have rl: "trimToByteBudget s ?r0 ?l0 = (r, l)"
    by (simp add: trimToByteBudget_def r l)
  from fit_records_spec [OF r] have r': "r \<le> length (sh_records s)" "int r \<le> sh_maxBatchRecords s"
    using assms(3) by auto
  from fit_lines_spec [OF l] have l': "l \<le> length (sh_lines s)" "int l \<le> sh_maxBatchLines s"
    using assms(4) by auto
  have "takeBatch now s = (Some b, s') \<longleftrightarrow>
      \<not> (sh_retryUntil s \<noteq> 0 \<and> now < sh_retryUntil s) \<and>
      (r \<noteq> 0 \<or> l \<noteq> 0 \<or> sh_dropped s \<noteq> 0 \<or> sh_unparsed s \<noteq> 0 \<or> sh_shed s \<noteq> 0) \<and>
      s' = s\<lparr>sh_inflightRecords := take r (sh_records s), sh_records := drop r (sh_records s),
        sh_inflightLines := take l (sh_lines s), sh_lines := drop l (sh_lines s)\<rparr> \<and>
      b = \<lparr>tb_NodeID = sh_nodeID s, tb_CoreGeneration = sh_coreGeneration s,
        tb_CoreStartedAt = sh_coreStartedAt s, tb_Dropped = sh_dropped s,
        tb_ShedConnections = sh_shed s, tb_Unparsed = sh_unparsed s, tb_CapturedAt = now,
        tb_Records = take r (sh_records s), tb_Lines = take l (sh_lines s)\<rparr>"
    using assms(2) by (auto simp: takeBatch_def rl no_inflight_def)
  with assms(1) rl r' l' that show ?thesis by blast
qed

text \<open>A batch leaves some item waiting only when a limit is reached.\<close>

lemma trimToByteBudget_progress:
  assumes "trimToByteBudget s recordN lineN = (r, l)"
    and "0 < recordN \<and> sh_records s \<noteq> [] \<or> 0 < lineN \<and> sh_lines s \<noteq> []"
  shows "0 < r + l"
proof -
  obtain sz where r: "fit_records 0 0 (take recordN (sh_records s)) = (sz, r)"
    using assms by (auto simp: trimToByteBudget_def split: prod.splits)
  obtain sz' where l: "fit_lines r sz 0 (take lineN (sh_lines s)) = (sz', l)"
    using assms r by (auto simp: trimToByteBudget_def split: prod.splits)
  show ?thesis
  proof (cases "0 < recordN \<and> sh_records s \<noteq> []")
    case True
    with fit_records_progress [OF _ r] show ?thesis by auto
  next
    case False
    with assms(2) fit_lines_progress [of "take lineN (sh_lines s)"] l show ?thesis
      by (cases "r = 0") auto
  qed
qed

lemma trimToByteBudget_size:
  assumes "trimToByteBudget s recordN lineN = (r, l)"
  shows "sum_list (map record_size (take r (sh_records s)))
       + sum_list (map line_size (take l (sh_lines s))) \<le> maxBatchBytes \<or> r + l = 1"
proof -
  obtain sz where r: "fit_records 0 0 (take recordN (sh_records s)) = (sz, r)"
    using assms by (auto simp: trimToByteBudget_def split: prod.splits)
  obtain sz' where l: "fit_lines r sz 0 (take lineN (sh_lines s)) = (sz', l)"
    using assms r by (auto simp: trimToByteBudget_def split: prod.splits)
  have "(0 :: int) \<le> maxBatchBytes" by (simp add: maxBatchBytes_def)
  with fit_records_size [OF r] have 1:
    "sz = sum_list (map record_size (take r (take recordN (sh_records s))))"
    "sz \<le> maxBatchBytes \<or> r = 1" by auto
  with fit_lines_size [OF l] have 2:
    "sz' = sz + sum_list (map line_size (take l (take lineN (sh_lines s))))"
    "sz' \<le> maxBatchBytes \<or> r + l = 1" by auto
  from fit_records_spec [OF r] fit_lines_spec [OF l]
  have "take r (take recordN (sh_records s)) = take r (sh_records s)"
    "take l (take lineN (sh_lines s)) = take l (sh_lines s)"
    by (simp_all add: min.absorb1)
  with 1 2 show ?thesis by auto
qed

subsection \<open>The invariant\<close>

definition ship_shape :: "shipper \<Rightarrow> trace_batch option \<Rightarrow> ledger \<Rightarrow> bool" where
  "ship_shape s b g \<longleftrightarrow>
     0 < sh_maxPending s \<and> 0 < sh_maxBatchRecords s \<and> 0 < sh_maxBatchLines s \<and>
     int (length (sh_inflightRecords s)) \<le> sh_maxBatchRecords s \<and>
     int (length (sh_inflightLines s)) \<le> sh_maxBatchLines s \<and>
     (case b of
        None \<Rightarrow> no_inflight s
      | Some b \<Rightarrow> tb_Records b = sh_inflightRecords s \<and> tb_Lines b = sh_inflightLines s) \<and>
     subseq (led_sent_records g @ sh_inflightRecords s @ sh_records s) (led_records g) \<and>
     subseq (led_sent_lines g @ sh_inflightLines s @ sh_lines s) (led_lines g)"

definition ship_inv :: "shipper \<Rightarrow> trace_batch option \<Rightarrow> ledger \<Rightarrow> bool" where
  "ship_inv s b g \<longleftrightarrow> ship_shape s b g \<and> total_queued s \<le> sh_maxPending s"

definition ship_counts :: "shipper \<Rightarrow> trace_batch option \<Rightarrow> ledger \<Rightarrow> bool" where
  "ship_counts s b g \<longleftrightarrow>
     sh_shippedRecords s = of_nat (length (led_sent_records g)) \<and>
     sh_shippedLines s = of_nat (length (led_sent_lines g)) \<and>
     sh_droppedTotal s = of_int (lost s g) \<and>
     (lost s g < 2 ^ 64 \<longrightarrow>
        int (unat (sh_dropped s)) + int (led_reported g) = lost s g \<and>
        (\<forall>b'. b = Some b' \<longrightarrow> tb_Dropped b' \<le> sh_dropped s))"

lemma subseq_append_added: "subseq (a @ c) d \<Longrightarrow> subseq (a @ c @ e) (d @ e)"
  using list_emb_append_mono [of "(=)" "a @ c" d e e] by simp

lemma subseq_drop_end:
  assumes "subseq (a @ c) d" shows "subseq (a @ drop n c) d"
proof -
  have "subseq (a @ drop n c) (a @ c)"
    by (intro subseq_append' [THEN iffD2] suffix_imp_subseq suffix_drop)
  with assms show ?thesis by (blast intro: subseq_order.trans)
qed

lemmas subseq_queue =
  subseq_append_added subseq_append_added [of "a @ b" for a b, simplified]
  subseq_drop_end subseq_drop_end [of "a @ b" for a b, simplified]

lemma owed_add:
  fixes d :: "64 word"
  assumes "int (unat d) + int rep = n" "n + int k < 2 ^ 64"
  shows "int (unat (d + of_nat k)) + int rep = n + int k \<and> d \<le> d + of_nat k"
proof -
  from assms have "int (unat d + k) < int (2 ^ 64)" by simp
  then have lt: "unat d + k < 2 ^ 64" by (rule of_nat_less_imp_less)
  then have "k < 2 ^ 64" by simp
  then have "unat (of_nat k :: 64 word) = k"
    by (simp add: unat_of_nat)
  with lt have "unat (d + of_nat k) = unat d + k"
    by (simp add: unat_word_ariths)
  with assms(1) show ?thesis by (auto simp: word_le_nat_alt)
qed

text \<open>
  Every operation other than a delivery moves \<open>k\<close> items into the loss: it adds \<open>k\<close> to
  both loss counters and leaves what was delivered alone.
\<close>

lemma ship_counts_drop:
  assumes "ship_counts s b g"
    and "sh_shippedRecords s' = sh_shippedRecords s" "sh_shippedLines s' = sh_shippedLines s"
    and "sh_dropped s' = sh_dropped s + of_nat k"
    and "sh_droppedTotal s' = sh_droppedTotal s + of_nat k"
    and "led_sent_records g' = led_sent_records g" "led_sent_lines g' = led_sent_lines g"
    and "led_reported g' = led_reported g" "lost s' g' = lost s g + int k"
  shows "ship_counts s' b g'"
proof -
  have "lost s' g' < 2 ^ 64 \<longrightarrow>
      int (unat (sh_dropped s')) + int (led_reported g') = lost s' g' \<and>
      (\<forall>b'. b = Some b' \<longrightarrow> tb_Dropped b' \<le> sh_dropped s')"
  proof (intro impI)
    assume lt: "lost s' g' < 2 ^ 64"
    with assms(9) have "lost s g < 2 ^ 64" by simp
    with assms(1) have old: "int (unat (sh_dropped s)) + int (led_reported g) = lost s g"
      "\<forall>b'. b = Some b' \<longrightarrow> tb_Dropped b' \<le> sh_dropped s"
      by (auto simp: ship_counts_def)
    from owed_add [OF old(1), of k] lt assms(9)
    have "int (unat (sh_dropped s + of_nat k)) + int (led_reported g) = lost s g + int k"
      "sh_dropped s \<le> sh_dropped s + of_nat k" by auto
    with old(2) assms show "int (unat (sh_dropped s')) + int (led_reported g') = lost s' g' \<and>
      (\<forall>b'. b = Some b' \<longrightarrow> tb_Dropped b' \<le> sh_dropped s')"
      by (auto intro: order_trans)
  qed
  with assms show ?thesis
    by (simp add: ship_counts_def)
qed

lemmas lost_simps = lost_def ship_stats_of_def Let_def

text \<open>The trim, after something was put into the queues.\<close>

lemma trim_keeps_inv:
  assumes "ship_shape s b g"
  shows "ship_inv (trimLocked s) b g"
proof -
  from assms have pos: "0 < sh_maxPending s" by (simp add: ship_shape_def)
  obtain r l where rl: "trimLocked s = s\<lparr>sh_records := drop r (sh_records s),
      sh_lines := drop l (sh_lines s), sh_dropped := sh_dropped s + of_nat (r + l),
      sh_droppedTotal := sh_droppedTotal s + of_nat (r + l)\<rparr>"
    "r \<le> length (sh_records s)" "l \<le> length (sh_lines s)"
    "int (r + l) = max 0 (total_queued s - sh_maxPending s)"
    by (rule trimLocked_cases [OF pos])
  then have "total_queued (trimLocked s) \<le> sh_maxPending (trimLocked s)"
    by (simp add: total_queued_def of_nat_diff)
  moreover have "ship_shape (trimLocked s) b g"
    using assms unfolding rl(1) ship_shape_def no_inflight_def
    by (auto intro: subseq_queue split: option.splits)
  ultimately show ?thesis by (simp add: ship_inv_def)
qed

lemma trim_keeps_counts:
  assumes "0 < sh_maxPending s" "ship_counts s b g"
  shows "ship_counts (trimLocked s) b g"
proof -
  obtain r l where rl: "trimLocked s = s\<lparr>sh_records := drop r (sh_records s),
      sh_lines := drop l (sh_lines s), sh_dropped := sh_dropped s + of_nat (r + l),
      sh_droppedTotal := sh_droppedTotal s + of_nat (r + l)\<rparr>"
    "r \<le> length (sh_records s)" "l \<le> length (sh_lines s)"
    by (rule trimLocked_cases [OF assms(1)])
  show ?thesis
    by (rule ship_counts_drop [OF assms(2), of _ "r + l"])
      (use rl(2,3) in \<open>simp_all add: rl(1) lost_simps of_nat_diff\<close>)
qed

lemma shape_add_records:
  "ship_shape s b g \<Longrightarrow>
   ship_shape (s\<lparr>sh_records := sh_records s @ rs\<rparr>) b (g\<lparr>led_records := led_records g @ rs\<rparr>)"
  by (auto simp: ship_shape_def no_inflight_def intro: subseq_queue split: option.splits)

lemma shape_add_lines:
  "ship_shape s b g \<Longrightarrow>
   ship_shape (s\<lparr>sh_lines := sh_lines s @ ls\<rparr>) b (g\<lparr>led_lines := led_lines g @ ls\<rparr>)"
  by (auto simp: ship_shape_def no_inflight_def intro: subseq_queue split: option.splits)

lemma op_keeps_inv:
  assumes "ship_inv s b g"
  shows "ship_inv (ship_op_apply x s) b (ledger_op x g)"
proof (cases x)
  case (AddRecords rs)
  with assms trim_keeps_inv [OF shape_add_records, of s b g rs] show ?thesis
    by (cases "rs = []") (auto simp: addRecords_def ship_inv_def)
next
  case (AddLines ls)
  with assms trim_keeps_inv [OF shape_add_lines, of s b g ls] show ?thesis
    by (cases "ls = []") (auto simp: addLines_def ship_inv_def)
qed (use assms in \<open>auto simp: ship_inv_def ship_shape_def total_queued_def no_inflight_def
      setCore_def addUnparsed_def addDropped_def addShed_def split: option.splits\<close>)

lemma op_keeps_counts:
  "0 < sh_maxPending s \<Longrightarrow> ship_counts s b g \<Longrightarrow> ship_counts (ship_op_apply x s) b (ledger_op x g)"
proof (cases x)
  case (AddRecords rs)
  assume "0 < sh_maxPending s" "ship_counts s b g"
  with AddRecords show ?thesis
    by (auto simp: addRecords_def intro!: trim_keeps_counts ship_counts_drop [of s b g _ 0])
      (simp add: lost_simps)
next
  case (AddLines ls)
  assume "0 < sh_maxPending s" "ship_counts s b g"
  with AddLines show ?thesis
    by (auto simp: addLines_def intro!: trim_keeps_counts ship_counts_drop [of s b g _ 0])
      (simp add: lost_simps)
next
  case (SetCore gen at)
  assume "ship_counts s b g"
  with SetCore show ?thesis
    by (auto intro!: ship_counts_drop [of s b g _ 0] simp: setCore_def lost_simps)
next
  case (AddUnparsed n)
  assume "ship_counts s b g"
  with AddUnparsed show ?thesis
    by (auto intro!: ship_counts_drop [of s b g _ 0] simp: addUnparsed_def lost_simps)
next
  case (AddDropped n)
  assume "ship_counts s b g"
  with AddDropped show ?thesis
    by (auto intro!: ship_counts_drop [of s b g _ "unat n"] simp: addDropped_def lost_simps)
next
  case (AddShed n)
  assume "ship_counts s b g"
  with AddShed show ?thesis
    by (auto intro!: ship_counts_drop [of s b g _ "unat n"] simp: addShed_def lost_simps)
qed

lemma taken_keeps:
  assumes "takeBatch now s = (Some b, s')" "ship_inv s None g" "ship_counts s None g"
  shows "ship_inv s' (Some b) g" "ship_counts s' (Some b) g"
proof -
  from assms(2) have "no_inflight s" "0 < sh_maxBatchRecords s" "0 < sh_maxBatchLines s"
    by (simp_all add: ship_inv_def ship_shape_def)
  from takeBatch_Some [OF assms(1) this] obtain r l where
    rl: "r \<le> length (sh_records s)" "l \<le> length (sh_lines s)"
      "int r \<le> sh_maxBatchRecords s" "int l \<le> sh_maxBatchLines s"
      "s' = s\<lparr>sh_inflightRecords := take r (sh_records s), sh_records := drop r (sh_records s),
         sh_inflightLines := take l (sh_lines s), sh_lines := drop l (sh_lines s)\<rparr>"
      "tb_Records b = take r (sh_records s)" "tb_Lines b = take l (sh_lines s)"
      "tb_Dropped b = sh_dropped s"
    by (metis trace_batch.select_convs)
  then show "ship_inv s' (Some b) g"
    using assms(2) by (auto simp: ship_inv_def ship_shape_def total_queued_def no_inflight_def)
  from rl assms(2) have "lost s' g = lost s g"
    by (auto simp: lost_simps ship_inv_def ship_shape_def no_inflight_def of_nat_diff)
  with assms(3) rl(5,8) show "ship_counts s' (Some b) g"
    by (simp add: ship_counts_def)
qed

lemma saturatingSub_le: "b \<le> a \<Longrightarrow> unat (saturatingSub a b) = unat a - unat b"
  by (auto simp: saturatingSub_def unat_sub word_le_nat_alt)

lemma accepted_keeps:
  assumes "ship_inv s (Some b) g" "ship_counts s (Some b) g"
  shows "ship_inv (commit b now s) None (ledger_accept b g)"
    "ship_counts (commit b now s) None (ledger_accept b g)"
proof -
  let ?s = "commit b now s" and ?g = "ledger_accept b g"
  show "ship_inv ?s None ?g"
    using assms(1) by (auto simp: ship_inv_def ship_shape_def total_queued_def no_inflight_def
        commit_def ledger_accept_def)
  have lost: "lost ?s ?g = lost s g"
    using assms(1) by (simp add: lost_simps commit_def ledger_accept_def ship_inv_def ship_shape_def)
  have "int (unat (sh_dropped ?s)) + int (led_reported ?g) = lost ?s ?g" if "lost ?s ?g < 2 ^ 64"
  proof -
    from that assms(2) lost have "int (unat (sh_dropped s)) + int (led_reported g) = lost s g"
      and le: "tb_Dropped b \<le> sh_dropped s"
      by (auto simp: ship_counts_def)
    moreover from le have "unat (tb_Dropped b) \<le> unat (sh_dropped s)"
      by (simp add: word_le_nat_alt)
    ultimately show ?thesis
      unfolding lost
      by (simp add: commit_def ledger_accept_def saturatingSub_le [OF le] of_nat_diff
          del: of_nat_unat)
  qed
  with assms lost show "ship_counts ?s None ?g"
    by (simp add: ship_counts_def commit_def ledger_accept_def ship_inv_def ship_shape_def)
qed

lemma recordFailure_frame:
  "recordFailure st ra err now s = s\<lparr>
     sh_lastError := err,
     sh_backoffFailures := sh_backoffFailures (recordFailure st ra err now s),
     sh_retryUntil := sh_retryUntil (recordFailure st ra err now s),
     sh_loggedShipErr := True\<rparr>"
  by (simp add: recordFailure_def Let_def)

lemma recordFailure_keeps:
  "ship_inv (recordFailure st ra err now s) b g = ship_inv s b g"
  "ship_counts (recordFailure st ra err now s) b g = ship_counts s b g"
  by (subst recordFailure_frame, cases b, simp_all add: ship_inv_def ship_shape_def
      total_queued_def no_inflight_def ship_counts_def lost_simps)+

lemma restore_eq:
  "restore s = trimLocked (s\<lparr>sh_records := sh_inflightRecords s @ sh_records s,
     sh_inflightRecords := [], sh_lines := sh_inflightLines s @ sh_lines s,
     sh_inflightLines := []\<rparr>)"
  by (cases s) (auto simp: restore_def Let_def)

lemma restore_keeps:
  assumes "ship_inv s (Some b) g" "ship_counts s (Some b) g"
  shows "ship_inv (restore s) None g" "ship_counts (restore s) None g"
proof -
  let ?s = "s\<lparr>sh_records := sh_inflightRecords s @ sh_records s, sh_inflightRecords := [],
     sh_lines := sh_inflightLines s @ sh_lines s, sh_inflightLines := []\<rparr>"
  from assms(1) have "ship_shape ?s None g"
    by (simp add: ship_inv_def ship_shape_def no_inflight_def)
  then show "ship_inv (restore s) None g"
    by (simp add: restore_eq trim_keeps_inv)
  from assms have "ship_counts ?s None g" "0 < sh_maxPending ?s"
    by (auto simp: ship_counts_def lost_simps ship_inv_def ship_shape_def)
  then show "ship_counts (restore s) None g"
    by (simp add: restore_eq trim_keeps_counts)
qed

lemma ship_inv_maxPending: "ship_inv s b g \<Longrightarrow> 0 < sh_maxPending s"
  by (simp add: ship_inv_def ship_shape_def)

lemma ship_reach_inv: "ship_reach cfg s b g \<Longrightarrow> ship_inv s b g \<and> ship_counts s b g"
proof (induction rule: ship_reach.induct)
  case init
  then show ?case
    by (simp add: ship_inv_def ship_shape_def ship_counts_def new_shipper_def empty_ledger_def
        total_queued_def no_inflight_def lost_simps defaultMaxPending_def
        defaultMaxBatchRecords_def defaultMaxBatchLines_def)
next
  case (op s b g x)
  then show ?case
    by (auto intro: op_keeps_inv op_keeps_counts ship_inv_maxPending)
next
  case (idle s g now s')
  then show ?case by (auto dest: takeBatch_None)
next
  case (taken s g now b s')
  then show ?case by (auto intro: taken_keeps)
next
  case (accepted s b g now)
  then show ?case by (auto intro: accepted_keeps)
next
  case (refused s b g status ra err now)
  then show ?case by (auto simp: recordFailure_keeps intro: restore_keeps)
qed

subsection \<open>The limits come from the configuration\<close>

definition ship_limits :: "shipper \<Rightarrow> int \<times> int \<times> int" where
  "ship_limits s = (sh_maxPending s, sh_maxBatchRecords s, sh_maxBatchLines s)"

lemma limits_trim [simp]: "ship_limits (trimLocked s) = ship_limits s"
  by (simp add: ship_limits_def trimLocked_def Let_def split: prod.splits)

lemma limits_op [simp]: "ship_limits (ship_op_apply x s) = ship_limits s"
  by (cases x) (simp_all add: addRecords_def addLines_def setCore_def addUnparsed_def
      addDropped_def addShed_def, simp_all add: ship_limits_def)

lemma limits_take: "takeBatch now s = (b, s') \<Longrightarrow> ship_limits s' = ship_limits s"
  by (auto simp: takeBatch_def ship_limits_def Let_def split: prod.splits if_splits)

lemma ship_reach_limits: "ship_reach cfg s b g \<Longrightarrow> ship_limits s = ship_limits (new_shipper cfg)"
proof (induction rule: ship_reach.induct)
  case (refused s b g status ra err now)
  have "ship_limits (recordFailure status ra err now (restore s)) = ship_limits (restore s)"
    by (subst recordFailure_frame) (simp add: ship_limits_def)
  also have "\<dots> = ship_limits s"
    by (simp add: restore_eq) (simp add: ship_limits_def)
  finally show ?case using refused by simp
next
  case (accepted s b g now)
  then show ?case by (simp add: commit_def ship_limits_def)
qed (auto dest: limits_take)

subsection \<open>Flushing an idle queue\<close>

definition owes :: "shipper \<Rightarrow> nat" where
  "owes s = (if sh_dropped s = 0 \<and> sh_unparsed s = 0 \<and> sh_shed s = 0 then 0 else 1)"

definition ship_idle :: "shipper \<Rightarrow> bool" where
  "ship_idle s \<longleftrightarrow> sh_records s = [] \<and> sh_lines s = [] \<and> no_inflight s \<and> owes s = 0"

lemma takeBatch_None_idle:
  assumes "takeBatch now s = (None, s')" "no_inflight s"
    "0 < sh_maxBatchRecords s" "0 < sh_maxBatchLines s" "sh_retryUntil s = 0 \<or> sh_retryUntil s \<le> now"
  shows "ship_idle s"
proof -
  let ?r0 = "nat (min (int (length (sh_records s))) (sh_maxBatchRecords s))"
  let ?l0 = "nat (min (int (length (sh_lines s))) (sh_maxBatchLines s))"
  obtain r l where rl: "trimToByteBudget s ?r0 ?l0 = (r, l)"
    by (cases "trimToByteBudget s ?r0 ?l0")
  from assms(1,5) rl have none: "r = 0" "l = 0" "sh_dropped s = 0" "sh_unparsed s = 0" "sh_shed s = 0"
    by (auto simp: takeBatch_def Let_def split: if_splits)
  with trimToByteBudget_progress [OF rl] assms(3,4) have "sh_records s = []" "sh_lines s = []"
    by auto
  with none assms(2) show ?thesis by (simp add: ship_idle_def owes_def)
qed

definition accepts :: "exchange \<Rightarrow> bool" where
  "accepts x \<longleftrightarrow> x_before x = [] \<and> x_during x = [] \<and>
     (case x_answer x of Response code _ _ _ \<Rightarrow> code = 200 | TransportError _ \<Rightarrow> False)"

lemma accepts_post: "accepts x \<Longrightarrow> \<exists>st ra. post_result ph now (x_answer x) = (st, ra, None)"
  by (auto simp: accepts_def split: http_answer.splits)

lemma flush_accepted_drains:
  assumes "\<forall>x \<in> set xs. accepts x \<and> (sh_retryUntil s = 0 \<or> sh_retryUntil s \<le> x_taken_at x)"
    and "no_inflight s" "0 < sh_maxBatchRecords s" "0 < sh_maxBatchLines s"
    and "length (sh_records s) + length (sh_lines s) + owes s < length xs"
  shows "\<exists>s'. flush ph xs s = Some (s', None) \<and> ship_idle s' \<and>
    sh_shippedRecords s' = sh_shippedRecords s + of_nat (length (sh_records s)) \<and>
    sh_shippedLines s' = sh_shippedLines s + of_nat (length (sh_lines s))"
  using assms
proof (induction xs arbitrary: s)
  case Nil
  then show ?case by simp
next
  case (Cons x xs)
  from Cons.prems(1) have x: "x_before x = []" "x_during x = []" "accepts x"
    "sh_retryUntil s = 0 \<or> sh_retryUntil s \<le> x_taken_at x"
    by (auto simp: accepts_def)
  obtain st ra where post: "post_result ph (x_answered_at x) (x_answer x) = (st, ra, None)"
    using accepts_post [OF x(3)] by blast
  obtain bo s1 where take: "takeBatch (x_taken_at x) s = (bo, s1)"
    by (cases "takeBatch (x_taken_at x) s")
  show ?case
  proof (cases bo)
    case None
    with take have "s1 = s" by (auto dest: takeBatch_None)
    moreover have "ship_idle s"
      using takeBatch_None_idle [of "x_taken_at x" s s1] take None Cons.prems(2-4) x(4) by simp
    ultimately show ?thesis
      using take None x by (simp add: ship_idle_def)
  next
    case (Some b)
    let ?r0 = "nat (min (int (length (sh_records s))) (sh_maxBatchRecords s))"
    let ?l0 = "nat (min (int (length (sh_lines s))) (sh_maxBatchLines s))"
    from takeBatch_Some [OF take [unfolded Some] Cons.prems(2-4)] obtain r l where rl:
      "trimToByteBudget s ?r0 ?l0 = (r, l)" "r \<le> length (sh_records s)" "l \<le> length (sh_lines s)"
      "s1 = s\<lparr>sh_inflightRecords := take r (sh_records s), sh_records := drop r (sh_records s),
         sh_inflightLines := take l (sh_lines s), sh_lines := drop l (sh_lines s)\<rparr>"
      "tb_Dropped b = sh_dropped s" "tb_ShedConnections b = sh_shed s"
      "tb_Unparsed b = sh_unparsed s"
      "r \<noteq> 0 \<or> l \<noteq> 0 \<or> sh_dropped s \<noteq> 0 \<or> sh_unparsed s \<noteq> 0 \<or> sh_shed s \<noteq> 0"
      by (metis trace_batch.select_convs)
    let ?s2 = "commit b (x_answered_at x) s1"
    have s2: "sh_records ?s2 = drop r (sh_records s)" "sh_lines ?s2 = drop l (sh_lines s)"
      "no_inflight ?s2" "owes ?s2 = 0" "sh_retryUntil ?s2 = 0"
      "sh_maxBatchRecords ?s2 = sh_maxBatchRecords s" "sh_maxBatchLines ?s2 = sh_maxBatchLines s"
      "sh_shippedRecords ?s2 = sh_shippedRecords s + of_nat r"
      "sh_shippedLines ?s2 = sh_shippedLines s + of_nat l"
      using rl by (simp_all add: commit_def no_inflight_def owes_def saturatingSub_def min_def)
    have "0 < r + l \<or> sh_records s = [] \<and> sh_lines s = []"
      using trimToByteBudget_progress [OF rl(1)] Cons.prems(3,4) by auto
    then have "length (sh_records ?s2) + length (sh_lines ?s2) + owes ?s2 < length xs"
      using Cons.prems(5) rl(2,3,8) s2 by (auto simp: owes_def split: if_splits)
    moreover have "\<forall>x \<in> set xs. accepts x \<and> (sh_retryUntil ?s2 = 0 \<or> sh_retryUntil ?s2 \<le> x_taken_at x)"
      using Cons.prems(1) s2(5) by simp
    ultimately obtain s' where "flush ph xs ?s2 = Some (s', None)" "ship_idle s'"
      "sh_shippedRecords s' = sh_shippedRecords ?s2 + of_nat (length (sh_records ?s2))"
      "sh_shippedLines s' = sh_shippedLines ?s2 + of_nat (length (sh_lines ?s2))"
      using Cons.IH [of ?s2] Cons.prems(3,4) s2 by auto
    then show ?thesis
      using take Some x post rl(2,3) s2 by (simp flip: of_nat_add)
  qed
qed

section \<open>Properties\<close>

text \<open>
  C1. Conservation: in every reachable state, whatever the interleaving of adds, deliveries
  and refusals, every item is counted exactly once. The records and lines delivered, the
  losses, and what is still held (queued or on the wire) add up to everything that was
  added plus the losses reported from upstream, in the counters' own 64-bit arithmetic.
\<close>

theorem ship_conservation:
  assumes "ship_reach cfg s b g"
  shows "sh_droppedTotal s + sh_shippedRecords s + sh_shippedLines s
      + of_int (st_Pending (ship_stats_of s))
    = of_nat (length (led_records g) + length (led_lines g) + led_upstream g)"
proof -
  from ship_reach_inv [OF assms] have
    "sh_shippedRecords s = of_nat (length (led_sent_records g))"
    "sh_shippedLines s = of_nat (length (led_sent_lines g))"
    "sh_droppedTotal s = of_int (lost s g)"
    by (auto simp: ship_counts_def)
  then show ?thesis by (simp add: lost_def)
qed

text \<open>A shipper that holds one item, and a line, for the witnesses.\<close>

definition tiny_config :: ship_config where
  "tiny_config = \<lparr>cfg_Server = ''https://s/'', cfg_NodeID = ''n'', cfg_Token = ''t'',
     cfg_MaxBatchRecords = 1, cfg_MaxBatchLines = 1, cfg_MaxPending = 1, cfg_FlushInterval = 0\<rparr>"

definition line_of :: "string \<Rightarrow> trace_line" where
  "line_of m = \<lparr>tl_NodeID = ''n'', tl_At = 1, tl_Level = ''info'', tl_LogID = 7, tl_Tag = [],
     tl_Message = m, tl_Raw = m, tl_SessionID = ''s''\<rparr>"

definition tiny_full :: shipper where
  "tiny_full = ship_op_apply (AddLines [line_of ''a'', line_of ''b'']) (new_shipper tiny_config)"

definition tiny_ledger :: ledger where
  "tiny_ledger = ledger_op (AddLines [line_of ''a'', line_of ''b'']) empty_ledger"

lemma tiny_reach: "ship_reach tiny_config tiny_full None tiny_ledger"
  unfolding tiny_full_def tiny_ledger_def by (rule ship_reach.op [OF ship_reach.init])

lemma tiny_eval:
  "sh_records tiny_full = []" "sh_lines tiny_full = [line_of ''b'']"
  "sh_dropped tiny_full = 1" "sh_droppedTotal tiny_full = 1" "sh_unparsed tiny_full = 0"
  "sh_shed tiny_full = 0" "sh_retryUntil tiny_full = 0" "no_inflight tiny_full"
  "sh_maxPending tiny_full = 1" "sh_maxBatchRecords tiny_full = 1" "sh_maxBatchLines tiny_full = 1"
  "led_lines tiny_ledger = [line_of ''a'', line_of ''b'']" "lost tiny_full tiny_ledger = 1"
  by (simp_all add: tiny_full_def tiny_ledger_def tiny_config_def new_shipper_def addLines_def
      trimLocked_def empty_ledger_def lost_simps no_inflight_def)

theorem ship_conservation_witness:
  "ship_reach tiny_config tiny_full None tiny_ledger \<and>
   sh_droppedTotal tiny_full + sh_shippedRecords tiny_full + sh_shippedLines tiny_full
     + of_int (st_Pending (ship_stats_of tiny_full)) = of_nat 2"
  using tiny_reach ship_conservation [OF tiny_reach]
  by (simp add: tiny_ledger_def empty_ledger_def)

text \<open>
  C36. No silent loss: as long as fewer than \<open>2 ^ 64\<close> items were lost, the losses the server
  was told about in accepted batches and the losses still owed to it (\<open>dropped\<close>, which rides
  in the next batch) are together exactly the items that were lost.
\<close>

theorem ship_no_silent_loss:
  assumes "ship_reach cfg s b g" "lost s g < 2 ^ 64"
  shows "int (led_reported g) + int (unat (sh_dropped s)) = lost s g"
  using ship_reach_inv [OF assms(1)] assms(2) by (simp add: ship_counts_def del: of_nat_unat)

theorem ship_no_silent_loss_witness:
  "ship_reach tiny_config tiny_full None tiny_ledger \<and> lost tiny_full tiny_ledger < 2 ^ 64 \<and>
   int (led_reported tiny_ledger) + int (unat (sh_dropped tiny_full)) = 1"
  using tiny_reach tiny_eval ship_no_silent_loss [OF tiny_reach] by simp

text \<open>
  C16. At most once and in order: what the server accepted, followed by the batch on the wire
  and the queue, is a subsequence of what was added, for records and for lines. So no item
  is delivered twice, no two items swap, and a dropped item is never delivered.
\<close>

theorem ship_at_most_once_in_order:
  assumes "ship_reach cfg s b g"
  shows "subseq (led_sent_records g @ sh_inflightRecords s @ sh_records s) (led_records g) \<and>
    subseq (led_sent_lines g @ sh_inflightLines s @ sh_lines s) (led_lines g)"
  using ship_reach_inv [OF assms] by (auto simp: ship_inv_def ship_shape_def)

theorem ship_at_most_once_in_order_witness:
  "ship_reach tiny_config tiny_full None tiny_ledger \<and>
   subseq (led_sent_lines tiny_ledger @ sh_inflightLines tiny_full @ [line_of ''b''])
     [line_of ''a'', line_of ''b'']"
  using tiny_reach ship_at_most_once_in_order [OF tiny_reach] by (simp add: tiny_eval)

text \<open>
  Bounded memory: the shipper never holds more than \<open>MaxPending\<close> queued items plus one
  batch on the wire, with the limits as \<open>New\<close> derived them from the configuration.
\<close>

theorem ship_bounded:
  assumes "ship_reach cfg s b g"
  shows "int (length (sh_records s)) + int (length (sh_lines s)) \<le> sh_maxPending (new_shipper cfg) \<and>
    st_Pending (ship_stats_of s) \<le> sh_maxPending (new_shipper cfg)
      + sh_maxBatchRecords (new_shipper cfg) + sh_maxBatchLines (new_shipper cfg)"
  using ship_reach_inv [OF assms] ship_reach_limits [OF assms]
  by (auto simp: ship_inv_def ship_shape_def total_queued_def ship_stats_of_def ship_limits_def Let_def)

theorem ship_bounded_witness:
  "ship_reach tiny_config tiny_full None tiny_ledger \<and>
   int (length (sh_records tiny_full)) + int (length (sh_lines tiny_full)) \<le> 1"
  using tiny_reach ship_bounded [OF tiny_reach]
  by (simp add: tiny_config_def new_shipper_def)

text \<open>
  A batch respects every cap and always moves the queue: at most \<open>MaxBatchRecords\<close>
  records and \<open>MaxBatchLines\<close> lines, from the head of each queue, an approximate size within
  the byte budget unless the batch is a single item, at least one item when any is queued,
  and the counters owed.
\<close>

theorem takeBatch_bounds:
  assumes "takeBatch now s = (Some b, s')" "no_inflight s"
    "0 < sh_maxBatchRecords s" "0 < sh_maxBatchLines s"
  shows "int (length (tb_Records b)) \<le> sh_maxBatchRecords s \<and>
    int (length (tb_Lines b)) \<le> sh_maxBatchLines s \<and>
    sh_records s = tb_Records b @ sh_records s' \<and> sh_lines s = tb_Lines b @ sh_lines s' \<and>
    (sum_list (map record_size (tb_Records b)) + sum_list (map line_size (tb_Lines b)) \<le> maxBatchBytes
      \<or> length (tb_Records b) + length (tb_Lines b) = 1) \<and>
    (sh_records s = [] \<and> sh_lines s = [] \<or> tb_Records b \<noteq> [] \<or> tb_Lines b \<noteq> []) \<and>
    tb_Dropped b = sh_dropped s \<and> tb_ShedConnections b = sh_shed s \<and> tb_Unparsed b = sh_unparsed s"
proof -
  let ?r0 = "nat (min (int (length (sh_records s))) (sh_maxBatchRecords s))"
  let ?l0 = "nat (min (int (length (sh_lines s))) (sh_maxBatchLines s))"
  obtain r l where rl:
    "trimToByteBudget s ?r0 ?l0 = (r, l)" "r \<le> length (sh_records s)" "l \<le> length (sh_lines s)"
    "int r \<le> sh_maxBatchRecords s" "int l \<le> sh_maxBatchLines s"
    "sh_records s' = drop r (sh_records s)" "sh_lines s' = drop l (sh_lines s)"
    "tb_Records b = take r (sh_records s)" "tb_Lines b = take l (sh_lines s)"
    "tb_Dropped b = sh_dropped s" "tb_ShedConnections b = sh_shed s" "tb_Unparsed b = sh_unparsed s"
    by (rule takeBatch_Some [OF assms]) simp
  have "sh_records s = [] \<and> sh_lines s = [] \<or> 0 < r + l"
    using trimToByteBudget_progress [OF rl(1)] assms(3,4) by auto
  with rl trimToByteBudget_size [OF rl(1)] show ?thesis
    by (auto simp: min_def)
qed

theorem takeBatch_bounds_witness:
  "\<exists>b s'. takeBatch 5 tiny_full = (Some b, s') \<and> no_inflight tiny_full \<and>
     tb_Lines b = [line_of ''b''] \<and> int (length (tb_Lines b)) \<le> sh_maxBatchLines tiny_full"
proof -
  have "\<exists>b s'. takeBatch 5 tiny_full = (Some b, s') \<and> tb_Lines b = [line_of ''b'']"
    by (simp add: takeBatch_def trimToByteBudget_def tiny_eval Let_def maxBatchBytes_def
        line_size_def line_of_def)
  then obtain b s' where "takeBatch 5 tiny_full = (Some b, s')" "tb_Lines b = [line_of ''b'']"
    by blast
  moreover from takeBatch_bounds [OF this(1)] have "int (length (tb_Lines b)) \<le> sh_maxBatchLines tiny_full"
    by (simp add: tiny_eval)
  ultimately show ?thesis using tiny_eval by auto
qed

text \<open>
  Holding position: putting back a batch that was taken from a queue within its bound
  restores the shipper exactly, so the next flush sends the same items in the same order
  and a refusal by itself loses nothing.
\<close>

theorem restore_takeBatch:
  assumes "takeBatch now s = (Some b, s')" "no_inflight s"
    "0 < sh_maxBatchRecords s" "0 < sh_maxBatchLines s"
    "int (length (sh_records s)) + int (length (sh_lines s)) \<le> sh_maxPending s"
  shows "restore s' = s"
proof -
  obtain r l where
    "s' = s\<lparr>sh_inflightRecords := take r (sh_records s), sh_records := drop r (sh_records s),
       sh_inflightLines := take l (sh_lines s), sh_lines := drop l (sh_lines s)\<rparr>"
    by (rule takeBatch_Some [OF assms(1-4)])
  then have "restore s' = trimLocked (s\<lparr>sh_inflightRecords := [], sh_inflightLines := []\<rparr>)"
    by (cases s) (simp add: restore_eq)
  also have "s\<lparr>sh_inflightRecords := [], sh_inflightLines := []\<rparr> = s"
    using assms(2) by (cases s) (simp add: no_inflight_def)
  finally show ?thesis
    using assms(5) by (simp add: trimLocked_id total_queued_def)
qed

theorem restore_takeBatch_witness:
  "\<exists>b s'. takeBatch 5 tiny_full = (Some b, s') \<and> s' \<noteq> tiny_full \<and> restore s' = tiny_full"
proof -
  have "\<exists>b s'. takeBatch 5 tiny_full = (Some b, s') \<and> sh_lines s' = []"
    by (simp add: takeBatch_def trimToByteBudget_def tiny_eval Let_def maxBatchBytes_def
        line_size_def line_of_def)
  then obtain b s' where t: "takeBatch 5 tiny_full = (Some b, s')" "sh_lines s' = []" by blast
  from restore_takeBatch [OF t(1)] have "restore s' = tiny_full" by (simp add: tiny_eval)
  moreover from t(2) have "s' \<noteq> tiny_full" using tiny_eval(2) by auto
  ultimately show ?thesis using t by blast
qed


definition accepting_exchange :: exchange where
  "accepting_exchange = \<lparr>x_before = [], x_during = [], x_taken_at = 5, x_answered_at = 6,
     x_answer = Response 200 ''200 OK'' [] []\<rparr>"


lemma backoff_loop_closed:
  "0 < wait \<Longrightarrow> min maxBackoff (backoff_loop k wait) = min maxBackoff (wait * 2 ^ k)"
proof (induction k wait rule: backoff_loop.induct)
  case (1 wait)
  then show ?case by simp
next
  case (2 k wait)
  show ?case
  proof (cases "wait < maxBackoff")
    case True
    with "2.prems" have "wrap64 (wait * 2) = wait * 2"
      by (intro wrap64_id) (simp_all add: maxBackoff_def)
    with 2 True show ?thesis by (simp add: mult.assoc)
  next
    case False
    have "wait * 1 \<le> wait * 2 ^ Suc k"
      by (rule mult_left_mono) (use "2.prems" one_le_power [of "2 :: int" "Suc k"] in simp_all)
    with False show ?thesis by simp
  qed
qed

text \<open>
  Backing off: after a refusal with status 429 nothing is taken before the wait is over,
  where the wait is the server's \<open>Retry-After\<close> when it gave a positive one and otherwise
  doubles per consecutive refusal from the flush interval up to \<open>maxBackoff\<close>.
\<close>

theorem refused_429_backs_off:
  assumes "0 < sh_flushInterval s" "0 \<le> sh_backoffFailures s" "0 < now"
    and "s' = recordFailure 429 retryAfter err now s"
    and "wait = (if 0 < retryAfter then retryAfter
                 else min maxBackoff (sh_flushInterval s * 2 ^ nat (sh_backoffFailures s)))"
  shows "0 < wait \<and> sh_retryUntil s' = now + wait \<and> sh_backoffFailures s' = sh_backoffFailures s + 1 \<and>
    (\<forall>t. t < now + wait \<longrightarrow> takeBatch t s' = (None, s'))"
proof -
  let ?n = "nat (sh_backoffFailures s)"
  have "backoffFor (sh_backoffFailures s + 1) (sh_flushInterval s)
      = min maxBackoff (backoff_loop ?n (sh_flushInterval s))"
    using assms(1) by (auto simp: backoffFor_def Let_def)
  then have "backoffFor (sh_backoffFailures s + 1) (sh_flushInterval s)
      = min maxBackoff (sh_flushInterval s * 2 ^ ?n)"
    by (simp add: backoff_loop_closed [OF assms(1)])
  with assms(4,5) have "sh_retryUntil s' = now + wait" "sh_backoffFailures s' = sh_backoffFailures s + 1"
    by (auto simp: recordFailure_def Let_def)
  moreover have "0 < wait"
    using assms(1,5) by (auto simp: maxBackoff_def)
  ultimately show ?thesis
    using assms(3) by (auto simp: takeBatch_def)
qed

theorem refused_429_backs_off_witness:
  "0 < sh_flushInterval tiny_full \<and>
   sh_retryUntil (recordFailure 429 0 ''slow down'' 5 tiny_full) = 5 + second"
  using refused_429_backs_off [of tiny_full 5 _ 0 "''slow down''", OF _ _ _ refl refl]
  by (simp add: tiny_full_def tiny_config_def new_shipper_def addLines_def trimLocked_def
      defaultFlushInterval_def maxBackoff_def)

text \<open>
  Shedding the oldest: the trim keeps a suffix of each queue, keeps exactly
  \<open>MaxPending\<close> items when there were more and everything otherwise, counts what it discards,
  and takes a record only once the lines are no longer than the records (up to one).
\<close>

theorem trimLocked_sheds_oldest:
  assumes "0 < sh_maxPending s" "t = trimLocked s"
  shows "suffix (sh_records t) (sh_records s) \<and> suffix (sh_lines t) (sh_lines s) \<and>
    int (length (sh_records t)) + int (length (sh_lines t))
      = min (sh_maxPending s) (int (length (sh_records s)) + int (length (sh_lines s))) \<and>
    sh_dropped t = sh_dropped s + of_nat (length (sh_records s) + length (sh_lines s)
      - length (sh_records t) - length (sh_lines t)) \<and>
    (length (sh_records t) < length (sh_records s) \<longrightarrow>
       length (sh_lines t) \<le> length (sh_records t) + 1)"
proof -
  have bal: "length (sh_records t) < length (sh_records s) \<longrightarrow>
      length (sh_lines t) \<le> length (sh_records t) + 1"
  proof (intro impI)
    assume lt: "length (sh_records t) < length (sh_records s)"
    let ?over = "nat (int (length (sh_records s)) + int (length (sh_lines s)) - sh_maxPending s)"
    obtain r l where rl: "trim_loop ?over (length (sh_records s)) (length (sh_lines s)) 0 0 = (r, l)"
      by (cases "trim_loop ?over (length (sh_records s)) (length (sh_lines s)) 0 0")
    with lt assms(2) have "sh_records t = drop r (sh_records s)" "sh_lines t = drop l (sh_lines s)"
      "0 < r"
      by (auto simp: trimLocked_def Let_def split: if_splits)
    with trim_loop_balance [OF _ _ rl] show "length (sh_lines t) \<le> length (sh_records t) + 1"
      by simp
  qed
  obtain r l where "t = s\<lparr>sh_records := drop r (sh_records s), sh_lines := drop l (sh_lines s),
       sh_dropped := sh_dropped s + of_nat (r + l),
       sh_droppedTotal := sh_droppedTotal s + of_nat (r + l)\<rparr>"
    "r \<le> length (sh_records s)" "l \<le> length (sh_lines s)"
    "int (r + l) = max 0 (total_queued s - sh_maxPending s)"
    unfolding assms(2) by (rule trimLocked_cases [OF assms(1)])
  with bal show ?thesis
    by (auto simp: suffix_drop total_queued_def of_nat_diff)
qed

theorem trimLocked_sheds_oldest_witness:
  "sh_lines (trimLocked ((new_shipper tiny_config)\<lparr>sh_lines := [line_of ''a'', line_of ''b'']\<rparr>))
     = [line_of ''b''] \<and>
   sh_dropped (trimLocked ((new_shipper tiny_config)\<lparr>sh_lines := [line_of ''a'', line_of ''b'']\<rparr>)) = 1"
  using trimLocked_sheds_oldest [OF _ refl,
      of "(new_shipper tiny_config)\<lparr>sh_lines := [line_of ''a'', line_of ''b'']\<rparr>"]
  by (simp add: tiny_config_def new_shipper_def trimLocked_def)

end
