(* ===== verification/Bounded_Marks.thy ===== *)
theory Bounded_Marks
  imports Go_Prelude
begin

text \<open>
  Bounded first-in first-out sets of marked keys. The agent has two of them, the finished
  log ids of \<open>internal/sessionasm\<close> (\<open>doneSet\<close>) and the shed log ids of
  \<open>internal/traceshed\<close> (\<open>shedRing\<close>). Both keep a slice that is filled once and then
  overwritten at a moving position, next to a map for the lookup. The locales state what the
  callers rely on: in terms of the slots from the oldest to the newest, where a slot whose mark
  was taken back is \<open>None\<close>.
\<close>

section \<open>Slices written in a circle\<close>

lemma rotate_overwrite:
  assumes "p < length xs"
  shows "rotate (Suc p mod length xs) (xs[p := x]) = tl (rotate p xs) @ [x]"
proof -
  have len: "length (xs[p := x]) = length xs" by simp
  have r: "rotate p xs = drop p xs @ take p xs"
    using assms by (simp add: rotate_drop_take)
  have d: "drop p xs = xs ! p # drop (Suc p) xs"
    using assms by (rule Cons_nth_drop_Suc [symmetric])
  have u: "xs[p := x] = take p xs @ x # drop (Suc p) xs"
    using assms by (rule upd_conv_take_nth_drop)
  show ?thesis
  proof (cases "Suc p = length xs")
    case True
    then have dn: "drop (Suc p) xs = []" by simp
    show ?thesis unfolding r d using True u dn by simp
  next
    case False
    with assms have s: "Suc p < length xs" by simp
    have "rotate (Suc p) (xs[p := x]) = drop (Suc p) (xs[p := x]) @ take (Suc p) (xs[p := x])"
      using s by (simp add: rotate_drop_take)
    also have "\<dots> = drop (Suc p) xs @ take p xs @ [x]"
      using s by (simp add: take_Suc_conv_app_nth drop_update_cancel)
    finally show ?thesis using s unfolding r d by simp
  qed
qed

lemma hd_rotate_nth: "p < length xs \<Longrightarrow> hd (rotate p xs) = xs ! p"
  by (simp add: rotate_drop_take hd_append hd_drop_conv_nth)

section \<open>The contract\<close>

text \<open>
  \<open>mark_room slots cap n x\<close>: the key is marked, and at least \<open>n\<close> further keys can be marked
  before its slot is the one that is overwritten.
\<close>

definition mark_room :: "'k option list \<Rightarrow> nat \<Rightarrow> nat \<Rightarrow> 'k \<Rightarrow> bool" where
  "mark_room sl cap n x \<longleftrightarrow>
     (\<exists>i < length sl. sl ! i = Some x \<and> n + length sl \<le> i + cap)"

lemma mark_room_mem: "mark_room sl cap n x \<Longrightarrow> Some x \<in> set sl"
  by (auto simp: mark_room_def in_set_conv_nth)

lemma mark_room_weaken: "mark_room sl cap n x \<Longrightarrow> m \<le> n \<Longrightarrow> mark_room sl cap m x"
  by (fastforce simp: mark_room_def)

lemma mark_room_last: "length sl < cap \<Longrightarrow> mark_room (sl @ [Some x]) cap (cap - 1) x"
  by (auto simp: mark_room_def intro!: exI [of _ "length sl"])

lemma mark_room_grow:
  assumes "mark_room sl cap n x" "length sl < cap"
  shows "mark_room (sl @ [s]) cap (n - 1) x"
proof -
  obtain i where "i < length sl" "sl ! i = Some x" "n + length sl \<le> i + cap"
    using assms(1) by (auto simp: mark_room_def)
  then show ?thesis
    using assms(2) by (auto simp: mark_room_def nth_append intro!: exI [of _ i])
qed

lemma mark_room_shift:
  assumes "mark_room sl cap (Suc n) x" "length sl = cap"
  shows "mark_room (tl sl @ [s]) cap n x"
proof -
  obtain i where i: "i < length sl" "sl ! i = Some x" "Suc n + length sl \<le> i + cap"
    using assms(1) by (auto simp: mark_room_def)
  then have "tl sl ! (i - 1) = Some x" "i - 1 < length (tl sl)"
    using assms(2) by (auto simp: nth_tl)
  then show ?thesis
    using i assms(2)
    by (auto simp: mark_room_def nth_append intro!: exI [of _ "i - 1"])
qed

lemma mark_room_unmark:
  assumes "mark_room sl cap n x" "x \<noteq> y"
  shows "mark_room (map (\<lambda>s. if s = Some y then None else s) sl) cap n x"
proof -
  obtain i where "i < length sl" "sl ! i = Some x" "n + length sl \<le> i + cap"
    using assms(1) by (auto simp: mark_room_def)
  then show ?thesis
    using assms(2) by (auto simp: mark_room_def intro!: exI [of _ i])
qed

locale mark_fifo =
  fixes ok :: "'r \<Rightarrow> bool"
    and has :: "'r \<Rightarrow> 'k \<Rightarrow> bool"
    and add :: "'r \<Rightarrow> 'k \<Rightarrow> 'r"
    and slots :: "'r \<Rightarrow> 'k option list"
    and capacity :: "'r \<Rightarrow> nat"
  assumes ok_add: "ok r \<Longrightarrow> ok (add r x)"
    and capacity_add: "capacity (add r x) = capacity r"
    and capacity_pos: "ok r \<Longrightarrow> 0 < capacity r"
    and has_slot: "ok r \<Longrightarrow> has r x \<longleftrightarrow> Some x \<in> set (slots r)"
    and slots_bounded: "ok r \<Longrightarrow> length (slots r) \<le> capacity r"
    and slots_add: "ok r \<Longrightarrow> \<not> has r x \<Longrightarrow>
      slots (add r x) =
        (if length (slots r) < capacity r then slots r else tl (slots r)) @ [Some x]"
begin

lemma has_added: "ok r \<Longrightarrow> \<not> has r x \<Longrightarrow> has (add r x) x"
  by (simp add: has_slot ok_add slots_add)

lemma has_add_only:
  assumes "ok r" "\<not> has r x" "has (add r x) y"
  shows "y = x \<or> has r y"
proof -
  have "set (tl (slots r)) \<subseteq> set (slots r)"
    by (cases "slots r") auto
  with assms show ?thesis
    by (auto simp: has_slot ok_add slots_add split: if_splits)
qed

text \<open>Not full, a ring forgets nothing; full, it forgets only the key of its oldest slot.\<close>

lemma has_add_keeps:
  assumes "ok r" "\<not> has r x" "has r y"
  shows "has (add r x) y \<or> (length (slots r) = capacity r \<and> hd (slots r) = Some y)"
proof -
  have "Some y = hd (slots r) \<or> Some y \<in> set (tl (slots r))"
    using assms by (cases "slots r") (auto simp: has_slot)
  with assms show ?thesis
    using slots_bounded [OF assms(1)] by (auto simp: has_slot ok_add slots_add)
qed

text \<open>At most \<open>capacity\<close> keys are marked at once.\<close>

lemma marks_bounded:
  assumes "ok r"
  shows "finite {x. has r x}" "card {x. has r x} \<le> capacity r"
proof -
  have eq: "{x. has r x} = the ` (set (slots r) - {None})"
    using assms by (force simp: has_slot image_iff)
  then show "finite {x. has r x}" by simp
  have "card {x. has r x} \<le> card (set (slots r) - {None})"
    unfolding eq by (rule card_image_le) simp
  also have "\<dots> \<le> card (set (slots r))"
    by (simp add: card_mono)
  also have "\<dots> \<le> length (slots r)" by (rule card_length)
  also have "\<dots> \<le> capacity r" using assms by (rule slots_bounded)
  finally show "card {x. has r x} \<le> capacity r" .
qed

lemma room_added: "ok r \<Longrightarrow> \<not> has r x \<Longrightarrow> mark_room (slots (add r x)) (capacity r) (capacity r - 1) x"
  using slots_bounded [of r] capacity_pos [of r]
    mark_room_last [of "if length (slots r) < capacity r then slots r else tl (slots r)" "capacity r" x]
  by (auto simp: slots_add split: if_splits)

lemma room_add:
  assumes "ok r" "\<not> has r y" "mark_room (slots r) (capacity r) (Suc n) x"
  shows "mark_room (slots (add r y)) (capacity r) n x"
  using assms slots_bounded [of r] mark_room_grow [of "slots r" "capacity r" "Suc n" x]
    mark_room_shift [of "slots r" "capacity r" n x]
  by (auto simp: slots_add)

lemma room_has: "ok r \<Longrightarrow> mark_room (slots r) (capacity r) n x \<Longrightarrow> has r x"
  by (simp add: has_slot mark_room_mem)

text \<open>
  A new mark is kept while fewer than \<open>capacity\<close> other keys are marked after it.
\<close>

lemma mark_lasts_from:
  "ok r \<Longrightarrow> mark_room (slots r) (capacity r) n x \<Longrightarrow> length ys \<le> n \<Longrightarrow>
    has (fold (\<lambda>y r. if has r y then r else add r y) ys r) x"
proof (induction ys arbitrary: r n)
  case Nil
  then show ?case by (simp add: room_has)
next
  case (Cons y ys)
  show ?case
  proof (cases "has r y")
    case True
    with Cons show ?thesis by simp
  next
    case False
    obtain m where m: "n = Suc m" using Cons.prems(3) by (cases n) auto
    from Cons.prems False m have
      "mark_room (slots (add r y)) (capacity (add r y)) m x" "ok (add r y)"
      by (simp_all add: room_add capacity_add ok_add)
    with Cons.IH [of "add r y" m] Cons.prems m False show ?thesis by simp
  qed
qed

lemma mark_lasts:
  "ok r \<Longrightarrow> \<not> has r x \<Longrightarrow> length ys < capacity r \<Longrightarrow>
    has (fold (\<lambda>y r. if has r y then r else add r y) ys (add r x)) x"
  using mark_lasts_from [of "add r x" "capacity r - 1" x ys] room_added [of r x]
  by (simp add: ok_add capacity_add)

end

text \<open>A ring whose marks can also be taken back.\<close>

locale mark_fifo_remove = mark_fifo +
  fixes remove :: "'r \<Rightarrow> 'k \<Rightarrow> 'r"
  assumes ok_remove: "ok r \<Longrightarrow> ok (remove r x)"
    and capacity_remove: "capacity (remove r x) = capacity r"
    and slots_remove: "ok r \<Longrightarrow>
      slots (remove r x) = map (\<lambda>s. if s = Some x then None else s) (slots r)"
begin

lemma has_remove: "ok r \<Longrightarrow> has (remove r x) y \<longleftrightarrow> y \<noteq> x \<and> has r y"
  by (auto simp: has_slot ok_remove slots_remove image_iff)

lemma room_remove:
  "ok r \<Longrightarrow> x \<noteq> y \<Longrightarrow> mark_room (slots r) (capacity r) n x \<Longrightarrow>
    mark_room (slots (remove r y)) (capacity r) n x"
  by (simp add: slots_remove mark_room_unmark)

end

end
