(* ===== verification/Trace_Shed.thy ===== *)
theory Trace_Shed
  imports Bounded_Marks Singbox_Log
begin

text \<open>
  The per-second line budget of the trace collector, \<open>internal/traceshed/guard.go\<close>. Every
  method runs under the guard's mutex, so a concurrent execution is a sequence of whole calls
  (\<^verbatim>\<open>guard_op\<close>). The counters of one second are unbounded integers; the product that gives
  the ceiling wraps around at 64 bits, and so do the two reported counters and the sequence
  numbers of the ring.
\<close>

section \<open>Definitions\<close>

subsection \<open>The ring of shed ids\<close>

record shed_slot =
  sl_id :: "32 word"
  sl_seq :: "64 word"

record shed_ring =
  sr_ids :: "32 word \<rightharpoonup> 64 word"
  sr_ring :: "shed_slot list"
  sr_cap :: nat
  sr_pos :: nat
  sr_seq :: "64 word"

definition newShedRing :: "nat \<Rightarrow> shed_ring" where
  "newShedRing c = \<lparr>sr_ids = Map.empty, sr_ring = [], sr_cap = c, sr_pos = 0, sr_seq = 0\<rparr>"

definition shed_has :: "shed_ring \<Rightarrow> 32 word \<Rightarrow> bool" where
  "shed_has r i \<longleftrightarrow> sr_ids r i \<noteq> None"

text \<open>A lookup of an absent key in a Go map gives the zero value of the element type.\<close>

definition shed_add :: "shed_ring \<Rightarrow> 32 word \<Rightarrow> shed_ring" where
  "shed_add r i =
     (let q = sr_seq r + 1;
          slot = \<lparr>sl_id = i, sl_seq = q\<rparr>;
          r = r\<lparr>sr_seq := q\<rparr>;
          r = (if length (sr_ring r) < sr_cap r then r\<lparr>sr_ring := sr_ring r @ [slot]\<rparr>
               else let old = sr_ring r ! sr_pos r;
                        seen = (case sr_ids r (sl_id old) of None \<Rightarrow> 0 | Some n \<Rightarrow> n);
                        ids = (if seen = sl_seq old then (sr_ids r)(sl_id old := None)
                               else sr_ids r)
                    in r\<lparr>sr_ids := ids, sr_ring := (sr_ring r)[sr_pos r := slot],
                         sr_pos := (sr_pos r + 1) mod sr_cap r\<rparr>)
      in r\<lparr>sr_ids := (sr_ids r)(i \<mapsto> q)\<rparr>)"

definition shed_remove :: "shed_ring \<Rightarrow> 32 word \<Rightarrow> shed_ring" where
  "shed_remove r i = r\<lparr>sr_ids := (sr_ids r)(i := None)\<rparr>"

definition shed_reset :: "shed_ring \<Rightarrow> shed_ring" where
  "shed_reset r = r\<lparr>sr_ids := Map.empty, sr_ring := [], sr_pos := 0\<rparr>"

subsection \<open>The guard\<close>

definition HardCeilingFactor :: int where
  "HardCeilingFactor = 4"

definition DefaultRingCapacity :: nat where
  "DefaultRingCapacity = 65536"

record guard =
  gd_budget :: int
  gd_windowStart :: gotime
  gd_entries :: int
  gd_parsed :: int
  gd_shed :: shed_ring
  gd_shedN :: "64 word"
  gd_droppedN :: "64 word"

definition setBudget :: "guard \<Rightarrow> int \<Rightarrow> guard" where
  "setBudget g n = g\<lparr>gd_budget := (if n < 1 then 1 else n)\<rparr>"

definition new_guard :: "int \<Rightarrow> int \<Rightarrow> guard" where
  "new_guard b ringCapacity =
     (let c = (if ringCapacity < 1 then DefaultRingCapacity else nat ringCapacity)
      in setBudget
           \<lparr>gd_budget = 0, gd_windowStart = 0, gd_entries = 0, gd_parsed = 0,
            gd_shed = newShedRing c, gd_shedN = 0, gd_droppedN = 0\<rparr> b)"

definition rolls :: "guard \<Rightarrow> gotime \<Rightarrow> bool" where
  "rolls g now \<longleftrightarrow>
     gd_windowStart g = 0 \<or> time_sub now (gd_windowStart g) \<ge> second \<or> now < gd_windowStart g"

definition roll :: "guard \<Rightarrow> gotime \<Rightarrow> guard" where
  "roll g now =
     (if rolls g now then g\<lparr>gd_windowStart := now, gd_entries := 0, gd_parsed := 0\<rparr> else g)"

definition ceiling_check :: "guard \<Rightarrow> gotime \<Rightarrow> guard \<times> bool" where
  "ceiling_check g now =
     (let g = roll g now;
          g = g\<lparr>gd_entries := gd_entries g + 1\<rparr>
      in if gd_entries g > wrap64 (gd_budget g * HardCeilingFactor)
         then (g\<lparr>gd_droppedN := gd_droppedN g + 1\<rparr>, False)
         else (g, True))"

definition admit :: "guard \<Rightarrow> gotime \<Rightarrow> log_line \<Rightarrow> bool \<Rightarrow> guard \<times> bool" where
  "admit g now l tracked =
     (let g = roll g now;
          g = g\<lparr>gd_parsed := gd_parsed g + 1\<rparr>;
          over = gd_parsed g > gd_budget g
      in if \<not> ln_HasLogID l then
           (if over then (g\<lparr>gd_droppedN := gd_droppedN g + 1\<rparr>, False) else (g, True))
         else if shed_has (gd_shed g) (ln_LogID l) \<and> ln_Event l \<noteq> EventInboundFrom then
           (g, False)
         else
           let g = (if shed_has (gd_shed g) (ln_LogID l)
                    then g\<lparr>gd_shed := shed_remove (gd_shed g) (ln_LogID l)\<rparr> else g)
           in if tracked then (g, True)
              else if over then
                (g\<lparr>gd_shed := shed_add (gd_shed g) (ln_LogID l), gd_shedN := gd_shedN g + 1\<rparr>,
                 False)
              else (g, True))"

definition guard_reset :: "guard \<Rightarrow> guard" where
  "guard_reset g = g\<lparr>gd_shed := shed_reset (gd_shed g)\<rparr>"

definition guard_take :: "guard \<Rightarrow> guard \<times> 64 word \<times> 64 word" where
  "guard_take g = (g\<lparr>gd_shedN := 0, gd_droppedN := 0\<rparr>, gd_shedN g, gd_droppedN g)"

subsection \<open>Runs\<close>

datatype guard_op =
    OpBudget int
  | OpCeiling gotime
  | OpAdmit gotime log_line bool
  | OpReset
  | OpTake

fun guard_step :: "guard \<Rightarrow> guard_op \<Rightarrow> guard" where
  "guard_step g (OpBudget n) = setBudget g n"
| "guard_step g (OpCeiling now) = fst (ceiling_check g now)"
| "guard_step g (OpAdmit now l tr) = fst (admit g now l tr)"
| "guard_step g OpReset = guard_reset g"
| "guard_step g OpTake = fst (guard_take g)"

text \<open>The entries that pass the ceiling, and the untracked lines that are kept, in a run.\<close>

fun passed_ceiling :: "guard \<Rightarrow> guard_op list \<Rightarrow> nat" where
  "passed_ceiling g [] = 0"
| "passed_ceiling g (op # ops) =
     (case op of OpCeiling now \<Rightarrow> (if snd (ceiling_check g now) then 1 else 0) | _ \<Rightarrow> 0)
       + passed_ceiling (guard_step g op) ops"

fun kept_untracked :: "guard \<Rightarrow> guard_op list \<Rightarrow> nat" where
  "kept_untracked g [] = 0"
| "kept_untracked g (op # ops) =
     (case op of
        OpAdmit now l tr \<Rightarrow>
          (if (\<not> tr \<or> \<not> ln_HasLogID l) \<and> snd (admit g now l tr) then 1 else 0)
      | _ \<Rightarrow> 0)
       + kept_untracked (guard_step g op) ops"

text \<open>
  The connections shed in a run: the rejected lines whose id had no mark, or whose line said
  that a new connection reuses the id. And the lines dropped in a run: the entries over the
  ceiling and the rejected lines without an id.
\<close>

definition sheds :: "guard \<Rightarrow> guard_op \<Rightarrow> bool" where
  "sheds g op =
     (case op of
        OpAdmit now l tr \<Rightarrow>
          ln_HasLogID l \<and> \<not> snd (admit g now l tr) \<and>
          (shed_has (gd_shed g) (ln_LogID l) \<longrightarrow> ln_Event l = EventInboundFrom)
      | _ \<Rightarrow> False)"

definition drops_line :: "guard \<Rightarrow> guard_op \<Rightarrow> bool" where
  "drops_line g op =
     (case op of
        OpCeiling now \<Rightarrow> \<not> snd (ceiling_check g now)
      | OpAdmit now l tr \<Rightarrow> \<not> ln_HasLogID l \<and> \<not> snd (admit g now l tr)
      | _ \<Rightarrow> False)"

fun shed_count :: "guard \<Rightarrow> guard_op list \<Rightarrow> nat" where
  "shed_count g [] = 0"
| "shed_count g (op # ops) = (if sheds g op then 1 else 0) + shed_count (guard_step g op) ops"

fun drop_count :: "guard \<Rightarrow> guard_op list \<Rightarrow> nat" where
  "drop_count g [] = 0"
| "drop_count g (op # ops) = (if drops_line g op then 1 else 0) + drop_count (guard_step g op) ops"

text \<open>The calls of one second: the budget does not move and the clock stays in the window.\<close>

fun in_window :: "gotime \<Rightarrow> guard_op \<Rightarrow> bool" where
  "in_window w (OpBudget n) \<longleftrightarrow> False"
| "in_window w (OpCeiling t) \<longleftrightarrow> w \<le> t \<and> t < w + second"
| "in_window w (OpAdmit t l tr) \<longleftrightarrow> w \<le> t \<and> t < w + second"
| "in_window w _ \<longleftrightarrow> True"

text \<open>The calls after which a shed mark of the id may be gone on purpose.\<close>

fun reopens :: "32 word \<Rightarrow> guard_op \<Rightarrow> bool" where
  "reopens x (OpAdmit now l tr) \<longleftrightarrow>
     ln_HasLogID l \<and> ln_LogID l = x \<and> ln_Event l = EventInboundFrom"
| "reopens x OpReset \<longleftrightarrow> True"
| "reopens x _ \<longleftrightarrow> False"

section \<open>The ring\<close>

definition slot_mark :: "shed_ring \<Rightarrow> shed_slot \<Rightarrow> 32 word option" where
  "slot_mark r s = (if sr_ids r (sl_id s) = Some (sl_seq s) then Some (sl_id s) else None)"

definition shed_slots :: "shed_ring \<Rightarrow> 32 word option list" where
  "shed_slots r = map (slot_mark r) (rotate (sr_pos r) (sr_ring r))"

text \<open>
  The slots carry the sequence numbers of the latest additions, in order; so they are
  different, and a mark is the mark of exactly one slot.
\<close>

fun seqs_upto :: "64 word \<Rightarrow> nat \<Rightarrow> 64 word list" where
  "seqs_upto q 0 = []"
| "seqs_upto q (Suc n) = seqs_upto (q - 1) n @ [q]"

definition ring_ok :: "shed_ring \<Rightarrow> bool" where
  "ring_ok r \<longleftrightarrow>
     0 < sr_cap r \<and> sr_cap r < 2 ^ 63 \<and> length (sr_ring r) \<le> sr_cap r \<and>
     (if length (sr_ring r) < sr_cap r then sr_pos r = 0 else sr_pos r < sr_cap r) \<and>
     map sl_seq (rotate (sr_pos r) (sr_ring r)) = seqs_upto (sr_seq r) (length (sr_ring r)) \<and>
     (\<forall>i n. sr_ids r i = Some n \<longrightarrow> (\<exists>s \<in> set (sr_ring r). sl_id s = i \<and> sl_seq s = n))"

lemma length_seqs_upto [simp]: "length (seqs_upto q n) = n"
  by (induction q n rule: seqs_upto.induct) auto

lemma tl_seqs_upto: "tl (seqs_upto q (Suc n)) = seqs_upto q n"
proof (induction n arbitrary: q)
  case (Suc n)
  have "seqs_upto (q - 1) (Suc n) \<noteq> []" by simp
  then have "tl (seqs_upto q (Suc (Suc n))) = tl (seqs_upto (q - 1) (Suc n)) @ [q]"
    by (metis seqs_upto.simps(2) tl_append2)
  also have "\<dots> = seqs_upto q (Suc n)" using Suc.IH [of "q - 1"] by simp
  finally show ?case .
qed simp

lemma set_seqs_upto: "x \<in> set (seqs_upto q n) \<Longrightarrow> \<exists>k < n. x = q - word_of_nat k"
proof (induction q n rule: seqs_upto.induct)
  case (2 q n)
  show ?case
  proof (cases "x = q")
    case False
    with 2 obtain k where "k < n" "x = q - 1 - word_of_nat k" by auto
    then show ?thesis by (intro exI [of _ "Suc k"]) (simp add: algebra_simps)
  qed (auto intro: exI [of _ 0])
qed simp

lemma seq_fresh: "n < 2 ^ 64 \<Longrightarrow> q + 1 \<notin> set (seqs_upto q n)"
proof
  assume n: "n < 2 ^ 64" and "q + 1 \<in> set (seqs_upto q n)"
  then obtain k where k: "k < n" "q + 1 = q - word_of_nat k"
    using set_seqs_upto by blast
  then have "(word_of_nat (Suc k) :: 64 word) = 0"
    by (simp add: algebra_simps)
  then have "2 ^ 64 dvd Suc k"
    by (simp add: word_of_nat_eq_0_iff del: of_nat_Suc)
  with n k show False by (auto dest: dvd_imp_le)
qed

lemma distinct_seqs_upto: "n < 2 ^ 64 \<Longrightarrow> distinct (seqs_upto q n)"
proof (induction q n rule: seqs_upto.induct)
  case (2 q n)
  then show ?case using seq_fresh [of n "q - 1"] by simp
qed simp

lemma length_shed_slots [simp]: "length (shed_slots r) = length (sr_ring r)"
  by (simp add: shed_slots_def)

text \<open>The slots from the oldest to the newest after an addition.\<close>

lemma rotate_shed_add:
  assumes "ring_ok r"
  shows "rotate (sr_pos (shed_add r x)) (sr_ring (shed_add r x)) =
    (if length (sr_ring r) < sr_cap r then rotate (sr_pos r) (sr_ring r)
     else tl (rotate (sr_pos r) (sr_ring r))) @ [\<lparr>sl_id = x, sl_seq = sr_seq r + 1\<rparr>]"
proof (cases "length (sr_ring r) < sr_cap r")
  case True
  with assms show ?thesis by (simp add: shed_add_def Let_def ring_ok_def)
next
  case False
  with assms have "length (sr_ring r) = sr_cap r" "sr_pos r < length (sr_ring r)"
    by (auto simp: ring_ok_def split: if_splits)
  with False show ?thesis
    using rotate_overwrite [of "sr_pos r" "sr_ring r" "\<lparr>sl_id = x, sl_seq = sr_seq r + 1\<rparr>"]
    by (simp add: shed_add_def Let_def)
qed

lemma shed_add_fields [simp]:
  "sr_cap (shed_add r x) = sr_cap r"
  "sr_seq (shed_add r x) = sr_seq r + 1"
  by (auto simp: shed_add_def Let_def)

lemma shed_add_ids:
  "sr_ids (shed_add r x) =
     (if length (sr_ring r) < sr_cap r then sr_ids r
      else if sr_ids r (sl_id (sr_ring r ! sr_pos r)) = Some (sl_seq (sr_ring r ! sr_pos r))
      then (sr_ids r)(sl_id (sr_ring r ! sr_pos r) := None) else sr_ids r)(x \<mapsto> sr_seq r + 1)"
  by (auto simp: shed_add_def Let_def fun_eq_iff split: option.splits)

lemma ring_ok_distinct:
  assumes "ring_ok r"
  shows "distinct (map sl_seq (rotate (sr_pos r) (sr_ring r)))"
    "sr_seq r + 1 \<notin> sl_seq ` set (sr_ring r)"
proof -
  have n: "length (sr_ring r) < 2 ^ 64" using assms by (simp add: ring_ok_def)
  show "distinct (map sl_seq (rotate (sr_pos r) (sr_ring r)))"
    using assms distinct_seqs_upto [OF n] by (simp add: ring_ok_def)
  have "set (seqs_upto (sr_seq r) (length (sr_ring r))) = sl_seq ` set (sr_ring r)"
    using assms by (metis ring_ok_def list.set_map set_rotate)
  then show "sr_seq r + 1 \<notin> sl_seq ` set (sr_ring r)"
    using seq_fresh [OF n] by auto
qed

lemma shed_slots_add:
  assumes ok: "ring_ok r" and fresh: "\<not> shed_has r x"
  shows "shed_slots (shed_add r x) =
    (if length (shed_slots r) < sr_cap r then shed_slots r else tl (shed_slots r)) @ [Some x]"
proof -
  let ?S = "rotate (sr_pos r) (sr_ring r)"
  let ?T = "if length (sr_ring r) < sr_cap r then ?S else tl ?S"
  have old: "sr_ring r ! sr_pos r = hd ?S" "?S \<noteq> []" if "\<not> length (sr_ring r) < sr_cap r"
    using ok that by (auto simp: ring_ok_def hd_rotate_nth split: if_splits)
  have "slot_mark (shed_add r x) s = slot_mark r s" if s: "s \<in> set ?T" for s
  proof -
    have "s \<in> set ?S" using s by (cases ?S) (auto split: if_splits)
    then have q: "sl_seq s \<noteq> sr_seq r + 1" using ring_ok_distinct(2) [OF ok] by (metis imageI set_rotate)
    have "sl_seq s \<noteq> sl_seq (hd ?S)" if full: "\<not> length (sr_ring r) < sr_cap r"
    proof -
      obtain a l where al: "?S = a # l" using old [OF full] by (cases ?S) auto
      then show ?thesis using s full ring_ok_distinct(1) [OF ok] unfolding al by (fastforce simp: image_iff)
    qed
    then show ?thesis
      using q fresh old by (auto simp: slot_mark_def shed_add_ids shed_has_def)
  qed
  then have "map (slot_mark (shed_add r x)) ?T = map (slot_mark r) ?T" by (auto intro: map_cong)
  moreover have "slot_mark (shed_add r x) \<lparr>sl_id = x, sl_seq = sr_seq r + 1\<rparr> = Some x"
    by (simp add: slot_mark_def shed_add_ids)
  ultimately show ?thesis
    by (simp add: shed_slots_def rotate_shed_add [OF ok] map_tl del: map_eq_conv)
qed

lemma ring_ok_add:
  assumes ok: "ring_ok r"
  shows "ring_ok (shed_add r x)"
proof -
  let ?S = "rotate (sr_pos r) (sr_ring r)" and ?r = "shed_add r x"
  let ?new = "\<lparr>sl_id = x, sl_seq = sr_seq r + 1\<rparr>"
  have len: "length (sr_ring ?r) = (if length (sr_ring r) < sr_cap r then Suc (length (sr_ring r)) else length (sr_ring r))"
    by (auto simp: shed_add_def Let_def)
  have pos: "if length (sr_ring ?r) < sr_cap r then sr_pos ?r = 0 else sr_pos ?r < sr_cap r"
    using ok by (auto simp: shed_add_def Let_def ring_ok_def)
  have seqs: "map sl_seq (rotate (sr_pos ?r) (sr_ring ?r)) = seqs_upto (sr_seq ?r) (length (sr_ring ?r))"
  proof (cases "length (sr_ring r) < sr_cap r")
    case True
    moreover have "map sl_seq ?S = seqs_upto (sr_seq r) (length (sr_ring r))"
      using ok by (simp add: ring_ok_def)
    ultimately show ?thesis using len by (simp add: rotate_shed_add [OF ok])
  next
    case False
    with ok obtain n where n: "length (sr_ring r) = Suc n"
      by (cases "length (sr_ring r)") (auto simp: ring_ok_def)
    have "map sl_seq (tl ?S) = seqs_upto (sr_seq r) n"
      using ok n tl_seqs_upto [of "sr_seq r" n] by (simp add: ring_ok_def map_tl)
    with False ok n len show ?thesis by (simp add: rotate_shed_add)
  qed
  have "\<exists>s \<in> set (sr_ring ?r). sl_id s = i \<and> sl_seq s = m" if m: "sr_ids ?r i = Some m" for i m
  proof (cases "i = x")
    case True
    with m have "m = sr_seq r + 1" by (simp add: shed_add_ids)
    moreover have "?new \<in> set (rotate (sr_pos ?r) (sr_ring ?r))"
      by (simp add: rotate_shed_add [OF ok])
    ultimately show ?thesis using True by force
  next
    case False
    with m have "sr_ids r i = Some m" by (auto simp: shed_add_ids split: if_splits)
    with ok obtain s where s: "s \<in> set ?S" "sl_id s = i" "sl_seq s = m" by (auto simp: ring_ok_def)
    have "s \<in> set (tl ?S)" if full: "\<not> length (sr_ring r) < sr_cap r"
    proof -
      have "sr_ring r ! sr_pos r = hd ?S"
        using ok full by (auto simp: ring_ok_def hd_rotate_nth split: if_splits)
      then have "s \<noteq> hd ?S"
        using m False s full by (auto simp: shed_add_ids split: if_splits)
      with s show ?thesis by (cases ?S) auto
    qed
    with s have "s \<in> set (rotate (sr_pos ?r) (sr_ring ?r))"
      by (auto simp: rotate_shed_add [OF ok])
    with s show ?thesis by auto
  qed
  with ok len pos seqs show ?thesis by (auto simp: ring_ok_def)
qed

lemma ring_ok_new: "0 < c \<Longrightarrow> c < 2 ^ 63 \<Longrightarrow> ring_ok (newShedRing c)"
  by (simp add: ring_ok_def newShedRing_def)

lemma ring_ok_remove: "ring_ok r \<Longrightarrow> ring_ok (shed_remove r x)"
  by (auto simp: ring_ok_def shed_remove_def)

lemma ring_ok_reset: "ring_ok r \<Longrightarrow> ring_ok (shed_reset r)"
  by (auto simp: ring_ok_def shed_reset_def)

lemma shed_has_slots: "ring_ok r \<Longrightarrow> shed_has r x \<longleftrightarrow> Some x \<in> set (shed_slots r)"
  by (fastforce simp: ring_ok_def shed_has_def shed_slots_def slot_mark_def image_iff)

interpretation shed: mark_fifo_remove ring_ok shed_has shed_add shed_slots sr_cap shed_remove
  by unfold_locales
    (simp_all add: ring_ok_add shed_has_slots shed_slots_add ring_ok_remove,
     auto simp: ring_ok_def shed_slots_def slot_mark_def shed_remove_def)

section \<open>The guard\<close>

definition guard_ok :: "guard \<Rightarrow> bool" where
  "guard_ok g \<longleftrightarrow> ring_ok (gd_shed g) \<and> 1 \<le> gd_budget g \<and> 0 \<le> gd_entries g \<and> 0 \<le> gd_parsed g"

lemma roll_fields [simp]:
  "gd_budget (roll g now) = gd_budget g" "gd_shed (roll g now) = gd_shed g"
  "gd_shedN (roll g now) = gd_shedN g" "gd_droppedN (roll g now) = gd_droppedN g"
  by (simp_all add: roll_def)

lemma roll_counts:
  "gd_entries (roll g now) = (if rolls g now then 0 else gd_entries g)"
  "gd_parsed (roll g now) = (if rolls g now then 0 else gd_parsed g)"
  "gd_windowStart (roll g now) = (if rolls g now then now else gd_windowStart g)"
  by (simp_all add: roll_def)

text \<open>The ring after an \<open>Admit\<close>, whose three rules for a line with an id are the branches.\<close>

lemma admit_shed:
  "gd_shed (fst (admit g now l tr)) =
     (if \<not> ln_HasLogID l then gd_shed g
      else if shed_has (gd_shed g) (ln_LogID l) \<and> ln_Event l \<noteq> EventInboundFrom then gd_shed g
      else let r = (if shed_has (gd_shed g) (ln_LogID l)
                    then shed_remove (gd_shed g) (ln_LogID l) else gd_shed g)
           in if \<not> tr \<and> gd_parsed (roll g now) + 1 > gd_budget g then shed_add r (ln_LogID l) else r)"
  by (simp add: admit_def Let_def)

lemma sheds_admit:
  "sheds g (OpAdmit now l tr) \<longleftrightarrow>
     ln_HasLogID l \<and> \<not> (shed_has (gd_shed g) (ln_LogID l) \<and> ln_Event l \<noteq> EventInboundFrom) \<and>
     \<not> tr \<and> gd_parsed (roll g now) + 1 > gd_budget g"
  by (auto simp: sheds_def admit_def Let_def split: if_splits)

lemma admit_result:
  "snd (admit g now l tr) \<longleftrightarrow>
     (if \<not> ln_HasLogID l then gd_parsed (roll g now) + 1 \<le> gd_budget g
      else \<not> (shed_has (gd_shed g) (ln_LogID l) \<and> ln_Event l \<noteq> EventInboundFrom) \<and>
        (tr \<or> gd_parsed (roll g now) + 1 \<le> gd_budget g))"
  by (auto simp: admit_def Let_def)

lemma admit_fields [simp]:
  "gd_budget (fst (admit g now l tr)) = gd_budget g"
  "gd_entries (fst (admit g now l tr)) = gd_entries (roll g now)"
  "gd_parsed (fst (admit g now l tr)) = gd_parsed (roll g now) + 1"
  "gd_windowStart (fst (admit g now l tr)) = gd_windowStart (roll g now)"
  by (simp_all add: admit_def Let_def)

lemma ceiling_fields [simp]:
  "gd_budget (fst (ceiling_check g now)) = gd_budget g"
  "gd_entries (fst (ceiling_check g now)) = gd_entries (roll g now) + 1"
  "gd_parsed (fst (ceiling_check g now)) = gd_parsed (roll g now)"
  "gd_windowStart (fst (ceiling_check g now)) = gd_windowStart (roll g now)"
  "gd_shed (fst (ceiling_check g now)) = gd_shed g"
  by (simp_all add: ceiling_check_def Let_def)

lemma other_fields [simp]:
  "gd_shed (setBudget g n) = gd_shed g" "gd_entries (setBudget g n) = gd_entries g"
  "gd_parsed (setBudget g n) = gd_parsed g" "gd_windowStart (setBudget g n) = gd_windowStart g"
  "gd_shed (fst (guard_take g)) = gd_shed g" "gd_entries (fst (guard_take g)) = gd_entries g"
  "gd_parsed (fst (guard_take g)) = gd_parsed g" "gd_budget (fst (guard_take g)) = gd_budget g"
  "gd_windowStart (fst (guard_take g)) = gd_windowStart g"
  "gd_shed (guard_reset g) = shed_reset (gd_shed g)"
  "gd_entries (guard_reset g) = gd_entries g" "gd_parsed (guard_reset g) = gd_parsed g"
  "gd_budget (guard_reset g) = gd_budget g" "gd_windowStart (guard_reset g) = gd_windowStart g"
  by (simp_all add: setBudget_def guard_take_def guard_reset_def)

lemma guard_ok_new: "c < 2 ^ 63 \<Longrightarrow> guard_ok (new_guard b c)"
  by (auto simp: guard_ok_def new_guard_def setBudget_def Let_def DefaultRingCapacity_def
      nat_less_iff intro!: ring_ok_new)

lemma guard_ok_step: "guard_ok g \<Longrightarrow> guard_ok (guard_step g op)"
  by (cases op)
    (auto simp: guard_ok_def admit_shed Let_def roll_counts ring_ok_add ring_ok_remove
      ring_ok_reset setBudget_def)

interpretation guard_run: invariant_run guard_step guard_ok
  by unfold_locales (rule guard_ok_step)

lemma guard_step_cap: "sr_cap (gd_shed (guard_step g op)) = sr_cap (gd_shed g)"
  by (cases op) (auto simp: admit_shed Let_def shed_remove_def shed_reset_def)

lemma guard_run_cap: "sr_cap (gd_shed (foldl guard_step g ops)) = sr_cap (gd_shed g)"
  by (induction ops arbitrary: g) (simp_all add: guard_step_cap)

lemma new_guard_cap:
  "sr_cap (gd_shed (new_guard b c)) = (if c < 1 then DefaultRingCapacity else nat c)"
  by (simp add: new_guard_def setBudget_def newShedRing_def Let_def)

subsection \<open>A shed connection stays shed\<close>

lemma room_step:
  assumes ok: "guard_ok g"
    and room: "mark_room (shed_slots (gd_shed g)) (sr_cap (gd_shed g))
      ((if sheds g op then 1 else 0) + n) x"
    and keep: "\<not> reopens x op"
  shows "mark_room (shed_slots (gd_shed (guard_step g op))) (sr_cap (gd_shed g)) n x"
proof (cases op)
  case op: (OpAdmit now l tr)
  let ?r = "gd_shed g" and ?y = "ln_LogID l"
  have r: "ring_ok ?r" using ok by (simp add: guard_ok_def)
  have hx: "shed_has ?r x" using shed.room_has [OF r room] .
  show ?thesis
  proof (cases "\<not> ln_HasLogID l \<or> shed_has ?r ?y \<and> ln_Event l \<noteq> EventInboundFrom")
    case True
    then show ?thesis
      using mark_room_weaken [OF room, of n] by (auto simp: op admit_shed split: if_splits)
  next
    case False
    with keep hx have y: "x \<noteq> ?y" by (auto simp: op)
    define r' where "r' = (if shed_has ?r ?y then shed_remove ?r ?y else ?r)"
    have r': "ring_ok r'" "\<not> shed_has r' ?y" "sr_cap r' = sr_cap ?r"
      using r by (auto simp: r'_def shed.has_remove ring_ok_remove shed.capacity_remove)
    have room': "mark_room (shed_slots r') (sr_cap r') ((if sheds g op then 1 else 0) + n) x"
      using room r y by (auto simp: r'_def shed.capacity_remove intro: shed.room_remove)
    have eq: "gd_shed (guard_step g op) = (if sheds g op then shed_add r' ?y else r')"
      using False by (auto simp: op admit_shed sheds_admit r'_def Let_def)
    show ?thesis
      using room' r' shed.room_add [OF r'(1,2), of n x] by (auto simp: eq)
  qed
qed (use keep room in \<open>auto simp: sheds_def\<close>)

lemma room_run:
  "guard_ok g \<Longrightarrow>
    mark_room (shed_slots (gd_shed g)) (sr_cap (gd_shed g)) (shed_count g ops) x \<Longrightarrow>
    \<forall>op \<in> set ops. \<not> reopens x op \<Longrightarrow> shed_has (gd_shed (foldl guard_step g ops)) x"
proof (induction ops arbitrary: g)
  case Nil
  then show ?case by (simp add: guard_ok_def shed.room_has)
next
  case (Cons op ops)
  then show ?case
    using room_step [of g op "shed_count (guard_step g op) ops" x]
    by (simp add: guard_ok_step guard_step_cap)
qed

lemma room_sheds:
  assumes ok: "guard_ok g" and s: "sheds g (OpAdmit now l tr)"
  shows "mark_room (shed_slots (gd_shed (guard_step g (OpAdmit now l tr))))
    (sr_cap (gd_shed g)) (sr_cap (gd_shed g) - 1) (ln_LogID l)"
proof -
  let ?r = "gd_shed g" and ?y = "ln_LogID l"
  define r' where "r' = (if shed_has ?r ?y then shed_remove ?r ?y else ?r)"
  have r: "ring_ok ?r" using ok by (simp add: guard_ok_def)
  then have r': "ring_ok r'" "\<not> shed_has r' ?y" "sr_cap r' = sr_cap ?r"
    by (auto simp: r'_def shed.has_remove ring_ok_remove shed.capacity_remove)
  have "gd_shed (guard_step g (OpAdmit now l tr)) = shed_add r' ?y"
    using s by (auto simp: admit_shed sheds_admit r'_def Let_def)
  then show ?thesis using shed.room_added [OF r'(1,2)] r'(3) by simp
qed

subsection \<open>One window\<close>

lemma in_window_no_roll:
  "gd_windowStart g = w \<Longrightarrow> w \<noteq> 0 \<Longrightarrow> w \<le> t \<Longrightarrow> t < w + second \<Longrightarrow> \<not> rolls g t"
  using time_sub_ge_iff [of second t w] by (simp add: rolls_def)

lemma in_window_step:
  assumes "gd_windowStart g = w" "w \<noteq> 0" "in_window w op"
  shows "gd_windowStart (guard_step g op) = w" "gd_budget (guard_step g op) = gd_budget g"
    "gd_entries (guard_step g op) = gd_entries g + (case op of OpCeiling t \<Rightarrow> 1 | _ \<Rightarrow> 0)"
    "gd_parsed (guard_step g op) = gd_parsed g + (case op of OpAdmit t l tr \<Rightarrow> 1 | _ \<Rightarrow> 0)"
proof -
  have "\<not> rolls g t" if "op = OpCeiling t \<or> (\<exists>l tr. op = OpAdmit t l tr)" for t
    using that assms(3) by (intro in_window_no_roll [OF assms(1,2)]) auto
  note no_roll = this [OF disjI1] this [OF disjI2]
  show "gd_windowStart (guard_step g op) = w" "gd_budget (guard_step g op) = gd_budget g"
    "gd_entries (guard_step g op) = gd_entries g + (case op of OpCeiling t \<Rightarrow> 1 | _ \<Rightarrow> 0)"
    "gd_parsed (guard_step g op) = gd_parsed g + (case op of OpAdmit t l tr \<Rightarrow> 1 | _ \<Rightarrow> 0)"
    using assms(1,3) no_roll by (cases op; simp add: roll_counts)+
qed

lemma ceiling_in_window:
  assumes "gd_windowStart g = w" "w \<noteq> 0" "\<forall>op \<in> set ops. in_window w op" "gd_budget g < 2 ^ 61"
    "0 \<le> gd_budget g"
  shows "int (passed_ceiling g ops) \<le> max 0 (4 * gd_budget g - gd_entries g)"
  using assms
proof (induction ops arbitrary: g)
  case (Cons op ops)
  have w: "in_window w op" using Cons.prems by simp
  note st = in_window_step [OF Cons.prems(1,2) w]
  have IH: "int (passed_ceiling (guard_step g op) ops)
      \<le> max 0 (4 * gd_budget g - gd_entries (guard_step g op))"
    using Cons.IH [of "guard_step g op"] Cons.prems st by simp
  show ?case
  proof (cases op)
    case op: (OpCeiling t)
    have "wrap64 (gd_budget g * HardCeilingFactor) = 4 * gd_budget g"
      using Cons.prems by (simp add: HardCeilingFactor_def wrap64_id mult.commute)
    moreover have "\<not> rolls g t" using Cons.prems w op in_window_no_roll by auto
    ultimately have "snd (ceiling_check g t) \<longleftrightarrow> gd_entries g + 1 \<le> 4 * gd_budget g"
      by (auto simp: ceiling_check_def Let_def roll_def)
    with IH st(3) show ?thesis by (auto simp: op)
  qed (use IH st(3) in auto)
qed simp

lemma untracked_in_window:
  assumes "gd_windowStart g = w" "w \<noteq> 0" "\<forall>op \<in> set ops. in_window w op"
  shows "int (kept_untracked g ops) \<le> max 0 (gd_budget g - gd_parsed g)"
  using assms
proof (induction ops arbitrary: g)
  case (Cons op ops)
  have w: "in_window w op" using Cons.prems by simp
  note st = in_window_step [OF Cons.prems(1,2) w]
  have IH: "int (kept_untracked (guard_step g op) ops)
      \<le> max 0 (gd_budget g - gd_parsed (guard_step g op))"
    using Cons.IH [of "guard_step g op"] Cons.prems st by simp
  show ?case
  proof (cases op)
    case op: (OpAdmit t l tr)
    have "\<not> rolls g t" using Cons.prems w op in_window_no_roll by auto
    then have "(\<not> tr \<or> \<not> ln_HasLogID l) \<and> snd (admit g t l tr) \<longrightarrow> gd_parsed g + 1 \<le> gd_budget g"
      by (auto simp: admit_result roll_counts split: if_splits)
    with IH st(4) show ?thesis by (auto simp: op)
  qed (use IH st(4) in auto)
qed simp

lemma guard_step_counts:
  "op \<noteq> OpTake \<Longrightarrow> gd_shedN (guard_step g op) = gd_shedN g + (if sheds g op then 1 else 0)"
  "op \<noteq> OpTake \<Longrightarrow> gd_droppedN (guard_step g op) = gd_droppedN g + (if drops_line g op then 1 else 0)"
  by (cases op; auto simp: sheds_def drops_line_def setBudget_def guard_reset_def
      ceiling_check_def admit_def Let_def)+

section \<open>Properties\<close>

text \<open>
  Memory of the guard. After any sequence of calls on a new guard, at most as many ids are
  marked as shed as the ring was built for, and the ring itself holds no more slots.
\<close>

theorem guard_memory_bounded:
  assumes "c < 2 ^ 63" "g = foldl guard_step (new_guard b c) ops"
    "k = (if c < 1 then DefaultRingCapacity else nat c)"
  shows "finite {x. shed_has (gd_shed g) x} \<and> card {x. shed_has (gd_shed g) x} \<le> k
    \<and> length (sr_ring (gd_shed g)) \<le> k"
proof -
  have ok: "ring_ok (gd_shed g)"
    using guard_run.run_inv [OF guard_ok_new] assms by (simp add: guard_ok_def)
  have "sr_cap (gd_shed g) = k"
    using assms by (simp add: guard_run_cap new_guard_cap)
  with ok show ?thesis
    using shed.marks_bounded [OF ok] shed.slots_bounded [OF ok] by simp
qed

theorem guard_memory_bounded_witness:
  "card {x. shed_has (gd_shed (foldl guard_step (new_guard 1 2)
     [OpAdmit 5 (blank_line 5 [] [] \<lparr>ln_HasLogID := True, ln_LogID := 7\<rparr>) False])) x} \<le> 2"
  using guard_memory_bounded [of 2 _ 1 "[OpAdmit 5 (blank_line 5 [] []
      \<lparr>ln_HasLogID := True, ln_LogID := 7\<rparr>) False]", OF _ refl refl] by simp

text \<open>
  A connection is shed for its lifetime. Once a line of an id is shed, every later line of
  that id is rejected, without being counted as another connection, until a new connection
  reuses the id, the guard is reset, or as many further connections were shed as the ring has
  slots. In particular overwriting an old slot of the same id never clears the newer mark.
\<close>

theorem shed_for_its_lifetime:
  assumes "1 \<le> c" "c < 2 ^ 63"
    and "g = foldl guard_step (new_guard b c) pre"
    and "sheds g (OpAdmit now l tr)"
    and "g1 = guard_step g (OpAdmit now l tr)"
    and "\<forall>op \<in> set ops. \<not> reopens (ln_LogID l) op"
    and "int (shed_count g1 ops) < c"
    and "g2 = foldl guard_step g1 ops"
    and "ln_HasLogID l2" "ln_LogID l2 = ln_LogID l" "ln_Event l2 \<noteq> EventInboundFrom"
  shows "\<not> snd (admit g2 now2 l2 tr2) \<and> gd_shedN (fst (admit g2 now2 l2 tr2)) = gd_shedN g2"
proof -
  have ok: "guard_ok g" using guard_run.run_inv [OF guard_ok_new] assms by simp
  then have ok1: "guard_ok g1" using assms by (simp add: guard_ok_step del: guard_step.simps)
  have cap: "sr_cap (gd_shed g) = nat c" "sr_cap (gd_shed g1) = nat c"
    using assms by (simp_all add: guard_step_cap guard_run_cap new_guard_cap del: guard_step.simps)
  have "mark_room (shed_slots (gd_shed g1)) (nat c) (nat c - 1) (ln_LogID l)"
    using room_sheds [OF ok assms(4)] cap assms(5) by simp
  moreover have "shed_count g1 ops \<le> nat c - 1" using assms(7) by linarith
  ultimately have "mark_room (shed_slots (gd_shed g1)) (sr_cap (gd_shed g1)) (shed_count g1 ops) (ln_LogID l)"
    unfolding cap(2) by (rule mark_room_weaken)
  from room_run [OF ok1 this assms(6)] have "shed_has (gd_shed g2) (ln_LogID l2)"
    using assms(8,10) by simp
  then show ?thesis using assms(9,11) by (simp add: admit_def Let_def)
qed

definition shed_line :: "32 word \<Rightarrow> event \<Rightarrow> log_line" where
  "shed_line x e = blank_line 5 [] [] \<lparr>ln_HasLogID := True, ln_LogID := x, ln_Event := e\<rparr>"

lemmas shed_eval = shed_line_def blank_line_def sheds_def admit_def Let_def roll_def rolls_def
  new_guard_def setBudget_def newShedRing_def shed_has_def shed_add_def shed_remove_def
  ceiling_check_def HardCeilingFactor_def wrap64_def time_sub_def

theorem shed_for_its_lifetime_witness:
  "\<not> snd (admit (foldl guard_step
       (guard_step (foldl guard_step (new_guard 1 2) [OpAdmit 5 (shed_line 1 EventInboundFrom) False])
          (OpAdmit 6 (shed_line 7 EventInboundFrom) False))
       [OpAdmit 7 (shed_line 8 EventInboundFrom) False])
     9000000000 (shed_line 7 EventFinished) False)"
  using shed_for_its_lifetime [of 2 _ 1 "[OpAdmit 5 (shed_line 1 EventInboundFrom) False]" 6
      "shed_line 7 EventInboundFrom" False _ "[OpAdmit 7 (shed_line 8 EventInboundFrom) False]" _
      "shed_line 7 EventFinished" 9000000000 False, OF _ _ refl _ refl _ _ refl]
  by (simp add: shed_eval)

text \<open>
  The budget of one second. From the call that opens a window on, and while the clock stays
  in it, at most four times the budget of entries pass the ceiling, and at most as many lines
  of connections the assembler does not hold (and of lines without an id) are kept as the
  budget allows.
\<close>

theorem budget_per_window:
  assumes "c < 2 ^ 63" "g = foldl guard_step (new_guard b c) pre" "gd_budget g < 2 ^ 61"
    and "rolls g w" "w \<noteq> 0" "\<forall>op \<in> set ops. in_window w op"
  shows "int (passed_ceiling (roll g w) ops) \<le> 4 * gd_budget g
    \<and> int (kept_untracked (roll g w) ops) \<le> gd_budget g"
proof -
  have "guard_ok g" using guard_run.run_inv [OF guard_ok_new] assms by simp
  then have "1 \<le> gd_budget g" by (simp add: guard_ok_def)
  then show ?thesis
    using ceiling_in_window [of "roll g w" w ops] untracked_in_window [of "roll g w" w ops] assms
    by (simp add: roll_counts)
qed

theorem budget_per_window_witness:
  "int (passed_ceiling (roll (new_guard 1 2) 5) (replicate 6 (OpCeiling 6))) \<le> 4"
  using budget_per_window [of 2 _ 1 "[]" 5 "replicate 6 (OpCeiling 6)", OF _ refl]
  by (simp add: shed_eval)

text \<open>
  Accounting of the guard. Between two \<open>Take\<close> calls the counter of shed connections grows by
  exactly the number of connections shed and the counter of dropped lines by exactly the
  number of lines cut without regard to their connection, modulo the width of the counters;
  \<open>Take\<close> then reports both and starts again from zero.
\<close>

theorem guard_accounts:
  assumes "\<forall>op \<in> set ops. op \<noteq> OpTake" "g' = foldl guard_step g ops"
  shows "guard_take g' =
    (g'\<lparr>gd_shedN := 0, gd_droppedN := 0\<rparr>, gd_shedN g + word_of_nat (shed_count g ops),
     gd_droppedN g + word_of_nat (drop_count g ops))"
proof -
  have "gd_shedN (foldl guard_step g ops) = gd_shedN g + word_of_nat (shed_count g ops)
    \<and> gd_droppedN (foldl guard_step g ops) = gd_droppedN g + word_of_nat (drop_count g ops)"
    using assms(1)
    by (induction ops arbitrary: g) (simp_all add: guard_step_counts algebra_simps)
  with assms(2) show ?thesis by (simp add: guard_take_def)
qed

theorem guard_accounts_witness:
  "snd (guard_take (foldl guard_step (new_guard 1 2)
     [OpAdmit 5 (shed_line 1 EventInboundFrom) False, OpAdmit 6 (shed_line 7 EventInboundFrom) False]))
   = (1, 0)"
  using guard_accounts [of "[OpAdmit 5 (shed_line 1 EventInboundFrom) False,
      OpAdmit 6 (shed_line 7 EventInboundFrom) False]" _ "new_guard 1 2", OF _ refl]
  by (simp add: shed_eval drops_line_def)

end
