(* ===== verification/Session_Asm.thy ===== *)
theory Session_Asm
  imports Bounded_Marks Sdk_Types Singbox_Log "HOL-Library.AList"
begin

text \<open>
  The connection assembler, \<open>internal/sessionasm/sessionasm.go\<close>. The assembler's three indexes
  (\<open>open\<close> by log id, \<open>order\<close> by age, \<open>bySrc\<close> by source address) hold pointers to shared,
  mutable connections. The model keeps them as references into a store \<^verbatim>\<open>as_heap\<close>, so that
  the agreement of the indexes is a theorem and not built in. \<open>open\<close>, whose size the code
  reads, is an association list. An element of \<open>container/list\<close> is identified with the
  reference it carries; \<^verbatim>\<open>cn_elem\<close> says whether the connection still has one.

  Every method runs under the assembler's mutex, so it is a function on the whole state. The
  clock \<open>opts.Now\<close> is read at most once in a call and is an argument of it.
\<close>

section \<open>Definitions\<close>

subsection \<open>Constants and types\<close>

definition defaultMaxOpen :: int where "defaultMaxOpen = 4096"
definition defaultOrphanTTL :: duration where "defaultOrphanTTL = 10 * minute"
definition defaultSnapshotEvery :: duration where "defaultSnapshotEvery = 60 * second"
definition defaultStallFloor :: duration where "defaultStallFloor = 60 * second"
definition defaultStallQuiet :: duration where "defaultStallQuiet = 30 * second"
definition defaultHalfCloseGrace :: duration where "defaultHalfCloseGrace = 2 * second"
definition snapshotStartSkew :: duration where "snapshotStartSkew = 30 * second"

record asm_options =
  op_NodeID :: string
  op_CoreGeneration :: "64 word"
  op_MaxOpen :: int
  op_OrphanTTL :: duration
  op_SnapshotEvery :: duration
  op_StallFloor :: duration
  op_StallQuiet :: duration
  op_HalfCloseGrace :: duration

record asm_stats =
  st_Open :: int
  st_Emitted :: "64 word"
  st_Swept :: "64 word"
  st_Orphaned :: "64 word"
  st_Partial :: "64 word"
  st_Dropped :: "64 word"

record snapshot_item =
  si_SrcIP :: string
  si_SrcPort :: string
  si_DstHost :: string
  si_DstPort :: string
  si_InboundType :: string
  si_InboundTag :: string
  si_Network :: string
  si_Upload :: int
  si_Download :: int
  si_Rule :: string
  si_Chains :: "string list"
  si_Start :: gotime

record snapshot =
  sn_At :: gotime
  sn_Items :: "snapshot_item list"

record close_candidate =
  cc_reason :: close_reason
  cc_err :: string
  cc_rank :: nat

definition rankNone :: nat where "rankNone = 0"
definition rankSoft :: nat where "rankSoft = 1"
definition rankEOF :: nat where "rankEOF = 2"
definition rankError :: nat where "rankError = 3"
definition rankTerminal :: nat where "rankTerminal = 4"

record conn =
  cn_rec :: conn_record
  cn_lastSeenAt :: gotime
  cn_lastElapsedMS :: int
  cn_haveOutbound :: bool
  cn_closedUp :: bool
  cn_closedDown :: bool
  cn_close :: close_candidate
  cn_firstHalfAt :: gotime
  cn_sampled :: bool
  cn_lastSnapAt :: gotime
  cn_lastByteChangeAt :: gotime
  cn_lastSnapSeq :: "64 word"
  cn_sessions :: "string list"
  cn_lastEmitAt :: gotime
  cn_srcKey :: string
  cn_elem :: bool

record conn_context =
  cx_User :: string
  cx_DstHost :: string
  cx_InboundTag :: string
  cx_Known :: bool

subsection \<open>The set of finished ids\<close>

record done_set =
  ds_ids :: "32 word \<Rightarrow> bool"
  ds_ring :: "32 word list"
  ds_cap :: nat
  ds_pos :: nat

definition newDoneSet :: "int \<Rightarrow> done_set" where
  "newDoneSet capacity =
     (let capacity = (if capacity < 1 then 1 else capacity)
      in \<lparr>ds_ids = (\<lambda>_. False), ds_ring = [], ds_cap = nat capacity, ds_pos = 0\<rparr>)"

definition done_add :: "done_set \<Rightarrow> 32 word \<Rightarrow> done_set" where
  "done_add d i =
     (if ds_ids d i then d
      else let d = (if length (ds_ring d) < ds_cap d then d\<lparr>ds_ring := ds_ring d @ [i]\<rparr>
                    else d\<lparr>ds_ids := (ds_ids d)(ds_ring d ! ds_pos d := False),
                           ds_ring := (ds_ring d)[ds_pos d := i],
                           ds_pos := (ds_pos d + 1) mod ds_cap d\<rparr>)
           in d\<lparr>ds_ids := (ds_ids d)(i := True)\<rparr>)"

definition done_has :: "done_set \<Rightarrow> 32 word \<Rightarrow> bool" where
  "done_has d i \<longleftrightarrow> ds_ids d i"

definition done_reset :: "done_set \<Rightarrow> done_set" where
  "done_reset d = d\<lparr>ds_ids := (\<lambda>_. False), ds_ring := [], ds_pos := 0\<rparr>"

subsection \<open>The assembler\<close>

record assembler =
  as_opts :: asm_options
  as_gen :: "64 word"
  as_heap :: "nat \<rightharpoonup> conn"
  as_next :: nat
  as_open :: "(32 word \<times> nat) list"
  as_order :: "nat list"
  as_bySrc :: "string \<rightharpoonup> nat"
  as_done :: done_set
  as_out :: "conn_record list"
  as_stats :: asm_stats
  as_snapSeq :: "64 word"

definition new_assembler :: "asm_options \<Rightarrow> assembler" where
  "new_assembler opts =
     (let opts = opts
        \<lparr>op_MaxOpen := (if op_MaxOpen opts \<le> 0 then defaultMaxOpen else op_MaxOpen opts),
         op_OrphanTTL := (if op_OrphanTTL opts \<le> 0 then defaultOrphanTTL else op_OrphanTTL opts),
         op_SnapshotEvery :=
           (if op_SnapshotEvery opts \<le> 0 then defaultSnapshotEvery else op_SnapshotEvery opts),
         op_StallFloor := (if op_StallFloor opts \<le> 0 then defaultStallFloor else op_StallFloor opts),
         op_StallQuiet := (if op_StallQuiet opts \<le> 0 then defaultStallQuiet else op_StallQuiet opts),
         op_HalfCloseGrace :=
           (if op_HalfCloseGrace opts \<le> 0 then defaultHalfCloseGrace else op_HalfCloseGrace opts)\<rparr>
      in \<lparr>as_opts = opts, as_gen = op_CoreGeneration opts, as_heap = Map.empty, as_next = 0,
          as_open = [], as_order = [], as_bySrc = Map.empty,
          as_done = newDoneSet (op_MaxOpen opts), as_out = [],
          as_stats = \<lparr>st_Open = 0, st_Emitted = 0, st_Swept = 0, st_Orphaned = 0,
                      st_Partial = 0, st_Dropped = 0\<rparr>,
          as_snapSeq = 0\<rparr>)"

text \<open>The zero value of the struct \<open>conn\<close>, also what reading a dangling reference gives.\<close>

definition no_close :: close_candidate where
  "no_close = \<lparr>cc_reason = CloseUnset, cc_err = [], cc_rank = rankNone\<rparr>"

definition zero_conn :: conn where
  "zero_conn =
     \<lparr>cn_rec = zero_conn_record, cn_lastSeenAt = 0, cn_lastElapsedMS = 0,
      cn_haveOutbound = False, cn_closedUp = False, cn_closedDown = False, cn_close = no_close,
      cn_firstHalfAt = 0, cn_sampled = False, cn_lastSnapAt = 0, cn_lastByteChangeAt = 0,
      cn_lastSnapSeq = 0, cn_sessions = [], cn_lastEmitAt = 0, cn_srcKey = [],
      cn_elem = False\<rparr>"

definition conn_at :: "assembler \<Rightarrow> nat \<Rightarrow> conn" where
  "conn_at a r = (case as_heap a r of None \<Rightarrow> zero_conn | Some c \<Rightarrow> c)"

definition put_conn :: "assembler \<Rightarrow> nat \<Rightarrow> conn \<Rightarrow> assembler" where
  "put_conn a r c = a\<lparr>as_heap := (as_heap a)(r \<mapsto> c)\<rparr>"

definition upd_conn :: "assembler \<Rightarrow> nat \<Rightarrow> (conn \<Rightarrow> conn) \<Rightarrow> assembler" where
  "upd_conn a r f = put_conn a r (f (conn_at a r))"

definition upd_rec :: "(conn_record \<Rightarrow> conn_record) \<Rightarrow> conn \<Rightarrow> conn" where
  "upd_rec f c = c\<lparr>cn_rec := f (cn_rec c)\<rparr>"

subsection \<open>Small helpers\<close>

definition is_hex_byte :: "char \<Rightarrow> bool" where
  "is_hex_byte c \<longleftrightarrow> is_digit c \<or> CHR ''a'' \<le> c \<and> c \<le> CHR ''f''"

definition managedUserName :: "string \<Rightarrow> bool" where
  "managedUserName s \<longleftrightarrow> has_prefix s ''u_'' \<and> length s = 18 \<and> list_all is_hex_byte (drop 2 s)"

definition closeReasonFor :: "string \<Rightarrow> close_reason \<Rightarrow> close_reason" where
  "closeReasonFor errText whenEmpty =
     (if trim_space errText = [] then whenEmpty
      else let low = to_lower errText in
        if str_contains low ''reset by peer'' then CloseReset
        else if str_contains low ''i/o timeout'' \<or> str_contains low ''deadline exceeded''
        then CloseTimeout
        else if str_contains low ''handshake'' then CloseHandshakeFailed
        else if str_contains low ''eof'' then CloseEOF
        else CloseUnknown)"

definition evidenceRank :: "string \<Rightarrow> close_reason \<Rightarrow> nat" where
  "evidenceRank errText whenEmpty =
     (if trim_space errText \<noteq> [] then rankError
      else if whenEmpty = CloseEOF then rankEOF else rankSoft)"

definition networkOf :: "log_line \<Rightarrow> string" where
  "networkOf l =
     (if ln_Event l \<in> {EventInboundFrom, EventInboundTo, EventOutboundTo, EventFinished,
         EventClosed, EventConnectionClosed, EventDialFailed}
      then (if ln_Packet l then ''udp'' else ''tcp'') else [])"

definition sameHost :: "string \<Rightarrow> string \<Rightarrow> bool" where
  "sameHost a b \<longleftrightarrow>
     \<not> (a = [] \<or> b = []) \<and> equal_fold (trim_suffix a ''.'') (trim_suffix b ''.'')"

definition srcKey :: "string \<Rightarrow> string \<Rightarrow> string" where
  "srcKey ip port = (if ip = [] then [] else ip @ ''|'' @ port)"

definition atoiPort :: "string \<Rightarrow> int" where
  "atoiPort s = (case parse_int (trim_space s) of None \<Rightarrow> 0 | Some n \<Rightarrow> n)"

definition millis :: "duration \<Rightarrow> int" where
  "millis d = (if d \<le> 0 then 0 else go_div d millisecond)"

subsection \<open>Ending a connection\<close>

datatype durationSource = durFromCore | durFromClock

definition push :: "assembler \<Rightarrow> conn_record \<Rightarrow> assembler" where
  "push a rc = a\<lparr>as_out := as_out a @ [rc],
                 as_stats := (as_stats a)\<lparr>st_Emitted := st_Emitted (as_stats a) + 1\<rparr>\<rparr>"

definition forget :: "assembler \<Rightarrow> nat \<Rightarrow> assembler" where
  "forget a r =
     (let c = conn_at a r;
          a = a\<lparr>as_open := AList.delete (rec_LogID (cn_rec c)) (as_open a)\<rparr>;
          a = (if cn_elem c
               then put_conn (a\<lparr>as_order := remove1 r (as_order a)\<rparr>) r (c\<lparr>cn_elem := False\<rparr>)
               else a)
      in if cn_srcKey c \<noteq> [] \<and> as_bySrc a (cn_srcKey c) = Some r
         then a\<lparr>as_bySrc := (as_bySrc a)(cn_srcKey c := None)\<rparr> else a)"

definition final_record ::
  "assembler \<Rightarrow> conn \<Rightarrow> close_candidate \<Rightarrow> gotime \<Rightarrow> durationSource \<Rightarrow> conn_record" where
  "final_record a c cand endedAt src =
     (cn_rec c)
       \<lparr>rec_SessionIDs := cn_sessions c, rec_Open := False, rec_EndedAt := endedAt,
        rec_CoreGeneration := as_gen a,
        rec_CloseReason := (if cc_reason cand = CloseUnset then CloseUnknown else cc_reason cand),
        rec_CloseError := cc_err cand,
        rec_DurationMS :=
          (case src of durFromClock \<Rightarrow> millis (time_sub endedAt (rec_StartedAt (cn_rec c)))
           | durFromCore \<Rightarrow> cn_lastElapsedMS c)\<rparr>"

definition finish ::
  "assembler \<Rightarrow> nat \<Rightarrow> close_candidate \<Rightarrow> gotime \<Rightarrow> durationSource \<Rightarrow> assembler" where
  "finish a r cand endedAt src =
     (let rc = final_record a (conn_at a r) cand endedAt src;
          a = forget a r;
          a = a\<lparr>as_done := done_add (as_done a) (rec_LogID rc)\<rparr>
      in if rec_SrcIP rc = [] \<and> rec_DstHost rc = []
         then a\<lparr>as_stats := (as_stats a)\<lparr>st_Partial := st_Partial (as_stats a) + 1\<rparr>\<rparr>
         else push a rc)"

definition evictOldest :: "assembler \<Rightarrow> assembler" where
  "evictOldest a =
     (case as_order a of
        [] \<Rightarrow> a
      | r # _ \<Rightarrow>
          (let i = rec_LogID (cn_rec (conn_at a r));
               a = forget a r;
               a = a\<lparr>as_done := done_add (as_done a) i\<rparr>
           in a\<lparr>as_stats := (as_stats a)\<lparr>st_Dropped := st_Dropped (as_stats a) + 1\<rparr>\<rparr>))"

definition indexSrc :: "assembler \<Rightarrow> nat \<Rightarrow> assembler" where
  "indexSrc a r =
     (let c = conn_at a r in
      if rec_SrcIP (cn_rec c) = [] then a
      else let key = srcKey (rec_SrcIP (cn_rec c)) (itoa (rec_SrcPort (cn_rec c)));
               a = (if cn_srcKey c \<noteq> [] \<and> cn_srcKey c \<noteq> key \<and> as_bySrc a (cn_srcKey c) = Some r
                    then a\<lparr>as_bySrc := (as_bySrc a)(cn_srcKey c := None)\<rparr> else a);
               a = put_conn a r (c\<lparr>cn_srcKey := key\<rparr>)
           in a\<lparr>as_bySrc := (as_bySrc a)(key \<mapsto> r)\<rparr>)"

subsection \<open>Lines\<close>

definition create :: "assembler \<Rightarrow> log_line \<Rightarrow> gotime \<Rightarrow> assembler \<times> nat" where
  "create a l at =
     (let a = (if int (length (as_open a)) \<ge> op_MaxOpen (as_opts a) then evictOldest a else a);
          started = at + wrap64 (wrap64 (- ln_ElapsedMS l) * millisecond);
          kind = (if ln_Event l = EventInboundFrom \<or> ln_Event l = EventInboundTo
                  then UserKindUnnamed else UserKindUnobserved);
          c = zero_conn
            \<lparr>cn_rec := zero_conn_record
               \<lparr>rec_NodeID := op_NodeID (as_opts a), rec_LogID := ln_LogID l,
                rec_Network := networkOf l, rec_StartedAt := started, rec_UserKind := kind\<rparr>,
             cn_lastSeenAt := at, cn_lastElapsedMS := ln_ElapsedMS l, cn_lastEmitAt := started,
             cn_elem := True\<rparr>;
          r = as_next a
      in (a\<lparr>as_heap := (as_heap a)(r \<mapsto> c), as_next := Suc r,
            as_open := AList.update (ln_LogID l) r (as_open a),
            as_order := as_order a @ [r]\<rparr>, r))"

definition offer :: "close_candidate \<Rightarrow> conn \<Rightarrow> conn" where
  "offer cand c = (if cc_rank cand > cc_rank (cn_close c) then c\<lparr>cn_close := cand\<rparr> else c)"

definition halfClosed :: "assembler \<Rightarrow> nat \<Rightarrow> log_line \<Rightarrow> gotime \<Rightarrow> assembler" where
  "halfClosed a r l at =
     (let c = conn_at a r;
          c = (if cn_firstHalfAt c = 0 then c\<lparr>cn_firstHalfAt := at\<rparr> else c);
          c = (case ln_Direction l of
                 DirectionUpload \<Rightarrow> c\<lparr>cn_closedUp := True\<rparr>
               | DirectionDownload \<Rightarrow> c\<lparr>cn_closedDown := True\<rparr>
               | DirectionNone \<Rightarrow> (if \<not> cn_closedUp c then c\<lparr>cn_closedUp := True\<rparr>
                                   else c\<lparr>cn_closedDown := True\<rparr>));
          a = put_conn a r c
      in if cn_closedUp c \<and> cn_closedDown c then finish a r (cn_close c) at durFromCore else a)"

definition note_network :: "log_line \<Rightarrow> conn_record \<Rightarrow> conn_record" where
  "note_network l rc = (if rec_Network rc = [] then rc\<lparr>rec_Network := networkOf l\<rparr> else rc)"

definition note_inbound_tag :: "log_line \<Rightarrow> conn_record \<Rightarrow> conn_record" where
  "note_inbound_tag l rc =
     (if ln_TagKind l = TagInbound then
        let rc = (if rec_InboundTag rc = [] then rc\<lparr>rec_InboundTag := ln_TagName l\<rparr> else rc)
        in if rec_InboundType rc = [] then rc\<lparr>rec_InboundType := ln_TagType l\<rparr> else rc
      else rc)"

definition note_line :: "log_line \<Rightarrow> gotime \<Rightarrow> conn \<Rightarrow> conn" where
  "note_line l at c =
     (let c = c\<lparr>cn_lastSeenAt := at\<rparr>;
          c = (if ln_ElapsedMS l > cn_lastElapsedMS c then c\<lparr>cn_lastElapsedMS := ln_ElapsedMS l\<rparr>
               else c)
      in upd_rec (note_inbound_tag l) (upd_rec (note_network l) c))"

definition note_inbound_to :: "log_line \<Rightarrow> conn_record \<Rightarrow> conn_record" where
  "note_inbound_to l rc =
     (let rc = (if ln_DstHost l \<noteq> []
                then rc\<lparr>rec_DstHost := ln_DstHost l, rec_DstPort := ln_DstPort l\<rparr> else rc);
          rc = (if ln_Packet l then rc\<lparr>rec_Network := ''udp''\<rparr> else rc)
      in if ln_User l \<noteq> []
         then rc\<lparr>rec_UserName := ln_User l,
                 rec_UserKind := (if managedUserName (ln_User l) then UserKindManaged
                                  else UserKindLegacy)\<rparr>
         else rc)"

definition note_rule :: "log_line \<Rightarrow> conn_record \<Rightarrow> conn_record" where
  "note_rule l rc =
     (if ln_Action l \<noteq> ''sniff'' then
        let rc = (if ln_HasRule l then rc\<lparr>rec_RuleIndex := ln_RuleIndex l\<rparr> else rc);
            rc = (if ln_RuleText l \<noteq> [] then rc\<lparr>rec_RuleText := ln_RuleText l\<rparr> else rc)
        in if ln_Outbound l \<noteq> [] \<and> rec_OutboundTag rc = []
           then rc\<lparr>rec_OutboundTag := ln_Outbound l\<rparr> else rc
      else rc)"

definition note_outbound :: "log_line \<Rightarrow> conn_record \<Rightarrow> conn_record" where
  "note_outbound l rc =
     (let rc = rc\<lparr>rec_OutboundTag := ln_TagName l, rec_OutboundType := ln_TagType l\<rparr>
      in if rec_DstHost rc = [] \<and> ln_DstHost l \<noteq> []
         then rc\<lparr>rec_DstHost := ln_DstHost l, rec_DstPort := ln_DstPort l\<rparr> else rc)"

definition note_dns :: "log_line \<Rightarrow> conn_record \<Rightarrow> conn_record" where
  "note_dns l rc =
     (if rec_DstIP rc = [] \<and> ln_DNSResult l \<noteq> [] \<and> sameHost (ln_DNSDomain l) (rec_DstHost rc)
      then rc\<lparr>rec_DstIP := hd (ln_DNSResult l)\<rparr> else rc)"

definition note_dial_failed :: "log_line \<Rightarrow> conn_record \<Rightarrow> conn_record" where
  "note_dial_failed l rc =
     (let rc = (if rec_OutboundTag rc = [] then rc\<lparr>rec_OutboundTag := ln_OutboundName l\<rparr> else rc)
      in if rec_OutboundType rc = [] then rc\<lparr>rec_OutboundType := ln_OutboundType l\<rparr> else rc)"

definition terminal :: "close_reason \<Rightarrow> string \<Rightarrow> close_candidate" where
  "terminal reason e = \<lparr>cc_reason = reason, cc_err = e, cc_rank = rankTerminal\<rparr>"

definition half_candidate :: "string \<Rightarrow> close_reason \<Rightarrow> close_candidate" where
  "half_candidate e whenEmpty =
     \<lparr>cc_reason = closeReasonFor e whenEmpty, cc_err = e, cc_rank = evidenceRank e whenEmpty\<rparr>"

definition apply_line :: "assembler \<Rightarrow> nat \<Rightarrow> log_line \<Rightarrow> gotime \<Rightarrow> assembler" where
  "apply_line a r l at =
     (if ln_Event l = EventOutboundTo \<and> cn_haveOutbound (conn_at a r)
      then upd_conn a r (\<lambda>c. c\<lparr>cn_lastSeenAt := at\<rparr>)
      else
        let a = upd_conn a r (note_line l at) in
        case ln_Event l of
          EventInboundFrom \<Rightarrow>
            indexSrc (upd_conn a r (upd_rec (\<lambda>rc.
              rc\<lparr>rec_SrcIP := ln_SrcIP l, rec_SrcPort := ln_SrcPort l\<rparr>))) r
        | EventInboundTo \<Rightarrow> upd_conn a r (upd_rec (note_inbound_to l))
        | EventRuleMatch \<Rightarrow> upd_conn a r (upd_rec (note_rule l))
        | EventSniffed \<Rightarrow>
            upd_conn a r (upd_rec (\<lambda>rc.
              rc\<lparr>rec_SniffedProtocol := ln_SniffProtocol l, rec_SniffedDomain := ln_SniffDomain l\<rparr>))
        | EventOutboundTo \<Rightarrow>
            upd_conn a r (\<lambda>c. upd_rec (note_outbound l) (c\<lparr>cn_haveOutbound := True\<rparr>))
        | EventDNS \<Rightarrow> upd_conn a r (upd_rec (note_dns l))
        | EventDialFailed \<Rightarrow>
            finish (upd_conn a r (upd_rec (note_dial_failed l))) r
              (terminal CloseDialFailed (ln_Error l)) at durFromCore
        | EventAuthFailed \<Rightarrow> finish a r (terminal CloseAuthFailed (ln_Error l)) at durFromCore
        | EventHandshakeFailed \<Rightarrow>
            finish a r (terminal CloseHandshakeFailed (ln_Error l)) at durFromCore
        | EventConnectionClosed \<Rightarrow>
            finish a r (terminal (closeReasonFor (ln_Error l) CloseEOF) (ln_Error l)) at durFromCore
        | EventFinished \<Rightarrow>
            halfClosed (upd_conn a r (offer (half_candidate (ln_Error l) CloseEOF))) r l at
        | EventClosed \<Rightarrow>
            halfClosed (upd_conn a r (offer (half_candidate (ln_Error l)
              (if ln_Packet l then CloseUDPIdle else CloseCanceled)))) r l at
        | EventOther \<Rightarrow> a)"

definition collision :: close_candidate where
  "collision = terminal CloseUnknown ''log id collision: a new connection reused this log id''"

definition asm_line :: "assembler \<Rightarrow> gotime \<Rightarrow> log_line \<Rightarrow> assembler" where
  "asm_line a clk l =
     (if \<not> ln_HasLogID l then a
      else
        let at = (if ln_At l = 0 then clk else ln_At l) in
        if ln_Event l = EventInboundFrom then
          let a = (case map_of (as_open a) (ln_LogID l) of
                     Some r \<Rightarrow> finish a r collision at durFromCore
                   | None \<Rightarrow> a);
              (a, r) = create a l at
          in apply_line a r l at
        else
          case map_of (as_open a) (ln_LogID l) of
            Some r \<Rightarrow> apply_line a r l at
          | None \<Rightarrow>
              (if done_has (as_done a) (ln_LogID l) then a
               else let (a, r) = create a l at in apply_line a r l at))"

subsection \<open>Snapshots of the connection table\<close>

definition evalStall :: "gotime \<Rightarrow> duration \<Rightarrow> duration \<Rightarrow> conn \<Rightarrow> conn" where
  "evalStall now floor quiet c =
     (if \<not> cn_sampled c then c
      else if rec_StalledAt (cn_rec c) \<noteq> 0 then c
      else if time_sub now (rec_StartedAt (cn_rec c)) \<le> floor then c
      else if time_sub (cn_lastSnapAt c) (cn_lastByteChangeAt c) < quiet then c
      else upd_rec (\<lambda>rc. rc\<lparr>rec_StalledAt := cn_lastByteChangeAt c\<rparr>) c)"

definition join_bytes :: "64 word \<Rightarrow> snapshot_item \<Rightarrow> gotime \<Rightarrow> conn \<Rightarrow> conn" where
  "join_bytes snapSeq item at c =
     (let c = (if \<not> cn_sampled c \<or> si_Upload item \<noteq> rec_Upload (cn_rec c)
                  \<or> si_Download item \<noteq> rec_Download (cn_rec c)
               then upd_rec (\<lambda>rc. rc\<lparr>rec_StalledAt := 0\<rparr>) (c\<lparr>cn_lastByteChangeAt := at\<rparr>) else c);
          c = upd_rec (\<lambda>rc. rc\<lparr>rec_Upload := si_Upload item, rec_Download := si_Download item,
                              rec_BytesKnown := True\<rparr>) c
      in c\<lparr>cn_sampled := True, cn_lastSnapAt := at, cn_lastSnapSeq := snapSeq,
           cn_lastSeenAt := at\<rparr>)"

definition join_fields :: "snapshot_item \<Rightarrow> conn_record \<Rightarrow> conn_record" where
  "join_fields item rc =
     (let rc = (if rec_InboundType rc = [] then rc\<lparr>rec_InboundType := si_InboundType item\<rparr> else rc);
          rc = (if rec_InboundTag rc = [] then rc\<lparr>rec_InboundTag := si_InboundTag item\<rparr> else rc);
          rc = (if rec_RuleText rc = [] then rc\<lparr>rec_RuleText := si_Rule item\<rparr> else rc);
          rc = (if rec_Network rc = [] then rc\<lparr>rec_Network := si_Network item\<rparr> else rc);
          rc = (if rec_DstHost rc = [] \<and> si_DstHost item \<noteq> []
                then rc\<lparr>rec_DstHost := si_DstHost item, rec_DstPort := atoiPort (si_DstPort item)\<rparr>
                else rc)
      in if rec_OutboundTag rc = [] \<and> si_Chains item \<noteq> []
         then rc\<lparr>rec_OutboundTag := hd (si_Chains item)\<rparr> else rc)"

definition join :: "assembler \<Rightarrow> nat \<Rightarrow> snapshot_item \<Rightarrow> gotime \<Rightarrow> assembler" where
  "join a r item at =
     upd_conn a r (\<lambda>c.
       evalStall at (op_StallFloor (as_opts a)) (op_StallQuiet (as_opts a))
         (upd_rec (join_fields item) (join_bytes (as_snapSeq a) item at c)))"

definition snapshot_item_step :: "gotime \<Rightarrow> assembler \<Rightarrow> snapshot_item \<Rightarrow> assembler" where
  "snapshot_item_step at a item =
     (case as_bySrc a (srcKey (si_SrcIP item) (si_SrcPort item)) of
        None \<Rightarrow> a
      | Some r \<Rightarrow>
          (if si_Start item \<noteq> 0 \<and>
              si_Start item < rec_StartedAt (cn_rec (conn_at a r)) + - snapshotStartSkew
           then a else join a r item at))"

definition stillListed :: "assembler \<Rightarrow> conn \<Rightarrow> bool" where
  "stillListed a c \<longleftrightarrow> cn_sampled c \<and> cn_lastSnapSeq c \<ge> as_snapSeq a"

definition vanished :: close_candidate where
  "vanished = terminal CloseUnknown
     ''connection left the sing-box connection table without a close line''"

definition sweep_step :: "gotime \<Rightarrow> assembler \<Rightarrow> nat \<Rightarrow> assembler" where
  "sweep_step at a r =
     (let c = conn_at a r in
      if cn_sampled c \<and> cn_lastSnapSeq c < as_snapSeq a then
        (if cc_rank (cn_close c) = rankNone then finish a r vanished at durFromClock
         else finish a r (cn_close c) at durFromCore)
      else a)"

text \<open>
  The loops over \<open>order\<close> fetch the next element before the current one may be removed, and a
  step removes no other element, so they visit the list as it was at the start.
\<close>

definition sweepVanished :: "assembler \<Rightarrow> gotime \<Rightarrow> assembler" where
  "sweepVanished a at = foldl (sweep_step at) a (as_order a)"

definition asm_snapshot :: "assembler \<Rightarrow> gotime \<Rightarrow> snapshot \<Rightarrow> assembler" where
  "asm_snapshot a clk s =
     (let at = (if sn_At s = 0 then clk else sn_At s);
          a = a\<lparr>as_snapSeq := as_snapSeq a + 1\<rparr>;
          a = foldl (snapshot_item_step at) a (sn_Items s)
      in sweepVanished a at)"

subsection \<open>The clock\<close>

definition emitOpen :: "assembler \<Rightarrow> nat \<Rightarrow> gotime \<Rightarrow> assembler" where
  "emitOpen a r now =
     (let c = conn_at a r;
          rc = (cn_rec c)
            \<lparr>rec_SessionIDs := cn_sessions c, rec_Open := True, rec_CoreGeneration := as_gen a,
             rec_CloseReason := CloseUnknown,
             rec_DurationMS := millis (time_sub now (rec_StartedAt (cn_rec c)))\<rparr>
      in push (upd_conn a r (\<lambda>c. c\<lparr>cn_lastEmitAt := now\<rparr>)) rc)"

definition orphan_candidate :: "conn \<Rightarrow> close_candidate" where
  "orphan_candidate c =
     terminal CloseUnknown
       (if cc_err (cn_close c) = [] then ''no further log lines for this connection''
        else cc_err (cn_close c))"

definition half_expired :: "assembler \<Rightarrow> gotime \<Rightarrow> conn \<Rightarrow> bool" where
  "half_expired a now c \<longleftrightarrow>
     cn_firstHalfAt c \<noteq> 0 \<and> time_sub now (cn_firstHalfAt c) \<ge> op_HalfCloseGrace (as_opts a)
     \<and> \<not> stillListed a c"

definition tick_step :: "gotime \<Rightarrow> assembler \<Rightarrow> nat \<Rightarrow> assembler" where
  "tick_step now a r =
     (let c = conn_at a r in
      if half_expired a now c then finish a r (cn_close c) (cn_firstHalfAt c) durFromCore
      else if time_sub now (cn_lastSeenAt c) \<ge> op_OrphanTTL (as_opts a) then
        finish (a\<lparr>as_stats := (as_stats a)\<lparr>st_Orphaned := st_Orphaned (as_stats a) + 1\<rparr>\<rparr>) r
          (orphan_candidate c) now durFromCore
      else
        let a = upd_conn a r (evalStall now (op_StallFloor (as_opts a)) (op_StallQuiet (as_opts a)))
        in if time_sub now (cn_lastEmitAt (conn_at a r)) \<ge> op_SnapshotEvery (as_opts a)
           then emitOpen a r now else a)"

definition asm_tick :: "assembler \<Rightarrow> gotime \<Rightarrow> gotime \<Rightarrow> assembler" where
  "asm_tick a clk now =
     (let now = (if now = 0 then clk else now) in foldl (tick_step now) a (as_order a))"

definition coreRestart :: "assembler \<Rightarrow> gotime \<Rightarrow> 64 word \<Rightarrow> gotime \<Rightarrow> assembler" where
  "coreRestart a clk newGeneration at =
     (let at = (if at = 0 then clk else at);
          swept = word_of_nat (length (as_order a));
          a = foldl (\<lambda>a r. finish a r (terminal CloseCoreRestart []) at durFromClock) a (as_order a)
      in a\<lparr>as_stats := (as_stats a)\<lparr>st_Swept := st_Swept (as_stats a) + swept\<rparr>,
           as_done := done_reset (as_done a), as_gen := newGeneration\<rparr>)"

subsection \<open>What callers read and mark\<close>

definition drain :: "assembler \<Rightarrow> assembler \<times> conn_record list" where
  "drain a = (a\<lparr>as_out := []\<rparr>, as_out a)"

definition stats_of :: "assembler \<Rightarrow> asm_stats" where
  "stats_of a = (as_stats a)\<lparr>st_Open := int (length (as_open a))\<rparr>"

definition conn_context_of :: "assembler \<Rightarrow> 32 word \<Rightarrow> conn_context" where
  "conn_context_of a i =
     (case map_of (as_open a) i of
        None \<Rightarrow> \<lparr>cx_User = [], cx_DstHost = [], cx_InboundTag = [], cx_Known = False\<rparr>
      | Some r \<Rightarrow>
          (let rc = cn_rec (conn_at a r)
           in \<lparr>cx_User = rec_UserName rc, cx_DstHost = rec_DstHost rc,
               cx_InboundTag = rec_InboundTag rc, cx_Known = True\<rparr>))"

definition tracked :: "assembler \<Rightarrow> 32 word \<Rightarrow> bool" where
  "tracked a i \<longleftrightarrow> map_of (as_open a) i \<noteq> None \<or> done_has (as_done a) i"

definition add_session :: "string list \<Rightarrow> string \<Rightarrow> string list" where
  "add_session ss i = (if i = [] \<or> i \<in> set ss then ss else ss @ [i])"

definition tag_conn :: "assembler \<Rightarrow> 32 word \<Rightarrow> string list \<Rightarrow> assembler" where
  "tag_conn a i sessionIDs =
     (if sessionIDs = [] then a
      else case map_of (as_open a) i of
             None \<Rightarrow> a
           | Some r \<Rightarrow> upd_conn a r (\<lambda>c.
               c\<lparr>cn_sessions := sort (foldl add_session (cn_sessions c) sessionIDs)\<rparr>))"

subsection \<open>Runs\<close>

datatype asm_op =
    AsmLine gotime log_line
  | AsmSnapshot gotime snapshot
  | AsmTick gotime gotime
  | AsmRestart gotime "64 word" gotime
  | AsmDrain
  | AsmTag "32 word" "string list"

text \<open>A run also collects what \<open>Drain\<close> handed out.\<close>

fun asm_step :: "assembler \<times> conn_record list \<Rightarrow> asm_op \<Rightarrow> assembler \<times> conn_record list" where
  "asm_step (a, h) (AsmLine clk l) = (asm_line a clk l, h)"
| "asm_step (a, h) (AsmSnapshot clk s) = (asm_snapshot a clk s, h)"
| "asm_step (a, h) (AsmTick clk now) = (asm_tick a clk now, h)"
| "asm_step (a, h) (AsmRestart clk gen at) = (coreRestart a clk gen at, h)"
| "asm_step (a, h) AsmDrain = (let (a, out) = drain a in (a, h @ out))"
| "asm_step (a, h) (AsmTag i ss) = (tag_conn a i ss, h)"

end
