(* ===== verification/Session_Asm_Invariant.thy ===== *)
theory Session_Asm_Invariant
  imports Session_Asm
begin

text \<open>
  The invariant of the assembler and that every operation keeps it. It says that the indexes
  agree (\<^verbatim>\<open>idx_ok\<close>), what holds of each tracked connection (\<^verbatim>\<open>conn_ok\<close>) and of each emitted
  record (\<^verbatim>\<open>record_ok\<close>), that no connection is lost from the books (\<^verbatim>\<open>books\<close>), and, for one
  chosen connection, how long its id is known as finished (\<^verbatim>\<open>kept\<close>). The set of finished ids is
  an instance of the contract of \<^verbatim>\<open>mark_fifo\<close>; the three loops over the tracked connections are
  instances of the contract \<^verbatim>\<open>order_loop\<close>.
\<close>

section \<open>The set of finished ids\<close>

definition done_ok :: "done_set \<Rightarrow> bool" where
  "done_ok d \<longleftrightarrow>
     0 < ds_cap d \<and> length (ds_ring d) \<le> ds_cap d \<and>
     (if length (ds_ring d) < ds_cap d then ds_pos d = 0 else ds_pos d < ds_cap d) \<and>
     distinct (ds_ring d) \<and> (\<forall>i. ds_ids d i \<longleftrightarrow> i \<in> set (ds_ring d))"

definition done_slots :: "done_set \<Rightarrow> 32 word option list" where
  "done_slots d = map Some (rotate (ds_pos d) (ds_ring d))"

lemma rotate_done_add:
  assumes "done_ok d" "\<not> done_has d x"
  shows "rotate (ds_pos (done_add d x)) (ds_ring (done_add d x)) =
    (if length (ds_ring d) < ds_cap d then rotate (ds_pos d) (ds_ring d)
     else tl (rotate (ds_pos d) (ds_ring d))) @ [x]"
proof (cases "length (ds_ring d) < ds_cap d")
  case True
  with assms show ?thesis by (simp add: done_add_def done_has_def Let_def done_ok_def)
next
  case False
  with assms have "length (ds_ring d) = ds_cap d" "ds_pos d < length (ds_ring d)"
    by (auto simp: done_ok_def split: if_splits)
  with False assms show ?thesis
    using rotate_overwrite [of "ds_pos d" "ds_ring d" x]
    by (simp add: done_add_def done_has_def Let_def)
qed

lemma done_ok_add:
  assumes ok: "done_ok d"
  shows "done_ok (done_add d x)"
proof (cases "ds_ids d x")
  case True
  with ok show ?thesis by (simp add: done_add_def)
next
  case new: False
  let ?S = "rotate (ds_pos d) (ds_ring d)" and ?d = "done_add d x"
  let ?T = "rotate (ds_pos ?d) (ds_ring ?d)"
  have T: "?T = (if length (ds_ring d) < ds_cap d then ?S else tl ?S) @ [x]"
    using rotate_done_add [OF ok] new by (simp add: done_has_def)
  have x: "x \<notin> set ?S" and dS: "distinct ?S" using ok new by (auto simp: done_ok_def)
  have "distinct ?T" unfolding T using x dS by (cases ?S) auto
  moreover have "ds_ids ?d i \<longleftrightarrow> i \<in> set ?T" for i
  proof (cases "length (ds_ring d) < ds_cap d")
    case True
    then show ?thesis unfolding T using ok new by (auto simp: done_add_def Let_def done_ok_def)
  next
    case False
    then have old: "ds_ring d ! ds_pos d = hd ?S" "?S \<noteq> []"
      using ok by (auto simp: done_ok_def hd_rotate_nth split: if_splits)
    have ids: "ds_ids ?d = (ds_ids d)(hd ?S := False, x := True)"
      using new False old by (simp add: done_add_def Let_def)
    have mem: "ds_ids d i \<longleftrightarrow> i \<in> set ?S" using ok by (simp add: done_ok_def)
    obtain y S' where S: "?S = y # S'" using old by (cases ?S) auto
    show ?thesis
      using False x dS ids mem unfolding T S by auto
  qed
  moreover have "if length (ds_ring ?d) < ds_cap d then ds_pos ?d = 0 else ds_pos ?d < ds_cap d"
    "length (ds_ring ?d) \<le> ds_cap d" "ds_cap ?d = ds_cap d"
    using ok new by (auto simp: done_add_def Let_def done_ok_def)
  ultimately show ?thesis using ok by (simp add: done_ok_def)
qed

lemma done_ok_new: "done_ok (newDoneSet n)"
  by (simp add: done_ok_def newDoneSet_def Let_def)

lemma done_ok_reset: "done_ok d \<Longrightarrow> done_ok (done_reset d)"
  by (simp add: done_ok_def done_reset_def)

lemma done_cap_add [simp]: "ds_cap (done_add d x) = ds_cap d"
  by (simp add: done_add_def Let_def)

interpretation dones: mark_fifo done_ok done_has done_add done_slots ds_cap
proof unfold_locales
  show "done_has d x \<longleftrightarrow> Some x \<in> set (done_slots d)" if "done_ok d" for d x
    using that by (auto simp: done_ok_def done_has_def done_slots_def)
  show "done_slots (done_add d x) =
      (if length (done_slots d) < ds_cap d then done_slots d else tl (done_slots d)) @ [Some x]"
    if "done_ok d" "\<not> done_has d x" for d x
    using rotate_done_add [OF that] by (simp add: done_slots_def map_tl)
qed (auto simp: done_ok_add, auto simp: done_ok_def done_slots_def)

section \<open>The indexes\<close>

definition idx_ok :: "assembler \<Rightarrow> bool" where
  "idx_ok a \<longleftrightarrow>
     distinct (map fst (as_open a)) \<and> distinct (as_order a) \<and>
     (\<forall>i r. map_of (as_open a) i = Some r \<longrightarrow>
        r \<in> set (as_order a) \<and> rec_LogID (cn_rec (conn_at a r)) = i) \<and>
     (\<forall>r \<in> set (as_order a). as_heap a r \<noteq> None \<and> cn_elem (conn_at a r) \<and>
        map_of (as_open a) (rec_LogID (cn_rec (conn_at a r))) = Some r) \<and>
     (\<forall>k r. as_bySrc a k = Some r \<longrightarrow>
        k \<noteq> [] \<and> r \<in> set (as_order a) \<and> cn_srcKey (conn_at a r) = k) \<and>
     (\<forall>r. as_heap a r \<noteq> None \<longrightarrow> r < as_next a)"

lemma conn_at_put [simp]: "conn_at (put_conn a r c) r' = (if r' = r then c else conn_at a r')"
  by (simp add: conn_at_def put_conn_def)

lemma put_conn_fields [simp]:
  "as_opts (put_conn a r c) = as_opts a" "as_gen (put_conn a r c) = as_gen a"
  "as_next (put_conn a r c) = as_next a" "as_open (put_conn a r c) = as_open a"
  "as_order (put_conn a r c) = as_order a" "as_bySrc (put_conn a r c) = as_bySrc a"
  "as_done (put_conn a r c) = as_done a" "as_out (put_conn a r c) = as_out a"
  "as_stats (put_conn a r c) = as_stats a" "as_snapSeq (put_conn a r c) = as_snapSeq a"
  "as_heap (put_conn a r c) = (as_heap a)(r \<mapsto> c)"
  by (simp_all add: put_conn_def)

lemma conn_at_cong: "as_heap a r = as_heap b r \<Longrightarrow> conn_at a r = conn_at b r"
  by (simp add: conn_at_def)

lemma idx_okD:
  assumes "idx_ok a"
  shows "distinct (map fst (as_open a))" "distinct (as_order a)"
    "map_of (as_open a) i = Some r \<Longrightarrow> r \<in> set (as_order a)"
    "map_of (as_open a) i = Some r \<Longrightarrow> rec_LogID (cn_rec (conn_at a r)) = i"
    "r \<in> set (as_order a) \<Longrightarrow> as_heap a r \<noteq> None"
    "r \<in> set (as_order a) \<Longrightarrow> cn_elem (conn_at a r)"
    "r \<in> set (as_order a) \<Longrightarrow> map_of (as_open a) (rec_LogID (cn_rec (conn_at a r))) = Some r"
    "as_bySrc a k = Some r \<Longrightarrow> k \<noteq> []"
    "as_bySrc a k = Some r \<Longrightarrow> r \<in> set (as_order a)"
    "as_bySrc a k = Some r \<Longrightarrow> cn_srcKey (conn_at a r) = k"
    "as_heap a r \<noteq> None \<Longrightarrow> r < as_next a"
    "r \<in> set (as_order a) \<Longrightarrow> r < as_next a"
  using assms unfolding idx_ok_def by auto

lemma idx_okI:
  assumes "distinct (map fst (as_open a))" "distinct (as_order a)"
    "\<And>i r. map_of (as_open a) i = Some r \<Longrightarrow>
       r \<in> set (as_order a) \<and> rec_LogID (cn_rec (conn_at a r)) = i"
    "\<And>r. r \<in> set (as_order a) \<Longrightarrow> as_heap a r \<noteq> None \<and> cn_elem (conn_at a r) \<and>
        map_of (as_open a) (rec_LogID (cn_rec (conn_at a r))) = Some r"
    "\<And>k r. as_bySrc a k = Some r \<Longrightarrow>
        k \<noteq> [] \<and> r \<in> set (as_order a) \<and> cn_srcKey (conn_at a r) = k"
    "\<And>r. as_heap a r \<noteq> None \<Longrightarrow> r < as_next a"
  shows "idx_ok a"
  using assms unfolding idx_ok_def by blast

lemma idx_length:
  assumes "idx_ok a"
  shows "length (as_open a) = length (as_order a)"
proof -
  let ?id = "\<lambda>r. rec_LogID (cn_rec (conn_at a r))"
  note D = idx_okD [OF assms]
  have "inj_on ?id (set (as_order a))"
    by (rule inj_on_inverseI [where g = "\<lambda>i. the (map_of (as_open a) i)"]) (simp add: D(7))
  moreover have "?id ` set (as_order a) = set (map fst (as_open a))"
  proof (intro equalityI subsetI)
    show "i \<in> set (map fst (as_open a))" if "i \<in> ?id ` set (as_order a)" for i
      using that D(7) by (force dest: map_of_SomeD)
    show "i \<in> ?id ` set (as_order a)" if "i \<in> set (map fst (as_open a))" for i
    proof -
      from that obtain r where "map_of (as_open a) i = Some r"
        using map_of_eq_None_iff [of "as_open a" i] by auto
      then show ?thesis using D(3,4) by force
    qed
  qed
  ultimately have "card (set (as_order a)) = card (set (map fst (as_open a)))"
    using card_image by metis
  then show ?thesis
    using distinct_card [OF D(1)] distinct_card [OF D(2)] by simp
qed

text \<open>A change of a live connection that leaves its keys alone.\<close>

definition keeps_keys :: "(conn \<Rightarrow> conn) \<Rightarrow> bool" where
  "keeps_keys f \<longleftrightarrow>
     (\<forall>c. rec_LogID (cn_rec (f c)) = rec_LogID (cn_rec c) \<and> cn_elem (f c) = cn_elem c \<and>
          cn_srcKey (f c) = cn_srcKey c)"

lemma upd_conn_fields [simp]:
  "as_opts (upd_conn a r f) = as_opts a" "as_gen (upd_conn a r f) = as_gen a"
  "as_next (upd_conn a r f) = as_next a" "as_open (upd_conn a r f) = as_open a"
  "as_order (upd_conn a r f) = as_order a" "as_bySrc (upd_conn a r f) = as_bySrc a"
  "as_done (upd_conn a r f) = as_done a" "as_out (upd_conn a r f) = as_out a"
  "as_stats (upd_conn a r f) = as_stats a" "as_snapSeq (upd_conn a r f) = as_snapSeq a"
  "as_heap (upd_conn a r f) = (as_heap a)(r \<mapsto> f (conn_at a r))"
  "conn_at (upd_conn a r f) r' = (if r' = r then f (conn_at a r) else conn_at a r')"
  by (simp_all add: upd_conn_def)

lemma idx_upd:
  assumes ok: "idx_ok a" and r: "r \<in> set (as_order a)" and f: "keeps_keys f"
  shows "idx_ok (upd_conn a r f)"
  using idx_okD [OF ok] r f by (intro idx_okI) (auto simp: keeps_keys_def split: if_splits)

text \<open>Forgetting a connection removes it from every index and touches no other one.\<close>

lemma forget_fields [simp]:
  "as_opts (forget a r) = as_opts a" "as_gen (forget a r) = as_gen a"
  "as_next (forget a r) = as_next a" "as_done (forget a r) = as_done a"
  "as_out (forget a r) = as_out a" "as_stats (forget a r) = as_stats a"
  "as_snapSeq (forget a r) = as_snapSeq a"
  "as_open (forget a r) = AList.delete (rec_LogID (cn_rec (conn_at a r))) (as_open a)"
  by (simp_all add: forget_def Let_def)

lemma forget_conn:
  "conn_at (forget a r) r' =
     (if r' = r \<and> cn_elem (conn_at a r) then (conn_at a r)\<lparr>cn_elem := False\<rparr> else conn_at a r')"
  by (simp add: forget_def Let_def conn_at_def put_conn_def)

lemma forget_order: "idx_ok a \<Longrightarrow> r \<in> set (as_order a) \<Longrightarrow> as_order (forget a r) = remove1 r (as_order a)"
  by (simp add: forget_def Let_def idx_okD(6))

lemma forget_bySrc:
  "as_bySrc (forget a r) k =
     (if k = cn_srcKey (conn_at a r) \<and> k \<noteq> [] \<and> as_bySrc a k = Some r then None else as_bySrc a k)"
  by (auto simp: forget_def Let_def)

lemma forget_heap: "as_heap (forget a r) r' \<noteq> None \<Longrightarrow> as_heap a r' \<noteq> None \<or> r' = r \<and> cn_elem (conn_at a r)"
  "as_heap a r' \<noteq> None \<Longrightarrow> as_heap (forget a r) r' \<noteq> None"
  by (auto simp: forget_def Let_def split: if_splits)

lemma idx_forget:
  assumes ok: "idx_ok a" and r: "r \<in> set (as_order a)"
  shows "idx_ok (forget a r)"
proof (rule idx_okI)
  note D = idx_okD [OF ok]
  have ord: "set (as_order (forget a r)) = set (as_order a) - {r}"
    using D(2) by (simp add: forget_order [OF ok r] set_remove1_eq)
  show "distinct (map fst (as_open (forget a r)))" using D(1) by (simp add: distinct_delete)
  show "distinct (as_order (forget a r))" using D(2) by (simp add: forget_order [OF ok r])
  show "r' \<in> set (as_order (forget a r)) \<and> rec_LogID (cn_rec (conn_at (forget a r) r')) = i"
    if "map_of (as_open (forget a r)) i = Some r'" for i r'
  proof -
    from that have i: "map_of (as_open a) i = Some r'" "i \<noteq> rec_LogID (cn_rec (conn_at a r))"
      by (auto simp: delete_conv' split: if_splits)
    then have "r' \<noteq> r" using D(4) by auto
    with i D(3,4) show ?thesis by (simp add: ord forget_conn)
  qed
  show "as_heap (forget a r) r' \<noteq> None \<and> cn_elem (conn_at (forget a r) r') \<and>
      map_of (as_open (forget a r)) (rec_LogID (cn_rec (conn_at (forget a r) r'))) = Some r'"
    if "r' \<in> set (as_order (forget a r))" for r'
  proof -
    from that have r': "r' \<in> set (as_order a)" "r' \<noteq> r" by (auto simp: ord)
    then have "rec_LogID (cn_rec (conn_at a r')) \<noteq> rec_LogID (cn_rec (conn_at a r))"
      using D(7) [OF r'(1)] D(7) [OF r] by auto
    with r' D(5,6,7) show ?thesis by (simp add: forget_conn delete_conv' forget_heap(2))
  qed
  show "k \<noteq> [] \<and> r' \<in> set (as_order (forget a r)) \<and> cn_srcKey (conn_at (forget a r) r') = k"
    if "as_bySrc (forget a r) k = Some r'" for k r'
    using that D(8,9,10) by (auto simp: forget_bySrc ord forget_conn split: if_splits)
  show "r' < as_next (forget a r)" if "as_heap (forget a r) r' \<noteq> None" for r'
    using forget_heap(1) [OF that] D(11,12) r by auto
qed

section \<open>What is kept of a connection\<close>

fun user_named :: "user_kind \<Rightarrow> string \<Rightarrow> bool" where
  "user_named UserKindManaged n \<longleftrightarrow> n \<noteq> [] \<and> managedUserName n"
| "user_named UserKindLegacy n \<longleftrightarrow> n \<noteq> [] \<and> \<not> managedUserName n"
| "user_named _ n \<longleftrightarrow> n = []"

definition user_ok :: "conn_record \<Rightarrow> bool" where
  "user_ok rc \<longleftrightarrow> user_named (rec_UserKind rc) (rec_UserName rc)"

definition bytes_ok :: "conn_record \<Rightarrow> bool" where
  "bytes_ok rc \<longleftrightarrow>
     (\<not> rec_BytesKnown rc \<longrightarrow> rec_Upload rc = 0 \<and> rec_Download rc = 0 \<and> rec_StalledAt rc = 0)"

definition sessions_ok :: "string list \<Rightarrow> bool" where
  "sessions_ok ss \<longleftrightarrow> sorted ss \<and> distinct ss \<and> [] \<notin> set ss"

definition base_ok :: "string \<Rightarrow> conn_record \<Rightarrow> bool" where
  "base_ok nid rc \<longleftrightarrow> rec_NodeID rc = nid \<and> user_ok rc \<and> bytes_ok rc"

definition conn_ok :: "string \<Rightarrow> conn \<Rightarrow> bool" where
  "conn_ok nid c \<longleftrightarrow>
     base_ok nid (cn_rec c) \<and> rec_BytesKnown (cn_rec c) = cn_sampled c \<and>
     rec_EndedAt (cn_rec c) = 0 \<and>
     (rec_StalledAt (cn_rec c) \<noteq> 0 \<longrightarrow> rec_StalledAt (cn_rec c) = cn_lastByteChangeAt c) \<and>
     sessions_ok (cn_sessions c) \<and>
     (cc_reason (cn_close c) = CloseUnset \<longleftrightarrow> cc_rank (cn_close c) = rankNone) \<and>
     (cn_firstHalfAt c \<noteq> 0 \<or> cn_closedUp c \<or> cn_closedDown c \<longrightarrow> cc_rank (cn_close c) \<noteq> rankNone)"

definition record_ok :: "string \<Rightarrow> conn_record \<Rightarrow> bool" where
  "record_ok nid rc \<longleftrightarrow>
     base_ok nid rc \<and> sessions_ok (rec_SessionIDs rc) \<and> rec_CloseReason rc \<noteq> CloseUnset \<and>
     (rec_Open rc \<longrightarrow> rec_CloseReason rc = CloseUnknown \<and> rec_EndedAt rc = 0) \<and>
     (\<not> rec_Open rc \<longrightarrow> rec_SrcIP rc \<noteq> [] \<or> rec_DstHost rc \<noteq> [])"

text \<open>Every connection ever tracked is open, published, counted as partial, or counted as dropped.\<close>

definition books :: "conn_record list \<Rightarrow> assembler \<Rightarrow> bool" where
  "books h a \<longleftrightarrow>
     word_of_nat (as_next a) =
       word_of_nat (length (as_open a)) +
       word_of_nat (length (filter (\<lambda>rc. \<not> rec_Open rc) (h @ as_out a))) +
       st_Partial (as_stats a) + st_Dropped (as_stats a) \<and>
     st_Emitted (as_stats a) = word_of_nat (length (h @ as_out a))"

text \<open>
  How many tracked connections have ended. And what is remembered of a connection that was
  open, with an id not yet known as finished, when \<open>e0\<close> connections had ended: either it is
  still open, or its id is known as finished until \<open>e0 + cap\<close> connections have ended.
\<close>

definition asm_ended :: "assembler \<Rightarrow> nat" where
  "asm_ended a = as_next a - length (as_open a)"

fun remembers :: "(nat \<times> 32 word) option \<Rightarrow> nat \<Rightarrow> (32 word \<rightharpoonup> nat) \<Rightarrow> done_set \<Rightarrow> bool" where
  "remembers None e m d \<longleftrightarrow> True"
| "remembers (Some (e0, x)) e m d \<longleftrightarrow>
     e0 \<le> e \<and> m x \<noteq> None \<and> \<not> done_has d x \<or>
     (e \<le> e0 + ds_cap d \<longrightarrow> mark_room (done_slots d) (ds_cap d) (e0 + ds_cap d - e) x)"

definition kept :: "(nat \<times> 32 word) option \<Rightarrow> assembler \<Rightarrow> bool" where
  "kept K a \<longleftrightarrow> remembers K (asm_ended a) (map_of (as_open a)) (as_done a)"

lemma remembers_end:
  assumes ok: "done_ok d" and K: "remembers K e m d"
    and m': "\<And>x. x \<noteq> i \<Longrightarrow> m' x = m x"
  shows "remembers K (Suc e) m' (done_add d i)"
proof (cases K)
  case (Some p)
  obtain e0 x where p: "p = (e0, x)" by (cases p)
  have room: "mark_room (done_slots (done_add d i)) (ds_cap d) (e0 + ds_cap d - Suc e) x"
    if r: "mark_room (done_slots d) (ds_cap d) (e0 + ds_cap d - e) x" and le: "Suc e \<le> e0 + ds_cap d"
  proof (cases "done_has d i")
    case True
    then have "done_add d i = d" by (simp add: done_add_def done_has_def)
    then show ?thesis using mark_room_weaken [OF r] by simp
  next
    case False
    have "e0 + ds_cap d - e = Suc (e0 + ds_cap d - Suc e)" using le by simp
    then show ?thesis using dones.room_add [OF ok False] r by simp
  qed
  have new: "mark_room (done_slots (done_add d i)) (ds_cap d) (e0 + ds_cap d - Suc e) i"
    if "\<not> done_has d i" "e0 \<le> e"
    by (rule mark_room_weaken [OF dones.room_added [OF ok that(1)]]) (use that(2) in auto)
  have "\<not> done_has (done_add d i) x" if "\<not> done_has d x" "x \<noteq> i"
    using that dones.has_add_only [OF ok, of i x] by (cases "done_has d i") (auto simp: done_add_def done_has_def)
  then show ?thesis using K room new m' [of x] by (cases "x = i") (auto simp: Some p)
qed simp

lemma kept_end:
  assumes K: "kept K a" and ok: "done_ok (as_done a)"
    and b: "as_next b = as_next a" "Suc (length (as_open b)) = length (as_open a)"
      "length (as_open a) \<le> as_next a" "as_done b = done_add (as_done a) i"
      "as_open b = AList.delete i (as_open a)"
  shows "kept K b"
proof -
  have "asm_ended b = Suc (asm_ended a)" using b by (simp add: asm_ended_def)
  then show ?thesis
    using remembers_end [OF ok, of K "asm_ended a" "map_of (as_open a)" i "map_of (as_open b)"] K b(4,5)
    by (simp add: kept_def delete_conv')
qed

definition opts_ok :: "asm_options \<Rightarrow> bool" where
  "opts_ok p \<longleftrightarrow> 1 \<le> op_MaxOpen p \<and> 0 < op_OrphanTTL p \<and> 0 < op_SnapshotEvery p
     \<and> 0 < op_StallFloor p \<and> 0 < op_StallQuiet p \<and> 0 < op_HalfCloseGrace p"

definition asm_inv :: "(nat \<times> 32 word) option \<Rightarrow> conn_record list \<Rightarrow> assembler \<Rightarrow> bool" where
  "asm_inv K h a \<longleftrightarrow>
     idx_ok a \<and> opts_ok (as_opts a) \<and> done_ok (as_done a) \<and>
     ds_cap (as_done a) = nat (op_MaxOpen (as_opts a)) \<and>
     int (length (as_open a)) \<le> op_MaxOpen (as_opts a) \<and>
     (\<forall>r \<in> set (as_order a). conn_ok (op_NodeID (as_opts a)) (conn_at a r)) \<and>
     (\<forall>rc \<in> set (h @ as_out a). record_ok (op_NodeID (as_opts a)) rc) \<and> books h a \<and> kept K a"

lemma asm_invD:
  assumes "asm_inv K h a"
  shows "idx_ok a" "opts_ok (as_opts a)" "done_ok (as_done a)"
    "ds_cap (as_done a) = nat (op_MaxOpen (as_opts a))"
    "int (length (as_open a)) \<le> op_MaxOpen (as_opts a)"
    "r \<in> set (as_order a) \<Longrightarrow> conn_ok (op_NodeID (as_opts a)) (conn_at a r)"
    "rc \<in> set (h @ as_out a) \<Longrightarrow> record_ok (op_NodeID (as_opts a)) rc" "books h a" "kept K a"
  using assms by (auto simp: asm_inv_def)

lemma inv_upd:
  assumes "asm_inv K h a" "r \<in> set (as_order a)" "keeps_keys f"
    "conn_ok (op_NodeID (as_opts a)) (conn_at a r) \<Longrightarrow> conn_ok (op_NodeID (as_opts a)) (f (conn_at a r))"
  shows "asm_inv K h (upd_conn a r f)"
  using assms idx_upd [OF asm_invD(1) [OF assms(1)] assms(2,3)]
  by (auto simp: asm_inv_def books_def kept_def asm_ended_def)

lemma length_delete_key:
  "distinct (map fst m) \<Longrightarrow> map_of m k = Some v \<Longrightarrow> Suc (length (AList.delete k m)) = length m"
proof (induction m)
  case (Cons p m)
  show ?case
  proof (cases "fst p = k")
    case True
    with Cons.prems have "k \<notin> fst ` set m" by auto
    then show ?thesis using True by (cases p) (simp add: delete_notin_dom)
  next
    case False
    with Cons show ?thesis by (cases p) auto
  qed
qed simp

lemma finish_fields [simp]:
  "as_opts (finish a r cand e src) = as_opts a" "as_gen (finish a r cand e src) = as_gen a"
  "as_next (finish a r cand e src) = as_next a"
  "as_snapSeq (finish a r cand e src) = as_snapSeq a"
  "as_open (finish a r cand e src) = as_open (forget a r)"
  "as_order (finish a r cand e src) = as_order (forget a r)"
  "as_bySrc (finish a r cand e src) = as_bySrc (forget a r)"
  "as_heap (finish a r cand e src) = as_heap (forget a r)"
  "as_done (finish a r cand e src) = done_add (as_done a) (rec_LogID (cn_rec (conn_at a r)))"
  by (simp_all add: finish_def Let_def push_def final_record_def)

lemma idx_cong:
  "as_open a = as_open b \<Longrightarrow> as_order a = as_order b \<Longrightarrow> as_bySrc a = as_bySrc b \<Longrightarrow>
   as_heap a = as_heap b \<Longrightarrow> as_next a = as_next b \<Longrightarrow> idx_ok a = idx_ok b"
  by (simp add: idx_ok_def conn_at_def)

lemma finish_conn [simp]: "conn_at (finish a r cand e src) r' = conn_at (forget a r) r'"
  by (simp add: conn_at_def)

lemma finish_order:
  "idx_ok a \<Longrightarrow> r \<in> set (as_order a) \<Longrightarrow> set (as_order (finish a r cand e src)) = set (as_order a) - {r}"
  by (simp add: forget_order idx_okD(2) set_remove1_eq)

lemma finish_others:
  "r' \<noteq> r \<Longrightarrow> conn_at (finish a r cand e src) r' = conn_at a r'"
  by (simp add: forget_conn)

lemma inv_forget:
  assumes inv: "asm_inv K h a" and r: "r \<in> set (as_order a)"
  shows "idx_ok (forget a r)" "Suc (length (as_open (forget a r))) = length (as_open a)"
    "r' \<in> set (as_order (forget a r)) \<Longrightarrow> conn_ok (op_NodeID (as_opts a)) (conn_at (forget a r) r')"
proof -
  note D = asm_invD [OF inv]
  show "idx_ok (forget a r)" using D(1) r by (rule idx_forget)
  show "Suc (length (as_open (forget a r))) = length (as_open a)"
    using length_delete_key [OF idx_okD(1) idx_okD(7)] D(1) r by simp
  show "r' \<in> set (as_order (forget a r)) \<Longrightarrow> conn_ok (op_NodeID (as_opts a)) (conn_at (forget a r) r')"
    using D(6) idx_okD(2) [OF D(1)] by (auto simp: forget_order [OF D(1) r] forget_conn)
qed

lemma idx_bounded: "idx_ok a \<Longrightarrow> length (as_open a) \<le> as_next a"
proof -
  assume a: "idx_ok a"
  have "set (as_order a) \<subseteq> {..<as_next a}" using idx_okD(12) [OF a] by auto
  then have "card (set (as_order a)) \<le> card {..<as_next a}" by (rule card_mono [rotated]) simp
  then show ?thesis using idx_length [OF a] distinct_card [OF idx_okD(2) [OF a]] by simp
qed

lemma final_record_ok:
  assumes "conn_ok nid c"
    "\<not> (rec_SrcIP (final_record a c cand e src) = [] \<and> rec_DstHost (final_record a c cand e src) = [])"
  shows "record_ok nid (final_record a c cand e src)"
  using assms
  by (auto simp: record_ok_def conn_ok_def base_ok_def user_ok_def bytes_ok_def final_record_def
      split: user_kind.splits)

lemma inv_finish:
  assumes inv: "asm_inv K h a" and r: "r \<in> set (as_order a)"
  shows "asm_inv K h (finish a r cand e src)"
proof -
  note D = asm_invD [OF inv] and F = inv_forget [OF inv r]
  let ?rc = "final_record a (conn_at a r) cand e src" and ?b = "finish a r cand e src"
  let ?part = "rec_SrcIP ?rc = [] \<and> rec_DstHost ?rc = []"
  have out: "as_out ?b = (if ?part then as_out a else as_out a @ [?rc])"
    by (simp add: finish_def Let_def push_def)
  have st: "as_stats ?b = (if ?part then (as_stats a)\<lparr>st_Partial := st_Partial (as_stats a) + 1\<rparr>
      else (as_stats a)\<lparr>st_Emitted := st_Emitted (as_stats a) + 1\<rparr>)"
    by (simp add: finish_def Let_def push_def)
  have open': "\<not> rec_Open ?rc" by (simp add: final_record_def)
  have len: "word_of_nat (length (as_open a)) = (1 + word_of_nat (length (as_open (forget a r))) :: 64 word)"
    using F(2) by (metis of_nat_Suc)
  have "books h ?b"
    using D(8) len open' by (auto simp: books_def out st simp del: forget_fields)
  moreover have "\<forall>rc \<in> set (h @ as_out ?b). record_ok (op_NodeID (as_opts a)) rc"
    using D(7) final_record_ok [OF D(6) [OF r]] by (auto simp: out)
  moreover have "idx_ok ?b" using F(1) by (subst idx_cong [where b = "forget a r"]) auto
  moreover have "int (length (as_open ?b)) \<le> op_MaxOpen (as_opts a)" using F(2) D(5) by simp
  moreover have "kept K ?b"
    by (rule kept_end [OF D(9) D(3) _ _ idx_bounded [OF D(1)]]) (use F(2) in \<open>simp_all\<close>)
  ultimately show ?thesis
    using D F(3) by (simp add: asm_inv_def done_ok_add)
qed

lemma inv_evict:
  assumes inv: "asm_inv K h a" and ne: "as_order a \<noteq> []"
  shows "asm_inv K h (evictOldest a)" "Suc (length (as_open (evictOldest a))) = length (as_open a)"
    "map_of (as_open (evictOldest a)) i = Some r \<Longrightarrow> map_of (as_open a) i = Some r"
    "as_opts (evictOldest a) = as_opts a"
proof -
  obtain q rs where q: "as_order a = q # rs" using ne by (cases "as_order a") auto
  then have r: "q \<in> set (as_order a)" by simp
  note D = asm_invD [OF inv] and F = inv_forget [OF inv r]
  let ?b = "evictOldest a"
  have fs: "as_open ?b = as_open (forget a q)" "as_order ?b = as_order (forget a q)"
    "as_bySrc ?b = as_bySrc (forget a q)" "as_heap ?b = as_heap (forget a q)"
    "as_next ?b = as_next a" "as_opts ?b = as_opts a" "as_out ?b = as_out a"
    "as_done ?b = done_add (as_done a) (rec_LogID (cn_rec (conn_at a q)))"
    "as_stats ?b = (as_stats a)\<lparr>st_Dropped := st_Dropped (as_stats a) + 1\<rparr>"
    by (simp_all add: evictOldest_def q Let_def)
  show "Suc (length (as_open ?b)) = length (as_open a)" using F(2) fs by simp
  have len: "word_of_nat (length (as_open a)) = (1 + word_of_nat (length (as_open (forget a q))) :: 64 word)"
    using F(2) by (metis of_nat_Suc)
  have "books h ?b" using D(8) len by (auto simp: books_def fs simp del: forget_fields)
  moreover have "idx_ok ?b" using F(1) by (subst idx_cong [where b = "forget a q"]) (auto simp: fs)
  moreover have "conn_at ?b r' = conn_at (forget a q) r'" for r' by (simp add: conn_at_def fs)
  moreover have "int (length (as_open ?b)) \<le> op_MaxOpen (as_opts a)" using F(2) D(5) fs by simp
  moreover have "kept K ?b"
    by (rule kept_end [OF D(9) D(3) _ _ idx_bounded [OF D(1)] fs(8)]) (use F(2) fs in \<open>simp_all\<close>)
  ultimately show "asm_inv K h ?b"
    using D F(3) by (simp add: asm_inv_def fs done_ok_add)
  show "map_of (as_open ?b) i = Some r \<Longrightarrow> map_of (as_open a) i = Some r"
    by (auto simp: fs delete_conv' split: if_splits)
  show "as_opts ?b = as_opts a" by (rule fs)
qed

subsection \<open>The operations keep the invariant\<close>

lemma create_room:
  assumes inv: "asm_inv K h a"
  defines "b \<equiv> (if int (length (as_open a)) \<ge> op_MaxOpen (as_opts a) then evictOldest a else a)"
  shows "asm_inv K h b" "int (length (as_open b)) < op_MaxOpen (as_opts a)"
    "map_of (as_open b) i = Some r \<Longrightarrow> map_of (as_open a) i = Some r" "as_opts b = as_opts a"
proof -
  note D = asm_invD [OF inv]
  have "as_order a \<noteq> []" if "int (length (as_open a)) \<ge> op_MaxOpen (as_opts a)"
    using that D(2) idx_length [OF D(1)] by (auto simp: opts_ok_def)
  from inv_evict [OF inv this]
  show "asm_inv K h b" "int (length (as_open b)) < op_MaxOpen (as_opts a)"
    "map_of (as_open b) i = Some r \<Longrightarrow> map_of (as_open a) i = Some r" "as_opts b = as_opts a"
    using inv D(5) by (auto simp: b_def split: if_splits)
qed

lemma create_shape:
  "\<exists>b c. create a l at =
     (b\<lparr>as_heap := (as_heap b)(as_next b \<mapsto> c), as_next := Suc (as_next b),
        as_open := AList.update (ln_LogID l) (as_next b) (as_open b),
        as_order := as_order b @ [as_next b]\<rparr>, as_next b) \<and>
   b = (if int (length (as_open a)) \<ge> op_MaxOpen (as_opts a) then evictOldest a else a) \<and>
   rec_LogID (cn_rec c) = ln_LogID l \<and> cn_elem c \<and> cn_srcKey c = [] \<and>
   conn_ok (op_NodeID (as_opts b)) c"
  by (auto simp: create_def Let_def zero_conn_def zero_conn_record_def conn_ok_def base_ok_def
      user_ok_def bytes_ok_def sessions_ok_def no_close_def)

lemma length_update_key: "map_of m k = None \<Longrightarrow> length (AList.update k v m) = Suc (length m)"
  by (induction m) (auto split: if_splits)

lemma inv_create:
  assumes inv: "asm_inv K h a" and fresh: "map_of (as_open a) (ln_LogID l) = None"
    and ar: "create a l at = (a', r)"
  shows "asm_inv K h a'" "r \<in> set (as_order a')" "map_of (as_open a') (ln_LogID l) = Some r"
proof -
  define b where "b = (if int (length (as_open a)) \<ge> op_MaxOpen (as_opts a) then evictOldest a else a)"
  note B = create_room [OF inv, folded b_def] and D = asm_invD [OF create_room(1) [OF inv, folded b_def]]
  obtain c where c: "rec_LogID (cn_rec c) = ln_LogID l" "cn_elem c" "cn_srcKey c = []"
      "conn_ok (op_NodeID (as_opts b)) c"
    and r: "r = as_next b"
    and a': "a' = b\<lparr>as_heap := (as_heap b)(r \<mapsto> c), as_next := Suc r,
        as_open := AList.update (ln_LogID l) r (as_open b), as_order := as_order b @ [r]\<rparr>"
    using create_shape [of a l at, folded b_def] ar by auto
  have new: "r \<notin> set (as_order b)" "as_heap b r = None"
    using idx_okD(11,12) [OF D(1)] r by fastforce+
  have fr: "map_of (as_open b) (ln_LogID l) = None"
    using B(3) fresh by (cases "map_of (as_open b) (ln_LogID l)") auto
  have conn: "conn_at a' q = (if q = r then c else conn_at b q)" for q
    by (simp add: a' conn_at_def)
  have opn: "map_of (as_open a') = (map_of (as_open b))(ln_LogID l \<mapsto> r)"
    by (simp add: a' update_conv')
  show "map_of (as_open a') (ln_LogID l) = Some r" by (simp add: opn)
  show "r \<in> set (as_order a')" by (simp add: a')
  have other: "rec_LogID (cn_rec (conn_at b q)) \<noteq> ln_LogID l" if "q \<in> set (as_order b)" for q
    using idx_okD(7) [OF D(1) that] fr by auto
  have idx: "idx_ok a'"
  proof (rule idx_okI)
    note I = idx_okD [OF D(1)]
    show "distinct (map fst (as_open a'))" using I(1) by (simp add: a' distinct_update)
    show "distinct (as_order a')" using I(2) new by (simp add: a')
    show "q \<in> set (as_order a') \<and> rec_LogID (cn_rec (conn_at a' q)) = i"
      if "map_of (as_open a') i = Some q" for i q
    proof (cases "i = ln_LogID l")
      case True
      with that c(1) show ?thesis by (simp add: opn conn) (simp add: a')
    next
      case False
      with that have "map_of (as_open b) i = Some q" by (simp add: opn)
      with I(3,4) [of i q] new(1) show ?thesis by (auto simp: conn) (simp add: a')
    qed
    show "as_heap a' q \<noteq> None \<and> cn_elem (conn_at a' q) \<and>
        map_of (as_open a') (rec_LogID (cn_rec (conn_at a' q))) = Some q"
      if "q \<in> set (as_order a')" for q
    proof (cases "q = r")
      case True
      with c(1,2) show ?thesis by (simp add: opn conn) (simp add: a')
    next
      case False
      with that have q: "q \<in> set (as_order b)" by (simp add: a')
      with I(5,6,7) [OF q] other [OF q] False show ?thesis by (simp add: opn conn) (simp add: a')
    qed
    show "k \<noteq> [] \<and> q \<in> set (as_order a') \<and> cn_srcKey (conn_at a' q) = k"
      if "as_bySrc a' k = Some q" for k q
    proof -
      from that have "as_bySrc b k = Some q" by (simp add: a')
      with I(8,9,10) [OF this] new(1) show ?thesis by (auto simp: conn) (simp add: a')
    qed
    show "q < as_next a'" if "as_heap a' q \<noteq> None" for q
      using that I(11) r by (fastforce simp: a' split: if_splits)
  qed
  have len: "length (as_open a') = Suc (length (as_open b))"
    using length_update_key [OF fr] by (simp add: a')
  have "books h a'" using D(8) len r by (simp add: books_def a')
  moreover have "kept K a'"
  proof -
    have "asm_ended a' = asm_ended b" "as_done a' = as_done b"
      using len r by (simp_all add: asm_ended_def a')
    then show ?thesis using D(9) fr unfolding kept_def opn by (cases K) (auto split: if_splits)
  qed
  moreover have "\<forall>q \<in> set (as_order a'). conn_ok (op_NodeID (as_opts b)) (conn_at a' q)"
    using D(6) c(4) new(1) by (simp add: conn) (simp add: a')
  moreover have "int (length (as_open a')) \<le> op_MaxOpen (as_opts b)" using B(2,4) len by simp
  ultimately show "asm_inv K h a'"
    using idx D by (simp add: asm_inv_def a')
qed

lemma inv_indexSrc:
  assumes inv: "asm_inv K h a" and r: "r \<in> set (as_order a)"
  shows "asm_inv K h (indexSrc a r)" "as_order (indexSrc a r) = as_order a"
proof -
  note D = asm_invD [OF inv]
  note I = idx_okD [OF D(1)]
  let ?c = "conn_at a r" and ?b = "indexSrc a r"
  let ?k = "srcKey (rec_SrcIP (cn_rec ?c)) (itoa (rec_SrcPort (cn_rec ?c)))"
  show ord: "as_order ?b = as_order a" by (simp add: indexSrc_def Let_def)
  show "asm_inv K h ?b"
  proof (cases "rec_SrcIP (cn_rec ?c) = []")
    case True
    with inv show ?thesis by (simp add: indexSrc_def Let_def)
  next
    case False
    then have k: "?k \<noteq> []" by (simp add: srcKey_def)
    have fs: "as_open ?b = as_open a" "as_heap ?b = (as_heap a)(r \<mapsto> ?c\<lparr>cn_srcKey := ?k\<rparr>)"
      "as_next ?b = as_next a" "as_opts ?b = as_opts a" "as_out ?b = as_out a"
      "as_done ?b = as_done a" "as_stats ?b = as_stats a"
      using False by (simp_all add: indexSrc_def Let_def)
    have conn: "conn_at ?b q = (if q = r then ?c\<lparr>cn_srcKey := ?k\<rparr> else conn_at a q)" for q
      by (simp add: conn_at_def fs)
    have bs: "as_bySrc ?b q = Some s \<Longrightarrow>
        q = ?k \<and> s = r \<or> q \<noteq> ?k \<and> as_bySrc a q = Some s \<and> s \<noteq> r" for q s
      using False I(8,10) [of q s] by (auto simp: indexSrc_def Let_def split: if_splits)
    have "idx_ok ?b"
    proof (rule idx_okI)
      show "k \<noteq> [] \<and> q \<in> set (as_order ?b) \<and> cn_srcKey (conn_at ?b q) = k"
        if "as_bySrc ?b k = Some q" for k q
        using bs [OF that] I(8,9,10) [of k q] k r by (auto simp: conn ord)
    qed (use I r in \<open>auto simp: fs ord conn split: if_splits\<close>)
    moreover have "conn_ok nid (?c\<lparr>cn_srcKey := ?k\<rparr>) = conn_ok nid ?c" for nid
      by (simp add: conn_ok_def)
    ultimately show ?thesis
      using D r by (simp add: asm_inv_def fs ord conn books_def kept_def asm_ended_def)
  qed
qed

lemma keeps_keysI [intro]:
  "(\<And>c. rec_LogID (cn_rec (f c)) = rec_LogID (cn_rec c)) \<Longrightarrow> (\<And>c. cn_elem (f c) = cn_elem c) \<Longrightarrow>
   (\<And>c. cn_srcKey (f c) = cn_srcKey c) \<Longrightarrow> keeps_keys f"
  by (simp add: keeps_keys_def)

lemma keeps_keys_rec:
  "(\<And>rc. rec_LogID (f rc) = rec_LogID rc) \<Longrightarrow> keeps_keys (upd_rec f)"
  by (simp add: keeps_keys_def upd_rec_def)

text \<open>The changes of a record that observe a line: identity, bytes and the end stay as they are.\<close>

definition observes :: "(conn_record \<Rightarrow> conn_record) \<Rightarrow> bool" where
  "observes f \<longleftrightarrow>
     (\<forall>rc. rec_LogID (f rc) = rec_LogID rc \<and> rec_NodeID (f rc) = rec_NodeID rc \<and>
           rec_StartedAt (f rc) = rec_StartedAt rc \<and>
           rec_Upload (f rc) = rec_Upload rc \<and> rec_Download (f rc) = rec_Download rc \<and>
           rec_BytesKnown (f rc) = rec_BytesKnown rc \<and> rec_StalledAt (f rc) = rec_StalledAt rc \<and>
           rec_EndedAt (f rc) = rec_EndedAt rc \<and> (user_ok rc \<longrightarrow> user_ok (f rc)))"

lemma observes_keeps_keys: "observes f \<Longrightarrow> keeps_keys (upd_rec f)"
  by (simp add: observes_def keeps_keys_def upd_rec_def)

lemma observes_conn_ok: "observes f \<Longrightarrow> conn_ok nid c \<Longrightarrow> conn_ok nid (upd_rec f c)"
  by (simp add: observes_def conn_ok_def base_ok_def bytes_ok_def upd_rec_def)

lemma inv_observe:
  "asm_inv K h a \<Longrightarrow> r \<in> set (as_order a) \<Longrightarrow> observes f \<Longrightarrow> asm_inv K h (upd_conn a r (upd_rec f))"
  by (rule inv_upd) (auto intro: observes_keeps_keys observes_conn_ok)

lemma observes_comp: "observes f \<Longrightarrow> observes g \<Longrightarrow> observes (\<lambda>rc. f (g rc))"
  by (simp add: observes_def)

lemma observes_if: "observes f \<Longrightarrow> observes g \<Longrightarrow> observes (\<lambda>rc. if P rc then f rc else g rc)"
  by (simp add: observes_def)

lemma observes_let: "observes f \<Longrightarrow> observes g \<Longrightarrow> observes (\<lambda>rc. let x = f rc in g x)"
  by (simp add: observes_def)

lemma observes_id: "observes (\<lambda>rc. rc)"
  by (simp add: observes_def)

lemma observes_fields:
  "observes (\<lambda>rc. rc\<lparr>rec_SrcIP := s, rec_SrcPort := p\<rparr>)"
  "observes (\<lambda>rc. rc\<lparr>rec_SniffedProtocol := s, rec_SniffedDomain := t\<rparr>)"
  "observes (\<lambda>rc. rc\<lparr>rec_DstHost := s, rec_DstPort := p\<rparr>)"
  "observes (\<lambda>rc. rc\<lparr>rec_OutboundTag := s, rec_OutboundType := t\<rparr>)"
  "observes (\<lambda>rc. rc\<lparr>rec_OutboundTag := s\<rparr>)" "observes (\<lambda>rc. rc\<lparr>rec_OutboundType := s\<rparr>)"
  "observes (\<lambda>rc. rc\<lparr>rec_InboundTag := s\<rparr>)" "observes (\<lambda>rc. rc\<lparr>rec_InboundType := s\<rparr>)"
  "observes (\<lambda>rc. rc\<lparr>rec_RuleText := s\<rparr>)" "observes (\<lambda>rc. rc\<lparr>rec_RuleIndex := p\<rparr>)"
  "observes (\<lambda>rc. rc\<lparr>rec_Network := s\<rparr>)" "observes (\<lambda>rc. rc\<lparr>rec_DstIP := s\<rparr>)"
  "u \<noteq> [] \<Longrightarrow> observes (\<lambda>rc. rc\<lparr>rec_UserName := u,
     rec_UserKind := (if managedUserName u then UserKindManaged else UserKindLegacy)\<rparr>)"
  by (simp_all add: observes_def user_ok_def)

lemmas observes_intros = observes_let observes_if observes_id observes_fields

lemma observes_rule: "observes (note_rule l)"
  unfolding note_rule_def by (intro observes_intros)

lemma observes_outbound: "observes (note_outbound l)"
  unfolding note_outbound_def by (intro observes_intros)

lemma observes_dns: "observes (note_dns l)"
  unfolding note_dns_def by (intro observes_intros)

lemma observes_dial_failed: "observes (note_dial_failed l)"
  unfolding note_dial_failed_def by (intro observes_intros)

lemma observes_join_fields: "observes (join_fields item)"
  unfolding join_fields_def by (intro observes_intros)

lemma observes_inbound_to: "observes (note_inbound_to l)"
proof (cases "ln_User l = []")
  case True
  then show ?thesis unfolding note_inbound_to_def if_P [OF True] by simp (intro observes_intros)
next
  case False
  have "observes (\<lambda>rc. rc\<lparr>rec_UserName := ln_User l,
      rec_UserKind := (if managedUserName (ln_User l) then UserKindManaged else UserKindLegacy)\<rparr>)"
    using False by (rule observes_fields)
  then show ?thesis unfolding note_inbound_to_def by (intro observes_intros False)
qed

lemmas observes_facts = observes_fields observes_inbound_to observes_rule
  observes_outbound observes_dns observes_dial_failed observes_join_fields

lemma observes_network: "observes (note_network l)"
  unfolding note_network_def by (intro observes_intros)

lemma observes_inbound_tag: "observes (note_inbound_tag l)"
  unfolding note_inbound_tag_def by (intro observes_intros)

lemma keeps_keys_comp: "observes f \<Longrightarrow> keeps_keys g \<Longrightarrow> keeps_keys (\<lambda>c. upd_rec f (g c))"
  by (simp add: keeps_keys_def upd_rec_def observes_def)

lemma note_line_alt:
  "note_line l at = (\<lambda>c. upd_rec (note_inbound_tag l) (upd_rec (note_network l)
     (let c = c\<lparr>cn_lastSeenAt := at\<rparr>
      in if ln_ElapsedMS l > cn_lastElapsedMS c then c\<lparr>cn_lastElapsedMS := ln_ElapsedMS l\<rparr> else c)))"
  by (simp add: note_line_def fun_eq_iff Let_def)

lemma keeps_keys_note_line: "keeps_keys (note_line l at)"
  unfolding note_line_alt
  by (rule keeps_keys_comp [OF observes_inbound_tag keeps_keys_comp [OF observes_network]])
    (simp add: keeps_keys_def Let_def)

lemma note_line_ok: "conn_ok nid c \<Longrightarrow> conn_ok nid (note_line l at c)"
  unfolding note_line_alt
  by (rule observes_conn_ok [OF observes_inbound_tag observes_conn_ok [OF observes_network]])
    (simp add: conn_ok_def Let_def)

lemma inv_note_line:
  "asm_inv K h a \<Longrightarrow> r \<in> set (as_order a) \<Longrightarrow> asm_inv K h (upd_conn a r (note_line l at))"
  by (rule inv_upd) (simp_all add: keeps_keys_note_line note_line_ok)

lemma half_candidate_said:
  assumes "whenEmpty \<noteq> CloseUnset"
  shows "cc_reason (half_candidate e whenEmpty) \<noteq> CloseUnset" "cc_rank (half_candidate e whenEmpty) \<noteq> rankNone"
  using assms
  by (simp_all add: half_candidate_def closeReasonFor_def evidenceRank_def Let_def rankNone_def
      rankError_def rankEOF_def rankSoft_def)

lemma keeps_keys_offer: "keeps_keys (offer cand)"
  by (simp add: keeps_keys_def offer_def)

lemma offer_ok:
  assumes "conn_ok nid c" "cc_reason cand \<noteq> CloseUnset" "cc_rank cand \<noteq> rankNone"
  shows "conn_ok nid (offer cand c)" "cc_rank (cn_close (offer cand c)) \<noteq> rankNone"
  using assms by (auto simp: offer_def conn_ok_def rankNone_def)

definition half_mark :: "log_line \<Rightarrow> gotime \<Rightarrow> conn \<Rightarrow> conn" where
  "half_mark l at c =
     (let c = (if cn_firstHalfAt c = 0 then c\<lparr>cn_firstHalfAt := at\<rparr> else c)
      in case ln_Direction l of
           DirectionUpload \<Rightarrow> c\<lparr>cn_closedUp := True\<rparr>
         | DirectionDownload \<Rightarrow> c\<lparr>cn_closedDown := True\<rparr>
         | DirectionNone \<Rightarrow> (if \<not> cn_closedUp c then c\<lparr>cn_closedUp := True\<rparr>
                             else c\<lparr>cn_closedDown := True\<rparr>))"

lemma halfClosed_alt:
  "halfClosed a r l at =
     (let c = half_mark l at (conn_at a r); a = upd_conn a r (half_mark l at)
      in if cn_closedUp c \<and> cn_closedDown c then finish a r (cn_close c) at durFromCore else a)"
  by (simp add: halfClosed_def half_mark_def Let_def upd_conn_def)

lemma keeps_keys_half_mark: "keeps_keys (half_mark l at)"
  by (simp add: keeps_keys_def half_mark_def Let_def split: direction.split)

lemma half_mark_ok:
  "conn_ok nid c \<Longrightarrow> cc_rank (cn_close c) \<noteq> rankNone \<Longrightarrow> conn_ok nid (half_mark l at c)"
  by (simp add: conn_ok_def half_mark_def Let_def split: direction.split)

lemma inv_half:
  assumes inv: "asm_inv K h a" and r: "r \<in> set (as_order a)" and w: "w \<noteq> CloseUnset"
  shows "asm_inv K h (halfClosed (upd_conn a r (offer (half_candidate e w))) r l at)"
proof -
  let ?a = "upd_conn a r (offer (half_candidate e w))"
  note H = half_candidate_said [OF w, of e] and O = offer_ok [OF asm_invD(6) [OF inv r]]
  have 1: "asm_inv K h ?a"
    using inv r keeps_keys_offer by (rule inv_upd) (simp add: O H)
  then have 2: "asm_inv K h (upd_conn ?a r (half_mark l at))"
    by (rule inv_upd) (simp_all add: r keeps_keys_half_mark half_mark_ok O H)
  show ?thesis
    unfolding halfClosed_alt Let_def using 2 inv_finish [OF 2, of r] r by simp
qed

lemma inv_seen: "asm_inv K h a \<Longrightarrow> r \<in> set (as_order a) \<Longrightarrow> asm_inv K h (upd_conn a r (\<lambda>c. c\<lparr>cn_lastSeenAt := at\<rparr>))"
  by (rule inv_upd) (auto simp: conn_ok_def)

lemma inv_apply_line:
  assumes inv: "asm_inv K h a" and r: "r \<in> set (as_order a)"
  shows "asm_inv K h (apply_line a r l at)"
proof (cases "ln_Event l = EventOutboundTo \<and> cn_haveOutbound (conn_at a r)")
  case True
  with inv r show ?thesis by (simp add: apply_line_def inv_seen)
next
  case False
  let ?a = "upd_conn a r (note_line l at)"
  have i: "asm_inv K h ?a" using inv r by (rule inv_note_line)
  have q: "r \<in> set (as_order ?a)" using r by simp
  note obs = inv_observe [OF i q]
  have out: "asm_inv K h (upd_conn ?a r (\<lambda>c. upd_rec (note_outbound l) (c\<lparr>cn_haveOutbound := True\<rparr>)))"
  proof (rule inv_upd [OF i q])
    show "keeps_keys (\<lambda>c. upd_rec (note_outbound l) (c\<lparr>cn_haveOutbound := True\<rparr>))"
      using observes_outbound [of l] by (simp add: keeps_keys_def upd_rec_def observes_def)
    show "conn_ok nid c \<Longrightarrow> conn_ok nid (upd_rec (note_outbound l) (c\<lparr>cn_haveOutbound := True\<rparr>))" for nid c
      by (rule observes_conn_ok [OF observes_outbound]) (simp add: conn_ok_def)
  qed
  show ?thesis
  proof (cases "ln_Event l")
    case EventInboundFrom
    with False q show ?thesis
      by (simp add: apply_line_def Let_def inv_indexSrc(1) obs observes_facts)
  next
    case EventDialFailed
    with False q show ?thesis
      by (simp add: apply_line_def Let_def inv_finish obs observes_facts)
  qed (use False i q out in \<open>simp_all add: apply_line_def Let_def inv_finish inv_half obs observes_facts\<close>)
qed

lemma inv_line:
  assumes inv: "asm_inv K h a"
  shows "asm_inv K h (asm_line a clk l)"
proof -
  let ?at = "if ln_At l = 0 then clk else ln_At l"
  have new: "asm_inv K h (case create b l ?at of (b, r) \<Rightarrow> apply_line b r l ?at)"
    if "asm_inv K h b" "map_of (as_open b) (ln_LogID l) = None" for b
    using inv_create [OF that] inv_apply_line by (auto split: prod.split)
  note D = idx_okD [OF asm_invD(1) [OF inv]]
  have fin: "asm_inv K h (finish a r collision ?at durFromCore)"
    "map_of (as_open (finish a r collision ?at durFromCore)) (ln_LogID l) = None"
    if "map_of (as_open a) (ln_LogID l) = Some r" for r
    using inv_finish [OF inv D(3) [OF that]] D(4) [OF that] by (simp_all add: delete_conv')
  show ?thesis
    using inv new [OF inv] new [OF fin] inv_apply_line [OF inv D(3)]
    by (auto simp: asm_line_def Let_def split: option.split)
qed

subsection \<open>Loops over the tracked connections\<close>

text \<open>
  The contract of a loop body: it keeps the invariant, works on the connection it is given and
  on no other one, and establishes \<open>Q\<close> of that connection unless it ends it. Then the loop
  establishes \<open>Q\<close> of every connection that is still tracked.
\<close>

locale order_loop =
  fixes body :: "assembler \<Rightarrow> nat \<Rightarrow> assembler"
    and I :: "assembler \<Rightarrow> bool"
    and Q :: "asm_options \<Rightarrow> 64 word \<Rightarrow> conn \<Rightarrow> bool"
  assumes I_distinct: "I a \<Longrightarrow> distinct (as_order a)"
    and body_I: "I a \<Longrightarrow> r \<in> set (as_order a) \<Longrightarrow> I (body a r)"
    and body_order: "I a \<Longrightarrow> r \<in> set (as_order a) \<Longrightarrow> q \<noteq> r \<Longrightarrow>
      q \<in> set (as_order (body a r)) \<longleftrightarrow> q \<in> set (as_order a)"
    and body_conn: "I a \<Longrightarrow> r \<in> set (as_order a) \<Longrightarrow> q \<noteq> r \<Longrightarrow> conn_at (body a r) q = conn_at a q"
    and body_env: "I a \<Longrightarrow> r \<in> set (as_order a) \<Longrightarrow>
      as_opts (body a r) = as_opts a \<and> as_snapSeq (body a r) = as_snapSeq a \<and>
      as_gen (body a r) = as_gen a"
    and body_post: "I a \<Longrightarrow> r \<in> set (as_order a) \<Longrightarrow> r \<in> set (as_order (body a r)) \<Longrightarrow>
      Q (as_opts a) (as_snapSeq a) (conn_at (body a r) r)"
begin

lemma rest_tracked:
  assumes "I a" "distinct (r # rs)" "set (r # rs) \<subseteq> set (as_order a)"
  shows "set rs \<subseteq> set (as_order (body a r))"
proof
  fix q assume "q \<in> set rs"
  with assms show "q \<in> set (as_order (body a r))" using body_order [of a r q] by auto
qed

lemma loop_I: "I a \<Longrightarrow> distinct rs \<Longrightarrow> set rs \<subseteq> set (as_order a) \<Longrightarrow> I (foldl body a rs)"
proof (induction rs arbitrary: a)
  case (Cons r rs)
  then have "set rs \<subseteq> set (as_order (body a r))" by (intro rest_tracked)
  with Cons show ?case by (simp add: body_I)
qed simp

lemma loop_frame:
  "I a \<Longrightarrow> distinct rs \<Longrightarrow> set rs \<subseteq> set (as_order a) \<Longrightarrow>
   as_opts (foldl body a rs) = as_opts a \<and> as_snapSeq (foldl body a rs) = as_snapSeq a \<and>
   as_gen (foldl body a rs) = as_gen a \<and>
   (\<forall>q. q \<notin> set rs \<longrightarrow> conn_at (foldl body a rs) q = conn_at a q \<and>
      (q \<in> set (as_order (foldl body a rs)) \<longleftrightarrow> q \<in> set (as_order a)))"
proof (induction rs arbitrary: a)
  case (Cons r rs)
  then have "set rs \<subseteq> set (as_order (body a r))" by (intro rest_tracked)
  with Cons show ?case
    using body_env [of a r] body_order [of a r] body_conn [of a r] by (auto simp: body_I)
qed simp

lemma loop_post:
  "I a \<Longrightarrow> distinct rs \<Longrightarrow> set rs \<subseteq> set (as_order a) \<Longrightarrow> q \<in> set rs \<Longrightarrow>
   q \<in> set (as_order (foldl body a rs)) \<Longrightarrow> Q (as_opts a) (as_snapSeq a) (conn_at (foldl body a rs) q)"
proof (induction rs arbitrary: a)
  case (Cons r rs)
  then have sub: "set rs \<subseteq> set (as_order (body a r))" by (intro rest_tracked)
  show ?case
  proof (cases "q = r")
    case True
    with Cons.prems sub have "q \<notin> set rs" "I (body a r)" by (auto simp: body_I)
    then show ?thesis
      using loop_frame [of "body a r" rs] Cons.prems sub body_post [of a r] True by auto
  next
    case False
    with Cons.prems sub show ?thesis
      using Cons.IH [of "body a r"] body_env [of a r] body_I [of a r] by auto
  qed
qed simp

text \<open>If the body ends a connection in the state it had before the loop, the loop ends it.\<close>

lemma loop_ends:
  "I a \<Longrightarrow> distinct rs \<Longrightarrow> set rs \<subseteq> set (as_order a) \<Longrightarrow> r \<in> set rs \<Longrightarrow>
   (\<And>b. I b \<Longrightarrow> r \<in> set (as_order b) \<Longrightarrow> conn_at b r = conn_at a r \<Longrightarrow> as_opts b = as_opts a \<Longrightarrow>
      as_snapSeq b = as_snapSeq a \<Longrightarrow> r \<notin> set (as_order (body b r))) \<Longrightarrow>
   r \<notin> set (as_order (foldl body a rs))"
proof (induction rs arbitrary: a)
  case (Cons q rs)
  then have sub: "set rs \<subseteq> set (as_order (body a q))" and b: "I (body a q)"
    by (intro rest_tracked, auto intro: body_I)
  show ?case
  proof (cases "r = q")
    case True
    with Cons.prems have "r \<notin> set rs" "r \<notin> set (as_order (body a q))" by auto
    then show ?thesis using loop_frame [OF b _ sub] Cons.prems(2) by simp
  next
    case False
    with Cons.prems show ?thesis
      using Cons.IH [OF b _ sub] body_env [of a q] body_conn [of a q r] by simp
  qed
qed simp

lemma loop_all:
  assumes "I a"
  shows "I (foldl body a (as_order a))"
    "q \<in> set (as_order (foldl body a (as_order a))) \<Longrightarrow>
       Q (as_opts a) (as_snapSeq a) (conn_at (foldl body a (as_order a)) q)"
    "as_opts (foldl body a (as_order a)) = as_opts a"
    "as_snapSeq (foldl body a (as_order a)) = as_snapSeq a"
    "as_gen (foldl body a (as_order a)) = as_gen a"
    "set (as_order (foldl body a (as_order a))) \<subseteq> set (as_order a)"
  using loop_I [OF assms I_distinct [OF assms]] loop_frame [OF assms I_distinct [OF assms]]
    loop_post [OF assms I_distinct [OF assms]]
  by (blast | simp)+

end

lemma inv_distinct: "asm_inv K h a \<Longrightarrow> distinct (as_order a)"
  by (simp add: asm_invD(1) idx_okD(2))

lemma finish_gone: "asm_inv K h a \<Longrightarrow> r \<in> set (as_order a) \<Longrightarrow> r \<notin> set (as_order (finish a r cand e src))"
  using finish_order [OF asm_invD(1)] by blast

lemma finish_order_other:
  "asm_inv K h a \<Longrightarrow> r \<in> set (as_order a) \<Longrightarrow> q \<noteq> r \<Longrightarrow>
    q \<in> set (as_order (finish a r cand e src)) \<longleftrightarrow> q \<in> set (as_order a)"
  using finish_order [OF asm_invD(1)] by blast

lemmas finish_loop = inv_finish finish_gone finish_order_other finish_others

interpretation sweep: order_loop "sweep_step at" "asm_inv K h"
  "\<lambda>p s c. \<not> (cn_sampled c \<and> cn_lastSnapSeq c < s)" for at K h
  by unfold_locales
    (auto simp: inv_distinct sweep_step_def Let_def finish_loop simp del: finish_conn
      finish_fields(6) dest: finish_gone [rotated 2])


text \<open>One step of the clock.\<close>

lemma evalStall_shape:
  "evalStall now fl qu c = c \<or> (cn_sampled c \<and>
     evalStall now fl qu c = upd_rec (\<lambda>rc. rc\<lparr>rec_StalledAt := cn_lastByteChangeAt c\<rparr>) c)"
  by (simp add: evalStall_def)

lemma keeps_keys_evalStall: "keeps_keys (evalStall now fl qu)"
  by (rule keeps_keysI) (simp_all add: evalStall_def upd_rec_def)

lemma evalStall_ok: "conn_ok nid c \<Longrightarrow> conn_ok nid (evalStall now fl qu c)"
  using evalStall_shape [of now fl qu c]
  by (auto simp: conn_ok_def base_ok_def user_ok_def bytes_ok_def upd_rec_def)

lemma evalStall_fields [simp]:
  "cn_lastSeenAt (evalStall now fl qu c) = cn_lastSeenAt c"
  "cn_lastEmitAt (evalStall now fl qu c) = cn_lastEmitAt c"
  "cn_firstHalfAt (evalStall now fl qu c) = cn_firstHalfAt c"
  "cn_sampled (evalStall now fl qu c) = cn_sampled c"
  "cn_lastSnapSeq (evalStall now fl qu c) = cn_lastSnapSeq c"
  by (simp_all add: evalStall_def upd_rec_def)

lemma inv_evalStall:
  "asm_inv K h a \<Longrightarrow> r \<in> set (as_order a) \<Longrightarrow> asm_inv K h (upd_conn a r (evalStall now fl qu))"
  by (rule inv_upd) (simp_all add: keeps_keys_evalStall evalStall_ok)

lemma inv_push:
  assumes inv: "asm_inv K h a" and rc: "record_ok (op_NodeID (as_opts a)) rc" "rec_Open rc"
  shows "asm_inv K h (push a rc)"
proof -
  note D = asm_invD [OF inv]
  have "idx_ok (push a rc)" using D(1) by (subst idx_cong [where b = a]) (simp_all add: push_def)
  moreover have "conn_at (push a rc) = conn_at a" by (simp add: fun_eq_iff conn_at_def push_def)
  moreover have "books h (push a rc)" using D(8) rc(2) by (simp add: books_def push_def)
  moreover have "kept K (push a rc)" using D(9) by (simp add: kept_def asm_ended_def push_def)
  ultimately show ?thesis using D rc(1) by (auto simp: asm_inv_def push_def)
qed

lemma emitOpen_fields [simp]:
  "as_opts (emitOpen a r now) = as_opts a" "as_snapSeq (emitOpen a r now) = as_snapSeq a"
  "as_gen (emitOpen a r now) = as_gen a" "as_order (emitOpen a r now) = as_order a"
  "conn_at (emitOpen a r now) q =
     (if q = r then (conn_at a r)\<lparr>cn_lastEmitAt := now\<rparr> else conn_at a q)"
  by (simp_all add: emitOpen_def Let_def push_def conn_at_def)

lemma inv_emitOpen:
  assumes inv: "asm_inv K h a" and r: "r \<in> set (as_order a)"
  shows "asm_inv K h (emitOpen a r now)"
proof -
  have "asm_inv K h (upd_conn a r (\<lambda>c. c\<lparr>cn_lastEmitAt := now\<rparr>))"
    using inv r by (rule inv_upd) (auto simp: conn_ok_def)
  then show ?thesis
    using asm_invD(6) [OF inv r] unfolding emitOpen_def Let_def
    by (intro inv_push)
      (simp_all add: record_ok_def conn_ok_def base_ok_def user_ok_def bytes_ok_def)
qed

lemma inv_orphan_count:
  "asm_inv K h a \<Longrightarrow> asm_inv K h (a\<lparr>as_stats := (as_stats a)\<lparr>st_Orphaned := n\<rparr>\<rparr>)"
  using idx_cong [of "a\<lparr>as_stats := (as_stats a)\<lparr>st_Orphaned := n\<rparr>\<rparr>" a]
  by (simp add: asm_inv_def books_def conn_at_def kept_def asm_ended_def)

lemma conn_at_stats [simp]: "conn_at (a\<lparr>as_stats := s\<rparr>) = conn_at a"
  by (simp add: fun_eq_iff conn_at_def)

definition tick_post :: "gotime \<Rightarrow> asm_options \<Rightarrow> 64 word \<Rightarrow> conn \<Rightarrow> bool" where
  "tick_post now p s c \<longleftrightarrow>
     time_sub now (cn_lastSeenAt c) < op_OrphanTTL p \<and>
     time_sub now (cn_lastEmitAt c) < op_SnapshotEvery p \<and>
     (cn_firstHalfAt c \<noteq> 0 \<longrightarrow>
        time_sub now (cn_firstHalfAt c) < op_HalfCloseGrace p \<or> cn_sampled c \<and> s \<le> cn_lastSnapSeq c)"

lemma tick_step_cases:
  assumes inv: "asm_inv K h a" and r: "r \<in> set (as_order a)"
  obtains (ends) b cand e where "tick_step now a r = finish b r cand e durFromCore" "asm_inv K h b"
      "as_order b = as_order a" "conn_at b = conn_at a" "as_opts b = as_opts a"
      "as_snapSeq b = as_snapSeq a" "as_gen b = as_gen a"
  | (stays) b where "tick_step now a r = b" "asm_inv K h b" "as_order b = as_order a"
      "\<And>q. q \<noteq> r \<Longrightarrow> conn_at b q = conn_at a q" "as_opts b = as_opts a"
      "as_snapSeq b = as_snapSeq a" "as_gen b = as_gen a"
      "tick_post now (as_opts a) (as_snapSeq a) (conn_at b r)"
proof -
  let ?c = "conn_at a r"
  let ?b = "upd_conn a r (evalStall now (op_StallFloor (as_opts a)) (op_StallQuiet (as_opts a)))"
  consider (half) "half_expired a now ?c"
    | (orphan) "\<not> half_expired a now ?c" "time_sub now (cn_lastSeenAt ?c) \<ge> op_OrphanTTL (as_opts a)"
    | (alive) "\<not> half_expired a now ?c" "time_sub now (cn_lastSeenAt ?c) < op_OrphanTTL (as_opts a)"
    by linarith
  then show thesis
  proof cases
    case half
    then show thesis using inv by (intro ends [of a]) (auto simp: tick_step_def Let_def)
  next
    case orphan
    then show thesis
      by (intro ends [of "a\<lparr>as_stats := (as_stats a)\<lparr>st_Orphaned := st_Orphaned (as_stats a) + 1\<rparr>\<rparr>"])
        (auto simp: tick_step_def Let_def inv_orphan_count [OF inv])
  next
    case alive
    have b: "asm_inv K h ?b" using inv r by (rule inv_evalStall)
    have "0 < op_SnapshotEvery (as_opts a)" using asm_invD(2) [OF inv] by (simp add: opts_ok_def)
    moreover have "time_sub now now = 0" by (simp add: time_sub_def)
    ultimately show thesis
      using alive b inv_emitOpen [OF b, of r now] r
      by (intro stays [of "tick_step now a r"])
        (auto simp: tick_step_def Let_def tick_post_def half_expired_def stillListed_def not_le)
  qed
qed

interpretation tick: order_loop "tick_step now" "asm_inv K h" "tick_post now" for now K h
proof unfold_locales
  fix a r q assume inv: "asm_inv K h a" and r: "r \<in> set (as_order a)"
  show "asm_inv K h (tick_step now a r)"
    using inv r by (rule tick_step_cases [where now = now]) (auto simp: inv_finish r)
  show "as_opts (tick_step now a r) = as_opts a \<and> as_snapSeq (tick_step now a r) = as_snapSeq a \<and>
      as_gen (tick_step now a r) = as_gen a"
    using inv r by (rule tick_step_cases [where now = now]) auto
  show "r \<in> set (as_order (tick_step now a r)) \<Longrightarrow>
      tick_post now (as_opts a) (as_snapSeq a) (conn_at (tick_step now a r) r)"
    using inv r by (rule tick_step_cases [where now = now]) (use r finish_gone in \<open>metis\<close>)+
  assume q: "q \<noteq> r"
  show "q \<in> set (as_order (tick_step now a r)) \<longleftrightarrow> q \<in> set (as_order a)"
    using inv r by (rule tick_step_cases [where now = now]) (use r q finish_order_other in \<open>metis\<close>)+
  show "conn_at (tick_step now a r) q = conn_at a q"
    using inv r by (rule tick_step_cases [where now = now]) (use q finish_others in \<open>metis\<close>)+
qed (rule inv_distinct)

interpretation restart: order_loop "\<lambda>a r. finish a r cand at durFromClock" "asm_inv K h"
  "\<lambda>p s c. False" for cand at K h
  by unfold_locales
    (auto simp: inv_distinct finish_loop simp del: finish_conn finish_fields(6)
      dest: finish_gone [rotated 2])

subsection \<open>Snapshots, restarts, tags\<close>

lemma keeps_keys_join_bytes: "keeps_keys (join_bytes s item at)"
  by (rule keeps_keysI) (simp_all add: join_bytes_def Let_def upd_rec_def)

lemma join_bytes_ok: "conn_ok nid c \<Longrightarrow> conn_ok nid (join_bytes s item at c)"
  by (simp add: join_bytes_def Let_def upd_rec_def conn_ok_def base_ok_def user_ok_def bytes_ok_def)

lemma keeps_keys_join:
  "keeps_keys (\<lambda>c. evalStall now fl qu (upd_rec (join_fields item) (join_bytes s item at c)))"
  using keeps_keys_comp [OF observes_join_fields keeps_keys_join_bytes, of item s item at]
    keeps_keys_evalStall [of now fl qu]
  unfolding keeps_keys_def by simp

lemma inv_join:
  assumes "asm_inv K h a" "r \<in> set (as_order a)"
  shows "asm_inv K h (join a r item at)"
  unfolding join_def using assms keeps_keys_join
  by (rule inv_upd) (intro evalStall_ok observes_conn_ok observes_join_fields join_bytes_ok)

lemma inv_item: "asm_inv K h a \<Longrightarrow> asm_inv K h (snapshot_item_step at a item)"
  by (auto simp: snapshot_item_step_def split: option.split
      intro: inv_join idx_okD(9) [OF asm_invD(1)])

lemma join_fields_as [simp]:
  "as_opts (join a r item at) = as_opts a" "as_snapSeq (join a r item at) = as_snapSeq a"
  "as_gen (join a r item at) = as_gen a" "as_order (join a r item at) = as_order a"
  by (simp_all add: join_def)

lemma items_env:
  "as_opts (foldl (snapshot_item_step at) a items) = as_opts a
   \<and> as_snapSeq (foldl (snapshot_item_step at) a items) = as_snapSeq a
   \<and> as_gen (foldl (snapshot_item_step at) a items) = as_gen a
   \<and> as_order (foldl (snapshot_item_step at) a items) = as_order a"
proof (induction items arbitrary: a)
  case (Cons item items)
  then show ?case by (auto simp: snapshot_item_step_def split: option.split)
qed simp

interpretation items_run: invariant_run "snapshot_item_step at" "asm_inv K h" for at K h
  by unfold_locales (rule inv_item)

lemma inv_snapSeq: "asm_inv K h a \<Longrightarrow> asm_inv K h (a\<lparr>as_snapSeq := s\<rparr>)"
  using idx_cong [of "a\<lparr>as_snapSeq := s\<rparr>" a]
  by (simp add: asm_inv_def books_def conn_at_def kept_def asm_ended_def)

lemma inv_snapshot: "asm_inv K h a \<Longrightarrow> asm_inv K h (asm_snapshot a clk s)"
  unfolding asm_snapshot_def sweepVanished_def Let_def
  by (intro sweep.loop_all(1) items_run.run_inv inv_snapSeq)

lemma inv_tick: "asm_inv K h a \<Longrightarrow> asm_inv K h (asm_tick a clk now)"
  unfolding asm_tick_def Let_def by (rule tick.loop_all(1))

lemma inv_forget_marks: "asm_inv K h a \<Longrightarrow> asm_inv None h a"
  by (simp add: asm_inv_def kept_def)

lemma inv_restart:
  assumes "asm_inv K h a"
  shows "asm_inv None h (coreRestart a clk g at)"
proof -
  let ?at = "if at = 0 then clk else at"
  define b where
    "b = foldl (\<lambda>a r. finish a r (terminal CloseCoreRestart []) ?at durFromClock) a (as_order a)"
  have "asm_inv None h b" unfolding b_def by (rule restart.loop_all(1) [OF inv_forget_marks [OF assms]])
  moreover have "coreRestart a clk g at = b\<lparr>as_stats := (as_stats b)\<lparr>st_Swept :=
      st_Swept (as_stats b) + word_of_nat (length (as_order a))\<rparr>,
      as_done := done_reset (as_done b), as_gen := g\<rparr>" (is "_ = ?c")
    by (simp add: coreRestart_def Let_def b_def)
  moreover have "conn_at ?c = conn_at b" by (simp add: fun_eq_iff conn_at_def)
  moreover have "idx_ok ?c = idx_ok b" by (rule idx_cong) simp_all
  moreover have "ds_cap (done_reset d) = ds_cap d" for d by (simp add: done_reset_def)
  ultimately show ?thesis by (simp add: asm_inv_def books_def kept_def done_ok_reset)
qed

lemma sessions_add: "distinct ss \<Longrightarrow> [] \<notin> set ss \<Longrightarrow>
  distinct (foldl add_session ss xs) \<and> [] \<notin> set (foldl add_session ss xs)
  \<and> set (foldl add_session ss xs) = set ss \<union> (set xs - {[]})"
proof (induction xs arbitrary: ss)
  case (Cons x xs)
  have "distinct (add_session ss x)" "[] \<notin> set (add_session ss x)"
    "set (add_session ss x) = set ss \<union> ({x} - {[]})"
    using Cons.prems by (auto simp: add_session_def)
  with Cons.IH [of "add_session ss x"] show ?case by auto
qed simp

lemma inv_tag:
  assumes "asm_inv K h a"
  shows "asm_inv K h (tag_conn a i ss)"
proof (cases "ss = [] \<or> map_of (as_open a) i = None")
  case True
  with assms show ?thesis by (auto simp: tag_conn_def)
next
  case False
  then obtain r where r: "map_of (as_open a) i = Some r" "ss \<noteq> []" by auto
  let ?f = "\<lambda>c. c\<lparr>cn_sessions := sort (foldl add_session (cn_sessions c) ss)\<rparr>"
  have "asm_inv K h (upd_conn a r ?f)"
    using assms
  proof (rule inv_upd)
    show "r \<in> set (as_order a)" using idx_okD(3) [OF asm_invD(1) [OF assms] r(1)] .
    show "keeps_keys ?f" by (rule keeps_keysI) simp_all
    show "conn_ok nid c \<Longrightarrow> conn_ok nid (?f c)" for nid c
      using sessions_add [of "cn_sessions c" ss] by (simp add: conn_ok_def sessions_ok_def)
  qed
  with r show ?thesis by (simp add: tag_conn_def)
qed

lemma inv_drain: "asm_inv K h a \<Longrightarrow> asm_inv K (h @ as_out a) (fst (drain a))"
  using idx_cong [of "a\<lparr>as_out := []\<rparr>" a]
  by (simp add: asm_inv_def books_def conn_at_def drain_def kept_def asm_ended_def)

lemma inv_new: "asm_inv None [] (new_assembler p)"
  by (simp add: asm_inv_def new_assembler_def Let_def idx_ok_def done_ok_new opts_ok_def books_def
      kept_def newDoneSet_def done_ok_def defaultMaxOpen_def defaultOrphanTTL_def defaultSnapshotEvery_def
      defaultStallFloor_def defaultStallQuiet_def defaultHalfCloseGrace_def)

lemma inv_step:
  assumes "asm_inv K h a" "K = None \<or> (\<forall>clk g at. op \<noteq> AsmRestart clk g at)"
  shows "asm_inv K (snd (asm_step (a, h) op)) (fst (asm_step (a, h) op))"
  using assms inv_drain [OF assms(1)]
  by (cases op) (auto simp: inv_line inv_snapshot inv_tick inv_restart inv_tag drain_def)

definition run_ok :: "assembler \<times> conn_record list \<Rightarrow> bool" where
  "run_ok s \<longleftrightarrow> asm_inv None (snd s) (fst s)"

interpretation asm_run: invariant_run asm_step run_ok
  by unfold_locales (use inv_step in \<open>fastforce simp: run_ok_def\<close>)

lemma run_reaches:
  "(a, h) = foldl asm_step (new_assembler p, []) ops \<Longrightarrow> asm_inv None h a"
  using asm_run.run_inv [of "(new_assembler p, [])" ops] inv_new [of p]
  by (metis fst_conv run_ok_def snd_conv)

end
