(* ===== verification/Session_Asm_Properties.thy ===== *)
theory Session_Asm_Properties
  imports Session_Asm_Invariant
begin

text \<open>
  What the assembler promises, over all sequences of calls on a new assembler: agreement of its
  indexes, accounting of connections, honesty of records, no leaks, idempotence of the line
  that is logged twice, independence of interleaved connections, and restarts.
\<close>

subsection \<open>One line and the other connections\<close>

lemma conn_at_bySrc [simp]: "conn_at (a\<lparr>as_bySrc := m\<rparr>) = conn_at a"
  by (simp add: fun_eq_iff conn_at_def)

lemma indexSrc_conn [simp]: "q \<noteq> r \<Longrightarrow> conn_at (indexSrc a r) q = conn_at a q"
  by (simp add: indexSrc_def Let_def)

lemma indexSrc_open [simp]: "as_open (indexSrc a r) = as_open a"
  by (simp add: indexSrc_def Let_def)

lemma halfClosed_conn: "q \<noteq> r \<Longrightarrow> conn_at (halfClosed a r l at) q = conn_at a q"
  by (simp add: halfClosed_alt Let_def forget_conn)

lemma halfClosed_open:
  "as_open (halfClosed a r l at) = as_open a \<or>
   as_open (halfClosed a r l at) = AList.delete (rec_LogID (cn_rec (conn_at a r))) (as_open a)"
  using keeps_keys_half_mark [of l at] by (simp add: halfClosed_alt Let_def keeps_keys_def)

lemma apply_line_conn: "q \<noteq> r \<Longrightarrow> conn_at (apply_line a r l at) q = conn_at a q"
  by (cases "ln_Event l") (simp_all add: apply_line_def Let_def forget_conn halfClosed_conn)

lemma apply_line_open:
  "as_open (apply_line a r l at) = as_open a \<or>
   as_open (apply_line a r l at) = AList.delete (rec_LogID (cn_rec (conn_at a r))) (as_open a)"
proof -
  have n: "rec_LogID (cn_rec (note_line l at c)) = rec_LogID (cn_rec c)" for c
    using keeps_keys_note_line by (simp add: keeps_keys_def)
  have d: "rec_LogID (cn_rec (upd_rec (note_dial_failed l) c)) = rec_LogID (cn_rec c)" for c
    using observes_keeps_keys [OF observes_dial_failed] by (simp add: keeps_keys_def)
  have o: "rec_LogID (cn_rec (offer cand c)) = rec_LogID (cn_rec c)" for cand c
    using keeps_keys_offer by (simp add: keeps_keys_def)
  show ?thesis
    using halfClosed_open [of "upd_conn (upd_conn a r (note_line l at)) r (offer cand)" r l at for cand]
    by (cases "ln_Event l") (auto simp: apply_line_def Let_def n d o)
qed

lemma create_other:
  assumes "int (length (as_open a)) < op_MaxOpen (as_opts a)" "create a l at = (b, r)"
  shows "r = as_next a" "map_of (as_open b) = (map_of (as_open a))(ln_LogID l \<mapsto> r)"
    "rec_LogID (cn_rec (conn_at b r)) = ln_LogID l" "q \<noteq> r \<Longrightarrow> conn_at b q = conn_at a q"
  using assms by (auto simp: create_def Let_def update_conv' conn_at_def zero_conn_def)

lemma line_other:
  assumes inv: "asm_inv K h a" and q: "map_of (as_open a) y = Some q" "y \<noteq> ln_LogID l"
    and room: "int (length (as_open a)) < op_MaxOpen (as_opts a)"
  shows "map_of (as_open (asm_line a clk l)) y = Some q \<and> conn_at (asm_line a clk l) q = conn_at a q"
proof -
  define at where "at = (if ln_At l = 0 then clk else ln_At l)"
  note eq = asm_line_def [of a clk l, folded at_def, unfolded Let_def]
  note D = idx_okD [OF asm_invD(1) [OF inv]]
  have ap: "map_of (as_open (apply_line b r l at)) y = Some q \<and> conn_at (apply_line b r l at) q = conn_at a q"
    if "map_of (as_open b) y = Some q" "conn_at b q = conn_at a q" "q \<noteq> r"
      "rec_LogID (cn_rec (conn_at b r)) = ln_LogID l" for b r
    using that q(2) apply_line_open [of b r l at] by (auto simp: apply_line_conn delete_conv')
  have cr: "map_of (as_open (case create b l at of (b, r) \<Rightarrow> apply_line b r l at)) y = Some q
      \<and> conn_at (case create b l at of (b, r) \<Rightarrow> apply_line b r l at) q = conn_at a q"
    if "map_of (as_open b) y = Some q" "conn_at b q = conn_at a q"
      "int (length (as_open b)) < op_MaxOpen (as_opts b)" "q < as_next b" for b
  proof -
    obtain b' r where b': "create b l at = (b', r)" by fastforce
    note C = create_other [OF that(3) b']
    show ?thesis unfolding b' prod.case
      by (rule ap) (use C that q(2) in auto)
  qed
  have "q < as_next a" using D(12) D(3) [OF q(1)] by blast
  moreover have "q \<noteq> r" if "map_of (as_open a) (ln_LogID l) = Some r" for r
    using D(4) [OF q(1)] D(4) [OF that] q(2) by auto
  ultimately have old: "?thesis" if r: "map_of (as_open a) (ln_LogID l) = Some r" and i: "ln_HasLogID l" for r
  proof -
    let ?f = "finish a r collision at durFromCore"
    have "int (length (as_open ?f)) < op_MaxOpen (as_opts ?f)"
      using room length_delete_le [of "rec_LogID (cn_rec (conn_at a r))" "as_open a"] by simp
    moreover have "map_of (as_open ?f) y = Some q" using q D(4) [OF r] by (simp add: delete_conv')
    moreover have "conn_at ?f q = conn_at a q" by (rule finish_others) (use r \<open>\<And>r. _ \<Longrightarrow> q \<noteq> r\<close> in blast)
    moreover have "q < as_next ?f" using \<open>q < as_next a\<close> by simp
    ultimately have "map_of (as_open (case create ?f l at of (b, r) \<Rightarrow> apply_line b r l at)) y = Some q
      \<and> conn_at (case create ?f l at of (b, r) \<Rightarrow> apply_line b r l at) q = conn_at a q"
      by (intro cr)
    then show ?thesis
      using r i ap [of a r] q(1) D(4) [OF r] \<open>\<And>r. _ \<Longrightarrow> q \<noteq> r\<close> by (simp add: eq)
  qed
  show ?thesis
  proof (cases "map_of (as_open a) (ln_LogID l)")
    case None
    then show ?thesis using cr [of a] q(1) room \<open>q < as_next a\<close> by (simp add: eq)
  next
    case (Some r)
    then show ?thesis using old q(1) by (cases "ln_HasLogID l") (auto simp: eq)
  qed
qed

subsection \<open>The outbound line that is logged twice\<close>

lemma put_same: "as_heap a r = Some c \<Longrightarrow> put_conn a r c = a"
  by (simp add: put_conn_def fun_upd_idem)

lemma apply_outbound_again:
  assumes "ln_Event l = EventOutboundTo"
  shows "apply_line (apply_line a r l at) r l at = apply_line a r l at"
    "as_open (apply_line a r l at) = as_open a"
proof -
  let ?b = "apply_line a r l at"
  show "as_open ?b = as_open a" using assms by (simp add: apply_line_def Let_def)
  have "as_heap ?b r = Some (conn_at ?b r)" "cn_haveOutbound (conn_at ?b r)"
    "cn_lastSeenAt (conn_at ?b r) = at"
    using assms by (auto simp: apply_line_def Let_def note_line_def upd_rec_def)
  then show "apply_line ?b r l at = ?b"
    using assms put_same by (subst (1) apply_line_def) (simp add: upd_conn_def)
qed

subsection \<open>A restart of sing-box\<close>

lemma final_record_gen: "as_gen a = as_gen b \<Longrightarrow> final_record a c cand at src = final_record b c cand at src"
  by (simp add: final_record_def)

lemma finish_all_out:
  assumes "asm_inv K h a" "distinct rs" "set rs \<subseteq> set (as_order a)"
  shows "as_out (foldl (\<lambda>a r. finish a r cand at src) a rs) = as_out a @
    filter (\<lambda>rc. rec_SrcIP rc \<noteq> [] \<or> rec_DstHost rc \<noteq> [])
      (map (\<lambda>r. final_record a (conn_at a r) cand at src) rs)"
  using assms
proof (induction rs arbitrary: a)
  case (Cons r rs)
  let ?b = "finish a r cand at src"
  have r: "r \<in> set (as_order a)" using Cons.prems by simp
  have b: "asm_inv K h ?b" using inv_finish [OF Cons.prems(1) r] .
  have sub: "set rs \<subseteq> set (as_order ?b)"
    using Cons.prems finish_order [OF asm_invD(1) [OF Cons.prems(1)] r] by auto
  have same: "map (\<lambda>q. final_record ?b (conn_at ?b q) cand at src) rs
      = map (\<lambda>q. final_record a (conn_at a q) cand at src) rs"
  proof (rule map_cong [OF refl])
    fix q assume "q \<in> set rs"
    then have "q \<noteq> r" using Cons.prems(2) by auto
    then have "conn_at ?b q = conn_at a q" by (rule finish_others)
    then show "final_record ?b (conn_at ?b q) cand at src = final_record a (conn_at a q) cand at src"
      using final_record_gen [of ?b a] by simp
  qed
  have out: "as_out ?b = as_out a @
     filter (\<lambda>rc. rec_SrcIP rc \<noteq> [] \<or> rec_DstHost rc \<noteq> []) [final_record a (conn_at a r) cand at src]"
    by (simp add: finish_def Let_def push_def)
  have "as_out (foldl (\<lambda>a r. finish a r cand at src) ?b rs) = as_out ?b @
    filter (\<lambda>rc. rec_SrcIP rc \<noteq> [] \<or> rec_DstHost rc \<noteq> [])
      (map (\<lambda>q. final_record a (conn_at a q) cand at src) rs)"
    using Cons.IH [OF b _ sub] Cons.prems(2) unfolding same by simp
  then show ?case unfolding foldl_Cons out by simp
qed simp

subsection \<open>A poll that does not list a connection\<close>

lemma items_unlisted:
  assumes "asm_inv K h a" "\<forall>item \<in> set items. srcKey (si_SrcIP item) (si_SrcPort item) \<noteq> cn_srcKey (conn_at a r)"
  shows "conn_at (foldl (snapshot_item_step at) a items) r = conn_at a r"
  using assms
proof (induction items arbitrary: a)
  case (Cons item items)
  have "conn_at (snapshot_item_step at a item) r = conn_at a r"
    using Cons.prems idx_okD(10) [OF asm_invD(1) [OF Cons.prems(1)]]
    by (auto simp: snapshot_item_step_def join_def split: option.split)
  then show ?case using Cons.IH [of "snapshot_item_step at a item"] Cons.prems inv_item by simp
qed simp

lemma sweep_vanished:
  assumes inv: "asm_inv K h a" and r: "r \<in> set (as_order a)"
    and v: "cn_sampled (conn_at a r)" "cn_lastSnapSeq (conn_at a r) < as_snapSeq a"
  shows "r \<notin> set (as_order (sweepVanished a at))"
  unfolding sweepVanished_def
  by (rule sweep.loop_ends [OF inv inv_distinct [OF inv] order_refl r])
    (use v in \<open>simp add: sweep_step_def Let_def finish_gone del: finish_fields(6)\<close>)

section \<open>Properties\<close>


definition sample_opts :: asm_options where
  "sample_opts = \<lparr>op_NodeID = ''n1'', op_CoreGeneration = 1, op_MaxOpen = 2, op_OrphanTTL = 0,
     op_SnapshotEvery = 0, op_StallFloor = 0, op_StallQuiet = 0, op_HalfCloseGrace = 0\<rparr>"

definition sample_line :: "32 word \<Rightarrow> event \<Rightarrow> log_line" where
  "sample_line x e = blank_line 1000000000 [] []
     \<lparr>ln_HasLogID := True, ln_LogID := x, ln_Event := e, ln_SrcIP := ''10.0.0.1'',
      ln_SrcPort := 5000, ln_TagName := ''direct''\<rparr>"


text \<open>
  C2. Every connection is accounted for. The connections ever tracked are exactly those still
  open, those published with a final record, those counted as partial and those counted as
  dropped, and the counter of emitted records is the number of records handed out or still
  waiting, all modulo the width of the counters.
\<close>

theorem asm_conservation:
  assumes "(a, h) = foldl asm_step (new_assembler p, []) ops"
  shows "word_of_nat (as_next a) =
      word_of_nat (length (as_open a)) + word_of_nat (length (filter (\<lambda>rc. \<not> rec_Open rc) (h @ as_out a)))
      + st_Partial (as_stats a) + st_Dropped (as_stats a)
    \<and> st_Emitted (as_stats a) = word_of_nat (length (h @ as_out a))"
  using asm_invD(8) [OF run_reaches [OF assms]] by (simp add: books_def)

theorem asm_conservation_witness:
  "st_Emitted (as_stats (fst (foldl asm_step (new_assembler sample_opts, [])
     [AsmLine 1 (sample_line 7 EventInboundFrom), AsmLine 2 (sample_line 7 EventConnectionClosed)])))
   = word_of_nat (length (snd (foldl asm_step (new_assembler sample_opts, [])
       [AsmLine 1 (sample_line 7 EventInboundFrom), AsmLine 2 (sample_line 7 EventConnectionClosed)])
     @ as_out (fst (foldl asm_step (new_assembler sample_opts, [])
       [AsmLine 1 (sample_line 7 EventInboundFrom), AsmLine 2 (sample_line 7 EventConnectionClosed)]))))"
  using asm_conservation [OF prod.collapse, of sample_opts "[AsmLine 1 (sample_line 7 EventInboundFrom),
    AsmLine 2 (sample_line 7 EventConnectionClosed)]"] by simp

text \<open>
  A record never states more than was observed. In every record ever emitted, bytes that no
  snapshot reported are unknown, with both counts and the stall at zero; the close reason is
  set; a user kind other than unnamed or unobserved comes with the name that has that shape;
  an open snapshot claims no ending; a final record has a source or a destination; and the
  capture sessions are sorted, different and not empty strings.
\<close>

theorem asm_records_honest:
  assumes "(a, h) = foldl asm_step (new_assembler p, []) ops" "rc \<in> set (h @ as_out a)"
  shows "(rec_BytesKnown rc \<or> rec_Upload rc = 0 \<and> rec_Download rc = 0 \<and> rec_StalledAt rc = 0)
    \<and> rec_CloseReason rc \<noteq> CloseUnset \<and> user_named (rec_UserKind rc) (rec_UserName rc)
    \<and> (if rec_Open rc then rec_CloseReason rc = CloseUnknown \<and> rec_EndedAt rc = 0
       else rec_SrcIP rc \<noteq> [] \<or> rec_DstHost rc \<noteq> [])
    \<and> sorted (rec_SessionIDs rc) \<and> distinct (rec_SessionIDs rc) \<and> [] \<notin> set (rec_SessionIDs rc)"
  using asm_invD(7) [OF run_reaches [OF assms(1)] assms(2)]
  by (auto simp: record_ok_def base_ok_def user_ok_def bytes_ok_def sessions_ok_def)

lemmas asm_eval = sample_opts_def sample_line_def blank_line_def new_assembler_def asm_line_def
  create_def apply_line_def upd_conn_def put_conn_def conn_at_def note_line_def upd_rec_def
  note_network_def note_inbound_tag_def networkOf_def indexSrc_def srcKey_def finish_def forget_def
  final_record_def push_def done_add_def newDoneSet_def zero_conn_def zero_conn_record_def
  no_close_def terminal_def closeReasonFor_def wrap64_def done_has_def note_outbound_def Let_def
  itoa_def show_nat.simps digit_char_def defaultOrphanTTL_def defaultSnapshotEvery_def
  defaultStallFloor_def defaultStallQuiet_def defaultHalfCloseGrace_def

theorem asm_records_honest_witness:
  "rec_CloseReason (hd (as_out (fst (foldl asm_step (new_assembler sample_opts, [])
     [AsmLine 1 (sample_line 7 EventInboundFrom), AsmLine 2 (sample_line 7 EventConnectionClosed)]))))
   \<noteq> CloseUnset"
proof -
  let ?s = "foldl asm_step (new_assembler sample_opts, [])
     [AsmLine 1 (sample_line 7 EventInboundFrom), AsmLine 2 (sample_line 7 EventConnectionClosed)]"
  have "as_out (fst ?s) \<noteq> []" by (simp add: asm_eval)
  then have "hd (as_out (fst ?s)) \<in> set (snd ?s @ as_out (fst ?s))" by simp
  from asm_records_honest [OF prod.collapse this] show ?thesis by blast
qed

text \<open>
  No connection leaks. After a tick at an instant, every connection still tracked was seen
  less than the orphan time ago, was published less than the snapshot interval ago, and, if
  one direction has closed, is within the grace or was listed by the latest poll.
\<close>

theorem tick_leaves_no_stale:
  assumes "(a, h) = foldl asm_step (new_assembler p, []) ops" "now \<noteq> 0"
    and "b = asm_tick a clk now" "map_of (as_open b) i = Some r" "c = conn_at b r"
  shows "time_sub now (cn_lastSeenAt c) < op_OrphanTTL (as_opts b)
    \<and> time_sub now (cn_lastEmitAt c) < op_SnapshotEvery (as_opts b)
    \<and> (cn_firstHalfAt c \<noteq> 0 \<longrightarrow>
        time_sub now (cn_firstHalfAt c) < op_HalfCloseGrace (as_opts b) \<or> stillListed b c)"
proof -
  have inv: "asm_inv None h a" by (rule run_reaches [OF assms(1)])
  have b: "b = foldl (tick_step now) a (as_order a)" using assms(2,3) by (simp add: asm_tick_def)
  have "r \<in> set (as_order b)"
    using idx_okD(3) [OF asm_invD(1) [OF tick.loop_all(1) [OF inv, of now]]] assms(4) b by simp
  then have "tick_post now (as_opts a) (as_snapSeq a) c"
    using tick.loop_all(2) [OF inv, of r now] assms(5) b by simp
  then show ?thesis
    using tick.loop_all(3,4) [OF inv, of now] b by (simp add: tick_post_def stillListed_def)
qed

theorem tick_leaves_no_stale_witness:
  "\<exists>r. map_of (as_open (asm_tick (fst (foldl asm_step (new_assembler sample_opts, [])
     [AsmLine 1 (sample_line 7 EventInboundFrom)])) 1 (2 * second))) 7 = Some r
   \<and> time_sub (2 * second) (cn_lastSeenAt (conn_at (asm_tick (fst (foldl asm_step
       (new_assembler sample_opts, []) [AsmLine 1 (sample_line 7 EventInboundFrom)])) 1 (2 * second)) r))
     < op_OrphanTTL (as_opts (asm_tick (fst (foldl asm_step (new_assembler sample_opts, [])
     [AsmLine 1 (sample_line 7 EventInboundFrom)])) 1 (2 * second)))"
proof -
  have "map_of (as_open (asm_tick (fst (foldl asm_step (new_assembler sample_opts, [])
     [AsmLine 1 (sample_line 7 EventInboundFrom)])) 1 (2 * second))) 7 = Some 0"
    by (simp add: asm_eval asm_tick_def tick_step_def half_expired_def evalStall_def time_sub_def)
  from tick_leaves_no_stale [OF prod.collapse _ refl this refl] show ?thesis
    using \<open>_ = Some 0\<close> by auto
qed

text \<open>
  Leaving the connection table ends a connection. A tracked connection that some earlier poll
  listed and whose source address the new poll does not list is no longer tracked after it, and
  every sampled connection still tracked was listed by the new poll.
\<close>

theorem poll_ends_vanished:
  assumes "(a, h) = foldl asm_step (new_assembler p, []) ops" "b = asm_snapshot a clk s"
    and "map_of (as_open a) i = Some r" "c = conn_at a r"
    and "cn_sampled c" "cn_lastSnapSeq c < as_snapSeq a + 1"
    and "\<forall>item \<in> set (sn_Items s). srcKey (si_SrcIP item) (si_SrcPort item) \<noteq> cn_srcKey c"
  shows "r \<notin> set (as_order b)
    \<and> (\<forall>q \<in> set (as_order b). cn_sampled (conn_at b q) \<longrightarrow> stillListed b (conn_at b q))"
proof -
  let ?at = "if sn_At s = 0 then clk else sn_At s" and ?a = "a\<lparr>as_snapSeq := as_snapSeq a + 1\<rparr>"
  let ?m = "foldl (snapshot_item_step ?at) ?a (sn_Items s)"
  have inv: "asm_inv None h a" by (rule run_reaches [OF assms(1)])
  then have m: "asm_inv None h ?m" by (intro items_run.run_inv inv_snapSeq)
  have eq: "conn_at ?a r = c" by (simp add: assms(4) conn_at_def)
  have cm: "conn_at ?m r = c"
    using items_unlisted [OF inv_snapSeq [OF inv], of "sn_Items s" "as_snapSeq a + 1" r ?at] assms(7) eq by simp
  have b: "b = sweepVanished ?m ?at" using assms(2) by (simp add: asm_snapshot_def Let_def)
  have "r \<in> set (as_order ?m)" "as_snapSeq ?m = as_snapSeq a + 1"
    using items_env [of ?at ?a "sn_Items s"] idx_okD(3) [OF asm_invD(1) [OF inv] assms(3)] by simp_all
  then have "r \<notin> set (as_order b)"
    using sweep_vanished [OF m] cm assms(5,6) b by simp
  moreover have "\<not> (cn_sampled (conn_at b q) \<and> cn_lastSnapSeq (conn_at b q) < as_snapSeq b)"
    if "q \<in> set (as_order b)" for q
    using sweep.loop_all(2) [OF m, of q ?at] sweep.loop_all(4) [OF m, of ?at] that b
    by (simp add: sweepVanished_def)
  ultimately show ?thesis by (auto simp: stillListed_def not_less)
qed

definition sample_item :: snapshot_item where
  "sample_item = \<lparr>si_SrcIP = ''10.0.0.1'', si_SrcPort = ''5000'', si_DstHost = [], si_DstPort = [],
     si_InboundType = [], si_InboundTag = [], si_Network = [], si_Upload = 10, si_Download = 20,
     si_Rule = [], si_Chains = [], si_Start = 0\<rparr>"

theorem poll_ends_vanished_witness:
  "(0 :: nat) \<notin> set (as_order (asm_snapshot (fst (foldl asm_step (new_assembler sample_opts, [])
     [AsmLine 1 (sample_line 7 EventInboundFrom), AsmSnapshot 1 \<lparr>sn_At = 5, sn_Items = [sample_item]\<rparr>]))
     1 \<lparr>sn_At = 6, sn_Items = []\<rparr>))"
proof -
  let ?s = "foldl asm_step (new_assembler sample_opts, [])
     [AsmLine 1 (sample_line 7 EventInboundFrom), AsmSnapshot 1 \<lparr>sn_At = 5, sn_Items = [sample_item]\<rparr>]"
  have "map_of (as_open (fst ?s)) 7 = Some 0" "cn_sampled (conn_at (fst ?s) 0)"
    "cn_lastSnapSeq (conn_at (fst ?s) 0) < as_snapSeq (fst ?s) + 1"
    by (simp_all add: asm_eval sample_item_def asm_snapshot_def sweepVanished_def sweep_step_def
      snapshot_item_step_def join_def join_bytes_def join_fields_def evalStall_def time_sub_def
      char_of_def bit_Suc_0_iff)
  from poll_ends_vanished [OF prod.collapse refl this(1) refl this(2,3)] show ?thesis by simp
qed

text \<open>
  A restart of sing-box closes everything. After it nothing is tracked and no id counts as
  finished; each connection that was tracked and has a source or a destination got exactly one
  final record, in the order they were created, with the reason core restart, the end and the
  duration taken from the restart, and the generation of the process that ended; the counter of
  swept connections grows by the number tracked; later records carry the new generation.
\<close>

theorem restart_closes_all:
  assumes "(a, h) = foldl asm_step (new_assembler p, []) ops" "at \<noteq> 0"
    and "b = coreRestart a clk g at"
  shows "as_open b = [] \<and> as_order b = [] \<and> as_bySrc b = Map.empty \<and> as_gen b = g
    \<and> (\<forall>i. \<not> tracked b i)
    \<and> st_Swept (as_stats b) = st_Swept (as_stats a) + word_of_nat (length (as_open a))
    \<and> as_out b = as_out a @ filter (\<lambda>rc. rec_SrcIP rc \<noteq> [] \<or> rec_DstHost rc \<noteq> [])
        (map (\<lambda>r. (cn_rec (conn_at a r))
           \<lparr>rec_SessionIDs := cn_sessions (conn_at a r), rec_Open := False, rec_EndedAt := at,
            rec_CoreGeneration := as_gen a, rec_CloseReason := CloseCoreRestart,
            rec_CloseError := [],
            rec_DurationMS := millis (time_sub at (rec_StartedAt (cn_rec (conn_at a r))))\<rparr>)
          (as_order a))"
proof -
  have inv: "asm_inv None h a" by (rule run_reaches [OF assms(1)])
  let ?cand = "terminal CloseCoreRestart []"
  define m where "m = foldl (\<lambda>a r. finish a r ?cand at durFromClock) a (as_order a)"
  have b: "b = m\<lparr>as_stats := (as_stats m)\<lparr>st_Swept := st_Swept (as_stats m) + word_of_nat (length (as_order a))\<rparr>,
      as_done := done_reset (as_done m), as_gen := g\<rparr>"
    using assms(2,3) by (simp add: coreRestart_def Let_def m_def)
  have L: "asm_inv None h m" "set (as_order m) = {}"
    unfolding m_def using restart.loop_all(1) [OF inv]
    by (blast, metis restart.loop_all(2) [OF inv] ex_in_conv)
  have ord: "as_order m = []" using L(2) by simp
  have opn: "as_open m = []" using idx_length [OF asm_invD(1) [OF L(1)]] ord by simp
  have bys: "as_bySrc m = Map.empty"
    using idx_okD(9) [OF asm_invD(1) [OF L(1)]] ord by (intro ext) (metis empty_iff list.set(1) not_None_eq)
  have sw: "st_Swept (as_stats (foldl (\<lambda>a r. finish a r ?cand at durFromClock) x rs)) = st_Swept (as_stats x)" for x rs
    by (induction rs arbitrary: x) (simp_all add: finish_def Let_def push_def)
  have out: "as_out m = as_out a @ filter (\<lambda>rc. rec_SrcIP rc \<noteq> [] \<or> rec_DstHost rc \<noteq> [])
      (map (\<lambda>r. final_record a (conn_at a r) ?cand at durFromClock) (as_order a))"
    unfolding m_def by (rule finish_all_out [OF inv inv_distinct [OF inv] order_refl])
  then have "as_out b = as_out a @ filter (\<lambda>rc. rec_SrcIP rc \<noteq> [] \<or> rec_DstHost rc \<noteq> [])
        (map (\<lambda>r. (cn_rec (conn_at a r))
           \<lparr>rec_SessionIDs := cn_sessions (conn_at a r), rec_Open := False, rec_EndedAt := at,
            rec_CoreGeneration := as_gen a, rec_CloseReason := CloseCoreRestart,
            rec_CloseError := [],
            rec_DurationMS := millis (time_sub at (rec_StartedAt (cn_rec (conn_at a r))))\<rparr>)
          (as_order a))"
    by (simp add: b final_record_def terminal_def)
  moreover have "\<forall>i. \<not> tracked b i" by (simp add: tracked_def b opn done_has_def done_reset_def)
  ultimately show ?thesis
    using idx_length [OF asm_invD(1) [OF inv]] sw [of a "as_order a"]
    by (simp add: b ord opn bys m_def [symmetric])
qed

theorem restart_closes_all_witness:
  "as_open (coreRestart (fst (foldl asm_step (new_assembler sample_opts, [])
     [AsmLine 1 (sample_line 7 EventInboundFrom)])) 1 2 9) = []"
  using restart_closes_all [OF prod.collapse _ refl, of 9 sample_opts
      "[AsmLine 1 (sample_line 7 EventInboundFrom)]" 1 2] by simp

text \<open>
  The duplicate outbound line. sing-box logs the outbound line twice; feeding it a second
  time changes nothing at all.
\<close>

theorem outbound_line_idempotent:
  assumes "ln_Event l = EventOutboundTo"
  shows "asm_line (asm_line a clk l) clk l = asm_line a clk l"
proof -
  define at where "at = (if ln_At l = 0 then clk else ln_At l)"
  note eq = asm_line_def [of _ clk l, folded at_def, unfolded Let_def]
  have again: "asm_line (apply_line b r l at) clk l = apply_line b r l at"
    if "map_of (as_open b) (ln_LogID l) = Some r" "ln_HasLogID l" for b r
    using that assms apply_outbound_again [OF assms, of b r at] by (simp add: eq)
  have "map_of (as_open b) (ln_LogID l) = Some r" if "create a l at = (b, r)" for b r
    using that by (auto simp: create_def Let_def update_conv')
  then have new: "asm_line (case create a l at of (b, r) \<Rightarrow> apply_line b r l at) clk l
      = (case create a l at of (b, r) \<Rightarrow> apply_line b r l at)" if "ln_HasLogID l"
    using again that by (auto split: prod.split)
  show ?thesis
  proof (cases "map_of (as_open a) (ln_LogID l)")
    case None
    then have "asm_line a clk l = (if \<not> ln_HasLogID l \<or> done_has (as_done a) (ln_LogID l) then a
        else case create a l at of (b, r) \<Rightarrow> apply_line b r l at)"
      using assms by (simp add: eq)
    then show ?thesis using new by (auto split: if_splits)
  next
    case (Some r)
    then have "asm_line a clk l = (if ln_HasLogID l then apply_line a r l at else a)"
      using assms by (simp add: eq)
    then show ?thesis using again [OF Some] by (auto split: if_splits)
  qed
qed

theorem outbound_line_idempotent_witness:
  "asm_line (asm_line (new_assembler sample_opts) 1 (sample_line 7 EventOutboundTo)) 1
     (sample_line 7 EventOutboundTo)
   = asm_line (new_assembler sample_opts) 1 (sample_line 7 EventOutboundTo)"
  by (rule outbound_line_idempotent) (simp add: sample_line_def)

text \<open>
  Lines of different connections do not mix. While the cap is not reached, a line changes no
  connection but the one whose log id it carries: every other open connection stays open and
  keeps its whole state.
\<close>

theorem line_touches_one_connection:
  assumes "(a, h) = foldl asm_step (new_assembler p, []) ops"
    and "int (length (as_open a)) < op_MaxOpen (as_opts a)"
    and "map_of (as_open a) i = Some r" "i \<noteq> ln_LogID l"
  shows "map_of (as_open (asm_line a clk l)) i = Some r \<and> conn_at (asm_line a clk l) r = conn_at a r"
  using line_other [OF run_reaches [OF assms(1)] assms(3,4,2)] .

theorem line_touches_one_connection_witness:
  "map_of (as_open (asm_line (fst (foldl asm_step (new_assembler sample_opts, [])
     [AsmLine 1 (sample_line 7 EventInboundFrom)])) 1 (sample_line 8 EventDialFailed))) 7 = Some 0"
proof -
  let ?s = "foldl asm_step (new_assembler sample_opts, []) [AsmLine 1 (sample_line 7 EventInboundFrom)]"
  have 1: "int (length (as_open (fst ?s))) < op_MaxOpen (as_opts (fst ?s))" by (simp add: asm_eval)
  have 2: "map_of (as_open (fst ?s)) 7 = Some 0" by (simp add: asm_eval)
  have 3: "(7 :: 32 word) \<noteq> ln_LogID (sample_line 8 EventDialFailed)" by (simp add: sample_line_def)
  show ?thesis using line_touches_one_connection [OF prod.collapse 1 2 3] by blast
qed

text \<open>
  A finished connection is not resurrected. Take an open connection whose id is not yet known
  as finished. If it is no longer open after some calls without a restart, during which no more
  connections ended than the cap, then its id is tracked as finished and a trailing line of it
  changes nothing, unless the line announces a new connection.
\<close>

theorem finished_not_resurrected:
  assumes "(a, h) = foldl asm_step (new_assembler p, []) ops"
    and "map_of (as_open a) x \<noteq> None" "\<not> done_has (as_done a) x"
    and "\<forall>clk g at. AsmRestart clk g at \<notin> set ops2"
    and "(b, h2) = foldl asm_step (a, h) ops2"
    and "map_of (as_open b) x = None"
    and "int (asm_ended b) \<le> int (asm_ended a) + op_MaxOpen (as_opts b)"
    and "ln_LogID l = x" "ln_Event l \<noteq> EventInboundFrom"
  shows "tracked b x \<and> asm_line b clk l = b"
proof -
  define K where "K = Some (asm_ended a, x)"
  have "asm_inv K h a"
    using run_reaches [OF assms(1)] assms(2,3) by (simp add: asm_inv_def kept_def K_def)
  then have "asm_inv K (snd (foldl asm_step (a, h) ops2)) (fst (foldl asm_step (a, h) ops2))"
    using assms(4)
  proof (induction ops2 arbitrary: a h)
    case (Cons op ops2)
    have "asm_inv K (snd (asm_step (a, h) op)) (fst (asm_step (a, h) op))"
      using inv_step [OF Cons.prems(1), of op] Cons.prems(2) by (metis list.set_intros(1))
    then show ?case using Cons.IH [of "snd (asm_step (a, h) op)" "fst (asm_step (a, h) op)"] Cons.prems(2)
      by simp
  qed simp
  then have inv: "asm_inv K h2 b" using assms(5) by (metis fst_conv snd_conv)
  note D = asm_invD [OF inv]
  have "asm_ended b \<le> asm_ended a + ds_cap (as_done b)" using assms(7) D(2,4) by (simp add: opts_ok_def)
  then have "done_has (as_done b) x"
    using D(9) assms(6) dones.room_has [OF D(3)] by (auto simp: kept_def K_def)
  then show ?thesis using assms(6,8,9) by (simp add: tracked_def asm_line_def Let_def)
qed

theorem finished_not_resurrected_witness:
  "asm_line (fst (foldl asm_step (fst (foldl asm_step (new_assembler sample_opts, [])
       [AsmLine 1 (sample_line 7 EventInboundFrom)]), []) [AsmLine 2 (sample_line 7 EventConnectionClosed)])) 3
     (sample_line 7 EventFinished)
   = fst (foldl asm_step (fst (foldl asm_step (new_assembler sample_opts, [])
       [AsmLine 1 (sample_line 7 EventInboundFrom)]), []) [AsmLine 2 (sample_line 7 EventConnectionClosed)])"
proof -
  let ?s = "foldl asm_step (new_assembler sample_opts, []) [AsmLine 1 (sample_line 7 EventInboundFrom)]"
  let ?t = "foldl asm_step (fst ?s, []) [AsmLine 2 (sample_line 7 EventConnectionClosed)]"
  have s: "(fst ?s, []) = ?s" by (rule prod_eqI) simp_all
  have 1: "map_of (as_open (fst ?s)) 7 \<noteq> None" by (simp add: asm_eval)
  have 2: "\<not> done_has (as_done (fst ?s)) 7" by (simp add: asm_eval)
  have 3: "map_of (as_open (fst ?t)) 7 = None" by (simp add: asm_eval)
  have 4: "int (asm_ended (fst ?t)) \<le> int (asm_ended (fst ?s)) + op_MaxOpen (as_opts (fst ?t))"
    by (simp add: asm_eval asm_ended_def)
  show ?thesis
    using finished_not_resurrected [OF s 1 2 _ prod.collapse 3 4, of "sample_line 7 EventFinished"]
    by (simp add: sample_line_def)
qed

text \<open>
  A stall is asserted only from two samples. When a snapshot item marks a connection that was
  not stalled, an earlier sample had reported the same byte counts, at least the quiet time
  lies between the sample at which bytes last moved and this one, the connection is older than
  the floor, and the stall is dated to the last movement. An item that reports other byte
  counts always leaves the connection not stalled.
\<close>

theorem stall_needs_two_samples:
  assumes "rec_StalledAt (cn_rec (conn_at a r)) = 0" "c = conn_at a r"
    and "0 < op_StallQuiet (as_opts a)"
    and "c' = conn_at (join a r item at) r" "rec_StalledAt (cn_rec c') \<noteq> 0"
  shows "cn_sampled c \<and> si_Upload item = rec_Upload (cn_rec c)
    \<and> si_Download item = rec_Download (cn_rec c)
    \<and> rec_StalledAt (cn_rec c') = cn_lastByteChangeAt c
    \<and> op_StallQuiet (as_opts a) \<le> time_sub at (cn_lastByteChangeAt c)
    \<and> op_StallFloor (as_opts a) < time_sub at (rec_StartedAt (cn_rec c))"
proof -
  let ?j = "upd_rec (join_fields item) (join_bytes (as_snapSeq a) item at c)"
  have c': "c' = evalStall at (op_StallFloor (as_opts a)) (op_StallQuiet (as_opts a)) ?j"
    using assms(2,4) by (simp add: join_def)
  have same: "rec_StalledAt (join_fields item rc) = rec_StalledAt rc"
    "rec_StartedAt (join_fields item rc) = rec_StartedAt rc" for rc
    using observes_join_fields by (simp_all add: observes_def)
  have z: "time_sub at at = 0" by (simp add: time_sub_def)
  show ?thesis
    using assms(1,2,3,5) z unfolding c' evalStall_def
    by (auto simp: upd_rec_def join_bytes_def Let_def same split: if_splits)
qed

theorem stall_needs_two_samples_witness:
  "op_StallQuiet (as_opts (fst (foldl asm_step (new_assembler sample_opts, [])
     [AsmLine 1 (sample_line 7 EventInboundFrom),
      AsmSnapshot 1 \<lparr>sn_At = 5 * second, sn_Items = [sample_item]\<rparr>])))
   \<le> time_sub (200 * second) (cn_lastByteChangeAt (conn_at (fst (foldl asm_step (new_assembler sample_opts, [])
     [AsmLine 1 (sample_line 7 EventInboundFrom),
      AsmSnapshot 1 \<lparr>sn_At = 5 * second, sn_Items = [sample_item]\<rparr>])) 0))"
proof -
  let ?a = "fst (foldl asm_step (new_assembler sample_opts, [])
     [AsmLine 1 (sample_line 7 EventInboundFrom),
      AsmSnapshot 1 \<lparr>sn_At = 5 * second, sn_Items = [sample_item]\<rparr>])"
  note ev = asm_eval sample_item_def asm_snapshot_def sweepVanished_def sweep_step_def
      snapshot_item_step_def join_def join_bytes_def join_fields_def evalStall_def time_sub_def
      char_of_def bit_Suc_0_iff
  have 1: "rec_StalledAt (cn_rec (conn_at ?a 0)) = 0" by (simp add: ev)
  have 2: "0 < op_StallQuiet (as_opts ?a)" by (simp add: ev)
  have 3: "rec_StalledAt (cn_rec (conn_at (join ?a 0 sample_item (200 * second)) 0)) \<noteq> 0"
    by (simp add: ev)
  show ?thesis using stall_needs_two_samples [OF 1 refl 2 refl 3] by blast
qed

end
