(* ===== verification/Trace_Policy.thy ===== *)
theory Trace_Policy
  imports Singbox_Log
begin

text \<open>
  The collection policy of a node merged with the capture sessions running on it,
  \<open>internal/tracepolicy/tracepolicy.go\<close>. The trace levels belong to the SDK: the level
  \<open>TraceLevelInfo\<close> and the functions \<open>ValidTraceLevel\<close> and \<open>TraceLevelAtLeast\<close> are the fields of
  \<^verbatim>\<open>trace_levels\<close>, an argument of the definitions, and \<^verbatim>\<open>levels_ok\<close> states what the package
  relies on: the valid levels are lower case words ordered by verbosity.
  \<open>sort.Slice\<close> is modelled by a stable sort; the order of two sessions with the same id is the
  only thing Go leaves open there.
\<close>

section \<open>Definitions\<close>

record trace_levels =
  lv_info :: string
  lv_valid :: "string \<Rightarrow> bool"
  lv_atLeast :: "string \<Rightarrow> string \<Rightarrow> bool"

text \<open>The fields of \<open>model.TraceAgentSession\<close>, \<open>model.TracePolicy\<close> and
  \<open>model.TraceAgentConfig\<close> that the package uses.\<close>

record trace_session =
  ts_ID :: string
  ts_Level :: string
  ts_UserNames :: "string list"
  ts_InboundTags :: "string list"
  ts_DstPatterns :: "string list"
  ts_ExpiresAt :: gotime

record trace_policy =
  tp_Enabled :: bool
  tp_Level :: string

record agent_config =
  ac_Policy :: trace_policy
  ac_Sessions :: "trace_session list"

record decision =
  de_Keep :: bool
  de_SessionIDs :: "string list"
  de_Level :: string

record policy_set =
  ps_nodeEnabled :: bool
  ps_nodeLevel :: string
  ps_sessions :: "trace_session list"
  ps_subscribe :: string
  ps_expiresNext :: gotime

definition normalizeLevel :: "trace_levels \<Rightarrow> string \<Rightarrow> string" where
  "normalizeLevel lv l =
     (let candidate = to_lower (trim_space l)
      in if lv_valid lv candidate then candidate else lv_info lv)"

definition cleanStrings :: "string list \<Rightarrow> string list" where
  "cleanStrings vs = filter (\<lambda>v. v \<noteq> []) (map trim_space vs)"

definition normalizeSession :: "trace_levels \<Rightarrow> trace_session \<Rightarrow> trace_session option" where
  "normalizeSession lv s =
     (let s = s\<lparr>ts_ID := trim_space (ts_ID s)\<rparr>
      in if ts_ID s = [] then None
         else Some (s\<lparr>ts_Level := normalizeLevel lv (ts_Level s),
                      ts_UserNames := cleanStrings (ts_UserNames s),
                      ts_InboundTags := cleanStrings (ts_InboundTags s),
                      ts_DstPatterns := cleanStrings (ts_DstPatterns s)\<rparr>))"

definition build_step :: "trace_levels \<Rightarrow> gotime \<Rightarrow> policy_set \<Rightarrow> trace_session \<Rightarrow> policy_set" where
  "build_step lv now s raw =
     (case normalizeSession lv raw of
        None \<Rightarrow> s
      | Some sess \<Rightarrow>
          (if \<not> ts_ExpiresAt sess > now then s
           else
             let s = s\<lparr>ps_sessions := ps_sessions s @ [sess]\<rparr>;
                 s = (if lv_atLeast lv (ts_Level sess) (ps_subscribe s)
                      then s\<lparr>ps_subscribe := ts_Level sess\<rparr> else s)
             in if ps_expiresNext s = 0 \<or> ts_ExpiresAt sess < ps_expiresNext s
                then s\<lparr>ps_expiresNext := ts_ExpiresAt sess\<rparr> else s))"

definition build_start :: "trace_levels \<Rightarrow> trace_policy \<Rightarrow> policy_set" where
  "build_start lv pol =
     (let level = normalizeLevel lv (tp_Level pol)
      in \<lparr>ps_nodeEnabled = tp_Enabled pol, ps_nodeLevel = level, ps_sessions = [],
          ps_subscribe = (if tp_Enabled pol then level else lv_info lv), ps_expiresNext = 0\<rparr>)"

definition policy_Build :: "trace_levels \<Rightarrow> agent_config \<Rightarrow> gotime \<Rightarrow> policy_set" where
  "policy_Build lv cfg now =
     (let s = foldl (build_step lv now) (build_start lv (ac_Policy cfg)) (ac_Sessions cfg)
      in s\<lparr>ps_sessions := sort_key ts_ID (ps_sessions s)\<rparr>)"

definition subscribeLevel :: "trace_levels \<Rightarrow> policy_set \<Rightarrow> string" where
  "subscribeLevel lv s = (if ps_subscribe s = [] then lv_info lv else ps_subscribe s)"

definition policy_Enabled :: "policy_set \<Rightarrow> bool" where
  "policy_Enabled s \<longleftrightarrow> ps_nodeEnabled s \<or> length (ps_sessions s) > 0"

definition containsExact :: "string list \<Rightarrow> string \<Rightarrow> bool" where
  "containsExact vs want \<longleftrightarrow> want \<noteq> [] \<and> list_ex (\<lambda>v. v = want) vs"

definition matchesInboundTag :: "string list \<Rightarrow> log_line \<Rightarrow> bool" where
  "matchesInboundTag tags l \<longleftrightarrow> list_ex (\<lambda>t. t = ln_TagName l \<or> t = ln_Tag l) tags"

definition matchesDstPattern :: "string list \<Rightarrow> string \<Rightarrow> bool" where
  "matchesDstPattern patterns dstHost \<longleftrightarrow>
     dstHost \<noteq> [] \<and> list_ex (\<lambda>p. str_contains (to_lower dstHost) (to_lower p)) patterns"

definition sessionMatches :: "trace_session \<Rightarrow> log_line \<Rightarrow> string \<Rightarrow> string \<Rightarrow> bool" where
  "sessionMatches sess l user dstHost \<longleftrightarrow>
     \<not> (length (ts_UserNames sess) > 0 \<and> \<not> containsExact (ts_UserNames sess) user) \<and>
     \<not> (length (ts_InboundTags sess) > 0 \<and> \<not> matchesInboundTag (ts_InboundTags sess) l) \<and>
     \<not> (length (ts_DstPatterns sess) > 0 \<and> \<not> matchesDstPattern (ts_DstPatterns sess) dstHost)"

fun match_loop ::
  "trace_levels \<Rightarrow> string \<Rightarrow> log_line \<Rightarrow> string \<Rightarrow> string \<Rightarrow> trace_session list \<Rightarrow>
   string list \<times> string \<Rightarrow> string list \<times> string" where
  "match_loop lv lineLevel l user dstHost [] acc = acc"
| "match_loop lv lineLevel l user dstHost (sess # rest) (ids, best) =
     match_loop lv lineLevel l user dstHost rest
       (if \<not> lv_atLeast lv (ts_Level sess) lineLevel then (ids, best)
        else if \<not> sessionMatches sess l user dstHost then (ids, best)
        else (ids @ [ts_ID sess],
              if best = [] \<or> lv_atLeast lv (ts_Level sess) best then ts_Level sess else best))"

definition policy_Match ::
  "trace_levels \<Rightarrow> policy_set \<Rightarrow> log_line \<Rightarrow> string \<Rightarrow> string \<Rightarrow> decision" where
  "policy_Match lv s l user dstHost =
     (if \<not> policy_Enabled s then \<lparr>de_Keep = False, de_SessionIDs = [], de_Level = []\<rparr>
      else
        let lineLevel = normalizeLevel lv (ln_Level l);
            (ids, best) = match_loop lv lineLevel l user dstHost (ps_sessions s) ([], []);
            floorKeeps = (ps_nodeEnabled s \<and> lv_atLeast lv (ps_nodeLevel s) lineLevel);
            keep = (floorKeeps \<or> length ids > 0)
        in \<lparr>de_Keep = keep, de_SessionIDs = ids,
            de_Level = (if floorKeeps then ps_nodeLevel s else if keep then best else [])\<rparr>)"

definition policy_Policy :: "policy_set \<Rightarrow> trace_policy" where
  "policy_Policy s = \<lparr>tp_Enabled = ps_nodeEnabled s, tp_Level = ps_nodeLevel s\<rparr>"

definition activeSessions :: "policy_set \<Rightarrow> trace_session list" where
  "activeSessions s = (if length (ps_sessions s) = 0 then [] else ps_sessions s)"

definition expiresNext :: "policy_set \<Rightarrow> gotime" where
  "expiresNext s = ps_expiresNext s"

text \<open>What the package relies on of the SDK's trace levels.\<close>

definition levels_ok :: "trace_levels \<Rightarrow> bool" where
  "levels_ok lv \<longleftrightarrow>
     lv_valid lv (lv_info lv) \<and>
     (\<forall>l. lv_valid lv l \<longrightarrow> l \<noteq> [] \<and> to_lower (trim_space l) = l \<and> lv_atLeast lv l l) \<and>
     (\<forall>l m n. lv_valid lv l \<and> lv_valid lv m \<and> lv_valid lv n \<and> lv_atLeast lv l m \<and>
        lv_atLeast lv m n \<longrightarrow> lv_atLeast lv l n) \<and>
     (\<forall>l m. lv_valid lv l \<and> lv_valid lv m \<longrightarrow>
        (lv_atLeast lv l m \<or> lv_atLeast lv m l) \<and>
        (lv_atLeast lv l m \<and> lv_atLeast lv m l \<longrightarrow> l = m))"

section \<open>Lemmas\<close>

lemma levels_okD:
  assumes "levels_ok lv"
  shows "lv_valid lv (lv_info lv)" "lv_valid lv l \<Longrightarrow> l \<noteq> []"
    "lv_valid lv l \<Longrightarrow> to_lower (trim_space l) = l" "lv_valid lv l \<Longrightarrow> lv_atLeast lv l l"
    "lv_valid lv l \<Longrightarrow> lv_valid lv m \<Longrightarrow> lv_valid lv n \<Longrightarrow> lv_atLeast lv l m \<Longrightarrow>
       lv_atLeast lv m n \<Longrightarrow> lv_atLeast lv l n"
    "lv_valid lv l \<Longrightarrow> lv_valid lv m \<Longrightarrow> \<not> lv_atLeast lv l m \<Longrightarrow> lv_atLeast lv m l"
    "lv_valid lv l \<Longrightarrow> lv_valid lv m \<Longrightarrow> lv_atLeast lv l m \<Longrightarrow> lv_atLeast lv m l \<Longrightarrow> l = m"
  using assms unfolding levels_ok_def by blast+

lemma normalizeLevel_valid: "levels_ok lv \<Longrightarrow> lv_valid lv (normalizeLevel lv l)"
  by (simp add: normalizeLevel_def Let_def levels_okD)

lemma normalizeLevel_id: "levels_ok lv \<Longrightarrow> lv_valid lv l \<Longrightarrow> normalizeLevel lv l = l"
  by (simp add: normalizeLevel_def Let_def levels_okD(3))

lemma cleanStrings_idem: "cleanStrings (cleanStrings vs) = cleanStrings vs"
  by (induction vs) (simp_all add: cleanStrings_def)

lemma normalizeSession_again:
  assumes "levels_ok lv" "normalizeSession lv raw = Some sess"
  shows "normalizeSession lv sess = Some sess"
  using assms
  by (auto simp: normalizeSession_def Let_def cleanStrings_idem normalizeLevel_id normalizeLevel_valid
      split: if_splits)

lemma normalizeSession_level:
  "levels_ok lv \<Longrightarrow> normalizeSession lv raw = Some sess \<Longrightarrow> lv_valid lv (ts_Level sess)"
  by (auto simp: normalizeSession_def Let_def normalizeLevel_valid split: if_splits)

subsection \<open>What Build computes\<close>

definition running :: "trace_levels \<Rightarrow> gotime \<Rightarrow> trace_session list \<Rightarrow> trace_session list" where
  "running lv now raws = filter (\<lambda>s. ts_ExpiresAt s > now) (List.map_filter (normalizeSession lv) raws)"

fun most_verbose :: "trace_levels \<Rightarrow> string \<Rightarrow> string list \<Rightarrow> string" where
  "most_verbose lv m [] = m"
| "most_verbose lv m (l # ls) = most_verbose lv (if lv_atLeast lv l m then l else m) ls"

fun earliest :: "gotime \<Rightarrow> gotime list \<Rightarrow> gotime" where
  "earliest e [] = e"
| "earliest e (t # ts) = earliest (if e = 0 \<or> t < e then t else e) ts"

lemma build_fold:
  "foldl (build_step lv now) s raws =
     s\<lparr>ps_sessions := ps_sessions s @ running lv now raws,
       ps_subscribe := most_verbose lv (ps_subscribe s) (map ts_Level (running lv now raws)),
       ps_expiresNext := earliest (ps_expiresNext s) (map ts_ExpiresAt (running lv now raws))\<rparr>"
proof (induction raws arbitrary: s)
  case (Cons raw raws)
  show ?case
  proof (cases "normalizeSession lv raw")
    case None
    then show ?thesis using Cons by (simp add: running_def build_step_def map_filter_simps)
  next
    case (Some sess)
    show ?thesis
    proof (cases "ts_ExpiresAt sess > now")
      case True
      then show ?thesis
        using Some Cons [of "build_step lv now s raw"]
        by (simp add: running_def build_step_def map_filter_simps Let_def)
    next
      case False
      then show ?thesis using Some Cons by (simp add: running_def build_step_def map_filter_simps)
    qed
  qed
qed (simp add: running_def map_filter_simps)

lemma Build_fields:
  "ps_sessions (policy_Build lv cfg now) = sort_key ts_ID (running lv now (ac_Sessions cfg))"
  "ps_subscribe (policy_Build lv cfg now) =
     most_verbose lv (ps_subscribe (build_start lv (ac_Policy cfg))) (map ts_Level (running lv now (ac_Sessions cfg)))"
  "ps_expiresNext (policy_Build lv cfg now) = earliest 0 (map ts_ExpiresAt (running lv now (ac_Sessions cfg)))"
  "ps_nodeEnabled (policy_Build lv cfg now) = tp_Enabled (ac_Policy cfg)"
  "ps_nodeLevel (policy_Build lv cfg now) = normalizeLevel lv (tp_Level (ac_Policy cfg))"
  by (simp_all add: policy_Build_def build_fold build_start_def Let_def)

lemma running_iff:
  "sess \<in> set (running lv now raws) \<longleftrightarrow>
     (\<exists>raw \<in> set raws. normalizeSession lv raw = Some sess) \<and> ts_ExpiresAt sess > now"
  by (auto simp: running_def List.map_filter_def image_iff)

lemma running_valid: "levels_ok lv \<Longrightarrow> sess \<in> set (running lv now raws) \<Longrightarrow> lv_valid lv (ts_Level sess)"
  by (auto simp: running_iff normalizeSession_level)

lemma start_valid: "levels_ok lv \<Longrightarrow> lv_valid lv (ps_subscribe (build_start lv pol))"
  by (simp add: build_start_def Let_def normalizeLevel_valid levels_okD(1))

lemma most_verbose_props:
  assumes ok: "levels_ok lv" and "lv_valid lv m" "\<forall>l \<in> set ls. lv_valid lv l"
  shows "most_verbose lv m ls \<in> insert m (set ls)
    \<and> (\<forall>l \<in> insert m (set ls). lv_atLeast lv (most_verbose lv m ls) l)"
  using assms(2,3)
proof (induction ls arbitrary: m)
  case (Cons l ls)
  let ?m = "if lv_atLeast lv l m then l else m"
  have m: "lv_valid lv ?m" "?m \<in> {l, m}" using Cons.prems by auto
  have ge: "lv_atLeast lv ?m l" "lv_atLeast lv ?m m"
    using Cons.prems levels_okD(4,6) [OF ok] by auto
  let ?b = "most_verbose lv ?m ls"
  have IH: "?b \<in> insert ?m (set ls)" "\<forall>x \<in> insert ?m (set ls). lv_atLeast lv ?b x"
    using Cons.IH [OF m(1)] Cons.prems by auto
  have v: "lv_valid lv ?b" using IH(1) m(1) Cons.prems(2) by auto
  have "lv_atLeast lv ?b l" "lv_atLeast lv ?b m"
    using levels_okD(5) [OF ok v m(1) _ _ ge(1)] levels_okD(5) [OF ok v m(1) _ _ ge(2)] IH(2) Cons.prems
    by auto
  then show ?case using IH m(2) by auto
qed (simp add: levels_okD(4) [OF ok])

lemma most_verbose_set:
  assumes ok: "levels_ok lv" and m: "lv_valid lv m" and ls: "\<forall>l \<in> set ls. lv_valid lv l"
    and eq: "set ls = set ls'"
  shows "most_verbose lv m ls = most_verbose lv m ls'"
proof -
  note A = most_verbose_props [OF ok m ls] and B = most_verbose_props [OF ok m, of ls']
  have "\<forall>l \<in> insert m (set ls). lv_valid lv l" using m ls by blast
  then show ?thesis using A B ls eq levels_okD(7) [OF ok] by metis
qed

lemma earliest_props:
  assumes "\<forall>t \<in> set ts. 0 < t" "0 \<le> e"
  shows "earliest e ts = (if ts = [] then e else if e = 0 then Min (set ts) else Min (insert e (set ts)))"
  using assms
proof (induction ts arbitrary: e)
  case (Cons t ts)
  have "0 < (if e = 0 \<or> t < e then t else e)" using Cons.prems by auto
  then show ?case
    using Cons by (cases "ts = []") (auto simp: Min_insert2 min_def insert_commute)
qed simp

lemma earliest_set:
  "\<forall>t \<in> set ts. 0 < t \<Longrightarrow> set ts = set ts' \<Longrightarrow> earliest 0 ts = earliest 0 ts'"
  using earliest_props [of ts 0] earliest_props [of ts' 0] by auto

lemma running_again:
  assumes ok: "levels_ok lv" and le: "now \<le> now'"
  shows "running lv now' (sort_key ts_ID (running lv now raws)) = sort_key ts_ID (running lv now' raws)"
proof -
  let ?R = "running lv now raws"
  have id: "List.map_filter (normalizeSession lv) xs = xs" if "set xs \<subseteq> set ?R" for xs
    using that
  proof (induction xs)
    case (Cons x xs)
    then have "normalizeSession lv x = Some x"
      using normalizeSession_again [OF ok] by (auto simp: running_iff)
    with Cons show ?case by (simp add: map_filter_simps)
  qed (simp add: map_filter_simps)
  have "running lv now' (sort_key ts_ID ?R) = filter (\<lambda>s. ts_ExpiresAt s > now') (sort_key ts_ID ?R)"
    unfolding running_def [of lv now' "sort_key ts_ID ?R"] by (subst id) auto
  also have "\<dots> = sort_key ts_ID (filter (\<lambda>s. ts_ExpiresAt s > now') ?R)"
    by (rule filter_sort)
  also have "filter (\<lambda>s. ts_ExpiresAt s > now') ?R = running lv now' raws"
    using le unfolding running_def by (simp add: filter_filter) (metis (lifting) le_less_trans)
  finally show ?thesis .
qed

lemma match_loop_ids:
  "fst (match_loop lv ll l u d ss (ids, best)) =
     ids @ map ts_ID (filter (\<lambda>s. lv_atLeast lv (ts_Level s) ll \<and> sessionMatches s l u d) ss)"
  by (induction ss arbitrary: ids best) auto

lemma match_loop_best:
  assumes ok: "levels_ok lv" and "\<forall>s \<in> set ss. lv_valid lv (ts_Level s)" "lv_valid lv ll"
    "best = [] \<or> lv_valid lv best \<and> lv_atLeast lv best ll"
    "best = [] \<longrightarrow> ids = []"
  shows "case match_loop lv ll l u d ss (ids, best) of (ids', best') \<Rightarrow>
    ids' \<noteq> [] \<longrightarrow> lv_valid lv best' \<and> lv_atLeast lv best' ll"
  using assms(2-)
proof (induction ss arbitrary: ids best)
  case Nil
  then show ?case by auto
next
  case (Cons s ss)
  show ?case
  proof (cases "lv_atLeast lv (ts_Level s) ll \<and> sessionMatches s l u d")
    case True
    then show ?thesis
      using Cons.IH [of "if best = [] \<or> lv_atLeast lv (ts_Level s) best then ts_Level s else best"
          "ids @ [ts_ID s]"] Cons.prems levels_okD(2) [OF ok]
      by auto
  next
    case False
    then show ?thesis using Cons.IH [of best ids] Cons.prems by auto
  qed
qed

lemma subscribe_covers_lemma:
  assumes "levels_ok lv" "s = policy_Build lv cfg now"
  shows "(\<forall>sess \<in> set (activeSessions s). lv_atLeast lv (subscribeLevel lv s) (ts_Level sess))
    \<and> (ps_nodeEnabled s \<longrightarrow> lv_atLeast lv (subscribeLevel lv s) (ps_nodeLevel s))
    \<and> (subscribeLevel lv s \<in> ts_Level ` set (activeSessions s)
        \<or> ps_nodeEnabled s \<and> subscribeLevel lv s = ps_nodeLevel s
        \<or> \<not> ps_nodeEnabled s \<and> subscribeLevel lv s = lv_info lv)
    \<and> lv_valid lv (subscribeLevel lv s)"
proof -
  let ?R = "running lv now (ac_Sessions cfg)" and ?m = "ps_subscribe (build_start lv (ac_Policy cfg))"
  have v: "lv_valid lv ?m" "\<forall>l \<in> set (map ts_Level ?R). lv_valid lv l"
    using start_valid [OF assms(1)] running_valid [OF assms(1)] by auto
  note P = most_verbose_props [OF assms(1) v]
  have sub: "ps_subscribe s = most_verbose lv ?m (map ts_Level ?R)"
    using assms(2) by (simp add: Build_fields)
  then have val: "lv_valid lv (ps_subscribe s)" using P v by auto
  then have eq: "subscribeLevel lv s = ps_subscribe s"
    using levels_okD(2) [OF assms(1)] by (simp add: subscribeLevel_def)
  have m: "?m = (if ps_nodeEnabled s then ps_nodeLevel s else lv_info lv)"
    using assms(2) by (simp add: Build_fields build_start_def Let_def)
  have act: "set (activeSessions s) = set ?R"
    using assms(2) by (simp add: activeSessions_def Build_fields)
  show ?thesis using P val unfolding eq sub act by (auto simp: m)
qed

section \<open>Properties\<close>

text \<open>
  The sessions in force. A session is in force after \<open>Build\<close> exactly when its normalised form
  has an id and a deadline strictly after the given instant; they are held sorted by id, each
  with a valid level; and the next expiry is the earliest of their deadlines, zero without any.
\<close>

theorem build_keeps_unexpired:
  assumes "levels_ok lv" "0 \<le> now" "s = policy_Build lv cfg now"
  shows "(\<forall>sess. sess \<in> set (activeSessions s) \<longleftrightarrow>
      (\<exists>raw \<in> set (ac_Sessions cfg). normalizeSession lv raw = Some sess) \<and> now < ts_ExpiresAt sess)
    \<and> sorted (map ts_ID (activeSessions s))
    \<and> (\<forall>sess \<in> set (activeSessions s). ts_ID sess \<noteq> [] \<and> lv_valid lv (ts_Level sess))
    \<and> expiresNext s = (if activeSessions s = [] then 0 else Min (ts_ExpiresAt ` set (activeSessions s)))"
proof -
  let ?R = "running lv now (ac_Sessions cfg)"
  have a: "activeSessions s = sort_key ts_ID ?R"
    using assms(3) by (simp add: activeSessions_def Build_fields)
  have pos: "\<forall>t \<in> set (map ts_ExpiresAt ?R). 0 < t" using assms(2) by (auto simp: running_iff)
  have "expiresNext s = (if ?R = [] then 0 else Min (ts_ExpiresAt ` set ?R))"
    using earliest_props [OF pos] assms(3) by (simp add: expiresNext_def Build_fields)
  moreover have "sort_key ts_ID ?R = [] \<longleftrightarrow> ?R = []" by (metis set_empty set_sort)
  moreover have "ts_ID sess \<noteq> []" if "sess \<in> set ?R" for sess
    using that by (auto simp: running_iff normalizeSession_def Let_def split: if_splits)
  ultimately show ?thesis using running_valid [OF assms(1)] by (simp add: a running_iff)
qed

text \<open>Levels in the order of their verbosity, as an instance of what is relied on.\<close>

definition level_names :: "string list" where
  "level_names = [''error'', ''warn'', ''info'', ''debug'', ''trace'']"

fun pos_in :: "string list \<Rightarrow> string \<Rightarrow> nat" where
  "pos_in [] l = 0"
| "pos_in (x # xs) l = (if x = l then 0 else Suc (pos_in xs l))"

definition sample_levels :: trace_levels where
  "sample_levels = \<lparr>lv_info = ''info'', lv_valid = (\<lambda>l. l \<in> set level_names),
     lv_atLeast = (\<lambda>l m. pos_in level_names m \<le> pos_in level_names l)\<rparr>"

lemma pos_in_inj: "l \<in> set xs \<Longrightarrow> pos_in xs l = pos_in xs m \<Longrightarrow> l = m"
  by (induction xs) (auto split: if_splits)

lemma sample_levels_ok: "levels_ok sample_levels"
proof -
  have "\<forall>l \<in> set level_names. l \<noteq> [] \<and> to_lower (trim_space l) = l"
    by code_simp
  moreover have "''info'' \<in> set level_names" by (simp add: level_names_def)
  ultimately show ?thesis
    using pos_in_inj [of _ level_names] by (auto simp: levels_ok_def sample_levels_def)
qed

definition sample_session :: trace_session where
  "sample_session = \<lparr>ts_ID = ''s1'', ts_Level = ''debug'', ts_UserNames = [''u_1''],
     ts_InboundTags = [], ts_DstPatterns = [], ts_ExpiresAt = 100\<rparr>"

definition sample_cfg :: agent_config where
  "sample_cfg = \<lparr>ac_Policy = \<lparr>tp_Enabled = True, tp_Level = ''info''\<rparr>, ac_Sessions = [sample_session]\<rparr>"

theorem build_keeps_unexpired_witness:
  "expiresNext (policy_Build sample_levels sample_cfg 200) =
     (if activeSessions (policy_Build sample_levels sample_cfg 200) = [] then 0
      else Min (ts_ExpiresAt ` set (activeSessions (policy_Build sample_levels sample_cfg 200))))"
  using build_keeps_unexpired [OF sample_levels_ok _ refl, of 200 sample_cfg] by simp

text \<open>
  The subscription. The level asked of sing-box is valid and at least as verbose as the level
  of every session in force and, when the node collects, as the node's own level; and it is not
  higher than needed: it is the level of one of them, or info.
\<close>

theorem subscribe_covers:
  assumes "levels_ok lv" "s = policy_Build lv cfg now"
  shows "(\<forall>sess \<in> set (activeSessions s). lv_atLeast lv (subscribeLevel lv s) (ts_Level sess))
    \<and> (ps_nodeEnabled s \<longrightarrow> lv_atLeast lv (subscribeLevel lv s) (ps_nodeLevel s))
    \<and> (subscribeLevel lv s \<in> ts_Level ` set (activeSessions s)
        \<or> ps_nodeEnabled s \<and> subscribeLevel lv s = ps_nodeLevel s
        \<or> \<not> ps_nodeEnabled s \<and> subscribeLevel lv s = lv_info lv)
    \<and> lv_valid lv (subscribeLevel lv s)"
  using subscribe_covers_lemma [OF assms] .

theorem subscribe_covers_witness:
  "lv_valid sample_levels (subscribeLevel sample_levels (policy_Build sample_levels sample_cfg 5))"
  using subscribe_covers [OF sample_levels_ok refl, of sample_cfg 5] by blast



text \<open>
  C17. Local expiry is as good as a fresh configuration. Rebuilding the set at a later instant
  from its own policy and its own active sessions gives exactly the set the original
  configuration gives at that instant, so a session ends on time without the server.
\<close>

theorem rebuild_equals_fresh:
  assumes "levels_ok lv" "0 \<le> now" "now \<le> now'" "s = policy_Build lv cfg now"
  shows "policy_Build lv \<lparr>ac_Policy = policy_Policy s, ac_Sessions = activeSessions s\<rparr> now'
    = policy_Build lv cfg now'"
proof -
  let ?cfg = "\<lparr>ac_Policy = policy_Policy s, ac_Sessions = activeSessions s\<rparr>"
  let ?R = "running lv now' (ac_Sessions cfg)"
  have act: "activeSessions s = sort_key ts_ID (running lv now (ac_Sessions cfg))"
    using assms(4) by (simp add: activeSessions_def Build_fields)
  have run: "running lv now' (activeSessions s) = sort_key ts_ID ?R"
    unfolding act by (rule running_again [OF assms(1,3)])
  have nl: "normalizeLevel lv (ps_nodeLevel s) = ps_nodeLevel s"
    using assms(1,4) by (simp add: Build_fields normalizeLevel_id normalizeLevel_valid)
  have st: "build_start lv (policy_Policy s) = build_start lv (ac_Policy cfg)"
    using assms(4) nl by (simp add: build_start_def policy_Policy_def Build_fields Let_def)
  have sub: "most_verbose lv (ps_subscribe (build_start lv (ac_Policy cfg))) (map ts_Level (sort_key ts_ID ?R))
      = most_verbose lv (ps_subscribe (build_start lv (ac_Policy cfg))) (map ts_Level ?R)"
    using running_valid [OF assms(1)]
    by (intro most_verbose_set [OF assms(1) start_valid [OF assms(1)]]) auto
  have ex: "earliest 0 (map ts_ExpiresAt (sort_key ts_ID ?R)) = earliest 0 (map ts_ExpiresAt ?R)"
    using assms(2,3) by (intro earliest_set) (auto simp: running_iff)
  have "sort_key ts_ID (sort_key ts_ID ?R) = sort_key ts_ID ?R"
    by (rule sort_key_id_if_sorted) simp
  then show ?thesis
    by (simp add: policy_Build_def build_fold run st sub) (simp add: build_start_def Let_def ex)
qed

theorem rebuild_equals_fresh_witness:
  "policy_Build sample_levels \<lparr>ac_Policy = policy_Policy (policy_Build sample_levels sample_cfg 5),
      ac_Sessions = activeSessions (policy_Build sample_levels sample_cfg 5)\<rparr> 100
   = policy_Build sample_levels sample_cfg 100"
  using rebuild_equals_fresh [OF sample_levels_ok _ _ refl, of 5 100 sample_cfg] by simp

end
