(* ===== verification/Clash_Api.thy ===== *)
theory Clash_Api
  imports Go_Prelude
begin

text \<open>
  How the trace collector finds the Clash API of the local sing-box and the secret that opens it:
  the loopback rule on the address (\<open>ValidateLoopbackAddr\<close> in \<open>src/internal/singboxapi/client.go\<close>,
  with the parts of package \<open>net\<close> it calls) and the reading of the files on the node that hold the
  address and the secret (\<open>readNodeFile\<close>, \<open>readClashAPIConfig\<close>, \<open>resolveClashSecret\<close> and
  \<open>resolveAddr\<close> in \<open>src/cmd/lattice-agent/tracesource.go\<close>).

  A file system is a function from paths to what \<open>open(2)\<close> with \<open>O_NOFOLLOW\<close> finds there: an error
  number, or an open file with what \<open>Stat\<close> says of it and its bytes. Parameters are
  \<open>ip_loopback\<close>, which stands for \<open>net.ParseIP\<close> giving an address whose \<open>IsLoopback\<close> holds,
  \<open>quote\<close> for the \<open>%q\<close> of package \<open>fmt\<close>, and \<open>decode\<close> for \<open>json.Unmarshal\<close> of a sing-box config
  into the struct of \<open>readClashAPIConfig\<close>: \<open>None\<close> its error, \<open>Some None\<close> a config without
  \<open>experimental.clash_api\<close>.
\<close>

section \<open>Definitions\<close>

subsection \<open>The loopback rule\<close>

definition addr_err :: "string \<Rightarrow> string \<Rightarrow> string" where
  "addr_err addr why = (if addr \<noteq> [] then ''address '' @ addr @ '': '' @ why else why)"

text \<open>\<open>net.SplitHostPort\<close> and \<open>net.JoinHostPort\<close>.\<close>

definition unexpected_bracket :: "string \<Rightarrow> nat \<Rightarrow> nat \<Rightarrow> string option" where
  "unexpected_bracket hostport j k =
     (if CHR ''['' \<in> set (drop j hostport) then Some ''unexpected '[' in address''
      else if CHR '']'' \<in> set (drop k hostport) then Some ''unexpected ']' in address''
      else None)"

definition net_SplitHostPort :: "string \<Rightarrow> string + string \<times> string" where
  "net_SplitHostPort hostport =
     (case str_last_index hostport '':'' of
        None \<Rightarrow> Inl (addr_err hostport ''missing port in address'')
      | Some i \<Rightarrow>
          (if hd hostport = CHR ''['' then
             (case str_index hostport '']'' of
                None \<Rightarrow> Inl (addr_err hostport ''missing ']' in address'')
              | Some e \<Rightarrow>
                  (if e + 1 = length hostport then Inl (addr_err hostport ''missing port in address'')
                   else if e + 1 \<noteq> i then
                     Inl (addr_err hostport
                       (if hostport ! (e + 1) = CHR '':'' then ''too many colons in address''
                        else ''missing port in address''))
                   else
                     (case unexpected_bracket hostport 1 (e + 1) of
                        Some why \<Rightarrow> Inl (addr_err hostport why)
                      | None \<Rightarrow> Inr (drop 1 (take e hostport), drop (i + 1) hostport))))
           else if CHR '':'' \<in> set (take i hostport) then
             Inl (addr_err hostport ''too many colons in address'')
           else
             (case unexpected_bracket hostport 0 0 of
                Some why \<Rightarrow> Inl (addr_err hostport why)
              | None \<Rightarrow> Inr (take i hostport, drop (i + 1) hostport))))"

definition net_JoinHostPort :: "string \<Rightarrow> string \<Rightarrow> string" where
  "net_JoinHostPort host port =
     (if CHR '':'' \<in> set host then ''['' @ host @ '']:'' @ port else host @ '':'' @ port)"

definition trim_brackets :: "string \<Rightarrow> string" where
  "trim_brackets s = trim_right (trim_left s ''[]'') ''[]''"

definition isLoopbackHost :: "(string \<Rightarrow> bool) \<Rightarrow> string \<Rightarrow> bool" where
  "isLoopbackHost ip_loopback host =
     (let host = trim_brackets (to_lower (trim_space host))
      in if host = ''localhost'' then True
         else
           let host = (case str_index host ''%'' of Some i \<Rightarrow> take i host | None \<Rightarrow> host)
           in ip_loopback host)"

definition ValidateLoopbackAddr ::
  "(string \<Rightarrow> bool) \<Rightarrow> (string \<Rightarrow> string) \<Rightarrow> string \<Rightarrow> string + string" where
  "ValidateLoopbackAddr ip_loopback quote raw =
     (let addr = trim_space raw in
      if addr = [] then Inl ''singboxapi: clash api address is required''
      else if str_contains addr ''//'' \<or> str_contains addr ''@'' then
        Inl (''singboxapi: clash api address '' @ quote raw @ '' must be host:port, not a URL'')
      else case net_SplitHostPort addr of
        Inl err \<Rightarrow>
          Inl (''singboxapi: clash api address '' @ quote raw @ '' must be host:port: '' @ err)
      | Inr (host, port) \<Rightarrow>
          (case parse_int port of
             None \<Rightarrow> Inl (''singboxapi: clash api address '' @ quote raw @ '' has an invalid port'')
           | Some portNum \<Rightarrow>
               (if portNum < 1 \<or> portNum > 65535 then
                  Inl (''singboxapi: clash api address '' @ quote raw @ '' has an invalid port'')
                else if \<not> isLoopbackHost ip_loopback host then
                  Inl (''singboxapi: clash api host '' @ quote host @ '' must be loopback'')
                else Inr (net_JoinHostPort (trim_brackets host) port))))"

subsection \<open>Files on the node\<close>

datatype errno = ENOENT | EACCES | EPERM | ELOOP | EOther string

fun errno_text :: "errno \<Rightarrow> string" where
  "errno_text ENOENT = ''no such file or directory''"
| "errno_text EACCES = ''permission denied''"
| "errno_text EPERM = ''operation not permitted''"
| "errno_text ELOOP = ''too many levels of symbolic links''"
| "errno_text (EOther s) = s"

text \<open>
  What the checks see of an open file: whether \<open>Stat\<close> fails, whether it is a regular file, its
  owner when the platform reports one, the nine permission bits, and what reading gives.
\<close>

record node_file =
  nf_stat :: "errno option"
  nf_regular :: bool
  nf_uid :: "nat option"
  nf_perm :: "9 word"
  nf_content :: "errno + string"

type_synonym node_fs = "string \<Rightarrow> errno + node_file"

text \<open>
  \<open>PathError op path errno\<close> is \<open>*fs.PathError\<close>, \<open>NodeFileError\<close> the agent's own refusal and
  \<open>NoSecret\<close> the wrapping error of \<open>resolveClashSecret\<close>.
\<close>

datatype file_error =
    PathError string string errno
  | NodeFileError string string
  | NoSecret string file_error

fun file_error_text :: "file_error \<Rightarrow> string" where
  "file_error_text (PathError op path e) = op @ '' '' @ path @ '': '' @ errno_text e"
| "file_error_text (NodeFileError path reason) = path @ '' '' @ reason"
| "file_error_text (NoSecret path e) =
     ''no Clash API secret found in '' @ path @ '' or the sing-box config: '' @ file_error_text e"

definition nodeFileMaxBytes :: nat where
  "nodeFileMaxBytes = 2 ^ 20"

definition readNodeFile ::
  "nat \<Rightarrow> node_fs \<Rightarrow> string \<Rightarrow> bool \<Rightarrow> file_error + string" where
  "readNodeFile euid fs path secret =
     (case fs path of
        Inl e \<Rightarrow>
          Inl (if e = ELOOP then NodeFileError path ''is a symlink'' else PathError ''open'' path e)
      | Inr f \<Rightarrow>
          (case nf_stat f of
             Some e \<Rightarrow> Inl (PathError ''stat'' path e)
           | None \<Rightarrow>
               (if \<not> nf_regular f then Inl (NodeFileError path ''is not a regular file'')
                else case nf_uid f of
                  None \<Rightarrow> Inl (NodeFileError path ''has no owner the agent can check'')
                | Some uid \<Rightarrow>
                    (if uid \<noteq> 0 \<and> uid \<noteq> euid then
                       Inl (NodeFileError path
                         (''is owned by uid '' @ show_nat uid @ '', not root or the agent''))
                     else if and (nf_perm f) 0b000010010 \<noteq> 0 then
                       Inl (NodeFileError path ''is writable by group or others'')
                     else if secret \<and> and (nf_perm f) 0b000100100 \<noteq> 0 then
                       Inl (NodeFileError path ''is readable by group or others'')
                     else case nf_content f of
                       Inl e \<Rightarrow> Inl (PathError ''read'' path e)
                     | Inr b \<Rightarrow>
                         (if length b > nodeFileMaxBytes
                          then Inl (NodeFileError path ''is larger than 1 MiB'')
                          else Inr b)))))"

record clashAPIConfig =
  ca_Present :: bool
  ca_Controller :: string
  ca_Secret :: string

type_synonym config_decoder = "string \<Rightarrow> (string \<times> string) option option"

definition readClashAPIConfig ::
  "config_decoder \<Rightarrow> nat \<Rightarrow> node_fs \<Rightarrow> string \<Rightarrow> file_error + clashAPIConfig" where
  "readClashAPIConfig decode euid fs path =
     (case readNodeFile euid fs path False of
        Inl e \<Rightarrow> Inl e
      | Inr b \<Rightarrow>
          (case decode b of
             None \<Rightarrow> Inl (NodeFileError path ''cannot be parsed as JSON'')
           | Some None \<Rightarrow> Inr \<lparr>ca_Present = False, ca_Controller = [], ca_Secret = []\<rparr>
           | Some (Some (controller, secret)) \<Rightarrow>
               Inr \<lparr>ca_Present = True, ca_Controller = trim_space controller,
                    ca_Secret = trim_space secret\<rparr>))"

fun isNotExist :: "file_error \<Rightarrow> bool" where
  "isNotExist (PathError op path e) \<longleftrightarrow> e = ENOENT"
| "isNotExist _ \<longleftrightarrow> False"

fun isPermission :: "file_error \<Rightarrow> bool" where
  "isPermission (PathError op path e) \<longleftrightarrow> e = EACCES \<or> e = EPERM"
| "isPermission _ \<longleftrightarrow> False"

definition secret_from_config ::
  "config_decoder \<Rightarrow> nat \<Rightarrow> node_fs \<Rightarrow> string \<Rightarrow> string \<Rightarrow> file_error + string" where
  "secret_from_config decode euid fs secretPath configPath =
     (case readClashAPIConfig decode euid fs configPath of
        Inl e \<Rightarrow> Inl (NoSecret secretPath e)
      | Inr api \<Rightarrow> Inr (ca_Secret api))"

definition secret_from_fallback ::
  "config_decoder \<Rightarrow> nat \<Rightarrow> node_fs \<Rightarrow> string \<Rightarrow> string \<Rightarrow> string \<Rightarrow> file_error + string" where
  "secret_from_fallback decode euid fs secretPath fallbackPath configPath =
     (if fallbackPath \<noteq> [] then
        (case readNodeFile euid fs fallbackPath True of
           Inr b \<Rightarrow> Inr (trim_space b)
         | Inl e \<Rightarrow>
             (if \<not> isNotExist e \<and> \<not> isPermission e then Inl e
              else secret_from_config decode euid fs secretPath configPath))
      else secret_from_config decode euid fs secretPath configPath)"

definition resolveClashSecret ::
  "config_decoder \<Rightarrow> nat \<Rightarrow> node_fs \<Rightarrow> string \<Rightarrow> string \<Rightarrow> string \<Rightarrow> file_error + string" where
  "resolveClashSecret decode euid fs secretPath fallbackPath configPath =
     (if secretPath \<noteq> [] then
        (case readNodeFile euid fs secretPath True of
           Inr b \<Rightarrow> Inr (trim_space b)
         | Inl e \<Rightarrow>
             (if \<not> isNotExist e then Inl e
              else secret_from_fallback decode euid fs secretPath fallbackPath configPath))
      else secret_from_fallback decode euid fs secretPath fallbackPath configPath)"

subsection \<open>Discovery of the address\<close>

datatype addr_source = AddrFromNowhere | ClashAddrFromPolicy | ClashAddrFromConfig

record discovery =
  dc_addr :: string
  dc_source :: addr_source
  dc_detail :: string
  dc_transient :: bool

fun discovery_detail :: "string \<Rightarrow> file_error \<Rightarrow> string" where
  "discovery_detail path (PathError op p e) = ''cannot read '' @ path @ '': '' @ errno_text e"
| "discovery_detail path e = file_error_text e"

definition no_addr :: "string \<Rightarrow> bool \<Rightarrow> discovery" where
  "no_addr detail transient =
     \<lparr>dc_addr = [], dc_source = AddrFromNowhere, dc_detail = detail, dc_transient = transient\<rparr>"

definition resolveAddr ::
  "(string \<Rightarrow> bool) \<Rightarrow> (string \<Rightarrow> string) \<Rightarrow> config_decoder \<Rightarrow> nat \<Rightarrow> node_fs \<Rightarrow> string \<Rightarrow> string
   \<Rightarrow> discovery" where
  "resolveAddr ip_loopback quote decode euid fs path policyAddr =
     (let a = trim_space policyAddr in
      if a \<noteq> [] then
        \<lparr>dc_addr = a, dc_source = ClashAddrFromPolicy, dc_detail = [], dc_transient = False\<rparr>
      else case readClashAPIConfig decode euid fs path of
        Inl e \<Rightarrow> no_addr (discovery_detail path e) True
      | Inr api \<Rightarrow>
          (if \<not> ca_Present api then no_addr (''no experimental.clash_api in '' @ path) False
           else if ca_Controller api = [] then
             no_addr (''experimental.clash_api in '' @ path @ '' has no external_controller'') False
           else case ValidateLoopbackAddr ip_loopback quote (ca_Controller api) of
             Inl e \<Rightarrow>
               no_addr (''external_controller '' @ quote (ca_Controller api) @ '' in '' @ path
                        @ '' is not a loopback host:port'') False
           | Inr normalized \<Rightarrow>
               \<lparr>dc_addr = normalized, dc_source = ClashAddrFromConfig, dc_detail = [],
                dc_transient = False\<rparr>))"

section \<open>Lemmas\<close>

text \<open>A file the agent may take a secret, or a config, from.\<close>

definition trusted_file :: "nat \<Rightarrow> bool \<Rightarrow> node_file \<Rightarrow> bool" where
  "trusted_file euid secret f \<longleftrightarrow>
     nf_regular f \<and> (nf_uid f = Some 0 \<or> nf_uid f = Some euid) \<and>
     \<not> bit (nf_perm f) 1 \<and> \<not> bit (nf_perm f) 4 \<and>
     (secret \<longrightarrow> \<not> bit (nf_perm f) 2 \<and> \<not> bit (nf_perm f) 5)"

lemma perm_mask_iff:
  fixes p :: "9 word"
  shows "and p 0b000010010 = 0 \<longleftrightarrow> \<not> bit p 1 \<and> \<not> bit p 4"
    and "and p 0b000100100 = 0 \<longleftrightarrow> \<not> bit p 2 \<and> \<not> bit p 5"
proof -
  have disjoint: "and p m = 0 \<longleftrightarrow> (\<forall>n < 9. \<not> (bit p n \<and> bit m n))" for m
    using bit_imp_le_length [of p] by (fastforce simp: bit_eq_iff [where ?'a = "9 word"] bit_and_iff)
  have below_nine: "(\<forall>n < 9. P n) \<longleftrightarrow> P 0 \<and> P 1 \<and> P 2 \<and> P 3 \<and> P 4 \<and> P 5 \<and> P 6 \<and> P 7 \<and> P 8"
    for P :: "nat \<Rightarrow> bool"
    by (simp add: numeral_eq_Suc All_less_Suc) blast
  show "and p 0b000010010 = 0 \<longleftrightarrow> \<not> bit p 1 \<and> \<not> bit p 4"
    "and p 0b000100100 = 0 \<longleftrightarrow> \<not> bit p 2 \<and> \<not> bit p 5"
    by (simp_all add: disjoint below_nine)
qed

lemma readNodeFile_ok:
  "readNodeFile euid fs path secret = Inr b \<longleftrightarrow>
     (\<exists>f. fs path = Inr f \<and> nf_stat f = None \<and> trusted_file euid secret f \<and>
          nf_content f = Inr b \<and> length b \<le> nodeFileMaxBytes)"
  by (auto simp: readNodeFile_def trusted_file_def perm_mask_iff split: sum.splits option.splits if_splits)

lemma readNodeFile_loose:
  "fs path = Inr f \<Longrightarrow> nf_stat f = None \<Longrightarrow> \<not> trusted_file euid secret f \<Longrightarrow>
   \<exists>reason. readNodeFile euid fs path secret = Inl (NodeFileError path reason)"
  by (auto simp: readNodeFile_def trusted_file_def perm_mask_iff split: sum.splits option.splits if_splits)

text \<open>A path whose file opens but is not fit to hold a secret.\<close>

definition loose_secret :: "nat \<Rightarrow> node_fs \<Rightarrow> string \<Rightarrow> bool" where
  "loose_secret euid fs path \<longleftrightarrow>
     path \<noteq> [] \<and> (\<exists>f. fs path = Inr f \<and> nf_stat f = None \<and> \<not> trusted_file euid True f)"

definition secret_file :: "nat \<Rightarrow> node_fs \<Rightarrow> string \<Rightarrow> string \<Rightarrow> bool" where
  "secret_file euid fs path s \<longleftrightarrow>
     path \<noteq> [] \<and> (\<exists>f b. fs path = Inr f \<and> trusted_file euid True f \<and> nf_content f = Inr b \<and> s = trim_space b)"

lemma config_secret:
  "secret_from_config decode euid fs sp cp = Inr s \<Longrightarrow>
   \<exists>f. fs cp = Inr f \<and> trusted_file euid False f"
  by (auto simp: secret_from_config_def readClashAPIConfig_def readNodeFile_ok split: sum.splits)

lemma fallback_secret:
  assumes "secret_from_fallback decode euid fs sp fp cp = Inr s"
  shows "\<not> loose_secret euid fs fp"
    and "secret_file euid fs fp s \<or> (\<exists>f. fs cp = Inr f \<and> trusted_file euid False f)"
proof -
  show "\<not> loose_secret euid fs fp"
    using assms readNodeFile_loose [of fs fp _ euid True]
    by (fastforce simp: secret_from_fallback_def loose_secret_def)
  show "secret_file euid fs fp s \<or> (\<exists>f. fs cp = Inr f \<and> trusted_file euid False f)"
    using assms
    by (auto simp: secret_from_fallback_def secret_file_def readNodeFile_ok
        split: if_splits sum.splits dest: config_secret)
qed

lemma policy_secret:
  assumes "resolveClashSecret decode euid fs sp fp cp = Inr s"
  shows "\<not> loose_secret euid fs sp"
    and "secret_file euid fs sp s \<or> secret_from_fallback decode euid fs sp fp cp = Inr s"
proof -
  show "\<not> loose_secret euid fs sp"
    using assms readNodeFile_loose [of fs sp _ euid True]
    by (fastforce simp: resolveClashSecret_def loose_secret_def)
  show "secret_file euid fs sp s \<or> secret_from_fallback decode euid fs sp fp cp = Inr s"
    using assms
    by (auto simp: resolveClashSecret_def secret_file_def readNodeFile_ok
        split: if_splits sum.splits)
qed

text \<open>Splitting what was joined.\<close>

lemma str_last_index_None: "CHR '':'' \<notin> set s \<Longrightarrow> str_last_index s '':'' = None"
  by (induction s) auto

lemma str_last_index_colon:
  "CHR '':'' \<notin> set p \<Longrightarrow> str_last_index (h @ CHR '':'' # p) '':'' = Some (length h)"
  by (induction h) (auto simp: str_last_index_None)

lemma str_last_index_split:
  "str_last_index s '':'' = Some i \<Longrightarrow> s = take i s @ CHR '':'' # drop (i + 1) s \<and> CHR '':'' \<notin> set (drop (i + 1) s)"
proof (induction s arbitrary: i)
  case (Cons c s)
  show ?case
  proof (cases "str_last_index s '':''")
    case None
    have "CHR '':'' \<notin> set s" using None
      by (induction s) (auto split: option.splits if_splits)
    then show ?thesis using Cons.prems None by (auto split: if_splits)
  next
    case (Some j)
    then show ?thesis using Cons.IH [OF Some] Cons.prems by auto
  qed
qed simp

lemma str_index_bracket:
  "CHR '']'' \<notin> set h \<Longrightarrow> str_index (h @ CHR '']'' # p) '']'' = Some (length h)"
  by (induction h) auto

lemma str_index_bracket_split:
  "str_index s '']'' = Some e \<Longrightarrow> CHR '']'' \<notin> set (take e s) \<and> e < length s"
proof (induction s arbitrary: e)
  case (Cons c s)
  then show ?case by (cases e) (auto split: if_splits)
qed simp

definition plain_host :: "string \<Rightarrow> bool" where
  "plain_host h \<longleftrightarrow> CHR ''['' \<notin> set h \<and> CHR '']'' \<notin> set h"

lemma SplitHostPort_parts:
  assumes "net_SplitHostPort s = Inr (h, p)"
  shows "plain_host h" and "plain_host p" and "CHR '':'' \<notin> set p"
proof -
  obtain i where i: "str_last_index s '':'' = Some i"
    using assms by (cases "str_last_index s '':''") (auto simp: net_SplitHostPort_def)
  have p: "p = drop (i + 1) s" using assms i
    by (auto simp: net_SplitHostPort_def split: option.splits if_splits)
  show "CHR '':'' \<notin> set p" using str_last_index_split [OF i] p by simp
  show "plain_host h" "plain_host p"
  proof (atomize (full), cases "hd s = CHR ''[''")
    case True
    then obtain e where e: "str_index s '']'' = Some e" and ei: "e + 1 = i"
      and nb: "unexpected_bracket s 1 (e + 1) = None" and h: "h = drop 1 (take e s)"
      using assms i by (auto simp: net_SplitHostPort_def split: option.splits if_splits)
    have "set p \<subseteq> set (drop (e + 1) s)" "set p \<subseteq> set (drop 1 s)" "set h \<subseteq> set (drop 1 s)"
      "set h \<subseteq> set (take e s)"
      unfolding p h using ei set_drop_subset [of 1 "take e s"] set_take_subset [of "e - 1" "drop 1 s"]
        set_drop_subset_set_drop [of "e + 1" "i + 1" s] set_drop_subset_set_drop [of 1 "i + 1" s]
      by (auto simp: drop_take)
    then show "plain_host h \<and> plain_host p"
      using nb str_index_bracket_split [OF e]
      by (auto simp: unexpected_bracket_def plain_host_def split: if_splits)
  next
    case False
    then have nb: "unexpected_bracket s 0 0 = None" and h: "h = take i s"
      using assms i by (auto simp: net_SplitHostPort_def split: option.splits if_splits)
    then show "plain_host h \<and> plain_host p"
      using set_take_subset [of i s] set_drop_subset [of "i + 1" s]
      by (auto simp: unexpected_bracket_def plain_host_def p split: if_splits)
  qed
qed

lemma Split_Join:
  assumes h: "plain_host h" and p: "plain_host p" and nc: "CHR '':'' \<notin> set p"
  shows "net_SplitHostPort (net_JoinHostPort h p) = Inr (h, p)"
proof (cases "CHR '':'' \<in> set h")
  case True
  let ?s = "CHR ''['' # h @ CHR '']'' # CHR '':'' # p"
  have "str_last_index ?s '':'' = Some (length h + 2)"
    using str_last_index_colon [OF nc, of "CHR ''['' # h @ '']''"] by simp
  moreover have "str_index ?s '']'' = Some (length h + 1)"
    using str_index_bracket [of "CHR ''['' # h" "CHR '':'' # p"] h by (simp add: plain_host_def)
  ultimately show ?thesis using True h p
    by (simp add: net_JoinHostPort_def net_SplitHostPort_def unexpected_bracket_def plain_host_def)
next
  case False
  let ?s = "h @ CHR '':'' # p"
  have "str_last_index ?s '':'' = Some (length h)" by (rule str_last_index_colon [OF nc])
  moreover have "hd ?s \<noteq> CHR ''[''" using h by (cases h) (auto simp: plain_host_def)
  ultimately show ?thesis using False h p
    by (simp add: net_JoinHostPort_def net_SplitHostPort_def unexpected_bracket_def plain_host_def)
qed

lemma dropWhile_none: "(\<And>c. c \<in> set h \<Longrightarrow> \<not> P c) \<Longrightarrow> dropWhile P h = h"
  by (cases h) auto

lemma trim_brackets_plain: "plain_host h \<Longrightarrow> trim_brackets h = h"
  by (subst trim_brackets_def, subst trim_left_def, subst dropWhile_none)
     (auto simp: plain_host_def trim_right_def intro!: dropWhile_none [THEN arg_cong [where f = rev], THEN trans])

section \<open>Properties\<close>

text \<open>
  The bearer secret only ever comes from a file nobody else could have planted. When
  \<open>resolveClashSecret\<close> succeeds, the file the policy names, if it is there, is a regular file
  owned by root or the agent that the group and others can neither write nor read: a loose file
  is refused, never skipped. The secret is the trimmed content of such a file, at the policy's
  path or at the fallback path, or it comes from a sing-box config that nobody else can write;
  and in the last two cases the fallback file was not loose either.
\<close>

theorem clash_secret_guarded:
  assumes "resolveClashSecret decode euid fs secretPath fallbackPath configPath = Inr s"
  shows "\<not> loose_secret euid fs secretPath \<and>
    (secret_file euid fs secretPath s \<or>
     \<not> loose_secret euid fs fallbackPath \<and>
     (secret_file euid fs fallbackPath s \<or>
      (\<exists>f. fs configPath = Inr f \<and> trusted_file euid False f)))"
  using policy_secret [OF assms] fallback_secret [of decode euid fs secretPath fallbackPath configPath s]
  by blast

text \<open>An agent of uid 1000 with a root-only secret beside a world-readable config.\<close>

definition sample_fs :: node_fs where
  "sample_fs path =
     (if path = ''/s'' then
        Inr \<lparr>nf_stat = None, nf_regular = True, nf_uid = Some 0, nf_perm = 0b110000000,
             nf_content = Inr ''key''\<rparr>
      else Inl ENOENT)"

lemma sample_secret: "resolveClashSecret (\<lambda>_. None) 1000 sample_fs ''/s'' [] ''/c'' = Inr ''key''"
  by (simp add: resolveClashSecret_def readNodeFile_def sample_fs_def nodeFileMaxBytes_def) code_simp

theorem clash_secret_guarded_witness:
  "\<not> loose_secret 1000 sample_fs ''/s'' \<and>
    (secret_file 1000 sample_fs ''/s'' ''key'' \<or>
     \<not> loose_secret 1000 sample_fs [] \<and>
     (secret_file 1000 sample_fs [] ''key'' \<or>
      (\<exists>f. sample_fs ''/c'' = Inr f \<and> trusted_file 1000 False f)))"
  by (rule clash_secret_guarded [OF sample_secret])

text \<open>
  Only a loopback address passes. An address that \<open>ValidateLoopbackAddr\<close> returns splits into
  a host and a port by the same rule the dialer uses, the host is \<open>localhost\<close> or a literal that
  \<open>net.ParseIP\<close> reads as a loopback address (its zone left out), and the port is between 1 and
  65535.
\<close>

lemma validated_is_loopback:
  assumes "ValidateLoopbackAddr ip_loopback quote raw = Inr addr"
  shows "\<exists>host port n. net_SplitHostPort addr = Inr (host, port) \<and>
           isLoopbackHost ip_loopback host \<and> parse_int port = Some n \<and> 1 \<le> n \<and> n \<le> 65535"
proof -
  obtain h p n where "net_SplitHostPort (trim_space raw) = Inr (h, p)" "isLoopbackHost ip_loopback h"
    "parse_int p = Some n" "1 \<le> n" "n \<le> 65535" and a: "addr = net_JoinHostPort (trim_brackets h) p"
    using assms
    by (auto simp: ValidateLoopbackAddr_def Let_def split: sum.splits option.splits if_splits)
  moreover from this have "net_SplitHostPort addr = Inr (h, p)"
    using SplitHostPort_parts Split_Join trim_brackets_plain by metis
  ultimately show ?thesis by blast
qed

end
