(* ===== verification/Trace_Collector.thy ===== *)
theory Trace_Collector
  imports Trace_Ship Trace_Shed Session_Asm_Properties Trace_Policy Clash_Api
begin

text \<open>
  The trace collector (\<open>src/cmd/lattice-agent/tracesource.go\<close>), which ties the trace components
  together: each log entry of sing-box passes the guard, the parser and the guard again, reaches
  the assembler and is matched against the policy; what a capture session asked for, and the
  records the assembler finishes, go to the shipper.

  \<open>startPipeline\<close> creates an assembler, a guard, a shipper and an API client at once, \<open>stop\<close>
  clears the collector's pointers to the four and to \<open>runCancel\<close> at once, and the goroutines keep
  the pointers they were started with. So the four objects are one \<open>pipeline\<close> in the list
  \<open>c_pipes\<close>, a pointer to any of them is its index, and \<open>c_pipe\<close> is \<open>None\<close> exactly when the
  pointers of the collector are nil. A handler of a goroutine names the pipeline it was started
  for; \<open>on_entry\<close> reads the collector's shipper afresh, as the code does.

  Each handler is taken as one step: another goroutine that runs between two critical sections
  of the same handler is not modelled. The calls that wait for the network are split where they
  wait: \<open>flushRaw\<close> into \<open>flushRaw_send\<close> and \<open>flushRaw_answer\<close>, the loop of \<open>Flush\<close> into
  \<open>ship_take\<close> and \<open>ship_answer\<close>; the last flush of \<open>stop\<close> is a run of these two afterwards.
  What they wait for is the field \<open>pl_raw\<close> or \<open>pl_batch\<close> of the pipeline whose goroutine waits.
  The wall clock is an argument of each step; it is read once.
\<close>

section \<open>Definitions\<close>

subsection \<open>State\<close>

definition defaultTraceBudgetLines :: int where "defaultTraceBudgetLines = 5000"
definition traceStreamGrace :: duration where "traceStreamGrace = 15 * second"
definition traceConnPollFailLimit :: int where "traceConnPollFailLimit = 3"
definition traceDiscoveryFailLimit :: int where "traceDiscoveryFailLimit = traceConnPollFailLimit"
definition traceLinesWindow :: int where "traceLinesWindow = 10"
definition tracePendingPerConn :: nat where "tracePendingPerConn = 8"
definition tracePendingConns :: nat where "tracePendingConns = 512"
definition traceRawQueueMax :: nat where "traceRawQueueMax = 5000"
definition defaultSingBoxConfigPath :: string where
  "defaultSingBoxConfigPath = ''/etc/sing-box/config.json''"
definition defaultClashSecretPath :: string where
  "defaultClashSecretPath = ''/etc/sing-box/lattice-clash-api.secret''"

datatype collector_state =
    CollectorOff
  | CollectorReady
  | CollectorStreamFailing
  | CollectorNoClashAPI
  | CollectorSecretUnreadable

text \<open>
  \<open>model.CollectorStatus\<close>. Instead of the rate \<open>LinesPerSec\<close> it has the number of lines that the
  rate divides by \<open>traceLinesWindow\<close>.
\<close>

record collector_status =
  cs_State :: collector_state
  cs_Since :: gotime
  cs_ClashAPIAddr :: string
  cs_AddrSource :: addr_source
  cs_Detail :: string
  cs_Level :: string
  cs_RawLines :: bool
  cs_LinesInWindow :: "64 word"
  cs_BudgetLinesPerSec :: int
  cs_ShedConnections :: "64 word"
  cs_Unparsed :: "64 word"
  cs_CountersSince :: gotime

text \<open>
  The agent's configuration, and the server's for the collector: what \<open>tracepolicy\<close> reads of
  \<open>model.TraceAgentConfig\<close> and what the collector reads itself. \<open>cf_Raw\<close> is the pointer to the
  raw switch.
\<close>

record agent_cfg =
  ag_Server :: string
  ag_NodeID :: string
  ag_Token :: string

record collector_config =
  cf_agent :: agent_config
  cf_SecretPath :: string
  cf_BudgetLinesPerSec :: int
  cf_ClashAPIAddr :: string
  cf_Raw :: "bool option"
  cf_RawSourceID :: string
  cf_ServerTime :: gotime

text \<open>
  What the model leaves open: the levels of the SDK and its bound on a status detail, the decoding
  of a log entry and of a sing-box config, \<open>net.ParseIP\<close> with \<open>IsLoopback\<close>, the \<open>%q\<close> of \<open>fmt\<close>,
  \<open>sha256.Sum256\<close> and \<open>http.ParseTime\<close>.
\<close>

record collector_env =
  ev_levels :: trace_levels
  ev_bound :: "string \<Rightarrow> string"
  ev_entry :: "string \<Rightarrow> (string \<times> string) option"
  ev_config :: config_decoder
  ev_loopback :: "string \<Rightarrow> bool"
  ev_quote :: "string \<Rightarrow> string"
  ev_sha256 :: "string \<Rightarrow> string"
  ev_http_time :: "string \<Rightarrow> gotime option"

record raw_batch =
  rb_SourceID :: string
  rb_Path :: string
  rb_Lines :: "string list"
  rb_Dropped :: "64 word"
  rb_CapturedAt :: gotime
  rb_epoch :: "64 word"

record pipeline =
  pl_asm :: assembler
  pl_guard :: guard
  pl_shipper :: shipper
  pl_baseAddr :: string
  pl_secret :: string
  pl_batch :: "trace_batch option"
  pl_raw :: "raw_batch option"

record collector =
  c_cfg :: agent_cfg
  c_policy :: policy_set
  c_generation :: "64 word"
  c_coreStart :: gotime
  c_pipes :: "pipeline list"
  c_pipe :: "nat option"
  c_haveLevel :: string
  c_streaming :: bool
  c_addr :: string
  c_lastUpload :: int
  c_lastDownload :: int
  c_sawTotals :: bool
  c_observationGaps :: "64 word"
  c_lastAsmDropped :: "64 word"
  c_lastAsmPartial :: "64 word"
  c_serverSkew :: duration
  c_budget :: int
  c_configPath :: string
  c_fallbackSecretPath :: string
  c_configured :: bool
  c_status :: collector_status
  c_notified :: nat
  c_streamEpoch :: "64 word"
  c_streamOpen :: bool
  c_streamOpened :: bool
  c_streamDownSince :: gotime
  c_streamErr :: string
  c_connPollFailures :: int
  c_connErr :: string
  c_discoveryFailures :: int
  c_discoveryErr :: string
  c_secretHash :: string
  c_lineSecs :: "int list"
  c_lineCounts :: "32 word list"
  c_unparsedTotal :: "64 word"
  c_shedTotal :: "64 word"
  c_countersSince :: gotime
  c_pending :: "32 word \<rightharpoonup> trace_line list"
  c_pendingOrder :: "32 word list"
  c_tagged :: "32 word \<rightharpoonup> string list"
  c_rawSourceID :: string
  c_rawQueue :: "string list"
  c_rawDropped :: "64 word"
  c_rawEpoch :: "64 word"
  c_unparsed :: "64 word"
  c_panicked :: bool

definition no_policy :: policy_set where
  "no_policy = \<lparr>ps_nodeEnabled = False, ps_nodeLevel = [], ps_sessions = [], ps_subscribe = [],
                ps_expiresNext = 0\<rparr>"

definition zero_hash :: string where
  "zero_hash = replicate 32 CHR 0x00"

definition newTraceCollector :: "agent_cfg \<Rightarrow> gotime \<Rightarrow> collector" where
  "newTraceCollector cfg start =
     \<lparr>c_cfg = cfg, c_policy = no_policy, c_generation = 1, c_coreStart = 0, c_pipes = [],
      c_pipe = None, c_haveLevel = [], c_streaming = False, c_addr = [], c_lastUpload = 0,
      c_lastDownload = 0, c_sawTotals = False, c_observationGaps = 0, c_lastAsmDropped = 0,
      c_lastAsmPartial = 0, c_serverSkew = 0, c_budget = 0,
      c_configPath = defaultSingBoxConfigPath, c_fallbackSecretPath = defaultClashSecretPath,
      c_configured = False,
      c_status = \<lparr>cs_State = CollectorOff, cs_Since = start, cs_ClashAPIAddr = [],
                  cs_AddrSource = AddrFromNowhere, cs_Detail = [], cs_Level = [],
                  cs_RawLines = False, cs_LinesInWindow = 0, cs_BudgetLinesPerSec = 0,
                  cs_ShedConnections = 0, cs_Unparsed = 0, cs_CountersSince = 0\<rparr>,
      c_notified = 0, c_streamEpoch = 0, c_streamOpen = False, c_streamOpened = False,
      c_streamDownSince = 0, c_streamErr = [], c_connPollFailures = 0, c_connErr = [],
      c_discoveryFailures = 0, c_discoveryErr = [], c_secretHash = zero_hash,
      c_lineSecs = replicate 11 0, c_lineCounts = replicate 11 0, c_unparsedTotal = 0,
      c_shedTotal = 0, c_countersSince = start, c_pending = Map.empty, c_pendingOrder = [],
      c_tagged = Map.empty, c_rawSourceID = [], c_rawQueue = [], c_rawDropped = 0,
      c_rawEpoch = 0, c_unparsed = 0, c_panicked = False\<rparr>"

text \<open>Access to the pipeline a goroutine holds.\<close>

definition upd_pipe :: "nat \<Rightarrow> (pipeline \<Rightarrow> pipeline) \<Rightarrow> collector \<Rightarrow> collector" where
  "upd_pipe p f c = c\<lparr>c_pipes := (c_pipes c)[p := f (c_pipes c ! p)]\<rparr>"

abbreviation upd_asm :: "nat \<Rightarrow> (assembler \<Rightarrow> assembler) \<Rightarrow> collector \<Rightarrow> collector" where
  "upd_asm p f \<equiv> upd_pipe p (\<lambda>pl. pl\<lparr>pl_asm := f (pl_asm pl)\<rparr>)"

abbreviation upd_guard :: "nat \<Rightarrow> (guard \<Rightarrow> guard) \<Rightarrow> collector \<Rightarrow> collector" where
  "upd_guard p f \<equiv> upd_pipe p (\<lambda>pl. pl\<lparr>pl_guard := f (pl_guard pl)\<rparr>)"

abbreviation upd_shipper :: "nat \<Rightarrow> (shipper \<Rightarrow> shipper) \<Rightarrow> collector \<Rightarrow> collector" where
  "upd_shipper p f \<equiv> upd_pipe p (\<lambda>pl. pl\<lparr>pl_shipper := f (pl_shipper pl)\<rparr>)"

subsection \<open>The status\<close>

text \<open>
  \<open>c_notified\<close> counts the calls of the registered \<open>onStateChange\<close>; none is registered in
  tests only.
\<close>

definition setStatusLocked ::
  "collector_env \<Rightarrow> gotime \<Rightarrow> collector_state \<Rightarrow> string \<Rightarrow> collector \<Rightarrow> collector \<times> bool" where
  "setStatusLocked env now state detail c =
     (let c = c\<lparr>c_configured := True, c_status := (c_status c)\<lparr>cs_Detail := ev_bound env detail\<rparr>\<rparr>
      in if cs_State (c_status c) = state then (c, False)
         else (c\<lparr>c_status := (c_status c)\<lparr>cs_State := state, cs_Since := now\<rparr>\<rparr>, True))"

definition notify :: "collector \<times> bool \<Rightarrow> collector" where
  "notify r = (if snd r then (fst r)\<lparr>c_notified := c_notified (fst r) + 1\<rparr> else fst r)"

definition setStatus ::
  "collector_env \<Rightarrow> gotime \<Rightarrow> collector_state \<Rightarrow> string \<Rightarrow> string \<Rightarrow> addr_source \<Rightarrow> collector
   \<Rightarrow> collector" where
  "setStatus env now state detail addr source c =
     notify (setStatusLocked env now state detail
       (c\<lparr>c_status := (c_status c)\<lparr>cs_ClashAPIAddr := addr, cs_AddrSource := source\<rparr>\<rparr>))"

definition stream_verdict :: "gotime \<Rightarrow> collector \<Rightarrow> (collector_state \<times> string) option" where
  "stream_verdict now c =
     (if c_connPollFailures c \<ge> traceConnPollFailLimit then
        Some (CollectorStreamFailing, ''connections: '' @ c_connErr c)
      else if c_discoveryFailures c \<ge> traceDiscoveryFailLimit then
        Some (CollectorNoClashAPI,
              c_discoveryErr c @ ''; the stream to '' @ c_addr c @ '' keeps running'')
      else if c_streamOpen c then Some (CollectorReady, [])
      else if c_streamDownSince c \<noteq> 0 \<and> time_sub now (c_streamDownSince c) \<ge> traceStreamGrace then
        Some (CollectorStreamFailing, ''log stream: '' @ c_streamErr c)
      else if \<not> c_streamOpened c \<and> c_streamErr c \<noteq> [] then
        Some (CollectorStreamFailing, ''log stream: '' @ c_streamErr c)
      else None)"

definition evaluateStream :: "collector_env \<Rightarrow> gotime \<Rightarrow> collector \<Rightarrow> collector" where
  "evaluateStream env now c =
     (if c_pipe c = None then c
      else case stream_verdict now c of
             None \<Rightarrow> c
           | Some (state, detail) \<Rightarrow> notify (setStatusLocked env now state detail c))"

text \<open>\<open>time.Time.Unix\<close>; the wall clock of a node is after 1970, so seconds are not negative.\<close>

definition unix :: "gotime \<Rightarrow> int" where
  "unix t = t div second - 62135596800"

definition countLineLocked :: "gotime \<Rightarrow> collector \<Rightarrow> collector" where
  "countLineLocked now c =
     (let sec = unix now;
          i = nat (sec mod int (length (c_lineSecs c)));
          c = (if c_lineSecs c ! i \<noteq> sec
               then c\<lparr>c_lineSecs := (c_lineSecs c)[i := sec], c_lineCounts := (c_lineCounts c)[i := 0]\<rparr>
               else c)
      in c\<lparr>c_lineCounts := (c_lineCounts c)[i := c_lineCounts c ! i + 1]\<rparr>)"

definition linesPerSecLocked :: "gotime \<Rightarrow> collector \<Rightarrow> 64 word" where
  "linesPerSecLocked now c =
     (let cur = unix now
      in sum_list (map (\<lambda>(sec, n). ucast n)
           (filter (\<lambda>(sec, n). sec \<ge> cur - traceLinesWindow \<and> sec < cur)
             (zip (c_lineSecs c) (c_lineCounts c)))))"

definition Status :: "gotime \<Rightarrow> collector \<Rightarrow> collector_status option" where
  "Status now c =
     (if \<not> c_configured c then None
      else
        let st = c_status c;
            st = (if cs_State st = CollectorReady then st\<lparr>cs_Level := c_haveLevel c\<rparr> else st)
        in Some (st\<lparr>cs_RawLines := (c_rawSourceID c \<noteq> [] \<and> c_pipe c \<noteq> None),
                    cs_LinesInWindow := linesPerSecLocked now c,
                    cs_BudgetLinesPerSec :=
                      (if c_budget c \<le> 0 then defaultTraceBudgetLines else c_budget c),
                    cs_ShedConnections := c_shedTotal c,
                    cs_Unparsed := c_unparsedTotal c,
                    cs_CountersSince := c_countersSince c\<rparr>))"

subsection \<open>Lines waiting for a session\<close>

definition bufferPending :: "32 word \<Rightarrow> trace_line \<Rightarrow> collector \<Rightarrow> collector" where
  "bufferPending logID l c =
     (if c_tagged c logID \<noteq> None then c
      else
        let c = (if c_pending c logID = None then
                   let c = (if length (c_pendingOrder c) \<ge> tracePendingConns
                            then c\<lparr>c_pendingOrder := tl (c_pendingOrder c),
                                   c_pending := (c_pending c)(hd (c_pendingOrder c) := None)\<rparr>
                            else c)
                   in c\<lparr>c_pendingOrder := c_pendingOrder c @ [logID]\<rparr>
                 else c);
            q = (case c_pending c logID of Some q \<Rightarrow> q | None \<Rightarrow> [])
        in if length q \<ge> tracePendingPerConn then c
           else c\<lparr>c_pending := (c_pending c)(logID \<mapsto> q @ [l])\<rparr>)"

definition stamp :: "string \<Rightarrow> trace_line \<Rightarrow> trace_line" where
  "stamp sessionID l = l\<lparr>tl_SessionID := sessionID\<rparr>"

definition claimPending ::
  "32 word \<Rightarrow> string list \<Rightarrow> collector \<Rightarrow> collector \<times> trace_line list" where
  "claimPending logID sessionIDs c =
     (if c_tagged c logID \<noteq> None then (c, [])
      else
        let q = (case c_pending c logID of Some q \<Rightarrow> q | None \<Rightarrow> []);
            c = c\<lparr>c_tagged := (c_tagged c)(logID \<mapsto> sessionIDs),
                  c_pending := (c_pending c)(logID := None),
                  c_pendingOrder := remove1 logID (c_pendingOrder c)\<rparr>
        in (c, concat (map (\<lambda>sessionID. map (stamp sessionID) q) sessionIDs)))"

definition forgetConn :: "32 word \<Rightarrow> collector \<Rightarrow> collector" where
  "forgetConn logID c =
     (let c = c\<lparr>c_tagged := (c_tagged c)(logID := None)\<rparr>
      in if c_pending c logID \<noteq> None
         then c\<lparr>c_pending := (c_pending c)(logID := None),
                c_pendingOrder := remove1 logID (c_pendingOrder c)\<rparr>
         else c)"

subsection \<open>The raw log source\<close>

definition effectiveRawSourceID :: "collector_config \<Rightarrow> string" where
  "effectiveRawSourceID cf =
     (if cf_Raw cf = Some False then [] else trim_space (cf_RawSourceID cf))"

definition setRawSourceLocked :: "string \<Rightarrow> collector \<Rightarrow> collector" where
  "setRawSourceLocked i c =
     (let c = (if i = [] \<and> (c_rawQueue c \<noteq> [] \<or> c_rawDropped c > 0)
               then c\<lparr>c_rawQueue := [], c_rawDropped := 0, c_rawEpoch := c_rawEpoch c + 1\<rparr>
               else c)
      in c\<lparr>c_rawSourceID := i\<rparr>)"

text \<open>
  \<open>flushRaw\<close> up to its POST, and after it; \<open>ok\<close> is an answer with status 200. The slice expression
  that cuts the queue panics when the queue is shorter than what was sent: \<open>None\<close>.
\<close>

definition singBoxRawPathFor :: "string \<Rightarrow> string" where
  "singBoxRawPathFor nodeID = ''singbox://'' @ nodeID"

definition raw_batch_of :: "gotime \<Rightarrow> collector \<Rightarrow> raw_batch option" where
  "raw_batch_of now c =
     (if c_rawSourceID c = [] \<or> c_rawQueue c = [] then None
      else Some \<lparr>rb_SourceID = c_rawSourceID c, rb_Path = singBoxRawPathFor (ag_NodeID (c_cfg c)),
                 rb_Lines = c_rawQueue c, rb_Dropped = c_rawDropped c, rb_CapturedAt = now,
                 rb_epoch = c_rawEpoch c\<rparr>)"

definition flushRaw_send :: "gotime \<Rightarrow> nat \<Rightarrow> collector \<Rightarrow> collector" where
  "flushRaw_send now p c =
     (if pl_raw (c_pipes c ! p) \<noteq> None then c
      else upd_pipe p (\<lambda>pl. pl\<lparr>pl_raw := raw_batch_of now c\<rparr>) c)"

definition trim_raw :: "raw_batch \<Rightarrow> collector \<Rightarrow> collector option" where
  "trim_raw b c =
     (if c_rawEpoch c = rb_epoch b
      then (if length (rb_Lines b) \<le> length (c_rawQueue c)
            then Some (c\<lparr>c_rawQueue := drop (length (rb_Lines b)) (c_rawQueue c), c_rawDropped := 0\<rparr>)
            else None)
      else Some c)"

definition flushRaw_answer :: "nat \<Rightarrow> bool \<Rightarrow> collector \<Rightarrow> collector option" where
  "flushRaw_answer p ok c =
     (case pl_raw (c_pipes c ! p) of
        None \<Rightarrow> Some c
      | Some b \<Rightarrow>
          (let c = upd_pipe p (\<lambda>pl. pl\<lparr>pl_raw := None\<rparr>) c
           in if \<not> ok then Some c else trim_raw b c))"

subsection \<open>The pipeline and the subscription\<close>

definition setLineBudget :: "int \<Rightarrow> collector \<Rightarrow> collector" where
  "setLineBudget budget c =
     (let budget = (if budget \<le> 0 then defaultTraceBudgetLines else budget);
          c = c\<lparr>c_budget := budget\<rparr>
      in case c_pipe c of
           None \<Rightarrow> c
         | Some p \<Rightarrow> upd_guard p (\<lambda>g. setBudget g budget) c)"

definition new_pipeline :: "agent_cfg \<Rightarrow> 64 word \<Rightarrow> int \<Rightarrow> string \<Rightarrow> string \<Rightarrow> pipeline" where
  "new_pipeline cfg generation budget baseAddr secret =
     \<lparr>pl_asm = new_assembler
        \<lparr>op_NodeID = ag_NodeID cfg, op_CoreGeneration = generation, op_MaxOpen = 0,
         op_OrphanTTL = 0, op_SnapshotEvery = 0, op_StallFloor = 0, op_StallQuiet = 0,
         op_HalfCloseGrace = 0\<rparr>,
      pl_guard = new_guard (if budget \<le> 0 then defaultTraceBudgetLines else budget)
        (int DefaultRingCapacity),
      pl_shipper = new_shipper
        \<lparr>cfg_Server = ag_Server cfg, cfg_NodeID = ag_NodeID cfg, cfg_Token = ag_Token cfg,
         cfg_MaxBatchRecords = 0, cfg_MaxBatchLines = 0, cfg_MaxPending = 0, cfg_FlushInterval = 0\<rparr>,
      pl_baseAddr = baseAddr, pl_secret = trim_space secret, pl_batch = None, pl_raw = None\<rparr>"

definition startPipeline ::
  "collector_env \<Rightarrow> gotime \<Rightarrow> nat \<Rightarrow> node_fs \<Rightarrow> string \<Rightarrow> addr_source \<Rightarrow> string \<Rightarrow> collector
   \<Rightarrow> collector \<times> bool" where
  "startPipeline env now euid fs addr source secretPath c =
     (case resolveClashSecret (ev_config env) euid fs secretPath (c_fallbackSecretPath c)
             (c_configPath c) of
        Inl e \<Rightarrow>
          (setStatus env now CollectorSecretUnreadable
             (''cannot read the Clash API secret: '' @ file_error_text e) addr source c, False)
      | Inr secret \<Rightarrow>
          (case ValidateLoopbackAddr (ev_loopback env) (ev_quote env) addr of
             Inl e \<Rightarrow> (setStatus env now CollectorNoClashAPI e addr source c, False)
           | Inr baseAddr \<Rightarrow>
               (let p = length (c_pipes c);
                    c = c\<lparr>c_pipes := c_pipes c
                            @ [new_pipeline (c_cfg c) (c_generation c) (c_budget c) baseAddr secret],
                          c_pipe := Some p, c_addr := addr,
                          c_status := (c_status c)\<lparr>cs_ClashAPIAddr := addr, cs_AddrSource := source\<rparr>,
                          c_connPollFailures := 0, c_connErr := [],
                          c_secretHash := ev_sha256 env (trim_space secret)\<rparr>
                in (upd_shipper p (setCore (c_generation c) (c_coreStart c)) c, True))))"

definition noteDiscovery :: "collector_env \<Rightarrow> gotime \<Rightarrow> string \<Rightarrow> collector \<Rightarrow> collector" where
  "noteDiscovery env now detail c =
     evaluateStream env now
       (if detail = [] then c\<lparr>c_discoveryFailures := 0, c_discoveryErr := []\<rparr>
        else c\<lparr>c_discoveryFailures := c_discoveryFailures c + 1, c_discoveryErr := detail\<rparr>)"

definition refreshSecret ::
  "collector_env \<Rightarrow> nat \<Rightarrow> node_fs \<Rightarrow> string \<Rightarrow> collector \<Rightarrow> collector \<times> bool" where
  "refreshSecret env euid fs secretPath c =
     (case resolveClashSecret (ev_config env) euid fs secretPath (c_fallbackSecretPath c)
             (c_configPath c) of
        Inl e \<Rightarrow> (c, False)
      | Inr secret \<Rightarrow>
          (let sum = ev_sha256 env (trim_space secret)
           in case c_pipe c of
                None \<Rightarrow> (c, False)
              | Some p \<Rightarrow>
                  (if sum = c_secretHash c \<or> c_streamOpen c then (c, False)
                   else ((upd_pipe p (\<lambda>pl. pl\<lparr>pl_secret := trim_space secret\<rparr>) c)
                           \<lparr>c_secretHash := sum\<rparr>, True))))"

definition restartStream :: "string \<Rightarrow> collector \<Rightarrow> collector" where
  "restartStream level c =
     (if c_pipe c = None then c
      else c\<lparr>c_streaming := True, c_haveLevel := level, c_streamEpoch := c_streamEpoch c + 1,
             c_streamOpen := False, c_streamOpened := False, c_streamDownSince := 0,
             c_streamErr := []\<rparr>)"

text \<open>
  \<open>stop\<close> hands what the assembler and the guard hold to the shipper; its last flush is then a
  run of \<open>ship_take\<close> and \<open>ship_answer\<close> on the pipeline that was taken down.
\<close>

definition drain_to_shipper :: "nat \<Rightarrow> collector \<Rightarrow> collector" where
  "drain_to_shipper p c =
     (let (a, records) = drain (pl_asm (c_pipes c ! p))
      in upd_shipper p (addRecords records) (upd_asm p (\<lambda>_. a) c))"

definition stop :: "collector \<Rightarrow> collector" where
  "stop c0 =
     (let c = c0\<lparr>c_streaming := False, c_pipe := None, c_haveLevel := [], c_addr := [],
                 c_streamEpoch := c_streamEpoch c0 + 1, c_streamOpen := False,
                 c_streamOpened := False, c_streamDownSince := 0, c_streamErr := [],
                 c_connPollFailures := 0, c_connErr := [], c_discoveryFailures := 0,
                 c_discoveryErr := [], c_secretHash := zero_hash\<rparr>
      in case c_pipe c0 of
           None \<Rightarrow> c
         | Some p \<Rightarrow>
             (let c = drain_to_shipper p c;
                  (g, shed, dropped) = guard_take (pl_guard (c_pipes c ! p));
                  c = (upd_guard p (\<lambda>_. g) c)\<lparr>c_shedTotal := c_shedTotal c + shed\<rparr>
              in upd_shipper p (\<lambda>s. addDropped dropped (addShed shed s)) c))"

text \<open>\<open>applyConfig\<close>, from the point where an address is settled.\<close>

definition apply_addr ::
  "collector_env \<Rightarrow> gotime \<Rightarrow> nat \<Rightarrow> node_fs \<Rightarrow> string \<Rightarrow> addr_source \<Rightarrow> string \<Rightarrow> string \<Rightarrow> collector
   \<Rightarrow> collector" where
  "apply_addr env now euid fs addr source secretPath level c =
     (let c1 = (if c_pipe c \<noteq> None \<and> c_addr c \<noteq> addr then stop c else c)
      in if c_pipe c1 = None then
           (let (c2, ok) = startPipeline env now euid fs addr source secretPath c1
            in if \<not> ok \<or> level = [] then c2 else restartStream level c2)
         else
           (let c2 = c1\<lparr>c_status := (c_status c1)\<lparr>cs_ClashAPIAddr := addr, cs_AddrSource := source\<rparr>\<rparr>;
                (c3, resubscribe) = refreshSecret env euid fs secretPath c2
            in if c_haveLevel c3 = level \<and> \<not> resubscribe then c3 else restartStream level c3))"

definition record_config :: "collector_env \<Rightarrow> gotime \<Rightarrow> collector_config \<Rightarrow> collector \<Rightarrow> collector" where
  "record_config env now cf c =
     (let c = (if cf_ServerTime cf \<noteq> 0 then c\<lparr>c_serverSkew := time_sub (cf_ServerTime cf) now\<rparr> else c);
          c = c\<lparr>c_policy := policy_Build (ev_levels env) (cf_agent cf) now\<rparr>
      in setLineBudget (cf_BudgetLinesPerSec cf) (setRawSourceLocked (effectiveRawSourceID cf) c))"

definition applyConfig ::
  "collector_env \<Rightarrow> gotime \<Rightarrow> nat \<Rightarrow> node_fs \<Rightarrow> collector_config \<Rightarrow> collector \<Rightarrow> collector" where
  "applyConfig env now euid fs cf c0 =
     (let c = record_config env now cf c0;
          secretPath = trim_space (cf_SecretPath cf);
          level = subscribeLevel (ev_levels env) (c_policy c)
      in if \<not> policy_Enabled (c_policy c) then
           setStatus env now CollectorOff [] [] AddrFromNowhere (stop c)
         else
           let d = resolveAddr (ev_loopback env) (ev_quote env) (ev_config env) euid fs
                     (c_configPath c) (cf_ClashAPIAddr cf)
           in if dc_addr d = [] \<and> dc_transient d \<and> c_pipe c \<noteq> None then
                apply_addr env now euid fs (c_addr c) (cs_AddrSource (c_status c)) secretPath level
                  (noteDiscovery env now (dc_detail d) c)
              else if dc_addr d = [] then
                setStatus env now CollectorNoClashAPI (dc_detail d) [] AddrFromNowhere (stop c)
              else
                apply_addr env now euid fs (dc_addr d) (dc_source d) secretPath level
                  (noteDiscovery env now [] c))"

definition noteStreamOpen :: "collector_env \<Rightarrow> gotime \<Rightarrow> 64 word \<Rightarrow> collector \<Rightarrow> collector" where
  "noteStreamOpen env now epoch c =
     (if c_streamEpoch c \<noteq> epoch then c
      else evaluateStream env now
             (c\<lparr>c_streamOpen := True, c_streamOpened := True, c_streamDownSince := 0,
                c_streamErr := []\<rparr>))"

definition noteStreamError ::
  "collector_env \<Rightarrow> gotime \<Rightarrow> 64 word \<Rightarrow> string \<Rightarrow> collector \<Rightarrow> collector" where
  "noteStreamError env now epoch err c =
     (let c = c\<lparr>c_observationGaps := c_observationGaps c + 1\<rparr>
      in if c_streamEpoch c \<noteq> epoch then c
         else evaluateStream env now
                (c\<lparr>c_streamOpen := False,
                   c_streamDownSince := (if c_streamDownSince c = 0 then now else c_streamDownSince c),
                   c_streamErr := err\<rparr>))"

subsection \<open>A log entry\<close>

definition trace_line_of :: "string \<Rightarrow> gotime \<Rightarrow> log_line \<Rightarrow> trace_line" where
  "trace_line_of nodeID now l =
     \<lparr>tl_NodeID = nodeID, tl_At = now, tl_Level = ln_Level l, tl_LogID = ln_LogID l,
      tl_Tag = ln_Tag l, tl_Message = ln_Message l, tl_Raw = ln_Raw l, tl_SessionID = []\<rparr>"

text \<open>Who the connection of a line is, as far as the assembler knows.\<close>

definition line_identity :: "assembler \<Rightarrow> log_line \<Rightarrow> string \<times> string" where
  "line_identity a l =
     (if ln_HasLogID l then
        let cx = conn_context_of a (ln_LogID l)
        in if cx_Known cx
           then (if cx_User cx \<noteq> [] then cx_User cx else ln_User l,
                 if cx_DstHost cx \<noteq> [] then cx_DstHost cx else ln_DstHost l)
           else (ln_User l, ln_DstHost l)
      else (ln_User l, ln_DstHost l))"

definition offer_raw :: "bool \<Rightarrow> string \<Rightarrow> collector \<Rightarrow> collector" where
  "offer_raw keep raw c =
     (if keep \<and> c_rawSourceID c \<noteq> [] then
        (if length (c_rawQueue c) < traceRawQueueMax
         then c\<lparr>c_rawQueue := c_rawQueue c @ [raw]\<rparr>
         else c\<lparr>c_rawDropped := c_rawDropped c + 1\<rparr>)
      else c)"

text \<open>
  The part of \<open>onEntry\<close> after the decision: \<open>p\<close> is the pipeline of the stream and \<open>q\<close> the one
  whose shipper the collector holds.
\<close>

definition ship_line ::
  "nat \<Rightarrow> string list \<Rightarrow> trace_line \<Rightarrow> collector \<Rightarrow> collector" where
  "ship_line q sessions base c =
     (if sessions = [] then c
      else upd_shipper q (addLines (map (\<lambda>sessionID. stamp sessionID base) sessions)) c)"

definition deliver ::
  "nat \<Rightarrow> nat \<Rightarrow> log_line \<Rightarrow> trace_line \<Rightarrow> decision \<Rightarrow> collector \<Rightarrow> collector" where
  "deliver p q l base d c =
     (case c_tagged c (ln_LogID l) of
        Some claimed \<Rightarrow>
          ship_line q (if ln_HasLogID l then claimed else de_SessionIDs d) base c
      | None \<Rightarrow>
          (if ln_HasLogID l \<and> de_SessionIDs d = [] then bufferPending (ln_LogID l) base c
           else if ln_HasLogID l then
             (let (c, backlog) = claimPending (ln_LogID l) (de_SessionIDs d) c;
                  c = upd_asm p (\<lambda>a. tag_conn a (ln_LogID l) (de_SessionIDs d)) c;
                  c = upd_shipper q (addLines backlog) c
              in if \<not> de_Keep d then c else ship_line q (de_SessionIDs d) base c)
           else if \<not> de_Keep d then c
           else ship_line q (de_SessionIDs d) base c))"

definition route_line ::
  "collector_env \<Rightarrow> string \<Rightarrow> nat \<Rightarrow> nat \<Rightarrow> gotime \<Rightarrow> log_line \<Rightarrow> collector \<Rightarrow> collector" where
  "route_line env nodeID p q now l c =
     (let (user, dstHost) = line_identity (pl_asm (c_pipes c ! p)) l;
          d = policy_Match (ev_levels env) (c_policy c) l user dstHost
      in deliver p q l (trace_line_of nodeID now l) d (offer_raw (de_Keep d) (ln_Raw l) c))"

definition observe_line ::
  "collector_env \<Rightarrow> string \<Rightarrow> nat \<Rightarrow> gotime \<Rightarrow> log_line \<Rightarrow> collector \<Rightarrow> collector" where
  "observe_line env nodeID p now l c =
     (let (g, ok) = admit (pl_guard (c_pipes c ! p)) now l
            (ln_HasLogID l \<and> tracked (pl_asm (c_pipes c ! p)) (ln_LogID l));
          c = upd_guard p (\<lambda>_. g) c
      in if \<not> ok then c
         else
           let c = upd_asm p (\<lambda>a. asm_line a now l) c
           in case c_pipe c of
                None \<Rightarrow> c
              | Some q \<Rightarrow> route_line env nodeID p q now l c)"

definition on_entry ::
  "collector_env \<Rightarrow> string \<Rightarrow> nat \<Rightarrow> gotime \<Rightarrow> string \<Rightarrow> collector \<Rightarrow> collector" where
  "on_entry env nodeID p now entry c =
     (let c = countLineLocked now c;
          (g, under) = ceiling_check (pl_guard (c_pipes c ! p)) now;
          c = upd_guard p (\<lambda>_. g) c
      in if \<not> under then c
         else
           let (l, ok) = ParseEntry (ev_entry env) entry now;
               c = (if \<not> ok \<or> \<not> Parsed l
                    then c\<lparr>c_unparsed := c_unparsed c + 1, c_unparsedTotal := c_unparsedTotal c + 1\<rparr>
                    else c)
           in if \<not> ok then c else observe_line env nodeID p now l c)"

subsection \<open>The connection poll\<close>

record api_connection =
  ap_Upload :: int
  ap_Download :: int
  ap_Start :: gotime
  ap_Chains :: "string list"
  ap_Rule :: string
  ap_Network :: string
  ap_Type :: string
  ap_Host :: string
  ap_SourceIP :: string
  ap_SourcePort :: string
  ap_DestinationPort :: string

record connections_snapshot =
  sp_Connections :: "api_connection list"
  sp_UploadTotal :: int
  sp_DownloadTotal :: int
  sp_At :: gotime

definition InboundTypeAndTag :: "string \<Rightarrow> string \<times> string" where
  "InboundTypeAndTag ty =
     (let (inboundType, tag, found) = str_cut ty ''/''
      in if \<not> found then (ty, []) else (inboundType, tag))"

definition item_of :: "api_connection \<Rightarrow> snapshot_item" where
  "item_of conn =
     (let (inboundType, inboundTag) = InboundTypeAndTag (ap_Type conn)
      in \<lparr>si_SrcIP = ap_SourceIP conn, si_SrcPort = ap_SourcePort conn, si_DstHost = ap_Host conn,
          si_DstPort = ap_DestinationPort conn, si_InboundType = inboundType,
          si_InboundTag = inboundTag, si_Network = ap_Network conn, si_Upload = ap_Upload conn,
          si_Download = ap_Download conn, si_Rule = ap_Rule conn, si_Chains = ap_Chains conn,
          si_Start = ap_Start conn\<rparr>)"

definition noteCoreRestart :: "gotime \<Rightarrow> nat \<Rightarrow> collector \<Rightarrow> collector" where
  "noteCoreRestart now p c =
     (let c = c\<lparr>c_generation := c_generation c + 1, c_coreStart := now\<rparr>;
          c = upd_asm p (\<lambda>a. coreRestart a now (c_generation c) now) c;
          c = upd_guard p guard_reset c
      in case c_pipe c of
           None \<Rightarrow> c
         | Some q \<Rightarrow> upd_shipper q (setCore (c_generation c) (c_coreStart c)) c)"

definition regressed :: "collector \<Rightarrow> connections_snapshot \<Rightarrow> bool" where
  "regressed c snap \<longleftrightarrow>
     c_sawTotals c \<and> (sp_UploadTotal snap < c_lastUpload c \<or> sp_DownloadTotal snap < c_lastDownload c)"

definition poll_connections ::
  "collector_env \<Rightarrow> gotime \<Rightarrow> nat \<Rightarrow> string + connections_snapshot \<Rightarrow> collector \<Rightarrow> collector" where
  "poll_connections env now p answer c0 =
     (if c_pipe c0 \<noteq> Some p then c0
      else case answer of
        Inl err \<Rightarrow>
          evaluateStream env now
            (c0\<lparr>c_connPollFailures := c_connPollFailures c0 + 1, c_connErr := err\<rparr>)
      | Inr snap \<Rightarrow>
          (let c = c0\<lparr>c_connPollFailures := 0, c_connErr := [], c_lastUpload := sp_UploadTotal snap,
                      c_lastDownload := sp_DownloadTotal snap, c_sawTotals := True\<rparr>;
               c = evaluateStream env now c;
               c = (if regressed c0 snap then noteCoreRestart now p c else c)
           in upd_asm p (\<lambda>a. asm_snapshot a now
                \<lparr>sn_At = sp_At snap, sn_Items = map item_of (sp_Connections snap)\<rparr>) c))"

subsection \<open>The tick\<close>

text \<open>
  \<open>expireSessionsLocally\<close> in its two parts, between which the mutex is free: what it decides from
  the policy it read, and what it writes.
\<close>

definition expire_rebuild :: "collector_env \<Rightarrow> gotime \<Rightarrow> collector \<Rightarrow> policy_set option" where
  "expire_rebuild env now c =
     (let next = expiresNext (c_policy c)
      in if next = 0 \<or> now + c_serverSkew c < next then None
         else Some (policy_Build (ev_levels env)
                \<lparr>ac_Policy = policy_Policy (c_policy c), ac_Sessions = activeSessions (c_policy c)\<rparr>
                (now + c_serverSkew c)))"

definition expire_commit :: "collector_env \<Rightarrow> policy_set \<Rightarrow> collector \<Rightarrow> collector" where
  "expire_commit env rebuilt c =
     (let c = c\<lparr>c_policy := rebuilt\<rparr>;
          want = subscribeLevel (ev_levels env) rebuilt
      in if want \<noteq> c_haveLevel c then restartStream want c else c)"

definition expireSessionsLocally :: "collector_env \<Rightarrow> gotime \<Rightarrow> collector \<Rightarrow> collector" where
  "expireSessionsLocally env now c =
     (case expire_rebuild env now c of None \<Rightarrow> c | Some rebuilt \<Rightarrow> expire_commit env rebuilt c)"

definition forget_final :: "collector \<Rightarrow> conn_record \<Rightarrow> collector" where
  "forget_final c r = (if \<not> rec_Open r then forgetConn (rec_LogID r) c else c)"

text \<open>\<open>driveAssembler\<close>: a tick up to \<open>flushRaw\<close>, the rest of it, and the way out.\<close>

definition drive_tick :: "collector_env \<Rightarrow> gotime \<Rightarrow> nat \<Rightarrow> collector \<Rightarrow> collector" where
  "drive_tick env now p c =
     (let c = expireSessionsLocally env now c;
          c = upd_asm p (\<lambda>a. asm_tick a now now) c;
          (a, records) = drain (pl_asm (c_pipes c ! p));
          c = upd_asm p (\<lambda>_. a) c
      in if records = [] then c
         else upd_shipper p (addRecords records) (foldl forget_final c records))"

definition drive_report :: "collector_env \<Rightarrow> gotime \<Rightarrow> nat \<Rightarrow> collector \<Rightarrow> collector" where
  "drive_report env now p c =
     (let asmStats = stats_of (pl_asm (c_pipes c ! p));
          (g, shed, dropped) = guard_take (pl_guard (c_pipes c ! p));
          c = upd_guard p (\<lambda>_. g) c;
          unparsed = c_unparsed c;
          c = c\<lparr>c_unparsed := 0, c_shedTotal := c_shedTotal c + shed\<rparr>;
          d = asm_stats.st_Dropped asmStats - c_lastAsmDropped c;
          (dropped, c) = (if d > 0 then (dropped + d, c\<lparr>c_lastAsmDropped := asm_stats.st_Dropped asmStats\<rparr>)
                          else (dropped, c));
          d = asm_stats.st_Partial asmStats - c_lastAsmPartial c;
          (dropped, c) = (if d > 0 then (dropped + d, c\<lparr>c_lastAsmPartial := asm_stats.st_Partial asmStats\<rparr>)
                          else (dropped, c));
          c = upd_shipper p (\<lambda>s. addShed shed (addDropped dropped (addUnparsed unparsed s))) c
      in evaluateStream env now c)"

definition drive_exit :: "nat \<Rightarrow> collector \<Rightarrow> collector" where
  "drive_exit p c = drain_to_shipper p c"

subsection \<open>Delivery\<close>

text \<open>One turn of the loop in \<open>Flush\<close>: the batch on the wire is a local variable of the loop.\<close>

definition ship_take :: "gotime \<Rightarrow> nat \<Rightarrow> collector \<Rightarrow> collector" where
  "ship_take now p c =
     (let pl = c_pipes c ! p
      in if pl_batch pl \<noteq> None then c
         else let (b, s) = takeBatch now (pl_shipper pl)
              in upd_pipe p (\<lambda>pl. pl\<lparr>pl_shipper := s, pl_batch := b\<rparr>) c)"

definition ship_answer :: "collector_env \<Rightarrow> gotime \<Rightarrow> nat \<Rightarrow> http_answer \<Rightarrow> collector \<Rightarrow> collector" where
  "ship_answer env now p answer c =
     (let pl = c_pipes c ! p
      in case pl_batch pl of
           None \<Rightarrow> c
         | Some batch \<Rightarrow>
             (let s = (case post_result (ev_http_time env) now answer of
                         (status, retryAfter, Some err) \<Rightarrow>
                           recordFailure status retryAfter err now (restore (pl_shipper pl))
                       | (_, _, None) \<Rightarrow> commit batch now (pl_shipper pl))
              in upd_pipe p (\<lambda>pl. pl\<lparr>pl_shipper := s, pl_batch := None\<rparr>) c))"

subsection \<open>Runs\<close>

text \<open>
  The steps of the goroutines, in any order. A step that names a pipeline belongs to a goroutine
  started for it, so it happens only once the pipeline exists; a process that panicked makes no
  more steps.
\<close>

datatype collector_op =
    CfgRead agent_cfg
  | Apply gotime nat node_fs collector_config
  | Entry string nat gotime string
  | StreamOpen gotime "64 word"
  | StreamError gotime "64 word" string
  | Poll gotime nat "string + connections_snapshot"
  | Tick gotime nat
  | RawSend gotime nat
  | RawAnswer nat bool
  | Report gotime nat
  | Exit nat
  | ShipTake gotime nat
  | ShipAnswer gotime nat http_answer

fun op_pipe :: "collector_op \<Rightarrow> nat option" where
  "op_pipe (Entry nodeID p now entry) = Some p"
| "op_pipe (Poll now p answer) = Some p"
| "op_pipe (Tick now p) = Some p"
| "op_pipe (RawSend now p) = Some p"
| "op_pipe (RawAnswer p ok) = Some p"
| "op_pipe (Report now p) = Some p"
| "op_pipe (Exit p) = Some p"
| "op_pipe (ShipTake now p) = Some p"
| "op_pipe (ShipAnswer now p answer) = Some p"
| "op_pipe _ = None"

fun collector_do :: "collector_env \<Rightarrow> collector \<Rightarrow> collector_op \<Rightarrow> collector" where
  "collector_do env c (CfgRead cfg) = c\<lparr>c_cfg := cfg\<rparr>"
| "collector_do env c (Apply now euid fs cf) = applyConfig env now euid fs cf c"
| "collector_do env c (Entry nodeID p now entry) = on_entry env nodeID p now entry c"
| "collector_do env c (StreamOpen now epoch) = noteStreamOpen env now epoch c"
| "collector_do env c (StreamError now epoch err) = noteStreamError env now epoch err c"
| "collector_do env c (Poll now p answer) = poll_connections env now p answer c"
| "collector_do env c (Tick now p) = drive_tick env now p c"
| "collector_do env c (RawSend now p) = flushRaw_send now p c"
| "collector_do env c (RawAnswer p ok) =
     (case flushRaw_answer p ok c of Some c' \<Rightarrow> c' | None \<Rightarrow> c\<lparr>c_panicked := True\<rparr>)"
| "collector_do env c (Report now p) = drive_report env now p c"
| "collector_do env c (Exit p) = drive_exit p c"
| "collector_do env c (ShipTake now p) = ship_take now p c"
| "collector_do env c (ShipAnswer now p answer) = ship_answer env now p answer c"

definition collector_step :: "collector_env \<Rightarrow> collector \<Rightarrow> collector_op \<Rightarrow> collector" where
  "collector_step env c op =
     (if c_panicked c then c
      else case op_pipe op of
        Some p \<Rightarrow> (if p < length (c_pipes c) then collector_do env c op else c)
      | None \<Rightarrow> collector_do env c op)"

end
