(* ===== verification/Trace_Collector_Pipelines.thy ===== *)
theory Trace_Collector_Pipelines
  imports Trace_Collector
begin

text \<open>
  What holds of every pipeline in every run of the collector. The locale \<open>pipe_property\<close> has one
  assumption per call the collector makes on the objects of a pipeline; it is interpreted for
  three properties: no connection being assembled is marked as shed (\<open>open_unshed\<close>), the API
  client talks to a loopback address (\<open>client_loopback\<close>), and each object is in a state its own
  component reaches, the records handed to the shipper being those the assembler gave out
  (\<open>parts_ok\<close>).
\<close>

section \<open>Lemmas\<close>

subsection \<open>What the steps leave alone\<close>

lemma upd_pipe_fields [simp]:
  "c_cfg (upd_pipe p f c) = c_cfg c" "c_policy (upd_pipe p f c) = c_policy c"
  "c_pipe (upd_pipe p f c) = c_pipe c" "c_haveLevel (upd_pipe p f c) = c_haveLevel c"
  "c_addr (upd_pipe p f c) = c_addr c" "c_status (upd_pipe p f c) = c_status c"
  "c_generation (upd_pipe p f c) = c_generation c" "c_coreStart (upd_pipe p f c) = c_coreStart c"
  "c_pending (upd_pipe p f c) = c_pending c" "c_pendingOrder (upd_pipe p f c) = c_pendingOrder c"
  "c_tagged (upd_pipe p f c) = c_tagged c" "c_rawSourceID (upd_pipe p f c) = c_rawSourceID c"
  "c_rawQueue (upd_pipe p f c) = c_rawQueue c" "c_rawDropped (upd_pipe p f c) = c_rawDropped c"
  "c_rawEpoch (upd_pipe p f c) = c_rawEpoch c" "c_panicked (upd_pipe p f c) = c_panicked c"
  "c_unparsed (upd_pipe p f c) = c_unparsed c" "c_shedTotal (upd_pipe p f c) = c_shedTotal c"
  "c_lastAsmDropped (upd_pipe p f c) = c_lastAsmDropped c"
  "c_lastAsmPartial (upd_pipe p f c) = c_lastAsmPartial c"
  "c_serverSkew (upd_pipe p f c) = c_serverSkew c"
  "length (c_pipes (upd_pipe p f c)) = length (c_pipes c)"
  by (simp_all add: upd_pipe_def)

lemma upd_pipe_nth [simp]:
  "p < length (c_pipes c) \<Longrightarrow>
   c_pipes (upd_pipe p f c) ! q = (if q = p then f (c_pipes c ! p) else c_pipes c ! q)"
  by (simp add: upd_pipe_def nth_list_update)

lemma upd_pipe_comp: "upd_pipe p f (upd_pipe p g c) = upd_pipe p (\<lambda>pl. f (g pl)) c"
  by (cases "p < length (c_pipes c)") (simp_all add: upd_pipe_def list_update_beyond)

lemma notify_status_pipes [simp]:
  "c_pipes (notify (setStatusLocked env now state detail c)) = c_pipes c"
  "c_pipe (notify (setStatusLocked env now state detail c)) = c_pipe c"
  by (simp_all add: notify_def setStatusLocked_def Let_def)

lemma status_pipes [simp]:
  "c_pipes (setStatus env now state detail addr source c) = c_pipes c"
  "c_pipe (setStatus env now state detail addr source c) = c_pipe c"
  "c_pipes (evaluateStream env now c) = c_pipes c"
  "c_pipe (evaluateStream env now c) = c_pipe c"
  by (simp_all add: setStatus_def evaluateStream_def split: option.split)

lemma small_pipes [simp]:
  "c_pipes (countLineLocked now c) = c_pipes c"
  "c_pipes (bufferPending i l c) = c_pipes c"
  "c_pipes (fst (claimPending i ss c)) = c_pipes c"
  "c_pipes (forgetConn i c) = c_pipes c"
  "c_pipes (offer_raw k r c) = c_pipes c"
  "c_pipes (setRawSourceLocked sid c) = c_pipes c"
  "c_pipes (restartStream level c) = c_pipes c"
  "c_pipes (expire_commit env rebuilt c) = c_pipes c"
  "c_pipe (countLineLocked now c) = c_pipe c"
  by (simp_all add: countLineLocked_def bufferPending_def claimPending_def forgetConn_def offer_raw_def
      setRawSourceLocked_def restartStream_def expire_commit_def Let_def)

lemma forget_finals_pipes [simp]: "c_pipes (foldl forget_final c rs) = c_pipes c"
  by (induction rs arbitrary: c) (auto simp: forget_final_def)

lemma expire_pipes [simp]: "c_pipes (expireSessionsLocally env now c) = c_pipes c"
  by (simp add: expireSessionsLocally_def split: option.split)

subsection \<open>Properties of every pipeline\<close>

definition all_pipes :: "(pipeline \<Rightarrow> bool) \<Rightarrow> collector \<Rightarrow> bool" where
  "all_pipes P c \<longleftrightarrow> list_all P (c_pipes c)"

lemma all_pipes_upd:
  "all_pipes P c \<Longrightarrow> (P (c_pipes c ! p) \<Longrightarrow> P (f (c_pipes c ! p))) \<Longrightarrow> all_pipes P (upd_pipe p f c)"
  by (cases "p < length (c_pipes c)")
     (auto simp: all_pipes_def upd_pipe_def list_all_length nth_list_update)

lemma all_pipes_simps [simp]:
  "all_pipes P (setStatus env now state detail addr source c) = all_pipes P c"
  "all_pipes P (evaluateStream env now c) = all_pipes P c"
  "all_pipes P (countLineLocked now c) = all_pipes P c"
  "all_pipes P (bufferPending i l c) = all_pipes P c"
  "all_pipes P (fst (claimPending i ss c)) = all_pipes P c"
  "all_pipes P (forgetConn i c) = all_pipes P c"
  "all_pipes P (foldl forget_final c rs) = all_pipes P c"
  "all_pipes P (offer_raw k r c) = all_pipes P c"
  "all_pipes P (setRawSourceLocked sid c) = all_pipes P c"
  "all_pipes P (restartStream level c) = all_pipes P c"
  "all_pipes P (expireSessionsLocally env now c) = all_pipes P c"
  "all_pipes P (c\<lparr>c_unparsed := u, c_unparsedTotal := v\<rparr>) = all_pipes P c"
  "all_pipes P (c\<lparr>c_shedTotal := w\<rparr>) = all_pipes P c"
  "all_pipes P (c\<lparr>c_panicked := pa\<rparr>) = all_pipes P c"
  "all_pipes P (c\<lparr>c_cfg := cfg\<rparr>) = all_pipes P c"
  "all_pipes P (c\<lparr>c_generation := gen, c_coreStart := t\<rparr>) = all_pipes P c"
  "all_pipes P (c\<lparr>c_status := st\<rparr>) = all_pipes P c"
  "all_pipes P (c\<lparr>c_secretHash := hash\<rparr>) = all_pipes P c"
  "all_pipes P (c\<lparr>c_budget := n\<rparr>) = all_pipes P c"
  "all_pipes P (noteDiscovery env now detail c) = all_pipes P c"
  "all_pipes P (noteStreamOpen env now epoch c) = all_pipes P c"
  "all_pipes P (noteStreamError env now epoch err c) = all_pipes P c"
  by (simp_all add: all_pipes_def noteDiscovery_def noteStreamOpen_def noteStreamError_def Let_def)

text \<open>
  A property of a pipeline that a new one has and that each call on its objects keeps, one
  assumption per call the collector makes, holds of every pipeline of a run.
\<close>

locale pipe_property =
  fixes env :: collector_env
    and P :: "pipeline \<Rightarrow> bool"
  assumes fresh: "ValidateLoopbackAddr (ev_loopback env) (ev_quote env) addr = Inr base \<Longrightarrow>
      P (new_pipeline cfg gen b base s)"
    and budgeted: "P pl \<Longrightarrow> P (pl\<lparr>pl_guard := setBudget (pl_guard pl) n\<rparr>)"
    and counted: "P pl \<Longrightarrow> P (pl\<lparr>pl_guard := fst (ceiling_check (pl_guard pl) now)\<rparr>)"
    and asked: "P pl \<Longrightarrow>
      P (pl\<lparr>pl_guard := fst (admit (pl_guard pl) now l (ln_HasLogID l \<and> tracked (pl_asm pl) (ln_LogID l)))\<rparr>)"
    and observed: "P pl \<Longrightarrow>
      snd (admit (pl_guard pl) now l (ln_HasLogID l \<and> tracked (pl_asm pl) (ln_LogID l))) \<Longrightarrow>
      P (pl\<lparr>pl_guard := fst (admit (pl_guard pl) now l (ln_HasLogID l \<and> tracked (pl_asm pl) (ln_LogID l))),
            pl_asm := asm_line (pl_asm pl) now l\<rparr>)"
    and cleared: "P pl \<Longrightarrow> P (pl\<lparr>pl_guard := guard_reset (pl_guard pl)\<rparr>)"
    and taken: "P pl \<Longrightarrow> P (pl\<lparr>pl_guard := fst (guard_take (pl_guard pl))\<rparr>)"
    and tagged: "P pl \<Longrightarrow> P (pl\<lparr>pl_asm := tag_conn (pl_asm pl) i ss\<rparr>)"
    and polled: "P pl \<Longrightarrow> P (pl\<lparr>pl_asm := asm_snapshot (pl_asm pl) now sn\<rparr>)"
    and restarted: "P pl \<Longrightarrow> P (pl\<lparr>pl_asm := coreRestart (pl_asm pl) now g t\<rparr>)"
    and ticked: "P pl \<Longrightarrow> P (pl\<lparr>pl_asm := asm_tick (pl_asm pl) now t\<rparr>)"
    and drained: "P pl \<Longrightarrow> P (pl\<lparr>pl_asm := fst (drain (pl_asm pl)),
      pl_shipper := addRecords (snd (drain (pl_asm pl))) (pl_shipper pl)\<rparr>)"
    and queued: "P pl \<Longrightarrow> (\<And>rs. x \<noteq> AddRecords rs) \<Longrightarrow>
      P (pl\<lparr>pl_shipper := ship_op_apply x (pl_shipper pl)\<rparr>)"
    and took: "P pl \<Longrightarrow> pl_batch pl = None \<Longrightarrow>
      P (pl\<lparr>pl_shipper := snd (takeBatch now (pl_shipper pl)), pl_batch := fst (takeBatch now (pl_shipper pl))\<rparr>)"
    and accepted: "P pl \<Longrightarrow> pl_batch pl = Some tb \<Longrightarrow>
      P (pl\<lparr>pl_shipper := commit tb now (pl_shipper pl), pl_batch := None\<rparr>)"
    and refused: "P pl \<Longrightarrow> pl_batch pl = Some tb \<Longrightarrow>
      P (pl\<lparr>pl_shipper := recordFailure status ra err now (restore (pl_shipper pl)), pl_batch := None\<rparr>)"
    and rekeyed: "P pl \<Longrightarrow> P (pl\<lparr>pl_secret := s\<rparr>)"
    and sent: "P pl \<Longrightarrow> P (pl\<lparr>pl_raw := rb\<rparr>)"
begin

lemma added:
  assumes "P pl"
  shows "P (pl\<lparr>pl_shipper := addLines ls (pl_shipper pl)\<rparr>)" "P (pl\<lparr>pl_shipper := setCore g t (pl_shipper pl)\<rparr>)"
    "P (pl\<lparr>pl_shipper := addUnparsed n (pl_shipper pl)\<rparr>)" "P (pl\<lparr>pl_shipper := addDropped n (pl_shipper pl)\<rparr>)"
    "P (pl\<lparr>pl_shipper := addShed n (pl_shipper pl)\<rparr>)"
  using queued [OF assms, of "AddLines ls"] queued [OF assms, of "SetCore g t"]
    queued [OF assms, of "AddUnparsed n"] queued [OF assms, of "AddDropped n"] queued [OF assms, of "AddShed n"]
  by simp_all

lemma lost_counted:
  assumes "P pl"
  shows "P (pl\<lparr>pl_shipper := addDropped n (addShed m (pl_shipper pl))\<rparr>)"
    "P (pl\<lparr>pl_shipper := addShed m (addDropped n (addUnparsed k (pl_shipper pl)))\<rparr>)"
  using added(4) [OF added(5) [OF assms, of m], of n] added(5) [OF added(4) [OF added(3) [OF assms, of k], of n], of m]
  by simp_all

lemma ship_line_pipes: "all_pipes P c \<Longrightarrow> all_pipes P (ship_line q ss base c)"
  by (auto simp: ship_line_def intro: all_pipes_upd added)

lemma deliver_pipes:
  assumes "all_pipes P c"
  shows "all_pipes P (deliver p q l base d c)"
proof -
  let ?c1 = "fst (claimPending (ln_LogID l) (de_SessionIDs d) c)"
  have c1: "all_pipes P ?c1" using assms by (simp add: all_pipes_def)
  have "all_pipes P (upd_shipper q (addLines bl) (upd_asm p (\<lambda>a. tag_conn a i ss) ?c1))" for bl i ss
    by (intro all_pipes_upd c1 added tagged) simp_all
  then show ?thesis
    using assms by (simp add: deliver_def case_prod_beta Let_def ship_line_pipes split: option.split)
qed

lemma observe_pipes:
  assumes "all_pipes P c"
  shows "all_pipes P (observe_line env nodeID p now l c)"
proof -
  let ?pl = "c_pipes c ! p"
  let ?ad = "admit (pl_guard ?pl) now l (ln_HasLogID l \<and> tracked (pl_asm ?pl) (ln_LogID l))"
  have refused: "all_pipes P (upd_guard p (\<lambda>_. fst ?ad) c)"
    by (intro all_pipes_upd assms asked)
  have "all_pipes P (upd_asm p (\<lambda>a. asm_line a now l) (upd_guard p (\<lambda>_. fst ?ad) c))" if "snd ?ad"
    unfolding upd_pipe_comp using observed [OF _ that] by (intro all_pipes_upd assms) simp
  then show ?thesis using refused
    by (simp add: observe_line_def Let_def case_prod_beta route_line_def deliver_pipes split: option.split)
qed

lemma entry_pipes:
  assumes "all_pipes P c"
  shows "all_pipes P (on_entry env nodeID p now entry c)"
proof -
  have "all_pipes P (countLineLocked now c)" using assms by simp
  then have "all_pipes P (upd_guard p (\<lambda>_. fst (ceiling_check (pl_guard (c_pipes c ! p)) now)) (countLineLocked now c))"
    using counted [of "c_pipes c ! p" now] by (intro all_pipes_upd) simp_all
  then show ?thesis
    by (simp add: on_entry_def Let_def case_prod_beta observe_pipes)
qed

lemma drain_pipes:
  assumes "all_pipes P c"
  shows "all_pipes P (upd_shipper p (addRecords (snd (drain (pl_asm (c_pipes c ! p)))))
    (upd_asm p (\<lambda>_. fst (drain (pl_asm (c_pipes c ! p)))) c))"
  unfolding upd_pipe_comp using drained [of "c_pipes c ! p"] by (intro all_pipes_upd assms) simp

lemma drain_to_shipper_pipes: "all_pipes P c \<Longrightarrow> all_pipes P (drain_to_shipper p c)"
  unfolding drain_to_shipper_def case_prod_beta Let_def by (rule drain_pipes)

lemma stop_pipes:
  assumes "all_pipes P c"
  shows "all_pipes P (stop c)"
proof (cases "c_pipe c")
  case None
  then show ?thesis using assms by (simp add: stop_def all_pipes_def)
next
  case (Some p)
  let ?c = "c\<lparr>c_streaming := False, c_pipe := None, c_haveLevel := [], c_addr := [],
                 c_streamEpoch := c_streamEpoch c + 1, c_streamOpen := False,
                 c_streamOpened := False, c_streamDownSince := 0, c_streamErr := [],
                 c_connPollFailures := 0, c_connErr := [], c_discoveryFailures := 0,
                 c_discoveryErr := [], c_secretHash := zero_hash\<rparr>"
  let ?d = "drain_to_shipper p ?c"
  have d: "all_pipes P ?d" using assms by (intro drain_to_shipper_pipes) (simp add: all_pipes_def)
  then have "all_pipes P (upd_guard p (\<lambda>_. fst (guard_take (pl_guard (c_pipes ?d ! p)))) ?d)"
    by (intro all_pipes_upd taken)
  then have "all_pipes P ((upd_guard p (\<lambda>_. fst (guard_take (pl_guard (c_pipes ?d ! p)))) ?d)\<lparr>c_shedTotal := n\<rparr>)" for n
    by (simp add: all_pipes_def)
  then show ?thesis using Some
    unfolding stop_def Let_def option.case case_prod_beta
    by (simp only: Some option.case) (intro all_pipes_upd lost_counted)
qed

lemma budget_pipes:
  assumes "all_pipes P c"
  shows "all_pipes P (setLineBudget n c)"
proof -
  define m where "m = (if n \<le> 0 then defaultTraceBudgetLines else n)"
  have "all_pipes P (upd_guard p (\<lambda>g. setBudget g m) (c\<lparr>c_budget := m\<rparr>))" for p
    using assms by (intro all_pipes_upd budgeted) simp
  then show ?thesis using assms
    by (simp add: setLineBudget_def Let_def flip: m_def split: option.split)
qed

lemma start_pipes:
  assumes "all_pipes P c"
  shows "all_pipes P (fst (startPipeline env now euid fs addr source sp c))"
proof (cases "resolveClashSecret (ev_config env) euid fs sp (c_fallbackSecretPath c) (c_configPath c)")
  case (Inl e)
  then show ?thesis using assms by (simp add: startPipeline_def)
next
  case (Inr secret)
  show ?thesis
  proof (cases "ValidateLoopbackAddr (ev_loopback env) (ev_quote env) addr")
    case (Inl e)
    then show ?thesis using assms Inr by (simp add: startPipeline_def)
  next
    case base: (Inr base)
    then show ?thesis using assms Inr fresh [OF base]
      by (simp add: startPipeline_def Let_def)
         (intro all_pipes_upd added, simp_all add: all_pipes_def)
  qed
qed

lemma refresh_pipes: "all_pipes P c \<Longrightarrow> all_pipes P (fst (refreshSecret env euid fs sp c))"
  by (simp add: refreshSecret_def Let_def all_pipes_upd rekeyed split: sum.split option.split)

lemma addr_pipes:
  assumes "all_pipes P c"
  shows "all_pipes P (apply_addr env now euid fs addr source sp level c)"
proof -
  define c1 where "c1 = (if c_pipe c \<noteq> None \<and> c_addr c \<noteq> addr then stop c else c)"
  have c1: "all_pipes P c1" using assms stop_pipes by (simp add: c1_def)
  then have "all_pipes P (fst (startPipeline env now euid fs addr source sp c1))" by (rule start_pipes)
  moreover have "all_pipes P (fst (refreshSecret env euid fs sp
      (c1\<lparr>c_status := (c_status c1)\<lparr>cs_ClashAPIAddr := addr, cs_AddrSource := source\<rparr>\<rparr>)))"
    using c1 by (intro refresh_pipes) simp
  ultimately show ?thesis
    unfolding apply_addr_def c1_def [symmetric] by (simp add: Let_def case_prod_beta)
qed

lemma apply_pipes:
  assumes "all_pipes P c"
  shows "all_pipes P (applyConfig env now euid fs cf c)"
proof -
  have "all_pipes P (record_config env now cf c)"
    unfolding record_config_def Let_def using assms by (intro budget_pipes) (simp add: all_pipes_def)
  then show ?thesis
    by (simp add: applyConfig_def Let_def addr_pipes stop_pipes)
qed

lemma core_restart_pipes:
  assumes "all_pipes P c"
  shows "all_pipes P (noteCoreRestart now p c)"
proof -
  define c1 where "c1 = c\<lparr>c_generation := c_generation c + 1, c_coreStart := now\<rparr>"
  define c2 where "c2 = upd_guard p guard_reset (upd_asm p (\<lambda>a. coreRestart a now (c_generation c1) now) c1)"
  have "all_pipes P c2" using assms unfolding c2_def c1_def
    by (intro all_pipes_upd cleared restarted) simp_all
  then show ?thesis unfolding noteCoreRestart_def Let_def c1_def [symmetric]
    by (auto simp flip: c2_def intro: all_pipes_upd added split: option.split)
qed

lemma poll_pipes:
  assumes "all_pipes P c"
  shows "all_pipes P (poll_connections env now p answer c)"
proof (cases answer)
  case (Inl e)
  then show ?thesis using assms by (simp add: poll_connections_def all_pipes_def)
next
  case (Inr snap)
  define c1 where "c1 = evaluateStream env now (c\<lparr>c_connPollFailures := 0, c_connErr := [],
    c_lastUpload := sp_UploadTotal snap, c_lastDownload := sp_DownloadTotal snap, c_sawTotals := True\<rparr>)"
  have c1: "all_pipes P c1" using assms by (simp add: c1_def all_pipes_def)
  have "all_pipes P (upd_asm p (\<lambda>a. asm_snapshot a now sn) c2)"
    if "c2 = noteCoreRestart now p c1 \<or> c2 = c1" for sn c2
    using that c1 core_restart_pipes by (intro all_pipes_upd polled) auto
  then show ?thesis using assms Inr
    by (simp add: poll_connections_def Let_def flip: c1_def)
qed

lemma tick_pipes:
  assumes "all_pipes P c"
  shows "all_pipes P (drive_tick env now p c)"
proof -
  define c1 where "c1 = upd_asm p (\<lambda>a. asm_tick a now now) (expireSessionsLocally env now c)"
  let ?d = "drain (pl_asm (c_pipes c1 ! p))"
  have c1: "all_pipes P c1" using assms unfolding c1_def by (intro all_pipes_upd ticked) simp_all
  have "all_pipes P (upd_shipper p (addRecords (snd ?d)) (foldl forget_final d rs))"
    if "d = upd_asm p (\<lambda>_. fst ?d) c1" for d rs
  proof -
    have "c_pipes (upd_shipper p f (foldl forget_final d rs)) = c_pipes (upd_shipper p f d)" for f
      by (simp add: upd_pipe_def)
    then show ?thesis using drain_pipes [OF c1, of p] by (simp add: all_pipes_def that)
  qed
  moreover have "all_pipes P (upd_asm p (\<lambda>_. fst ?d) c1)" if "snd ?d = []"
  proof -
    have "upd_shipper p (addRecords []) b = b" for b
      by (cases "p < length (c_pipes b)") (simp_all add: upd_pipe_def addRecords_def list_update_beyond)
    then show ?thesis using drain_pipes [OF c1, of p] that by simp
  qed
  ultimately show ?thesis
    unfolding drive_tick_def Let_def c1_def [symmetric] case_prod_beta by simp
qed

lemma report_pipes:
  assumes "all_pipes P c"
  shows "all_pipes P (drive_report env now p c)"
proof -
  define c1 where "c1 = upd_guard p (\<lambda>_. fst (guard_take (pl_guard (c_pipes c ! p)))) c"
  have "all_pipes P c1" using assms unfolding c1_def by (intro all_pipes_upd taken)
  then have "all_pipes P (upd_shipper p (\<lambda>s. addShed n (addDropped m (addUnparsed k s))) c2)"
    if "c_pipes c2 = c_pipes c1" for n m k c2
    using that by (intro all_pipes_upd lost_counted) (simp_all add: all_pipes_def)
  then show ?thesis
    unfolding drive_report_def Let_def case_prod_beta c1_def [symmetric] by simp
qed

lemma delivery_pipes:
  assumes "all_pipes P c"
  shows "all_pipes P (ship_take now p c)" "all_pipes P (ship_answer env now p answer c)"
    "all_pipes P (flushRaw_send now p c)" "flushRaw_answer p ok c = Some c' \<Longrightarrow> all_pipes P c'"
proof -
  let ?pl = "c_pipes c ! p"
  have "all_pipes P (upd_pipe p (\<lambda>pl. pl\<lparr>pl_shipper := snd (takeBatch now (pl_shipper ?pl)),
      pl_batch := fst (takeBatch now (pl_shipper ?pl))\<rparr>) c)" if "pl_batch ?pl = None"
    using assms took [OF _ that] by (intro all_pipes_upd)
  then show "all_pipes P (ship_take now p c)"
    using assms by (simp add: ship_take_def Let_def case_prod_beta)
  have "all_pipes P (upd_pipe p (\<lambda>pl. pl\<lparr>pl_shipper := commit b now (pl_shipper ?pl), pl_batch := None\<rparr>) c)"
    "all_pipes P (upd_pipe p (\<lambda>pl. pl\<lparr>pl_shipper := recordFailure status ra err now (restore (pl_shipper ?pl)),
       pl_batch := None\<rparr>) c)" if "pl_batch ?pl = Some b" for b status ra err
    using assms accepted [OF _ that] refused [OF _ that] by (auto intro!: all_pipes_upd)
  then show "all_pipes P (ship_answer env now p answer c)"
    using assms by (simp add: ship_answer_def Let_def split: option.split prod.split)
  have raw: "all_pipes P (upd_pipe p (\<lambda>pl. pl\<lparr>pl_raw := b\<rparr>) c)" for b
    using assms by (intro all_pipes_upd sent)
  then show "all_pipes P (flushRaw_send now p c)" using assms by (simp add: flushRaw_send_def)
  show "all_pipes P c'" if "flushRaw_answer p ok c = Some c'"
    using that raw [of None] assms
    by (auto simp: flushRaw_answer_def trim_raw_def Let_def all_pipes_def split: option.splits if_splits)
qed

lemma do_pipes: "all_pipes P c \<Longrightarrow> all_pipes P (collector_do env c op)"
  by (cases op) (auto simp: apply_pipes entry_pipes poll_pipes tick_pipes report_pipes delivery_pipes
      drive_exit_def drain_to_shipper_pipes split: option.split)

lemma step_pipes: "all_pipes P c \<Longrightarrow> all_pipes P (collector_step env c op)"
  by (simp add: collector_step_def do_pipes split: option.split)

end

sublocale pipe_property \<subseteq> runs: invariant_run "collector_step env" "all_pipes P"
  by unfold_locales (rule step_pipes)

context pipe_property
begin

lemma every_pipeline:
  assumes "p < length (c_pipes (foldl (collector_step env) (newTraceCollector cfg t) ops))"
  shows "P (c_pipes (foldl (collector_step env) (newTraceCollector cfg t) ops) ! p)"
  using runs.run_inv [of "newTraceCollector cfg t" ops] assms
  by (simp add: all_pipes_def list_all_length newTraceCollector_def)

end

subsection \<open>Which ids the assembler holds\<close>

definition open_ids :: "assembler \<Rightarrow> 32 word set" where
  "open_ids a = dom (map_of (as_open a))"

lemma open_ids_forget [simp]:
  "open_ids (forget a r) = open_ids a - {rec_LogID (cn_rec (conn_at a r))}"
  by (simp add: open_ids_def delete_conv')

lemma open_ids_finish [simp]: "open_ids (finish a r cand e src) = open_ids (forget a r)"
  by (simp add: open_ids_def)

lemma open_ids_upd [simp]:
  "open_ids (upd_conn a r f) = open_ids a" "open_ids (put_conn a r c) = open_ids a"
  "open_ids (push a rc) = open_ids a" "open_ids (indexSrc a r) = open_ids a"
  "open_ids (join a r item at) = open_ids a" "open_ids (emitOpen a r now) = open_ids a"
  "open_ids (a\<lparr>as_stats := s\<rparr>) = open_ids a" "open_ids (a\<lparr>as_snapSeq := n\<rparr>) = open_ids a"
  by (simp_all add: open_ids_def put_conn_def push_def indexSrc_def join_def emitOpen_def Let_def)

lemma open_ids_foldl:
  "(\<And>a x. open_ids (f a x) \<subseteq> open_ids a) \<Longrightarrow> open_ids (foldl f a xs) \<subseteq> open_ids a"
  by (induction xs arbitrary: a) (auto, blast)

lemma open_ids_create: "open_ids (fst (create a l at)) \<subseteq> insert (ln_LogID l) (open_ids a)"
proof -
  have "open_ids (evictOldest a) \<subseteq> open_ids a"
    by (cases "as_order a") (auto simp: evictOldest_def Let_def open_ids_def delete_conv')
  then show ?thesis by (auto simp: create_def Let_def open_ids_def update_conv')
qed

lemma open_ids_half: "open_ids (halfClosed a r l at) \<subseteq> open_ids a"
  by (auto simp: halfClosed_def Let_def)

lemma open_ids_apply: "open_ids (apply_line a r l at) \<subseteq> open_ids a"
  using open_ids_half [of "upd_conn (upd_conn a r (note_line l at)) r f" r l at for f]
  by (auto simp: apply_line_def Let_def split: event.split)

lemma open_ids_line: "open_ids (asm_line a clk l) \<subseteq> insert (ln_LogID l) (open_ids a)"
proof -
  have made: "open_ids (apply_line (fst (create b l at)) r l at) \<subseteq> insert (ln_LogID l) (open_ids a)"
    if "open_ids b \<subseteq> open_ids a" for b r at
    using that open_ids_apply open_ids_create by blast
  have kept: "open_ids (apply_line a r l at) \<subseteq> insert (ln_LogID l) (open_ids a)" for r at
    using open_ids_apply by blast
  have "open_ids (finish a s collision at durFromCore) \<subseteq> open_ids a" for s at by auto
  then show ?thesis
    by (simp add: asm_line_def Let_def case_prod_beta made kept subset_insertI split: option.split)
qed

lemma open_ids_no_id: "\<not> ln_HasLogID l \<Longrightarrow> asm_line a clk l = a"
  by (simp add: asm_line_def)

lemma open_ids_snapshot: "open_ids (asm_snapshot a clk s) \<subseteq> open_ids a"
proof -
  have item: "open_ids (snapshot_item_step at b i) \<subseteq> open_ids b" for at b i
    by (simp add: snapshot_item_step_def split: option.split)
  have sweep: "open_ids (sweep_step at b r) \<subseteq> open_ids b" for at b r
    by (auto simp: sweep_step_def Let_def)
  show ?thesis
    unfolding asm_snapshot_def sweepVanished_def Let_def
    by (rule order_trans [OF open_ids_foldl [OF sweep] order_trans [OF open_ids_foldl [OF item]]]) simp
qed

lemma open_ids_tick: "open_ids (asm_tick a clk now) \<subseteq> open_ids a"
proof -
  have "open_ids (tick_step t b r) \<subseteq> open_ids b" for t b r
    by (auto simp: tick_step_def Let_def)
  then show ?thesis unfolding asm_tick_def Let_def by (rule open_ids_foldl)
qed

lemma open_ids_restart: "open_ids (coreRestart a clk g at) \<subseteq> open_ids a"
proof -
  have "open_ids (foldl (\<lambda>b r. finish b r (terminal CloseCoreRestart []) t durFromClock) a rs) \<subseteq> open_ids a" for t rs
    by (rule open_ids_foldl) auto
  then show ?thesis by (simp add: coreRestart_def Let_def open_ids_def)
qed

lemma open_ids_rest:
  "open_ids (tag_conn a i ss) = open_ids a" "open_ids (fst (drain a)) = open_ids a"
  "open_ids (new_assembler opts) = {}"
  by (simp_all add: tag_conn_def drain_def open_ids_def new_assembler_def Let_def split: option.split)

subsection \<open>The two contracts of a pipeline\<close>

text \<open>No connection that is being assembled is marked as shed.\<close>

definition open_unshed :: "pipeline \<Rightarrow> bool" where
  "open_unshed pl \<longleftrightarrow> guard_ok (pl_guard pl) \<and>
     (\<forall>i \<in> open_ids (pl_asm pl). \<not> shed_has (gd_shed (pl_guard pl)) i)"

lemma admit_marks:
  assumes ok: "guard_ok g" and has: "shed_has (gd_shed (fst (admit g now l tr))) i"
  shows "shed_has (gd_shed g) i \<or> ln_HasLogID l \<and> i = ln_LogID l \<and> \<not> tr"
proof -
  let ?r = "if shed_has (gd_shed g) (ln_LogID l) then shed_remove (gd_shed g) (ln_LogID l) else gd_shed g"
  have ring: "ring_ok (gd_shed g)" using ok by (simp add: guard_ok_def)
  then have r: "ring_ok ?r" by (simp add: ring_ok_remove)
  have sub: "shed_has ?r i \<Longrightarrow> shed_has (gd_shed g) i"
    by (auto simp: shed.has_remove [OF ring] split: if_splits)
  have added: "shed_has (shed_add ?r (ln_LogID l)) i \<Longrightarrow> i = ln_LogID l \<or> shed_has ?r i"
    using shed.has_add_only [OF r] by (cases "shed_has ?r (ln_LogID l)") (auto simp: shed.has_remove [OF ring] split: if_splits)
  show ?thesis
  proof (cases "\<not> ln_HasLogID l \<or> shed_has (gd_shed g) (ln_LogID l) \<and> ln_Event l \<noteq> EventInboundFrom")
    case True
    then have "gd_shed (fst (admit g now l tr)) = gd_shed g"
      by (cases "ln_HasLogID l") (simp_all add: admit_shed)
    then show ?thesis using has by simp
  next
    case False
    then have "gd_shed (fst (admit g now l tr)) = ?r \<or>
        \<not> tr \<and> gd_shed (fst (admit g now l tr)) = shed_add ?r (ln_LogID l)"
      by (simp add: admit_shed Let_def)
    then show ?thesis using has sub added False by metis
  qed
qed

lemma admitted_unmarked:
  assumes ok: "guard_ok g" and l: "ln_HasLogID l" and yes: "snd (admit g now l tr)"
  shows "\<not> shed_has (gd_shed (fst (admit g now l tr))) (ln_LogID l)"
proof -
  have "ring_ok (gd_shed g)" using ok by (simp add: guard_ok_def)
  note gone = shed.has_remove [OF this]
  have "\<not> (\<not> tr \<and> gd_parsed (roll g now) + 1 > gd_budget g)"
    "\<not> (shed_has (gd_shed g) (ln_LogID l) \<and> ln_Event l \<noteq> EventInboundFrom)"
    using l yes by (auto simp: admit_result)
  then show ?thesis using l by (simp only: admit_shed Let_def if_False not_True_eq_False) (simp add: gone)
qed

lemma open_unshed_shrink:
  "open_unshed pl \<Longrightarrow> open_ids a \<subseteq> open_ids (pl_asm pl) \<Longrightarrow> open_unshed (pl\<lparr>pl_asm := a\<rparr>)"
  by (auto simp: open_unshed_def)

lemma open_unshed_new: "open_unshed (new_pipeline cfg gen b base s)"
  by (simp add: open_unshed_def new_pipeline_def open_ids_rest guard_ok_new DefaultRingCapacity_def)

interpretation unshed: pipe_property env open_unshed for env
proof
  fix pl :: pipeline and now and l :: log_line
  let ?tr = "ln_HasLogID l \<and> tracked (pl_asm pl) (ln_LogID l)"
  let ?g = "fst (admit (pl_guard pl) now l ?tr)"
  assume pl: "open_unshed pl"
  then have ok: "guard_ok (pl_guard pl)" "guard_ok ?g"
    using guard_ok_step [of "pl_guard pl" "OpAdmit now l ?tr"] by (simp_all add: open_unshed_def)
  have unmarked: "\<not> shed_has (gd_shed ?g) i" if "i \<in> open_ids (pl_asm pl)" for i
    using that pl admit_marks [OF ok(1), of now l ?tr i] by (auto simp: open_unshed_def tracked_def open_ids_def)
  then show "open_unshed (pl\<lparr>pl_guard := ?g\<rparr>)" using ok by (simp add: open_unshed_def)
  assume yes: "snd (admit (pl_guard pl) now l ?tr)"
  show "open_unshed (pl\<lparr>pl_guard := ?g, pl_asm := asm_line (pl_asm pl) now l\<rparr>)"
  proof (cases "ln_HasLogID l")
    case True
    then show ?thesis
      using unmarked admitted_unmarked [OF ok(1) True yes] open_ids_line [of "pl_asm pl" now l] ok(2)
      by (auto simp: open_unshed_def)
  next
    case False
    then show ?thesis using unmarked ok(2) by (simp add: open_unshed_def open_ids_no_id)
  qed
next
  fix pl n
  assume "open_unshed pl"
  then show "open_unshed (pl\<lparr>pl_guard := setBudget (pl_guard pl) n\<rparr>)"
    using guard_ok_step [of "pl_guard pl" "OpBudget n"] by (simp add: open_unshed_def)
next
  fix pl now
  assume "open_unshed pl"
  then show "open_unshed (pl\<lparr>pl_guard := fst (ceiling_check (pl_guard pl) now)\<rparr>)"
    using guard_ok_step [of "pl_guard pl" "OpCeiling now"] by (simp add: open_unshed_def)
next
  fix pl
  assume "open_unshed pl"
  then show "open_unshed (pl\<lparr>pl_guard := guard_reset (pl_guard pl)\<rparr>)"
    "open_unshed (pl\<lparr>pl_guard := fst (guard_take (pl_guard pl))\<rparr>)"
    using guard_ok_step [of "pl_guard pl" OpReset] guard_ok_step [of "pl_guard pl" OpTake]
    by (simp_all add: open_unshed_def shed_reset_def shed_has_def)
qed (simp_all add: open_unshed_new open_unshed_shrink open_ids_snapshot open_ids_tick open_ids_restart
  open_ids_rest, simp_all add: open_unshed_def open_ids_rest)

text \<open>Every API client talks to a loopback address.\<close>

definition client_loopback :: "collector_env \<Rightarrow> pipeline \<Rightarrow> bool" where
  "client_loopback env pl \<longleftrightarrow>
     (\<exists>host port n. net_SplitHostPort (pl_baseAddr pl) = Inr (host, port) \<and>
        isLoopbackHost (ev_loopback env) host \<and> parse_int port = Some n \<and> 1 \<le> n \<and> n \<le> 65535)"

interpretation clients: pipe_property env "client_loopback env" for env
  by unfold_locales (auto simp: client_loopback_def new_pipeline_def dest: validated_is_loopback)

subsection \<open>The parts of a pipeline run as their own specifications say\<close>

text \<open>
  The states that a run of each component reaches with the options the collector uses, the
  assembler with the records it has given out and the shipper with its ledger.
\<close>

definition asm_runs :: "assembler \<Rightarrow> conn_record list \<Rightarrow> bool" where
  "asm_runs a h \<longleftrightarrow>
     (\<exists>opts ops. op_MaxOpen opts = 0 \<and> (a, h) = foldl asm_step (new_assembler opts, []) ops)"

definition guard_runs :: "guard \<Rightarrow> bool" where
  "guard_runs g \<longleftrightarrow> (\<exists>b ops. g = foldl guard_step (new_guard b (int DefaultRingCapacity)) ops)"

definition ship_runs :: "shipper \<Rightarrow> trace_batch option \<Rightarrow> ledger \<Rightarrow> bool" where
  "ship_runs s b g \<longleftrightarrow>
     (\<exists>cfg. cfg_MaxPending cfg = 0 \<and> cfg_MaxBatchRecords cfg = 0 \<and> cfg_MaxBatchLines cfg = 0 \<and>
        ship_reach cfg s b g)"

text \<open>The records handed to the shipper are those the assembler gave out, in order.\<close>

definition parts_ok :: "pipeline \<Rightarrow> bool" where
  "parts_ok pl \<longleftrightarrow>
     guard_runs (pl_guard pl) \<and>
     (\<exists>g. asm_runs (pl_asm pl) (led_records g) \<and> ship_runs (pl_shipper pl) (pl_batch pl) g)"

lemma asm_runs_step:
  assumes "asm_runs a h" "asm_step (a, h) x = (a', h')"
  shows "asm_runs a' h'"
proof -
  obtain opts ops where o: "op_MaxOpen opts = 0" "(a, h) = foldl asm_step (new_assembler opts, []) ops"
    using assms(1) by (auto simp: asm_runs_def)
  then have "(a', h') = foldl asm_step (new_assembler opts, []) (ops @ [x])"
    using assms(2) by (simp flip: o(2))
  then show ?thesis using o(1) unfolding asm_runs_def by blast
qed

lemma guard_runs_step: "guard_runs g \<Longrightarrow> guard_runs (guard_step g x)"
  unfolding guard_runs_def by (metis foldl_Cons foldl_Nil foldl_append)

lemma parts_guard: "parts_ok pl \<Longrightarrow> parts_ok (pl\<lparr>pl_guard := guard_step (pl_guard pl) x\<rparr>)"
  by (auto simp: parts_ok_def guard_runs_step)

lemma parts_asm:
  assumes "parts_ok pl" "\<And>h. asm_step (pl_asm pl, h) x = (a, h)"
  shows "parts_ok (pl\<lparr>pl_asm := a\<rparr>)"
  using assms by (auto simp: parts_ok_def intro: asm_runs_step)

lemma ship_runs_op: "ship_runs s b g \<Longrightarrow> ship_runs (ship_op_apply x s) b (ledger_op x g)"
  by (auto simp: ship_runs_def intro: ship_reach.op)

lemma ledger_records: "(\<And>rs. x \<noteq> AddRecords rs) \<Longrightarrow> led_records (ledger_op x g) = led_records g"
  by (cases x) auto

lemma parts_queued:
  assumes "parts_ok pl" "\<And>rs. x \<noteq> AddRecords rs"
  shows "parts_ok (pl\<lparr>pl_shipper := ship_op_apply x (pl_shipper pl)\<rparr>)"
proof -
  obtain g where g: "asm_runs (pl_asm pl) (led_records g)" "ship_runs (pl_shipper pl) (pl_batch pl) g"
    using assms(1) by (auto simp: parts_ok_def)
  then show ?thesis using assms ship_runs_op [OF g(2), of x] ledger_records [OF assms(2), of g]
    by (auto simp: parts_ok_def intro!: exI [of _ "ledger_op x g"])
qed

lemma parts_drained:
  assumes "parts_ok pl"
  shows "parts_ok (pl\<lparr>pl_asm := fst (drain (pl_asm pl)),
    pl_shipper := addRecords (snd (drain (pl_asm pl))) (pl_shipper pl)\<rparr>)"
proof -
  let ?rs = "snd (drain (pl_asm pl))"
  obtain g where g: "asm_runs (pl_asm pl) (led_records g)" "ship_runs (pl_shipper pl) (pl_batch pl) g"
    using assms by (auto simp: parts_ok_def)
  have "asm_runs (fst (drain (pl_asm pl))) (led_records (ledger_op (AddRecords ?rs) g))"
    by (rule asm_runs_step [OF g(1), of AsmDrain]) (simp add: case_prod_beta)
  then show ?thesis using assms ship_runs_op [OF g(2), of "AddRecords ?rs"]
    by (auto simp: parts_ok_def simp del: ledger_op.simps)
qed

lemma parts_ship:
  assumes "parts_ok pl"
    and "\<And>g. ship_runs (pl_shipper pl) (pl_batch pl) g \<Longrightarrow> \<exists>g'. ship_runs s b g' \<and> led_records g' = led_records g"
  shows "parts_ok (pl\<lparr>pl_shipper := s, pl_batch := b\<rparr>)"
proof -
  obtain g where g: "asm_runs (pl_asm pl) (led_records g)" "ship_runs (pl_shipper pl) (pl_batch pl) g"
    using assms(1) by (auto simp: parts_ok_def)
  from assms(2) [OF g(2)] obtain g' where "ship_runs s b g'" "led_records g' = led_records g" by blast
  then show ?thesis using assms(1) g(1) by (auto simp: parts_ok_def intro!: exI [of _ g'])
qed

lemma parts_take:
  assumes "parts_ok pl" "pl_batch pl = None"
  shows "parts_ok (pl\<lparr>pl_shipper := snd (takeBatch now (pl_shipper pl)), pl_batch := fst (takeBatch now (pl_shipper pl))\<rparr>)"
proof (rule parts_ship [OF assms(1)])
  obtain b s' where t: "takeBatch now (pl_shipper pl) = (b, s')" by fastforce
  fix g
  assume "ship_runs (pl_shipper pl) (pl_batch pl) g"
  then have "ship_runs s' b g"
    using assms(2) t by (cases b) (auto simp: ship_runs_def intro: ship_reach.idle ship_reach.taken)
  then show "\<exists>g'. ship_runs (snd (takeBatch now (pl_shipper pl))) (fst (takeBatch now (pl_shipper pl))) g' \<and>
    led_records g' = led_records g" using t by auto
qed

lemma runs_new:
  "op_MaxOpen opts = 0 \<Longrightarrow> asm_runs (new_assembler opts) []"
  "guard_runs (new_guard n (int DefaultRingCapacity))"
  unfolding asm_runs_def guard_runs_def by (metis foldl_Nil)+

lemma parts_new: "parts_ok (new_pipeline cfg gen b base s)"
proof -
  have "ship_runs (pl_shipper (new_pipeline cfg gen b base s)) None empty_ledger"
    by (auto simp: new_pipeline_def ship_runs_def intro!: exI ship_reach.init)
  moreover have "led_records empty_ledger = []" by (simp add: empty_ledger_def)
  ultimately show ?thesis
    unfolding parts_ok_def by (auto simp: new_pipeline_def runs_new intro!: exI [of _ empty_ledger])
qed

lemma ledger_accept_records: "led_records (ledger_accept b g) = led_records g"
  by (simp add: ledger_accept_def)

interpretation parts: pipe_property env parts_ok for env
proof
  fix pl :: pipeline and now and l :: log_line
  let ?tr = "ln_HasLogID l \<and> tracked (pl_asm pl) (ln_LogID l)"
  let ?pl = "pl\<lparr>pl_guard := fst (admit (pl_guard pl) now l ?tr)\<rparr>"
  assume pl: "parts_ok pl"
  then show p: "parts_ok ?pl" using parts_guard [OF pl, of "OpAdmit now l ?tr"] by simp
  show "parts_ok (pl\<lparr>pl_guard := fst (admit (pl_guard pl) now l ?tr), pl_asm := asm_line (pl_asm pl) now l\<rparr>)"
    using parts_asm [OF p, of "AsmLine now l" "asm_line (pl_asm pl) now l"] by simp
next
  fix pl tb now
  assume "parts_ok pl" and b: "pl_batch pl = Some tb"
  then show "parts_ok (pl\<lparr>pl_shipper := commit tb now (pl_shipper pl), pl_batch := None\<rparr>)"
    "parts_ok (pl\<lparr>pl_shipper := recordFailure status ra err now (restore (pl_shipper pl)), pl_batch := None\<rparr>)"
    for status ra err
    by (auto intro!: parts_ship simp: ship_runs_def)
       (metis ship_reach.accepted ledger_accept_records, metis ship_reach.refused)
next
  fix pl :: pipeline
  assume pl: "parts_ok pl"
  show "parts_ok (pl\<lparr>pl_guard := setBudget (pl_guard pl) n\<rparr>)"
    "parts_ok (pl\<lparr>pl_guard := fst (ceiling_check (pl_guard pl) now)\<rparr>)"
    "parts_ok (pl\<lparr>pl_guard := guard_reset (pl_guard pl)\<rparr>)"
    "parts_ok (pl\<lparr>pl_guard := fst (guard_take (pl_guard pl))\<rparr>)" for n now
    using parts_guard [OF pl, of "OpBudget n"] parts_guard [OF pl, of "OpCeiling now"]
      parts_guard [OF pl, of OpReset] parts_guard [OF pl, of OpTake] by simp_all
  show "parts_ok (pl\<lparr>pl_asm := tag_conn (pl_asm pl) i ss\<rparr>)"
    "parts_ok (pl\<lparr>pl_asm := asm_snapshot (pl_asm pl) now sn\<rparr>)"
    "parts_ok (pl\<lparr>pl_asm := coreRestart (pl_asm pl) now g t\<rparr>)"
    "parts_ok (pl\<lparr>pl_asm := asm_tick (pl_asm pl) now t\<rparr>)" for i ss now sn g t
    using pl by (auto intro: parts_asm [where x = "AsmTag i ss"] parts_asm [where x = "AsmSnapshot now sn"]
      parts_asm [where x = "AsmRestart now g t"] parts_asm [where x = "AsmTick now t"])
qed (simp_all add: parts_new parts_queued parts_drained parts_take, simp_all add: parts_ok_def)

subsection \<open>The options of an assembler\<close>

lemma foldl_keeps: "(\<And>a x. f (g a x) = f a) \<Longrightarrow> f (foldl g a xs) = f a"
  by (induction xs arbitrary: a) simp_all

lemma asm_opts_step: "as_opts (fst (asm_step (a, h) x)) = as_opts a"
proof -
  have half: "as_opts (halfClosed b r l at) = as_opts b" for b r l at
    by (simp add: halfClosed_def Let_def)
  have line: "as_opts (apply_line b r l at) = as_opts b" for b r l at
    by (simp add: apply_line_def Let_def half indexSrc_def split: event.split)
  have evict: "as_opts (evictOldest b) = as_opts b" for b
    by (simp add: evictOldest_def Let_def split: list.split)
  have create: "as_opts (fst (create b l at)) = as_opts b" for b l at
    by (simp add: create_def Let_def evict)
  have item: "as_opts (snapshot_item_step at b i) = as_opts b" for at b i
    by (simp add: snapshot_item_step_def split: option.split)
  have sweep: "as_opts (sweep_step at b r) = as_opts b" for at b r
    by (simp add: sweep_step_def Let_def)
  have tick: "as_opts (tick_step at b r) = as_opts b" for at b r
    by (simp add: tick_step_def Let_def)
  have finish: "as_opts (foldl (\<lambda>b r. finish b r cand t src) b rs) = as_opts b" for cand t src b rs
    by (rule foldl_keeps) simp
  show ?thesis
    by (cases x) (simp_all add: asm_line_def asm_snapshot_def sweepVanished_def asm_tick_def coreRestart_def Let_def
      case_prod_beta line create foldl_keeps [where f = as_opts, OF item] foldl_keeps [where f = as_opts, OF sweep]
      foldl_keeps [where f = as_opts, OF tick] finish drain_def tag_conn_def split: option.split)
qed

lemma asm_runs_opts: "asm_runs a h \<Longrightarrow> op_MaxOpen (as_opts a) = defaultMaxOpen"
proof -
  have "as_opts (fst (foldl asm_step s ops)) = as_opts (fst s)" for s ops
    by (rule foldl_keeps) (metis asm_opts_step prod.collapse)
  moreover have "op_MaxOpen (as_opts (new_assembler opts)) = defaultMaxOpen" if "op_MaxOpen opts = 0" for opts
    using that by (simp add: new_assembler_def Let_def)
  ultimately show "asm_runs a h \<Longrightarrow> op_MaxOpen (as_opts a) = defaultMaxOpen"
    unfolding asm_runs_def by (metis fst_conv)
qed

lemma guard_runs_bounded:
  assumes "guard_runs g"
  shows "card {x. shed_has (gd_shed g) x} \<le> DefaultRingCapacity"
proof -
  obtain b ops where g: "g = foldl guard_step (new_guard b (int DefaultRingCapacity)) ops"
    using assms by (auto simp: guard_runs_def)
  have ok: "ring_ok (gd_shed g)"
    using guard_run.run_inv [OF guard_ok_new] g by (simp add: guard_ok_def DefaultRingCapacity_def)
  have "sr_cap (gd_shed g) = DefaultRingCapacity"
    unfolding g by (simp add: guard_run_cap new_guard_cap DefaultRingCapacity_def)
  then show ?thesis using shed.marks_bounded [OF ok] by simp
qed

end
