(* ===== verification/Trace_Collector_Shared.thy ===== *)
theory Trace_Collector_Shared
  imports Trace_Collector_Pipelines
begin

text \<open>
  What the steps of the collector do to the fields its goroutines share. The locale
  \<open>shared_property\<close> has one assumption per write to the buffer of unclaimed lines and to the raw
  queue, and is interpreted for the invariants of both (\<open>buffer_ok\<close>, \<open>raw_ok\<close>). Then the effect of
  applying a configuration, of one log entry, of a report, and of a tick on the policy and the
  subscription (\<open>control_ok\<close>), and the lines of one connection.
\<close>

section \<open>Lemmas\<close>

subsection \<open>What the collector holds for the goroutines together\<close>

definition shared where
  "shared c = (c_pending c, c_pendingOrder c, c_tagged c, c_rawSourceID c, c_rawQueue c, c_rawDropped c,
     c_rawEpoch c)"

lemma shared_upd [simp]: "shared (upd_pipe p f c) = shared c"
  by (simp add: shared_def)

lemma shared_notify [simp]: "shared (notify (setStatusLocked env now state detail c)) = shared c"
  by (simp add: shared_def notify_def setStatusLocked_def Let_def)

lemma shared_simps [simp]:
  "shared (setStatus env now state detail addr source c) = shared c"
  "shared (evaluateStream env now c) = shared c"
  "shared (countLineLocked now c) = shared c"
  "shared (restartStream level c) = shared c"
  "shared (expire_commit env rebuilt c) = shared c"
  "shared (noteDiscovery env now detail c) = shared c"
  "shared (noteStreamOpen env now epoch c) = shared c"
  "shared (noteStreamError env now epoch err c) = shared c"
  "shared (setLineBudget n c) = shared c"
  "shared (drain_to_shipper p c) = shared c"
  "shared (ship_line q ss base c) = shared c"
  "shared (flushRaw_send now p c) = shared c"
  "shared (noteCoreRestart now p c) = shared c"
proof -
  show eval: "shared (evaluateStream env now c) = shared c" for c
    by (simp add: evaluateStream_def split: option.split)
  show "shared (noteDiscovery env now detail c) = shared c"
    "shared (noteStreamOpen env now epoch c) = shared c"
    "shared (noteStreamError env now epoch err c) = shared c"
    by (simp_all add: noteDiscovery_def noteStreamOpen_def noteStreamError_def Let_def eval) (simp_all add: shared_def)
qed (simp_all add: setStatus_def countLineLocked_def restartStream_def expire_commit_def setLineBudget_def
    drain_to_shipper_def ship_line_def flushRaw_send_def noteCoreRestart_def Let_def case_prod_beta
    split: option.split, simp_all add: shared_def)

lemma shared_expire [simp]: "shared (expireSessionsLocally env now c) = shared c"
  by (simp add: expireSessionsLocally_def split: option.split)

lemma shared_stop [simp]: "shared (stop c) = shared c"
proof -
  have *: "shared (d\<lparr>c_shedTotal := n\<rparr>) = shared d" for d n by (simp add: shared_def)
  have "shared (drain_to_shipper p d) = shared c" if "shared d = shared c" for p d
    using that by simp
  then show ?thesis
    by (cases "c_pipe c") (simp_all add: stop_def Let_def case_prod_beta *, simp_all add: shared_def)
qed

lemma shared_start [simp]: "shared (fst (startPipeline env now euid fs addr source sp c)) = shared c"
  by (simp add: startPipeline_def Let_def split: sum.split) (simp add: shared_def)

lemma shared_refresh [simp]: "shared (fst (refreshSecret env euid fs sp c)) = shared c"
  by (auto simp: refreshSecret_def Let_def shared_def split: sum.split option.split)

lemma shared_fields [simp]:
  "shared (c\<lparr>c_status := st\<rparr>) = shared c"
  "shared (c\<lparr>c_unparsed := u, c_unparsedTotal := v\<rparr>) = shared c"
  by (simp_all add: shared_def)

lemma shared_addr [simp]: "shared (apply_addr env now euid fs addr source sp level c) = shared c"
proof -
  define c1 where "c1 = (if c_pipe c \<noteq> None \<and> c_addr c \<noteq> addr then stop c else c)"
  have "shared c1 = shared c" by (simp add: c1_def)
  then show ?thesis unfolding apply_addr_def c1_def [symmetric] by (simp add: Let_def case_prod_beta)
qed

lemma shared_rest [simp]:
  "shared (ship_take now p c) = shared c" "shared (ship_answer env now p answer c) = shared c"
  "shared (drive_exit p c) = shared c" "shared (drive_report env now p c) = shared c"
  "shared (c\<lparr>c_cfg := cfg\<rparr>) = shared c" "shared (c\<lparr>c_panicked := pa\<rparr>) = shared c"
  by (simp_all add: ship_take_def ship_answer_def drive_exit_def drive_report_def Let_def case_prod_beta split: option.split)
     (simp_all add: shared_def)

lemma shared_poll [simp]: "shared (poll_connections env now p answer c) = shared c"
  by (simp add: poll_connections_def Let_def split: sum.split) (simp add: shared_def)

text \<open>
  A property of what is held that the seven writes to it keep holds in every run.
\<close>

locale shared_property =
  fixes env :: collector_env
    and I :: "collector \<Rightarrow> bool"
  assumes depends: "shared c' = shared c \<Longrightarrow> I c \<Longrightarrow> I c'"
    and buffered: "I c \<Longrightarrow> tl_SessionID l = [] \<Longrightarrow> I (bufferPending (tl_LogID l) l c)"
    and claimed: "I c \<Longrightarrow> I (fst (claimPending i ss c))"
    and forgotten: "I c \<Longrightarrow> I (forgetConn i c)"
    and switched: "I c \<Longrightarrow> I (setRawSourceLocked sid c)"
    and offered: "I c \<Longrightarrow> I (offer_raw keep raw c)"
    and trimmed: "I c \<Longrightarrow> trim_raw b c = Some c' \<Longrightarrow> I c'"
begin

lemma shared_deliver:
  assumes "I c"
  shows "I (deliver p q l (trace_line_of nodeID now l) d c)"
proof -
  let ?c1 = "fst (claimPending (ln_LogID l) (de_SessionIDs d) c)"
  have c1: "I ?c1" by (rule claimed [OF assms])
  have b: "I (bufferPending (ln_LogID l) (trace_line_of nodeID now l) c)"
    using buffered [OF assms, of "trace_line_of nodeID now l"] by (simp add: trace_line_of_def)
  have "shared c' = shared c \<or> shared c' = shared ?c1 \<Longrightarrow> I c'" for c'
    using depends assms c1 by blast
  then show ?thesis using b
    by (simp add: deliver_def case_prod_beta Let_def split: option.split)
qed

lemma shared_entry:
  assumes "I c"
  shows "I (on_entry env nodeID p now entry c)"
proof -
  have observe: "I (observe_line env nodeID p now l b)" if "I b" for l b
  proof -
    have b: "shared c' = shared b \<Longrightarrow> I c'" for c' using depends that by blast
    have "I (deliver p q l (trace_line_of nodeID now l) d (offer_raw k r c'))" if "shared c' = shared b" for c' q d k r
      using b [OF that] by (intro shared_deliver offered)
    then show ?thesis using b
      by (simp add: observe_line_def route_line_def Let_def case_prod_beta split: option.split)
  qed
  have "I c'" if "shared c' = shared c" for c' using depends that assms by blast
  then show ?thesis using observe
    by (simp add: on_entry_def Let_def case_prod_beta)
qed

lemma shared_apply:
  assumes "I c"
  shows "I (applyConfig env now euid fs cf c)"
proof -
  define c1 where "c1 = record_config env now cf c"
  define c0 where "c0 = (if cf_ServerTime cf \<noteq> 0 then c\<lparr>c_serverSkew := time_sub (cf_ServerTime cf) now\<rparr> else c)
    \<lparr>c_policy := policy_Build (ev_levels env) (cf_agent cf) now\<rparr>"
  have "I c0" by (rule depends [OF _ assms]) (simp add: c0_def shared_def)
  then have "I (setRawSourceLocked (effectiveRawSourceID cf) c0)" by (rule switched)
  then have "I c1"
    by (rule depends [rotated]) (simp add: c1_def record_config_def Let_def c0_def)
  then have "I c'" if "shared c' = shared c1" for c' using depends [OF that] by blast
  then show ?thesis unfolding applyConfig_def Let_def c1_def [symmetric] by simp
qed

lemma shared_finals: "I c \<Longrightarrow> I (foldl forget_final c rs)"
  by (induction rs arbitrary: c) (simp_all add: forget_final_def forgotten)

lemma shared_tick:
  assumes "I c"
  shows "I (drive_tick env now p c)"
proof -
  have c1: "I c1" if "shared c1 = shared c" for c1 using that assms by (rule depends)
  have "I (upd_pipe p f (foldl forget_final c1 rs))" if "shared c1 = shared c" for f c1 rs
    by (rule depends [OF _ shared_finals [OF c1 [OF that]]]) simp
  then show ?thesis using c1 by (simp add: drive_tick_def Let_def case_prod_beta)
qed

lemma shared_answer:
  assumes "I c" "flushRaw_answer p ok c = Some c'"
  shows "I c'"
proof (cases "pl_raw (c_pipes c ! p)")
  case None
  then show ?thesis using assms by (simp add: flushRaw_answer_def)
next
  case (Some b)
  let ?c = "upd_pipe p (\<lambda>pl. pl\<lparr>pl_raw := None\<rparr>) c"
  have c: "I ?c" by (rule depends [OF _ assms(1)]) simp
  then show ?thesis using assms(2) Some trimmed [OF c, of b c']
    by (simp add: flushRaw_answer_def Let_def split: if_splits)
qed

lemma shared_do:
  assumes "I c"
  shows "I (collector_do env c op)"
proof -
  have "I c'" if "shared c' = shared c" for c' using that assms by (rule depends)
  then show ?thesis using assms shared_answer [OF assms]
    by (cases op) (simp_all add: shared_apply shared_entry shared_tick split: option.split)
qed

lemma shared_step: "I c \<Longrightarrow> I (collector_step env c op)"
  by (simp add: collector_step_def shared_do split: option.split)

end

sublocale shared_property \<subseteq> shared_runs: invariant_run "collector_step env" I
  by unfold_locales (rule shared_step)

subsection \<open>The lines waiting for a session\<close>

definition buffer_ok :: "collector \<Rightarrow> bool" where
  "buffer_ok c \<longleftrightarrow>
     distinct (c_pendingOrder c) \<and> length (c_pendingOrder c) \<le> tracePendingConns \<and>
     dom (c_pending c) = set (c_pendingOrder c) \<and> dom (c_pending c) \<inter> dom (c_tagged c) = {} \<and>
     (\<forall>i q. c_pending c i = Some q \<longrightarrow>
        q \<noteq> [] \<and> length q \<le> tracePendingPerConn \<and> (\<forall>l \<in> set q. tl_LogID l = i \<and> tl_SessionID l = []))"

lemma set_remove1_distinct: "distinct xs \<Longrightarrow> set (remove1 x xs) = set xs - {x}"
  by (simp add: set_remove1_eq)

lemma buffer_ok_buffer:
  assumes ok: "buffer_ok c" and l: "tl_SessionID l = []"
  shows "buffer_ok (bufferPending (tl_LogID l) l c)"
proof (cases "c_tagged c (tl_LogID l) \<noteq> None")
  case True
  then show ?thesis using ok by (simp add: bufferPending_def)
next
  case untagged: False
  show ?thesis
  proof (cases "c_pending c (tl_LogID l)")
    case (Some q)
    then show ?thesis using ok l untagged
      by (auto simp: bufferPending_def buffer_ok_def Let_def)
  next
    case None
    then have new: "tl_LogID l \<notin> set (c_pendingOrder c)" using ok by (auto simp: buffer_ok_def)
    show ?thesis
    proof (cases "c_pendingOrder c")
      case Nil
      then show ?thesis using ok l untagged None
        by (auto simp: bufferPending_def buffer_ok_def Let_def tracePendingConns_def tracePendingPerConn_def)
    next
      case (Cons x xs)
      then show ?thesis using ok l untagged None new
        by (auto simp: bufferPending_def buffer_ok_def Let_def tracePendingPerConn_def tracePendingConns_def split: if_splits)
    qed
  qed
qed

lemma buffer_ok_claim: "buffer_ok c \<Longrightarrow> buffer_ok (fst (claimPending i ss c))"
  by (auto simp: claimPending_def buffer_ok_def Let_def set_remove1_eq length_remove1 split: if_splits)

lemma buffer_ok_forget: "buffer_ok c \<Longrightarrow> buffer_ok (forgetConn i c)"
  by (auto simp: forgetConn_def buffer_ok_def Let_def set_remove1_eq length_remove1 split: if_splits)

lemma buffer_ok_cong:
  "c_pending c' = c_pending c \<Longrightarrow> c_pendingOrder c' = c_pendingOrder c \<Longrightarrow> c_tagged c' = c_tagged c \<Longrightarrow>
   buffer_ok c' = buffer_ok c"
  unfolding buffer_ok_def by simp

interpretation buffers: shared_property env buffer_ok for env
proof
  fix c c' :: collector
  assume "shared c' = shared c" "buffer_ok c"
  then show "buffer_ok c'" using buffer_ok_cong [of c' c] by (simp add: shared_def)
next
  fix c c' :: collector and b
  assume "buffer_ok c" and t: "trim_raw b c = Some c'"
  moreover from t have "c_pending c' = c_pending c" "c_pendingOrder c' = c_pendingOrder c" "c_tagged c' = c_tagged c"
    by (auto simp: trim_raw_def split: if_splits)
  ultimately show "buffer_ok c'" using buffer_ok_cong by blast
next
  fix c sid
  assume "buffer_ok c"
  then show "buffer_ok (setRawSourceLocked sid c)"
    using buffer_ok_cong [of "setRawSourceLocked sid c" c] by (simp add: setRawSourceLocked_def Let_def)
next
  fix c keep raw
  assume "buffer_ok c"
  then show "buffer_ok (offer_raw keep raw c)"
    using buffer_ok_cong [of "offer_raw keep raw c" c] by (simp add: offer_raw_def)
qed (simp_all add: buffer_ok_buffer buffer_ok_claim buffer_ok_forget)

subsection \<open>The raw queue\<close>

definition raw_ok :: "collector \<Rightarrow> bool" where
  "raw_ok c \<longleftrightarrow> length (c_rawQueue c) \<le> traceRawQueueMax \<and>
     (c_rawSourceID c = [] \<longrightarrow> c_rawQueue c = [] \<and> c_rawDropped c = 0)"

interpretation raws: shared_property env raw_ok for env
proof
  fix c c' :: collector
  assume "shared c' = shared c" "raw_ok c"
  then show "raw_ok c'" by (simp add: shared_def raw_ok_def)
next
  fix c sid
  assume "raw_ok c"
  then show "raw_ok (setRawSourceLocked sid c)"
    by (auto simp: raw_ok_def setRawSourceLocked_def Let_def word_neq_0_conv [symmetric])
next
  fix c c' :: collector and b
  assume "raw_ok c" "trim_raw b c = Some c'"
  then show "raw_ok c'" by (auto simp: raw_ok_def trim_raw_def split: if_splits)
qed (auto simp: raw_ok_def bufferPending_def claimPending_def forgetConn_def offer_raw_def Let_def)

subsection \<open>Applying a configuration\<close>

lemma map_update_same: "(map f xs)[p := f (xs ! p)] = map f xs"
  by (simp flip: map_update)

lemma status_keeps [simp]:
  "c_policy (notify (setStatusLocked env now state detail c)) = c_policy c"
  "c_addr (notify (setStatusLocked env now state detail c)) = c_addr c"
  "c_haveLevel (notify (setStatusLocked env now state detail c)) = c_haveLevel c"
  "c_configPath (notify (setStatusLocked env now state detail c)) = c_configPath c"
  "c_fallbackSecretPath (notify (setStatusLocked env now state detail c)) = c_fallbackSecretPath c"
  "c_cfg (notify (setStatusLocked env now state detail c)) = c_cfg c"
  "c_generation (notify (setStatusLocked env now state detail c)) = c_generation c"
  "c_budget (notify (setStatusLocked env now state detail c)) = c_budget c"
  "c_serverSkew (notify (setStatusLocked env now state detail c)) = c_serverSkew c"
  "cs_State (c_status (notify (setStatusLocked env now state detail c))) = state"
  by (simp_all add: notify_def setStatusLocked_def Let_def)

lemma evaluate_keeps [simp]:
  "c_policy (evaluateStream env now c) = c_policy c" "c_addr (evaluateStream env now c) = c_addr c"
  "c_haveLevel (evaluateStream env now c) = c_haveLevel c"
  "c_configPath (evaluateStream env now c) = c_configPath c"
  "c_fallbackSecretPath (evaluateStream env now c) = c_fallbackSecretPath c"
  "c_cfg (evaluateStream env now c) = c_cfg c" "c_generation (evaluateStream env now c) = c_generation c"
  "c_budget (evaluateStream env now c) = c_budget c"
  "c_serverSkew (evaluateStream env now c) = c_serverSkew c"
  by (simp_all add: evaluateStream_def split: option.split)

lemma discovery_keeps [simp]:
  "c_policy (noteDiscovery env now detail c) = c_policy c" "c_addr (noteDiscovery env now detail c) = c_addr c"
  "c_haveLevel (noteDiscovery env now detail c) = c_haveLevel c"
  "c_configPath (noteDiscovery env now detail c) = c_configPath c"
  "c_fallbackSecretPath (noteDiscovery env now detail c) = c_fallbackSecretPath c"
  "c_pipe (noteDiscovery env now detail c) = c_pipe c" "c_pipes (noteDiscovery env now detail c) = c_pipes c"
  by (simp_all add: noteDiscovery_def)

lemma setStatus_keeps [simp]:
  "c_policy (setStatus env now state detail addr source c) = c_policy c"
  "cs_State (c_status (setStatus env now state detail addr source c)) = state"
  by (simp_all add: setStatus_def)

lemma budget_keeps [simp]:
  "c_policy (setLineBudget n c) = c_policy c" "c_addr (setLineBudget n c) = c_addr c"
  "c_haveLevel (setLineBudget n c) = c_haveLevel c" "c_pipe (setLineBudget n c) = c_pipe c"
  "c_configPath (setLineBudget n c) = c_configPath c"
  "length (c_pipes (setLineBudget n c)) = length (c_pipes c)"
  "map pl_asm (c_pipes (setLineBudget n c)) = map pl_asm (c_pipes c)"
  by (simp_all add: setLineBudget_def Let_def split: option.split)
     (simp_all add: upd_pipe_def map_update map_update_same)

lemma record_keeps [simp]:
  "c_policy (record_config env now cf c) = policy_Build (ev_levels env) (cf_agent cf) now"
  "c_addr (record_config env now cf c) = c_addr c" "c_pipe (record_config env now cf c) = c_pipe c"
  "c_configPath (record_config env now cf c) = c_configPath c"
  "length (c_pipes (record_config env now cf c)) = length (c_pipes c)"
  "map pl_asm (c_pipes (record_config env now cf c)) = map pl_asm (c_pipes c)"
  by (simp_all add: record_config_def Let_def setRawSourceLocked_def)

lemma drain_keeps [simp]:
  "c_policy (drain_to_shipper p c) = c_policy c" "c_pipe (drain_to_shipper p c) = c_pipe c"
  "length (c_pipes (drain_to_shipper p c)) = length (c_pipes c)"
  by (simp_all add: drain_to_shipper_def Let_def case_prod_beta)

lemma stop_keeps [simp]:
  "c_policy (stop c) = c_policy c" "c_pipe (stop c) = None"
  "length (c_pipes (stop c)) = length (c_pipes c)"
  by (cases "c_pipe c"; simp add: stop_def Let_def case_prod_beta)+

lemma start_keeps:
  fixes c :: collector
  assumes "startPipeline env now euid fs addr source sp c = (c', ok)"
  shows "c_policy c' = c_policy c"
    and "ok \<Longrightarrow> c_pipe c' = Some (length (c_pipes c)) \<and> c_addr c' = addr"
    and "\<not> ok \<Longrightarrow> c_pipe c' = c_pipe c \<and> cs_State (c_status c') \<in> {CollectorSecretUnreadable, CollectorNoClashAPI}"
  using assms by (auto simp: startPipeline_def Let_def split: sum.splits)

lemma refresh_keeps:
  fixes c :: collector
  assumes "refreshSecret env euid fs sp c = (c', again)"
  shows "c_policy c' = c_policy c" "c_pipe c' = c_pipe c" "c_addr c' = c_addr c" "c_haveLevel c' = c_haveLevel c"
    "map pl_asm (c_pipes c') = map pl_asm (c_pipes c)"
  using assms by (auto simp: refreshSecret_def Let_def upd_pipe_def map_update map_update_same split: sum.splits option.splits if_splits)

lemma restart_keeps [simp]:
  "c_policy (restartStream level c) = c_policy c" "c_pipe (restartStream level c) = c_pipe c"
  "c_addr (restartStream level c) = c_addr c" "c_status (restartStream level c) = c_status c"
  "c_pipe c \<noteq> None \<Longrightarrow> c_haveLevel (restartStream level c) = level"
  by (auto simp: restartStream_def)

text \<open>A pipeline for the same address stays up, with its assembler as it was.\<close>

lemma apply_addr_same:
  assumes "c_pipe c = Some p" "c_addr c = addr"
    and c': "c' = apply_addr env now euid fs addr source sp level c"
  shows "c_policy c' = c_policy c \<and> c_pipe c' = Some p \<and> c_addr c' = addr \<and> c_haveLevel c' = level \<and>
    map pl_asm (c_pipes c') = map pl_asm (c_pipes c)"
proof -
  let ?c2 = "c\<lparr>c_status := (c_status c)\<lparr>cs_ClashAPIAddr := addr, cs_AddrSource := source\<rparr>\<rparr>"
  obtain c3 again where r: "refreshSecret env euid fs sp ?c2 = (c3, again)" by (cases "refreshSecret env euid fs sp ?c2")
  have "c' = (if c_haveLevel c3 = level \<and> \<not> again then c3 else restartStream level c3)"
    using assms r by (simp add: apply_addr_def)
  then show ?thesis using refresh_keeps [OF r] assms(1,2) by auto
qed

text \<open>For another address, or without one before, a new pipeline is built.\<close>

lemma apply_addr_other:
  assumes "c_pipe c = None \<or> c_addr c \<noteq> addr" "level \<noteq> []"
    and c': "c' = apply_addr env now euid fs addr source sp level c"
  shows "c_policy c' = c_policy c \<and>
    (c_pipe c' = Some (length (c_pipes c)) \<and> c_addr c' = addr \<and> c_haveLevel c' = level \<or>
     c_pipe c' = None \<and> cs_State (c_status c') \<in> {CollectorSecretUnreadable, CollectorNoClashAPI})"
proof -
  define c1 where "c1 = (if c_pipe c \<noteq> None \<and> c_addr c \<noteq> addr then stop c else c)"
  have c1: "c_pipe c1 = None" "c_policy c1 = c_policy c" "length (c_pipes c1) = length (c_pipes c)"
    using assms(1) by (auto simp: c1_def)
  obtain c2 ok where s: "startPipeline env now euid fs addr source sp c1 = (c2, ok)"
    by (cases "startPipeline env now euid fs addr source sp c1")
  have "c' = (if \<not> ok \<or> level = [] then c2 else restartStream level c2)"
    using c' c1(1) s unfolding apply_addr_def c1_def [symmetric] by (simp add: Let_def)
  then show ?thesis using start_keeps [OF s] c1 assms(2) by auto
qed

lemma subscribe_nonempty:
  assumes "levels_ok lv"
  shows "subscribeLevel lv pol \<noteq> []"
proof -
  have "lv_info lv \<noteq> []" using assms unfolding levels_ok_def by blast
  then show ?thesis by (simp add: subscribeLevel_def)
qed

lemma apply_config_core:
  fixes c c' :: collector
  assumes lv: "levels_ok (ev_levels env)"
    and c': "c' = applyConfig env now euid fs cf c"
    and pol: "pol = policy_Build (ev_levels env) (cf_agent cf) now"
    and d: "d = resolveAddr (ev_loopback env) (ev_quote env) (ev_config env) euid fs (c_configPath c)
      (cf_ClashAPIAddr cf)"
  shows "c_policy c' = pol \<and>
    (\<not> policy_Enabled pol \<longrightarrow> c_pipe c' = None \<and> cs_State (c_status c') = CollectorOff) \<and>
    (c_pipe c' \<noteq> None \<longrightarrow> c_haveLevel c' = subscribeLevel (ev_levels env) pol) \<and>
    (policy_Enabled pol \<and> c_pipe c' = None \<longrightarrow>
       cs_State (c_status c') \<in> {CollectorSecretUnreadable, CollectorNoClashAPI}) \<and>
    (\<forall>p. policy_Enabled pol \<and> c_pipe c = Some p \<and>
       (dc_addr d = [] \<and> dc_transient d \<or> dc_addr d \<noteq> [] \<and> dc_addr d = c_addr c) \<longrightarrow>
       c_pipe c' = Some p \<and> map pl_asm (c_pipes c') = map pl_asm (c_pipes c))"
proof -
  define c1 where "c1 = record_config env now cf c"
  note c1 = record_keeps [of env now cf c, folded c1_def, folded pol]
  define level where "level = subscribeLevel (ev_levels env) pol"
  have level: "level \<noteq> []" unfolding level_def pol by (rule subscribe_nonempty [OF lv])
  define sp where "sp = trim_space (cf_SecretPath cf)"
  have c'_eq: "c' =
      (if \<not> policy_Enabled pol then setStatus env now CollectorOff [] [] AddrFromNowhere (stop c1)
       else if dc_addr d = [] \<and> dc_transient d \<and> c_pipe c1 \<noteq> None then
         apply_addr env now euid fs (c_addr c1) (cs_AddrSource (c_status c1)) sp level
           (noteDiscovery env now (dc_detail d) c1)
       else if dc_addr d = [] then
         setStatus env now CollectorNoClashAPI (dc_detail d) [] AddrFromNowhere (stop c1)
       else apply_addr env now euid fs (dc_addr d) (dc_source d) sp level (noteDiscovery env now [] c1))"
    unfolding c' applyConfig_def Let_def c1_def [symmetric] level_def sp_def pol [symmetric] d c1 by simp
  show ?thesis
  proof (cases "policy_Enabled pol")
    case False
    then show ?thesis using c'_eq c1 by simp
  next
    case on: True
    show ?thesis
    proof (cases "dc_addr d = []")
      case True
      show ?thesis
      proof (cases "dc_transient d \<and> c_pipe c \<noteq> None")
        case held: True
        then obtain p where p: "c_pipe c = Some p" by auto
        then show ?thesis
          using apply_addr_same [of "noteDiscovery env now (dc_detail d) c1" p "c_addr c1" c'] on True held c1
          by (simp add: c'_eq level_def)
      next
        case False
        then show ?thesis using on True c1 by (auto simp: c'_eq)
      qed
    next
      case False
      then have e: "c' = apply_addr env now euid fs (dc_addr d) (dc_source d) sp level (noteDiscovery env now [] c1)"
        using on c'_eq by simp
      show ?thesis
      proof (cases "c_pipe c \<noteq> None \<and> c_addr c = dc_addr d")
        case True
        then obtain p where "c_pipe c = Some p" by auto
        then show ?thesis using apply_addr_same [OF _ _ e, of p] on True c1 by (simp add: level_def)
      next
        case other: False
        then show ?thesis using apply_addr_other [OF _ level e] on c1 False by (auto simp: level_def)
      qed
    qed
  qed
qed

subsection \<open>One log entry\<close>

subsection \<open>What one entry does to its pipeline\<close>

lemma upd_shipper_others [simp]:
  "pl_asm (c_pipes (upd_shipper q f c) ! p) = pl_asm (c_pipes c ! p)"
  "pl_guard (c_pipes (upd_shipper q f c) ! p) = pl_guard (c_pipes c ! p)"
  by (cases "q < length (c_pipes c)"; simp add: upd_pipe_def nth_list_update list_update_beyond)+

lemma ship_line_others [simp]:
  "pl_asm (c_pipes (ship_line q ss b c) ! p) = pl_asm (c_pipes c ! p)"
  "pl_guard (c_pipes (ship_line q ss b c) ! p) = pl_guard (c_pipes c ! p)"
  by (simp_all add: ship_line_def)

lemma tag_none [simp]: "tag_conn a i [] = a"
  by (simp add: tag_conn_def)

lemma deliver_effect:
  assumes "p < length (c_pipes c)"
  shows "pl_guard (c_pipes (deliver p q l b d c) ! p) = pl_guard (c_pipes c ! p) \<and>
    (\<exists>ss. pl_asm (c_pipes (deliver p q l b d c) ! p) = tag_conn (pl_asm (c_pipes c ! p)) (ln_LogID l) ss)"
proof (cases "c_tagged c (ln_LogID l) = None \<and> ln_HasLogID l \<and> de_SessionIDs d \<noteq> []")
  case True
  then show ?thesis using assms by (auto simp: deliver_def Let_def case_prod_beta)
next
  case False
  then have "pl_asm (c_pipes (deliver p q l b d c) ! p) = tag_conn (pl_asm (c_pipes c ! p)) (ln_LogID l) []"
    "pl_guard (c_pipes (deliver p q l b d c) ! p) = pl_guard (c_pipes c ! p)"
    by (auto simp: deliver_def split: option.split)
  then show ?thesis by blast
qed

lemma entry_effect:
  assumes p: "p < length (c_pipes c)"
    and under: "snd (ceiling_check (pl_guard (c_pipes c ! p)) now)"
    and parsed: "ParseEntry (ev_entry env) entry now = (l, True)"
    and g: "g = fst (ceiling_check (pl_guard (c_pipes c ! p)) now)"
    and tr: "tr = (ln_HasLogID l \<and> tracked (pl_asm (c_pipes c ! p)) (ln_LogID l))"
    and admitted: "snd (admit g now l tr)"
    and c': "c' = on_entry env nodeID p now entry c"
  shows "pl_guard (c_pipes c' ! p) = fst (admit g now l tr) \<and>
    (\<exists>ss. pl_asm (c_pipes c' ! p) = tag_conn (asm_line (pl_asm (c_pipes c ! p)) now l) (ln_LogID l) ss)"
proof -
  define c1 where "c1 = upd_guard p (\<lambda>_. g) (countLineLocked now c)"
  define c2 where "c2 = (if \<not> Parsed l then c1\<lparr>c_unparsed := c_unparsed c1 + 1,
    c_unparsedTotal := c_unparsedTotal c1 + 1\<rparr> else c1)"
  have c2: "p < length (c_pipes c2)" "c_pipes c2 ! p = (c_pipes c ! p)\<lparr>pl_guard := g\<rparr>"
    using p by (auto simp: c2_def c1_def)
  define c3 where "c3 = upd_asm p (\<lambda>a. asm_line a now l) (upd_guard p (\<lambda>_. fst (admit g now l tr)) c2)"
  have c3: "p < length (c_pipes c3)" "pl_guard (c_pipes c3 ! p) = fst (admit g now l tr)"
    "pl_asm (c_pipes c3 ! p) = asm_line (pl_asm (c_pipes c ! p)) now l"
    using c2 by (simp_all add: c3_def)
  have "c' = observe_line env nodeID p now l c2"
    using under parsed p unfolding c' by (simp add: on_entry_def Let_def case_prod_beta c2_def c1_def g)
  also have "\<dots> = (case c_pipe c3 of None \<Rightarrow> c3 | Some q \<Rightarrow> route_line env nodeID p q now l c3)"
    using c2 admitted by (simp add: observe_line_def Let_def case_prod_beta c3_def tr split: option.split)
  finally show ?thesis
    using c3 deliver_effect [of p "offer_raw k r c3" q l b d for k r q b d]
    by (cases "c_pipe c3") (auto simp: route_line_def Let_def case_prod_beta intro: exI [of _ "[]"])
qed

subsection \<open>The report of a tick\<close>

lemma evaluate_counts [simp]:
  "c_unparsed (evaluateStream env now c) = c_unparsed c" "c_shedTotal (evaluateStream env now c) = c_shedTotal c"
  "c_lastAsmDropped (evaluateStream env now c) = c_lastAsmDropped c"
  "c_lastAsmPartial (evaluateStream env now c) = c_lastAsmPartial c"
  by (simp_all add: evaluateStream_def notify_def setStatusLocked_def Let_def split: option.split)

lemma asm_delta: "(if d > 0 then (n + d, c\<lparr>c_lastAsmDropped := x\<rparr>) else (n, c)) =
    (n + d, c\<lparr>c_lastAsmDropped := (if d > 0 then x else c_lastAsmDropped c)\<rparr>)"
  "(if d > 0 then (n + d, c\<lparr>c_lastAsmPartial := x\<rparr>) else (n, c)) =
    (n + d, c\<lparr>c_lastAsmPartial := (if d > 0 then x else c_lastAsmPartial c)\<rparr>)"
  for d n :: "64 word" and c :: collector
  by (auto simp: word_neq_0_conv [symmetric])

lemma delta_last: "(if x - y > 0 then x else y) = x" for x y :: "64 word"
  by (auto simp: word_neq_0_conv [symmetric])

lemma drive_report_eq:
  fixes c :: collector and p :: nat
  defines "pl \<equiv> c_pipes c ! p"
  shows "drive_report env now p c = evaluateStream env now
    (upd_shipper p (\<lambda>s. addShed (gd_shedN (pl_guard pl)) (addDropped (gd_droppedN (pl_guard pl)
         + (asm_stats.st_Dropped (as_stats (pl_asm pl)) - c_lastAsmDropped c)
         + (asm_stats.st_Partial (as_stats (pl_asm pl)) - c_lastAsmPartial c)) (addUnparsed (c_unparsed c) s)))
      ((upd_guard p (\<lambda>_. fst (guard_take (pl_guard pl))) c)
        \<lparr>c_unparsed := 0, c_shedTotal := c_shedTotal c + gd_shedN (pl_guard pl),
         c_lastAsmDropped := asm_stats.st_Dropped (as_stats (pl_asm pl)),
         c_lastAsmPartial := asm_stats.st_Partial (as_stats (pl_asm pl))\<rparr>))"
  by (simp add: drive_report_def Let_def case_prod_beta guard_take_def stats_of_def pl_def asm_delta delta_last)

lemma ship_losses [simp]:
  "sh_dropped (addShed n s) = sh_dropped s + n" "sh_dropped (addDropped n s) = sh_dropped s + n"
  "sh_dropped (addUnparsed n s) = sh_dropped s" "sh_shed (addShed n s) = sh_shed s + n"
  "sh_shed (addDropped n s) = sh_shed s" "sh_shed (addUnparsed n s) = sh_shed s"
  "sh_unparsed (addShed n s) = sh_unparsed s" "sh_unparsed (addDropped n s) = sh_unparsed s"
  "sh_unparsed (addUnparsed n s) = sh_unparsed s + n"
  "sh_records (addShed n s) = sh_records s" "sh_records (addDropped n s) = sh_records s"
  "sh_records (addUnparsed n s) = sh_records s" "sh_lines (addShed n s) = sh_lines s"
  "sh_lines (addDropped n s) = sh_lines s" "sh_lines (addUnparsed n s) = sh_lines s"
  by (simp_all add: addShed_def addDropped_def addUnparsed_def)

subsection \<open>What a run does to the policy and the subscription\<close>

definition control where
  "control c = (c_policy c, c_pipe c, c_haveLevel c, c_serverSkew c)"

lemma control_small [simp]:
  "control (upd_pipe p f c) = control c" "control (evaluateStream env now c) = control c"
  "control (countLineLocked now c) = control c" "control (bufferPending i l c) = control c"
  "control (fst (claimPending i ss c)) = control c" "control (forgetConn i c) = control c"
  "control (offer_raw k r c) = control c" "control (ship_line q ss base c) = control c"
  "control (flushRaw_send now p c) = control c" "control (drain_to_shipper p c) = control c"
  "control (c\<lparr>c_unparsed := u, c_unparsedTotal := v\<rparr>) = control c" "control (c\<lparr>c_cfg := cfg\<rparr>) = control c"
  "control (c\<lparr>c_panicked := pa\<rparr>) = control c"
  by (simp_all add: control_def countLineLocked_def bufferPending_def claimPending_def forgetConn_def offer_raw_def
      ship_line_def flushRaw_send_def drain_to_shipper_def Let_def case_prod_beta)

lemma control_finals [simp]: "control (foldl forget_final c rs) = control c"
  by (rule foldl_keeps) (simp add: forget_final_def)

lemma control_entry [simp]: "control (on_entry env nodeID p now entry c) = control c"
proof -
  have "control (deliver p q l b d c) = control c" for p q l b d c
    by (simp add: deliver_def Let_def case_prod_beta split: option.split)
  then show ?thesis
    by (simp add: on_entry_def observe_line_def route_line_def Let_def case_prod_beta split: option.split)
qed

lemma control_poll [simp]: "control (poll_connections env now p answer c) = control c"
proof -
  have "control (noteCoreRestart now p c) = control c" for c
    by (simp add: noteCoreRestart_def Let_def split: option.split) (simp add: control_def)
  then show ?thesis by (simp add: poll_connections_def Let_def split: sum.split) (simp add: control_def)
qed

lemma control_report [simp]: "control (drive_report env now p c) = control c"
  by (simp add: drive_report_eq) (simp add: control_def)

lemma control_tick: "control (drive_tick env now p c) = control (expireSessionsLocally env now c)"
  by (simp add: drive_tick_def Let_def case_prod_beta)

lemma control_streams [simp]:
  "control (noteStreamOpen env now epoch c) = control c"
  "control (noteStreamError env now epoch err c) = control c"
  by (simp_all add: noteStreamOpen_def noteStreamError_def Let_def) (simp_all add: control_def)

lemma control_delivery [simp]:
  "control (ship_take now p c) = control c" "control (ship_answer env now p answer c) = control c"
  "flushRaw_answer p ok c = Some c' \<Longrightarrow> control c' = control c"
  by (simp_all add: ship_take_def ship_answer_def flushRaw_answer_def trim_raw_def Let_def case_prod_beta
      split: option.splits if_splits) (auto simp: control_def)

lemma control_do:
  "control (collector_do env c op) =
     (case op of
        Apply now euid fs cf \<Rightarrow> control (applyConfig env now euid fs cf c)
      | Tick now p \<Rightarrow> control (expireSessionsLocally env now c)
      | _ \<Rightarrow> control c)"
  by (cases op) (auto simp: control_tick drive_exit_def split: option.split)

text \<open>
  The log stream is subscribed at the level of the policy in force, and the policy was built at
  an instant of the wall clock.
\<close>

definition control_ok :: "collector_env \<Rightarrow> collector \<Rightarrow> bool" where
  "control_ok env c \<longleftrightarrow>
     (c_pipe c \<noteq> None \<longrightarrow> c_haveLevel c = subscribeLevel (ev_levels env) (c_policy c)) \<and>
     (c_policy c = no_policy \<or> (\<exists>cf t. 0 \<le> t \<and> c_policy c = policy_Build (ev_levels env) cf t))"

lemma control_ok_cong: "control c' = control c \<Longrightarrow> control_ok env c' = control_ok env c"
  by (simp add: control_def control_ok_def)

lemma built_deadlines:
  assumes "0 \<le> t" and pol: "pol = policy_Build lv cf t"
  shows "sess \<in> set (ps_sessions pol) \<Longrightarrow> t < ts_ExpiresAt sess \<and> 0 < expiresNext pol \<and> expiresNext pol \<le> ts_ExpiresAt sess"
    and "expiresNext pol \<noteq> 0 \<Longrightarrow> t < expiresNext pol"
proof -
  let ?es = "map ts_ExpiresAt (running lv t (ac_Sessions cf))"
  have pos: "\<forall>e \<in> set ?es. 0 < e" "\<forall>e \<in> set ?es. t < e" using assms(1) by (auto simp: running_iff)
  have next_eq: "expiresNext pol = earliest 0 ?es" by (simp add: pol expiresNext_def Build_fields)
  have e: "expiresNext pol = (if ?es = [] then 0 else Min (set ?es))"
    unfolding next_eq by (subst earliest_props [OF pos(1)]) auto
  have mem: "Min (set ?es) \<in> set ?es" if "?es \<noteq> []" using that by (intro Min_in) auto
  show "expiresNext pol \<noteq> 0 \<Longrightarrow> t < expiresNext pol"
    using e mem pos(2) by (auto split: if_splits)
  assume "sess \<in> set (ps_sessions pol)"
  then have s: "ts_ExpiresAt sess \<in> set ?es" by (simp add: pol Build_fields)
  then have "?es \<noteq> []" by auto
  moreover have "Min (set ?es) \<le> ts_ExpiresAt sess" using s by (intro Min_le) auto
  ultimately show "t < ts_ExpiresAt sess \<and> 0 < expiresNext pol \<and> expiresNext pol \<le> ts_ExpiresAt sess"
    using e mem pos s by auto
qed

lemma expire_policy:
  "c_policy (expireSessionsLocally env now c) =
     (if expiresNext (c_policy c) = 0 \<or> now + c_serverSkew c < expiresNext (c_policy c) then c_policy c
      else policy_Build (ev_levels env)
        \<lparr>ac_Policy = policy_Policy (c_policy c), ac_Sessions = activeSessions (c_policy c)\<rparr> (now + c_serverSkew c))"
  by (simp add: expireSessionsLocally_def expire_rebuild_def expire_commit_def Let_def)

lemma expire_keeps:
  assumes "control_ok env c"
  shows "control_ok env (expireSessionsLocally env now c)"
proof (cases "expiresNext (c_policy c) = 0 \<or> now + c_serverSkew c < expiresNext (c_policy c)")
  case True
  then show ?thesis using assms by (simp add: expireSessionsLocally_def expire_rebuild_def)
next
  case False
  then have "c_policy c \<noteq> no_policy" by (auto simp: no_policy_def expiresNext_def)
  then obtain cf t where "0 \<le> t" "c_policy c = policy_Build (ev_levels env) cf t"
    using assms by (auto simp: control_ok_def)
  then have "0 \<le> now + c_serverSkew c" using built_deadlines(2) False by fastforce
  then show ?thesis using False
    by (auto simp: control_ok_def expireSessionsLocally_def expire_rebuild_def expire_commit_def restartStream_def Let_def)
qed

lemma apply_control:
  assumes lv: "levels_ok (ev_levels env)" and "0 \<le> now"
  shows "control_ok env (applyConfig env now euid fs cf c)"
  using apply_config_core [OF lv refl refl refl, of now euid fs cf c] assms(2) by (auto simp: control_ok_def)

definition clock_ok :: "collector_op \<Rightarrow> bool" where
  "clock_ok op \<longleftrightarrow> (case op of Apply now euid fs cf \<Rightarrow> 0 \<le> now | _ \<Rightarrow> True)"

lemma control_step:
  assumes "levels_ok (ev_levels env)" "clock_ok op" "control_ok env c"
  shows "control_ok env (collector_step env c op)"
proof -
  have "control_ok env (collector_do env c op)"
  proof -
    consider now euid fs cf where "op = Apply now euid fs cf" | now p where "op = Tick now p"
      | "control (collector_do env c op) = control c" using control_do [of env c op] by (cases op) auto
    then show ?thesis
    proof cases
      case 1
      then show ?thesis using assms apply_control by (simp add: clock_ok_def)
    next
      case 2
      then show ?thesis using expire_keeps [OF assms(3)] control_ok_cong [OF control_tick] by simp
    next
      case 3
      then show ?thesis using control_ok_cong assms(3) by blast
    qed
  qed
  then show ?thesis using assms(3) by (simp add: collector_step_def split: option.split)
qed

lemma control_run:
  assumes "levels_ok (ev_levels env)" "list_all clock_ok ops"
  shows "control_ok env (foldl (collector_step env) (newTraceCollector cfg t) ops)"
proof -
  have "control_ok env c \<Longrightarrow> control_ok env (foldl (collector_step env) c ops)" for c
    using assms by (induction ops arbitrary: c) (simp_all add: control_step)
  then show ?thesis by (simp add: newTraceCollector_def control_ok_def)
qed

subsection \<open>The lines of a claimed connection\<close>

definition pending_of :: "collector \<Rightarrow> 32 word \<Rightarrow> trace_line list" where
  "pending_of c i = (case c_pending c i of Some q \<Rightarrow> q | None \<Rightarrow> [])"

lemma buffer_unclaimed:
  assumes "c_tagged c i = None" "length (pending_of c i) < tracePendingPerConn"
  shows "pending_of (bufferPending i b c) i = pending_of c i @ [b] \<and> c_tagged (bufferPending i b c) = c_tagged c"
  using assms by (auto simp: bufferPending_def pending_of_def Let_def tracePendingPerConn_def split: option.splits if_splits)

lemma deliver_early:
  assumes "c_tagged c i = None" "length (pending_of c i) < tracePendingPerConn"
    and "ln_HasLogID l" "ln_LogID l = i" "de_SessionIDs d = []"
  shows "pending_of (deliver p q l b d c) i = pending_of c i @ [b] \<and> c_tagged (deliver p q l b d c) i = None \<and>
    c_pipes (deliver p q l b d c) = c_pipes c"
  using assms buffer_unclaimed [OF assms(1,2), of b] by (simp add: deliver_def)

lemma deliver_claim:
  assumes q: "q < length (c_pipes c)" and "c_tagged c i = None"
    and "ln_HasLogID l" "ln_LogID l = i" "de_SessionIDs d = ss" "ss \<noteq> []" "de_Keep d"
  shows "c_tagged (deliver p q l b d c) i = Some ss \<and> pending_of (deliver p q l b d c) i = [] \<and>
    q < length (c_pipes (deliver p q l b d c)) \<and>
    pl_shipper (c_pipes (deliver p q l b d c) ! q) = addLines (map (\<lambda>s. stamp s b) ss)
      (addLines (concat (map (\<lambda>s. map (stamp s) (pending_of c i)) ss)) (pl_shipper (c_pipes c ! q)))"
proof -
  have u: "(\<And>pl. pl_shipper (f pl) = pl_shipper pl) \<Longrightarrow>
    pl_shipper (c_pipes (upd_pipe p f e) ! q) = pl_shipper (c_pipes e ! q)" for f e
    by (cases "p < length (c_pipes e)") (simp_all add: upd_pipe_def nth_list_update list_update_beyond)
  show ?thesis
    using assms by (simp add: deliver_def claimPending_def Let_def ship_line_def u pending_of_def split: option.split)
qed

lemma deliver_claimed:
  assumes "q < length (c_pipes c)" "c_tagged c i = Some ss" "ss \<noteq> []" "ln_HasLogID l" "ln_LogID l = i"
  shows "c_tagged (deliver p q l b d c) = c_tagged c \<and> q < length (c_pipes (deliver p q l b d c)) \<and>
    pl_shipper (c_pipes (deliver p q l b d c) ! q) = addLines (map (\<lambda>s. stamp s b) ss) (pl_shipper (c_pipes c ! q))"
  using assms by (simp add: deliver_def ship_line_def)

lemma deliver_early_run:
  assumes "c_tagged c i = None" "length (pending_of c i) + length ls \<le> tracePendingPerConn"
    and "\<forall>(l, b, d) \<in> set ls. ln_HasLogID l \<and> ln_LogID l = i \<and> de_SessionIDs d = []"
    and "c' = foldl (\<lambda>c (l, b, d). deliver p q l b d c) c ls"
  shows "pending_of c' i = pending_of c i @ map (\<lambda>(l, b, d). b) ls \<and> c_tagged c' i = None \<and> c_pipes c' = c_pipes c"
  using assms
proof (induction ls arbitrary: c)
  case (Cons x ls)
  obtain l b d where x: "x = (l, b, d)" by (cases x) auto
  have s: "pending_of (deliver p q l b d c) i = pending_of c i @ [b] \<and> c_tagged (deliver p q l b d c) i = None \<and>
    c_pipes (deliver p q l b d c) = c_pipes c"
    using Cons.prems x by (intro deliver_early) auto
  have "pending_of c' i = pending_of (deliver p q l b d c) i @ map (\<lambda>(l, b, d). b) ls \<and>
      c_tagged c' i = None \<and> c_pipes c' = c_pipes (deliver p q l b d c)"
    using Cons.prems s x by (intro Cons.IH) auto
  then show ?case using s x by simp
qed simp

subsection \<open>A raw flush while the queue changes\<close>

definition raw_change :: "collector \<Rightarrow> bool \<times> string + string \<Rightarrow> collector" where
  "raw_change c x = (case x of Inl (keep, raw) \<Rightarrow> offer_raw keep raw c | Inr i \<Rightarrow> setRawSourceLocked i c)"

lemma raw_changes:
  assumes "c_rawEpoch c = e + word_of_nat k" "k = 0 \<Longrightarrow> prefix ls (c_rawQueue c)"
  shows "\<exists>k'. k' \<le> k + length xs \<and> c_rawEpoch (foldl raw_change c xs) = e + word_of_nat k' \<and>
    (k' = 0 \<longrightarrow> prefix ls (c_rawQueue (foldl raw_change c xs)))"
  using assms
proof (induction xs arbitrary: c k)
  case (Cons x xs)
  have "\<exists>k1. k1 \<le> Suc k \<and> c_rawEpoch (raw_change c x) = e + word_of_nat k1 \<and> (k1 = 0 \<longrightarrow> prefix ls (c_rawQueue (raw_change c x)))"
  proof (cases "c_rawEpoch (raw_change c x) = c_rawEpoch c")
    case True
    then have "prefix (c_rawQueue c) (c_rawQueue (raw_change c x))"
      by (auto simp: raw_change_def offer_raw_def setRawSourceLocked_def Let_def split: sum.splits if_splits)
    then show ?thesis using True Cons.prems by (intro exI [of _ k]) (auto intro: prefix_order.trans)
  next
    case False
    then have "c_rawEpoch (raw_change c x) = c_rawEpoch c + 1"
      by (auto simp: raw_change_def offer_raw_def setRawSourceLocked_def Let_def split: sum.splits if_splits)
    then show ?thesis using Cons.prems by (intro exI [of _ "Suc k"]) (simp add: add_ac)
  qed
  then obtain k1 where k1: "k1 \<le> Suc k" "c_rawEpoch (raw_change c x) = e + word_of_nat k1"
    "k1 = 0 \<longrightarrow> prefix ls (c_rawQueue (raw_change c x))" by blast
  then obtain k' where "k' \<le> k1 + length xs" "c_rawEpoch (foldl raw_change (raw_change c x) xs) = e + word_of_nat k'"
    "k' = 0 \<longrightarrow> prefix ls (c_rawQueue (foldl raw_change (raw_change c x) xs))"
    using Cons.IH [OF k1(2)] by blast
  then show ?case using k1(1) by (intro exI [of _ k']) simp
qed auto

end
