(* ===== verification/Trace_Collector_Properties.thy ===== *)
theory Trace_Collector_Properties
  imports Trace_Collector_Shared
begin

text \<open>
  The properties of the trace collector, each with a witness on a small run: a node that collects
  at level info, with its API on loopback and a root-only secret.
\<close>

subsection \<open>A small run\<close>

text \<open>
  One node that collects at level info, with its API on loopback and a root-only secret, for the
  witnesses.
\<close>

definition demo_env :: collector_env where
  "demo_env = \<lparr>ev_levels = sample_levels, ev_bound = (\<lambda>s. s), ev_entry = (\<lambda>s. Some (''info'', s)),
     ev_config = (\<lambda>_. None), ev_loopback = (\<lambda>h. h = ''127.0.0.1''), ev_quote = (\<lambda>s. s),
     ev_sha256 = (\<lambda>s. s), ev_http_time = (\<lambda>_. None)\<rparr>"

definition demo_cf :: "string \<Rightarrow> collector_config" where
  "demo_cf rawSource =
     \<lparr>cf_agent = \<lparr>ac_Policy = \<lparr>tp_Enabled = True, tp_Level = ''info''\<rparr>, ac_Sessions = []\<rparr>,
      cf_SecretPath = ''/s'', cf_BudgetLinesPerSec = 0, cf_ClashAPIAddr = ''127.0.0.1:9090'',
      cf_Raw = None, cf_RawSourceID = rawSource, cf_ServerTime = 0\<rparr>"

definition demo_agent :: agent_cfg where
  "demo_agent = \<lparr>ag_Server = ''http://s'', ag_NodeID = ''n'', ag_Token = ''t''\<rparr>"

definition demo_entry :: string where
  "demo_entry = log_payload 7 ''1ms'' ''router'' ''hello''"

lemma demo_levels [simp]: "ev_levels demo_env = sample_levels" by (simp add: demo_env_def)

lemma demo_facts:
  "policy_Enabled (policy_Build sample_levels (cf_agent (demo_cf r)) 1)"
  "subscribeLevel sample_levels (policy_Build sample_levels (cf_agent (demo_cf r)) 1) = ''info''"
  "ValidateLoopbackAddr (ev_loopback demo_env) (ev_quote demo_env) ''127.0.0.1:9090'' = Inr ''127.0.0.1:9090''"
  "trim_space (cf_SecretPath (demo_cf r)) = ''/s''"
  "trim_space (cf_ClashAPIAddr (demo_cf r)) = ''127.0.0.1:9090''"
  by (simp_all add: demo_cf_def, code_simp+)

lemma demo_secret: "resolveClashSecret cd 0 sample_fs ''/s'' fp cp = Inr ''key''"
  by (simp add: resolveClashSecret_def readNodeFile_def sample_fs_def nodeFileMaxBytes_def) code_simp

abbreviation demo_start :: "string \<Rightarrow> collector_op list" where
  "demo_start r \<equiv> [Apply 1 0 sample_fs (demo_cf r)]"

lemma demo_addr:
  "resolveAddr (ev_loopback demo_env) (ev_quote demo_env) (ev_config demo_env) 0 sample_fs path
     (cf_ClashAPIAddr (demo_cf r)) =
   \<lparr>dc_addr = ''127.0.0.1:9090'', dc_source = ClashAddrFromPolicy, dc_detail = [], dc_transient = False\<rparr>"
  by (simp add: resolveAddr_def demo_facts)

definition demo_up :: "string \<Rightarrow> collector" where
  "demo_up r = foldl (collector_step demo_env) (newTraceCollector demo_agent 1) (demo_start r)"

lemma demo_up_pipes:
  "c_pipe (demo_up r) = Some 0 \<and> c_addr (demo_up r) = ''127.0.0.1:9090'' \<and> \<not> c_panicked (demo_up r) \<and>
   (\<exists>sh. c_pipes (demo_up r) = [(new_pipeline demo_agent 1 defaultTraceBudgetLines ''127.0.0.1:9090'' ''key'')\<lparr>pl_shipper := sh\<rparr>])"
proof -
  let ?c0 = "newTraceCollector demo_agent 1"
  define c1 where "c1 = noteDiscovery demo_env 1 [] (record_config demo_env 1 (demo_cf r) ?c0)"
  have c1: "c_pipe c1 = None" "c_pipes c1 = []" "c_cfg c1 = demo_agent" "c_generation c1 = 1"
    "c_budget c1 = defaultTraceBudgetLines" "\<not> c_panicked c1"
    by (simp_all add: c1_def record_config_def Let_def setLineBudget_def setRawSourceLocked_def noteDiscovery_def
        newTraceCollector_def demo_cf_def evaluateStream_def)
  have "demo_up r = apply_addr demo_env 1 0 sample_fs ''127.0.0.1:9090'' ClashAddrFromPolicy ''/s'' ''info'' c1"
    by (simp add: demo_up_def collector_step_def newTraceCollector_def applyConfig_def demo_facts demo_addr c1_def Let_def)
  also have "\<dots> = restartStream ''info'' (fst (startPipeline demo_env 1 0 sample_fs ''127.0.0.1:9090'' ClashAddrFromPolicy ''/s'' c1))"
    using c1(1) by (simp add: apply_addr_def startPipeline_def demo_secret demo_facts Let_def)
  finally show ?thesis
    using c1 by (simp add: startPipeline_def demo_secret demo_facts Let_def restartStream_def upd_pipe_def) blast
qed

lemma line_opens:
  assumes "map_of (as_open a) (ln_LogID l) = None" "\<not> done_has (as_done a) (ln_LogID l)" "ln_HasLogID l"
    "ln_Event l = EventOther" "int (length (as_open a)) < op_MaxOpen (as_opts a)"
  shows "map_of (as_open (asm_line a clk l)) (ln_LogID l) \<noteq> None"
  using assms by (simp add: asm_line_def Let_def case_prod_beta apply_line_def create_def update_conv')

lemma demo_parses:
  fixes now
  defines "l \<equiv> ParsePayload demo_entry ''info'' now"
  shows "ParseEntry (ev_entry demo_env) demo_entry now = (l, True)"
    and "ln_HasLogID l" "ln_LogID l = 7" "ln_Event l = EventOther"
proof -
  have x: "CHR 0x1B \<notin> set demo_entry" "trim_space demo_entry = demo_entry" by code_simp+
  show "ParseEntry (ev_entry demo_env) demo_entry now = (l, True)"
    by (simp add: ParseEntry_def demo_env_def l_def)
  show "ln_HasLogID l" "ln_LogID l = 7"
    using parse_payload [OF _ _ _ _ _ _ demo_entry_def x, of "''info''" now] by (simp_all add: header_of_def l_def)
  have "cutLogID (trim_space (stripANSI demo_entry)) = Some (7, (case parseElapsedMS ''1ms'' of None \<Rightarrow> 0 | Some ms \<Rightarrow> ms), ''router: hello'')"
    using cutLogID_payload [of 7 "''1ms''" "''router''" "''hello''"] x
    by (simp add: demo_entry_def stripANSI_id)
  moreover have "cutTag ''router: hello'' = (''router'', ''hello'')" "decomposeTag ''router'' = (TagRouter, [], [])"
    by code_simp+
  ultimately show "ln_Event l = EventOther"
    by (simp add: l_def ParsePayload_def parseBody_def Let_def classify_def classify_body_def cutUserPrefix_def has_prefix_def)
qed

lemma entry_length: "length (c_pipes (on_entry env nodeID p now entry c)) = length (c_pipes c)"
proof -
  have "length (c_pipes (deliver p q l b d c)) = length (c_pipes c)" for p q l b d c
    by (simp add: deliver_def ship_line_def Let_def case_prod_beta split: option.split)
  then show ?thesis
    by (simp add: on_entry_def observe_line_def route_line_def Let_def case_prod_beta split: option.split)
qed

definition demo_run :: collector where
  "demo_run = foldl (collector_step demo_env) (newTraceCollector demo_agent 1)
     (demo_start [] @ [Entry ''n'' 0 2 demo_entry])"

lemma demo_run_state:
  "length (c_pipes demo_run) = 1"
  "snd (ceiling_check (pl_guard (c_pipes demo_run ! 0)) 3)"
  "map_of (as_open (pl_asm (c_pipes demo_run ! 0))) 7 \<noteq> None"
proof -
  let ?l = "ParsePayload demo_entry ''info'' 2"
  let ?pl = "new_pipeline demo_agent 1 defaultTraceBudgetLines ''127.0.0.1:9090'' ''key''"
  obtain sh where up: "c_pipes (demo_up []) = [?pl\<lparr>pl_shipper := sh\<rparr>]" "c_pipe (demo_up []) = Some 0" "\<not> c_panicked (demo_up [])"
    using demo_up_pipes by blast
  have run: "demo_run = on_entry demo_env ''n'' 0 2 demo_entry (demo_up [])"
  proof -
    have "demo_run = collector_step demo_env (demo_up []) (Entry ''n'' 0 2 demo_entry)"
      by (simp only: demo_run_def demo_up_def foldl_append foldl.simps)
    then show ?thesis using up by (simp add: collector_step_def)
  qed
  let ?g = "fst (ceiling_check (pl_guard ?pl) 2)"
  have guard: "gd_budget (pl_guard ?pl) = 5000" "gd_entries (pl_guard ?pl) = 0" "gd_parsed (pl_guard ?pl) = 0"
    "gd_windowStart (pl_guard ?pl) = 0" "gd_shed (pl_guard ?pl) = newShedRing DefaultRingCapacity"
    by (simp_all add: new_pipeline_def new_guard_def setBudget_def defaultTraceBudgetLines_def DefaultRingCapacity_def)
  have under: "snd (ceiling_check (pl_guard (c_pipes (demo_up []) ! 0)) 2)"
    using guard up by (simp add: ceiling_check_def Let_def roll_def rolls_def HardCeilingFactor_def wrap64_def)
  have adm: "snd (admit (fst (ceiling_check (pl_guard (c_pipes (demo_up []) ! 0)) 2)) 2 ?l
      (ln_HasLogID ?l \<and> tracked (pl_asm (c_pipes (demo_up []) ! 0)) (ln_LogID ?l)))"
    using guard up by (simp add: admit_result demo_parses roll_counts rolls_def newShedRing_def shed_has_def)
  from entry_effect [OF _ under demo_parses(1) refl refl adm run] up
  obtain ss where g: "pl_guard (c_pipes demo_run ! 0) = fst (admit ?g 2 ?l (ln_HasLogID ?l \<and> tracked (pl_asm ?pl) (ln_LogID ?l)))"
    and a: "pl_asm (c_pipes demo_run ! 0) = tag_conn (asm_line (pl_asm ?pl) 2 ?l) 7 ss"
    by (auto simp: demo_parses)
  show "length (c_pipes demo_run) = 1"
    using up by (simp add: run entry_length)
  show "snd (ceiling_check (pl_guard (c_pipes demo_run ! 0)) 3)"
    unfolding ceiling_check_def Let_def g using guard
    by (simp add: roll_def rolls_def HardCeilingFactor_def wrap64_def time_sub_def)
  have "map_of (as_open (asm_line (pl_asm ?pl) 2 ?l)) 7 \<noteq> None"
    using line_opens [of "pl_asm ?pl" ?l 2]
    by (simp add: demo_parses new_pipeline_def new_assembler_def Let_def newDoneSet_def done_has_def defaultMaxOpen_def)
  then show "map_of (as_open (pl_asm (c_pipes demo_run ! 0))) 7 \<noteq> None"
    unfolding a by (auto simp: tag_conn_def split: option.split)
qed

section \<open>Properties\<close>

text \<open>
  C14. No connection is cut in the middle. In every run of the collector, a log entry that passes
  the hard ceiling and parses to a line of a connection its pipeline is assembling always reaches
  the assembler, whatever the budget says: the assembler's state afterwards is the one after that
  line, at most tagged with sessions.
\<close>

theorem open_connection_never_cut:
  fixes c :: collector
  assumes run: "c = foldl (collector_step env) (newTraceCollector cfg t) ops"
    and p: "p < length (c_pipes c)"
    and under: "snd (ceiling_check (pl_guard (c_pipes c ! p)) now)"
    and parsed: "ParseEntry (ev_entry env) entry now = (l, True)" and l: "ln_HasLogID l"
    and opened: "map_of (as_open (pl_asm (c_pipes c ! p))) (ln_LogID l) \<noteq> None"
  shows "\<exists>ss. pl_asm (c_pipes (on_entry env nodeID p now entry c) ! p) =
    tag_conn (asm_line (pl_asm (c_pipes c ! p)) now l) (ln_LogID l) ss"
proof -
  have "open_unshed (c_pipes c ! p)"
    using unshed.every_pipeline [of p env cfg t ops] p unfolding run by simp
  then have "\<not> shed_has (gd_shed (pl_guard (c_pipes c ! p))) (ln_LogID l)"
    using opened by (auto simp: open_unshed_def open_ids_def)
  then have "snd (admit (fst (ceiling_check (pl_guard (c_pipes c ! p)) now)) now l
      (ln_HasLogID l \<and> tracked (pl_asm (c_pipes c ! p)) (ln_LogID l)))"
    using l opened by (simp add: admit_result tracked_def)
  from entry_effect [OF p under parsed refl refl this refl] show ?thesis by blast
qed

theorem open_connection_never_cut_witness:
  "\<exists>ss. pl_asm (c_pipes (on_entry demo_env ''n'' 0 3 demo_entry demo_run) ! 0) =
     tag_conn (asm_line (pl_asm (c_pipes demo_run ! 0)) 3 (ParsePayload demo_entry ''info'' 3)) 7 ss"
  using open_connection_never_cut [OF demo_run_def _ demo_run_state(2) demo_parses(1) demo_parses(2)]
    demo_run_state demo_parses(3) by simp

text \<open>
  The bearer secret stays on the node. In every run, each API client the collector ever built
  talks to an address whose host is \<open>localhost\<close> or a loopback literal, with a port between 1 and
  65535, wherever the address came from.
\<close>

theorem every_client_loopback:
  assumes "c = foldl (collector_step env) (newTraceCollector cfg t) ops" "p < length (c_pipes c)"
  shows "\<exists>host port n. net_SplitHostPort (pl_baseAddr (c_pipes c ! p)) = Inr (host, port) \<and>
    isLoopbackHost (ev_loopback env) host \<and> parse_int port = Some n \<and> 1 \<le> n \<and> n \<le> 65535"
  using clients.every_pipeline [of p env cfg t ops] assms by (simp add: client_loopback_def)

theorem every_client_loopback_witness:
  "\<exists>host port n. net_SplitHostPort (pl_baseAddr (c_pipes demo_run ! 0)) = Inr (host, port) \<and>
    isLoopbackHost (ev_loopback demo_env) host \<and> parse_int port = Some n \<and> 1 \<le> n \<and> n \<le> 65535"
  using every_client_loopback [OF demo_run_def, of 0] demo_run_state(1) by simp

text \<open>
  The buffer of unclaimed lines is bounded and consistent. In every run, at most 512
  connections have lines waiting, in the order they came, at most eight lines each, every line
  under its own id and without a session; and a connection a session has claimed has none.
\<close>

theorem pending_buffer_bounded:
  assumes "c = foldl (collector_step env) (newTraceCollector cfg t) ops"
  shows "length (c_pendingOrder c) \<le> 512 \<and> distinct (c_pendingOrder c) \<and>
    dom (c_pending c) = set (c_pendingOrder c) \<and> dom (c_pending c) \<inter> dom (c_tagged c) = {} \<and>
    (\<forall>i q. c_pending c i = Some q \<longrightarrow>
       length q \<le> 8 \<and> (\<forall>l \<in> set q. tl_LogID l = i \<and> tl_SessionID l = []))"
proof -
  have "buffer_ok c" unfolding assms
    by (rule buffers.shared_runs.run_inv) (simp add: buffer_ok_def newTraceCollector_def tracePendingConns_def)
  then show ?thesis unfolding buffer_ok_def tracePendingConns_def tracePendingPerConn_def by blast
qed

theorem pending_buffer_bounded_witness:
  "length (c_pendingOrder demo_run) \<le> 512 \<and>
   dom (c_pending demo_run) \<inter> dom (c_tagged demo_run) = {}"
  using pending_buffer_bounded [OF demo_run_def] by blast

text \<open>
  Raw off ships zero raw lines. In every run the raw queue holds at most 5000 lines, and while
  no raw source is set it is empty, no drop is owed and nothing is sent, so lines queued before
  the switch was turned off never leave later.
\<close>

theorem raw_off_ships_nothing:
  assumes "c = foldl (collector_step env) (newTraceCollector cfg t) ops"
  shows "length (c_rawQueue c) \<le> 5000 \<and>
    (c_rawSourceID c = [] \<longrightarrow> c_rawQueue c = [] \<and> c_rawDropped c = 0 \<and> raw_batch_of now c = None)"
proof -
  have "raw_ok c" unfolding assms
    by (rule raws.shared_runs.run_inv) (simp add: raw_ok_def newTraceCollector_def)
  then show ?thesis by (simp add: raw_ok_def raw_batch_of_def traceRawQueueMax_def)
qed

lemma demo_up_raw: "c_rawSourceID (demo_up r) = trim_space r"
proof -
  let ?c1 = "noteDiscovery demo_env 1 [] (record_config demo_env 1 (demo_cf r) (newTraceCollector demo_agent 1))"
  have "demo_up r = apply_addr demo_env 1 0 sample_fs ''127.0.0.1:9090'' ClashAddrFromPolicy ''/s'' ''info'' ?c1"
    by (simp add: demo_up_def collector_step_def newTraceCollector_def applyConfig_def demo_facts demo_addr Let_def)
  then have "shared (demo_up r) = shared ?c1" by (simp only: shared_addr)
  moreover have "c_rawSourceID (record_config demo_env 1 (demo_cf r) c) = trim_space r" for c
  proof -
    have "shared (setLineBudget n d) = shared d" for n d by simp
    then have "c_rawSourceID (setLineBudget n d) = c_rawSourceID d" for n d by (simp add: shared_def)
    then show ?thesis
      by (simp add: record_config_def Let_def setRawSourceLocked_def effectiveRawSourceID_def demo_cf_def)
  qed
  ultimately show ?thesis using shared_simps(6) [of demo_env 1 "[]"] by (simp add: shared_def)
qed

theorem raw_off_ships_nothing_witness:
  "c_rawQueue (demo_up []) = [] \<and> c_rawDropped (demo_up []) = 0 \<and> raw_batch_of 5 (demo_up []) = None"
  using raw_off_ships_nothing [OF demo_up_def, of "[]" 5] demo_up_raw [of "[]"] by simp

text \<open>
  C11. The pipeline is the composition of its parts. In every run of the collector, the assembler,
  the guard and the shipper of each pipeline are in states their own components reach, so what
  holds of the components holds of them; the records the assembler gave out are the ones the
  shipper was handed; and what the server accepted, followed by the batch on the wire and the
  queue, is a subsequence of them, each a well-formed record of this node.
\<close>

theorem pipeline_composes:
  fixes c :: collector
  assumes "c = foldl (collector_step env) (newTraceCollector cfg t) ops" "p < length (c_pipes c)"
    and "pl = c_pipes c ! p"
  shows "\<exists>g. asm_runs (pl_asm pl) (led_records g) \<and> guard_runs (pl_guard pl) \<and>
    ship_runs (pl_shipper pl) (pl_batch pl) g \<and>
    subseq (led_sent_records g @ sh_inflightRecords (pl_shipper pl) @ sh_records (pl_shipper pl)) (led_records g) \<and>
    (\<forall>rc \<in> set (led_records g). record_ok (op_NodeID (as_opts (pl_asm pl))) rc)"
proof -
  have "parts_ok pl" using parts.every_pipeline [of p env cfg t ops] assms by simp
  then obtain g where g: "asm_runs (pl_asm pl) (led_records g)" "guard_runs (pl_guard pl)"
    "ship_runs (pl_shipper pl) (pl_batch pl) g" by (auto simp: parts_ok_def)
  then obtain scfg where "ship_reach scfg (pl_shipper pl) (pl_batch pl) g" by (auto simp: ship_runs_def)
  then have "subseq (led_sent_records g @ sh_inflightRecords (pl_shipper pl) @ sh_records (pl_shipper pl)) (led_records g)"
    using ship_reach_inv by (auto simp: ship_inv_def ship_shape_def)
  moreover have "record_ok (op_NodeID (as_opts (pl_asm pl))) rc" if "rc \<in> set (led_records g)" for rc
    using g(1) that asm_invD(7) [OF run_reaches, of "pl_asm pl" "led_records g"] by (auto simp: asm_runs_def)
  ultimately show ?thesis using g by blast
qed

theorem pipeline_composes_witness:
  "\<exists>g. asm_runs (pl_asm (c_pipes demo_run ! 0)) (led_records g) \<and>
     ship_runs (pl_shipper (c_pipes demo_run ! 0)) (pl_batch (c_pipes demo_run ! 0)) g"
  using pipeline_composes [OF demo_run_def _ refl, of 0] demo_run_state(1) by auto

text \<open>
  C12. Bounded memory on the node. In every run, each pipeline tracks at most 4096 connections,
  remembers at most 4096 finished and 65536 shed ids, queues at most 5000 records and lines
  together, and has at most 200 records and 500 lines on the wire.
\<close>

theorem pipeline_memory_bounded:
  fixes c :: collector
  assumes "c = foldl (collector_step env) (newTraceCollector cfg t) ops" "p < length (c_pipes c)"
    and "pl = c_pipes c ! p"
  shows "length (as_open (pl_asm pl)) \<le> 4096 \<and> card {i. done_has (as_done (pl_asm pl)) i} \<le> 4096 \<and>
    card {i. shed_has (gd_shed (pl_guard pl)) i} \<le> 65536 \<and>
    length (sh_records (pl_shipper pl)) + length (sh_lines (pl_shipper pl)) \<le> 5000 \<and>
    length (sh_inflightRecords (pl_shipper pl)) \<le> 200 \<and> length (sh_inflightLines (pl_shipper pl)) \<le> 500"
proof -
  have "parts_ok pl" using parts.every_pipeline [of p env cfg t ops] assms by simp
  then obtain g where g: "asm_runs (pl_asm pl) (led_records g)" "guard_runs (pl_guard pl)"
    "ship_runs (pl_shipper pl) (pl_batch pl) g" by (auto simp: parts_ok_def)
  have "asm_inv None (led_records g) (pl_asm pl)" using g(1) run_reaches by (auto simp: asm_runs_def)
  note D = asm_invD [OF this]
  have "card {i. done_has (as_done (pl_asm pl)) i} \<le> nat defaultMaxOpen"
    using dones.marks_bounded(2) [OF D(3)] D(4) asm_runs_opts [OF g(1)] by simp
  moreover obtain scfg where s: "cfg_MaxPending scfg = 0" "cfg_MaxBatchRecords scfg = 0" "cfg_MaxBatchLines scfg = 0"
    "ship_reach scfg (pl_shipper pl) (pl_batch pl) g" using g(3) by (auto simp: ship_runs_def)
  then have "ship_limits (pl_shipper pl) = (defaultMaxPending, defaultMaxBatchRecords, defaultMaxBatchLines)"
    using ship_reach_limits [OF s(4)] by (simp add: ship_limits_def new_shipper_def)
  ultimately show ?thesis
    using D(5) asm_runs_opts [OF g(1)] guard_runs_bounded [OF g(2)] ship_reach_inv [OF s(4)]
    by (auto simp: defaultMaxOpen_def DefaultRingCapacity_def ship_inv_def ship_shape_def total_queued_def ship_limits_def
        defaultMaxPending_def defaultMaxBatchRecords_def defaultMaxBatchLines_def)
qed

theorem pipeline_memory_bounded_witness:
  "length (as_open (pl_asm (c_pipes demo_run ! 0))) \<le> 4096 \<and>
   length (sh_records (pl_shipper (c_pipes demo_run ! 0))) + length (sh_lines (pl_shipper (c_pipes demo_run ! 0))) \<le> 5000"
  using pipeline_memory_bounded [OF demo_run_def _ refl, of 0] demo_run_state(1) by auto

text \<open>
  A configuration takes effect, and only as far as it must. After \<open>applyConfig\<close> the policy in
  force is the one built from the configuration. When it asks for nothing, no pipeline is up and
  the state is off. A pipeline that is up has its log stream subscribed at exactly the level the
  policy asks for; when the policy asks for something and no pipeline is up, the state says that
  the secret or the API is missing. And a running pipeline whose address did not change, or
  could not be read this time, stays up with every connection its assembler holds.
\<close>

theorem apply_config_settles:
  fixes c c' :: collector
  assumes lv: "levels_ok (ev_levels env)"
    and c': "c' = applyConfig env now euid fs cf c"
    and pol: "pol = policy_Build (ev_levels env) (cf_agent cf) now"
    and d: "d = resolveAddr (ev_loopback env) (ev_quote env) (ev_config env) euid fs (c_configPath c)
      (cf_ClashAPIAddr cf)"
  shows "c_policy c' = pol \<and>
    (\<not> policy_Enabled pol \<longrightarrow> c_pipe c' = None \<and> cs_State (c_status c') = CollectorOff) \<and>
    (c_pipe c' \<noteq> None \<longrightarrow> c_haveLevel c' = subscribeLevel (ev_levels env) pol) \<and>
    (policy_Enabled pol \<and> c_pipe c' = None \<longrightarrow>
       cs_State (c_status c') \<in> {CollectorSecretUnreadable, CollectorNoClashAPI}) \<and>
    (\<forall>p. policy_Enabled pol \<and> c_pipe c = Some p \<and>
       (dc_addr d = [] \<and> dc_transient d \<or> dc_addr d \<noteq> [] \<and> dc_addr d = c_addr c) \<longrightarrow>
       c_pipe c' = Some p \<and> map pl_asm (c_pipes c') = map pl_asm (c_pipes c))"
  using apply_config_core [OF lv c' pol d] .

theorem apply_config_settles_witness:
  "c_pipe (applyConfig demo_env 1 0 sample_fs (demo_cf []) (demo_up [])) = Some 0 \<and>
   c_policy (applyConfig demo_env 1 0 sample_fs (demo_cf []) (newTraceCollector demo_agent 1)) =
     policy_Build sample_levels (cf_agent (demo_cf [])) 1"
proof -
  have up: "c_addr (demo_up []) = ''127.0.0.1:9090''" "c_pipe (demo_up []) = Some 0"
    using demo_up_pipes [of "[]"] by auto
  show ?thesis
    using apply_config_settles [of demo_env _ 1 0 sample_fs "demo_cf []" "demo_up []", OF _ refl refl refl]
      apply_config_settles [of demo_env _ 1 0 sample_fs "demo_cf []" "newTraceCollector demo_agent 1", OF _ refl refl refl]
      up demo_facts(1) [of "[]"]
    by (simp add: sample_levels_ok demo_addr)
qed

text \<open>
  What the parts lost is reported with the next tick. The report of \<open>driveAssembler\<close> adds to
  the losses owed to the server exactly the lines and connections the guard shed since it was
  last asked, and the connections the assembler dropped or left partial since the last report,
  and to the unparsed count the lines that did not parse; afterwards the guard and the collector
  owe nothing and remember the assembler's counts.
\<close>

theorem tick_forwards_losses:
  fixes c c' :: collector
  assumes p: "p < length (c_pipes c)"
    and pl: "pl = c_pipes c ! p" and c': "c' = drive_report env now p c" and pl': "pl' = c_pipes c' ! p"
  shows "sh_dropped (pl_shipper pl') = sh_dropped (pl_shipper pl) + gd_shedN (pl_guard pl) + gd_droppedN (pl_guard pl)
      + (asm_stats.st_Dropped (as_stats (pl_asm pl)) - c_lastAsmDropped c)
      + (asm_stats.st_Partial (as_stats (pl_asm pl)) - c_lastAsmPartial c) \<and>
    sh_shed (pl_shipper pl') = sh_shed (pl_shipper pl) + gd_shedN (pl_guard pl) \<and>
    sh_unparsed (pl_shipper pl') = sh_unparsed (pl_shipper pl) + c_unparsed c \<and>
    gd_shedN (pl_guard pl') = 0 \<and> gd_droppedN (pl_guard pl') = 0 \<and> c_unparsed c' = 0 \<and>
    c_shedTotal c' = c_shedTotal c + gd_shedN (pl_guard pl) \<and>
    c_lastAsmDropped c' = asm_stats.st_Dropped (as_stats (pl_asm pl')) \<and>
    c_lastAsmPartial c' = asm_stats.st_Partial (as_stats (pl_asm pl')) \<and>
    sh_records (pl_shipper pl') = sh_records (pl_shipper pl) \<and> sh_lines (pl_shipper pl') = sh_lines (pl_shipper pl)"
  using p unfolding pl' c' pl drive_report_eq by (simp add: guard_take_def add_ac)

theorem tick_forwards_losses_witness:
  "c_unparsed (drive_report demo_env 4 0 demo_run) = 0 \<and>
   sh_unparsed (pl_shipper (c_pipes (drive_report demo_env 4 0 demo_run) ! 0)) =
     sh_unparsed (pl_shipper (c_pipes demo_run ! 0)) + c_unparsed demo_run"
  using tick_forwards_losses [OF _ refl refl refl, of 0 demo_run demo_env 4] demo_run_state(1) by simp


definition demo_capture :: collector_config where
  "demo_capture = (demo_cf [])\<lparr>cf_agent := \<lparr>ac_Policy = \<lparr>tp_Enabled = True, tp_Level = ''info''\<rparr>,
     ac_Sessions = [sample_session]\<rparr>\<rparr>"



abbreviation demo_line :: log_line where
  "demo_line \<equiv> (blank_line 1 [] [])\<lparr>ln_HasLogID := True, ln_LogID := 7\<rparr>"

abbreviation matched :: "string list \<Rightarrow> decision" where
  "matched ss \<equiv> \<lparr>de_Keep = ss \<noteq> [], de_SessionIDs = ss, de_Level = []\<rparr>"

lemma demo_up_unclaimed: "c_tagged (demo_up r) = Map.empty \<and> c_pending (demo_up r) = Map.empty"
proof -
  let ?c1 = "noteDiscovery demo_env 1 [] (record_config demo_env 1 (demo_cf r) (newTraceCollector demo_agent 1))"
  have "demo_up r = apply_addr demo_env 1 0 sample_fs ''127.0.0.1:9090'' ClashAddrFromPolicy ''/s'' ''info'' ?c1"
    by (simp add: demo_up_def collector_step_def newTraceCollector_def applyConfig_def demo_facts demo_addr Let_def)
  then have "shared (demo_up r) = shared (record_config demo_env 1 (demo_cf r) (newTraceCollector demo_agent 1))"
    by simp
  then show ?thesis
    by (simp add: shared_def record_config_def setRawSourceLocked_def setLineBudget_def newTraceCollector_def Let_def)
qed


text \<open>
  A raw flush removes exactly what it sent. A batch holds the whole queue of its instant.
  Whatever lines are offered and however the switch is turned while it is on the wire, with no
  second flush and fewer than \<open>2 ^ 64\<close> of these, the answer never panics; if the queue was not
  discarded meanwhile, the lines sent are its head and exactly they are removed, and if it was,
  nothing that came later is touched.
\<close>

theorem raw_flush_exact:
  fixes c c' :: collector
  assumes b: "raw_batch_of now c = Some b" and c': "c' = foldl raw_change c xs" and few: "length xs < 2 ^ 64"
  shows "rb_Lines b = c_rawQueue c \<and>
    (if c_rawEpoch c' = rb_epoch b
     then \<exists>extra c''. c_rawQueue c' = rb_Lines b @ extra \<and> trim_raw b c' = Some c'' \<and> c_rawQueue c'' = extra
     else trim_raw b c' = Some c')"
proof -
  have eq: "rb_Lines b = c_rawQueue c" "rb_epoch b = c_rawEpoch c"
    using b by (auto simp: raw_batch_of_def split: if_splits)
  obtain k where k: "k \<le> length xs" "c_rawEpoch c' = c_rawEpoch c + word_of_nat k" "k = 0 \<longrightarrow> prefix (c_rawQueue c) (c_rawQueue c')"
    using raw_changes [of c "c_rawEpoch c" 0 "c_rawQueue c" xs] unfolding c' by auto
  show ?thesis
  proof (cases "c_rawEpoch c' = rb_epoch b")
    case True
    then have "word_of_nat k = (0 :: 64 word)" using k(2) eq by simp
    then have "2 ^ 64 dvd k" by (simp add: word_of_nat_eq_0_iff)
    then have "k = 0" using k(1) few by (metis dvd_imp_le gr0I le_trans not_le)
    then obtain extra where "c_rawQueue c' = rb_Lines b @ extra" using k(3) eq by (auto simp: prefix_def)
    then show ?thesis using True eq by (auto simp: trim_raw_def)
  next
    case False
    then show ?thesis using eq by (simp add: trim_raw_def)
  qed
qed

definition demo_raw :: collector where
  "demo_raw = (newTraceCollector demo_agent 1)\<lparr>c_rawSourceID := ''r'', c_rawQueue := [''a'']\<rparr>"

theorem raw_flush_exact_witness:
  "\<exists>extra c''. c_rawQueue (foldl raw_change demo_raw [Inl (True, ''b'')]) = [''a''] @ extra \<and>
     trim_raw (the (raw_batch_of 5 demo_raw)) (foldl raw_change demo_raw [Inl (True, ''b'')]) = Some c'' \<and>
     c_rawQueue c'' = extra"
proof -
  have b: "raw_batch_of 5 demo_raw = Some (the (raw_batch_of 5 demo_raw))"
    by (simp add: raw_batch_of_def demo_raw_def)
  have "c_rawEpoch (foldl raw_change demo_raw [Inl (True, ''b'')]) = rb_epoch (the (raw_batch_of 5 demo_raw))"
    "rb_Lines (the (raw_batch_of 5 demo_raw)) = [''a'']"
    by (simp_all add: raw_batch_of_def demo_raw_def raw_change_def offer_raw_def)
  then show ?thesis using raw_flush_exact [OF b refl, of "[Inl (True, ''b'')]"] by auto
qed


definition demo_twice :: collector where
  "demo_twice = demo_raw\<lparr>c_pipes := [new_pipeline demo_agent 1 0 ''127.0.0.1:9090'' [],
     new_pipeline demo_agent 1 0 ''127.0.0.1:9091'' []], c_pipe := Some 1\<rparr>"



definition demo_lossy :: collector where
  "demo_lossy = (newTraceCollector demo_agent 1)\<lparr>c_lastAsmDropped := 3\<rparr>"


end
