(* ===== verification/Beacon_Guard.thy ===== *)
theory Beacon_Guard
  imports Go_Prelude
begin

text \<open>
  The pre-authentication guard and the circuit breaker of the measurement beacon
  (\<open>src/internal/beacon/guard.go\<close>). Both count nanoseconds since the receive loop started. The
  seeded hash \<open>maphash.Bytes\<close> is the parameter \<open>hash\<close>; an address is its 16 bytes.

  The guard's counters stay within its budgets; the breaker, which keeps a minute of history in
  the bits of one word, is shown to open exactly when the plain definition over the datagrams of
  the last minute says so.
\<close>

unbundle bit_operations_syntax

section \<open>Definitions\<close>

subsection \<open>The guard\<close>

definition guardGlobalPerSecond :: "32 word" where "guardGlobalPerSecond = 20000"
definition guardBuckets :: nat where "guardBuckets = 1024"
definition guardPerBucketPerSecond :: "32 word" where "guardPerBucketPerSecond = 1000"

datatype guard_verdict = guardAllow | guardBucketFull | guardGlobalFull

record beacon_guard =
  bg_sec :: int
  bg_total :: "32 word"
  bg_buckets :: "32 word list"

definition newGuard :: beacon_guard where
  "newGuard = \<lparr>bg_sec = 0, bg_total = 0, bg_buckets = replicate guardBuckets 0\<rparr>"

definition bucket_of :: "(string \<Rightarrow> 64 word) \<Rightarrow> string \<Rightarrow> nat" where
  "bucket_of hash sender = unat (hash sender AND word_of_nat (guardBuckets - 1))"

definition allow ::
  "(string \<Rightarrow> 64 word) \<Rightarrow> string \<Rightarrow> int \<Rightarrow> beacon_guard \<Rightarrow> beacon_guard \<times> guard_verdict" where
  "allow hash sender nowNs g =
     (let sec = go_div nowNs second;
          g = (if sec \<noteq> bg_sec g
               then g\<lparr>bg_buckets := replicate (length (bg_buckets g)) 0, bg_total := 0, bg_sec := sec\<rparr>
               else g)
      in if bg_total g \<ge> guardGlobalPerSecond then (g, guardGlobalFull)
         else
           let g = g\<lparr>bg_total := bg_total g + 1\<rparr>;
               i = bucket_of hash sender
           in if bg_buckets g ! i \<ge> guardPerBucketPerSecond then (g, guardBucketFull)
              else (g\<lparr>bg_buckets := (bg_buckets g)[i := bg_buckets g ! i + 1]\<rparr>, guardAllow))"

definition guard_full :: "int \<Rightarrow> beacon_guard \<Rightarrow> bool" where
  "guard_full nowNs g \<longleftrightarrow> go_div nowNs second = bg_sec g \<and> bg_total g \<ge> guardGlobalPerSecond"

subsection \<open>The breaker\<close>

definition breakerDropsPerSecond :: "32 word" where
  "breakerDropsPerSecond = guardGlobalPerSecond div 4"
definition breakerWindowSeconds :: nat where "breakerWindowSeconds = 60"
definition breakerHotSeconds :: nat where "breakerHotSeconds = 54"
definition breakerCooldown :: duration where "breakerCooldown = 5 * minute"

record breaker =
  br_started :: bool
  br_sec :: int
  br_drops :: "32 word"
  br_saturated :: bool
  br_hot :: "64 word"

definition new_breaker :: breaker where
  "new_breaker = \<lparr>br_started = False, br_sec = 0, br_drops = 0, br_saturated = False, br_hot = 0\<rparr>"

definition isHot :: "breaker \<Rightarrow> bool" where
  "isHot b \<longleftrightarrow> br_saturated b \<or> br_drops b \<ge> breakerDropsPerSecond"

definition advance :: "int \<Rightarrow> breaker \<Rightarrow> breaker" where
  "advance nowSec b =
     (if br_started b \<and> nowSec \<le> br_sec b then b
      else
        let b = (if br_started b then
                   let b1 = b\<lparr>br_hot := push_bit 1 (br_hot b) OR (if isHot b then 1 else 0)\<rparr>;
                       gap = nowSec - br_sec b1 - 1
                   in if gap \<ge> 64 then b1\<lparr>br_hot := 0\<rparr>
                      else if gap > 0 then b1\<lparr>br_hot := push_bit (nat gap) (br_hot b1)\<rparr>
                      else b1
                 else b)
        in b\<lparr>br_started := True, br_sec := nowSec, br_drops := 0, br_saturated := False\<rparr>)"

definition record_datagram :: "int \<Rightarrow> bool \<Rightarrow> breaker \<Rightarrow> breaker" where
  "record_datagram nowNs dropped b =
     (let b = advance (go_div nowNs second) b
      in if dropped \<and> br_drops b < - 1 then b\<lparr>br_drops := br_drops b + 1\<rparr> else b)"

definition saturate :: "int \<Rightarrow> breaker \<Rightarrow> breaker" where
  "saturate nowNs b = (advance (go_div nowNs second) b)\<lparr>br_saturated := True\<rparr>"

text \<open>\<open>bits.OnesCount64\<close>.\<close>

definition ones_count :: "64 word \<Rightarrow> nat" where
  "ones_count w = length (filter (bit w) [0..<64])"

definition breaker_open :: "breaker \<Rightarrow> bool" where
  "breaker_open b =
     (let closed = breakerWindowSeconds - 1;
          window = br_hot b AND (push_bit closed 1 - 1)
      in if window AND push_bit (closed - 1) 1 = 0 then False
         else ones_count window + (if isHot b then 1 else 0) \<ge> breakerHotSeconds)"

definition hotSeconds :: "breaker \<Rightarrow> nat" where
  "hotSeconds b =
     ones_count (br_hot b AND (push_bit (breakerWindowSeconds - 1) 1 - 1)) + (if isHot b then 1 else 0)"

subsection \<open>The plain definition of a flood\<close>

text \<open>What the loop tells the breaker of the datagrams, in order.\<close>

datatype breaker_op = Datagram int bool | Saturated int

fun op_sec :: "breaker_op \<Rightarrow> int" where
  "op_sec (Datagram now dropped) = go_div now second"
| "op_sec (Saturated now) = go_div now second"

fun breaker_step :: "breaker \<Rightarrow> breaker_op \<Rightarrow> breaker" where
  "breaker_step b (Datagram now dropped) = record_datagram now dropped b"
| "breaker_step b (Saturated now) = saturate now b"

definition dropped_in :: "int \<Rightarrow> breaker_op list \<Rightarrow> nat" where
  "dropped_in s ops = length (filter (\<lambda>op. op_sec op = s \<and> (\<exists>now. op = Datagram now True)) ops)"

definition hot_second :: "breaker_op list \<Rightarrow> int \<Rightarrow> bool" where
  "hot_second ops s \<longleftrightarrow>
     (\<exists>op \<in> set ops. op_sec op = s \<and> (\<exists>now. op = Saturated now)) \<or>
     dropped_in s ops \<ge> unat breakerDropsPerSecond"

text \<open>The last minute, ending with second \<open>s\<close>, is a flood.\<close>

definition flood :: "breaker_op list \<Rightarrow> int \<Rightarrow> bool" where
  "flood ops s \<longleftrightarrow>
     hot_second ops (s - 59) \<and> card {t \<in> {s - 59..s}. hot_second ops t} \<ge> breakerHotSeconds"

text \<open>What the guard let through.\<close>

fun allowed_from ::
  "(string \<Rightarrow> 64 word) \<Rightarrow> (string \<Rightarrow> bool) \<Rightarrow> beacon_guard \<Rightarrow> (string \<times> int) list \<Rightarrow> nat" where
  "allowed_from hash P g [] = 0"
| "allowed_from hash P g ((sender, now) # ds) =
     (if P sender \<and> snd (allow hash sender now g) = guardAllow then 1 else 0) +
     allowed_from hash P (fst (allow hash sender now g)) ds"

definition guard_after :: "(string \<Rightarrow> 64 word) \<Rightarrow> (string \<times> int) list \<Rightarrow> beacon_guard" where
  "guard_after hash ds = foldl (\<lambda>g (sender, now). fst (allow hash sender now g)) newGuard ds"

section \<open>Lemmas\<close>

subsection \<open>The guard\<close>

definition bguard_ok :: "beacon_guard \<Rightarrow> bool" where
  "bguard_ok g \<longleftrightarrow> length (bg_buckets g) = guardBuckets \<and> bg_total g \<le> guardGlobalPerSecond \<and>
     (\<forall>n \<in> set (bg_buckets g). n \<le> guardPerBucketPerSecond)"

lemma bucket_of_less: "bucket_of hash sender < guardBuckets"
proof -
  have "hash sender AND 1023 \<le> 1023" by (rule word_and_le1)
  then have "unat (hash sender AND 1023) \<le> 1023" by (simp add: word_le_nat_alt)
  then show ?thesis by (simp add: bucket_of_def guardBuckets_def)
qed

text \<open>The guard as the second of a datagram begins, and what it then does.\<close>

definition in_second :: "int \<Rightarrow> beacon_guard \<Rightarrow> beacon_guard" where
  "in_second sec g =
     (if sec \<noteq> bg_sec g
      then g\<lparr>bg_buckets := replicate (length (bg_buckets g)) 0, bg_total := 0, bg_sec := sec\<rparr>
      else g)"

lemma in_second_ok: "bguard_ok g \<Longrightarrow> bguard_ok (in_second s g)"
  by (auto simp: bguard_ok_def in_second_def guardPerBucketPerSecond_def)

lemma in_second_sec [simp]: "bg_sec (in_second s g) = s" "in_second s (in_second s g) = in_second s g"
  by (simp_all add: in_second_def)

lemma allow_eq:
  "allow hash sender now g =
     (let g1 = in_second (go_div now second) g; i = bucket_of hash sender
      in if bg_total g1 = guardGlobalPerSecond \<or> bg_total g1 > guardGlobalPerSecond then (g1, guardGlobalFull)
         else if bg_buckets g1 ! i \<ge> guardPerBucketPerSecond then (g1\<lparr>bg_total := bg_total g1 + 1\<rparr>, guardBucketFull)
         else (g1\<lparr>bg_total := bg_total g1 + 1, bg_buckets := (bg_buckets g1)[i := bg_buckets g1 ! i + 1]\<rparr>, guardAllow))"
  by (auto simp: allow_def in_second_def Let_def order_le_less)

lemma word_suc_le: "w < n \<Longrightarrow> w + 1 \<le> n" "w < n \<Longrightarrow> unat (w + 1) = Suc (unat w)" for w n :: "32 word"
proof -
  assume w: "w < n"
  have "1 + w \<noteq> 0"
  proof
    assume "1 + w = 0"
    then have "w = - 1" by (metis add.commute eq_neg_iff_add_eq_0)
    then show False using w word_n1_ge [of n] by simp
  qed
  from unatSuc [OF this] show "unat (w + 1) = Suc (unat w)" by (simp add: add.commute)
  then show "w + 1 \<le> n" using w by (simp add: word_le_nat_alt word_less_nat_alt)
qed

lemma allow_ok:
  assumes ok: "bguard_ok g"
  shows "bguard_ok (fst (allow hash sender now g))"
proof -
  define g1 where "g1 = in_second (go_div now second) g"
  have g1: "bguard_ok g1" using in_second_ok [OF ok] by (simp add: g1_def)
  then have "n \<le> guardPerBucketPerSecond"
    if "n \<in> set ((bg_buckets g1)[i := bg_buckets g1 ! i + 1])" "bg_buckets g1 ! i < guardPerBucketPerSecond" for n i
    using set_update_subset_insert [of "bg_buckets g1" i "bg_buckets g1 ! i + 1"] that word_suc_le(1)
    by (auto simp: bguard_ok_def)
  then show ?thesis using g1 word_suc_le(1)
    by (auto simp: allow_eq Let_def bguard_ok_def not_le simp flip: g1_def)
qed

lemma guard_after_ok: "bguard_ok (guard_after hash ds)"
proof -
  have "bguard_ok (foldl (\<lambda>g (sender, now). fst (allow hash sender now g)) g ds)" if "bguard_ok g" for g
    using that by (induction ds arbitrary: g) (auto simp: allow_ok)
  moreover have "bguard_ok newGuard"
    by (simp add: newGuard_def bguard_ok_def)
  ultimately show ?thesis by (simp add: guard_after_def)
qed

lemma allowed_total:
  assumes "bguard_ok g" "\<forall>(sender, now) \<in> set ds. go_div now second = s"
  shows "allowed_from hash P g ds + unat (bg_total (in_second s g)) \<le> unat guardGlobalPerSecond"
  using assms
proof (induction ds arbitrary: g)
  case Nil
  then show ?case using in_second_ok [of g s] by (simp add: bguard_ok_def word_le_nat_alt)
next
  case (Cons d ds)
  obtain sender now where d: "d = (sender, now)" by (cases d)
  define g1 where "g1 = in_second s g"
  have s: "go_div now second = s" using Cons.prems d by simp
  let ?g = "fst (allow hash sender now g)"
  have IH: "allowed_from hash P ?g ds + unat (bg_total (in_second s ?g)) \<le> unat guardGlobalPerSecond"
    using Cons.IH [OF allow_ok [OF Cons.prems(1)]] Cons.prems(2) by simp
  have keep: "in_second s ?g = ?g" using s by (auto simp: allow_eq Let_def in_second_def)
  show ?case
  proof (cases "bg_total g1 \<ge> guardGlobalPerSecond")
    case True
    then have "allow hash sender now g = (g1, guardGlobalFull)" using s by (auto simp: allow_eq Let_def g1_def)
    then show ?thesis using IH keep d by (simp flip: g1_def)
  next
    case False
    then have "unat (bg_total ?g) = Suc (unat (bg_total g1))"
      using s word_suc_le(2) [of "bg_total g1" guardGlobalPerSecond] by (auto simp: allow_eq Let_def simp flip: g1_def)
    then show ?thesis using IH keep d by (simp flip: g1_def)
  qed
qed

lemma allowed_bucket:
  assumes "bguard_ok g" "\<forall>(sender, now) \<in> set ds. go_div now second = s" "k < guardBuckets"
    and P: "\<And>sender. P sender \<Longrightarrow> bucket_of hash sender = k"
  shows "allowed_from hash P g ds + unat (bg_buckets (in_second s g) ! k) \<le> unat guardPerBucketPerSecond"
  using assms(1,2)
proof (induction ds arbitrary: g)
  case Nil
  then show ?case using in_second_ok [of g s] assms(3) by (simp add: bguard_ok_def word_le_nat_alt)
next
  case (Cons d ds)
  obtain sender now where d: "d = (sender, now)" by (cases d)
  define g1 where "g1 = in_second s g"
  have g1: "bguard_ok g1" using in_second_ok [OF Cons.prems(1)] by (simp add: g1_def)
  have s: "go_div now second = s" using Cons.prems d by simp
  let ?g = "fst (allow hash sender now g)" and ?i = "bucket_of hash sender"
  have IH: "allowed_from hash P ?g ds + unat (bg_buckets (in_second s ?g) ! k) \<le> unat guardPerBucketPerSecond"
    using Cons.IH [OF allow_ok [OF Cons.prems(1)]] Cons.prems(2) by simp
  have keep: "in_second s ?g = ?g" using s by (auto simp: allow_eq Let_def in_second_def)
  have a: "allow hash sender now g =
      (if bg_total g1 \<ge> guardGlobalPerSecond then (g1, guardGlobalFull)
       else if bg_buckets g1 ! ?i \<ge> guardPerBucketPerSecond then (g1\<lparr>bg_total := bg_total g1 + 1\<rparr>, guardBucketFull)
       else (g1\<lparr>bg_total := bg_total g1 + 1, bg_buckets := (bg_buckets g1)[?i := bg_buckets g1 ! ?i + 1]\<rparr>, guardAllow))"
    using s by (auto simp: allow_eq Let_def g1_def order_le_less)
  show ?case
  proof (cases "snd (allow hash sender now g) = guardAllow")
    case True
    then have "bg_buckets ?g = (bg_buckets g1)[?i := bg_buckets g1 ! ?i + 1]" "bg_buckets g1 ! ?i < guardPerBucketPerSecond"
      unfolding a by (auto split: if_splits)
    moreover have "?i < length (bg_buckets g1)" using g1 bucket_of_less by (simp add: bguard_ok_def)
    ultimately have "unat (bg_buckets ?g ! k) = unat (bg_buckets g1 ! k) + (if ?i = k then 1 else 0)"
      using word_suc_le(2) by (auto simp: nth_list_update)
    then show ?thesis using IH keep d P [of "sender"] True by (auto simp flip: g1_def)
  next
    case False
    then have "bg_buckets ?g = bg_buckets g1" unfolding a by (auto split: if_splits)
    then show ?thesis using IH keep d False by (simp flip: g1_def)
  qed
qed

text \<open>A sender within the budgets is not refused.\<close>

lemma seen_bounds:
  assumes "bguard_ok g" "\<forall>(sender, now) \<in> set ds. go_div now second = s" "k < guardBuckets"
    and "g' = foldl (\<lambda>g (sender, now). fst (allow hash sender now g)) g ds"
  shows "unat (bg_total (in_second s g')) \<le> unat (bg_total (in_second s g)) + length ds \<and>
    unat (bg_buckets (in_second s g') ! k) \<le>
      unat (bg_buckets (in_second s g) ! k) + length (filter (\<lambda>(sender, now). bucket_of hash sender = k) ds)"
  using assms(1,2,4)
proof (induction ds arbitrary: g)
  case (Cons d ds)
  obtain sender now where d: "d = (sender, now)" by (cases d)
  define g1 where "g1 = in_second s g"
  have g1: "bguard_ok g1" using in_second_ok [OF Cons.prems(1)] by (simp add: g1_def)
  have s: "go_div now second = s" using Cons.prems d by simp
  let ?g = "fst (allow hash sender now g)" and ?i = "bucket_of hash sender"
  have keep: "in_second s ?g = ?g" using s by (auto simp: allow_eq Let_def in_second_def)
  have IH: "unat (bg_total (in_second s g')) \<le> unat (bg_total ?g) + length ds \<and>
    unat (bg_buckets (in_second s g') ! k) \<le> unat (bg_buckets ?g ! k) + length (filter (\<lambda>(sender, now). bucket_of hash sender = k) ds)"
    using Cons.IH [OF allow_ok [OF Cons.prems(1), of hash sender now]] Cons.prems(2,3) d keep by simp
  have i: "?i < length (bg_buckets g1)" using g1 bucket_of_less by (simp add: bguard_ok_def)
  have "unat (bg_total ?g) \<le> unat (bg_total g1) + 1"
    using s word_suc_le(2) [of "bg_total g1" guardGlobalPerSecond] by (auto simp: allow_eq Let_def not_less order_le_less simp flip: g1_def)
  moreover have "unat (bg_buckets ?g ! k) \<le> unat (bg_buckets g1 ! k) + (if ?i = k then 1 else 0)"
    using s i word_suc_le(2) [of "bg_buckets g1 ! k" guardPerBucketPerSecond]
    by (auto simp: allow_eq Let_def nth_list_update not_le simp flip: g1_def)
  ultimately show ?case using IH d by (auto simp flip: g1_def)
qed simp

subsection \<open>The breaker\<close>

lemma dropped_in_snoc:
  "dropped_in s (ops @ [op]) = dropped_in s ops + (if op_sec op = s \<and> (\<exists>now. op = Datagram now True) then 1 else 0)"
  by (simp add: dropped_in_def)

lemma hot_second_elsewhere: "op_sec op \<noteq> s \<Longrightarrow> hot_second (ops @ [op]) s = hot_second ops s"
  by (auto simp: hot_second_def dropped_in_snoc)

lemma hot_second_none: "\<forall>op \<in> set ops. op_sec op \<noteq> s \<Longrightarrow> \<not> hot_second ops s"
proof -
  assume none: "\<forall>op \<in> set ops. op_sec op \<noteq> s"
  then have "dropped_in s ops = 0" by (auto simp: dropped_in_def filter_empty_conv)
  then show "\<not> hot_second ops s"
    using none by (auto simp: hot_second_def breakerDropsPerSecond_def guardGlobalPerSecond_def)
qed

text \<open>What the breaker remembers of the operations so far; \<open>ops\<close> come in the order of time.\<close>

definition breaker_knows :: "breaker_op list \<Rightarrow> breaker \<Rightarrow> bool" where
  "breaker_knows ops b \<longleftrightarrow>
     (if ops = [] then b = new_breaker
      else br_started b \<and> br_sec b = op_sec (last ops) \<and> (\<forall>op \<in> set ops. op_sec op \<le> br_sec b) \<and>
        unat (br_drops b) = min (2 ^ 32 - 1) (dropped_in (br_sec b) ops) \<and>
        (br_saturated b \<longleftrightarrow> (\<exists>op \<in> set ops. op_sec op = br_sec b \<and> (\<exists>now. op = Saturated now))) \<and>
        (\<forall>i < 64. bit (br_hot b) i \<longleftrightarrow> hot_second ops (br_sec b - 1 - int i)))"

lemma knowsD:
  assumes "breaker_knows ops b" "ops \<noteq> []"
  shows "br_started b" "br_sec b = op_sec (last ops)" "op \<in> set ops \<Longrightarrow> op_sec op \<le> br_sec b"
    "unat (br_drops b) = min (2 ^ 32 - 1) (dropped_in (br_sec b) ops)"
    "br_saturated b \<longleftrightarrow> (\<exists>op \<in> set ops. op_sec op = br_sec b \<and> (\<exists>now. op = Saturated now))"
    "i < 64 \<Longrightarrow> bit (br_hot b) i \<longleftrightarrow> hot_second ops (br_sec b - 1 - int i)"
proof -
  have ne: "ops = [] \<longleftrightarrow> False" using assms(2) by simp
  note k = assms(1) [unfolded breaker_knows_def ne if_False]
  from k show "br_started b" by blast
  from k show "br_sec b = op_sec (last ops)" by blast
  from k show "op \<in> set ops \<Longrightarrow> op_sec op \<le> br_sec b" by blast
  from k show "unat (br_drops b) = min (2 ^ 32 - 1) (dropped_in (br_sec b) ops)" by blast
  from k show "br_saturated b \<longleftrightarrow> (\<exists>op \<in> set ops. op_sec op = br_sec b \<and> (\<exists>now. op = Saturated now))" by (elim conjE)
  from k show "i < 64 \<Longrightarrow> bit (br_hot b) i \<longleftrightarrow> hot_second ops (br_sec b - 1 - int i)" by blast
qed

lemma isHot_knows: "breaker_knows ops b \<Longrightarrow> ops \<noteq> [] \<Longrightarrow> isHot b \<longleftrightarrow> hot_second ops (br_sec b)"
  by (auto simp: breaker_knows_def isHot_def hot_second_def word_le_nat_alt breakerDropsPerSecond_def guardGlobalPerSecond_def min_def)

lemma advance_hot:
  assumes k: "breaker_knows ops b" "ops \<noteq> []" and later: "br_sec b < s" and i: "i < 64"
  shows "bit (br_hot (advance s b)) i \<longleftrightarrow> hot_second ops (s - 1 - int i)"
proof -
  let ?gap = "s - br_sec b - 1"
  have started: "br_started b" using k by (simp add: breaker_knows_def)
  define h where "h = push_bit 1 (br_hot b) OR (if isHot b then 1 else 0)"
  have h: "bit h j \<longleftrightarrow> hot_second ops (br_sec b - int j)" if "j < 64" for j
  proof (cases j)
    case 0
    show ?thesis unfolding h_def bit_or_iff bit_push_bit_iff using isHot_knows [OF k] 0 by (simp add: bit_1_iff)
  next
    case (Suc j')
    have "bit h (Suc j') = bit (br_hot b) j'"
      unfolding h_def bit_or_iff bit_push_bit_iff using that Suc by (simp add: bit_1_iff)
    moreover have "br_sec b - int (Suc j') = br_sec b - 1 - int j'" by simp
    ultimately show ?thesis using k that Suc by (simp only: breaker_knows_def if_False)
  qed
  have hot: "br_hot (advance s b) = (if ?gap \<ge> 64 then 0 else push_bit (nat ?gap) h)"
    using started later by (simp add: advance_def Let_def flip: h_def) (simp add: h_def)
  have quiet: "\<not> hot_second ops (s - 1 - int i)" if "int i < ?gap"
    using that k by (intro hot_second_none) (force simp: breaker_knows_def)
  show ?thesis
  proof (cases "int i < ?gap")
    case True
    then show ?thesis using quiet by (auto simp: hot bit_simps)
  next
    case False
    then have g: "\<not> ?gap \<ge> 64" "nat ?gap \<le> i" "i - nat ?gap < 64" "br_sec b - int (i - nat ?gap) = s - 1 - int i"
      using i later by auto
    have "bit (push_bit (nat ?gap) h) i = bit h (i - nat ?gap)"
      using g(2) i by (simp add: bit_push_bit_iff)
    then show ?thesis using h [OF g(3)] g(1,4) by (simp only: hot if_False)
  qed
qed

lemma advance_knows:
  assumes k: "breaker_knows ops b" and order: "\<forall>o' \<in> set ops. op_sec o' \<le> s"
  shows "br_started (advance s b) \<and> br_sec (advance s b) = s \<and>
    unat (br_drops (advance s b)) = min (2 ^ 32 - 1) (dropped_in s ops) \<and>
    (br_saturated (advance s b) \<longleftrightarrow> (\<exists>o' \<in> set ops. op_sec o' = s \<and> (\<exists>now. o' = Saturated now))) \<and>
    (\<forall>i < 64. bit (br_hot (advance s b)) i \<longleftrightarrow> hot_second ops (s - 1 - int i))"
proof (cases "ops \<noteq> [] \<and> \<not> br_sec b < s")
  case True
  then have ne: "ops \<noteq> []" by simp
  note K = knowsD [OF k ne]
  have "op_sec (last ops) \<le> s" using order True last_in_set by blast
  then have s: "br_sec b = s" using K(2) True by linarith
  then have "advance s b = b" using K(1) by (simp add: advance_def)
  then show ?thesis using K(1,4,5,6) unfolding s by (simp add: s)
next
  case False
  then have none: "\<forall>o' \<in> set ops. op_sec o' \<noteq> s" using knowsD(3) [OF k] by force
  then have "dropped_in s ops = 0" by (auto simp: dropped_in_def filter_empty_conv)
  moreover have "br_started (advance s b) \<and> br_sec (advance s b) = s \<and> br_drops (advance s b) = 0 \<and> \<not> br_saturated (advance s b)"
    using False k by (auto simp: advance_def Let_def breaker_knows_def new_breaker_def)
  moreover have "bit (br_hot (advance s b)) i \<longleftrightarrow> hot_second ops (s - 1 - int i)" if "i < 64" for i
  proof (cases "ops = []")
    case True
    then show ?thesis using k hot_second_none [of "[]"] by (simp add: advance_def Let_def breaker_knows_def new_breaker_def)
  next
    case ne: False
    then show ?thesis using advance_hot [OF k ne _ that] False by simp
  qed
  ultimately show ?thesis using none by auto
qed

lemma unat_max32: "unat (- 1 :: 32 word) = 2 ^ 32 - 1"
  by (transfer, simp add: take_bit_minus_one_eq_mask mask_eq_exp_minus_1)

lemma knows_step:
  assumes k: "breaker_knows ops b" and order: "\<forall>o' \<in> set ops. op_sec o' \<le> op_sec op"
  shows "breaker_knows (ops @ [op]) (breaker_step b op)"
proof -
  note a = advance_knows [OF k order]
  have past: "hot_second (ops @ [op]) (op_sec op - 1 - int i) = hot_second ops (op_sec op - 1 - int i)" for i
    by (rule hot_second_elsewhere) simp
  show ?thesis
  proof (cases op)
    case (Saturated now)
    then show ?thesis using a past order by (auto simp: breaker_knows_def saturate_def dropped_in_snoc)
  next
    case (Datagram now dropped)
    let ?a = "advance (go_div now second) b"
    have "unat (br_drops (if dropped \<and> br_drops ?a < - 1 then ?a\<lparr>br_drops := br_drops ?a + 1\<rparr> else ?a)) =
      min (2 ^ 32 - 1) (dropped_in (op_sec op) (ops @ [op]))"
    proof (cases "dropped \<and> br_drops ?a < - 1")
      case True
      then have "unat (br_drops ?a) < 2 ^ 32 - 1" by (simp add: word_less_nat_alt unat_max32)
      then show ?thesis using True a Datagram word_suc_le(2) [of "br_drops ?a" "- 1"] by (auto simp: dropped_in_snoc)
    next
      case False
      then have "\<not> dropped \<or> unat (br_drops ?a) = 2 ^ 32 - 1"
        using word_n1_ge [of "br_drops ?a"] by (auto simp: unat_max32)
      then show ?thesis using False a Datagram by (auto simp: dropped_in_snoc)
    qed
    then show ?thesis using a past order Datagram by (auto simp: breaker_knows_def record_datagram_def Let_def)
  qed
qed

lemma run_knows: "sorted (map op_sec ops) \<Longrightarrow> breaker_knows ops (foldl breaker_step new_breaker ops)"
proof (induction ops rule: rev_induct)
  case (snoc op ops)
  then show ?case using knows_step [of ops "foldl breaker_step new_breaker ops" op] by (auto simp: sorted_append)
qed (simp add: breaker_knows_def)

text \<open>The bits of the word that the window covers, and the seconds they stand for.\<close>

lemma ones_count_card: "ones_count w = card {i. i < 64 \<and> bit w i}"
proof -
  have "ones_count w = card (set (filter (bit w) [0..<64]))"
    unfolding ones_count_def by (intro distinct_card [symmetric] distinct_filter distinct_upt)
  then show ?thesis by (simp add: conj_commute)
qed

lemma window_mask: "push_bit n 1 - 1 = (mask n :: 64 word)"
  by (simp add: mask_eq_exp_minus_1 push_bit_eq_mult)

lemma bit_window:
  "i < 64 \<Longrightarrow> bit (w AND (push_bit (breakerWindowSeconds - 1) 1 - 1)) i \<longleftrightarrow> bit w i \<and> i < 59" for w :: "64 word"
  unfolding window_mask bit_and_iff bit_mask_iff by (auto simp: breakerWindowSeconds_def)

lemma and_push: "w AND push_bit n 1 = 0 \<longleftrightarrow> \<not> bit w n" for w :: "64 word"
  unfolding push_bit_of_1 by (rule and_exp_eq_0_iff_not_bit)

lemma window_count:
  assumes "breaker_knows ops b" "ops \<noteq> []"
  shows "ones_count (br_hot b AND (push_bit (breakerWindowSeconds - 1) 1 - 1)) =
    card {t \<in> {br_sec b - 59..<br_sec b}. hot_second ops t}"
proof -
  define w where "w = br_hot b AND (push_bit (breakerWindowSeconds - 1) 1 - 1)"
  have w: "bit w i \<longleftrightarrow> i < 59 \<and> hot_second ops (br_sec b - 1 - int i)" if "i < 64" for i
    using bit_window [OF that, of "br_hot b"] knowsD(6) [OF assms that] unfolding w_def by blast
  have "bij_betw (\<lambda>i. br_sec b - 1 - int i) {i. i < 64 \<and> bit w i} {t \<in> {br_sec b - 59..<br_sec b}. hot_second ops t}"
    by (intro bij_betw_byWitness [where f' = "\<lambda>t. nat (br_sec b - 1 - t)"]) (auto simp: w)
  then show ?thesis unfolding w_def [symmetric] ones_count_card by (rule bij_betw_same_card)
qed

lemma open_knows:
  assumes k: "breaker_knows ops b" "ops \<noteq> []"
  shows "breaker_open b \<longleftrightarrow> flood ops (br_sec b)" and "hotSeconds b = card {t \<in> {br_sec b - 59..br_sec b}. hot_second ops t}"
proof -
  define H where "H = {t \<in> {br_sec b - 59..<br_sec b}. hot_second ops t}"
  have fin: "finite H" unfolding H_def by (rule finite_subset [OF _ finite_atLeastLessThan_int]) blast
  have "br_sec b \<notin> H" by (simp add: H_def)
  note fin = fin this
  have "{t \<in> {br_sec b - 59..br_sec b}. hot_second ops t} = (if hot_second ops (br_sec b) then insert (br_sec b) H else H)"
    by (auto simp: order_le_less H_def)
  then have n: "card {t \<in> {br_sec b - 59..br_sec b}. hot_second ops t} = card H + (if isHot b then 1 else 0)"
    using isHot_knows [OF k] fin by simp
  then show "hotSeconds b = card {t \<in> {br_sec b - 59..br_sec b}. hot_second ops t}"
    using window_count [OF k] by (simp add: hotSeconds_def H_def)
  have "breakerWindowSeconds - 1 - 1 = 58" by (simp add: breakerWindowSeconds_def)
  then have "(br_hot b AND (push_bit (breakerWindowSeconds - 1) 1 - 1)) AND push_bit (breakerWindowSeconds - 1 - 1) 1 = 0
      \<longleftrightarrow> \<not> hot_second ops (br_sec b - 59)"
    unfolding and_push using bit_window [of 58 "br_hot b"] knowsD(6) [OF k, of 58] by simp
  then show "breaker_open b \<longleftrightarrow> flood ops (br_sec b)"
    unfolding breaker_open_def Let_def flood_def n window_count [OF k] H_def by simp
qed

section \<open>Properties\<close>

text \<open>
  The guard's budgets. Whatever came before, of the datagrams of one second at most 20000 are
  let through together, and at most 1000 of any one address, indeed of any one bucket. And the
  budgets are not spent by others than those who use them: in a second that has just begun, a
  datagram is let through while fewer than 20000 datagrams were read and fewer than 1000 of its
  bucket.
\<close>

theorem guard_budgets:
  assumes g: "g = guard_after hash pre" and ds: "\<forall>(sender, now) \<in> set ds. go_div now second = s"
  shows "allowed_from hash (\<lambda>_. True) g ds \<le> 20000 \<and>
    allowed_from hash (\<lambda>a. bucket_of hash a = bucket_of hash sender) g ds \<le> 1000 \<and>
    (bg_sec g \<noteq> s \<and> go_div now second = s \<and> length ds < 20000 \<and>
       length (filter (\<lambda>(a, _). bucket_of hash a = bucket_of hash sender) ds) < 1000 \<longrightarrow>
     snd (allow hash sender now (guard_after hash (pre @ ds))) = guardAllow)"
proof -
  have ok: "bguard_ok g" unfolding g by (rule guard_after_ok)
  let ?k = "bucket_of hash sender"
  let ?g = "guard_after hash (pre @ ds)"
  have g': "?g = foldl (\<lambda>g (sender, now). fst (allow hash sender now g)) g ds"
    by (simp add: g guard_after_def)
  have "snd (allow hash sender now ?g) = guardAllow"
    if "bg_sec g \<noteq> s" "go_div now second = s" "length ds < 20000" "length (filter (\<lambda>(a, _). bucket_of hash a = ?k) ds) < 1000"
  proof -
    have "unat (bg_total (in_second s ?g)) < 20000" "unat (bg_buckets (in_second s ?g) ! ?k) < 1000"
      using seen_bounds [OF ok ds bucket_of_less [of hash sender] g'] that ok bucket_of_less [of hash sender]
      by (auto simp: in_second_def bguard_ok_def)
    then have "bg_total (in_second s ?g) < guardGlobalPerSecond" "bg_buckets (in_second s ?g) ! ?k < guardPerBucketPerSecond"
      by (simp_all add: word_less_nat_alt guardGlobalPerSecond_def guardPerBucketPerSecond_def)
    then show ?thesis using that(2) by (auto simp: allow_eq Let_def)
  qed
  then show ?thesis
    using allowed_total [OF ok ds, of hash "\<lambda>_. True"] allowed_bucket [OF ok ds bucket_of_less [of hash sender], of "\<lambda>a. bucket_of hash a = ?k" hash]
    by (auto simp: guardGlobalPerSecond_def guardPerBucketPerSecond_def)
qed

theorem guard_budgets_witness:
  "snd (allow (\<lambda>_. 7) ''a'' 1000000001 (guard_after (\<lambda>_. 7) ([] @ [(''b'', 1000000000)]))) = guardAllow"
  using guard_budgets [of newGuard "\<lambda>_. 7" "[]" "[(''b'', 1000000000)]" 1 "''a''" 1000000001]
  by (simp add: guard_after_def newGuard_def go_div_def)

text \<open>
  C22. The breaker opens on a flood and on nothing else. Fed with datagrams in the order of time, its
  state after the last one, a counter and one word of bits, says open exactly when the second of
  that datagram and the 59 before it hold at least 54 hot ones, the oldest included, where a
  second is hot when it had 5000 dropped datagrams or the guard's budget ran out in it.
\<close>

theorem breaker_opens_on_flood:
  assumes "sorted (map op_sec ops)" "ops \<noteq> []" "b = foldl breaker_step new_breaker ops"
  shows "(breaker_open b \<longleftrightarrow> flood ops (op_sec (last ops))) \<and>
    hotSeconds b = card {t \<in> {op_sec (last ops) - 59..op_sec (last ops)}. hot_second ops t}"
proof -
  have k: "breaker_knows ops b" unfolding assms(3) by (rule run_knows [OF assms(1)])
  then have "br_sec b = op_sec (last ops)" using assms(2) by (simp add: breaker_knows_def)
  then show ?thesis using open_knows [OF k assms(2)] by simp
qed

definition minute_of_flood :: "breaker_op list" where
  "minute_of_flood = map (\<lambda>k. Saturated (k * second)) [0..59]"

lemma minute_evaluates:
  "breaker_open (foldl breaker_step new_breaker minute_of_flood)" "sorted (map op_sec minute_of_flood)"
  "minute_of_flood \<noteq> []" "op_sec (last minute_of_flood) = 59"
  by code_simp+

theorem breaker_opens_on_flood_witness: "flood minute_of_flood 59"
  using breaker_opens_on_flood [OF minute_evaluates(2,3) refl] minute_evaluates(1,4) by simp

end
