(* ===== verification/Beacon_Responder.thy ===== *)
theory Beacon_Responder
  imports Beacon_Guard
begin

text \<open>
  The responder of the measurement beacon (\<open>src/internal/beacon/responder.go\<close>): the receive loop
  of one socket and the state machine that binds and closes sockets.

  The wire format and the decision core are the SDK's and parameters, with the core's state a type
  variable: \<open>be_handle\<close> is \<open>Handle\<close> (\<open>None\<close> for a panic), \<open>be_set_table\<close> is \<open>SetTable\<close>. Sockets are
  numbered in the order they are bound, and a \<open>socket\<close> pointer is its number. What the system
  answers to \<open>listen\<close>, \<open>read\<close> and \<open>write\<close> is an input of the steps.
\<close>

section \<open>Definitions\<close>

subsection \<open>Values\<close>

definition bindRetryInterval :: duration where "bindRetryInterval = minute"
definition maxErrorLen :: nat where "maxErrorLen = 200"
definition maxReadErrors :: nat where "maxReadErrors = 10"
definition verdictSlots :: nat where "verdictSlots = 16"

text \<open>
  An address is its four or sixteen bytes (\<open>netip.Addr\<close>, without zones, which a socket of the
  network udp4 does not see).
\<close>

datatype netip_addr = IPv4 string | IPv6 string

type_synonym addr_port = "netip_addr \<times> int"

definition v4_in_6_prefix :: string where
  "v4_in_6_prefix = replicate 10 (CHR 0x00) @ replicate 2 (CHR 0xff)"

fun as16 :: "netip_addr \<Rightarrow> string" where
  "as16 (IPv4 b) = v4_in_6_prefix @ b"
| "as16 (IPv6 b) = b"

fun unmap :: "netip_addr \<Rightarrow> netip_addr" where
  "unmap (IPv4 b) = IPv4 b"
| "unmap (IPv6 b) = (if take 12 b = v4_in_6_prefix then IPv4 (drop 12 b) else IPv6 b)"

datatype agent_state =
    BeaconAgentOff
  | BeaconAgentBindFailed
  | BeaconAgentCircuitOpen
  | BeaconAgentListening
  | BeaconAgentRefused

record table_key =
  tk_SourceID :: "32 word"
  tk_Epoch :: "32 word"
  tk_Key :: string
  tk_Retired :: bool

record responder_config =
  bc_Bind :: string
  bc_Port :: int
  bc_Table :: "table_key list"

record 'c beacon_env =
  be_new :: "gotime \<Rightarrow> 'c"
  be_set_table :: "table_key list \<Rightarrow> 'c \<Rightarrow> string + 'c"
  be_last_auth :: "'c \<Rightarrow> gotime"
  be_handle :: "gotime \<Rightarrow> string \<Rightarrow> 'c \<Rightarrow> 'c \<times> (int \<times> nat) option"
  be_replied :: "nat \<Rightarrow> bool"
  be_DropLength :: nat
  be_RequestLen :: nat
  be_ReplyLen :: nat
  be_KeyLen :: nat
  be_ParseIPv4 :: "string \<Rightarrow> string + netip_addr"
  be_ValidListenPort :: "int \<Rightarrow> bool"
  be_ErrPort :: string
  be_AddressRefused :: "netip_addr \<Rightarrow> bool"
  be_addr_text :: "netip_addr \<Rightarrow> string"
  be_hash :: "string \<Rightarrow> 64 word"

subsection \<open>The receive loop\<close>

record 'c rx_loop =
  lp_core :: 'c
  lp_base :: gotime
  lp_guard :: beacon_guard
  lp_breaker :: breaker
  lp_verdicts :: "64 word list"
  lp_guardDrops :: "64 word"
  lp_sourceDrops :: "64 word"
  lp_panics :: "64 word"
  lp_replies :: "64 word"

definition newLoop :: "'c \<Rightarrow> gotime \<Rightarrow> 'c rx_loop" where
  "newLoop core base =
     \<lparr>lp_core = core, lp_base = base, lp_guard = newGuard, lp_breaker = new_breaker,
      lp_verdicts = replicate verdictSlots 0, lp_guardDrops = 0, lp_sourceDrops = 0,
      lp_panics = 0, lp_replies = 0\<rparr>"

definition loop_mono :: "'c rx_loop \<Rightarrow> gotime \<Rightarrow> int" where
  "loop_mono l now = max (time_sub now (lp_base l)) 0"

definition sourceRefused :: "'c beacon_env \<Rightarrow> addr_port \<Rightarrow> bool" where
  "sourceRefused env sender \<longleftrightarrow> snd sender = 0 \<or> be_AddressRefused env (unmap (fst sender))"

definition count_verdict :: "nat \<Rightarrow> 'c rx_loop \<Rightarrow> 'c rx_loop" where
  "count_verdict v l =
     (if v < verdictSlots then l\<lparr>lp_verdicts := (lp_verdicts l)[v := lp_verdicts l ! v + 1]\<rparr> else l)"

definition note_datagram :: "int \<Rightarrow> bool \<Rightarrow> 'c rx_loop \<Rightarrow> 'c rx_loop" where
  "note_datagram m dropped l = l\<lparr>lp_breaker := record_datagram m dropped (lp_breaker l)\<rparr>"

definition process ::
  "'c beacon_env \<Rightarrow> gotime \<Rightarrow> string \<Rightarrow> addr_port \<Rightarrow> 'c rx_loop \<Rightarrow> 'c rx_loop \<times> nat" where
  "process env now pkt sender l =
     (let m = loop_mono l now;
          (g, verdict) = allow (be_hash env) (as16 (fst sender)) m (lp_guard l);
          l = l\<lparr>lp_guard := g\<rparr>
      in case verdict of
           guardGlobalFull \<Rightarrow>
             (l\<lparr>lp_guardDrops := lp_guardDrops l + 1, lp_breaker := saturate m (lp_breaker l)\<rparr>, 0)
         | guardBucketFull \<Rightarrow>
             (note_datagram m False (l\<lparr>lp_guardDrops := lp_guardDrops l + 1\<rparr>), 0)
         | guardAllow \<Rightarrow>
             (if sourceRefused env sender
              then (note_datagram m True (l\<lparr>lp_sourceDrops := lp_sourceDrops l + 1\<rparr>), 0)
              else if length pkt \<noteq> be_RequestLen env
              then (note_datagram m True (count_verdict (be_DropLength env) l), 0)
              else
                case be_handle env now pkt (lp_core l) of
                  (core, None) \<Rightarrow>
                    (note_datagram m True (l\<lparr>lp_core := core, lp_panics := lp_panics l + 1\<rparr>), 0)
                | (core, Some (n, v)) \<Rightarrow>
                    (let l = count_verdict v (l\<lparr>lp_core := core\<rparr>)
                     in if n \<le> 0 \<or> n > int (length pkt) \<or> n > int (be_ReplyLen env) \<or> \<not> be_replied env v
                        then (note_datagram m True l, 0)
                        else (note_datagram m False l, nat n))))"

datatype stop_reason = stopClosed | stopBreaker | stopReadError | stopPanic

datatype read_event =
    ReadClosed
  | ReadFailed string
  | ReadPanicked
  | Received gotime string addr_port bool

text \<open>
  One read of \<open>serve\<close> and what follows it: the loop, the reply sent (with its receiver), how many
  reads in a row failed, and why the loop ends, if it does. \<open>Received\<close> carries whether the write of
  a reply succeeded. The pause until the next second has no effect on the state.
\<close>

definition serve_step ::
  "'c beacon_env \<Rightarrow> nat \<Rightarrow> 'c rx_loop \<Rightarrow> read_event
   \<Rightarrow> 'c rx_loop \<times> (nat \<times> addr_port) option \<times> nat \<times> (stop_reason \<times> string) option" where
  "serve_step env readErrs l ev =
     (case ev of
        ReadClosed \<Rightarrow> (l, None, readErrs, Some (stopClosed, []))
      | ReadFailed e \<Rightarrow>
          (l, None, readErrs + 1,
           if readErrs + 1 \<ge> maxReadErrors then Some (stopReadError, e) else None)
      | ReadPanicked \<Rightarrow>
          (l\<lparr>lp_panics := lp_panics l + 1\<rparr>, None, readErrs, Some (stopPanic, ''receive loop panicked''))
      | Received t pkt sender written \<Rightarrow>
          (let (l, r) = process env t pkt sender l;
               l = (if r > 0 \<and> written then l\<lparr>lp_replies := lp_replies l + 1\<rparr> else l);
               reply = (if r > 0 then Some (r, sender) else None)
           in if breaker_open (lp_breaker l) then (l, reply, 0, Some (stopBreaker, []))
              else if guard_full (loop_mono l t) (lp_guard l)
              then (l\<lparr>lp_breaker := saturate (loop_mono l t) (lp_breaker l)\<rparr>, reply, 0, None)
              else (l, reply, 0, None)))"

subsection \<open>The responder\<close>

record 'c socket =
  sk_addr :: addr_port
  sk_loop :: "'c rx_loop"
  sk_readErrs :: nat
  sk_open :: bool

record 'c responder =
  rs_noBeacon :: bool
  rs_closed :: bool
  rs_onChange :: bool
  rs_changes :: nat
  rs_state :: agent_state
  rs_addr :: "addr_port option"
  rs_errText :: string
  rs_epoch :: "32 word"
  rs_sources :: int
  rs_lastAuth :: gotime
  rs_lastBind :: gotime
  rs_circuitUntil :: gotime
  rs_sockets :: "'c socket list"
  rs_cur :: "nat option"

definition NewResponder :: "bool \<Rightarrow> 'c responder" where
  "NewResponder noBeacon =
     \<lparr>rs_noBeacon = noBeacon, rs_closed = False, rs_onChange = False, rs_changes = 0, rs_state = BeaconAgentOff, rs_addr = None,
      rs_errText = [], rs_epoch = 0, rs_sources = 0, rs_lastAuth = 0, rs_lastBind = 0,
      rs_circuitUntil = 0, rs_sockets = [], rs_cur = None\<rparr>"

definition rune_start :: "char \<Rightarrow> bool" where
  "rune_start c \<longleftrightarrow> (of_char c :: nat) div 64 \<noteq> 2"

fun rune_cut :: "string \<Rightarrow> nat \<Rightarrow> nat" where
  "rune_cut s 0 = 0"
| "rune_cut s (Suc n) = (if \<not> rune_start (s ! Suc n) then rune_cut s n else Suc n)"

definition truncateError :: "string \<Rightarrow> string" where
  "truncateError s0 =
     (let s = trim_space s0
      in if length s \<le> maxErrorLen then s else take (rune_cut s maxErrorLen) s)"

definition bindAddr :: "'c beacon_env \<Rightarrow> string \<Rightarrow> int \<Rightarrow> string + addr_port" where
  "bindAddr env bind port =
     (case be_ParseIPv4 env bind of
        Inl e \<Rightarrow> Inl (''bind address refused: '' @ e)
      | Inr addr \<Rightarrow>
          (if \<not> be_ValidListenPort env port
           then Inl (''bind port '' @ itoa port @ '' refused: '' @ be_ErrPort env)
           else Inr (addr, port)))"

definition addr_port_text :: "'c beacon_env \<Rightarrow> addr_port \<Rightarrow> string" where
  "addr_port_text env addr =
     (case fst addr of
        IPv4 _ \<Rightarrow> be_addr_text env (fst addr)
      | IPv6 _ \<Rightarrow> ''['' @ be_addr_text env (fst addr) @ '']'') @ '':'' @ itoa (snd addr)"

definition bindError :: "'c beacon_env \<Rightarrow> addr_port \<Rightarrow> string \<Rightarrow> string" where
  "bindError env addr err = ''bind udp '' @ addr_port_text env addr @ '': '' @ err"

text \<open>
  \<open>tableEntries\<close>, with the entries, the newest epoch and the source ids seen so far; \<open>i\<close> is the
  index of the next entry.
\<close>

fun table_loop ::
  "nat \<Rightarrow> nat \<Rightarrow> table_key list \<Rightarrow> 32 word \<Rightarrow> 32 word list \<Rightarrow> table_key list
   \<Rightarrow> string + table_key list \<times> 32 word \<times> int" where
  "table_loop keyLen i entries newest seen [] = Inr (entries, newest, int (length seen))"
| "table_loop keyLen i entries newest seen (k # ks) =
     (if tk_SourceID k = 0 \<or> tk_Epoch k = 0
      then Inl (''responder table refused: entry '' @ itoa (int i) @ '' has a zero source id or epoch'')
      else if length (tk_Key k) \<noteq> keyLen
      then Inl (''responder table refused: entry '' @ itoa (int i) @ '' has a ''
                @ itoa (int (length (tk_Key k))) @ ''-byte key'')
      else table_loop keyLen (i + 1) (entries @ [k]) (max newest (tk_Epoch k))
             (if tk_SourceID k \<in> set seen then seen else seen @ [tk_SourceID k]) ks)"

definition tableEntries ::
  "'c beacon_env \<Rightarrow> table_key list \<Rightarrow> string + table_key list \<times> 32 word \<times> int" where
  "tableEntries env table = table_loop (be_KeyLen env) 0 [] 0 [] table"

definition setLocked ::
  "agent_state \<Rightarrow> addr_port option \<Rightarrow> string \<Rightarrow> 'c responder \<Rightarrow> 'c responder" where
  "setLocked state addr errText r =
     (let r = r\<lparr>rs_state := state, rs_addr := addr, rs_errText := truncateError errText\<rparr>
      in if state \<noteq> BeaconAgentListening then r\<lparr>rs_epoch := 0, rs_sources := 0\<rparr> else r)"

definition last_auth :: "'c beacon_env \<Rightarrow> 'c responder \<Rightarrow> nat \<Rightarrow> gotime" where
  "last_auth env r k = be_last_auth env (lp_core (sk_loop (rs_sockets r ! k)))"

definition shut :: "nat \<Rightarrow> 'c responder \<Rightarrow> 'c responder" where
  "shut k r = r\<lparr>rs_sockets := (rs_sockets r)[k := (rs_sockets r ! k)\<lparr>sk_open := False\<rparr>], rs_cur := None\<rparr>"

definition keep_auth :: "'c beacon_env \<Rightarrow> nat \<Rightarrow> 'c responder \<Rightarrow> 'c responder" where
  "keep_auth env k r =
     (if last_auth env r k > rs_lastAuth r then r\<lparr>rs_lastAuth := last_auth env r k\<rparr> else r)"

definition closeLocked :: "'c beacon_env \<Rightarrow> 'c responder \<Rightarrow> 'c responder" where
  "closeLocked env r =
     (case rs_cur r of None \<Rightarrow> r | Some k \<Rightarrow> shut k (keep_auth env k r))"

subsection \<open>Facts\<close>

record beacon_facts =
  bf_Responder :: bool
  bf_Refusal :: bool
  bf_State :: agent_state
  bf_Error :: string
  bf_Bind :: string
  bf_Port :: int
  bf_Epoch :: "32 word"
  bf_Sources :: int
  bf_LastAuthAt :: gotime

definition IdleFacts :: "bool \<Rightarrow> beacon_facts" where
  "IdleFacts noBeacon =
     \<lparr>bf_Responder = True, bf_Refusal = noBeacon,
      bf_State = (if noBeacon then BeaconAgentRefused else BeaconAgentOff), bf_Error = [], bf_Bind = [],
      bf_Port = 0, bf_Epoch = 0, bf_Sources = 0, bf_LastAuthAt = 0\<rparr>"

definition beacon_facts_of :: "'c beacon_env \<Rightarrow> 'c responder \<Rightarrow> beacon_facts" where
  "beacon_facts_of env r =
     (if rs_noBeacon r then IdleFacts True
      else
        let f = \<lparr>bf_Responder = True, bf_Refusal = False, bf_State = rs_state r, bf_Error = rs_errText r,
                 bf_Bind = [], bf_Port = 0, bf_Epoch = rs_epoch r, bf_Sources = rs_sources r,
                 bf_LastAuthAt = rs_lastAuth r\<rparr>;
            f = (case rs_addr r of
                   Some addr \<Rightarrow> (if rs_state r \<noteq> BeaconAgentOff
                                 then f\<lparr>bf_Bind := be_addr_text env (fst addr), bf_Port := snd addr\<rparr> else f)
                 | None \<Rightarrow> f)
        in case rs_cur r of
             Some k \<Rightarrow> (if last_auth env r k > bf_LastAuthAt f
                        then f\<lparr>bf_LastAuthAt := last_auth env r k\<rparr> else f)
           | None \<Rightarrow> f)"

definition sameFacts :: "beacon_facts \<Rightarrow> beacon_facts \<Rightarrow> bool" where
  "sameFacts a b \<longleftrightarrow>
     bf_State a = bf_State b \<and> bf_Refusal a = bf_Refusal b \<and> bf_Bind a = bf_Bind b \<and>
     bf_Port a = bf_Port b \<and> bf_Epoch a = bf_Epoch b \<and> bf_Sources a = bf_Sources b \<and> bf_Error a = bf_Error b"

definition call_onChange :: "'c responder \<Rightarrow> 'c responder" where
  "call_onChange r = (if rs_onChange r then r\<lparr>rs_changes := rs_changes r + 1\<rparr> else r)"

definition SetOnChange :: "bool \<Rightarrow> 'c responder \<Rightarrow> 'c responder" where
  "SetOnChange fn r = r\<lparr>rs_onChange := fn\<rparr>"

subsection \<open>Apply, Close and the end of a loop\<close>

text \<open>\<open>listened\<close> is what the system answers if the responder asks for the socket.\<close>

definition bind_socket ::
  "'c beacon_env \<Rightarrow> gotime \<Rightarrow> string option \<Rightarrow> addr_port \<Rightarrow> table_key list \<Rightarrow> 'c responder
   \<Rightarrow> 'c responder \<times> bool" where
  "bind_socket env now listened addr entries r =
     (if now < rs_circuitUntil r then
        (if rs_state r \<noteq> BeaconAgentCircuitOpen
         then setLocked BeaconAgentCircuitOpen (Some addr) ''circuit breaker open'' r else r, False)
      else if rs_state r = BeaconAgentBindFailed \<and> rs_addr r = Some addr
              \<and> time_sub now (rs_lastBind r) < bindRetryInterval then (r, False)
      else
        let r = r\<lparr>rs_lastBind := now\<rparr>
        in case listened of
             Some e \<Rightarrow> (setLocked BeaconAgentBindFailed (Some addr) (bindError env addr e) r, False)
           | None \<Rightarrow>
               (case be_set_table env entries (be_new env now) of
                  Inl e \<Rightarrow> (setLocked BeaconAgentOff (Some addr) e r, False)
                | Inr core \<Rightarrow>
                    (r\<lparr>rs_sockets := rs_sockets r
                         @ [\<lparr>sk_addr = addr, sk_loop = newLoop core now, sk_readErrs = 0, sk_open = True\<rparr>],
                       rs_cur := Some (length (rs_sockets r))\<rparr>, True)))"

definition set_core :: "nat \<Rightarrow> 'c \<Rightarrow> 'c responder \<Rightarrow> 'c responder" where
  "set_core k core r =
     r\<lparr>rs_sockets := (rs_sockets r)[k := (rs_sockets r ! k)
         \<lparr>sk_loop := (sk_loop (rs_sockets r ! k))\<lparr>lp_core := core\<rparr>\<rparr>]\<rparr>"

definition applyLocked ::
  "'c beacon_env \<Rightarrow> gotime \<Rightarrow> string option \<Rightarrow> responder_config option \<Rightarrow> 'c responder \<Rightarrow> 'c responder" where
  "applyLocked env now listened cfg r =
     (case cfg of
        None \<Rightarrow> setLocked BeaconAgentOff None [] (closeLocked env r)
      | Some cf \<Rightarrow>
          (case bindAddr env (bc_Bind cf) (bc_Port cf) of
             Inl e \<Rightarrow> setLocked BeaconAgentBindFailed None e (closeLocked env r)
           | Inr addr \<Rightarrow>
               (case tableEntries env (bc_Table cf) of
                  Inl e \<Rightarrow> setLocked BeaconAgentOff (Some addr) e (closeLocked env r)
                | Inr (entries, epoch, sources) \<Rightarrow>
                    (let r1 = (if rs_cur r \<noteq> None \<and> rs_addr r \<noteq> Some addr then closeLocked env r else r);
                         (r2, ok) =
                           (case rs_cur r1 of
                              None \<Rightarrow> bind_socket env now listened addr entries r1
                            | Some k \<Rightarrow>
                                (case be_set_table env entries (lp_core (sk_loop (rs_sockets r1 ! k))) of
                                   Inl e \<Rightarrow> (setLocked BeaconAgentOff (Some addr) e (closeLocked env r1), False)
                                 | Inr core \<Rightarrow> (set_core k core r1, True)))
                     in if \<not> ok then r2
                        else (setLocked BeaconAgentListening (Some addr) [] r2)
                               \<lparr>rs_epoch := epoch, rs_sources := sources\<rparr>))))"

definition wipeTable :: "responder_config \<Rightarrow> responder_config" where
  "wipeTable cf =
     cf\<lparr>bc_Table := map (\<lambda>k. k\<lparr>tk_Key := replicate (length (tk_Key k)) CHR 0x00\<rparr>) (bc_Table cf)\<rparr>"

text \<open>\<open>Apply\<close>, which also wipes the configuration it was handed.\<close>

definition beacon_apply ::
  "'c beacon_env \<Rightarrow> gotime \<Rightarrow> string option \<Rightarrow> responder_config option \<Rightarrow> 'c responder
   \<Rightarrow> 'c responder \<times> responder_config option" where
  "beacon_apply env now listened cfg r =
     (if rs_noBeacon r \<or> rs_closed r then r
      else
        let r' = applyLocked env now listened cfg r
        in if \<not> sameFacts (beacon_facts_of env r) (beacon_facts_of env r') then call_onChange r' else r',
      map_option wipeTable cfg)"

definition beacon_close :: "'c beacon_env \<Rightarrow> 'c responder \<Rightarrow> 'c responder" where
  "beacon_close env r =
     (let r = closeLocked env (r\<lparr>rs_closed := True\<rparr>)
      in if \<not> rs_noBeacon r then setLocked BeaconAgentOff None [] r else r)"

definition stopError :: "string option \<Rightarrow> string" where
  "stopError err = (case err of None \<Rightarrow> ''closed'' | Some e \<Rightarrow> e)"

definition circuit_text :: "nat \<Rightarrow> string" where
  "circuit_text hot = ''circuit breaker open: datagrams dropped in '' @ itoa (int hot)
     @ '' of the last 60 seconds; the socket stays closed for 5m0s''"

definition loopEnded ::
  "'c beacon_env \<Rightarrow> gotime \<Rightarrow> nat \<Rightarrow> stop_reason \<Rightarrow> string option \<Rightarrow> 'c responder \<Rightarrow> 'c responder" where
  "loopEnded env now k stop err r0 =
     (let r = (if stop = stopBreaker then r0\<lparr>rs_circuitUntil := now + breakerCooldown\<rparr> else r0)
      in if rs_cur r = Some k \<or> stop = stopBreaker \<and> rs_cur r \<noteq> None then
           (let r = (if rs_cur r = Some k then shut k (keep_auth env k r) else closeLocked env r)
            in call_onChange (if stop = stopBreaker
               then setLocked BeaconAgentCircuitOpen (rs_addr r)
                      (circuit_text (hotSeconds (lp_breaker (sk_loop (rs_sockets r ! k))))) r
               else setLocked BeaconAgentBindFailed (rs_addr r) (''socket failed: '' @ stopError err)
                      (r\<lparr>rs_lastBind := now\<rparr>)))
         else r)"

subsection \<open>Runs\<close>

text \<open>
  \<open>Serve\<close> is a read of the loop of an open socket; a loop that ends on its own reports it in the
  same step. A loop whose socket another step closed reports its end later, with \<open>Ended\<close>.
\<close>

datatype beacon_op =
    BApply gotime "string option" "responder_config option"
  | BClose
  | BOnChange bool
  | Serve gotime nat read_event
  | Ended gotime nat stop_reason "string option"

definition serve_socket ::
  "'c beacon_env \<Rightarrow> gotime \<Rightarrow> nat \<Rightarrow> read_event \<Rightarrow> 'c responder \<Rightarrow> 'c responder" where
  "serve_socket env now k ev r =
     (let sk = rs_sockets r ! k;
          (l, reply, errs, stop) = serve_step env (sk_readErrs sk) (sk_loop sk) ev;
          r = r\<lparr>rs_sockets := (rs_sockets r)[k := sk\<lparr>sk_loop := l, sk_readErrs := errs\<rparr>]\<rparr>
      in case stop of
           None \<Rightarrow> r
         | Some (reason, e) \<Rightarrow>
             loopEnded env now k reason (if reason = stopReadError \<or> reason = stopPanic then Some e else None) r)"

fun beacon_step :: "'c beacon_env \<Rightarrow> 'c responder \<Rightarrow> beacon_op \<Rightarrow> 'c responder" where
  "beacon_step env r (BApply now listened cfg) = fst (beacon_apply env now listened cfg r)"
| "beacon_step env r BClose = beacon_close env r"
| "beacon_step env r (BOnChange fn) = SetOnChange fn r"
| "beacon_step env r (Serve now k ev) =
     (if k < length (rs_sockets r) \<and> sk_open (rs_sockets r ! k) then serve_socket env now k ev r else r)"
| "beacon_step env r (Ended now k stop err) =
     (if k < length (rs_sockets r) \<and> \<not> sk_open (rs_sockets r ! k)
      then loopEnded env now k stop err r else r)"

section \<open>Lemmas\<close>

definition resp_ok :: "'c beacon_env \<Rightarrow> 'c responder \<Rightarrow> bool" where
  "resp_ok env r \<longleftrightarrow>
     (\<forall>j < length (rs_sockets r). sk_open (rs_sockets r ! j) \<longleftrightarrow> rs_cur r = Some j) \<and>
     (\<forall>k. rs_cur r = Some k \<longrightarrow> k < length (rs_sockets r) \<and> rs_addr r = Some (sk_addr (rs_sockets r ! k))) \<and>
     (rs_state r = BeaconAgentListening \<longleftrightarrow> rs_cur r \<noteq> None) \<and>
     (rs_state r \<noteq> BeaconAgentListening \<longrightarrow> rs_epoch r = 0 \<and> rs_sources r = 0) \<and>
     (\<forall>sk \<in> set (rs_sockets r). \<exists>bind port. bindAddr env bind port = Inr (sk_addr sk)) \<and>
     (rs_noBeacon r \<longrightarrow> rs_sockets r = []) \<and> (rs_closed r \<longrightarrow> rs_cur r = None)"

lemma setLocked_fields [simp]:
  "rs_state (setLocked st addr e r) = st" "rs_addr (setLocked st addr e r) = addr"
  "rs_sockets (setLocked st addr e r) = rs_sockets r" "rs_cur (setLocked st addr e r) = rs_cur r"
  "rs_noBeacon (setLocked st addr e r) = rs_noBeacon r" "rs_closed (setLocked st addr e r) = rs_closed r"
  "rs_circuitUntil (setLocked st addr e r) = rs_circuitUntil r"
  "st \<noteq> BeaconAgentListening \<Longrightarrow> rs_epoch (setLocked st addr e r) = 0"
  "st \<noteq> BeaconAgentListening \<Longrightarrow> rs_sources (setLocked st addr e r) = 0"
  by (simp_all add: setLocked_def Let_def)

lemma onChange_fields [simp]:
  "rs_state (call_onChange r) = rs_state r" "rs_addr (call_onChange r) = rs_addr r"
  "rs_sockets (call_onChange r) = rs_sockets r" "rs_cur (call_onChange r) = rs_cur r"
  "rs_noBeacon (call_onChange r) = rs_noBeacon r" "rs_closed (call_onChange r) = rs_closed r"
  "rs_circuitUntil (call_onChange r) = rs_circuitUntil r" "rs_epoch (call_onChange r) = rs_epoch r"
  "rs_sources (call_onChange r) = rs_sources r"
  by (simp_all add: call_onChange_def)

lemma resp_ok_onChange [simp]: "resp_ok env (call_onChange r) = resp_ok env r"
  by (simp add: resp_ok_def)

lemma keep_auth_fields [simp]:
  "rs_sockets (keep_auth env k r) = rs_sockets r" "rs_cur (keep_auth env k r) = rs_cur r"
  "rs_addr (keep_auth env k r) = rs_addr r" "rs_state (keep_auth env k r) = rs_state r"
  "rs_noBeacon (keep_auth env k r) = rs_noBeacon r" "rs_closed (keep_auth env k r) = rs_closed r"
  "rs_circuitUntil (keep_auth env k r) = rs_circuitUntil r"
  by (simp_all add: keep_auth_def)

lemma shut_fields [simp]:
  "rs_cur (shut k r) = None" "rs_state (shut k r) = rs_state r" "rs_addr (shut k r) = rs_addr r"
  "rs_noBeacon (shut k r) = rs_noBeacon r" "rs_closed (shut k r) = rs_closed r"
  "rs_circuitUntil (shut k r) = rs_circuitUntil r"
  by (simp_all add: shut_def)

lemma close_fields [simp]:
  "rs_cur (closeLocked env r) = None" "rs_addr (closeLocked env r) = rs_addr r"
  "rs_noBeacon (closeLocked env r) = rs_noBeacon r" "rs_closed (closeLocked env r) = rs_closed r"
  "rs_circuitUntil (closeLocked env r) = rs_circuitUntil r" "rs_state (closeLocked env r) = rs_state r"
  by (cases "rs_cur r"; simp add: closeLocked_def shut_def)+

lemma close_closed: "closeLocked env (r\<lparr>rs_closed := b\<rparr>) = (closeLocked env r)\<lparr>rs_closed := b\<rparr>"
  by (simp add: closeLocked_def shut_def keep_auth_def last_auth_def split: option.split)

text \<open>A responder whose sockets are all closed, whatever its state says.\<close>

definition all_shut :: "'c beacon_env \<Rightarrow> 'c responder \<Rightarrow> bool" where
  "all_shut env r \<longleftrightarrow> rs_cur r = None \<and> (\<forall>sk \<in> set (rs_sockets r). \<not> sk_open sk) \<and>
     (\<forall>sk \<in> set (rs_sockets r). \<exists>bind port. bindAddr env bind port = Inr (sk_addr sk)) \<and>
     (rs_noBeacon r \<longrightarrow> rs_sockets r = [])"

lemma shut_all:
  assumes "resp_ok env r" "rs_cur r = Some k"
  shows "all_shut env (shut k r)"
  using assms by (auto simp: resp_ok_def all_shut_def shut_def all_set_conv_all_nth nth_list_update)

lemma close_all: "resp_ok env r \<Longrightarrow> all_shut env (closeLocked env r)"
proof (cases "rs_cur r")
  case None
  moreover assume "resp_ok env r"
  ultimately show ?thesis by (auto simp: closeLocked_def resp_ok_def all_shut_def all_set_conv_all_nth)
next
  case (Some k)
  moreover assume "resp_ok env r"
  then have "resp_ok env (keep_auth env k r)" by (simp add: resp_ok_def keep_auth_def)
  ultimately show ?thesis using shut_all [of env "keep_auth env k r" k] by (simp add: closeLocked_def)
qed

lemma shut_settles:
  "all_shut env r \<Longrightarrow> st \<noteq> BeaconAgentListening \<Longrightarrow> resp_ok env (setLocked st addr e r)"
  by (auto simp: resp_ok_def all_shut_def all_set_conv_all_nth)

lemma bind_keeps:
  assumes shut: "all_shut env r" and st: "rs_state r \<noteq> BeaconAgentListening \<longrightarrow> rs_epoch r = 0 \<and> rs_sources r = 0"
    and open_for: "\<not> rs_closed r" "\<not> rs_noBeacon r" and addr: "bindAddr env bind port = Inr addr"
    and b: "bind_socket env now listened addr entries r = (r2, ok)"
  shows "(\<not> ok \<longrightarrow> resp_ok env r2) \<and> (ok \<longrightarrow> resp_ok env ((setLocked BeaconAgentListening (Some addr) [] r2)\<lparr>rs_epoch := ep, rs_sources := n\<rparr>))"
proof -
  have quiet: "resp_ok env r" if "rs_state r \<noteq> BeaconAgentListening" using that shut st open_for by (auto simp: resp_ok_def all_shut_def all_set_conv_all_nth)
  have fields: "all_shut env (r\<lparr>rs_lastBind := t\<rparr>)" for t using shut by (simp add: all_shut_def)
  show ?thesis
  proof (cases ok)
    case True
    then obtain core where "r2 = r\<lparr>rs_lastBind := now, rs_sockets := rs_sockets r
        @ [\<lparr>sk_addr = addr, sk_loop = newLoop core now, sk_readErrs = 0, sk_open = True\<rparr>],
      rs_cur := Some (length (rs_sockets r))\<rparr>"
      using b by (auto simp: bind_socket_def Let_def split: if_splits option.splits sum.splits)
    then show ?thesis using True shut open_for addr
      by (auto simp: resp_ok_def all_shut_def all_set_conv_all_nth nth_append less_Suc_eq)
  next
    case False
    then show ?thesis
      using b quiet shut_settles [OF shut] shut_settles [OF fields]
      by (auto simp: bind_socket_def Let_def split: if_splits option.splits sum.splits)
  qed
qed

lemma set_core_keeps:
  assumes ok: "resp_ok env r" and cur: "rs_cur r = Some k"
  shows "resp_ok env ((setLocked BeaconAgentListening (rs_addr r) [] (set_core k core r))\<lparr>rs_epoch := ep, rs_sources := n\<rparr>)"
  using assms by (auto simp: resp_ok_def set_core_def all_set_conv_all_nth nth_list_update)

lemma apply_keeps:
  assumes ok: "resp_ok env r" and open_for: "\<not> rs_closed r" "\<not> rs_noBeacon r"
  shows "resp_ok env (applyLocked env now listened cfg r)"
proof -
  note shut = shut_settles [OF close_all [OF ok]]
  show ?thesis
  proof (cases cfg)
    case None
    then show ?thesis using shut by (simp add: applyLocked_def)
  next
    case (Some cf)
    show ?thesis
    proof (cases "bindAddr env (bc_Bind cf) (bc_Port cf)")
      case (Inl e)
      then show ?thesis using Some shut by (simp add: applyLocked_def)
    next
      case addr: (Inr addr)
      show ?thesis
      proof (cases "tableEntries env (bc_Table cf)")
        case (Inl e)
        then show ?thesis using Some addr shut by (simp add: applyLocked_def)
      next
        case (Inr t)
        obtain entries ep n where t: "t = (entries, ep, n)" by (cases t)
        define r1 where "r1 = (if rs_cur r \<noteq> None \<and> rs_addr r \<noteq> Some addr then closeLocked env r else r)"
        show ?thesis
        proof (cases "rs_cur r1")
          case None
          have r1: "all_shut env r1" "rs_state r1 \<noteq> BeaconAgentListening \<longrightarrow> rs_epoch r1 = 0 \<and> rs_sources r1 = 0"
            "\<not> rs_closed r1" "\<not> rs_noBeacon r1"
          proof -
            have r1_eq: "r1 = closeLocked env r" using None by (auto simp: r1_def closeLocked_def)
            then show "all_shut env r1" "\<not> rs_closed r1" "\<not> rs_noBeacon r1"
              using close_all [OF ok] open_for by simp_all
            show "rs_state r1 \<noteq> BeaconAgentListening \<longrightarrow> rs_epoch r1 = 0 \<and> rs_sources r1 = 0"
              using ok r1_eq by (cases "rs_cur r") (auto simp: resp_ok_def closeLocked_def [of env r])
          qed
          obtain r2 bound where b: "bind_socket env now listened addr entries r1 = (r2, bound)" by fastforce
          have "applyLocked env now listened cfg r = (if \<not> bound then r2
              else (setLocked BeaconAgentListening (Some addr) [] r2)\<lparr>rs_epoch := ep, rs_sources := n\<rparr>)"
            using Some addr Inr t None b unfolding applyLocked_def
            by (cases "rs_cur r \<noteq> None \<and> rs_addr r \<noteq> Some addr") (auto simp: r1_def)
          then show ?thesis using bind_keeps [OF r1 addr b, of n ep] by simp
        next
          case (Some k)
          then have r1: "r1 = r" "rs_cur r = Some k" "rs_addr r = Some addr" by (auto simp: r1_def split: if_splits)
          then show ?thesis using \<open>cfg = Some cf\<close> addr Inr t shut set_core_keeps [OF ok r1(2)]
            by (simp add: applyLocked_def split: sum.split)
        qed
      qed
    qed
  qed
qed

lemma ended_keeps:
  assumes ok: "resp_ok env r" and k: "k < length (rs_sockets r)"
  shows "resp_ok env (loopEnded env now k stop err r)"
proof -
  define r1 where "r1 = (if stop = stopBreaker then r\<lparr>rs_circuitUntil := now + breakerCooldown\<rparr> else r)"
  have r1: "resp_ok env r1" "rs_cur r1 = rs_cur r" using ok by (simp_all add: r1_def resp_ok_def)
  define r2 where "r2 = (if rs_cur r1 = Some k then shut k (keep_auth env k r1) else closeLocked env r1)"
  have "all_shut env r2"
    using r1 close_all [OF r1(1)] shut_all [of env "keep_auth env k r1" k]
    by (auto simp: r2_def closeLocked_def split: option.split)
  then have "all_shut env r2" "all_shut env (r2\<lparr>rs_lastBind := now\<rparr>)" by (simp_all add: all_shut_def)
  then show ?thesis using r1(1)
    unfolding loopEnded_def Let_def r1_def [symmetric] r2_def [symmetric] by (auto intro!: shut_settles)
qed

lemma serve_keeps:
  assumes ok: "resp_ok env r" and k: "k < length (rs_sockets r)"
  shows "resp_ok env (serve_socket env now k ev r)"
proof -
  let ?sk = "rs_sockets r ! k"
  obtain l reply errs st where st: "serve_step env (sk_readErrs ?sk) (sk_loop ?sk) ev = (l, reply, errs, st)"
    by (metis prod_cases4)
  define r1 where "r1 = r\<lparr>rs_sockets := (rs_sockets r)[k := ?sk\<lparr>sk_loop := l, sk_readErrs := errs\<rparr>]\<rparr>"
  have "resp_ok env r1" "k < length (rs_sockets r1)"
    using ok k by (auto simp: r1_def resp_ok_def all_set_conv_all_nth nth_list_update)
  then show ?thesis using ended_keeps
    by (auto simp: serve_socket_def Let_def st split: option.split simp flip: r1_def)
qed

lemma beacon_step_keeps:
  assumes ok: "resp_ok env r"
  shows "resp_ok env (beacon_step env r op)"
proof (cases op)
  case (BApply now listened cfg)
  then show ?thesis using ok by (simp add: beacon_apply_def Let_def apply_keeps)
next
  case BClose
  have c: "resp_ok env (closeLocked env (r\<lparr>rs_closed := True\<rparr>)) \<or> rs_cur r \<noteq> None"
    using ok by (auto simp: closeLocked_def resp_ok_def)
  have "all_shut env (closeLocked env (r\<lparr>rs_closed := True\<rparr>))"
    using close_all [OF ok] by (simp add: close_closed all_shut_def)
  then have "resp_ok env (setLocked BeaconAgentOff None [] (closeLocked env (r\<lparr>rs_closed := True\<rparr>)))"
    by (rule shut_settles) simp
  moreover have "rs_cur r = None" if "rs_noBeacon r" using that ok by (auto simp: resp_ok_def)
  ultimately show ?thesis using BClose c by (auto simp: beacon_close_def Let_def)
next
  case (BOnChange fn)
  then show ?thesis using ok by (simp add: SetOnChange_def resp_ok_def)
next
  case (Serve now k ev)
  then show ?thesis using ok by (simp add: serve_keeps)
next
  case (Ended now k stop err)
  then show ?thesis using ok by (simp add: ended_keeps)
qed

lemma flags_step:
  "rs_noBeacon (beacon_step env r op) = rs_noBeacon r \<and>
   (rs_closed r \<or> op = BClose \<longrightarrow> rs_closed (beacon_step env r op))"
proof (cases op)
  case (BApply now listened cfg)
  have "rs_noBeacon (fst (bind_socket env now listened addr entries r')) = rs_noBeacon r' \<and>
    rs_closed (fst (bind_socket env now listened addr entries r')) = rs_closed r'" for addr entries r'
    by (simp add: bind_socket_def Let_def split: option.split sum.split)
  then have "rs_noBeacon (applyLocked env now listened cfg r) = rs_noBeacon r"
    by (auto simp: applyLocked_def Let_def case_prod_beta set_core_def split: option.split sum.split)
  then show ?thesis using BApply by (simp add: beacon_apply_def Let_def)
next
  case BClose
  then show ?thesis by (simp add: beacon_close_def Let_def)
next
  case (BOnChange fn)
  then show ?thesis by (simp add: SetOnChange_def)
next
  case (Serve now k ev)
  have "rs_noBeacon (loopEnded env now k st err r') = rs_noBeacon r' \<and> rs_closed (loopEnded env now k st err r') = rs_closed r'" for st err r'
    by (simp add: loopEnded_def Let_def)
  then show ?thesis using Serve by (simp add: serve_socket_def Let_def case_prod_beta split: option.split)
next
  case (Ended now k stop err)
  then show ?thesis by (simp add: loopEnded_def Let_def)
qed

interpretation beacon_run: invariant_run "beacon_step env" "resp_ok env" for env
  by unfold_locales (rule beacon_step_keeps)

lemma beacon_new: "resp_ok env (NewResponder v)"
  by (simp add: resp_ok_def NewResponder_def)

subsection \<open>The cooldown\<close>

fun op_time :: "beacon_op \<Rightarrow> gotime option" where
  "op_time (BApply now listened cfg) = Some now"
| "op_time BClose = None"
| "op_time (BOnChange fn) = None"
| "op_time (Serve now k ev) = Some now"
| "op_time (Ended now k stop err) = Some now"

definition within :: "gotime \<Rightarrow> gotime \<Rightarrow> beacon_op \<Rightarrow> bool" where
  "within t u op \<longleftrightarrow> (case op_time op of Some now \<Rightarrow> t \<le> now \<and> now < u | None \<Rightarrow> True)"

lemma serve_shut: "resp_ok env r \<Longrightarrow> rs_cur r = None \<Longrightarrow> beacon_step env r (Serve now k ev) = r"
  by (auto simp: resp_ok_def)

lemma bind_cooldown:
  assumes "now < rs_circuitUntil r"
  shows "rs_cur (fst (bind_socket env now listened addr entries r)) = rs_cur r \<and>
    rs_circuitUntil (fst (bind_socket env now listened addr entries r)) = rs_circuitUntil r \<and>
    \<not> snd (bind_socket env now listened addr entries r)"
  using assms by (simp add: bind_socket_def)

lemma apply_cooldown:
  assumes "rs_cur r = None" "now < rs_circuitUntil r"
  shows "rs_cur (applyLocked env now listened cfg r) = None \<and>
    rs_circuitUntil (applyLocked env now listened cfg r) = rs_circuitUntil r"
  using assms bind_cooldown [OF assms(2)]
  by (auto simp: applyLocked_def Let_def case_prod_beta split: option.split sum.split)

lemma cooldown_step:
  assumes ok: "resp_ok env r" and quiet: "rs_cur r = None" "u \<le> rs_circuitUntil r"
    and op: "within t u op" and u: "u \<le> t + breakerCooldown"
  shows "rs_cur (beacon_step env r op) = None \<and> u \<le> rs_circuitUntil (beacon_step env r op)"
proof (cases op)
  case (BApply now listened cfg)
  then show ?thesis using quiet op apply_cooldown [OF quiet(1), of now env listened cfg]
    by (auto simp: beacon_apply_def Let_def within_def)
next
  case BClose
  then show ?thesis using quiet by (simp add: beacon_close_def Let_def)
next
  case (BOnChange fn)
  then show ?thesis using quiet by (simp add: SetOnChange_def)
next
  case (Serve now k ev)
  then show ?thesis using serve_shut [OF ok quiet(1)] quiet by simp
next
  case (Ended now k stop err)
  then show ?thesis using quiet op u by (auto simp: loopEnded_def Let_def within_def)
qed

lemma cooldown_run:
  assumes "resp_ok env r" "rs_cur r = None" "u \<le> rs_circuitUntil r" "list_all (within t u) ops" "u \<le> t + breakerCooldown"
  shows "rs_cur (foldl (beacon_step env) r ops) = None"
  using assms
proof (induction ops arbitrary: r)
  case (Cons op ops)
  then show ?case
    using cooldown_step [OF Cons.prems(1-3) _ Cons.prems(5), of op] beacon_step_keeps [OF Cons.prems(1), of op] by simp
qed simp

section \<open>Properties\<close>

text \<open>
  C20. The responder's account of itself is true. After any sequence of configurations, reads,
  loop ends and a stop: at most one socket is open, and exactly when the state says listening;
  it is bound at the address the responder reports, and every socket ever bound was at an address
  and port the configuration rules accept; any other state reports no epoch and no sources.
  With the node's veto no socket is ever bound and the facts are those of a refusal; after a stop
  none is open.
\<close>

theorem beacon_state_truthful:
  assumes r: "r = foldl (beacon_step env) (NewResponder veto) ops"
  shows "(\<forall>j < length (rs_sockets r). sk_open (rs_sockets r ! j) \<longleftrightarrow> rs_cur r = Some j) \<and>
    (rs_state r = BeaconAgentListening \<longleftrightarrow> rs_cur r \<noteq> None) \<and>
    (\<forall>k. rs_cur r = Some k \<longrightarrow> rs_addr r = Some (sk_addr (rs_sockets r ! k))) \<and>
    (rs_state r \<noteq> BeaconAgentListening \<longrightarrow> rs_epoch r = 0 \<and> rs_sources r = 0) \<and>
    (\<forall>sk \<in> set (rs_sockets r). \<exists>bind port. bindAddr env bind port = Inr (sk_addr sk)) \<and>
    (veto \<longrightarrow> rs_sockets r = [] \<and> beacon_facts_of env r = IdleFacts True) \<and>
    (BClose \<in> set ops \<longrightarrow> rs_cur r = None)"
proof -
  have ok: "resp_ok env r" unfolding r by (rule beacon_run.run_inv [OF beacon_new])
  have keeps: "rs_noBeacon (beacon_step env r' op) = rs_noBeacon r' \<and> (rs_closed r' \<or> op = BClose \<longrightarrow> rs_closed (beacon_step env r' op))" for r' op
    using flags_step [of env r' op] by blast
  have "rs_noBeacon (foldl (beacon_step env) r' ops) = rs_noBeacon r' \<and>
      (rs_closed r' \<or> BClose \<in> set ops \<longrightarrow> rs_closed (foldl (beacon_step env) r' ops))" for r'
    using keeps by (induction ops arbitrary: r') auto
  from this [of "NewResponder veto"] have "rs_noBeacon r = veto" "BClose \<in> set ops \<longrightarrow> rs_closed r"
    by (simp_all add: r NewResponder_def)
  then show ?thesis using ok by (auto simp: resp_ok_def beacon_facts_of_def)
qed

text \<open>A beacon whose core answers every request with two bytes, for the witnesses.\<close>

definition demo_beacon :: "unit beacon_env" where
  "demo_beacon = \<lparr>be_new = (\<lambda>_. ()), be_set_table = (\<lambda>_ c. Inr c), be_last_auth = (\<lambda>_. 0),
     be_handle = (\<lambda>_ _ c. (c, Some (2, 0))), be_replied = (\<lambda>_. True), be_DropLength = 1, be_RequestLen = 4,
     be_ReplyLen = 4, be_KeyLen = 2, be_ParseIPv4 = (\<lambda>s. Inr (IPv4 s)), be_ValidListenPort = (\<lambda>p. 1024 \<le> p \<and> p \<le> 65535),
     be_ErrPort = ''bad port'', be_AddressRefused = (\<lambda>_. False), be_addr_text = (\<lambda>_. ''address''), be_hash = (\<lambda>_. 0)\<rparr>"

definition demo_plan :: responder_config where
  "demo_plan = \<lparr>bc_Bind = ''192.0.2.1'', bc_Port = 4000,
     bc_Table = [\<lparr>tk_SourceID = 7, tk_Epoch = 2, tk_Key = ''ab'', tk_Retired = False\<rparr>]\<rparr>"

theorem beacon_state_truthful_witness:
  "rs_state (foldl (beacon_step demo_beacon) (NewResponder False) [BApply 5 None (Some demo_plan)]) = BeaconAgentListening \<and>
   rs_cur (foldl (beacon_step demo_beacon) (NewResponder False) [BApply 5 None (Some demo_plan)]) \<noteq> None"
proof -
  have "rs_cur (foldl (beacon_step demo_beacon) (NewResponder False) [BApply 5 None (Some demo_plan)]) \<noteq> None"
    by code_simp
  then show ?thesis using beacon_state_truthful [OF refl, of demo_beacon False "[BApply 5 None (Some demo_plan)]"] by blast
qed

text \<open>
  The breaker's cooldown holds. In a responder whose account of itself is true, as it is in every
  run, when the loop of the open socket stops because its breaker opened, no socket is open for
  the next five minutes, whatever configurations arrive, whichever address they name, and whatever
  other loops report.
\<close>

theorem cooldown_holds:
  assumes ok: "resp_ok env r" and k: "k < length (rs_sockets r)" "sk_open (rs_sockets r ! k)"
    and trip: "serve_step env (sk_readErrs (rs_sockets r ! k)) (sk_loop (rs_sockets r ! k)) ev
      = (l, reply, errs, Some (stopBreaker, e))"
    and r1: "r1 = beacon_step env r (Serve t k ev)" and ops: "list_all (within t (t + breakerCooldown)) ops"
  shows "rs_state r1 = BeaconAgentCircuitOpen \<and> rs_cur (foldl (beacon_step env) r1 ops) = None"
proof -
  have ok1: "resp_ok env r1" unfolding r1 by (rule beacon_step_keeps [OF ok])
  have "rs_cur r = Some k" using ok k by (simp add: resp_ok_def)
  then have "rs_state r1 = BeaconAgentCircuitOpen" "rs_cur r1 = None" "rs_circuitUntil r1 = t + breakerCooldown"
    using k trip by (simp_all add: r1 serve_socket_def Let_def loopEnded_def)
  then show ?thesis using cooldown_run [OF ok1 _ _ ops] by simp
qed

definition demo_hot :: "unit responder" where
  "demo_hot = (NewResponder False)\<lparr>rs_state := BeaconAgentListening, rs_addr := Some (IPv4 ''192.0.2.1'', 4000),
     rs_sockets := [\<lparr>sk_addr = (IPv4 ''192.0.2.1'', 4000), sk_loop = (newLoop () 0)\<lparr>lp_breaker :=
       \<lparr>br_started = True, br_sec = 0, br_drops = 0, br_saturated = True, br_hot = 2 ^ 59 - 1\<rparr>\<rparr>,
       sk_readErrs = 0, sk_open = True\<rparr>], rs_cur := Some 0\<rparr>"

theorem cooldown_holds_witness:
  "rs_cur (foldl (beacon_step demo_beacon)
     (beacon_step demo_beacon demo_hot (Serve 3 0 (Received 3 ''x'' (IPv4 ''a'', 9) True)))
     [BApply 4 None (Some demo_plan)]) = None"
proof -
  have "bindAddr demo_beacon ''192.0.2.1'' 4000 = Inr (IPv4 ''192.0.2.1'', 4000)"
    by (simp add: bindAddr_def demo_beacon_def)
  then have ok: "resp_ok demo_beacon demo_hot"
    by (auto simp: resp_ok_def demo_hot_def NewResponder_def)
  obtain l reply errs st where st: "serve_step demo_beacon (sk_readErrs (rs_sockets demo_hot ! 0))
      (sk_loop (rs_sockets demo_hot ! 0)) (Received 3 ''x'' (IPv4 ''a'', 9) True) = (l, reply, errs, st)"
    by (metis prod_cases4)
  moreover have "snd (snd (snd (serve_step demo_beacon (sk_readErrs (rs_sockets demo_hot ! 0))
      (sk_loop (rs_sockets demo_hot ! 0)) (Received 3 ''x'' (IPv4 ''a'', 9) True)))) = Some (stopBreaker, [])"
    by code_simp
  ultimately have "serve_step demo_beacon (sk_readErrs (rs_sockets demo_hot ! 0))
      (sk_loop (rs_sockets demo_hot ! 0)) (Received 3 ''x'' (IPv4 ''a'', 9) True) = (l, reply, errs, Some (stopBreaker, []))"
    by simp
  from cooldown_holds [OF ok _ _ this refl, of 3 "[BApply 4 None (Some demo_plan)]"]
  show ?thesis by (simp add: demo_hot_def within_def breakerCooldown_def)
qed

text \<open>
  No amplification and no reply to strangers. A datagram draws a reply only when the guard let it
  through, its sender is not of a refused class or port zero, it has the length of a request, and
  the core answered it; the reply is no longer than the datagram. And each datagram is told to the
  breaker exactly once: as a spent budget, as kept or as dropped.
\<close>

theorem reply_only_to_requests:
  assumes p: "process env now pkt sender l = (l', n)" and m: "m = loop_mono l now"
    and v: "v = snd (allow (be_hash env) (as16 (fst sender)) m (lp_guard l))"
  shows "(n > 0 \<longrightarrow> v = guardAllow \<and> \<not> sourceRefused env sender \<and> length pkt = be_RequestLen env \<and>
      n \<le> length pkt \<and> n \<le> be_ReplyLen env \<and>
      (\<exists>core w. be_handle env now pkt (lp_core l) = (core, Some (int n, w)) \<and> be_replied env w)) \<and>
    lp_breaker l' = (case v of
        guardGlobalFull \<Rightarrow> saturate m (lp_breaker l)
      | guardBucketFull \<Rightarrow> record_datagram m False (lp_breaker l)
      | guardAllow \<Rightarrow> record_datagram m (n = 0) (lp_breaker l))"
proof -
  have cv: "lp_breaker (count_verdict w a) = lp_breaker a" for w and a :: "'a rx_loop" by (simp add: count_verdict_def)
  obtain g v' where a: "allow (be_hash env) (as16 (fst sender)) m (lp_guard l) = (g, v')" by fastforce
  then have "v' = v" using v by simp
  then show ?thesis using p a
    by (auto simp: process_def Let_def m [symmetric] note_datagram_def cv
        split: guard_verdict.splits if_splits prod.splits option.splits)
qed

theorem reply_only_to_requests_witness:
  "snd (process demo_beacon 5 ''ping'' (IPv4 ''a'', 9) (newLoop () 0)) = 2 \<and> 2 \<le> length ''ping''"
proof -
  obtain l' n where p: "process demo_beacon 5 ''ping'' (IPv4 ''a'', 9) (newLoop () 0) = (l', n)" by fastforce
  moreover have "snd (process demo_beacon 5 ''ping'' (IPv4 ''a'', 9) (newLoop () 0)) = 2" by code_simp
  ultimately show ?thesis using reply_only_to_requests [OF p refl refl] by simp
qed

end
