(* ===== verification/Monitor_Results.thy ===== *)
theory Monitor_Results
  imports Go_Prelude
begin

text \<open>
  The queue of monitor results (\<open>src/cmd/lattice-agent/monitor_results.go\<close>), from the probes that
  push results to the requests that report them.

  Pushes go on while a request is on the wire, so a run is a sequence of pushes, turns of \<open>flush\<close>
  and answers in any order. A flush is in one of the phases \<open>Top\<close> (about to take a batch),
  \<open>BatchOut\<close> (a batch is on the wire) and \<open>SingleOut\<close> (a result is on the wire, the first of the
  list); \<open>flushMu\<close> makes it one at a time. A result is of any type; an HTTP exchange is the value
  it ends with. Log lines are left out.
\<close>

section \<open>Definitions\<close>

definition monitorResultQueueMax :: nat where "monitorResultQueueMax = 2000"
definition monitorResultBatchMax :: nat where "monitorResultBatchMax = 200"
definition monitorResultFlushBatches :: nat where "monitorResultFlushBatches = 5"
definition monitorBatchReprobe :: duration where "monitorBatchReprobe = 30 * minute"

record 'r queued_result =
  qm_seq :: "64 word"
  qm_result :: 'r

record result_drop =
  rd_Index :: int
  rd_MonitorID :: string
  rd_Reason :: string

text \<open>How a request ends: answered, with the results the server dropped; an HTTP error; no answer.\<close>

datatype post_answer = Answered "result_drop list" | HttpError int | NoAnswer

fun agentHTTPStatusCode :: "post_answer \<Rightarrow> int option" where
  "agentHTTPStatusCode (HttpError code) = Some code"
| "agentHTTPStatusCode NoAnswer = None"
| "agentHTTPStatusCode (Answered drops) = None"

record 'r monitor_queue =
  mq_items :: "'r queued_result list"
  mq_nextSeq :: "64 word"
  mq_dropped :: "64 word"
  mq_droppedLogged :: "64 word"
  mq_batchOffUntil :: gotime

definition newMonitorResultQueue :: "'r monitor_queue" where
  "newMonitorResultQueue =
     \<lparr>mq_items = [], mq_nextSeq = 0, mq_dropped = 0, mq_droppedLogged = 0, mq_batchOffUntil = 0\<rparr>"

definition push_result :: "'r \<Rightarrow> 'r monitor_queue \<Rightarrow> 'r monitor_queue" where
  "push_result r q =
     (let q = q\<lparr>mq_nextSeq := mq_nextSeq q + 1\<rparr>;
          q = q\<lparr>mq_items := mq_items q @ [\<lparr>qm_seq = mq_nextSeq q, qm_result = r\<rparr>]\<rparr>;
          over = int (length (mq_items q)) - int monitorResultQueueMax
      in if over > 0
         then q\<lparr>mq_items := drop (nat over) (mq_items q), mq_dropped := mq_dropped q + word_of_int over\<rparr>
         else q)"

definition countDropped :: "nat \<Rightarrow> 'r monitor_queue \<Rightarrow> 'r monitor_queue" where
  "countDropped n q = q\<lparr>mq_dropped := mq_dropped q + word_of_nat n\<rparr>"

definition droppedSinceLog :: "'r monitor_queue \<Rightarrow> 'r monitor_queue \<times> 64 word \<times> 64 word" where
  "droppedSinceLog q =
     (q\<lparr>mq_droppedLogged := mq_dropped q\<rparr>, mq_dropped q - mq_droppedLogged q, mq_dropped q)"

definition queue_stats :: "'r monitor_queue \<Rightarrow> nat \<times> 64 word" where
  "queue_stats q = (length (mq_items q), mq_dropped q)"

definition queue_head :: "nat \<Rightarrow> 'r monitor_queue \<Rightarrow> 'r queued_result list" where
  "queue_head n q = take (if n > length (mq_items q) then length (mq_items q) else n) (mq_items q)"

fun settled :: "64 word \<Rightarrow> 'r queued_result list \<Rightarrow> nat" where
  "settled seq [] = 0"
| "settled seq (x # xs) = (if qm_seq x \<le> seq then Suc (settled seq xs) else 0)"

definition settle :: "64 word \<Rightarrow> 'r monitor_queue \<Rightarrow> 'r monitor_queue" where
  "settle seq q =
     (let i = settled seq (mq_items q)
      in if i > 0 then q\<lparr>mq_items := drop i (mq_items q)\<rparr> else q)"

definition batchAllowed :: "gotime \<Rightarrow> 'r monitor_queue \<Rightarrow> bool" where
  "batchAllowed now q \<longleftrightarrow> \<not> now < mq_batchOffUntil q"

definition disableBatch :: "gotime \<Rightarrow> 'r monitor_queue \<Rightarrow> 'r monitor_queue" where
  "disableBatch now q = q\<lparr>mq_batchOffUntil := now + monitorBatchReprobe\<rparr>"

text \<open>\<open>sendBatch\<close> after its request has ended; the error it returns, if any.\<close>

definition sendBatch ::
  "'r queued_result list \<Rightarrow> post_answer \<Rightarrow> 'r monitor_queue \<Rightarrow> 'r monitor_queue \<times> post_answer option" where
  "sendBatch batch ans q =
     (case ans of
        Answered drops \<Rightarrow>
          (let q = settle (qm_seq (last batch)) q
           in (if length drops > 0 then countDropped (length drops) q else q, None))
      | _ \<Rightarrow>
          (if agentHTTPStatusCode ans = Some 400
           then (countDropped (length batch) (settle (qm_seq (last batch)) q), None)
           else (q, Some ans)))"

text \<open>The body of the loop of \<open>sendSingles\<close> after its request has ended.\<close>

definition stops_singles :: "post_answer \<Rightarrow> bool" where
  "stops_singles ans =
     (case agentHTTPStatusCode ans of
        None \<Rightarrow> True
      | Some code \<Rightarrow> code \<ge> 500 \<or> code = 401 \<or> code = 429)"

definition sendSingle ::
  "'r queued_result \<Rightarrow> post_answer \<Rightarrow> 'r monitor_queue \<Rightarrow> 'r monitor_queue \<times> post_answer option" where
  "sendSingle item ans q =
     (case ans of
        Answered drops \<Rightarrow> (settle (qm_seq item) q, None)
      | _ \<Rightarrow>
          (if stops_singles ans then (q, Some ans)
           else (settle (qm_seq item) (countDropped 1 q), None)))"

subsection \<open>A flush and what happens meanwhile\<close>

datatype 'r flush_phase =
    Idle "post_answer option"
  | Top nat
  | BatchOut nat "'r queued_result list"
  | SingleOut nat "'r queued_result list"

text \<open>
  The top of the loop of \<open>flush\<close>: leave it, or send what the queue holds first. \<open>Idle\<close> has the
  error the last flush returned.
\<close>

definition flush_turn :: "gotime \<Rightarrow> nat \<Rightarrow> 'r monitor_queue \<Rightarrow> 'r flush_phase" where
  "flush_turn now i q =
     (if i \<ge> monitorResultFlushBatches then Idle None
      else
        let batch = queue_head monitorResultBatchMax q
        in if batch = [] then Idle None
           else if batchAllowed now q then BatchOut i batch
           else SingleOut i batch)"

definition batch_answered ::
  "gotime \<Rightarrow> nat \<Rightarrow> 'r queued_result list \<Rightarrow> post_answer \<Rightarrow> 'r monitor_queue
   \<Rightarrow> 'r monitor_queue \<times> 'r flush_phase" where
  "batch_answered now i batch ans q =
     (case sendBatch batch ans q of
        (q, None) \<Rightarrow> (q, Top (i + 1))
      | (q, Some err) \<Rightarrow>
          (if agentHTTPStatusCode err \<noteq> Some 404 then (q, Idle (Some err))
           else (disableBatch now q, SingleOut i batch)))"

definition single_answered ::
  "nat \<Rightarrow> 'r queued_result list \<Rightarrow> post_answer \<Rightarrow> 'r monitor_queue \<Rightarrow> 'r monitor_queue \<times> 'r flush_phase" where
  "single_answered i batch ans q =
     (case sendSingle (hd batch) ans q of
        (q, Some err) \<Rightarrow> (q, Idle (Some err))
      | (q, None) \<Rightarrow> (q, if tl batch = [] then Top (i + 1) else SingleOut i (tl batch)))"

text \<open>
  A run. Beside the queue and the flush it keeps what the theorems speak of: every result ever
  pushed, the results whose request was answered for good, in the order of the requests, how many
  of them the server kept (those it did not list as dropped), how many were ever counted as dropped,
  and how many results had already been dropped for space when their request was answered.
\<close>

record 'r mw =
  mw_q :: "'r monitor_queue"
  mw_phase :: "'r flush_phase"
  mw_pushed :: "'r queued_result list"
  mw_answered :: "'r queued_result list"
  mw_kept :: int
  mw_counted :: nat
  mw_late :: nat

definition mw_start :: "'r mw" where
  "mw_start = \<lparr>mw_q = newMonitorResultQueue, mw_phase = Idle None, mw_pushed = [], mw_answered = [],
     mw_kept = 0, mw_counted = 0, mw_late = 0\<rparr>"

datatype 'r mw_op = Push 'r | LogDrops | Flush | Turn gotime | Answer gotime post_answer

definition note_push :: "'r \<Rightarrow> 'r mw \<Rightarrow> 'r mw" where
  "note_push r w =
     (let q = push_result r (mw_q w)
      in w\<lparr>mw_q := q, mw_pushed := mw_pushed w @ [\<lparr>qm_seq = mq_nextSeq q, qm_result = r\<rparr>],
           mw_counted := mw_counted w + (length (mq_items (mw_q w)) + 1 - length (mq_items q))\<rparr>)"

definition note_final :: "'r queued_result list \<Rightarrow> int \<Rightarrow> nat \<Rightarrow> 'r mw \<Rightarrow> 'r mw" where
  "note_final sent kept counted w =
     w\<lparr>mw_answered := mw_answered w @ sent, mw_kept := mw_kept w + kept,
       mw_counted := mw_counted w + counted,
       mw_late := mw_late w + length (filter (\<lambda>x. x \<notin> set (mq_items (mw_q w))) sent)\<rparr>"

definition note_batch :: "'r queued_result list \<Rightarrow> post_answer \<Rightarrow> 'r mw \<Rightarrow> 'r mw" where
  "note_batch batch ans w =
     (case ans of
        Answered drops \<Rightarrow> note_final batch (int (length batch) - int (length drops)) (length drops) w
      | HttpError code \<Rightarrow> (if code = 400 then note_final batch 0 (length batch) w else w)
      | NoAnswer \<Rightarrow> w)"

definition note_single :: "'r queued_result \<Rightarrow> post_answer \<Rightarrow> 'r mw \<Rightarrow> 'r mw" where
  "note_single item ans w =
     (case ans of
        Answered drops \<Rightarrow> note_final [item] 1 0 w
      | _ \<Rightarrow> (if stops_singles ans then w else note_final [item] 0 1 w))"

fun mw_step :: "'r mw \<Rightarrow> 'r mw_op \<Rightarrow> 'r mw" where
  "mw_step w (Push r) = note_push r w"
| "mw_step w LogDrops = w\<lparr>mw_q := fst (droppedSinceLog (mw_q w))\<rparr>"
| "mw_step w Flush = (case mw_phase w of Idle err \<Rightarrow> w\<lparr>mw_phase := Top 0\<rparr> | _ \<Rightarrow> w)"
| "mw_step w (Turn now) =
     (case mw_phase w of Top i \<Rightarrow> w\<lparr>mw_phase := flush_turn now i (mw_q w)\<rparr> | _ \<Rightarrow> w)"
| "mw_step w (Answer now ans) =
     (case mw_phase w of
        BatchOut i batch \<Rightarrow>
          (let (q, ph) = batch_answered now i batch ans (mw_q w)
           in (note_batch batch ans w)\<lparr>mw_q := q, mw_phase := ph\<rparr>)
      | SingleOut i batch \<Rightarrow>
          (let (q, ph) = single_answered i batch ans (mw_q w)
           in (note_single (hd batch) ans w)\<lparr>mw_q := q, mw_phase := ph\<rparr>)
      | _ \<Rightarrow> w)"

definition outstanding :: "'r mw \<Rightarrow> 'r queued_result list" where
  "outstanding w =
     (case mw_phase w of BatchOut i batch \<Rightarrow> batch | SingleOut i batch \<Rightarrow> batch | _ \<Rightarrow> [])"

section \<open>Lemmas\<close>

subsection \<open>Sequence numbers\<close>

definition numbered :: "'r queued_result list \<Rightarrow> bool" where
  "numbered P \<longleftrightarrow> length P < 2 ^ 64 \<and> (\<forall>i < length P. qm_seq (P ! i) = word_of_nat (Suc i))"

lemma seq_le: "i < 2 ^ 64 \<Longrightarrow> j < 2 ^ 64 \<Longrightarrow> (word_of_nat i :: 64 word) \<le> word_of_nat j \<longleftrightarrow> i \<le> j"
  by (simp add: word_of_nat_less_eq_iff take_bit_nat_eq_self)

lemma numbered_seq: "numbered P \<Longrightarrow> i < length P \<Longrightarrow> e < length P + 1 \<Longrightarrow>
  qm_seq (P ! i) \<le> word_of_nat e \<longleftrightarrow> i < e"
  using seq_le [of "Suc i" e] by (auto simp: numbered_def)

lemma numbered_distinct:
  assumes P: "numbered P" shows "distinct P"
proof -
  have "P ! i \<noteq> P ! j" if "i < j" "j < length P" for i j
    using numbered_seq [OF P, of i "Suc i"] numbered_seq [OF P, of j "Suc i"] that by auto
  then show ?thesis by (metis distinct_conv_nth linorder_neqE_nat)
qed

lemma settled_drop:
  assumes P: "numbered P" and "a \<le> length P" "e \<le> length P"
  shows "settled (word_of_nat e) (drop a P) = e - a"
  using assms(2)
proof (induction "length P - a" arbitrary: a)
  case (Suc n)
  then have a: "a < length P" by simp
  have IH: "settled (word_of_nat e) (drop (Suc a) P) = e - Suc a" using Suc(1) [of "Suc a"] Suc(2) a by simp
  have "drop a P = P ! a # drop (Suc a) P" using a by (simp add: Cons_nth_drop_Suc)
  then show ?case using IH numbered_seq [OF P a, of e] assms(3) by auto
qed (use assms in simp)

lemma settle_drop:
  assumes P: "numbered P" and "mq_items q = drop a P" "a \<le> length P" "e \<le> length P"
  shows "settle (word_of_nat e) q = q\<lparr>mq_items := drop (max a e) P\<rparr>"
  using assms settled_drop [OF P assms(3,4)] by (auto simp: settle_def Let_def max_def)

subsection \<open>The invariant\<close>

text \<open>\<open>a\<close> results have left the queue at its head.\<close>

definition mw_at :: "nat \<Rightarrow> 'r mw \<Rightarrow> bool" where
  "mw_at a w \<longleftrightarrow>
     mq_nextSeq (mw_q w) = word_of_nat (length (mw_pushed w)) \<and>
     a \<le> length (mw_pushed w) \<and> length (mw_pushed w) - a \<le> monitorResultQueueMax \<and>
     mq_items (mw_q w) = drop a (mw_pushed w) \<and>
     int a + int (mw_late w) = mw_kept w + int (mw_counted w) \<and>
     mq_dropped (mw_q w) = word_of_nat (mw_counted w)"

text \<open>\<open>sent\<close> is on the wire, the results from number \<open>b\<close> on, and only earlier ones were answered.\<close>

definition sent_at :: "nat \<Rightarrow> 'r queued_result list \<Rightarrow> nat \<Rightarrow> 'r mw \<Rightarrow> bool" where
  "sent_at a sent b w \<longleftrightarrow> b \<le> a \<and> b + length sent \<le> length (mw_pushed w) \<and>
     sent = take (length sent) (drop b (mw_pushed w)) \<and> subseq (mw_answered w) (take b (mw_pushed w))"

definition mw_ok :: "'r mw \<Rightarrow> bool" where
  "mw_ok w \<longleftrightarrow> numbered (mw_pushed w) \<and>
     (\<exists>a. mw_at a w \<and> (\<exists>b. sent_at a (outstanding w) b w) \<and>
      (case mw_phase w of BatchOut i batch \<Rightarrow> batch \<noteq> [] | SingleOut i batch \<Rightarrow> batch \<noteq> [] | _ \<Rightarrow> True))"

lemma mem_drop_iff:
  assumes "distinct P" "i < length P"
  shows "P ! i \<in> set (drop a P) \<longleftrightarrow> a \<le> i"
proof
  assume "P ! i \<in> set (drop a P)"
  then obtain j where "j < length P - a" "P ! (a + j) = P ! i" by (auto simp: in_set_conv_nth)
  then show "a \<le> i" using assms nth_eq_iff_index_eq [of P "a + j" i] by auto
next
  assume "a \<le> i"
  then show "P ! i \<in> set (drop a P)"
    using assms(2) by (auto simp: in_set_conv_nth intro!: exI [of _ "i - a"])
qed

lemma late_count:
  assumes "distinct P" "b \<le> a" "b + k \<le> length P"
  shows "length (filter (\<lambda>x. x \<notin> set (drop a P)) (take k (drop b P))) = min a (b + k) - b"
  using assms(3)
proof (induction k)
  case (Suc k)
  then have "take (Suc k) (drop b P) = take k (drop b P) @ [P ! (b + k)]"
    by (simp add: take_Suc_conv_app_nth)
  then show ?case using Suc mem_drop_iff [OF assms(1), of "b + k" a] assms(2) by auto
qed simp

lemma sent_last:
  assumes "numbered (mw_pushed w)" "sent_at a sent b w" "sent \<noteq> []"
  shows "qm_seq (last sent) = word_of_nat (b + length sent)"
proof -
  have t: "sent = take (length sent) (drop b (mw_pushed w))" using assms(2) by (simp add: sent_at_def)
  have "last sent = sent ! (length sent - 1)" using assms(3) by (simp add: last_conv_nth)
  also have "\<dots> = take (length sent) (drop b (mw_pushed w)) ! (length sent - 1)"
    by (rule arg_cong [OF t])
  also have "\<dots> = mw_pushed w ! (b + (length sent - 1))"
  proof -
    have "take n (drop b P) ! (n - 1) = P ! (b + (n - 1))" if "n > 0" "b + n \<le> length P" for n and P :: "'a queued_result list"
      using that by simp
    moreover have "length sent > 0" "b + length sent \<le> length (mw_pushed w)" using assms(2,3) by (auto simp: sent_at_def)
    ultimately show ?thesis by blast
  qed
  finally have "last sent = mw_pushed w ! (b + (length sent - 1))" .
  moreover have "length sent > 0" "b + length sent \<le> length (mw_pushed w)"
    using assms(2,3) unfolding sent_at_def by auto
  then have "b + (length sent - 1) < length (mw_pushed w)" "Suc (b + (length sent - 1)) = b + length sent" by linarith+
  ultimately show ?thesis using assms(1) unfolding numbered_def by metis
qed

subsection \<open>Steps\<close>

lemma push_queue:
  "mq_nextSeq (push_result r q) = mq_nextSeq q + 1"
  "mq_items (push_result r q) = drop (length (mq_items q) + 1 - monitorResultQueueMax)
     (mq_items q @ [\<lparr>qm_seq = mq_nextSeq q + 1, qm_result = r\<rparr>])"
  "mq_dropped (push_result r q) = mq_dropped q + word_of_nat (length (mq_items q) + 1 - monitorResultQueueMax)"
proof -
  have *: "int (Suc (length (mq_items q))) - int monitorResultQueueMax > 0 \<Longrightarrow>
    int (Suc (length (mq_items q))) - int monitorResultQueueMax = int (length (mq_items q) + 1 - monitorResultQueueMax)"
    by linarith
  show "mq_nextSeq (push_result r q) = mq_nextSeq q + 1" by (simp add: push_result_def Let_def)
  show "mq_items (push_result r q) = drop (length (mq_items q) + 1 - monitorResultQueueMax)
     (mq_items q @ [\<lparr>qm_seq = mq_nextSeq q + 1, qm_result = r\<rparr>])"
    using * by (auto simp: push_result_def Let_def nat_diff_distrib' simp del: of_nat_Suc)
  show "mq_dropped (push_result r q) = mq_dropped q + word_of_nat (length (mq_items q) + 1 - monitorResultQueueMax)"
    using * by (auto simp: push_result_def Let_def simp del: of_nat_Suc)
qed

lemma note_push_length: "length (mw_pushed (note_push r w)) = length (mw_pushed w) + 1"
  by (simp add: note_push_def Let_def)

lemma numbered_snoc:
  "numbered P \<Longrightarrow> length P + 1 < 2 ^ 64 \<Longrightarrow> qm_seq x = word_of_nat (length P) + 1 \<Longrightarrow> numbered (P @ [x])"
  by (auto simp: numbered_def nth_append less_Suc_eq)

lemma push_ok:
  assumes ok: "mw_ok w" and len: "length (mw_pushed w) + 1 < 2 ^ 64"
  shows "mw_ok (note_push r w)"
proof -
  let ?P = "mw_pushed w" and ?x = "\<lparr>qm_seq = mq_nextSeq (mw_q w) + 1, qm_result = r\<rparr>"
  obtain a b where a: "mw_at a w" and b: "sent_at a (outstanding w) b w" and P: "numbered ?P"
    and ne: "case mw_phase w of BatchOut i batch \<Rightarrow> batch \<noteq> [] | SingleOut i batch \<Rightarrow> batch \<noteq> [] | _ \<Rightarrow> True"
    using ok unfolding mw_ok_def by blast
  define over where "over = length (mq_items (mw_q w)) + 1 - monitorResultQueueMax"
  have le: "over \<le> length (mq_items (mw_q w)) + 1" by (simp add: over_def)
  have len': "length (mq_items (push_result r (mw_q w))) = length (mq_items (mw_q w)) + 1 - over"
    by (simp add: push_queue(2) over_def)
  have w': "note_push r w = w\<lparr>mw_q := push_result r (mw_q w), mw_pushed := ?P @ [?x], mw_counted := mw_counted w + over\<rparr>"
    using le len' by (simp add: note_push_def Let_def push_queue(1))
  have "numbered (?P @ [?x])" using numbered_snoc [OF P len] a by (simp add: mw_at_def)
  moreover have "mw_at (a + over) (note_push r w)"
  proof -
    have "mq_items (mw_q w) = drop a ?P" "a \<le> length ?P" using a by (simp_all add: mw_at_def)
    then have items: "mq_items (push_result r (mw_q w)) = drop (a + over) (?P @ [?x])"
      unfolding push_queue(2) over_def [symmetric] by (simp add: add.commute flip: drop_append [of a ?P])
    have d: "mq_dropped (push_result r (mw_q w)) = mq_dropped (mw_q w) + word_of_nat over"
      by (simp only: push_queue(3) over_def)
    have "a + over \<le> Suc (length ?P)" "length ?P + 1 - (a + over) \<le> monitorResultQueueMax"
    proof -
      have "length (mq_items (mw_q w)) = length ?P - a" "a \<le> length ?P" using a by (simp_all add: mw_at_def)
      then show "a + over \<le> Suc (length ?P)" "length ?P + 1 - (a + over) \<le> monitorResultQueueMax"
        unfolding over_def by arith+
    qed
    then show ?thesis using a items d by (simp add: w' mw_at_def push_queue(1) del: drop_append)
  qed
  moreover have "outstanding (note_push r w) = outstanding w" by (simp add: w' outstanding_def)
  moreover have "sent_at (a + over) (outstanding w) b (note_push r w)"
    using b by (auto simp: sent_at_def w')
  ultimately show ?thesis using ne unfolding mw_ok_def by (auto simp: w')
qed

text \<open>A request answered for good: its results leave the queue unless they have left already.\<close>

lemma final_ok:
  assumes P: "numbered (mw_pushed w)" and a: "mw_at a w" and b: "sent_at a (sent @ rest) b w"
    and sent: "sent \<noteq> []" and n: "kept + int counted = int (length sent)"
    and seq: "seq = qm_seq (last sent)"
    and w'_def: "w' = (note_final sent kept counted w)\<lparr>mw_q := countDropped counted (settle seq (mw_q w)), mw_phase := ph\<rparr>"
  shows "mw_at (max a (b + length sent)) w' \<and> sent_at (max a (b + length sent)) rest (b + length sent) w'"
proof -
  let ?P = "mw_pushed w" and ?e = "b + length sent"
  have split: "sent @ rest = take (length sent + length rest) (drop b ?P)" and e: "?e + length rest \<le> length ?P" "b \<le> a"
    using b by (simp_all add: sent_at_def)
  have "take (length sent + length rest) (drop b ?P) = take (length sent) (drop b ?P) @ take (length rest) (drop ?e ?P)"
    by (simp only: take_add drop_drop add.commute [of "length sent" b])
  then have parts: "sent = take (length sent) (drop b ?P)" "rest = take (length rest) (drop ?e ?P)"
    using split e by simp_all
  then have s: "sent_at a sent b w" using b by (simp add: sent_at_def)
  have q: "settle seq (mw_q w) = (mw_q w)\<lparr>mq_items := drop (max a ?e) ?P\<rparr>"
    unfolding seq sent_last [OF P s sent] by (rule settle_drop [OF P]) (use a e in \<open>simp_all add: mw_at_def\<close>)
  have late: "length (filter (\<lambda>x. x \<notin> set (drop a ?P)) sent) = min a ?e - b"
    using late_count [OF numbered_distinct [OF P], of b a "length sent"] e parts(1) by simp
  have "subseq (mw_answered w @ sent) (take b ?P @ take (length sent) (drop b ?P))"
    using b parts(1) by (simp add: sent_at_def list_emb_append_mono)
  then have "subseq (mw_answered w @ sent) (take ?e ?P)" by (simp add: take_add)
  then have "sent_at (max a ?e) rest ?e w'" using e parts(2) by (simp add: sent_at_def w'_def note_final_def)
  moreover have "int (max a ?e) + int (min a ?e - b) = int a + int (length sent)" using e by (simp add: max_def min_def)
  then have "mw_at (max a ?e) w'"
    using a e q late n by (auto simp: mw_at_def w'_def note_final_def countDropped_def)
  ultimately show ?thesis by blast
qed

lemma countDropped_0 [simp]: "countDropped 0 q = q"
  by (simp add: countDropped_def)

lemma batch_cases:
  "(case sendBatch batch ans q0 of (q, None) \<Rightarrow> \<exists>kept counted.
       kept + int counted = int (length batch) \<and> q = countDropped counted (settle (qm_seq (last batch)) q0) \<and>
       note_batch batch ans w = note_final batch kept counted w
     | (q, Some err) \<Rightarrow> err = ans \<and> q = q0 \<and> note_batch batch ans w = w)"
proof (cases ans)
  case (Answered drops)
  then show ?thesis
    by (auto simp: sendBatch_def note_batch_def Let_def intro!: exI [of _ "int (length batch) - int (length drops)"] exI [of _ "length drops :: nat"])
next
  case (HttpError code)
  then show ?thesis
    by (auto simp: sendBatch_def note_batch_def intro!: exI [of _ "0 :: int"] exI [of _ "length batch"])
qed (simp add: sendBatch_def note_batch_def)

lemma single_cases:
  "(case sendSingle item ans q0 of (q, None) \<Rightarrow> \<exists>kept counted.
       kept + int counted = 1 \<and> q = countDropped counted (settle (qm_seq item) q0) \<and>
       note_single item ans w = note_final [item] kept counted w
     | (q, Some err) \<Rightarrow> err = ans \<and> q = q0 \<and> note_single item ans w = w)"
proof (cases "\<exists>drops. ans = Answered drops")
  case True
  then have "sendSingle item ans q0 = (settle (qm_seq item) q0, None)" "note_single item ans w = note_final [item] 1 0 w"
    by (auto simp: sendSingle_def note_single_def)
  then show ?thesis by (auto intro!: exI [of _ "1 :: int"] exI [of _ "0 :: nat"])
next
  case False
  have swap: "settle s (countDropped 1 q0) = countDropped 1 (settle s q0)" for s
    by (simp add: settle_def countDropped_def Let_def)
  from False show ?thesis using swap
    by (auto simp: sendSingle_def note_single_def split: post_answer.split intro!: exI [of _ "0 :: int"] exI [of _ "1 :: nat"])
qed


lemma same_at [simp]:
  "mw_at a (w\<lparr>mw_phase := ph\<rparr>) = mw_at a w" "sent_at a sent b (w\<lparr>mw_phase := ph\<rparr>) = sent_at a sent b w"
  "mw_at a (w\<lparr>mw_q := fst (droppedSinceLog (mw_q w))\<rparr>) = mw_at a w"
  "mw_at a (w\<lparr>mw_q := disableBatch now (mw_q w)\<rparr>) = mw_at a w"
  "sent_at a sent b (w\<lparr>mw_q := q\<rparr>) = sent_at a sent b w"
  by (simp_all add: mw_at_def sent_at_def droppedSinceLog_def disableBatch_def)

lemma ok_intro:
  assumes "numbered (mw_pushed w)" "mw_at a w" "sent_at a sent b w" "outstanding w = sent"
    "case mw_phase w of BatchOut i batch \<Rightarrow> batch \<noteq> [] | SingleOut i batch \<Rightarrow> batch \<noteq> [] | _ \<Rightarrow> True"
  shows "mw_ok w"
  using assms unfolding mw_ok_def by blast

lemma turn_ok:
  assumes ok: "mw_ok w" and ph: "mw_phase w = Top i"
  shows "mw_ok (w\<lparr>mw_phase := flush_turn now i (mw_q w)\<rparr>)"
proof -
  let ?w = "w\<lparr>mw_phase := flush_turn now i (mw_q w)\<rparr>"
  obtain a b where P: "numbered (mw_pushed w)" and a: "mw_at a w" and b: "sent_at a [] b w"
    using ok ph unfolding mw_ok_def outstanding_def by auto
  have ans: "subseq (mw_answered w) (take a (mw_pushed w))"
    using b take_add [of b "a - b" "mw_pushed w"] by (auto simp: sent_at_def)
  have h: "outstanding ?w = [] \<or> outstanding ?w = take monitorResultBatchMax (drop a (mw_pushed w)) \<and> outstanding ?w \<noteq> []"
    using a by (auto simp: outstanding_def flush_turn_def Let_def queue_head_def mw_at_def)
  have len: "a \<le> length (mw_pushed w)" using a by (simp add: mw_at_def)
  have "sent_at a (outstanding ?w) a ?w"
    using h ans len by (auto simp: sent_at_def min_def)
  moreover have "mw_at a ?w" using a by (simp add: mw_at_def)
  ultimately show ?thesis using P h
    by (intro ok_intro [of ?w a _ a]) (auto simp: flush_turn_def Let_def)
qed

lemma answer_ok:
  assumes ok: "mw_ok w"
  shows "mw_ok (mw_step w (Answer now ans))"
proof -
  obtain a b where P: "numbered (mw_pushed w)" and a: "mw_at a w" and b: "sent_at a (outstanding w) b w"
    and ne: "case mw_phase w of BatchOut i batch \<Rightarrow> batch \<noteq> [] | SingleOut i batch \<Rightarrow> batch \<noteq> [] | _ \<Rightarrow> True"
    using ok unfolding mw_ok_def by blast
  have stay: "mw_ok (w\<lparr>mw_q := q, mw_phase := ph\<rparr>)"
    if "q = mw_q w \<or> q = disableBatch now (mw_q w)" "ph = Idle e \<or> ph = SingleOut i (outstanding w) \<and> outstanding w \<noteq> []" for q ph e i
  proof -
    have "sent_at a [] b w" using b by (simp add: sent_at_def)
    then show ?thesis using that P a b
      by (intro ok_intro [of _ a "outstanding (w\<lparr>mw_q := q, mw_phase := ph\<rparr>)" b])
        (auto simp: outstanding_def)
  qed
  show ?thesis
  proof (cases "mw_phase w")
    case (BatchOut i batch)
    then have out: "outstanding w = batch" "batch \<noteq> []" using ne by (auto simp: outstanding_def)
    obtain q e where s: "sendBatch batch ans (mw_q w) = (q, e)" by fastforce
    show ?thesis
    proof (cases e)
      case None
      then obtain kept counted where f: "kept + int counted = int (length batch)"
        "q = countDropped counted (settle (qm_seq (last batch)) (mw_q w))" "note_batch batch ans w = note_final batch kept counted w"
        using batch_cases [of batch "mw_q w" ans w] s by auto
      have b': "sent_at a (batch @ []) b w" using b out by simp
      from final_ok [OF P a b' out(2) f(1) refl refl, of "Top (i + 1)"] show ?thesis
        using BatchOut s None f P by (intro ok_intro) (auto simp: batch_answered_def outstanding_def note_final_def)
    next
      case (Some err)
      then show ?thesis using batch_cases [of batch "mw_q w" ans w] s BatchOut out
          stay [of "disableBatch now (mw_q w)" "SingleOut i batch"] stay [of "mw_q w" "Idle (Some err)"]
        by (auto simp: batch_answered_def)
    qed
  next
    case (SingleOut i batch)
    then have out: "outstanding w = batch" "batch \<noteq> []" using ne by (auto simp: outstanding_def)
    obtain q e where s: "sendSingle (hd batch) ans (mw_q w) = (q, e)" by fastforce
    show ?thesis
    proof (cases e)
      case None
      then obtain kept counted where f: "kept + int counted = int (length [hd batch])"
        "q = countDropped counted (settle (qm_seq (hd batch)) (mw_q w))" "note_single (hd batch) ans w = note_final [hd batch] kept counted w"
        using single_cases [of "hd batch" "mw_q w" ans w] s by auto
      have b': "sent_at a ([hd batch] @ tl batch) b w" using b out by simp
      from final_ok [OF P a b' _ f(1) refl refl, of "if tl batch = [] then Top (i + 1) else SingleOut i (tl batch)"] show ?thesis
        using SingleOut s None f P by (intro ok_intro) (auto simp: single_answered_def outstanding_def note_final_def)
    next
      case (Some err)
      then show ?thesis using single_cases [of "hd batch" "mw_q w" ans w] s SingleOut out
          stay [of "mw_q w" "Idle (Some err)"]
        by (auto simp: single_answered_def)
    qed
  qed (use ok in simp_all)
qed

lemma pushed_grows:
  "length (mw_pushed w) \<le> length (mw_pushed (mw_step w op))"
  by (cases op) (auto simp: note_push_def Let_def note_batch_def note_single_def note_final_def case_prod_beta
      split: flush_phase.split post_answer.split)

definition mw_inv :: "'r mw \<Rightarrow> bool" where
  "mw_inv w \<longleftrightarrow> (length (mw_pushed w) < 2 ^ 64 \<longrightarrow> mw_ok w)"

lemma mw_step_inv: "mw_inv w \<Longrightarrow> mw_inv (mw_step w op)"
proof (cases op)
  case (Push r)
  moreover assume "mw_inv w"
  ultimately show ?thesis using push_ok [of w r] by (auto simp: mw_inv_def note_push_length)
next
  case LogDrops
  moreover assume "mw_inv w"
  ultimately show ?thesis by (auto simp: mw_inv_def mw_ok_def outstanding_def)
next
  case Flush
  moreover assume "mw_inv w"
  ultimately show ?thesis
    by (fastforce simp: mw_inv_def mw_ok_def outstanding_def split: flush_phase.split)
next
  case (Turn now)
  moreover assume "mw_inv w"
  ultimately show ?thesis by (auto simp: mw_inv_def intro: turn_ok split: flush_phase.split)
next
  case (Answer now ans)
  moreover assume "mw_inv w"
  ultimately show ?thesis using pushed_grows [of w op] answer_ok [of w now ans] by (auto simp: mw_inv_def)
qed

interpretation mw_run: invariant_run mw_step mw_inv
  by unfold_locales (rule mw_step_inv)

lemma mw_start_inv: "mw_inv mw_start"
proof -
  have "mw_at 0 mw_start" "sent_at 0 [] 0 mw_start" "numbered (mw_pushed mw_start)"
    by (simp_all add: mw_at_def sent_at_def numbered_def mw_start_def newMonitorResultQueue_def)
  then show ?thesis unfolding mw_inv_def by (intro impI ok_intro) (auto simp: outstanding_def mw_start_def)
qed


subsection \<open>A flush against a server that answers\<close>

lemma flush_round:
  assumes ok: "mw_ok w" and ph: "mw_phase w = Top i" "i < monitorResultFlushBatches"
    and t: "batchAllowed t (mw_q w)"
    and w'_def: "w' = mw_step (mw_step w (Turn t)) (Answer t (Answered ds))"
  shows "mw_phase w' = (if mq_items (mw_q w) = [] then Idle None else Top (i + 1))"
    and "mq_items (mw_q w') = drop monitorResultBatchMax (mq_items (mw_q w))"
    and "mq_batchOffUntil (mw_q w') = mq_batchOffUntil (mw_q w)"
proof -
  have batch: "queue_head monitorResultBatchMax (mw_q w) = take monitorResultBatchMax (mq_items (mw_q w))"
    by (simp add: queue_head_def)
  let ?b = "take monitorResultBatchMax (mq_items (mw_q w))"
  have max: "monitorResultBatchMax > 0" by (simp add: monitorResultBatchMax_def)
  show "mw_phase w' = (if mq_items (mw_q w) = [] then Idle None else Top (i + 1))"
    and "mq_batchOffUntil (mw_q w') = mq_batchOffUntil (mw_q w)"
    using ph t max by (auto simp: w'_def flush_turn_def Let_def batch batch_answered_def sendBatch_def settle_def countDropped_def)
  show "mq_items (mw_q w') = drop monitorResultBatchMax (mq_items (mw_q w))"
  proof (cases "mq_items (mw_q w) = []")
    case False
    then have out: "mw_phase (mw_step w (Turn t)) = BatchOut i ?b" "mw_q (mw_step w (Turn t)) = mw_q w" "?b \<noteq> []"
      using ph t max by (auto simp: flush_turn_def Let_def batch)
    obtain a where P: "numbered (mw_pushed w)" and a: "mw_at a w" using ok unfolding mw_ok_def by blast
    have items: "mq_items (mw_q w) = drop a (mw_pushed w)" "a \<le> length (mw_pushed w)" using a by (simp_all add: mw_at_def)
    have "sent_at a ?b a (w\<lparr>mw_answered := []\<rparr>)" using items by (auto simp: sent_at_def min_def)
    then have seq: "qm_seq (last ?b) = word_of_nat (a + length ?b)"
      using P out(3) by (intro sent_last [of "w\<lparr>mw_answered := []\<rparr>" a ?b a]) simp_all
    have "settle (qm_seq (last ?b)) (mw_q w) = (mw_q w)\<lparr>mq_items := drop (max a (a + length ?b)) (mw_pushed w)\<rparr>"
      unfolding seq by (rule settle_drop [OF P items]) (use items in auto)
    then have "mq_items (settle (qm_seq (last ?b)) (mw_q w)) = drop (length ?b) (mq_items (mw_q w))"
      using items by (simp add: add.commute)
    then have "mq_items (settle (qm_seq (last ?b)) (mw_q w)) = drop monitorResultBatchMax (mq_items (mw_q w))"
      by (simp add: min_def)
    then show ?thesis using out by (auto simp: w'_def batch_answered_def sendBatch_def Let_def countDropped_def)
  qed (use ph max in \<open>auto simp: w'_def flush_turn_def Let_def batch\<close>)
qed

definition rounds :: "(gotime \<times> result_drop list) list \<Rightarrow> 'r mw_op list" where
  "rounds es = concat (map (\<lambda>(t, ds). [Turn t, Answer t (Answered ds)]) es)"

lemma idle_rounds: "mw_phase w = Idle e \<Longrightarrow> foldl mw_step w (rounds es) = w"
  by (induction es) (auto simp: rounds_def)

lemma turn_answer_ok: "mw_ok w \<Longrightarrow> mw_ok (mw_step (mw_step w (Turn t)) (Answer t ans))"
proof -
  assume ok: "mw_ok w"
  then have "mw_ok (mw_step w (Turn t))" using turn_ok [OF ok] by (auto split: flush_phase.split)
  then show ?thesis by (rule answer_ok)
qed

lemma rounds_drain:
  assumes "mw_ok w" "mw_phase w = Top i" "i + length es \<le> monitorResultFlushBatches"
    "list_all (\<lambda>(t, ds). batchAllowed t (mw_q w)) es" "w' = foldl mw_step w (rounds es)"
  shows "mq_items (mw_q w') = drop (length es * monitorResultBatchMax) (mq_items (mw_q w)) \<and>
    (mw_phase w' = Top (i + length es) \<or> mw_phase w' = Idle None)"
  using assms
proof (induction es arbitrary: w i)
  case (Cons e es)
  obtain t ds where e: "e = (t, ds)" by fastforce
  define v where "v = mw_step (mw_step w (Turn t)) (Answer t (Answered ds))"
  have r: "mw_phase v = (if mq_items (mw_q w) = [] then Idle None else Top (i + 1))"
    "mq_items (mw_q v) = drop monitorResultBatchMax (mq_items (mw_q w))" "mq_batchOffUntil (mw_q v) = mq_batchOffUntil (mw_q w)"
    using flush_round [OF Cons.prems(1,2) _ _ v_def] Cons.prems(3,4) by (auto simp: e)
  have w': "w' = foldl mw_step v (rounds es)" using Cons.prems(5) by (simp add: rounds_def e v_def)
  have ok: "mw_ok v" unfolding v_def by (rule turn_answer_ok [OF Cons.prems(1)])
  show ?case
  proof (cases "mq_items (mw_q w) = []")
    case True
    then have "w' = v" using r w' idle_rounds by simp
    then show ?thesis using r True by simp
  next
    case False
    have "list_all (\<lambda>(t, ds). batchAllowed t (mw_q v)) es" using Cons.prems(4) r(3) by (simp add: batchAllowed_def)
    then show ?thesis using Cons.IH [OF ok _ _ _ w', of "i + 1"] r False Cons.prems(3) by (simp add: add.commute)
  qed
qed (simp add: rounds_def)

section \<open>Properties\<close>

text \<open>
  C26. Every monitor result is accounted for. In every run, whatever the interleaving of pushes, turns
  of the flush and answers, the results pushed are those still queued, those the server kept and
  those counted as dropped, except that a result dropped for space while its request was on the wire
  is counted a second time when the request is answered. The queue holds the newest results, at
  most 2000 of them, and the reported counter is the count of drops.
\<close>

theorem monitor_results_accounted:
  fixes w :: "'r mw"
  assumes w: "w = foldl mw_step mw_start ops" and few: "length (mw_pushed w) < 2 ^ 64"
  shows "int (length (mw_pushed w)) + int (mw_late w) =
      int (length (mq_items (mw_q w))) + mw_kept w + int (mw_counted w) \<and>
    mq_dropped (mw_q w) = word_of_nat (mw_counted w) \<and>
    suffix (mq_items (mw_q w)) (mw_pushed w) \<and> length (mq_items (mw_q w)) \<le> 2000"
proof -
  have "mw_inv w" unfolding w by (rule mw_run.run_inv [OF mw_start_inv])
  then obtain a where "mw_at a w" using few unfolding mw_inv_def mw_ok_def by blast
  then show ?thesis by (auto simp: mw_at_def suffix_drop monitorResultQueueMax_def)
qed

definition demo_results :: "nat mw_op list" where
  "demo_results = [Push 4, Push 5, Flush, Turn 7, Push 6, Answer 8 (Answered []), Turn 9]"

lemmas demo_eval = demo_results_def mw_start_def newMonitorResultQueue_def note_push_def push_result_def Let_def
  monitorResultQueueMax_def flush_turn_def monitorResultFlushBatches_def queue_head_def monitorResultBatchMax_def
  batchAllowed_def batch_answered_def sendBatch_def settle_def note_batch_def note_final_def

theorem monitor_results_accounted_witness:
  "int (length (mw_pushed (foldl mw_step mw_start demo_results))) +
     int (mw_late (foldl mw_step mw_start demo_results)) =
   int (length (mq_items (mw_q (foldl mw_step mw_start demo_results)))) +
     mw_kept (foldl mw_step mw_start demo_results) + int (mw_counted (foldl mw_step mw_start demo_results))"
proof -
  have "length (mw_pushed (foldl mw_step mw_start demo_results)) < 2 ^ 64" by (simp add: demo_eval)
  from monitor_results_accounted [OF refl this] show ?thesis by blast
qed

text \<open>
  Monitor results are reported oldest first, each answered once. In every run the results whose
  requests were answered for good, then those on the wire, then the rest of the queue are a
  subsequence of the results pushed, which are all different: nothing is sent again after an
  answer, and nothing overtakes.
\<close>

theorem monitor_results_in_order:
  fixes w :: "'r mw"
  assumes w: "w = foldl mw_step mw_start ops" and few: "length (mw_pushed w) < 2 ^ 64"
  shows "subseq (mw_answered w @ outstanding w @ filter (\<lambda>x. x \<notin> set (outstanding w)) (mq_items (mw_q w)))
      (mw_pushed w) \<and> distinct (mw_pushed w)"
proof -
  let ?P = "mw_pushed w" and ?s = "outstanding w"
  have "mw_inv w" unfolding w by (rule mw_run.run_inv [OF mw_start_inv])
  then obtain a b where P: "numbered ?P" and a: "mw_at a w" and b: "sent_at a ?s b w"
    using few unfolding mw_inv_def mw_ok_def by blast
  have d: "distinct ?P" by (rule numbered_distinct [OF P])
  define k where "k = length ?s"
  have s: "?s = take k (drop b ?P)" "b \<le> a" "subseq (mw_answered w) (take b ?P)" using b by (simp_all add: sent_at_def k_def)
  have rest: "filter (\<lambda>x. x \<notin> set ?s) (drop b ?P) = drop k (drop b ?P)"
  proof -
    have "distinct (take k (drop b ?P) @ drop k (drop b ?P))" unfolding append_take_drop_id using d by simp
    then have "filter (\<lambda>x. x \<notin> set (take k (drop b ?P))) (take k (drop b ?P) @ drop k (drop b ?P)) = drop k (drop b ?P)"
      unfolding filter_append distinct_append by (auto simp: filter_id_conv)
    from this [unfolded append_take_drop_id] show ?thesis unfolding s(1) .
  qed
  have "suffix (drop a ?P) (drop b ?P)"
    using s(2) suffix_drop [of "a - b" "drop b ?P"] by simp
  then have "subseq (filter (\<lambda>x. x \<notin> set ?s) (drop a ?P)) (drop k (drop b ?P))"
    using subseq_filter [OF suffix_imp_subseq, of "drop a ?P" "drop b ?P" "\<lambda>x. x \<notin> set ?s"] rest by simp
  then have "subseq (mw_answered w @ ?s @ filter (\<lambda>x. x \<notin> set ?s) (drop a ?P)) (take b ?P @ take k (drop b ?P) @ drop k (drop b ?P))"
    using s by (intro list_emb_append_mono) auto
  from this [unfolded append_take_drop_id] show ?thesis using d a by (simp add: mw_at_def)
qed

theorem monitor_results_in_order_witness:
  "subseq (mw_answered (foldl mw_step mw_start demo_results)) (mw_pushed (foldl mw_step mw_start demo_results))"
proof -
  have "length (mw_pushed (foldl mw_step mw_start demo_results)) < 2 ^ 64" by (simp add: demo_eval)
  from monitor_results_in_order [OF refl this] show ?thesis
    by (blast intro: subseq_order.trans [OF prefix_imp_subseq [OF prefixI [OF refl]]])
qed

text \<open>
  A flush gets through. Against a server that answers batches, with nothing pushed meanwhile, one
  flush returns without an error after at most five requests and has sent the thousand oldest
  results, so a queue of at most a thousand is empty.
\<close>

theorem monitor_flush_drains:
  assumes ok: "mw_ok w" and idle: "mw_phase w = Idle e" and five: "length es = 5"
    and batch: "list_all (\<lambda>(t, ds). batchAllowed t (mw_q w)) es"
    and w': "w' = foldl mw_step w (Flush # rounds es @ [Turn t])"
  shows "mw_phase w' = Idle None \<and> mq_items (mw_q w') = drop 1000 (mq_items (mw_q w))"
proof -
  let ?v = "w\<lparr>mw_phase := Top 0\<rparr>"
  have "mw_ok ?v" using ok idle unfolding mw_ok_def by (fastforce simp: outstanding_def)
  from rounds_drain [OF this _ _ _ refl, of 0 es] show ?thesis
    using idle five batch by (auto simp: w' monitorResultFlushBatches_def monitorResultBatchMax_def flush_turn_def)
qed

theorem monitor_flush_drains_witness:
  "mq_items (mw_q (foldl mw_step (foldl mw_step mw_start [Push (4 :: nat)]) (Flush # rounds (replicate 5 (3, [])) @ [Turn 4]))) = []"
proof -
  let ?w = "foldl mw_step mw_start [Push (4 :: nat)]"
  have "length (mw_pushed ?w) < 2 ^ 64" by (simp add: demo_eval)
  then have ok: "mw_ok ?w" using mw_run.run_inv [OF mw_start_inv, of "[Push (4 :: nat)]"] unfolding mw_inv_def by blast
  have *: "mw_phase ?w = Idle None" "list_all (\<lambda>(t, ds). batchAllowed t (mw_q ?w)) (replicate 5 (3, []))" "length (mq_items (mw_q ?w)) \<le> 1000"
    by (simp_all add: demo_eval eval_nat_numeral)
  have "mq_items (mw_q (foldl mw_step ?w (Flush # rounds (replicate 5 (3, [])) @ [Turn 4]))) = drop 1000 (mq_items (mw_q ?w))"
    using monitor_flush_drains [OF ok *(1) _ *(2) refl, of 4] by simp
  then show ?thesis using *(3) by simp
qed

end
