(* ===== verification/Witness_Config.thy ===== *)
theory Witness_Config
  imports Go_Prelude
begin

text \<open>
  The configuration of the control-plane witness and the files it trusts
  (\<open>src/internal/witness/config.go\<close>, \<open>owner_unix.go\<close>).

  \<open>url.Parse\<close>, the JSON decoder, \<open>sha256\<close>, \<open>net.ParseIP\<close> with \<open>IsLoopback\<close>, and what the system
  answers to opening a file, to \<open>Stat\<close> and to reading are parameters, in \<open>witness_env\<close>.
\<close>

unbundle bit_operations_syntax

section \<open>Definitions\<close>

definition ConfigVersion :: int where "ConfigVersion = 1"
definition DefaultStateFile :: string where "DefaultStateFile = ''/var/lib/lattice-witness/status.json''"
definition DefaultInterval :: duration where "DefaultInterval = 30 * second"
definition DefaultHold :: duration where "DefaultHold = 3 * minute"
definition DefaultRecover :: duration where "DefaultRecover = minute"
definition DefaultBarkLevel :: string where "DefaultBarkLevel = ''critical''"
definition DefaultBarkGroup :: string where "DefaultBarkGroup = ''lattice-witness''"
definition minInterval :: duration where "minInterval = 15 * second"
definition maxInterval :: duration where "maxInterval = 10 * minute"
definition maxHold :: duration where "maxHold = 60 * minute"
definition maxRefs :: nat where "maxRefs = 3"
definition maxConfigBytes :: nat where "maxConfigBytes = 65536"
definition maxKeyFileBytes :: nat where "maxKeyFileBytes = 1024"

definition barkLevels :: "string list" where
  "barkLevels = [''active'', ''timeSensitive'', ''passive'', ''critical'']"

record witness_config =
  wc_Version :: int
  wc_NodeName :: string
  wc_HealthURL :: string
  wc_ReferenceURLs :: "string list"
  wc_BarkURL :: string
  wc_BarkDeviceKeyFile :: string
  wc_BarkGroup :: string
  wc_BarkLevel :: string
  wc_IntervalSeconds :: int
  wc_HoldSeconds :: int
  wc_RecoverSeconds :: int
  wc_StateFile :: string

record go_url =
  ur_Scheme :: string
  ur_Host :: string
  ur_Hostname :: string
  ur_User :: bool
  ur_RawQuery :: string
  ur_Fragment :: string

record file_stat =
  fs_regular :: bool
  fs_perm :: "32 word"
  fs_uid :: int

record opened_file =
  of_stat :: "string + file_stat"
  of_content :: "string + string"

record witness_env =
  we_url :: "string \<Rightarrow> go_url option"
  we_ip_loopback :: "string \<Rightarrow> bool"
  we_open :: "string \<Rightarrow> string + opened_file"
  we_euid :: int
  we_decode :: "string \<Rightarrow> string + witness_config"
  we_sha256 :: "string \<Rightarrow> string"

definition secondsOr :: "int \<Rightarrow> duration \<Rightarrow> duration" where
  "secondsOr v d = (if v \<le> 0 then d else wrap64 (v * second))"

definition cfg_Interval :: "witness_config \<Rightarrow> duration" where
  "cfg_Interval c = secondsOr (wc_IntervalSeconds c) DefaultInterval"

definition cfg_Hold :: "witness_config \<Rightarrow> duration" where
  "cfg_Hold c = secondsOr (wc_HoldSeconds c) DefaultHold"

definition cfg_Recover :: "witness_config \<Rightarrow> duration" where
  "cfg_Recover c = secondsOr (wc_RecoverSeconds c) DefaultRecover"

definition cfg_State :: "witness_config \<Rightarrow> string" where
  "cfg_State c = (if trim_space (wc_StateFile c) = [] then DefaultStateFile else wc_StateFile c)"

definition cfg_Level :: "witness_config \<Rightarrow> string" where
  "cfg_Level c = (if wc_BarkLevel c = [] then DefaultBarkLevel else wc_BarkLevel c)"

definition cfg_Group :: "witness_config \<Rightarrow> string" where
  "cfg_Group c = (if wc_BarkGroup c = [] then DefaultBarkGroup else wc_BarkGroup c)"

definition maxGap :: "witness_config \<Rightarrow> duration" where
  "maxGap c = max (wrap64 (3 * cfg_Interval c)) (cfg_Hold c)"

subsection \<open>Validation\<close>

definition witness_loopback_host :: "witness_env \<Rightarrow> string \<Rightarrow> bool" where
  "witness_loopback_host env host \<longleftrightarrow> (if equal_fold host ''localhost'' then True else we_ip_loopback env host)"

definition checkWatchURL :: "witness_env \<Rightarrow> string \<Rightarrow> string \<Rightarrow> string option" where
  "checkWatchURL env field raw =
     (case we_url env (trim_space raw) of
        None \<Rightarrow> Some (field @ '' must be an absolute URL'')
      | Some u \<Rightarrow>
          (if ur_Host u = [] then Some (field @ '' must be an absolute URL'')
           else if ur_User u then Some (field @ '' must not carry credentials'')
           else if ur_Scheme u = ''https'' then None
           else if ur_Scheme u = ''http'' then
             (if witness_loopback_host env (ur_Hostname u) then None
              else Some (field @ '' must use https unless it is on loopback''))
           else Some (field @ '' must use https'')))"

definition checkLoopbackURL :: "witness_env \<Rightarrow> string \<Rightarrow> string \<Rightarrow> string option" where
  "checkLoopbackURL env field raw =
     (case we_url env (trim_space raw) of
        None \<Rightarrow> Some (field @ '' must be an http or https URL'')
      | Some u \<Rightarrow>
          (if ur_Host u = [] \<or> ur_Scheme u \<noteq> ''http'' \<and> ur_Scheme u \<noteq> ''https''
           then Some (field @ '' must be an http or https URL'')
           else if ur_User u \<or> ur_RawQuery u \<noteq> [] \<or> ur_Fragment u \<noteq> []
           then Some (field @ '' must be a bare base URL'')
           else if \<not> witness_loopback_host env (ur_Hostname u)
           then Some (field @ '' must be on this node's loopback interface (127.0.0.1, ::1 or localhost) so the device key never leaves the node'')
           else None))"

definition same_url_host :: "witness_env \<Rightarrow> string \<Rightarrow> string \<Rightarrow> bool" where
  "same_url_host env a b \<longleftrightarrow>
     (case (we_url env a, we_url env b) of
        (Some ua, Some ub) \<Rightarrow> equal_fold (ur_Hostname ua) (ur_Hostname ub)
      | _ \<Rightarrow> False)"

fun check_refs :: "witness_env \<Rightarrow> string \<Rightarrow> nat \<Rightarrow> string list \<Rightarrow> string option" where
  "check_refs env health i [] = None"
| "check_refs env health i (ref # refs) =
     (let field = ''reference_urls['' @ itoa (int i) @ '']''
      in case checkWatchURL env field ref of
           Some e \<Rightarrow> Some e
         | None \<Rightarrow>
             (if same_url_host env ref health
              then Some (field @ '' is on the control plane's host; a reference must prove this node's network by another path'')
              else check_refs env health (i + 1) refs))"

fun join_strings :: "string \<Rightarrow> string list \<Rightarrow> string" where
  "join_strings sep [] = []"
| "join_strings sep [x] = x"
| "join_strings sep (x # y # xs) = x @ sep @ join_strings sep (y # xs)"

definition whole_seconds :: "duration \<Rightarrow> string" where
  "whole_seconds d = itoa (go_div d second)"

definition check_timing :: "witness_config \<Rightarrow> string option" where
  "check_timing c =
     (let interval = cfg_Interval c; hold = cfg_Hold c; rec = cfg_Recover c
      in if interval < minInterval \<or> interval > maxInterval
         then Some (''interval_seconds must be between '' @ whole_seconds minInterval @ '' and '' @ whole_seconds maxInterval)
         else if hold < 2 * interval \<or> hold > maxHold
         then Some (''hold_seconds must be at least two intervals ('' @ whole_seconds (2 * interval) @ '') and at most '' @ whole_seconds maxHold)
         else if rec < interval \<or> rec > maxHold
         then Some (''recover_seconds must be at least one interval ('' @ whole_seconds interval @ '') and at most '' @ whole_seconds maxHold)
         else None)"

definition Validate :: "witness_env \<Rightarrow> witness_config \<Rightarrow> string option" where
  "Validate env c =
     (if wc_Version c \<noteq> ConfigVersion
      then Some (''config version '' @ itoa (wc_Version c) @ '' is not supported (want '' @ itoa ConfigVersion @ '')'')
      else if trim_space (wc_NodeName c) = [] then Some ''node_name is required''
      else case checkWatchURL env ''health_url'' (wc_HealthURL c) of
        Some e \<Rightarrow> Some e
      | None \<Rightarrow>
      (if wc_ReferenceURLs c = [] \<or> length (wc_ReferenceURLs c) > maxRefs
       then Some (''reference_urls needs 1 to '' @ itoa (int maxRefs) @ '' URLs'')
       else case check_refs env (wc_HealthURL c) 0 (wc_ReferenceURLs c) of
         Some e \<Rightarrow> Some e
       | None \<Rightarrow>
       (case checkLoopbackURL env ''bark_url'' (wc_BarkURL c) of
          Some e \<Rightarrow> Some e
        | None \<Rightarrow>
        (if \<not> has_prefix (wc_BarkDeviceKeyFile c) ''/'' then Some ''bark_device_key_file must be an absolute path''
         else if wc_BarkLevel c \<noteq> [] \<and> wc_BarkLevel c \<notin> set barkLevels
         then Some (''bark_level must be one of '' @ join_strings '', '' barkLevels)
         else if wc_BarkGroup c \<noteq> [] \<and> (length (wc_BarkGroup c) > 64 \<or> contains_any (wc_BarkGroup c) [CHR 0x0D, CHR 0x0A])
         then Some ''bark_group must be one line of at most 64 bytes''
         else if wc_StateFile c \<noteq> [] \<and> \<not> has_prefix (wc_StateFile c) ''/''
         then Some ''state_file must be an absolute path''
         else check_timing c))))"

subsection \<open>Trusted files\<close>

fun show_oct :: "nat \<Rightarrow> string" where
  "show_oct n = (if n < 8 then [digit_char n] else show_oct (n div 8) @ [digit_char (n mod 8)])"

declare show_oct.simps [simp del]

definition oct4 :: "32 word \<Rightarrow> string" where
  "oct4 w = (let s = show_oct (unat w) in replicate (4 - length s) (CHR ''0'') @ s)"

definition checkOwner :: "int \<Rightarrow> string \<Rightarrow> file_stat \<Rightarrow> string option" where
  "checkOwner euid what st =
     (if fs_uid st \<noteq> euid
      then Some (what @ '' belongs to uid '' @ itoa (fs_uid st) @ '', not to the witness (uid '' @ itoa euid @ '')'')
      else None)"

definition readChecked ::
  "witness_env \<Rightarrow> string \<Rightarrow> string \<Rightarrow> nat \<Rightarrow> 32 word \<Rightarrow> string \<Rightarrow> string + string" where
  "readChecked env path what limit deny rule =
     (case we_open env path of
        Inl e \<Rightarrow> Inl (what @ '': '' @ e)
      | Inr f \<Rightarrow>
      (case of_stat f of
        Inl e \<Rightarrow> Inl (what @ '': '' @ e)
      | Inr st \<Rightarrow>
          (if \<not> fs_regular st then Inl (what @ '' is not a regular file'')
           else if fs_perm st AND deny \<noteq> 0
           then Inl (what @ '' mode is '' @ oct4 (fs_perm st) @ ''; '' @ rule)
           else case checkOwner (we_euid env) what st of
             Some e \<Rightarrow> Inl e
           | None \<Rightarrow>
           (case of_content f of
              Inl e \<Rightarrow> Inl (what @ '': '' @ e)
            | Inr content \<Rightarrow>
                (let raw = take (limit + 1) content
                 in if length raw > limit
                    then Inl (what @ '' is over the '' @ itoa (int limit) @ '' byte bound'')
                    else Inr raw)))))"

definition key_char :: "char \<Rightarrow> bool" where
  "key_char c \<longleftrightarrow> c \<in> set ''ABCDEFGHIJKLMNOPQRSTUVWXYZabcdefghijklmnopqrstuvwxyz0123456789_-''"

definition deviceKeyRe :: "string \<Rightarrow> bool" where
  "deviceKeyRe s \<longleftrightarrow> 8 \<le> length s \<and> length s \<le> 128 \<and> list_all key_char s"

definition ReadDeviceKey :: "witness_env \<Rightarrow> string \<Rightarrow> string + string" where
  "ReadDeviceKey env path =
     (case readChecked env path ''device key file'' maxKeyFileBytes 63 ''group and others must have no access'' of
        Inl e \<Rightarrow> Inl e
      | Inr raw \<Rightarrow>
          (let key = trim_space raw
           in if \<not> deviceKeyRe key then Inl ''device key file does not hold a Bark device key'' else Inr key))"

definition LoadConfig :: "witness_env \<Rightarrow> string \<Rightarrow> string + witness_config \<times> string" where
  "LoadConfig env path =
     (case readChecked env path ''witness config'' maxConfigBytes 18 ''group and others must not be able to write it'' of
        Inl e \<Rightarrow> Inl e
      | Inr raw \<Rightarrow>
      (case we_decode env raw of
         Inl e \<Rightarrow> Inl (''parse witness config: '' @ e)
       | Inr cfg \<Rightarrow>
       (case Validate env cfg of
          Some e \<Rightarrow> Inl (''witness config: '' @ e)
        | None \<Rightarrow> Inr (cfg, we_sha256 env raw))))"


section \<open>Lemmas\<close>

definition trusted_file :: "witness_env \<Rightarrow> 32 word \<Rightarrow> string \<Rightarrow> bool" where
  "trusted_file env deny path \<longleftrightarrow>
     (\<exists>f st. we_open env path = Inr f \<and> of_stat f = Inr st \<and> fs_regular st \<and>
       fs_perm st AND deny = 0 \<and> fs_uid st = we_euid env)"

lemma readChecked_trusted:
  "readChecked env path what limit deny rule = Inr raw \<Longrightarrow> trusted_file env deny path \<and> length raw \<le> limit"
  by (auto simp: readChecked_def trusted_file_def checkOwner_def Let_def split: sum.splits if_splits option.splits)

lemma refs_elsewhere:
  "check_refs env health i refs = None \<Longrightarrow> ref \<in> set refs \<Longrightarrow>
     \<not> same_url_host env ref health \<and> (\<exists>field. checkWatchURL env field ref = None)"
  by (induction env health i refs rule: check_refs.induct) (auto simp: Let_def split: option.splits if_splits)

lemma watch_url:
  "checkWatchURL env field raw = None \<Longrightarrow> \<exists>u. we_url env (trim_space raw) = Some u \<and> \<not> ur_User u \<and>
     (ur_Scheme u = ''https'' \<or> ur_Scheme u = ''http'' \<and> witness_loopback_host env (ur_Hostname u))"
  by (auto simp: checkWatchURL_def split: option.splits if_splits)

lemma bark_url:
  "checkLoopbackURL env field raw = None \<Longrightarrow> \<exists>u. we_url env (trim_space raw) = Some u \<and> \<not> ur_User u \<and>
     witness_loopback_host env (ur_Hostname u)"
  by (auto simp: checkLoopbackURL_def split: option.splits if_splits)

lemma Validate_parts:
  assumes "Validate env c = None"
  shows "checkWatchURL env ''health_url'' (wc_HealthURL c) = None" "wc_ReferenceURLs c \<noteq> []"
    "check_refs env (wc_HealthURL c) 0 (wc_ReferenceURLs c) = None"
    "checkLoopbackURL env ''bark_url'' (wc_BarkURL c) = None" "check_timing c = None"
  using assms by (auto simp: Validate_def split: option.splits if_splits)

section \<open>Properties\<close>

text \<open>
  What the witness trusts. If a configuration loads, its file is a regular file of the witness's
  own user that nobody else may write; messages, which carry the device key, go to this node's
  loopback interface only; the control plane is watched over https, or on loopback; there is a
  reference and none is on the control plane's host; and the hold is at least two intervals. If a
  device key is read, its file is a regular file of the witness's own user that nobody else may
  even read, and the key is 8 to 128 plain characters.
\<close>

theorem witness_trusts_own_files:
  assumes "LoadConfig env path = Inr (cfg, sha)" "ReadDeviceKey env keyPath = Inr key"
  shows "trusted_file env 18 path \<and>
    (\<exists>u. we_url env (trim_space (wc_BarkURL cfg)) = Some u \<and> \<not> ur_User u \<and> witness_loopback_host env (ur_Hostname u)) \<and>
    (\<exists>u. we_url env (trim_space (wc_HealthURL cfg)) = Some u \<and>
       (ur_Scheme u = ''https'' \<or> witness_loopback_host env (ur_Hostname u))) \<and>
    (\<exists>ref. ref \<in> set (wc_ReferenceURLs cfg)) \<and>
    (\<forall>ref \<in> set (wc_ReferenceURLs cfg). \<not> same_url_host env ref (wc_HealthURL cfg)) \<and>
    0 < cfg_Interval cfg \<and> 2 * cfg_Interval cfg \<le> cfg_Hold cfg \<and> cfg_Interval cfg \<le> cfg_Recover cfg \<and>
    trusted_file env 63 keyPath \<and> 8 \<le> length key \<and> length key \<le> 128 \<and> list_all key_char key"
proof -
  obtain raw where raw: "readChecked env path ''witness config'' maxConfigBytes 18 ''group and others must not be able to write it'' = Inr raw"
    and v: "Validate env cfg = None"
    using assms(1) by (auto simp: LoadConfig_def split: sum.splits option.splits)
  obtain kraw where kraw: "readChecked env keyPath ''device key file'' maxKeyFileBytes 63 ''group and others must have no access'' = Inr kraw"
    and k: "deviceKeyRe key"
    using assms(2) by (auto simp: ReadDeviceKey_def Let_def split: sum.splits if_splits)
  note parts = Validate_parts [OF v]
  have "0 < cfg_Interval cfg \<and> 2 * cfg_Interval cfg \<le> cfg_Hold cfg \<and> cfg_Interval cfg \<le> cfg_Recover cfg"
    using parts(5) by (auto simp: check_timing_def Let_def minInterval_def split: if_splits)
  moreover have "\<exists>ref. ref \<in> set (wc_ReferenceURLs cfg)" using parts(2) by (cases "wc_ReferenceURLs cfg") auto
  ultimately show ?thesis
    using readChecked_trusted [OF raw] readChecked_trusted [OF kraw] k
      watch_url [OF parts(1)] refs_elsewhere [OF parts(3)] bark_url [OF parts(4)]
    by (auto simp: deviceKeyRe_def)
qed

text \<open>A node whose two files are in order, for the witnesses.\<close>

definition demo_config :: witness_config where
  "demo_config = \<lparr>wc_Version = 1, wc_NodeName = ''n1'', wc_HealthURL = ''cp'', wc_ReferenceURLs = [''ref''],
     wc_BarkURL = ''bark'', wc_BarkDeviceKeyFile = ''/key'', wc_BarkGroup = [], wc_BarkLevel = [],
     wc_IntervalSeconds = 0, wc_HoldSeconds = 0, wc_RecoverSeconds = 0, wc_StateFile = []\<rparr>"

definition demo_node :: witness_env where
  "demo_node = \<lparr>we_url = (\<lambda>s. Some \<lparr>ur_Scheme = ''https'', ur_Host = s, ur_Hostname = s, ur_User = False,
       ur_RawQuery = [], ur_Fragment = []\<rparr>),
     we_ip_loopback = (\<lambda>h. h = ''bark''),
     we_open = (\<lambda>p. Inr \<lparr>of_stat = Inr \<lparr>fs_regular = True, fs_perm = 384, fs_uid = 7\<rparr>, of_content = Inr ''abcdefgh''\<rparr>),
     we_euid = 7, we_decode = (\<lambda>_. Inr demo_config), we_sha256 = (\<lambda>_. ''sum'')\<rparr>"

lemma demo_reads:
  "8 \<le> limit \<Longrightarrow> 384 AND deny = 0 \<Longrightarrow> readChecked demo_node path what limit deny rule = Inr ''abcdefgh''"
  by (simp add: readChecked_def demo_node_def checkOwner_def)

lemma demo_valid: "Validate demo_node demo_config = None" "deviceKeyRe (trim_space ''abcdefgh'')"
  "trim_space ''abcdefgh'' = ''abcdefgh''"
  by code_simp+

lemma demo_loads:
  "LoadConfig demo_node ''/cfg'' = Inr (demo_config, ''sum'')" "ReadDeviceKey demo_node ''/key'' = Inr ''abcdefgh''"
  using demo_valid
  by (simp_all add: LoadConfig_def ReadDeviceKey_def demo_reads maxConfigBytes_def maxKeyFileBytes_def)
    (simp add: demo_node_def)

theorem witness_trusts_own_files_witness:
  "trusted_file demo_node 18 ''/cfg'' \<and> trusted_file demo_node 63 ''/key'' \<and> 0 < cfg_Interval demo_config"
  using witness_trusts_own_files [OF demo_loads] by blast

end
