(* ===== verification/Witness.thy ===== *)
theory Witness
  imports Witness_Config
begin

text \<open>
  The control-plane witness (\<open>src/internal/witness/state.go\<close> and \<open>witness.go\<close>): the state it
  keeps, one check (\<open>Tick\<close>), and runs across restarts.

  What the probes and the push server answer, and the two clocks, are inputs of a tick. The state
  file is the state it was written from; a tick's save may fail, which leaves the file as it was.
  The text of a time of day is the parameter \<open>fmt_clock\<close>. Log lines are left out.
\<close>

section \<open>Definitions\<close>

subsection \<open>The state\<close>

definition StateVersion :: int where "StateVersion = 1"
definition PhaseStarting :: string where "PhaseStarting = ''starting''"
definition PhaseWatching :: string where "PhaseWatching = ''watching''"
definition PhaseFailing :: string where "PhaseFailing = ''failing''"
definition PhaseDown :: string where "PhaseDown = ''down''"
definition PhaseNetworkDown :: string where "PhaseNetworkDown = ''network_down''"

datatype push_kind = PushDown | PushRecovery

record wstate =
  ws_Version :: int
  ws_ConfigSHA256 :: string
  ws_StartedAt :: gotime
  ws_Phase :: string
  ws_HealthURL :: string
  ws_ReferenceCount :: nat
  ws_IntervalSeconds :: int
  ws_HoldSeconds :: int
  ws_LastCheckAt :: gotime
  ws_LastCheckOK :: bool
  ws_LastCheckDetail :: string
  ws_LastOKAt :: gotime
  ws_FailingSince :: gotime
  ws_FailingFor :: duration
  ws_ConsecutiveFailures :: int
  ws_OKSince :: gotime
  ws_OKFor :: duration
  ws_ConsecutiveOK :: int
  ws_NetworkDownSince :: gotime
  ws_Alerted :: bool
  ws_AlertedAt :: gotime
  ws_DownSince :: gotime
  ws_OutageFor :: duration
  ws_LastPushAt :: gotime
  ws_LastPushKind :: "push_kind option"
  ws_LastPushOK :: bool
  ws_LastPushError :: string
  ws_Pushes :: int

definition zero_state :: wstate where
  "zero_state =
     \<lparr>ws_Version = 0, ws_ConfigSHA256 = [], ws_StartedAt = 0, ws_Phase = [], ws_HealthURL = [],
      ws_ReferenceCount = 0, ws_IntervalSeconds = 0, ws_HoldSeconds = 0, ws_LastCheckAt = 0,
      ws_LastCheckOK = False, ws_LastCheckDetail = [], ws_LastOKAt = 0, ws_FailingSince = 0,
      ws_FailingFor = 0, ws_ConsecutiveFailures = 0, ws_OKSince = 0, ws_OKFor = 0,
      ws_ConsecutiveOK = 0, ws_NetworkDownSince = 0, ws_Alerted = False, ws_AlertedAt = 0,
      ws_DownSince = 0, ws_OutageFor = 0, ws_LastPushAt = 0, ws_LastPushKind = None,
      ws_LastPushOK = False, ws_LastPushError = [], ws_Pushes = 0\<rparr>"

record check_result =
  cr_OK :: bool
  cr_Detail :: string
  cr_NetworkUp :: bool

record push =
  pu_Kind :: push_kind
  pu_Title :: string
  pu_Body :: string
  pu_Level :: string

definition sinceLastCheck :: "gotime \<Rightarrow> gotime \<Rightarrow> duration \<Rightarrow> bool \<Rightarrow> duration \<Rightarrow> duration \<times> bool" where
  "sinceLastCheck prev now elapsed inProcess maxgap =
     (if prev = 0 then (0, False)
      else
        let wall = time_sub now prev
        in if inProcess then (elapsed, elapsed > maxgap \<or> wall > maxgap)
           else (wall, wall < 0 \<or> wall > maxgap))"

subsection \<open>The messages\<close>

definition orUnknown :: "string \<Rightarrow> string" where
  "orUnknown s = (if s = [] then ''no answer'' else s)"

definition roughDuration :: "duration \<Rightarrow> string" where
  "roughDuration d =
     (if d < minute then itoa (go_div d second) @ '' s''
      else
        let m = go_div d minute
        in if m < 60 then itoa m @ '' min''
           else itoa (m div 60) @ '' h '' @ itoa (m mod 60) @ '' min'')"

definition hostOf :: "witness_env \<Rightarrow> string \<Rightarrow> string" where
  "hostOf env rawURL =
     (case we_url env rawURL of
        None \<Rightarrow> rawURL
      | Some u \<Rightarrow> (if ur_Host u = [] then rawURL else ur_Host u))"

definition downPush :: "witness_env \<Rightarrow> (gotime \<Rightarrow> string) \<Rightarrow> witness_config \<Rightarrow> wstate \<Rightarrow> push" where
  "downPush env fmt_clock cfg s =
     (let host = hostOf env (wc_HealthURL cfg);
          (title, failed) =
            (if has_prefix (ws_LastCheckDetail s) ''http ''
             then (''Lattice control plane not ready'', ''has answered without reporting ready'')
             else (''Lattice control plane unreachable'', ''has not answered''));
          body = ''Seen from '' @ wc_NodeName cfg @ '': '' @ host @ '' '' @ failed @ '' for about ''
            @ roughDuration (ws_FailingFor s) @ '' ('' @ itoa (ws_ConsecutiveFailures s) @ '' checks; last: ''
            @ orUnknown (ws_LastCheckDetail s) @ ''; first failed check '' @ fmt_clock (ws_FailingSince s)
            @ '' by this node's clock). This node's own network is up. Sent by the Lattice witness on ''
            @ wc_NodeName cfg @ '' through its local Bark server, because Lattice itself cannot send anything now.''
      in \<lparr>pu_Kind = PushDown, pu_Title = title, pu_Body = body, pu_Level = cfg_Level cfg\<rparr>)"

definition recoveryPush :: "witness_env \<Rightarrow> (gotime \<Rightarrow> string) \<Rightarrow> witness_config \<Rightarrow> wstate \<Rightarrow> push" where
  "recoveryPush env fmt_clock cfg s =
     (let host = hostOf env (wc_HealthURL cfg);
          outage = max (ws_OutageFor s - ws_OKFor s) 0;
          body = ''Seen from '' @ wc_NodeName cfg @ '': '' @ host @ '' reports ready again after about ''
            @ roughDuration outage @ '' down (answering for '' @ roughDuration (ws_OKFor s) @ '', since ''
            @ fmt_clock (ws_OKSince s) @ '' by this node's clock). Sent by the Lattice witness on ''
            @ wc_NodeName cfg @ ''.''
      in \<lparr>pu_Kind = PushRecovery, pu_Title = ''Lattice control plane ready again'', pu_Body = body,
          pu_Level = ''active''\<rparr>)"

subsection \<open>One check\<close>

definition observe_clock :: "gotime \<Rightarrow> duration \<Rightarrow> bool \<Rightarrow> check_result \<Rightarrow> wstate \<Rightarrow> wstate" where
  "observe_clock now step gap res s0 =
     (let s = s0\<lparr>ws_LastCheckAt := now, ws_LastCheckOK := cr_OK res, ws_LastCheckDetail := cr_Detail res\<rparr>;
          s = (if gap
               then s\<lparr>ws_FailingSince := 0, ws_FailingFor := 0, ws_ConsecutiveFailures := 0,
                      ws_OKSince := 0, ws_OKFor := 0, ws_ConsecutiveOK := 0\<rparr>
               else
                 let s = (if ws_ConsecutiveFailures s > 0 then s\<lparr>ws_FailingFor := ws_FailingFor s + step\<rparr> else s)
                 in if ws_ConsecutiveOK s > 0 then s\<lparr>ws_OKFor := ws_OKFor s + step\<rparr> else s)
      in if ws_Alerted s \<and> step > 0 then s\<lparr>ws_OutageFor := ws_OutageFor s + step\<rparr> else s)"

definition observe_answer ::
  "witness_env \<Rightarrow> (gotime \<Rightarrow> string) \<Rightarrow> witness_config \<Rightarrow> gotime \<Rightarrow> wstate \<Rightarrow> wstate \<times> push option" where
  "observe_answer env fmt_clock cfg now s0 =
     (let s = s0\<lparr>ws_LastOKAt := now, ws_NetworkDownSince := 0, ws_FailingSince := 0, ws_FailingFor := 0,
                 ws_ConsecutiveFailures := 0\<rparr>;
          s = (if ws_ConsecutiveOK s = 0 then s\<lparr>ws_OKSince := now, ws_OKFor := 0\<rparr> else s);
          s = s\<lparr>ws_ConsecutiveOK := ws_ConsecutiveOK s + 1, ws_Phase := PhaseWatching\<rparr>
      in if ws_Alerted s then
           let s = s\<lparr>ws_Phase := PhaseDown\<rparr>
           in if ws_ConsecutiveOK s \<ge> 2 \<and> ws_OKFor s \<ge> cfg_Recover cfg
              then (s, Some (recoveryPush env fmt_clock cfg s)) else (s, None)
         else (s, None))"

definition observe_failure ::
  "witness_env \<Rightarrow> (gotime \<Rightarrow> string) \<Rightarrow> witness_config \<Rightarrow> gotime \<Rightarrow> bool \<Rightarrow> wstate \<Rightarrow> wstate \<times> push option" where
  "observe_failure env fmt_clock cfg now up s0 =
     (let s = s0\<lparr>ws_OKSince := 0, ws_OKFor := 0, ws_ConsecutiveOK := 0\<rparr>
      in if \<not> up then
           let s = (if ws_NetworkDownSince s = 0 then s\<lparr>ws_NetworkDownSince := now\<rparr> else s)
           in (s\<lparr>ws_Phase := PhaseNetworkDown\<rparr>, None)
         else
           let back = (ws_NetworkDownSince s \<noteq> 0);
               s = s\<lparr>ws_NetworkDownSince := 0\<rparr>;
               s = (if ws_ConsecutiveFailures s = 0 then s\<lparr>ws_FailingSince := now, ws_FailingFor := 0\<rparr> else s);
               s = s\<lparr>ws_ConsecutiveFailures := ws_ConsecutiveFailures s + 1\<rparr>
           in if ws_Alerted s then (s\<lparr>ws_Phase := PhaseDown\<rparr>, None)
              else
                let s = s\<lparr>ws_Phase := PhaseFailing\<rparr>
                in if ws_ConsecutiveFailures s \<ge> 2 \<and> ws_FailingFor s \<ge> cfg_Hold cfg \<and> \<not> back
                   then (s, Some (downPush env fmt_clock cfg s)) else (s, None))"

definition observe ::
  "witness_env \<Rightarrow> (gotime \<Rightarrow> string) \<Rightarrow> witness_config \<Rightarrow> gotime \<Rightarrow> duration \<Rightarrow> bool \<Rightarrow> check_result
   \<Rightarrow> wstate \<Rightarrow> wstate \<times> push option" where
  "observe env fmt_clock cfg now step gap res s0 =
     (let s = observe_clock now step gap res s0
      in if cr_OK res then observe_answer env fmt_clock cfg now s
         else observe_failure env fmt_clock cfg now (cr_NetworkUp res) s)"

definition pushed :: "push \<Rightarrow> gotime \<Rightarrow> string \<Rightarrow> wstate \<Rightarrow> wstate" where
  "pushed p now errKind s0 =
     (let s = s0\<lparr>ws_LastPushAt := now, ws_LastPushKind := Some (pu_Kind p), ws_LastPushOK := (errKind = []),
                 ws_LastPushError := errKind\<rparr>
      in if errKind \<noteq> [] then s
         else
           let s = s\<lparr>ws_Pushes := ws_Pushes s + 1\<rparr>
           in case pu_Kind p of
                PushDown \<Rightarrow>
                  s\<lparr>ws_Alerted := True, ws_AlertedAt := now, ws_DownSince := ws_FailingSince s,
                    ws_OutageFor := ws_FailingFor s, ws_Phase := PhaseDown\<rparr>
              | PushRecovery \<Rightarrow>
                  s\<lparr>ws_Alerted := False, ws_AlertedAt := 0, ws_DownSince := 0, ws_OutageFor := 0,
                    ws_Phase := PhaseWatching\<rparr>)"

definition adopt :: "witness_config \<Rightarrow> string \<Rightarrow> gotime \<Rightarrow> wstate \<Rightarrow> wstate" where
  "adopt cfg configSHA now s0 =
     (let s = (if ws_Version s0 \<noteq> StateVersion \<or> ws_ConfigSHA256 s0 \<noteq> configSHA
               then zero_state\<lparr>ws_Alerted := ws_Alerted s0, ws_AlertedAt := ws_AlertedAt s0,
                      ws_DownSince := ws_DownSince s0, ws_OutageFor := ws_OutageFor s0,
                      ws_LastPushAt := ws_LastPushAt s0, ws_LastPushKind := ws_LastPushKind s0,
                      ws_LastPushOK := ws_LastPushOK s0, ws_LastPushError := ws_LastPushError s0,
                      ws_Pushes := ws_Pushes s0\<rparr>
               else s0);
          s = s\<lparr>ws_Version := StateVersion, ws_ConfigSHA256 := configSHA, ws_StartedAt := now,
                ws_HealthURL := wc_HealthURL cfg, ws_ReferenceCount := length (wc_ReferenceURLs cfg),
                ws_IntervalSeconds := go_div (cfg_Interval cfg) second,
                ws_HoldSeconds := go_div (cfg_Hold cfg) second\<rparr>;
          s = (if ws_LastCheckAt s = 0 then s\<lparr>ws_Phase := PhaseStarting\<rparr> else s)
      in if ws_Alerted s then s\<lparr>ws_Phase := PhaseDown\<rparr> else s)"

subsection \<open>The witness\<close>

record witness =
  wi_cfg :: witness_config
  wi_configSHA :: string
  wi_state :: wstate
  wi_lastMono :: duration
  wi_checked :: bool
  wi_lastPhase :: string

definition New :: "witness_config \<Rightarrow> string \<Rightarrow> wstate \<Rightarrow> gotime \<Rightarrow> witness" where
  "New cfg configSHA state now =
     (let s = adopt cfg configSHA now state
      in \<lparr>wi_cfg = cfg, wi_configSHA = configSHA, wi_state = s, wi_lastMono = 0, wi_checked = False,
          wi_lastPhase = ws_Phase s\<rparr>)"

text \<open>\<open>check\<close>: the references are asked only when the control plane did not answer.\<close>

definition check :: "bool \<times> string \<Rightarrow> bool \<Rightarrow> check_result" where
  "check health reachable =
     (if fst health then \<lparr>cr_OK = True, cr_Detail = [], cr_NetworkUp = False\<rparr>
      else \<lparr>cr_OK = False, cr_Detail = snd health, cr_NetworkUp = reachable\<rparr>)"

text \<open>
  What a tick meets: the answers of the probes, whether the witness is being stopped meanwhile, the
  clocks, and what becomes of a push (\<open>None\<close> when the witness is stopped while it is sent).
\<close>

record tick_input =
  ti_health :: "bool \<times> string"
  ti_reachable :: bool
  ti_stopped :: bool
  ti_now :: gotime
  ti_mono :: duration
  ti_pushed :: "(gotime \<times> string) option"

text \<open>\<open>Tick\<close>: the witness, the push that was delivered, if one was, and whether the state is saved.\<close>

definition Tick ::
  "witness_env \<Rightarrow> (gotime \<Rightarrow> string) \<Rightarrow> tick_input \<Rightarrow> witness \<Rightarrow> witness \<times> push option \<times> bool" where
  "Tick env fmt_clock i w =
     (let res = check (ti_health i) (ti_reachable i)
      in if ti_stopped i then (w, None, False)
         else
           let (step, gap) = sinceLastCheck (ws_LastCheckAt (wi_state w)) (ti_now i)
                 (ti_mono i - wi_lastMono w) (wi_checked w) (maxGap (wi_cfg w));
               (s, owed) = observe env fmt_clock (wi_cfg w) (ti_now i) step gap res (wi_state w);
               w = w\<lparr>wi_lastMono := ti_mono i, wi_checked := True, wi_state := s\<rparr>
           in case owed of
                None \<Rightarrow> (w\<lparr>wi_lastPhase := ws_Phase s\<rparr>, None, True)
              | Some p \<Rightarrow>
                  (case ti_pushed i of
                     None \<Rightarrow> (w, None, False)
                   | Some (at, kind) \<Rightarrow>
                       (let s = pushed p at kind s
                        in (w\<lparr>wi_state := s, wi_lastPhase := ws_Phase s\<rparr>,
                            if kind = [] then Some p else None, True))))"

subsection \<open>Runs\<close>

text \<open>
  The process, if one runs, the state file, and the kinds of the pushes delivered so far. A stop
  saves the state; a crash does not; a start reads the file, with a configuration of its own.
\<close>

record world =
  wd_witness :: "witness option"
  wd_file :: "wstate option"
  wd_delivered :: "push_kind list"

datatype world_op =
    DoTick tick_input bool
  | DoStop bool
  | DoCrash
  | DoStart witness_config string gotime bool

definition save_state :: "bool \<Rightarrow> wstate \<Rightarrow> world \<Rightarrow> world" where
  "save_state saved s d = (if saved then d\<lparr>wd_file := Some s\<rparr> else d)"

definition load_state :: "bool \<Rightarrow> world \<Rightarrow> wstate" where
  "load_state readable d =
     (if \<not> readable then zero_state else case wd_file d of None \<Rightarrow> zero_state | Some s \<Rightarrow> s)"

fun world_step :: "witness_env \<Rightarrow> (gotime \<Rightarrow> string) \<Rightarrow> world \<Rightarrow> world_op \<Rightarrow> world" where
  "world_step env fc d (DoTick i saved) =
     (case wd_witness d of
        None \<Rightarrow> d
      | Some w \<Rightarrow>
          (let (w, sent, save) = Tick env fc i w;
               d = d\<lparr>wd_witness := Some w,
                     wd_delivered := wd_delivered d @ (case sent of None \<Rightarrow> [] | Some p \<Rightarrow> [pu_Kind p])\<rparr>
           in save_state (save \<and> saved) (wi_state w) d))"
| "world_step env fc d (DoStop saved) =
     (case wd_witness d of
        None \<Rightarrow> d
      | Some w \<Rightarrow> save_state saved (wi_state w) (d\<lparr>wd_witness := None\<rparr>))"
| "world_step env fc d DoCrash = d\<lparr>wd_witness := None\<rparr>"
| "world_step env fc d (DoStart cfg sha now readable) =
     (case wd_witness d of
        None \<Rightarrow> d\<lparr>wd_witness := Some (New cfg sha (load_state readable d) now)\<rparr>
      | Some w \<Rightarrow> d)"

definition new_world :: world where
  "new_world = \<lparr>wd_witness = None, wd_file = None, wd_delivered = []\<rparr>"

text \<open>Every write of the state file succeeds and every start can read it.\<close>

fun durable :: "world_op \<Rightarrow> bool" where
  "durable (DoTick i saved) = saved"
| "durable (DoStop saved) = saved"
| "durable DoCrash = True"
| "durable (DoStart cfg sha now readable) = readable"

fun alternate :: "bool \<Rightarrow> push_kind list \<Rightarrow> bool" where
  "alternate down [] = True"
| "alternate down (k # ks) = (k = (if down then PushDown else PushRecovery) \<and> alternate (\<not> down) ks)"

section \<open>Lemmas\<close>

subsection \<open>Alerts\<close>

lemma observe_alerted:
  assumes "observe env fc cfg now step gap res s = (s', p)"
  shows "ws_Alerted s' = ws_Alerted s"
    and "p = Some q \<Longrightarrow> pu_Kind q = (if ws_Alerted s then PushRecovery else PushDown)"
  using assms
  by (auto simp: observe_def observe_clock_def observe_answer_def observe_failure_def downPush_def recoveryPush_def
      Let_def split: if_splits prod.splits)

lemma pushed_alerted:
  "ws_Alerted (pushed p at kind s) = (if kind = [] then pu_Kind p = PushDown else ws_Alerted s)"
  by (auto simp: pushed_def Let_def split: push_kind.split)

lemma adopt_alerted: "ws_Alerted (adopt cfg sha now s) = ws_Alerted s"
  by (simp add: adopt_def Let_def)

lemma alternate_snoc:
  "alternate down (ks @ [k]) \<longleftrightarrow> alternate down ks \<and> k = (if down = even (length ks) then PushDown else PushRecovery)"
  by (induction down ks rule: alternate.induct) auto

lemma Tick_alerted:
  assumes "Tick env fc i w = (w', sent, save)"
  shows "ws_Alerted (wi_state w') = (case sent of None \<Rightarrow> ws_Alerted (wi_state w) | Some p \<Rightarrow> \<not> ws_Alerted (wi_state w))"
    and "sent = Some p \<Longrightarrow> save \<and> pu_Kind p = (if ws_Alerted (wi_state w) then PushRecovery else PushDown)"
proof -
  obtain step gap where sg: "sinceLastCheck (ws_LastCheckAt (wi_state w)) (ti_now i)
      (ti_mono i - wi_lastMono w) (wi_checked w) (maxGap (wi_cfg w)) = (step, gap)" by fastforce
  obtain s owed where o: "observe env fc (wi_cfg w) (ti_now i) step gap (check (ti_health i) (ti_reachable i)) (wi_state w) = (s, owed)"
    by fastforce
  note a = observe_alerted [OF o]
  show "ws_Alerted (wi_state w') = (case sent of None \<Rightarrow> ws_Alerted (wi_state w) | Some p \<Rightarrow> \<not> ws_Alerted (wi_state w))"
    and "sent = Some p \<Longrightarrow> save \<and> pu_Kind p = (if ws_Alerted (wi_state w) then PushRecovery else PushDown)"
    using assms sg o a
    by (auto simp: Tick_def Let_def pushed_alerted split: if_splits option.splits prod.splits)
qed

definition alerts_ok :: "world \<Rightarrow> bool" where
  "alerts_ok d \<longleftrightarrow> alternate True (wd_delivered d) \<and>
     ws_Alerted (load_state True d) = odd (length (wd_delivered d)) \<and>
     (\<forall>w. wd_witness d = Some w \<longrightarrow> ws_Alerted (wi_state w) = odd (length (wd_delivered d)))"

lemma world_alerts:
  assumes ok: "alerts_ok d" and dur: "durable op"
  shows "alerts_ok (world_step env fc d op)"
proof (cases op)
  case (DoTick i saved)
  show ?thesis
  proof (cases "wd_witness d")
    case None
    then show ?thesis using ok DoTick by simp
  next
    case (Some w)
    obtain w' sent save where t: "Tick env fc i w = (w', sent, save)" by (metis prod_cases3)
    show ?thesis using ok dur Some DoTick t Tick_alerted [OF t]
      by (cases sent) (auto simp: alerts_ok_def save_state_def load_state_def alternate_snoc Let_def)
  qed
next
  case (DoStop saved)
  then show ?thesis using ok dur
    by (auto simp: alerts_ok_def save_state_def load_state_def split: option.split)
next
  case DoCrash
  then show ?thesis using ok by (simp add: alerts_ok_def load_state_def)
next
  case (DoStart cfg sha now readable)
  then show ?thesis using ok dur
    by (auto simp: alerts_ok_def load_state_def New_def Let_def adopt_alerted split: option.splits)
qed


subsection \<open>Runs of failures and of answers\<close>

text \<open>A check as \<open>observe\<close> sees it, with what became of a push it asked for.\<close>

record wcheck =
  ck_now :: gotime
  ck_step :: duration
  ck_gap :: bool
  ck_res :: check_result
  ck_pushed :: "(gotime \<times> string) option"

abbreviation answered :: "wcheck \<Rightarrow> bool" where "answered c \<equiv> cr_OK (ck_res c)"
abbreviation failed_up :: "wcheck \<Rightarrow> bool" where "failed_up c \<equiv> \<not> answered c \<and> cr_NetworkUp (ck_res c)"
abbreviation net_down :: "wcheck \<Rightarrow> bool" where "net_down c \<equiv> \<not> answered c \<and> \<not> cr_NetworkUp (ck_res c)"

definition observe_check :: "witness_env \<Rightarrow> (gotime \<Rightarrow> string) \<Rightarrow> witness_config \<Rightarrow> wcheck \<Rightarrow> wstate \<Rightarrow> wstate \<times> push option" where
  "observe_check env fc cfg c = observe env fc cfg (ck_now c) (ck_step c) (ck_gap c) (ck_res c)"

definition after_check :: "witness_env \<Rightarrow> (gotime \<Rightarrow> string) \<Rightarrow> witness_config \<Rightarrow> wstate \<Rightarrow> wcheck \<Rightarrow> wstate" where
  "after_check env fc cfg s c =
     (case observe_check env fc cfg c s of
        (s, Some p) \<Rightarrow> (case ck_pushed c of Some (at, kind) \<Rightarrow> pushed p at kind s | None \<Rightarrow> s)
      | (s, None) \<Rightarrow> s)"

text \<open>The reference: the unbroken runs at the end of a list of checks.\<close>

definition elapsed :: "wcheck list \<Rightarrow> duration" where
  "elapsed run = sum_list (map ck_step (tl run))"

text \<open>
  An outage of at least \<open>hold\<close>: from a first failure on, without an answer or a break, at least two
  failures, the last two checks both failures with the network up.
\<close>

definition outage_run :: "duration \<Rightarrow> wcheck list \<Rightarrow> bool" where
  "outage_run hold run \<longleftrightarrow>
     length run \<ge> 2 \<and> failed_up (hd run) \<and> list_all (\<lambda>c. \<not> answered c \<and> \<not> ck_gap c) (tl run) \<and>
     failed_up (last run) \<and> failed_up (last (butlast run)) \<and> elapsed run \<ge> hold"

definition answer_run :: "duration \<Rightarrow> wcheck list \<Rightarrow> bool" where
  "answer_run rec run \<longleftrightarrow>
     length run \<ge> 2 \<and> list_all answered run \<and> list_all (\<lambda>c. \<not> ck_gap c) (tl run) \<and> elapsed run \<ge> rec"

fun fail_run :: "wcheck list \<Rightarrow> wcheck \<Rightarrow> wcheck list" where
  "fail_run r c =
     (if answered c then []
      else
        let r = (if ck_gap c then [] else r)
        in if failed_up c \<or> r \<noteq> [] then r @ [c] else [])"

fun ok_run :: "wcheck list \<Rightarrow> wcheck \<Rightarrow> wcheck list" where
  "ok_run r c = (if answered c then (if ck_gap c then [] else r) @ [c] else [])"

declare fail_run.simps [simp del] ok_run.simps [simp del]

definition counts_ok :: "wcheck list \<Rightarrow> wcheck list \<Rightarrow> wstate \<Rightarrow> bool" where
  "counts_ok r q s \<longleftrightarrow>
     (r \<noteq> [] \<longrightarrow> failed_up (hd r) \<and> ws_FailingFor s = elapsed r) \<and>
     ws_ConsecutiveFailures s = int (length (filter failed_up r)) \<and>
     (q \<noteq> [] \<longrightarrow> ws_OKFor s = elapsed q) \<and> ws_ConsecutiveOK s = int (length q)"

lemma elapsed_snoc: "r \<noteq> [] \<Longrightarrow> elapsed (r @ [c]) = elapsed r + ck_step c" "elapsed [c] = 0"
  by (auto simp: elapsed_def)

lemma pushed_counts [simp]:
  "ws_ConsecutiveFailures (pushed p at kind s) = ws_ConsecutiveFailures s"
  "ws_FailingFor (pushed p at kind s) = ws_FailingFor s"
  "ws_ConsecutiveOK (pushed p at kind s) = ws_ConsecutiveOK s" "ws_OKFor (pushed p at kind s) = ws_OKFor s"
  "ws_NetworkDownSince (pushed p at kind s) = ws_NetworkDownSince s"
  by (auto simp: pushed_def Let_def split: push_kind.split)

lemma failures_zero: "r = [] \<or> failed_up (hd r) \<Longrightarrow> length (filter failed_up r) = 0 \<longleftrightarrow> r = []"
  by (cases r) auto

lemma observe_counts:
  assumes ok: "counts_ok r q s" and o: "observe_check env fc cfg c s = (s', p)"
  shows "counts_ok (fail_run r c) (ok_run q c) s'"
proof -
  have z: "ws_ConsecutiveFailures s = 0 \<longleftrightarrow> r = []" "ws_ConsecutiveFailures s \<ge> 0"
    using ok failures_zero [of r] by (auto simp: counts_ok_def)
  have zq: "ws_ConsecutiveOK s = 0 \<longleftrightarrow> q = []" "ws_ConsecutiveOK s \<ge> 0" using ok by (auto simp: counts_ok_def)
  show ?thesis
  proof (cases "answered c")
    case True
    then show ?thesis using ok o zq
      by (auto simp: counts_ok_def observe_check_def observe_def observe_clock_def observe_answer_def Let_def
          fail_run.simps ok_run.simps elapsed_snoc split: if_splits)
  next
    case False
    then show ?thesis using ok o z
      by (auto simp: counts_ok_def observe_check_def observe_def observe_clock_def observe_failure_def Let_def
          fail_run.simps ok_run.simps elapsed_snoc split: if_splits)
  qed
qed


text \<open>A state whose runs have not begun: a new one, or one adopted under a changed configuration.\<close>

definition fresh_runs :: "wstate \<Rightarrow> bool" where
  "fresh_runs s \<longleftrightarrow> ws_ConsecutiveFailures s = 0 \<and> ws_ConsecutiveOK s = 0 \<and> ws_NetworkDownSince s = 0"

abbreviation fails :: "wcheck list \<Rightarrow> wcheck list" where "fails cs \<equiv> foldl fail_run [] cs"
abbreviation oks :: "wcheck list \<Rightarrow> wcheck list" where "oks cs \<equiv> foldl ok_run [] cs"

lemma history_counts:
  assumes "fresh_runs s0"
  shows "counts_ok (fails cs) (oks cs) (foldl (after_check env fc cfg) s0 cs)"
proof (induction cs rule: rev_induct)
  case Nil
  then show ?case using assms by (simp add: fresh_runs_def counts_ok_def)
next
  case (snoc c cs)
  obtain s' p where o: "observe_check env fc cfg c (foldl (after_check env fc cfg) s0 cs) = (s', p)" by fastforce
  have "counts_ok r q (pushed x at kind s) = counts_ok r q s" for r q x at kind s by (simp add: counts_ok_def)
  then show ?case using observe_counts [OF snoc o] o by (auto simp: after_check_def [of env fc cfg _ c] split: option.split)
qed

lemma observe_network:
  assumes "observe_check env fc cfg c s = (s', p)" "ck_now c \<noteq> 0"
  shows "ws_NetworkDownSince s' \<noteq> 0 \<longleftrightarrow> net_down c"
  using assms
  by (auto simp: observe_check_def observe_def observe_clock_def observe_answer_def observe_failure_def Let_def split: if_splits)

lemma history_network:
  assumes "fresh_runs s0" "list_all (\<lambda>c. ck_now c \<noteq> 0) cs"
  shows "ws_NetworkDownSince (foldl (after_check env fc cfg) s0 cs) \<noteq> 0 \<longleftrightarrow> cs \<noteq> [] \<and> net_down (last cs)"
proof (cases cs rule: rev_cases)
  case (snoc ds c)
  obtain s' p where o: "observe_check env fc cfg c (foldl (after_check env fc cfg) s0 ds) = (s', p)" by fastforce
  then show ?thesis using observe_network [OF o] assms(2) snoc
    by (auto simp: after_check_def [of env fc cfg _ c] split: option.split)
qed (use assms in \<open>simp add: fresh_runs_def\<close>)

lemma observe_push:
  assumes ok: "counts_ok r q s" and o: "observe_check env fc cfg c s = (s', p)"
  shows "(\<exists>x. p = Some x \<and> pu_Kind x = PushDown) \<longleftrightarrow> \<not> ws_Alerted s \<and> failed_up c \<and>
      2 \<le> length (filter failed_up (fail_run r c)) \<and> cfg_Hold cfg \<le> elapsed (fail_run r c) \<and> ws_NetworkDownSince s = 0"
    and "(\<exists>x. p = Some x \<and> pu_Kind x = PushRecovery) \<longleftrightarrow> ws_Alerted s \<and> answered c \<and>
      2 \<le> length (ok_run q c) \<and> cfg_Recover cfg \<le> elapsed (ok_run q c)"
proof -
  note n = observe_counts [OF ok o]
  have al: "p = Some x \<Longrightarrow> pu_Kind x = (if ws_Alerted s then PushRecovery else PushDown)" for x
    using observe_alerted(2) o by (auto simp: observe_check_def)
  have f: "failed_up c \<Longrightarrow> fail_run r c \<noteq> []" "answered c \<Longrightarrow> ok_run q c \<noteq> []"
    by (auto simp: fail_run.simps ok_run.simps Let_def)
  have "p \<noteq> None \<longleftrightarrow>
      (if answered c then ws_Alerted s \<and> ws_ConsecutiveOK s' \<ge> 2 \<and> ws_OKFor s' \<ge> cfg_Recover cfg
       else cr_NetworkUp (ck_res c) \<and> \<not> ws_Alerted s \<and> ws_ConsecutiveFailures s' \<ge> 2 \<and> ws_FailingFor s' \<ge> cfg_Hold cfg \<and>
         ws_NetworkDownSince s = 0)"
    using o by (auto simp: observe_check_def observe_def observe_clock_def observe_answer_def observe_failure_def Let_def
        split: if_splits)
  then have p: "p \<noteq> None \<longleftrightarrow>
      (if answered c then ws_Alerted s \<and> 2 \<le> length (ok_run q c) \<and> cfg_Recover cfg \<le> elapsed (ok_run q c)
       else failed_up c \<and> \<not> ws_Alerted s \<and> 2 \<le> length (filter failed_up (fail_run r c)) \<and>
         cfg_Hold cfg \<le> elapsed (fail_run r c) \<and> ws_NetworkDownSince s = 0)"
    using n f by (auto simp: counts_ok_def)
  show "(\<exists>x. p = Some x \<and> pu_Kind x = PushDown) \<longleftrightarrow> \<not> ws_Alerted s \<and> failed_up c \<and>
      2 \<le> length (filter failed_up (fail_run r c)) \<and> cfg_Hold cfg \<le> elapsed (fail_run r c) \<and> ws_NetworkDownSince s = 0"
    using p al by (cases "answered c"; cases p) auto
  show "(\<exists>x. p = Some x \<and> pu_Kind x = PushRecovery) \<longleftrightarrow> ws_Alerted s \<and> answered c \<and>
      2 \<le> length (ok_run q c) \<and> cfg_Recover cfg \<le> elapsed (ok_run q c)"
    using p al by (cases "answered c"; cases p) auto
qed

text \<open>The two folds are the longest runs.\<close>

lemma fails_suffix: "suffix (fails cs) cs"
proof (induction cs rule: rev_induct)
  case (snoc c cs)
  then show ?case by (auto simp: fail_run.simps [of _ c] Let_def suffix_def)
qed simp

lemma oks_suffix: "suffix (oks cs) cs"
proof (induction cs rule: rev_induct)
  case (snoc c cs)
  then show ?case by (auto simp: ok_run.simps [of _ c] suffix_def)
qed simp

lemma fails_shape: "fails cs = [] \<or> failed_up (hd (fails cs)) \<and> list_all (\<lambda>c. \<not> answered c \<and> \<not> ck_gap c) (tl (fails cs))"
proof (induction cs rule: rev_induct)
  case (snoc c cs)
  then show ?case by (cases "fails cs") (auto simp: fail_run.simps [of _ c] Let_def)
qed simp

lemma oks_shape: "list_all answered (oks cs) \<and> list_all (\<lambda>c. \<not> ck_gap c) (tl (oks cs))"
proof (induction cs rule: rev_induct)
  case (snoc c cs)
  then show ?case by (cases "oks cs") (auto simp: ok_run.simps [of _ c])
qed simp

lemma fails_grow: "r \<noteq> [] \<Longrightarrow> list_all (\<lambda>c. \<not> answered c \<and> \<not> ck_gap c) t \<Longrightarrow> foldl fail_run r t = r @ t"
  by (induction t arbitrary: r) (auto simp: fail_run.simps Let_def)

lemma oks_grow: "list_all answered t \<Longrightarrow> list_all (\<lambda>c. \<not> ck_gap c) t \<Longrightarrow> foldl ok_run r t = r @ t"
  by (induction t arbitrary: r) (auto simp: ok_run.simps)

lemma fails_longest:
  assumes "suffix run cs" "run \<noteq> []" "failed_up (hd run)" "list_all (\<lambda>c. \<not> answered c \<and> \<not> ck_gap c) (tl run)"
  shows "suffix run (fails cs)"
proof -
  obtain pre h t where cs: "cs = pre @ h # t" and run: "run = h # t" using assms(1,2) by (cases run) (auto simp: suffix_def)
  obtain x where "fail_run (fails pre) h = x @ [h]" using assms(3) run by (auto simp: fail_run.simps [of _ h] Let_def)
  then have "fails cs = x @ run" using fails_grow [of "x @ [h]" t] assms(4) cs run by simp
  then show ?thesis by (simp add: suffix_def)
qed

lemma oks_longest:
  assumes "suffix run cs" "run \<noteq> []" "list_all answered run" "list_all (\<lambda>c. \<not> ck_gap c) (tl run)"
  shows "suffix run (oks cs)"
proof -
  obtain pre h t where cs: "cs = pre @ h # t" and run: "run = h # t" using assms(1,2) by (cases run) (auto simp: suffix_def)
  obtain x where "ok_run (oks pre) h = x @ [h]" using assms(3) run by (auto simp: ok_run.simps [of _ h])
  then have "oks cs = x @ run" using oks_grow [of t "x @ [h]"] assms(3,4) cs run by simp
  then show ?thesis by (simp add: suffix_def)
qed

lemma elapsed_longer:
  assumes "suffix run r" "run \<noteq> []" "list_all (\<lambda>c. 0 \<le> ck_step c) (tl r)"
  shows "elapsed run \<le> elapsed r"
proof -
  obtain x where r: "r = x @ run" using assms(1) by (auto simp: suffix_def)
  show ?thesis
  proof (cases x)
    case (Cons a y)
    obtain h t where run: "run = h # t" using assms(2) by (cases run) auto
    have "0 \<le> sum_list (map ck_step (y @ [h]))"
      using assms(3) r Cons run by (intro sum_list_nonneg) (auto simp: list_all_iff)
    then show ?thesis using r Cons run by (simp add: elapsed_def)
  qed (use r in simp)
qed

definition clock_ok :: "wcheck \<Rightarrow> bool" where
  "clock_ok c \<longleftrightarrow> ck_now c \<noteq> 0 \<and> (ck_gap c \<or> 0 \<le> ck_step c)"

lemma gapless_steps: "list_all clock_ok cs \<Longrightarrow> suffix r cs \<Longrightarrow> list_all (\<lambda>c. \<not> ck_gap c) (tl r) \<Longrightarrow> list_all (\<lambda>c. 0 \<le> ck_step c) (tl r)"
  by (cases r) (auto simp: list_all_iff clock_ok_def suffix_def)


lemma suffix_snoc_cases: "suffix r (cs @ [c]) \<Longrightarrow> r \<noteq> [] \<Longrightarrow> \<exists>x. r = x @ [c] \<and> suffix x cs"
  by (cases r rule: rev_cases) (auto simp: suffix_def)

lemma outage_iff:
  assumes clk: "list_all clock_ok (cs @ [c])"
  shows "(\<exists>run. suffix run (cs @ [c]) \<and> outage_run hold run) \<longleftrightarrow>
    failed_up c \<and> 2 \<le> length (filter failed_up (fails (cs @ [c]))) \<and> hold \<le> elapsed (fails (cs @ [c])) \<and>
    \<not> (cs \<noteq> [] \<and> net_down (last cs))" (is "?L \<longleftrightarrow> ?R")
proof
  assume ?L
  then obtain run where run: "suffix run (cs @ [c])" "outage_run hold run" by blast
  then have len: "length run \<ge> 2" by (simp add: outage_run_def)
  then obtain x where x: "run = x @ [c]" "suffix x cs" "x \<noteq> []" using suffix_snoc_cases [OF run(1)] by force
  then obtain z y where y: "x = z @ [y]" "last cs = y" by (cases x rule: rev_cases) (auto simp: suffix_def)
  have "last (butlast run) = y" "last run = c" unfolding x(1) y(1) by (simp_all only: butlast_snoc last_snoc)
  then have up: "failed_up y" "failed_up c" using run(2) by (auto simp: outage_run_def)
  have suf: "suffix run (fails (cs @ [c]))"
    using run len by (intro fails_longest) (auto simp: outage_run_def)
  then obtain w where w: "fails (cs @ [c]) = w @ z @ [y, c]" using x y by (auto simp: suffix_def)
  have "list_all (\<lambda>c. 0 \<le> ck_step c) (tl (fails (cs @ [c])))"
    using gapless_steps [OF clk fails_suffix] fails_shape [of "cs @ [c]"] w by (auto simp: list_all_iff)
  then have "elapsed run \<le> elapsed (fails (cs @ [c]))" using elapsed_longer [OF suf] len by force
  moreover have "hold \<le> elapsed run" using run(2) by (simp add: outage_run_def)
  ultimately show ?R using up y(2) unfolding w by auto
next
  assume R: ?R
  let ?r = "fails (cs @ [c])"
  have ne: "?r \<noteq> []" using R by auto
  obtain x where x: "?r = x @ [c]" "suffix x cs" using suffix_snoc_cases [OF fails_suffix ne] by blast
  have xne: "x \<noteq> []" using R unfolding x(1) by auto
  then have last: "last cs = last x" "cs \<noteq> []" using x(2) by (auto simp: suffix_def)
  have shape: "failed_up (hd ?r)" "list_all (\<lambda>c. \<not> answered c \<and> \<not> ck_gap c) (tl ?r)" using fails_shape [of "cs @ [c]"] ne by auto
  have "last x \<in> insert (hd ?r) (set (tl ?r))" using xne unfolding x(1) by (cases x) auto
  then have "\<not> answered (last x)" using shape by (auto simp: list_all_iff)
  then have "failed_up (last x)" using R last by auto
  then have "outage_run hold ?r"
    using R shape xne unfolding outage_run_def x(1) by (cases x) auto
  then show ?L using fails_suffix by blast
qed

lemma answer_iff:
  assumes clk: "list_all clock_ok (cs @ [c])"
  shows "(\<exists>run. suffix run (cs @ [c]) \<and> answer_run rec run) \<longleftrightarrow>
    answered c \<and> 2 \<le> length (oks (cs @ [c])) \<and> rec \<le> elapsed (oks (cs @ [c]))" (is "?L \<longleftrightarrow> ?R")
proof
  assume ?L
  then obtain run where run: "suffix run (cs @ [c])" "answer_run rec run" by blast
  then have len: "length run \<ge> 2" "run \<noteq> []" by (auto simp: answer_run_def)
  have suf: "suffix run (oks (cs @ [c]))" using run len by (intro oks_longest) (auto simp: answer_run_def)
  have "list_all (\<lambda>c. 0 \<le> ck_step c) (tl (oks (cs @ [c])))"
    using gapless_steps [OF clk oks_suffix] oks_shape [of "cs @ [c]"] by auto
  then have "elapsed run \<le> elapsed (oks (cs @ [c]))" using elapsed_longer [OF suf len(2)] by blast
  moreover have "length run \<le> length (oks (cs @ [c]))" using suf by (auto simp: suffix_def)
  moreover have "answered c" using suffix_snoc_cases [OF run(1) len(2)] run(2) by (auto simp: answer_run_def)
  ultimately show ?R using run(2) len by (auto simp: answer_run_def)
next
  assume R: ?R
  then have "answer_run rec (oks (cs @ [c]))" using oks_shape [of "cs @ [c]"] by (auto simp: answer_run_def)
  then show ?L using oks_suffix by blast
qed

lemma push_exact:
  assumes fresh: "fresh_runs s0" and clk: "list_all clock_ok (cs @ [c])"
    and s: "s = foldl (after_check env fc cfg) s0 cs" and o: "observe_check env fc cfg c s = (s', p)"
  shows "(\<exists>x. p = Some x \<and> pu_Kind x = PushDown) \<longleftrightarrow>
      \<not> ws_Alerted s \<and> (\<exists>run. suffix run (cs @ [c]) \<and> outage_run (cfg_Hold cfg) run)"
    and "(\<exists>x. p = Some x \<and> pu_Kind x = PushRecovery) \<longleftrightarrow>
      ws_Alerted s \<and> (\<exists>run. suffix run (cs @ [c]) \<and> answer_run (cfg_Recover cfg) run)"
proof -
  have n: "counts_ok (fails cs) (oks cs) s" unfolding s by (rule history_counts [OF fresh])
  have "list_all (\<lambda>c. ck_now c \<noteq> 0) cs" using clk by (auto simp: list_all_iff clock_ok_def)
  from history_network [OF fresh this] have net: "ws_NetworkDownSince s = 0 \<longleftrightarrow> \<not> (cs \<noteq> [] \<and> net_down (last cs))"
    unfolding s by blast
  show "(\<exists>x. p = Some x \<and> pu_Kind x = PushDown) \<longleftrightarrow>
      \<not> ws_Alerted s \<and> (\<exists>run. suffix run (cs @ [c]) \<and> outage_run (cfg_Hold cfg) run)"
    and "(\<exists>x. p = Some x \<and> pu_Kind x = PushRecovery) \<longleftrightarrow>
      ws_Alerted s \<and> (\<exists>run. suffix run (cs @ [c]) \<and> answer_run (cfg_Recover cfg) run)"
    using observe_push [OF n o] net unfolding outage_iff [OF clk] answer_iff [OF clk] by auto
qed

section \<open>Properties\<close>

text \<open>
  C27. The witness pushes exactly when it should. After any checks, whatever became of earlier pushes,
  a check asks for the message that the control plane is down exactly when none was delivered yet
  and the checks end in an unbroken run, from a failure with the network up on, of at least the
  hold time, without an answer and without a gap, whose last two checks failed with the network
  up; and for the message of recovery exactly when one is due and the checks end in an unbroken
  run of at least two answers over at least the recovery time.
\<close>

theorem witness_pushes_exactly:
  assumes fresh: "fresh_runs s0" and clk: "list_all clock_ok (cs @ [c])"
    and s: "s = foldl (after_check env fc cfg) s0 cs" and o: "observe_check env fc cfg c s = (s', p)"
  shows "((\<exists>x. p = Some x \<and> pu_Kind x = PushDown) \<longleftrightarrow>
      \<not> ws_Alerted s \<and> (\<exists>run. suffix run (cs @ [c]) \<and> outage_run (cfg_Hold cfg) run)) \<and>
    ((\<exists>x. p = Some x \<and> pu_Kind x = PushRecovery) \<longleftrightarrow>
      ws_Alerted s \<and> (\<exists>run. suffix run (cs @ [c]) \<and> answer_run (cfg_Recover cfg) run))"
  using push_exact [OF fresh clk s o] by blast

definition demo_check :: "gotime \<Rightarrow> bool \<Rightarrow> wcheck" where
  "demo_check t up = \<lparr>ck_now = t, ck_step = 2 * minute, ck_gap = False,
     ck_res = \<lparr>cr_OK = False, cr_Detail = ''timeout'', cr_NetworkUp = up\<rparr>, ck_pushed = None\<rparr>"

theorem witness_pushes_exactly_witness:
  "\<exists>x. snd (observe_check demo_node (\<lambda>_. ''then'') demo_config (demo_check 9 True)
       (foldl (after_check demo_node (\<lambda>_. ''then'') demo_config) zero_state [demo_check 5 True, demo_check 7 True])) = Some x \<and>
     pu_Kind x = PushDown"
proof -
  let ?cs = "[demo_check 5 True, demo_check 7 True]"
  let ?s = "foldl (after_check demo_node (\<lambda>_. ''then'') demo_config) zero_state ?cs"
  obtain s' p where o: "observe_check demo_node (\<lambda>_. ''then'') demo_config (demo_check 9 True) ?s = (s', p)" by fastforce
  have "fresh_runs zero_state" "list_all clock_ok (?cs @ [demo_check 9 True])"
    by (simp_all add: fresh_runs_def zero_state_def clock_ok_def demo_check_def)
  note w = witness_pushes_exactly [OF this refl o]
  have "outage_run (cfg_Hold demo_config) (?cs @ [demo_check 9 True])"
    by (simp add: outage_run_def demo_check_def elapsed_def cfg_Hold_def secondsOr_def demo_config_def DefaultHold_def)
  then have "\<exists>run. suffix run (?cs @ [demo_check 9 True]) \<and> outage_run (cfg_Hold demo_config) run" by blast
  moreover have "\<not> ws_Alerted ?s" by code_simp
  ultimately show ?thesis using w o by simp
qed

text \<open>
  A lasting outage is announced. Once the checks end in an unbroken run of failures of at least
  the hold time, and the message server accepts the message this check may ask for, the outage is
  announced, by this check or an earlier one.
\<close>

theorem witness_announces_outage:
  assumes fresh: "fresh_runs s0" and clk: "list_all clock_ok (cs @ [c])"
    and run: "suffix run (cs @ [c])" "outage_run (cfg_Hold cfg) run" and accepts: "ck_pushed c = Some (at, [])"
  shows "ws_Alerted (foldl (after_check env fc cfg) s0 (cs @ [c]))"
proof -
  define s where "s = foldl (after_check env fc cfg) s0 cs"
  obtain s' p where o: "observe_check env fc cfg c s = (s', p)" by fastforce
  have al: "ws_Alerted s' = ws_Alerted s" using o by (simp add: observe_check_def observe_alerted(1))
  have ex: "\<exists>run. suffix run (cs @ [c]) \<and> outage_run (cfg_Hold cfg) run" using run by blast
  then have up: "failed_up c" unfolding outage_iff [OF clk] by blast
  then have "\<not> (\<exists>run. suffix run (cs @ [c]) \<and> answer_run (cfg_Recover cfg) run)" unfolding answer_iff [OF clk] by blast
  then have norec: "\<not> (\<exists>x. p = Some x \<and> pu_Kind x = PushRecovery)" using push_exact(2) [OF fresh clk s_def o] by blast
  show ?thesis
  proof (cases p)
    case None
    then have "ws_Alerted s" using push_exact(1) [OF fresh clk s_def o] ex by auto
    then show ?thesis using None o al by (simp add: after_check_def [of env fc cfg _ c] flip: s_def)
  next
    case (Some x)
    then have "pu_Kind x = PushDown" using norec by (cases "pu_Kind x") auto
    then show ?thesis using Some o accepts
      by (simp add: after_check_def [of env fc cfg _ c] pushed_alerted flip: s_def)
  qed
qed

theorem witness_announces_outage_witness:
  "ws_Alerted (foldl (after_check demo_node (\<lambda>_. ''then'') demo_config) zero_state
     ([demo_check 5 True, demo_check 7 True] @ [(demo_check 9 True)\<lparr>ck_pushed := Some (9, [])\<rparr>]))"
proof -
  let ?c = "(demo_check 9 True)\<lparr>ck_pushed := Some (9, [])\<rparr>"
  have "fresh_runs zero_state" "list_all clock_ok ([demo_check 5 True, demo_check 7 True] @ [?c])"
    by (simp_all add: fresh_runs_def zero_state_def clock_ok_def demo_check_def)
  moreover have "outage_run (cfg_Hold demo_config) ([demo_check 5 True, demo_check 7 True] @ [?c])"
    by (simp add: outage_run_def demo_check_def elapsed_def cfg_Hold_def secondsOr_def demo_config_def DefaultHold_def)
  moreover have "ck_pushed ?c = Some (9, [])" by simp
  ultimately show ?thesis by (intro witness_announces_outage [OF _ _ suffix_order.refl])
qed

text \<open>
  Messages alternate across restarts. In every run of ticks, stops, crashes between ticks and
  starts under any configuration, when the state file can be written and read, the messages
  delivered are down, recovery, down, recovery and so on: an outage is never announced twice and
  its end never without it.
\<close>

theorem witness_messages_alternate:
  assumes "list_all durable ops"
  shows "alternate True (wd_delivered (foldl (world_step env fc) new_world ops))"
proof -
  have "alerts_ok (foldl (world_step env fc) d ops)" if "alerts_ok d" for d
    using that assms by (induction ops arbitrary: d) (auto intro: world_alerts)
  moreover have "alerts_ok new_world" by (simp add: alerts_ok_def new_world_def load_state_def zero_state_def)
  ultimately show ?thesis by (simp add: alerts_ok_def)
qed

definition demo_tick :: "gotime \<Rightarrow> world_op" where
  "demo_tick t = DoTick \<lparr>ti_health = (False, ''timeout''), ti_reachable = True, ti_stopped = False, ti_now = t,
     ti_mono = t, ti_pushed = Some (t, [])\<rparr> True"

definition demo_outage :: "world_op list" where
  "demo_outage = [DoStart demo_config ''sum'' 1 True, demo_tick minute, demo_tick (3 * minute), demo_tick (5 * minute),
     DoCrash, DoStart demo_config ''sum'' (5 * minute) True, demo_tick (6 * minute)]"

theorem witness_messages_alternate_witness:
  "alternate True (wd_delivered (foldl (world_step demo_node (\<lambda>_. ''then'')) new_world demo_outage)) \<and>
   wd_delivered (foldl (world_step demo_node (\<lambda>_. ''then'')) new_world demo_outage) = [PushDown]"
proof -
  have "list_all durable demo_outage" by (simp add: demo_outage_def demo_tick_def)
  moreover have "wd_delivered (foldl (world_step demo_node (\<lambda>_. ''then'')) new_world demo_outage) = [PushDown]"
    by code_simp
  ultimately show ?thesis using witness_messages_alternate by blast
qed

end
