(* ===== verification/Go_Path.thy ===== *)
theory Go_Path
  imports Go_Prelude
begin

text \<open>
  Splitting strings and the packages \<open>path\<close> and \<open>path/filepath\<close> of Go's library, as far as the agent uses
  them, for the slash-separated paths of a Unix node.
\<close>

text \<open>\<open>bytes.Split\<close> and \<open>strings.Split\<close> at one byte.\<close>

fun split_char :: "char \<Rightarrow> string \<Rightarrow> string list" where
  "split_char c [] = [[]]"
| "split_char c (x # xs) =
     (if x = c then [] # split_char c xs
      else case split_char c xs of [] \<Rightarrow> [[x]] | l # ls \<Rightarrow> (x # l) # ls)"

text \<open>
  \<open>filepath.Clean\<close>, by elements: empty ones and dots go, two dots take the one before, and stay only
  at the front of a path that does not begin at the root.
\<close>

fun clean_elems :: "bool \<Rightarrow> string list \<Rightarrow> string list \<Rightarrow> string list" where
  "clean_elems rooted acc [] = rev acc"
| "clean_elems rooted acc (e # es) =
     (if e = [] \<or> e = ''.'' then clean_elems rooted acc es
      else if e = ''..'' then
        clean_elems rooted
          (if acc \<noteq> [] \<and> hd acc \<noteq> ''..'' then tl acc else if rooted then acc else e # acc) es
      else clean_elems rooted (e # acc) es)"

fun join_slash :: "string list \<Rightarrow> string" where
  "join_slash [] = []"
| "join_slash [e] = e"
| "join_slash (e # f # es) = e @ ''/'' @ join_slash (f # es)"

definition clean_path :: "string \<Rightarrow> string" where
  "clean_path path =
     (let rooted = has_prefix path ''/'';
          out = (if rooted then ''/'' else []) @ join_slash (clean_elems rooted [] (split_char (CHR ''/'') path))
      in if out = [] then ''.'' else out)"

definition is_abs :: "string \<Rightarrow> bool" where
  "is_abs path \<longleftrightarrow> has_prefix path ''/''"

text \<open>\<open>path.Base\<close> and \<open>filepath.Base\<close>.\<close>

definition path_base :: "string \<Rightarrow> string" where
  "path_base p =
     (if p = [] then ''.''
      else
        let q = trim_right p ''/''
        in if q = [] then ''/''
           else case str_last_index q ''/'' of None \<Rightarrow> q | Some i \<Rightarrow> drop (i + 1) q)"

text \<open>\<open>filepath.Dir\<close>.\<close>

definition path_dir :: "string \<Rightarrow> string" where
  "path_dir p =
     (case str_last_index p ''/'' of
        None \<Rightarrow> ''.''
      | Some i \<Rightarrow> clean_path (take (i + 1) p))"

text \<open>\<open>filepath.Join\<close> of two elements.\<close>

definition path_join :: "string \<Rightarrow> string \<Rightarrow> string" where
  "path_join a b =
     (if a = [] \<and> b = [] then []
      else if a = [] then clean_path b
      else if b = [] then clean_path a
      else clean_path (a @ ''/'' @ b))"

section \<open>Lemmas\<close>

lemma split_char_not_Nil [simp]: "split_char c s \<noteq> []"
  by (induction s) (auto split: list.splits)

lemma split_char_plain: "l \<in> set (split_char c s) \<Longrightarrow> c \<notin> set l"
  by (induction s arbitrary: l) (auto split: list.splits if_splits)

lemma split_char_at: "c \<notin> set a \<Longrightarrow> split_char c (a @ c # b) = a # split_char c b"
  by (induction a) auto

lemma split_char_none: "c \<notin> set a \<Longrightarrow> split_char c a = [a]"
  by (induction a) auto

text \<open>The clean absolute paths are those made of plain elements.\<close>

definition plain_elem :: "string \<Rightarrow> bool" where
  "plain_elem e \<longleftrightarrow> e \<noteq> [] \<and> CHR ''/'' \<notin> set e \<and> e \<noteq> ''.'' \<and> e \<noteq> ''..''"

definition rooted_path :: "string list \<Rightarrow> string" where
  "rooted_path es = CHR ''/'' # join_slash es"

lemma plain_elem_slash: "plain_elem e \<Longrightarrow> CHR ''/'' \<notin> set e"
  by (simp add: plain_elem_def)

lemma join_slash_snoc: "es \<noteq> [] \<Longrightarrow> join_slash (es @ [e]) = join_slash es @ CHR ''/'' # e"
  by (induction es rule: join_slash.induct) auto

lemma rooted_path_snoc: "rooted_path (es @ [e]) = (if es = [] then [CHR ''/''] else rooted_path es @ ''/'') @ e"
  by (simp add: rooted_path_def join_slash_snoc)

lemma split_join:
  "list_all plain_elem es \<Longrightarrow> es \<noteq> [] \<Longrightarrow> split_char (CHR ''/'') (join_slash es @ CHR ''/'' # b) = es @ split_char (CHR ''/'') b"
  by (induction es rule: join_slash.induct) (auto simp: split_char_at plain_elem_slash)

lemma split_rooted:
  assumes "list_all plain_elem es"
  shows "split_char (CHR ''/'') (rooted_path es @ CHR ''/'' # b) = [] # (if es = [] then [[]] else es) @ split_char (CHR ''/'') b"
  using split_join [OF assms] by (cases "es = []") (auto simp: rooted_path_def)

lemma clean_elems_plain: "list_all plain_elem es \<Longrightarrow> clean_elems True acc es = rev acc @ es"
  by (induction es arbitrary: acc) (auto simp: plain_elem_def)

lemma clean_elems_snoc: "list_all plain_elem es \<Longrightarrow> clean_elems True acc (es @ fs) = clean_elems True (rev es @ acc) fs"
  by (induction es arbitrary: acc) (auto simp: plain_elem_def)

lemma clean_elems_all:
  "list_all (\<lambda>e. CHR ''/'' \<notin> set e) es \<Longrightarrow> list_all plain_elem acc \<Longrightarrow> list_all plain_elem (clean_elems True acc es)"
proof (induction es arbitrary: acc)
  case (Cons e es)
  then show ?case by (cases acc) (auto simp: plain_elem_def)
qed (simp add: list_all_iff)

lemma clean_path_join:
  assumes "list_all plain_elem es" "CHR ''/'' \<notin> set b"
  shows "clean_path (rooted_path es @ CHR ''/'' # b) = rooted_path (if plain_elem b then es @ [b] else if b = ''..'' then butlast es else es)"
proof -
  have "split_char (CHR ''/'') (rooted_path es @ CHR ''/'' # b) = [] # (if es = [] then [[]] else es) @ [b]"
    using split_rooted [OF assms(1)] split_char_none [OF assms(2)] by simp
  moreover have "has_prefix (rooted_path es @ CHR ''/'' # b) ''/''" by (simp add: rooted_path_def)
  moreover have "clean_elems True [] (es @ [b]) = (if plain_elem b then es @ [b] else if b = ''..'' then butlast es else es)"
    using clean_elems_snoc [OF assms(1), of "[]" "[b]"] assms
    by (cases es rule: rev_cases) (auto simp: plain_elem_def)
  ultimately show ?thesis using assms(2) unfolding clean_path_def
    by (cases "es = []") (auto simp: rooted_path_def Let_def plain_elem_def)
qed

lemma clean_path_rooted: "list_all plain_elem es \<Longrightarrow> clean_path (rooted_path es) = rooted_path es"
proof (cases es rule: rev_cases)
  case Nil
  then show ?thesis by (simp add: clean_path_def rooted_path_def)
next
  case (snoc fs e)
  assume a: "list_all plain_elem es"
  show ?thesis
  proof (cases "fs = []")
    case True
    with a snoc show ?thesis using split_char_none [OF plain_elem_slash, of e]
      by (auto simp: clean_path_def rooted_path_def plain_elem_def)
  next
    case False
    with a snoc show ?thesis using clean_path_join [of fs e] by (simp add: rooted_path_snoc plain_elem_def)
  qed
qed

lemma clean_path_abs: "is_abs p \<Longrightarrow> \<exists>es. list_all plain_elem es \<and> clean_path p = rooted_path es"
  using clean_elems_all [of "split_char (CHR ''/'') p" "[]"] split_char_plain [of _ "CHR ''/''" p]
  by (auto simp: clean_path_def is_abs_def rooted_path_def list_all_iff Let_def)

lemma path_join_rooted: "list_all plain_elem es \<Longrightarrow> plain_elem n \<Longrightarrow> path_join (rooted_path es) n = rooted_path (es @ [n])"
  using clean_path_join [of es n] by (auto simp: path_join_def rooted_path_def plain_elem_def)

lemma last_slash_none: "CHR ''/'' \<notin> set s \<Longrightarrow> str_last_index s ''/'' = None"
  by (induction s) auto

lemma last_slash: "CHR ''/'' \<notin> set b \<Longrightarrow> str_last_index (a @ CHR ''/'' # b) ''/'' = Some (length a)"
  by (induction a) (auto simp: last_slash_none)

lemma path_dir_rooted: "list_all plain_elem es \<Longrightarrow> plain_elem e \<Longrightarrow> path_dir (rooted_path (es @ [e])) = rooted_path es"
proof (cases "es = []")
  case True
  assume "plain_elem e"
  with True have "str_last_index (rooted_path (es @ [e])) ''/'' = Some 0"
    using last_slash [of e "[]"] by (simp add: rooted_path_def plain_elem_def)
  with True show ?thesis by (simp add: path_dir_def rooted_path_def clean_path_def)
next
  case False
  assume a: "list_all plain_elem es" "plain_elem e"
  with False have "str_last_index (rooted_path (es @ [e])) ''/'' = Some (length (rooted_path es))"
    using last_slash [of e "rooted_path es"] by (simp add: rooted_path_snoc plain_elem_def)
  with False a show ?thesis using clean_path_join [of es "[]"] by (simp add: path_dir_def rooted_path_snoc plain_elem_def)
qed

lemma path_dir_root: "path_dir (rooted_path []) = rooted_path []"
  by (simp add: path_dir_def rooted_path_def clean_path_def)

lemma last_index_take: "str_last_index s ''/'' = Some i \<Longrightarrow> is_abs s \<Longrightarrow> is_abs (take (i + 1) s)"
  by (cases s) (auto simp: is_abs_def)

lemma abs_has_slash: "is_abs p \<Longrightarrow> \<exists>i. str_last_index p ''/'' = Some i"
  by (cases p) (auto simp: is_abs_def split: option.splits)

lemma path_dir_abs: "is_abs p \<Longrightarrow> \<exists>es. list_all plain_elem es \<and> path_dir p = rooted_path es"
  using abs_has_slash [of p] clean_path_abs last_index_take [of p] by (auto simp: path_dir_def)

end
