(* ===== verification/Log_Tail.thy ===== *)
theory Log_Tail
  imports Go_Path
begin

text \<open>
  Following a log file (\<open>src/internal/logtail/logtail.go\<close>) and the checkpoint of a log source
  (\<open>loadLogCheckpoint\<close>, \<open>saveLogCheckpoint\<close> of \<open>src/cmd/lattice-agent/logtail.go\<close>).

  A file is known by its inode, which is what \<open>os.SameFile\<close> compares. What the system answers during
  one \<open>Poll\<close> is a \<open>poll_io\<close>, one field for each call; the file may change between the calls.
\<close>

section \<open>Definitions\<close>

abbreviation nl :: char where "nl \<equiv> CHR 0x0A"

definition defaultMaxLineBytes :: int where "defaultMaxLineBytes = 16384"
definition defaultMaxReadBytes :: int where "defaultMaxReadBytes = 1048576"

type_synonym inode = nat

datatype tail_error = PathRefused string | TailError string

record poll_io =
  io_open :: "tail_error + inode"
  io_open_size :: "string + int"
  io_seek :: "string option"
  io_size :: "string + int"
  io_seek_start :: "string option"
  io_read :: "int \<Rightarrow> int \<Rightarrow> string + string"
  io_path :: "inode option"

record tailer =
  tl_maxLineBytes :: int
  tl_maxReadBytes :: int
  tl_file :: "inode option"
  tl_info :: inode
  tl_offset :: int
  tl_incarnation :: int
  tl_started :: bool
  tl_resumed :: bool

definition new_tailer :: "int \<Rightarrow> tailer" where
  "new_tailer maxLineBytes =
     \<lparr>tl_maxLineBytes = (if maxLineBytes \<le> 0 then defaultMaxLineBytes else maxLineBytes),
      tl_maxReadBytes = defaultMaxReadBytes, tl_file = None, tl_info = 0, tl_offset = 0,
      tl_incarnation = 0, tl_started = False, tl_resumed = False\<rparr>"

definition Resume :: "64 word \<Rightarrow> int \<Rightarrow> tailer \<Rightarrow> tailer" where
  "Resume offset incarnation t =
     (let offset = (if offset > 2 ^ 63 - 1 then 0 else offset)
      in t\<lparr>tl_offset := int (unat offset), tl_incarnation := incarnation, tl_resumed := True, tl_started := True\<rparr>)"

definition tail_Offset :: "tailer \<Rightarrow> 64 word" where
  "tail_Offset t = word_of_int (tl_offset t)"

definition RotID :: "tailer \<Rightarrow> string" where
  "RotID t = itoa (tl_incarnation t)"

definition ensureOpen :: "poll_io \<Rightarrow> tailer \<Rightarrow> tailer \<times> tail_error option" where
  "ensureOpen io t =
     (if tl_file t \<noteq> None then (t, None)
      else case io_open io of
        Inl e \<Rightarrow> (t, Some e)
      | Inr f \<Rightarrow>
      (case io_open_size io of
        Inl e \<Rightarrow> (t, Some (TailError e))
      | Inr sz \<Rightarrow>
          (let t = (if \<not> tl_started t then t\<lparr>tl_offset := sz, tl_started := True\<rparr> else t);
               t = (if tl_offset t > sz then t\<lparr>tl_offset := 0\<rparr> else t)
           in case io_seek io of
                Some e \<Rightarrow> (t, Some (TailError e))
              | None \<Rightarrow> (t\<lparr>tl_file := Some f, tl_info := f\<rparr>, None))))"

definition tail_truncate :: "tailer \<Rightarrow> string \<Rightarrow> string" where
  "tail_truncate t b = (if int (length b) > tl_maxLineBytes t then take (nat (tl_maxLineBytes t)) b else b)"

definition readLines :: "poll_io \<Rightarrow> int \<Rightarrow> tailer \<Rightarrow> tailer \<times> (string + string list)" where
  "readLines io sz t =
     (let avail = sz - tl_offset t
      in if avail \<le> 0 then (t, Inr [])
         else
           let avail = (if avail > tl_maxReadBytes t then tl_maxReadBytes t else avail)
           in case io_read io (tl_offset t) avail of
                Inl e \<Rightarrow> (t, Inl e)
              | Inr buf \<Rightarrow>
                  (if buf = [] then (t, Inr [])
                   else case str_last_index buf [nl] of
                     None \<Rightarrow>
                       (if int (length buf) \<ge> tl_maxReadBytes t
                        then (t\<lparr>tl_offset := tl_offset t + int (length buf)\<rparr>, Inr [tail_truncate t buf])
                        else (t, Inr []))
                   | Some lastNL \<Rightarrow>
                       (let consumed = take (lastNL + 1) buf;
                            t' = t\<lparr>tl_offset := tl_offset t + int (length consumed)\<rparr>;
                            raw = split_char nl (take (length consumed - 1) consumed)
                        in (t', Inr (map (\<lambda>line. tail_truncate t (trim_suffix line [CHR 0x0D])) raw)))))"

definition poll :: "poll_io \<Rightarrow> tailer \<Rightarrow> tailer \<times> (tail_error + string list)" where
  "poll io t0 =
     (case ensureOpen io t0 of
        (t, Some e) \<Rightarrow> (t, Inl e)
      | (t, None) \<Rightarrow>
      (case io_size io of
         Inl e \<Rightarrow> (t, Inl (TailError e))
       | Inr sz \<Rightarrow>
           (let shrunk = (sz < tl_offset t);
                t = (if shrunk then t\<lparr>tl_offset := 0, tl_incarnation := tl_incarnation t + 1\<rparr> else t)
            in if shrunk \<and> io_seek_start io \<noteq> None then (t, Inl (TailError (the (io_seek_start io))))
               else case readLines io sz t of
                 (t, Inl e) \<Rightarrow> (t, Inl (TailError e))
               | (t, Inr lines) \<Rightarrow>
                   (case io_path io of
                      Some i \<Rightarrow>
                        (if tl_info t \<noteq> i
                         then (t\<lparr>tl_file := None, tl_offset := 0, tl_incarnation := tl_incarnation t + 1\<rparr>, Inr lines)
                         else (t, Inr lines))
                    | None \<Rightarrow> (t, Inr lines)))))"

definition tail_Close :: "tailer \<Rightarrow> tailer" where
  "tail_Close t = t\<lparr>tl_file := None\<rparr>"

subsection \<open>Checkpoints\<close>

definition CheckpointString :: "64 word \<Rightarrow> int \<Rightarrow> string" where
  "CheckpointString offset incarnation = show_nat (unat offset) @ '':'' @ itoa incarnation"

text \<open>
  \<open>fmt.Sscanf\<close> with \<open>%d:%d\<close>: white space before a number is skipped, a newline is an error, and text
  after the second number is left unread.
\<close>

function scan_space :: "string \<Rightarrow> string option" where
  "scan_space s =
     (if has_prefix s [nl] then None
      else if space_at_front s = 0 then Some s
      else scan_space (drop (space_at_front s) s))"
  by pat_completeness auto
termination
  by (relation "measure length") (auto intro: space_shrinks)

declare scan_space.simps [simp del]

definition scan_uint :: "string \<Rightarrow> (64 word \<times> string) option" where
  "scan_uint s0 =
     (case scan_space s0 of
        None \<Rightarrow> None
      | Some s \<Rightarrow>
          (case parse_uint 64 (takeWhile is_digit s) of
             None \<Rightarrow> None
           | Some n \<Rightarrow> Some (word_of_nat n, dropWhile is_digit s)))"

definition scan_int :: "string \<Rightarrow> (int \<times> string) option" where
  "scan_int s0 =
     (case scan_space s0 of
        None \<Rightarrow> None
      | Some s \<Rightarrow>
          (let sign = (if has_prefix s ''-'' \<or> has_prefix s ''+'' then take 1 s else []);
               rest = drop (length sign) s
           in case parse_int (sign @ takeWhile is_digit rest) of
                None \<Rightarrow> None
              | Some i \<Rightarrow> Some (i, dropWhile is_digit rest)))"

definition ParseCheckpoint :: "string \<Rightarrow> (64 word \<times> int) option" where
  "ParseCheckpoint s =
     (case scan_uint s of
        None \<Rightarrow> None
      | Some (off, s) \<Rightarrow>
          (case cut_prefix s '':'' of
             None \<Rightarrow> None
           | Some s \<Rightarrow> map_option (\<lambda>(inc, _). (off, inc)) (scan_int s)))"

definition str_count :: "char \<Rightarrow> string \<Rightarrow> nat" where
  "str_count c s = length (filter (\<lambda>d. d = c) s)"

text \<open>\<open>binding\<close> is \<open>checkpointBinding\<close>, the first eight bytes of a hash of the path in hexadecimal.\<close>

definition loadLogCheckpoint ::
  "(string \<Rightarrow> string) \<Rightarrow> string \<Rightarrow> string option \<Rightarrow> string \<Rightarrow> (64 word \<times> int) option" where
  "loadLogCheckpoint binding path content sourcePath =
     (if path = [] then None
      else case content of
        None \<Rightarrow> None
      | Some b \<Rightarrow>
          (let s = trim_space b
           in case str_last_index s '':'' of
                None \<Rightarrow> None
              | Some i \<Rightarrow>
                  (if str_count (CHR '':'') s \<noteq> 2 \<or> drop (i + 1) s \<noteq> binding sourcePath then None
                   else ParseCheckpoint (take i s))))"

definition checkpoint_line :: "(string \<Rightarrow> string) \<Rightarrow> string \<Rightarrow> 64 word \<Rightarrow> int \<Rightarrow> string" where
  "checkpoint_line binding sourcePath offset incarnation =
     CheckpointString offset incarnation @ '':'' @ binding sourcePath"

section \<open>Lemmas\<close>

lemma split_char_concat: "concat (map (\<lambda>l. l @ [c]) (split_char c s)) = s @ [c]"
proof (induction s)
  case (Cons x xs)
  then show ?case by (cases "split_char c xs") auto
qed simp

lemma last_nl_Some: "str_last_index s [c] = Some i \<Longrightarrow> i < length s \<and> s ! i = c \<and> c \<notin> set (drop (Suc i) s)"
  and last_nl_None: "str_last_index s [c] = None \<longleftrightarrow> c \<notin> set s"
proof (induction s arbitrary: i)
  case (Cons x xs)
  {
    case 1
    then show ?case using Cons.IH by (auto split: option.splits if_splits)
  next
    case 2
    then show ?case using Cons.IH by (auto split: option.splits)
  }
qed simp_all

subsection \<open>A poll of a file that stays\<close>

text \<open>The answers of the system for the file \<open>f\<close> with content \<open>C\<close> at the path.\<close>

definition file_io :: "inode \<Rightarrow> string \<Rightarrow> poll_io" where
  "file_io f C =
     \<lparr>io_open = Inr f, io_open_size = Inr (int (length C)), io_seek = None, io_size = Inr (int (length C)),
      io_seek_start = None, io_read = (\<lambda>off n. Inr (take (nat n) (drop (nat off) C))), io_path = Some f\<rparr>"

text \<open>
  What the text of a file is cut into: complete lines, and pieces as long as one read without a
  newline in them.
\<close>

datatype piece = Line string | Chunk string

fun piece_bytes :: "piece \<Rightarrow> string" where
  "piece_bytes (Line l) = l @ [nl]"
| "piece_bytes (Chunk b) = b"

fun piece_text :: "tailer \<Rightarrow> piece \<Rightarrow> string" where
  "piece_text t (Line l) = tail_truncate t (trim_suffix l [CHR 0x0D])"
| "piece_text t (Chunk b) = tail_truncate t b"

fun piece_ok :: "tailer \<Rightarrow> piece \<Rightarrow> bool" where
  "piece_ok t (Line l) = (nl \<notin> set l)"
| "piece_ok t (Chunk b) = (nl \<notin> set b \<and> int (length b) = tl_maxReadBytes t)"

definition cut_into :: "tailer \<Rightarrow> string \<Rightarrow> string list \<Rightarrow> bool" where
  "cut_into t s out \<longleftrightarrow>
     (\<exists>ps. list_all (piece_ok t) ps \<and> concat (map piece_bytes ps) = s \<and> map (piece_text t) ps = out)"

definition at_file :: "inode \<Rightarrow> tailer \<Rightarrow> bool" where
  "at_file f t \<longleftrightarrow> (tl_file t = None \<or> tl_file t = Some f \<and> tl_info t = f) \<and> tl_started t \<and>
     0 \<le> tl_offset t \<and> 0 < tl_maxReadBytes t"

lemma cut_into_Nil [simp]: "cut_into t [] []"
  by (auto simp: cut_into_def intro: exI [of _ "[]"])

lemma cut_into_append: "cut_into t s out \<Longrightarrow> cut_into t s' out' \<Longrightarrow> cut_into t (s @ s') (out @ out')"
proof -
  assume "cut_into t s out" "cut_into t s' out'"
  then obtain ps qs where "list_all (piece_ok t) (ps @ qs)" "concat (map piece_bytes (ps @ qs)) = s @ s'"
    "map (piece_text t) (ps @ qs) = out @ out'"
    by (auto simp: cut_into_def)
  then show ?thesis unfolding cut_into_def by blast
qed

lemma lines_cut_into:
  "cut_into t (s @ [nl]) (map (\<lambda>line. tail_truncate t (trim_suffix line [CHR 0x0D])) (split_char nl s))"
proof -
  let ?ps = "map Line (split_char nl s)"
  have "list_all (piece_ok t) ?ps" using split_char_plain [of _ nl s] by (auto simp: list_all_iff)
  moreover have "concat (map piece_bytes ?ps) = s @ [nl]" using split_char_concat [of nl s] by (simp add: comp_def)
  ultimately show ?thesis by (auto simp: cut_into_def comp_def intro!: exI [of _ ?ps])
qed

text \<open>One read: the bytes it passes over, and when it makes no progress.\<close>

lemma readLines_file:
  assumes o: "0 \<le> tl_offset t" "tl_offset t \<le> int (length C)" "0 < tl_maxReadBytes t"
    and r: "readLines (file_io f C) (int (length C)) t = (t', res)"
  shows "\<exists>k out. res = Inr out \<and> t' = t\<lparr>tl_offset := tl_offset t + int k\<rparr> \<and>
    k \<le> length C - nat (tl_offset t) \<and> cut_into t (take k (drop (nat (tl_offset t)) C)) out \<and>
    (k = 0 \<longrightarrow> nl \<notin> set (drop (nat (tl_offset t)) C) \<and> int (length C) - tl_offset t < tl_maxReadBytes t)"
proof -
  define rest where "rest = drop (nat (tl_offset t)) C"
  define n where "n = nat (min (int (length C) - tl_offset t) (tl_maxReadBytes t))"
  have len: "int (length rest) = int (length C) - tl_offset t" "n \<le> length rest" using o by (auto simp: rest_def n_def)
  define buf where "buf = take n rest"
  have buf: "length buf = n" using len by (simp add: buf_def)
  have eq: "readLines (file_io f C) (int (length C)) t =
      (if rest = [] then (t, Inr [])
       else case str_last_index buf [nl] of
         None \<Rightarrow> (if int (length buf) \<ge> tl_maxReadBytes t
                  then (t\<lparr>tl_offset := tl_offset t + int (length buf)\<rparr>, Inr [tail_truncate t buf]) else (t, Inr []))
       | Some i \<Rightarrow> (t\<lparr>tl_offset := tl_offset t + int (i + 1)\<rparr>,
           Inr (map (\<lambda>line. tail_truncate t (trim_suffix line [CHR 0x0D])) (split_char nl (take i buf)))))"
    (is "_ = ?R")
  proof (cases "rest = []")
    case True
    then show ?thesis using len by (simp add: readLines_def)
  next
    case False
    then have "0 < n" using len o by (cases rest) (auto simp: n_def)
    then have ne: "buf \<noteq> []" using buf by auto
    have rd: "io_read (file_io f C) (tl_offset t)
       (if int (length C) - tl_offset t > tl_maxReadBytes t then tl_maxReadBytes t else int (length C) - tl_offset t) = Inr buf"
      by (simp add: file_io_def buf_def rest_def n_def min_def)
    have pos: "\<not> int (length C) - tl_offset t \<le> 0" using False len by (cases rest) auto
    have front: "take (length (take (i + 1) buf) - 1) (take (i + 1) buf) = take i buf \<and> length (take (i + 1) buf) = i + 1"
      if "str_last_index buf [nl] = Some i" for i
    proof -
      have "length (take (i + 1) buf) = i + 1" using last_nl_Some [OF that] by auto
      then show ?thesis by (simp only: add_diff_cancel_right' take_take) simp
    qed
    show ?thesis
      using pos ne False front unfolding readLines_def Let_def rd by (auto split: option.split)
  qed
  show ?thesis
  proof (cases "rest = []")
    case True
    then have "res = Inr [] \<and> t' = t" using r eq by simp
    then show ?thesis using True len o(3) by (intro exI [of _ 0] exI [of _ "[]"]) (auto simp: rest_def)
  next
    case False
    show ?thesis
    proof (cases "str_last_index buf [nl]")
      case None
      then have plain: "nl \<notin> set buf" by (simp add: last_nl_None)
      show ?thesis
      proof (cases "int (length buf) \<ge> tl_maxReadBytes t")
        case True
        then have "res = Inr [tail_truncate t buf] \<and> t' = t\<lparr>tl_offset := tl_offset t + int (length buf)\<rparr>"
          using r eq False None by simp
        moreover have "int (length buf) = tl_maxReadBytes t" using True buf o by (auto simp: n_def)
        then have "cut_into t buf [tail_truncate t buf]" using plain
          by (auto simp: cut_into_def intro!: exI [of _ "[Chunk buf]"])
        ultimately show ?thesis using len buf True o(3)
          by (intro exI [of _ "length buf"] exI [of _ "[tail_truncate t buf]"]) (auto simp: buf_def rest_def)
      next
        case c: False
        then have "res = Inr [] \<and> t' = t" using r eq False None by simp
        moreover have "n = length rest" using c buf len by (auto simp: n_def min_def split: if_splits)
        ultimately show ?thesis using plain c len o(1)
          by (intro exI [of _ 0] exI [of _ "[]"]) (auto simp: buf_def rest_def)
      qed
    next
      case (Some i)
      note i = last_nl_Some [OF Some]
      have "take (Suc i) buf = take i buf @ [nl]" using i by (simp add: take_Suc_conv_app_nth)
      moreover have "take (Suc i) rest = take (Suc i) buf" using i buf by (simp add: buf_def min_def)
      ultimately have "cut_into t (take (i + 1) rest)
          (map (\<lambda>line. tail_truncate t (trim_suffix line [CHR 0x0D])) (split_char nl (take i buf)))"
        using lines_cut_into [of t "take i buf"] by simp
      then show ?thesis using r eq False Some i buf len
        by (intro exI [of _ "i + 1"] exI [of _ "map (\<lambda>line. tail_truncate t (trim_suffix line [CHR 0x0D])) (split_char nl (take i buf))"])
          (auto simp: rest_def)
    qed
  qed
qed


lemma poll_file:
  assumes t: "at_file f t" "tl_offset t \<le> int (length C)" and p: "poll (file_io f C) t = (t', res)"
  shows "\<exists>k out. res = Inr out \<and> tl_offset t' = tl_offset t + int k \<and> at_file f t' \<and>
    tl_maxLineBytes t' = tl_maxLineBytes t \<and> tl_maxReadBytes t' = tl_maxReadBytes t \<and>
    tl_incarnation t' = tl_incarnation t \<and>
    k \<le> length C - nat (tl_offset t) \<and> cut_into t (take k (drop (nat (tl_offset t)) C)) out \<and>
    (k = 0 \<longrightarrow> nl \<notin> set (drop (nat (tl_offset t)) C) \<and> int (length C) - tl_offset t < tl_maxReadBytes t)"
proof -
  define u where "u = t\<lparr>tl_file := Some f, tl_info := f\<rparr>"
  have "ensureOpen (file_io f C) t = (u, None)"
    using t by (auto simp: ensureOpen_def file_io_def at_file_def u_def Let_def)
  obtain w rd where rd: "readLines (file_io f C) (int (length C)) u = (w, rd)" by fastforce
  have u: "0 \<le> tl_offset u" "tl_offset u \<le> int (length C)" "0 < tl_maxReadBytes u" using t by (auto simp: u_def at_file_def)
  obtain k out where k: "rd = Inr out" "w = u\<lparr>tl_offset := tl_offset u + int k\<rparr>" "k \<le> length C - nat (tl_offset u)"
    "cut_into u (take k (drop (nat (tl_offset u)) C)) out"
    "k = 0 \<longrightarrow> nl \<notin> set (drop (nat (tl_offset u)) C) \<and> int (length C) - tl_offset u < tl_maxReadBytes u"
    using readLines_file [OF u rd] by blast
  have "poll (file_io f C) t = (w, Inr out)"
    using \<open>ensureOpen (file_io f C) t = (u, None)\<close> u rd k(1,2)
    by (simp add: poll_def Let_def file_io_def [of f C, THEN arg_cong [of _ _ io_size]] file_io_def [of f C, THEN arg_cong [of _ _ io_path]])
      (simp add: u_def)
  moreover have "cut_into u = cut_into t"
  proof -
    have "piece_ok u = piece_ok t" "piece_text u = piece_text t"
      by (rule ext, case_tac x; simp add: u_def tail_truncate_def)+
    then show ?thesis by (intro ext) (simp add: cut_into_def)
  qed
  ultimately show ?thesis using p k t
    by (intro exI [of _ k] exI [of _ out]) (auto simp: u_def at_file_def)
qed

fun tail_run :: "inode \<Rightarrow> tailer \<Rightarrow> string list \<Rightarrow> tailer \<times> string list" where
  "tail_run f t [] = (t, [])"
| "tail_run f t (C # Cs) =
     (let (t1, res) = poll (file_io f C) t; (t2, out) = tail_run f t1 Cs
      in (t2, (case res of Inr lines \<Rightarrow> lines | Inl e \<Rightarrow> []) @ out))"

lemma cut_into_cong:
  "tl_maxLineBytes t = tl_maxLineBytes u \<Longrightarrow> tl_maxReadBytes t = tl_maxReadBytes u \<Longrightarrow> cut_into t = cut_into u"
proof -
  assume e: "tl_maxLineBytes t = tl_maxLineBytes u" "tl_maxReadBytes t = tl_maxReadBytes u"
  have "piece_ok t x = piece_ok u x" "piece_text t x = piece_text u x" for x
    by (cases x; simp add: e tail_truncate_def)+
  then have "piece_ok t = piece_ok u" "piece_text t = piece_text u" by (auto simp: fun_eq_iff)
  then show ?thesis by (intro ext) (simp add: cut_into_def)
qed

lemma tail_run_exact:
  assumes "at_file f t" "tl_offset t \<le> int (length C)" "sorted_wrt prefix (C # Cs)" "tail_run f t (C # Cs) = (t', out)"
  shows "at_file f t' \<and> tl_incarnation t' = tl_incarnation t \<and> tl_offset t \<le> tl_offset t' \<and>
    tl_offset t' \<le> int (length (last (C # Cs))) \<and> tl_maxReadBytes t' = tl_maxReadBytes t \<and>
    cut_into t (take (nat (tl_offset t' - tl_offset t)) (drop (nat (tl_offset t)) (last (C # Cs)))) out"
  using assms
proof (induction Cs arbitrary: C t out)
  case Nil
  obtain t1 res where p: "poll (file_io f C) t = (t1, res)" by fastforce
  from poll_file [OF Nil.prems(1,2) p] Nil.prems p show ?case by (auto simp: at_file_def)
next
  case (Cons D Cs)
  obtain t1 res where p: "poll (file_io f C) t = (t1, res)" by fastforce
  obtain k o1 where k: "res = Inr o1" "tl_offset t1 = tl_offset t + int k" "at_file f t1"
    "tl_maxLineBytes t1 = tl_maxLineBytes t" "tl_maxReadBytes t1 = tl_maxReadBytes t" "tl_incarnation t1 = tl_incarnation t"
    "k \<le> length C - nat (tl_offset t)" "cut_into t (take k (drop (nat (tl_offset t)) C)) o1"
    using poll_file [OF Cons.prems(1,2) p] by blast
  obtain o2 where o2: "tail_run f t1 (D # Cs) = (t', o2)" "out = o1 @ o2"
    using Cons.prems(4) p k(1) by (auto simp: case_prod_beta Let_def)
  let ?L = "last (D # Cs)" and ?o = "nat (tl_offset t)"
  have t0: "0 \<le> tl_offset t" using Cons.prems(1) by (simp add: at_file_def)
  have CD: "prefix C D" and CL: "prefix C ?L" using Cons.prems(3) by (auto simp: last_in_set)
  then have "tl_offset t1 \<le> int (length D)" using k(2,7) Cons.prems(2) t0 prefix_length_le [OF CD] by linarith
  from Cons.IH [OF k(3) this _ o2(1)] Cons.prems(3)
  have IH: "at_file f t'" "tl_incarnation t' = tl_incarnation t1" "tl_offset t1 \<le> tl_offset t'" "tl_offset t' \<le> int (length ?L)"
    "tl_maxReadBytes t' = tl_maxReadBytes t1"
    "cut_into t1 (take (nat (tl_offset t' - tl_offset t1)) (drop (nat (tl_offset t1)) ?L)) o2" by auto
  have "take k (drop ?o C) = take k (drop ?o ?L)" using CL k(7) by (auto simp: prefix_def)
  moreover have "cut_into t1 = cut_into t" using k by (intro cut_into_cong) simp_all
  moreover have "nat (tl_offset t1) = ?o + k" "nat (tl_offset t' - tl_offset t) = k + nat (tl_offset t' - tl_offset t1)"
    using k(2) t0 IH(3) by auto
  ultimately have "cut_into t (take (nat (tl_offset t' - tl_offset t)) (drop ?o ?L)) (o1 @ o2)"
    using cut_into_append [OF k(8)] IH(6) by (simp add: take_add add.commute)
  then show ?case using IH k o2(2) by simp
qed


lemma drained_stays:
  assumes "at_file f t" "tl_offset t \<le> int (length C)" "poll (file_io f C) t = (t', res)"
    "nl \<notin> set (drop (nat (tl_offset t)) C)" "int (length C) - tl_offset t < tl_maxReadBytes t"
  shows "tl_offset t' = tl_offset t"
proof -
  obtain k out where k: "tl_offset t' = tl_offset t + int k" "k \<le> length C - nat (tl_offset t)"
    "cut_into t (take k (drop (nat (tl_offset t)) C)) out" using poll_file [OF assms(1-3)] by blast
  have "0 \<le> tl_offset t" "0 < tl_maxReadBytes t" using assms(1) by (simp_all add: at_file_def)
  obtain ps where ps: "list_all (piece_ok t) ps" "concat (map piece_bytes ps) = take k (drop (nat (tl_offset t)) C)"
    using k(3) by (auto simp: cut_into_def)
  show ?thesis
  proof (cases ps)
    case Nil
    then have "take k (drop (nat (tl_offset t)) C) = []" using ps(2) by simp
    then have "k = 0" using k(2) by (cases k) auto
    then show ?thesis using k(1) by simp
  next
    case (Cons q qs)
    have "set (piece_bytes q) \<subseteq> set (drop (nat (tl_offset t)) C)"
      using arg_cong [OF ps(2), of set] Cons set_take_subset [of k "drop (nat (tl_offset t)) C"] by auto
    moreover have "length (piece_bytes q) \<le> length C - nat (tl_offset t)"
      using arg_cong [OF ps(2), of length] Cons by simp
    ultimately show ?thesis using ps(1) Cons assms(4,5) \<open>0 \<le> tl_offset t\<close> \<open>0 < tl_maxReadBytes t\<close> by (cases q) auto
  qed
qed

subsection \<open>Checkpoints\<close>

text \<open>Visible ASCII characters, none of which is white space or part of it.\<close>

definition visible :: "char \<Rightarrow> bool" where
  "visible c \<longleftrightarrow> 33 \<le> (of_char c :: nat) \<and> (of_char c :: nat) \<le> 126"

lemma space_runes_invisible: "list_all (\<lambda>r. r \<noteq> [] \<and> \<not> visible (hd r) \<and> \<not> visible (last r)) space_runes"
  by code_simp

lemma visible_no_space:
  assumes "list_all visible s"
  shows "space_at_front s = 0" "space_at_end s = 0"
proof -
  have r: "r \<noteq> [] \<and> \<not> visible (hd r) \<and> \<not> visible (last r)" if "r \<in> set space_runes" for r
    using space_runes_invisible that by (simp add: list_all_iff)
  show "space_at_front s = 0" unfolding space_at_front_0_iff
  proof
    fix x assume "x \<in> set space_runes"
    from r [OF this] show "\<not> has_prefix s x" using assms by (auto simp: has_prefix_iff neq_Nil_conv)
  qed
  show "space_at_end s = 0" unfolding space_at_end_0_iff
  proof
    fix x assume "x \<in> set space_runes"
    from r [OF this] have x: "x = butlast x @ [last x]" "\<not> visible (last x)" by simp_all
    show "\<not> has_suffix s x"
    proof
      assume "has_suffix s x"
      then obtain t where "s = t @ butlast x @ [last x]" using x(1) by (metis has_suffix_iff)
      then show False using assms x(2) by simp
    qed
  qed
qed

lemma digit_visible: "is_digit c \<Longrightarrow> visible c"
  by (simp add: is_digit_iff visible_def)

lemma show_nat_visible: "list_all visible (show_nat n)"
  using show_nat_digit_mem digit_visible by (auto simp: list_all_iff)

lemma itoa_visible: "list_all visible (itoa i)"
  using show_nat_visible by (simp add: itoa_def visible_def)

lemma scan_space_visible: "list_all visible s \<Longrightarrow> scan_space s = Some s"
proof -
  assume v: "list_all visible s"
  then have "\<not> has_prefix s [nl]" by (cases s) (auto simp: visible_def)
  then show ?thesis using visible_no_space(1) [OF v] by (subst scan_space.simps) simp
qed

lemma show_nat_starts: "takeWhile is_digit (show_nat n @ CHR '':'' # s) = show_nat n"
  "dropWhile is_digit (show_nat n @ CHR '':'' # s) = CHR '':'' # s"
  "takeWhile is_digit (show_nat n) = show_nat n" "dropWhile is_digit (show_nat n) = []"
proof -
  have d: "\<forall>c \<in> set (show_nat n). is_digit c" "\<not> is_digit (CHR '':'')"
    using show_nat_digit_mem by (auto simp: is_digit_iff)
  show "takeWhile is_digit (show_nat n @ CHR '':'' # s) = show_nat n"
    "dropWhile is_digit (show_nat n @ CHR '':'' # s) = CHR '':'' # s"
    using d by (simp_all add: takeWhile_append dropWhile_append)
  show "takeWhile is_digit (show_nat n) = show_nat n" "dropWhile is_digit (show_nat n) = []"
    using d by (simp_all add: takeWhile_eq_all_conv dropWhile_eq_Nil_conv)
qed

lemma scan_int_itoa:
  assumes "- (2 ^ 63) \<le> i" "i < 2 ^ 63"
  shows "scan_int (itoa i) = Some (i, [])"
proof -
  have np: "\<not> has_prefix (show_nat n) ''-''" "\<not> has_prefix (show_nat n) ''+''" for n
  proof -
    obtain c s where cs: "show_nat n = c # s" using show_nat_not_Nil [of n] by (cases "show_nat n") auto
    then have "is_digit c" using show_nat_digit_mem [of c n] by simp
    then show "\<not> has_prefix (show_nat n) ''-''" "\<not> has_prefix (show_nat n) ''+''" by (auto simp: cs is_digit_iff)
  qed
  have "scan_int (itoa i) = map_option (\<lambda>i. (i, [])) (parse_int (itoa i))"
    unfolding scan_int_def scan_space_visible [OF itoa_visible]
    by (simp add: itoa_def show_nat_starts Let_def np split: option.split)
  moreover have "parse_int (itoa i) = Some i"
  proof (cases "i < 0")
    case True
    then have "parse_int (itoa i) = Some (- int (nat (- i)))" using assms
      by (simp add: itoa_def parse_int_def Let_def nat_le_iff)
    then show ?thesis using True by simp
  next
    case False
    then show ?thesis using parse_int_show_nat [of "nat i"] assms by (simp add: itoa_def nat_less_iff)
  qed
  ultimately show ?thesis by simp
qed

lemma checkpoint_parses:
  assumes "- (2 ^ 63) \<le> inc" "inc < 2 ^ 63"
  shows "ParseCheckpoint (CheckpointString off inc) = Some (off, inc)"
proof -
  have "list_all visible (CheckpointString off inc)"
    using show_nat_visible itoa_visible by (simp add: CheckpointString_def visible_def)
  then have "scan_uint (CheckpointString off inc) = Some (off, CHR '':'' # itoa inc)"
    using unsigned_less [of off, where 'a = nat]
    by (simp add: scan_uint_def scan_space_visible) (simp add: CheckpointString_def show_nat_starts)
  then show ?thesis using scan_int_itoa [OF assms] by (simp add: ParseCheckpoint_def cut_prefix_def)
qed

definition is_hex :: "char \<Rightarrow> bool" where
  "is_hex c \<longleftrightarrow> is_digit c \<or> c \<in> set ''abcdef''"

lemma hex_plain: "is_hex c \<Longrightarrow> visible c \<and> c \<noteq> CHR '':''"
  by (auto simp: is_hex_def is_digit_iff visible_def)

lemma last_colon: "CHR '':'' \<notin> set b \<Longrightarrow> str_last_index (a @ CHR '':'' # b) '':'' = Some (length a)"
proof (induction a)
  case Nil
  have "str_last_index b '':'' = None" using Nil by (simp add: last_nl_None)
  then show ?case by simp
qed simp

section \<open>Properties\<close>

text \<open>
  A checkpoint comes back. What is saved for a source is loaded as the same offset and
  incarnation for the same path, and as nothing for a path with another binding, so a source that
  is pointed at another file does not resume at an offset of the old one.
\<close>

theorem checkpoint_round_trip:
  assumes hex: "list_all is_hex (binding sourcePath)" and inc: "- (2 ^ 63) \<le> inc" "inc < 2 ^ 63" and path: "path \<noteq> []"
  shows "loadLogCheckpoint binding path (Some (checkpoint_line binding sourcePath off inc)) sourcePath' =
    (if binding sourcePath = binding sourcePath' then Some (off, inc) else None)"
proof -
  let ?h = "binding sourcePath" and ?s = "checkpoint_line binding sourcePath off inc"
  have h: "list_all visible ?h" "CHR '':'' \<notin> set ?h" using hex hex_plain by (auto simp: list_all_iff)
  have plain: "CHR '':'' \<notin> set (show_nat n)" for n using show_nat_digit_mem [of "CHR '':''" n] by (auto simp: is_digit_iff)
  have "list_all visible ?s"
    using h(1) show_nat_visible itoa_visible by (simp add: checkpoint_line_def CheckpointString_def visible_def)
  then have trim: "trim_space ?s = ?s" by (intro trim_space_id visible_no_space)
  have count: "str_count (CHR '':'') ?s = 2"
    using h(2) plain by (auto simp: checkpoint_line_def CheckpointString_def str_count_def itoa_def filter_empty_conv)
  have last: "str_last_index ?s '':'' = Some (length (CheckpointString off inc))"
    using last_colon [OF h(2)] by (simp add: checkpoint_line_def)
  have "drop (length (CheckpointString off inc) + 1) ?s = ?h" "take (length (CheckpointString off inc)) ?s = CheckpointString off inc"
    by (simp_all add: checkpoint_line_def)
  then show ?thesis using path checkpoint_parses [OF inc]
    by (simp add: loadLogCheckpoint_def trim count last Let_def)
qed

theorem checkpoint_round_trip_witness:
  "loadLogCheckpoint (\<lambda>p. ''0123456789abcdef'') ''/s/x.ckpt''
     (Some (checkpoint_line (\<lambda>p. ''0123456789abcdef'') ''/var/log/a'' 4096 2)) ''/var/log/a'' = Some (4096, 2)"
  by (subst checkpoint_round_trip) (simp_all add: is_hex_def is_digit_iff)

text \<open>
  A followed file is reported exactly. While a file only grows, the lines that any number of polls
  return are the text between the offset they began at and the offset they reached, cut into its
  complete lines, and into pieces of one read where no newline is in reach: nothing is left out,
  repeated or reordered, and each is cut to the maximal length only. The incarnation stays.
\<close>

theorem tail_reports_exactly:
  assumes "at_file f t" "tl_offset t \<le> int (length C)" "sorted_wrt prefix (C # Cs)" "tail_run f t (C # Cs) = (t', out)"
  shows "tl_offset t \<le> tl_offset t' \<and> tl_offset t' \<le> int (length (last (C # Cs))) \<and> tl_incarnation t' = tl_incarnation t \<and>
    cut_into t (take (nat (tl_offset t' - tl_offset t)) (drop (nat (tl_offset t)) (last (C # Cs)))) out"
  using tail_run_exact [OF assms] by blast

definition small_tailer :: tailer where
  "small_tailer = Resume 0 3 ((new_tailer 5)\<lparr>tl_maxReadBytes := 8\<rparr>)"

definition small_file :: string where
  "small_file = ''ab'' @ [CHR 0x0D, nl] @ ''toolong'' @ [nl] @ ''c''"

lemma small_tailer_ok: "at_file 1 small_tailer"
  by (simp add: at_file_def small_tailer_def Resume_def new_tailer_def defaultMaxReadBytes_def Let_def)

lemma small_run:
  "tail_run 1 small_tailer [small_file, small_file] = (small_tailer\<lparr>tl_file := Some 1, tl_info := 1, tl_offset := 12\<rparr>,
     [''ab'', ''toolo''])"
  by code_simp

theorem tail_reports_exactly_witness:
  "cut_into small_tailer (take 12 small_file) [''ab'', ''toolo'']"
  using tail_reports_exactly [OF small_tailer_ok _ _ small_run]
  by (simp add: small_tailer_def Resume_def Let_def small_file_def new_tailer_def)

text \<open>
  The tail catches up. Once a file stops growing, after at most as many polls as it has unread
  bytes no complete line is unread, and less than one read is left.
\<close>

theorem tail_catches_up:
  assumes "at_file f t" "tl_offset t \<le> int (length C)" "length C - nat (tl_offset t) \<le> n"
    "tail_run f t (replicate (Suc n) C) = (t', out)"
  shows "nl \<notin> set (drop (nat (tl_offset t')) C) \<and> int (length C) - tl_offset t' < tl_maxReadBytes t"
  using assms
proof (induction n arbitrary: t out)
  case 0
  obtain t1 res where p: "poll (file_io f C) t = (t1, res)" by fastforce
  have "0 \<le> tl_offset t" "0 < tl_maxReadBytes t" using 0 by (auto simp: at_file_def)
  then show ?case using poll_file [OF 0(1,2) p] 0(3,4) p by auto
next
  case (Suc n)
  obtain t1 res where p: "poll (file_io f C) t = (t1, res)" by fastforce
  obtain k where k: "tl_offset t1 = tl_offset t + int k" "at_file f t1" "tl_maxReadBytes t1 = tl_maxReadBytes t"
    "k \<le> length C - nat (tl_offset t)"
    "k = 0 \<longrightarrow> nl \<notin> set (drop (nat (tl_offset t)) C) \<and> int (length C) - tl_offset t < tl_maxReadBytes t"
    using poll_file [OF Suc.prems(1,2) p] by blast
  obtain o2 where o2: "tail_run f t1 (replicate (Suc n) C) = (t', o2)"
    using Suc.prems(4) p by (auto simp: case_prod_beta Let_def)
  have t0: "0 \<le> tl_offset t" using Suc.prems(1) by (simp add: at_file_def)
  have le: "tl_offset t1 \<le> int (length C)" using k(1,4) Suc.prems(2) t0 by linarith
  show ?case
  proof (cases "k = 0")
    case False
    then have "length C - nat (tl_offset t1) \<le> n" using k(1) Suc.prems(3) t0 by auto
    from Suc.IH [OF k(2) le this o2] show ?thesis using k(3) by simp
  next
    case True
    have "tl_offset (fst (tail_run f u (replicate m C))) = tl_offset u"
      if "at_file f u" "tl_offset u \<le> int (length C)" "nl \<notin> set (drop (nat (tl_offset u)) C)"
        "int (length C) - tl_offset u < tl_maxReadBytes u" for u m
      using that
    proof (induction m arbitrary: u)
      case (Suc m)
      obtain u1 r where q: "poll (file_io f C) u = (u1, r)" by fastforce
      have "tl_offset u1 = tl_offset u" using drained_stays [OF Suc.prems(1,2) q Suc.prems(3,4)] .
      moreover have "at_file f u1 \<and> tl_maxReadBytes u1 = tl_maxReadBytes u" using poll_file [OF Suc.prems(1,2) q] by blast
      ultimately show ?case using Suc.IH [of u1] Suc.prems q by (simp add: case_prod_beta Let_def)
    qed simp
    from this [OF k(2) le, of "Suc n"] have "tl_offset t' = tl_offset t1" using k True o2 by simp
    then show ?thesis using k True by simp
  qed
qed

theorem tail_catches_up_witness:
  "nl \<notin> set (drop (nat (tl_offset (fst (tail_run 1 small_tailer (replicate (Suc 13) small_file))))) small_file)"
proof -
  obtain t' out where r: "tail_run 1 small_tailer (replicate (Suc 13) small_file) = (t', out)" by fastforce
  then show ?thesis using tail_catches_up [OF small_tailer_ok _ _ r]
    by (simp add: small_tailer_def Resume_def Let_def small_file_def new_tailer_def)
qed

end
