(* ===== verification/Log_Policy.thy ===== *)
theory Log_Policy
  imports Log_Tail
begin

text \<open>
  Which files a node lets the server tail (\<open>src/cmd/lattice-agent/logtail_policy.go\<close>).

  \<open>filepath.EvalSymlinks\<close>, \<open>os.Stat\<close>, opening a file and what \<open>/proc\<close> says of the opened descriptor are
  parameters, in \<open>log_fs\<close>.
\<close>

section \<open>Definitions\<close>

definition defaultLogPathAllow :: string where "defaultLogPathAllow = ''/var/log/''"

definition defaultLogPathDeny :: "string list" where
  "defaultLogPathDeny =
     [''auth.log*'', ''secure*'', ''btmp*'', ''wtmp*'', ''lastlog'', ''faillog'', ''tallylog'', ''sudo.log*'',
      ''cloud-init*'', ''audit/'', ''sudo-io/'', ''installer/'', ''anaconda/'', ''private/'']"

definition logRefusedOutside :: string where
  "logRefusedOutside = ''outside this node's log allowlist; widen it with LATTICE_LOG_PATH_ALLOW on the node''"
definition logRefusedSensitive :: string where
  "logRefusedSensitive = ''a credential or audit log this node's default leaves out; allow it by listing the file in LATTICE_LOG_PATH_ALLOW on the node''"
definition logRefusedNotRegular :: string where
  "logRefusedNotRegular = ''not a regular file''"
definition logRefusedOff :: string where
  "logRefusedOff = ''log tailing is turned off on this node (LATTICE_NO_LOG_TAIL)''"

datatype fs_error = NotExist | SymlinkLoop | FsError string

record file_meta =
  fm_regular :: bool

record log_fs =
  fs_eval :: "string \<Rightarrow> fs_error + string"
  fs_stat :: "string \<Rightarrow> fs_error + file_meta"
  fs_open :: "string \<Rightarrow> fs_error + inode"
  fs_fstat :: "inode \<Rightarrow> fs_error + file_meta"
  fs_proc :: "inode \<Rightarrow> string option"

record log_policy =
  lp_allow :: "string list"
  lp_base :: "string list"

fun add_forms :: "string list \<Rightarrow> string list \<Rightarrow> string list" where
  "add_forms list [] = list"
| "add_forms list (form # forms) =
     (let form = (if \<not> has_suffix form ''/'' then form @ ''/'' else form)
      in add_forms (if form \<in> set list then list else list @ [form]) forms)"

definition appendLogPrefix :: "log_fs \<Rightarrow> string list \<Rightarrow> string \<Rightarrow> string list" where
  "appendLogPrefix fs list prefix0 =
     (let prefix = trim_space prefix0
      in if \<not> is_abs prefix then list
         else
           let prefix = clean_path prefix
           in add_forms list (prefix # (case fs_eval fs prefix of Inr resolved \<Rightarrow> [resolved] | Inl e \<Rightarrow> [])))"

definition newLogPathPolicyFrom :: "log_fs \<Rightarrow> string \<Rightarrow> string \<Rightarrow> log_policy" where
  "newLogPathPolicyFrom fs base extra =
     \<lparr>lp_allow = foldl (appendLogPrefix fs) [] (split_char (CHR '','') extra), lp_base = appendLogPrefix fs [] base\<rparr>"

definition newLogPathPolicy :: "log_fs \<Rightarrow> string \<Rightarrow> log_policy" where
  "newLogPathPolicy fs extra = newLogPathPolicyFrom fs defaultLogPathAllow extra"

definition deny_entry :: "string \<Rightarrow> string \<Rightarrow> bool" where
  "deny_entry rel entry \<longleftrightarrow>
     (if has_suffix entry ''/'' then has_prefix rel entry
      else if has_suffix entry ''*''
      then \<not> str_contains rel ''/'' \<and> has_prefix rel (trim_suffix entry ''*'')
      else rel = entry)"

definition deniedByDefault :: "string \<Rightarrow> bool" where
  "deniedByDefault rel \<longleftrightarrow> list_ex (deny_entry (to_lower rel)) defaultLogPathDeny"

definition listed :: "log_policy \<Rightarrow> string \<Rightarrow> string \<Rightarrow> bool" where
  "listed p path within \<longleftrightarrow>
     list_ex (\<lambda>entry. \<not> (entry = within \<or> \<not> has_prefix entry within) \<and>
        (has_prefix path entry \<or> path = trim_suffix entry ''/'')) (lp_allow p)"

fun judge_base :: "log_policy \<Rightarrow> string \<Rightarrow> string list \<Rightarrow> string option" where
  "judge_base p path [] = None"
| "judge_base p path (base # bases) =
     (case cut_prefix path base of
        Some rel \<Rightarrow> Some (if deniedByDefault rel \<and> \<not> listed p path base then logRefusedSensitive else [])
      | None \<Rightarrow> judge_base p path bases)"

definition judge :: "log_policy \<Rightarrow> string \<Rightarrow> string" where
  "judge p path =
     (case judge_base p path (lp_base p) of
        Some verdict \<Rightarrow> verdict
      | None \<Rightarrow> (if listed p path [] then [] else logRefusedOutside))"

definition control_char :: "char \<Rightarrow> bool" where
  "control_char c \<longleftrightarrow> (of_char c :: nat) < 0x20 \<or> (of_char c :: nat) = 0x7f"

fun of_fs :: "fs_error \<Rightarrow> tail_error" where
  "of_fs NotExist = TailError ''file does not exist''"
| "of_fs SymlinkLoop = TailError ''too many levels of symbolic links''"
| "of_fs (FsError e) = TailError e"

text \<open>\<open>resolve\<close>: a refusal or an error, or the path that will be opened, empty when nothing is there.\<close>

definition resolve :: "log_fs \<Rightarrow> log_policy \<Rightarrow> string \<Rightarrow> tail_error + string" where
  "resolve fs p path =
     (if \<not> is_abs path \<or> list_ex control_char path then Inl (PathRefused logRefusedOutside)
      else if judge p (clean_path path) \<noteq> [] then Inl (PathRefused (judge p (clean_path path)))
      else case fs_eval fs path of
        Inl NotExist \<Rightarrow> Inr []
      | Inl e \<Rightarrow> Inl (of_fs e)
      | Inr resolved \<Rightarrow>
          (if judge p resolved \<noteq> [] then Inl (PathRefused (judge p resolved)) else Inr resolved))"

definition check_path :: "log_fs \<Rightarrow> log_policy \<Rightarrow> string \<Rightarrow> tail_error option" where
  "check_path fs p path =
     (case resolve fs p path of
        Inl e \<Rightarrow> Some e
      | Inr resolved \<Rightarrow>
          (if resolved = [] then None
           else case fs_stat fs resolved of
             Inl NotExist \<Rightarrow> None
           | Inl e \<Rightarrow> Some (of_fs e)
           | Inr info \<Rightarrow> (if \<not> fm_regular info then Some (PathRefused logRefusedNotRegular) else None)))"

definition open_path :: "log_fs \<Rightarrow> log_policy \<Rightarrow> string \<Rightarrow> tail_error + inode" where
  "open_path fs p path =
     (case resolve fs p path of
        Inl e \<Rightarrow> Inl e
      | Inr resolved \<Rightarrow>
          (if resolved = [] then Inl (of_fs NotExist)
           else case fs_open fs resolved of
             Inl SymlinkLoop \<Rightarrow> Inl (PathRefused logRefusedOutside)
           | Inl e \<Rightarrow> Inl (of_fs e)
           | Inr f \<Rightarrow>
           (case fs_fstat fs f of
              Inl e \<Rightarrow> Inl (of_fs e)
            | Inr info \<Rightarrow>
                (if \<not> fm_regular info then Inl (PathRefused logRefusedNotRegular)
                 else case fs_proc fs f of
                   Some opened \<Rightarrow> (if judge p opened \<noteq> [] then Inl (PathRefused (judge p opened)) else Inr f)
                 | None \<Rightarrow> Inr f))))"

section \<open>Lemmas\<close>

text \<open>
  The rule, said plainly: under the node's own directories but not a denied name, or under an entry
  the node listed, and a denied name only by an entry strictly inside.
\<close>

definition allowed :: "log_policy \<Rightarrow> string \<Rightarrow> bool" where
  "allowed p path \<longleftrightarrow>
     (\<exists>base rel. base \<in> set (lp_base p) \<and> path = base @ rel \<and> (deniedByDefault rel \<longrightarrow>
        (\<exists>entry \<in> set (lp_allow p). entry \<noteq> base \<and> has_prefix entry base \<and>
           (has_prefix path entry \<or> path = trim_suffix entry ''/'')))) \<or>
     (\<exists>entry \<in> set (lp_allow p). entry \<noteq> [] \<and> (has_prefix path entry \<or> path = trim_suffix entry ''/''))"

lemma judge_base_Some:
  "judge_base p path bases = Some [] \<Longrightarrow> \<exists>base rel. base \<in> set bases \<and> path = base @ rel \<and> (deniedByDefault rel \<longrightarrow> listed p path base)"
proof (induction bases)
  case (Cons b bs)
  show ?case
  proof (cases "cut_prefix path b")
    case None
    then show ?thesis using Cons by auto
  next
    case (Some rel)
    then have "path = b @ rel" "deniedByDefault rel \<longrightarrow> listed p path b"
      using Cons.prems cut_prefix_Some [OF Some] by (auto simp: logRefusedSensitive_def split: if_splits)
    then show ?thesis by (intro exI [of _ b] exI [of _ rel]) simp
  qed
qed simp

lemma judge_allowed: "judge p path = [] \<Longrightarrow> allowed p path"
proof -
  assume j: "judge p path = []"
  show ?thesis
  proof (cases "judge_base p path (lp_base p)")
    case None
    then have "listed p path []" using j by (simp add: judge_def logRefusedOutside_def split: if_splits)
    then show ?thesis by (auto simp: allowed_def listed_def list_ex_iff)
  next
    case (Some v)
    then have "judge_base p path (lp_base p) = Some []" using j by (simp add: judge_def)
    from judge_base_Some [OF this] show ?thesis by (auto simp: allowed_def listed_def list_ex_iff)
  qed
qed

lemma resolve_allowed:
  "resolve fs p path = Inr r \<Longrightarrow> r \<noteq> [] \<Longrightarrow> judge p (clean_path path) = [] \<and> judge p r = [] \<and> is_abs path \<and> fs_eval fs path = Inr r"
  by (auto simp: resolve_def split: if_splits sum.splits fs_error.splits)

section \<open>Properties\<close>


definition demo_fs :: log_fs where
  "demo_fs = \<lparr>fs_eval = Inr, fs_stat = (\<lambda>_. Inr \<lparr>fm_regular = True\<rparr>), fs_open = (\<lambda>_. Inr 4),
     fs_fstat = (\<lambda>_. Inr \<lparr>fm_regular = True\<rparr>), fs_proc = (\<lambda>_. Some ''/var/log/syslog'')\<rparr>"


end
