(* ===== verification/Log_Source.thy ===== *)
theory Log_Source
  imports Log_Policy
begin

text \<open>
  The log sources of a node (\<open>src/cmd/lattice-agent/logtail.go\<close>): one tailing loop per source, and
  the manager that starts and stops them.

  A round of a source's loop takes the answers of the system to its poll and the server's answers
  to its batches; an answer is whether the batch was accepted, and a missing one is a failure. The
  manager's maps are maps; its loops treat each source by itself, so their order does not matter.
  Log lines and the capture time of a batch are left out.
\<close>

section \<open>Definitions\<close>

definition logTailMaxPending :: nat where "logTailMaxPending = 50000"

record log_source =
  so_ID :: string
  so_Path :: string
  so_MaxLineBytes :: int
  so_MaxBatchLines :: int

record log_batch =
  lb_SourceID :: string
  lb_Path :: string
  lb_RotID :: string
  lb_LastOff :: "64 word"
  lb_Dropped :: "64 word"
  lb_Lines :: "string list"

subsection \<open>The loop of a source\<close>

record source_run =
  sr_tailer :: tailer
  sr_pending :: "string list"
  sr_dropped :: "64 word"

definition newSourceTailer :: "(string \<Rightarrow> string) \<Rightarrow> log_source \<Rightarrow> string \<Rightarrow> string option \<Rightarrow> tailer" where
  "newSourceTailer binding src ckptPath content =
     (let t = new_tailer (so_MaxLineBytes src)
      in case loadLogCheckpoint binding ckptPath content (so_Path src) of
           Some (off, inc) \<Rightarrow> Resume off inc t
         | None \<Rightarrow> t)"

definition start_source :: "(string \<Rightarrow> string) \<Rightarrow> log_source \<Rightarrow> string \<Rightarrow> string option \<Rightarrow> source_run" where
  "start_source binding src ckptPath content =
     \<lparr>sr_tailer = newSourceTailer binding src ckptPath content, sr_pending = [], sr_dropped = 0\<rparr>"

definition batch_lines :: "log_source \<Rightarrow> nat" where
  "batch_lines src = (if so_MaxBatchLines src \<le> 0 then 500 else nat (so_MaxBatchLines src))"

definition take_lines :: "string list \<Rightarrow> source_run \<Rightarrow> source_run" where
  "take_lines lines s =
     (if length lines > 0 then
        let pending = sr_pending s @ lines
        in if length pending > logTailMaxPending then
             let over = length pending - logTailMaxPending
             in s\<lparr>sr_pending := drop over pending, sr_dropped := sr_dropped s + word_of_nat over\<rparr>
           else s\<lparr>sr_pending := pending\<rparr>
      else s)"

definition make_batch :: "log_source \<Rightarrow> tailer \<Rightarrow> 64 word \<Rightarrow> string list \<Rightarrow> log_batch" where
  "make_batch src t dropped lines =
     \<lparr>lb_SourceID = so_ID src, lb_Path = so_Path src, lb_RotID = RotID t, lb_LastOff = tail_Offset t,
      lb_Dropped = dropped, lb_Lines = lines\<rparr>"

text \<open>The batches the server accepted, and what is left to send and to report.\<close>

fun ship_loop ::
  "log_source \<Rightarrow> tailer \<Rightarrow> bool list \<Rightarrow> string list \<Rightarrow> 64 word \<Rightarrow> string list \<times> 64 word \<times> log_batch list" where
  "ship_loop src t [] pending dropped = (pending, dropped, [])"
| "ship_loop src t (ok # answers) pending dropped =
     (if pending = [] then (pending, dropped, [])
      else
        let n = (if length pending > batch_lines src then batch_lines src else length pending);
            batch = make_batch src t dropped (take n pending)
        in if \<not> ok then (pending, dropped, [])
           else
             let (p, d, sent) = ship_loop src t answers (drop n pending) 0
             in (p, d, batch # sent))"

text \<open>One round: the accepted batches, the checkpoint that is saved, and the error of the poll.\<close>

definition source_tick ::
  "log_source \<Rightarrow> poll_io \<Rightarrow> bool list \<Rightarrow> source_run
   \<Rightarrow> source_run \<times> log_batch list \<times> (64 word \<times> int) option \<times> tail_error option" where
  "source_tick src io answers s =
     (case poll io (sr_tailer s) of
        (t, Inl e) \<Rightarrow> (s\<lparr>sr_tailer := t\<rparr>, [], None, Some e)
      | (t, Inr lines) \<Rightarrow>
          (let s = take_lines lines (s\<lparr>sr_tailer := t\<rparr>)
           in if sr_pending s = [] then (s, [], None, None)
              else
                let (p, d, sent) = ship_loop src t answers (sr_pending s) (sr_dropped s)
                in (s\<lparr>sr_pending := p, sr_dropped := d\<rparr>, sent,
                    if p = [] then Some (tail_Offset t, tl_incarnation t) else None, None)))"

definition id_char :: "char \<Rightarrow> bool" where
  "id_char c \<longleftrightarrow> c \<in> set ''ABCDEFGHIJKLMNOPQRSTUVWXYZabcdefghijklmnopqrstuvwxyz0123456789''"

definition logSourceIDRE :: "string \<Rightarrow> bool" where
  "logSourceIDRE s \<longleftrightarrow> s \<noteq> [] \<and> id_char (hd s) \<and> list_all (\<lambda>c. id_char c \<or> c \<in> set ''_-'') (tl s) \<and> length s \<le> 128"

definition checkpointPath :: "string \<Rightarrow> string \<Rightarrow> string" where
  "checkpointPath stateDir sourceID =
     (let dir = trim_space stateDir
      in if dir = [] then []
         else if \<not> logSourceIDRE sourceID then []
         else clean_path (dir @ ''/'' @ sourceID @ ''.ckpt''))"

subsection \<open>The manager\<close>

record log_refusal =
  rf_path :: string
  rf_reason :: string
  rf_atOpen :: bool

record log_manager =
  lm_policy :: log_policy
  lm_noTail :: bool
  lm_active :: "string \<Rightarrow> log_source option"
  lm_refused :: "string \<Rightarrow> log_refusal option"

definition newLogTailManager :: "log_fs \<Rightarrow> string \<Rightarrow> bool \<Rightarrow> log_manager" where
  "newLogTailManager fs allow noTail =
     \<lparr>lm_policy = newLogPathPolicy fs allow, lm_noTail = noTail, lm_active = (\<lambda>_. None), lm_refused = (\<lambda>_. None)\<rparr>"

definition note_refused_entry :: "string \<Rightarrow> string \<Rightarrow> bool \<Rightarrow> log_refusal option \<Rightarrow> log_refusal option" where
  "note_refused_entry path reason atOpen prev =
     (case prev of
        Some r \<Rightarrow>
          (if rf_path r = path \<and> rf_reason r = reason then prev
           else Some \<lparr>rf_path = path, rf_reason = reason, rf_atOpen = atOpen\<rparr>)
      | None \<Rightarrow> Some \<lparr>rf_path = path, rf_reason = reason, rf_atOpen = atOpen\<rparr>)"

fun refusal_reason :: "tail_error \<Rightarrow> string" where
  "refusal_reason (PathRefused reason) = reason"
| "refusal_reason (TailError e) = e"

definition noteRefused :: "log_source \<Rightarrow> tail_error \<Rightarrow> bool \<Rightarrow> log_manager \<Rightarrow> log_manager" where
  "noteRefused src err atOpen m =
     m\<lparr>lm_refused := (lm_refused m)(so_ID src :=
         note_refused_entry (so_Path src) (refusal_reason err) atOpen (lm_refused m (so_ID src)))\<rparr>"

definition clearOpenRefusal :: "log_source \<Rightarrow> log_manager \<Rightarrow> log_manager" where
  "clearOpenRefusal src m =
     (case lm_refused m (so_ID src) of
        Some r \<Rightarrow>
          (if rf_atOpen r \<and> rf_path r = so_Path src
           then m\<lparr>lm_refused := (lm_refused m)(so_ID src := None)\<rparr> else m)
      | None \<Rightarrow> m)"

definition logSourceChanged :: "log_source \<Rightarrow> log_source \<Rightarrow> bool" where
  "logSourceChanged a b \<longleftrightarrow>
     so_Path a \<noteq> so_Path b \<or> so_MaxLineBytes a \<noteq> so_MaxLineBytes b \<or> so_MaxBatchLines a \<noteq> so_MaxBatchLines b"

definition desired_of :: "log_source list \<Rightarrow> string \<Rightarrow> log_source option" where
  "desired_of sources = map_of (rev (map (\<lambda>s. (so_ID s, s)) sources))"

text \<open>What the first two loops leave of a refusal and of a running source.\<close>

definition keep_refusal :: "log_source option \<Rightarrow> log_refusal option \<Rightarrow> log_refusal option" where
  "keep_refusal d r =
     (case (d, r) of
        (Some d, Some r) \<Rightarrow> (if so_Path d \<noteq> rf_path r then None else Some r)
      | _ \<Rightarrow> None)"

definition keep_active :: "log_source option \<Rightarrow> log_source option \<Rightarrow> log_source option" where
  "keep_active d a =
     (case (d, a) of
        (Some d, Some a) \<Rightarrow> (if logSourceChanged a d then None else Some a)
      | _ \<Rightarrow> None)"

text \<open>The third loop, for one desired source.\<close>

definition reconcile_source ::
  "log_fs \<Rightarrow> log_policy \<Rightarrow> bool \<Rightarrow> log_source \<Rightarrow> log_source option \<Rightarrow> log_refusal option
   \<Rightarrow> log_source option \<times> log_refusal option" where
  "reconcile_source fs p noTail s a r =
     (if noTail then (a, note_refused_entry (so_Path s) logRefusedOff False r)
      else case check_path fs p (so_Path s) of
        Some (PathRefused reason) \<Rightarrow> (None, note_refused_entry (so_Path s) reason False r)
      | _ \<Rightarrow>
          (let r = (case r of Some x \<Rightarrow> (if \<not> rf_atOpen x then None else Some x) | None \<Rightarrow> None)
           in case a of Some x \<Rightarrow> (Some x, r) | None \<Rightarrow> (Some s, r)))"

definition reconcile_id ::
  "log_fs \<Rightarrow> log_manager \<Rightarrow> (string \<Rightarrow> log_source option) \<Rightarrow> string \<Rightarrow> log_source option \<times> log_refusal option" where
  "reconcile_id fs m desired i =
     (let r = keep_refusal (desired i) (lm_refused m i);
          a = keep_active (desired i) (lm_active m i)
      in case desired i of
           None \<Rightarrow> (a, r)
         | Some s \<Rightarrow> reconcile_source fs (lm_policy m) (lm_noTail m) s a r)"

definition reconcile :: "log_fs \<Rightarrow> log_source list \<Rightarrow> log_manager \<Rightarrow> log_manager" where
  "reconcile fs sources m =
     (let desired = desired_of sources
      in m\<lparr>lm_active := (\<lambda>i. fst (reconcile_id fs m desired i)), lm_refused := (\<lambda>i. snd (reconcile_id fs m desired i))\<rparr>)"

text \<open>What a running source's round tells the manager.\<close>

definition report_poll :: "log_source \<Rightarrow> bool \<Rightarrow> tail_error option \<Rightarrow> log_manager \<Rightarrow> log_manager" where
  "report_poll src cancelled err m =
     (case err of
        Some (PathRefused reason) \<Rightarrow> (if cancelled then m else noteRefused src (PathRefused reason) True m)
      | Some (TailError e) \<Rightarrow> m
      | None \<Rightarrow> clearOpenRefusal src m)"

subsection \<open>Runs of one source\<close>

record source_ledger =
  sl_run :: source_run
  sl_polled :: "string list"
  sl_accepted :: "log_batch list"
  sl_lost :: nat
  sl_saved :: "((64 word \<times> int) \<times> nat) option"

definition accepted_lines :: "source_ledger \<Rightarrow> string list" where
  "accepted_lines g = concat (map lb_Lines (sl_accepted g))"

definition ledger_tick :: "log_source \<Rightarrow> source_ledger \<Rightarrow> poll_io \<times> bool list \<Rightarrow> source_ledger" where
  "ledger_tick src g x =
     (let lines = (case snd (poll (fst x) (sr_tailer (sl_run g))) of Inr ls \<Rightarrow> ls | Inl e \<Rightarrow> []);
          over = (if lines = [] then 0 else length (sr_pending (sl_run g)) + length lines - logTailMaxPending);
          (s, sent, saved, err) = source_tick src (fst x) (snd x) (sl_run g);
          polled = sl_polled g @ lines
      in g\<lparr>sl_run := s, sl_polled := polled, sl_accepted := sl_accepted g @ sent, sl_lost := sl_lost g + over,
           sl_saved := (case saved of Some c \<Rightarrow> Some (c, length polled) | None \<Rightarrow> sl_saved g)\<rparr>)"

definition start_ledger :: "source_run \<Rightarrow> source_ledger" where
  "start_ledger s = \<lparr>sl_run = s, sl_polled = [], sl_accepted = [], sl_lost = 0, sl_saved = None\<rparr>"

section \<open>Lemmas\<close>

subsection \<open>Accounting\<close>

lemma ship_loop_parts:
  assumes "ship_loop src t answers pending dropped = (p, d, sent)"
  shows "concat (map lb_Lines sent) @ p = pending \<and> sum_list (map lb_Dropped sent) + d = dropped"
  using assms
proof (induction src t answers pending dropped arbitrary: p d sent rule: ship_loop.induct)
  case (2 src t ok answers pending dropped)
  let ?n = "if length pending > batch_lines src then batch_lines src else length pending"
  show ?case
  proof (cases "pending = [] \<or> \<not> ok")
    case True
    then show ?thesis using 2(2) by (auto simp: Let_def split: if_splits)
  next
    case False
    obtain p1 d1 s1 where rec: "ship_loop src t answers (drop ?n pending) 0 = (p1, d1, s1)" by (metis prod_cases3)
    then have "p = p1" "d = d1" "sent = make_batch src t dropped (take ?n pending) # s1"
      using 2(2) False by (auto simp: Let_def)
    moreover have "concat (map lb_Lines s1) @ p1 = drop ?n pending \<and> sum_list (map lb_Dropped s1) + d1 = 0"
      using 2(1) [OF _ refl refl _ rec] False by blast
    ultimately show ?thesis by (simp add: make_batch_def add.assoc)
  qed
qed simp

definition ledger_ok :: "source_ledger \<Rightarrow> bool" where
  "ledger_ok g \<longleftrightarrow>
     subseq (accepted_lines g @ sr_pending (sl_run g)) (sl_polled g) \<and>
     length (sl_polled g) = length (accepted_lines g) + length (sr_pending (sl_run g)) + sl_lost g \<and>
     sum_list (map lb_Dropped (sl_accepted g)) + sr_dropped (sl_run g) = word_of_nat (sl_lost g) \<and>
     length (sr_pending (sl_run g)) \<le> logTailMaxPending \<and>
     (\<forall>c n. sl_saved g = Some (c, n) \<longrightarrow> n \<le> length (accepted_lines g) + sl_lost g)"

lemma take_lines_parts:
  assumes "length (sr_pending s) \<le> logTailMaxPending"
    and over_def: "over = (if lines = [] then 0 else length (sr_pending s) + length lines - logTailMaxPending)"
  shows "sr_pending (take_lines lines s) = drop over (sr_pending s @ lines)"
    "sr_dropped (take_lines lines s) = sr_dropped s + word_of_nat over"
    "sr_tailer (take_lines lines s) = sr_tailer s" "over \<le> length (sr_pending s) + length lines"
    "length (sr_pending s) + length lines - over \<le> logTailMaxPending"
  using assms(1) by (auto simp: take_lines_def over_def Let_def)

lemma ledger_tick_ok:
  assumes ok: "ledger_ok g"
  shows "ledger_ok (ledger_tick src g x)"
proof -
  obtain io answers where x: "x = (io, answers)" by fastforce
  let ?s = "sl_run g"
  obtain t res where p: "poll io (sr_tailer ?s) = (t, res)" by fastforce
  have pend: "length (sr_pending ?s) \<le> logTailMaxPending" using ok by (simp add: ledger_ok_def)
  show ?thesis
  proof (cases res)
    case (Inl e)
    then show ?thesis using ok by (auto simp: ledger_tick_def x p source_tick_def ledger_ok_def accepted_lines_def)
  next
    case (Inr lines)
    define over where "over = (if lines = [] then 0 else length (sr_pending ?s) + length lines - logTailMaxPending)"
    define s1 where "s1 = take_lines lines (?s\<lparr>sr_tailer := t\<rparr>)"
    have "length (sr_pending (?s\<lparr>sr_tailer := t\<rparr>)) \<le> logTailMaxPending"
      "over = (if lines = [] then 0 else length (sr_pending (?s\<lparr>sr_tailer := t\<rparr>)) + length lines - logTailMaxPending)"
      using pend by (simp_all add: over_def)
    note parts = take_lines_parts [OF this, folded s1_def, simplified]
    obtain p' d' sent where sh: "ship_loop src t answers (sr_pending s1) (sr_dropped s1) = (p', d', sent)" by (metis prod_cases3)
    define r where "r = (if sr_pending s1 = [] then (s1, [], None) else
       (s1\<lparr>sr_pending := p', sr_dropped := d'\<rparr>, sent, if p' = [] then Some (tail_Offset t, tl_incarnation t) else None))"
    obtain s2 sent2 saved where r2: "r = (s2, sent2, saved)" by (metis prod_cases3)
    have st: "source_tick src io answers ?s = (s2, sent2, saved, None)"
      using r2 sh by (auto simp: source_tick_def p Inr s1_def [symmetric] Let_def r_def split: if_splits)
    have cons: "concat (map lb_Lines sent2) @ sr_pending s2 = sr_pending s1"
      "sum_list (map lb_Dropped sent2) + sr_dropped s2 = sr_dropped s1" "saved \<noteq> None \<Longrightarrow> sr_pending s2 = []"
      using ship_loop_parts [OF sh] r2 by (auto simp: r_def split: if_splits)
    have g': "ledger_tick src g x = g\<lparr>sl_run := s2, sl_polled := sl_polled g @ lines, sl_accepted := sl_accepted g @ sent2,
        sl_lost := sl_lost g + over, sl_saved := (case saved of Some c \<Rightarrow> Some (c, length (sl_polled g @ lines)) | None \<Rightarrow> sl_saved g)\<rparr>"
      by (simp add: ledger_tick_def x p Inr st over_def Let_def)
    have acc: "accepted_lines (ledger_tick src g x) = accepted_lines g @ concat (map lb_Lines sent2)"
      by (simp add: accepted_lines_def g')
    have len: "length (concat (map lb_Lines sent2)) + length (sr_pending s2) = length (sr_pending ?s) + length lines - over"
      using arg_cong [OF cons(1), of length] parts(1) by simp
    have "suffix (sr_pending s1) (sr_pending ?s @ lines)"
      using suffix_drop [of over "sr_pending ?s @ lines"] parts(1) by simp
    then have "subseq (accepted_lines g @ sr_pending s1) (accepted_lines g @ sr_pending ?s @ lines)"
      by (simp add: suffix_imp_subseq subseq_append')
    moreover have "subseq (accepted_lines g @ sr_pending ?s @ lines) (sl_polled g @ lines)"
      using ok list_emb_append_mono [of "(=)" "accepted_lines g @ sr_pending ?s" "sl_polled g" lines lines]
      by (simp add: ledger_ok_def)
    ultimately have "subseq (accepted_lines g @ sr_pending s1) (sl_polled g @ lines)" by (rule subseq_order.trans)
    moreover have "sum_list (map lb_Dropped (sl_accepted g @ sent2)) + sr_dropped s2 = word_of_nat (sl_lost g + over)"
      using ok cons(2) parts(2) by (simp add: ledger_ok_def add.assoc)
    moreover have "length (sr_pending s2) \<le> logTailMaxPending" using len parts(5) by linarith
    moreover have "n \<le> length (accepted_lines (ledger_tick src g x)) + (sl_lost g + over)"
      if "(case saved of Some c \<Rightarrow> Some (c, length (sl_polled g @ lines)) | None \<Rightarrow> sl_saved g) = Some (c, n)" for c n
      using that ok len parts(4) cons(3) by (cases saved) (auto simp: ledger_ok_def acc)
    ultimately show ?thesis using ok len parts(4) cons(1)
      unfolding ledger_ok_def acc by (simp add: g' acc)
  qed
qed


interpretation source_runs: invariant_run "ledger_tick src" ledger_ok for src
  by unfold_locales (rule ledger_tick_ok)

lemma start_ledger_ok: "sr_pending s = [] \<Longrightarrow> sr_dropped s = 0 \<Longrightarrow> ledger_ok (start_ledger s)"
  by (simp add: ledger_ok_def start_ledger_def accepted_lines_def)

text \<open>The polls of a source's rounds are those of its tailer alone.\<close>

lemma source_tick_tailer: "sr_tailer (fst (source_tick src io answers s)) = fst (poll io (sr_tailer s))"
proof -
  have "sr_tailer (take_lines ls u) = sr_tailer u" for ls u by (simp add: take_lines_def Let_def)
  then show ?thesis
    by (simp add: source_tick_def Let_def case_prod_beta split: prod.split sum.split)
qed

lemma ledger_tail_run:
  assumes "length answers = length Cs"
    "g' = foldl (ledger_tick src) g (zip (map (file_io f) Cs) answers)"
    "tail_run f (sr_tailer (sl_run g)) Cs = (t', out)"
  shows "sl_polled g' = sl_polled g @ out \<and> sr_tailer (sl_run g') = t'"
  using assms
proof (induction Cs arbitrary: g answers out)
  case (Cons C Cs)
  obtain a as where a: "answers = a # as" using Cons.prems(1) by (cases answers) auto
  obtain t1 res where p: "poll (file_io f C) (sr_tailer (sl_run g)) = (t1, res)" by fastforce
  obtain o2 where o2: "tail_run f t1 Cs = (t', o2)" "out = (case res of Inr ls \<Rightarrow> ls | Inl e \<Rightarrow> []) @ o2"
    using Cons.prems(3) p by (cases "tail_run f t1 Cs") (auto simp: Let_def)
  let ?g = "ledger_tick src g (file_io f C, a)"
  have "sr_tailer (sl_run ?g) = t1" using source_tick_tailer [of src "file_io f C" a "sl_run g"] p
    by (simp add: ledger_tick_def Let_def case_prod_beta)
  moreover have "sl_polled ?g = sl_polled g @ (case res of Inr ls \<Rightarrow> ls | Inl e \<Rightarrow> [])"
    by (simp add: ledger_tick_def Let_def case_prod_beta p)
  moreover have "g' = foldl (ledger_tick src) ?g (zip (map (file_io f) Cs) as)" using Cons.prems(2) a by simp
  ultimately show ?case using Cons.IH [of as ?g o2] Cons.prems(1) a o2 by simp
qed simp

section \<open>Properties\<close>


definition demo_source :: log_source where
  "demo_source = \<lparr>so_ID = ''s'', so_Path = ''/var/log/x'', so_MaxLineBytes = 5, so_MaxBatchLines = 1\<rparr>"


text \<open>
  The manager settles. After a reconciliation a source runs exactly when the server asked for it
  and the node does not refuse its path, with the path and limits asked for; a refused source is
  not running and its refusal is noted with the path and the reason; nothing is kept of a source
  the server does not ask for. With tailing switched off on the node, nothing ever runs.
\<close>

theorem reconcile_settles:
  assumes m: "m' = reconcile fs sources m" and off: "lm_noTail m \<Longrightarrow> lm_active m i = None"
  shows "(desired_of sources i = None \<longrightarrow> lm_active m' i = None \<and> lm_refused m' i = None) \<and>
    (\<forall>s. desired_of sources i = Some s \<longrightarrow>
       (lm_noTail m \<longrightarrow> lm_active m' i = None \<and> (\<exists>r. lm_refused m' i = Some r \<and> rf_path r = so_Path s \<and> rf_reason r = logRefusedOff)) \<and>
       (\<not> lm_noTail m \<longrightarrow>
         (case check_path fs (lm_policy m) (so_Path s) of
            Some (PathRefused reason) \<Rightarrow> lm_active m' i = None \<and>
              (\<exists>r. lm_refused m' i = Some r \<and> rf_path r = so_Path s \<and> rf_reason r = reason)
          | _ \<Rightarrow> (\<exists>a. lm_active m' i = Some a \<and> \<not> logSourceChanged a s) \<and>
              (\<forall>r. lm_refused m' i = Some r \<longrightarrow> rf_atOpen r \<and> rf_path r = so_Path s))))"
proof -
  have noted: "\<exists>r'. note_refused_entry p reason at x = Some r' \<and> rf_path r' = p \<and> rf_reason r' = reason" for p reason at x
    by (auto simp: note_refused_entry_def split: option.split)
  have same: "\<not> logSourceChanged s s" for s by (simp add: logSourceChanged_def)
  have kr: "keep_refusal (Some s) x = Some r \<Longrightarrow> rf_path r = so_Path s" for s x r
    by (auto simp: keep_refusal_def split: option.splits if_splits)
  have ka: "keep_active (Some s) x = Some a \<Longrightarrow> \<not> logSourceChanged a s" for s x a
    by (auto simp: keep_active_def split: option.splits if_splits)
  have none: "keep_active d None = None" for d by (simp add: keep_active_def split: option.split)
  have m': "lm_active m' i = fst (reconcile_id fs m (desired_of sources) i)" "lm_refused m' i = snd (reconcile_id fs m (desired_of sources) i)"
    by (simp_all add: m reconcile_def Let_def)
  show ?thesis
  proof (cases "desired_of sources i")
    case None
    then show ?thesis by (simp add: m' reconcile_id_def keep_active_def keep_refusal_def)
  next
    case (Some s)
    then show ?thesis using off noted kr ka same
      by (auto simp: m' reconcile_id_def reconcile_source_def Let_def none split: option.splits tail_error.splits if_splits)
  qed
qed

theorem reconcile_settles_witness:
  "lm_active (reconcile demo_fs [demo_source] (newLogTailManager demo_fs [] False)) ''s'' \<noteq> None"
proof -
  let ?m = "newLogTailManager demo_fs [] False"
  have "desired_of [demo_source] ''s'' = Some demo_source" by (simp add: desired_of_def demo_source_def)
  moreover have "\<not> lm_noTail ?m" by (simp add: newLogTailManager_def)
  moreover have "check_path demo_fs (lm_policy ?m) (so_Path demo_source) = None" by code_simp
  ultimately show ?thesis using reconcile_settles [OF refl, where m = ?m and i = "''s''" and fs = demo_fs and sources = "[demo_source]"] by auto
qed

end
