(* ===== verification/Ssh_Parse.thy ===== *)
theory Ssh_Parse
  imports Go_Path
begin

text \<open>
  Reading sshd's log lines (\<open>src/internal/sshwatch/sshwatch.go\<close>, \<open>failure.go\<close>).

  Each regular expression is a matcher here. A group \<open>\S+\<close> that is followed by white space or by the
  end is the longest run of bytes that are not white space; a greedy \<open>.*\<close> before a literal is a
  search for the last place where the rest matches. \<open>net.ParseIP\<close> followed by \<open>String\<close> is the
  parameter \<open>ip_canon\<close>.
\<close>

section \<open>Definitions\<close>

subsection \<open>Character classes and matchers\<close>

definition is_space :: "char \<Rightarrow> bool" where
  "is_space c \<longleftrightarrow> c \<in> {CHR 0x09, CHR 0x0A, CHR 0x0C, CHR 0x0D, CHR 0x20}"

definition nonspace :: "char \<Rightarrow> bool" where
  "nonspace c \<longleftrightarrow> \<not> is_space c"

text \<open>\<open>\S+\<close>: the word at the front and the rest.\<close>

definition word_at :: "string \<Rightarrow> (string \<times> string) option" where
  "word_at s = (let w = takeWhile nonspace s in if w = [] then None else Some (w, dropWhile nonspace s))"

definition digits_at :: "string \<Rightarrow> string option" where
  "digits_at s = (if takeWhile is_digit s = [] then None else Some (dropWhile is_digit s))"

definition spaces_at :: "string \<Rightarrow> string option" where
  "spaces_at s = (if takeWhile is_space s = [] then None else Some (dropWhile is_space s))"

definition lit :: "string \<Rightarrow> string \<Rightarrow> string option" where
  "lit p s = cut_prefix s p"

text \<open>\<open>.*\<close> followed by \<open>rest\<close>: what is before the last place where \<open>rest\<close> matches.\<close>

fun last_match :: "(string \<Rightarrow> 'a option) \<Rightarrow> string \<Rightarrow> (string \<times> 'a) option" where
  "last_match rest [] = map_option (\<lambda>x. ([], x)) (rest [])"
| "last_match rest (c # s) =
     (case (if c = CHR 0x0A then None else last_match rest s) of
        Some (u, x) \<Rightarrow> Some (c # u, x)
      | None \<Rightarrow> map_option (\<lambda>x. ([], x)) (rest (c # s)))"

text \<open>\<open>(\S+) port \d+\<close>, and what follows.\<close>

definition addr_port_at :: "string \<Rightarrow> (string \<times> string) option" where
  "addr_port_at s =
     (case word_at s of
        None \<Rightarrow> None
      | Some (addr, s) \<Rightarrow>
          (case lit '' port '' s of
             None \<Rightarrow> None
           | Some s \<Rightarrow> map_option (Pair addr) (digits_at s)))"

definition preauth_end :: "string \<Rightarrow> bool" where
  "preauth_end s \<longleftrightarrow> s = [] \<or> s = '' [preauth]''"

text \<open>\<open>(?:: .*)?(?: \[preauth\])?$\<close>.\<close>

definition detail_end :: "string \<Rightarrow> bool" where
  "detail_end s \<longleftrightarrow> preauth_end s \<or> has_prefix s '': '' \<and> CHR 0x0A \<notin> set s"

subsection \<open>The syslog header\<close>

definition char_in :: "char \<Rightarrow> char \<Rightarrow> char \<Rightarrow> bool" where
  "char_in lo hi c \<longleftrightarrow> lo \<le> c \<and> c \<le> hi"

text \<open>A fixed shape: \<open>A\<close> a capital, \<open>a\<close> a small letter, \<open>9\<close> a digit, \<open>T\<close> one of \<open>T\<close> and space, others themselves.\<close>

fun shape :: "string \<Rightarrow> string \<Rightarrow> string option" where
  "shape [] s = Some s"
| "shape (p # ps) [] = None"
| "shape (p # ps) (c # s) =
     (if (if p = CHR ''A'' then char_in (CHR ''A'') (CHR ''Z'') c
          else if p = CHR ''a'' then char_in (CHR ''a'') (CHR ''z'') c
          else if p = CHR ''9'' then is_digit c
          else if p = CHR ''T'' then c = CHR ''T'' \<or> c = CHR '' ''
          else c = p)
      then shape ps s else None)"

definition first_shape :: "string list \<Rightarrow> string \<Rightarrow> string option" where
  "first_shape ps s = (case List.find (\<lambda>p. shape p s \<noteq> None) ps of None \<Rightarrow> None | Some p \<Rightarrow> shape p s)"

definition bsd_stamp :: "string \<Rightarrow> string option" where
  "bsd_stamp s = first_shape
     [''Aaa  99 99:99:99'', ''Aaa  9 99:99:99'', ''Aaa 99 99:99:99'', ''Aaa 9 99:99:99''] s"

definition iso_stamp :: "string \<Rightarrow> string option" where
  "iso_stamp s = map_option (dropWhile nonspace) (shape ''9999-99-99T99:99:99'' s)"

text \<open>The program before an optional process number, both before a final colon.\<close>

definition tag_program :: "string \<Rightarrow> string option" where
  "tag_program word =
     (if \<not> has_suffix word '':'' then None
      else
        let b = butlast word
        in if b = [] then None
           else case str_last_index b ''['' of
             None \<Rightarrow> Some b
           | Some i \<Rightarrow>
               (let inner = drop (i + 1) b
                in if i > 0 \<and> has_suffix inner '']'' \<and> butlast inner \<noteq> [] \<and> list_all is_digit (butlast inner)
                   then Some (take i b) else Some b))"

definition header_rest :: "string \<Rightarrow> (string \<times> string) option" where
  "header_rest s =
     (case spaces_at s of
        None \<Rightarrow> None
      | Some s \<Rightarrow>
      (case word_at s of
        None \<Rightarrow> None
      | Some (host, s) \<Rightarrow>
      (case spaces_at s of
        None \<Rightarrow> None
      | Some s \<Rightarrow>
      (case word_at s of
        None \<Rightarrow> None
      | Some (word, s) \<Rightarrow>
          (case s of
             c # message \<Rightarrow>
               (if c = CHR '' '' \<or> c = CHR 0x09 then map_option (\<lambda>p. (p, message)) (tag_program word) else None)
           | [] \<Rightarrow> None)))))"

definition splitSyslogMessage :: "string \<Rightarrow> string \<times> string" where
  "splitSyslogMessage line =
     (case (case bsd_stamp line of Some s \<Rightarrow> header_rest s | None \<Rightarrow> None) of
        Some pm \<Rightarrow> pm
      | None \<Rightarrow>
          (case (case iso_stamp line of Some s \<Rightarrow> header_rest s | None \<Rightarrow> None) of
             Some pm \<Rightarrow> pm
           | None \<Rightarrow> ([], line)))"

definition isSSHDProgram :: "string \<Rightarrow> bool" where
  "isSSHDProgram program \<longleftrightarrow>
     (let base = path_base (trim_space program) in base = ''sshd'' \<or> has_prefix base ''sshd-'')"

subsection \<open>Accepted logins\<close>

record login_event =
  le_User :: string
  le_Address :: string
  le_Method :: string

definition accepted_tail :: "string \<Rightarrow> (string \<times> string) option" where
  "accepted_tail s =
     (case word_at s of
        None \<Rightarrow> None
      | Some (user, s) \<Rightarrow>
          (case lit '' from '' s of
             None \<Rightarrow> None
           | Some s \<Rightarrow> map_option (\<lambda>(addr, _). (user, addr)) (word_at s)))"

definition acceptedRe :: "string \<Rightarrow> (string \<times> string \<times> string) option" where
  "acceptedRe s =
     (case lit ''Accepted '' s of
        None \<Rightarrow> None
      | Some s \<Rightarrow>
      (case word_at s of
        None \<Rightarrow> None
      | Some (method, s) \<Rightarrow>
      (case lit '' for '' s of
        None \<Rightarrow> None
      | Some s \<Rightarrow>
          (case (case lit ''invalid user '' s of Some s \<Rightarrow> accepted_tail s | None \<Rightarrow> None) of
             Some x \<Rightarrow> Some (method, x)
           | None \<Rightarrow> map_option (Pair method) (accepted_tail s)))))"

definition ssh_Parse :: "string \<Rightarrow> login_event option" where
  "ssh_Parse line =
     (let (program, message) = splitSyslogMessage line
      in if program \<noteq> [] \<and> \<not> isSSHDProgram program then None
         else map_option (\<lambda>(method, user, addr). \<lparr>le_User = user, le_Address = addr, le_Method = method\<rparr>)
                (acceptedRe message))"

subsection \<open>Rejected attempts\<close>

record failure_event =
  fe_User :: string
  fe_Address :: string
  fe_Method :: string
  fe_Invalid :: bool
  fe_Aborted :: bool

definition maxUserLen :: nat where "maxUserLen = 96"

definition clampLen :: "string \<Rightarrow> nat \<Rightarrow> string" where
  "clampLen s n = (if length s \<le> n then s else take n s)"

text \<open>\<open>(.*) from (\S+) port \d+ ssh2\<close> and the end.\<close>

definition from_ssh2 :: "(string \<Rightarrow> bool) \<Rightarrow> string \<Rightarrow> string option" where
  "from_ssh2 fin s =
     (case lit '' from '' s of
        None \<Rightarrow> None
      | Some s \<Rightarrow>
      (case addr_port_at s of
        None \<Rightarrow> None
      | Some (addr, s) \<Rightarrow>
          (case lit '' ssh2'' s of
             None \<Rightarrow> None
           | Some s \<Rightarrow> (if fin s then Some addr else None))))"

text \<open>A match: method, whether the account is unknown, user and address.\<close>

type_synonym failure_match = "string \<times> bool \<times> string \<times> string"

definition for_user :: "(string \<Rightarrow> bool) \<Rightarrow> string \<Rightarrow> string \<Rightarrow> failure_match option" where
  "for_user fin method s =
     (case (case lit ''invalid user '' s of Some s \<Rightarrow> last_match (from_ssh2 fin) s | None \<Rightarrow> None) of
        Some (user, addr) \<Rightarrow> Some (method, True, user, addr)
      | None \<Rightarrow> map_option (\<lambda>(user, addr). (method, False, user, addr)) (last_match (from_ssh2 fin) s))"

definition failedRe :: "string \<Rightarrow> failure_match option" where
  "failedRe s =
     (case lit ''Failed '' s of
        None \<Rightarrow> None
      | Some s \<Rightarrow>
      (case word_at s of
        None \<Rightarrow> None
      | Some (method, s) \<Rightarrow>
          (case lit '' for '' s of None \<Rightarrow> None | Some s \<Rightarrow> for_user detail_end method s)))"

definition from_port :: "string \<Rightarrow> string option" where
  "from_port s =
     (case lit '' from '' s of
        None \<Rightarrow> None
      | Some s \<Rightarrow>
      (case word_at s of
        None \<Rightarrow> None
      | Some (addr, s) \<Rightarrow>
          (if s = [] then Some addr
           else case lit '' port '' s of
             None \<Rightarrow> None
           | Some s \<Rightarrow> (if digits_at s = Some [] then Some addr else None))))"

definition invalidUserRe :: "string \<Rightarrow> failure_match option" where
  "invalidUserRe s =
     (case lit ''Invalid user '' s of
        None \<Rightarrow> None
      | Some s \<Rightarrow> map_option (\<lambda>(user, addr). ([], False, user, addr)) (last_match from_port s))"

definition space_addr :: "string \<Rightarrow> string option" where
  "space_addr s =
     (case lit '' '' s of
        None \<Rightarrow> None
      | Some s \<Rightarrow>
      (case addr_port_at s of
        None \<Rightarrow> None
      | Some (addr, s) \<Rightarrow> (if preauth_end s then Some addr else None)))"

definition closed_front :: "string \<Rightarrow> string option" where
  "closed_front s =
     (case lit ''Connection closed by '' s of
        Some s \<Rightarrow> Some s
      | None \<Rightarrow>
          (case lit ''Connection reset by '' s of
             Some s \<Rightarrow> Some s
           | None \<Rightarrow> lit ''Disconnected from '' s))"

definition closedRe :: "string \<Rightarrow> failure_match option" where
  "closedRe s =
     (case closed_front s of
        None \<Rightarrow> None
      | Some s \<Rightarrow>
          (case lit ''invalid user '' s of
             Some s \<Rightarrow> map_option (\<lambda>(user, addr). ([], True, user, addr)) (last_match space_addr s)
           | None \<Rightarrow>
               (case lit ''authenticating user '' s of
                  Some s \<Rightarrow> map_option (\<lambda>(user, addr). ([], False, user, addr)) (last_match space_addr s)
                | None \<Rightarrow> None)))"

definition maxAttemptsRe :: "string \<Rightarrow> failure_match option" where
  "maxAttemptsRe s =
     (case lit ''error: maximum authentication attempts exceeded for '' s of
        None \<Rightarrow> None
      | Some s \<Rightarrow> for_user preauth_end [] s)"

record failure_pattern =
  fp_re :: "string \<Rightarrow> failure_match option"
  fp_invalid :: bool
  fp_aborted :: bool

definition failurePatterns :: "failure_pattern list" where
  "failurePatterns =
     [\<lparr>fp_re = failedRe, fp_invalid = False, fp_aborted = False\<rparr>,
      \<lparr>fp_re = invalidUserRe, fp_invalid = True, fp_aborted = False\<rparr>,
      \<lparr>fp_re = closedRe, fp_invalid = False, fp_aborted = True\<rparr>,
      \<lparr>fp_re = maxAttemptsRe, fp_invalid = False, fp_aborted = False\<rparr>]"

definition pattern_event :: "(string \<Rightarrow> string option) \<Rightarrow> failure_pattern \<Rightarrow> failure_match \<Rightarrow> failure_event option" where
  "pattern_event ip_canon p m =
     (let (method, invalid, user, addr) = m
      in case ip_canon addr of
           None \<Rightarrow> None
         | Some ip \<Rightarrow>
             Some \<lparr>fe_User = clampLen user maxUserLen, fe_Address = ip, fe_Method = method,
                   fe_Invalid = (fp_invalid p \<or> invalid), fe_Aborted = fp_aborted p\<rparr>)"

fun first_pattern :: "(string \<Rightarrow> string option) \<Rightarrow> string \<Rightarrow> failure_pattern list \<Rightarrow> failure_event option" where
  "first_pattern ip_canon message [] = None"
| "first_pattern ip_canon message (p # ps) =
     (case fp_re p message of
        None \<Rightarrow> first_pattern ip_canon message ps
      | Some m \<Rightarrow> pattern_event ip_canon p m)"

definition ParseFailure :: "(string \<Rightarrow> string option) \<Rightarrow> string \<Rightarrow> failure_event option" where
  "ParseFailure ip_canon line =
     (let (program, message) = splitSyslogMessage line
      in if program \<noteq> [] \<and> \<not> isSSHDProgram program then None
         else first_pattern ip_canon message failurePatterns)"

subsection \<open>The records sshd writes\<close>

text \<open>
  What sshd prints for a rejected attempt, as a function of what the peer chose (the user) and of what
  sshd knows (the address and port of the connection).
\<close>

datatype sshd_record =
    Failed_rec string bool
  | Invalid_user_rec
  | Closed_rec string bool
  | Max_attempts_rec bool

definition unknown_mark :: "bool \<Rightarrow> string" where
  "unknown_mark invalid = (if invalid then ''invalid user '' else [])"

definition closed_verb :: "string \<Rightarrow> bool" where
  "closed_verb v \<longleftrightarrow> v \<in> {''Connection closed by '', ''Connection reset by '', ''Disconnected from ''}"

fun record_ok :: "sshd_record \<Rightarrow> bool" where
  "record_ok (Failed_rec method invalid) \<longleftrightarrow> method \<noteq> [] \<and> list_all nonspace method"
| "record_ok (Closed_rec verb invalid) \<longleftrightarrow> closed_verb verb"
| "record_ok _ \<longleftrightarrow> True"

fun record_text :: "sshd_record \<Rightarrow> string \<Rightarrow> string \<Rightarrow> string \<Rightarrow> string \<Rightarrow> string" where
  "record_text (Failed_rec method invalid) user addr port fin =
     ''Failed '' @ method @ '' for '' @ unknown_mark invalid @ user @ '' from '' @ addr @ '' port '' @ port @ '' ssh2'' @ fin"
| "record_text Invalid_user_rec user addr port fin =
     ''Invalid user '' @ user @ '' from '' @ addr @ '' port '' @ port"
| "record_text (Closed_rec verb invalid) user addr port fin =
     verb @ (if invalid then ''invalid user '' else ''authenticating user '') @ user @ '' '' @ addr @ '' port '' @ port @ fin"
| "record_text (Max_attempts_rec invalid) user addr port fin =
     ''error: maximum authentication attempts exceeded for '' @ unknown_mark invalid @ user @ '' from '' @ addr
       @ '' port '' @ port @ '' ssh2'' @ fin"

definition addr_char :: "char \<Rightarrow> bool" where
  "addr_char c \<longleftrightarrow> is_digit c \<or> c \<in> set ''abcdefABCDEF.:''"

text \<open>The address and the port sshd knows, and the mark it may put at the end.\<close>

definition peer_ok :: "string \<Rightarrow> string \<Rightarrow> string \<Rightarrow> bool" where
  "peer_ok addr port fin \<longleftrightarrow>
     addr \<noteq> [] \<and> list_all addr_char addr \<and> port \<noteq> [] \<and> list_all is_digit port \<and> preauth_end fin"

section \<open>Lemmas\<close>

subsection \<open>Searching for the last place\<close>

lemma last_match_None: "(\<And>t. suffix t s \<Longrightarrow> rest t = None) \<Longrightarrow> last_match rest s = None"
  by (induction s) (auto simp: suffix_Cons)

lemma strict_suffix_Cons: "strict_suffix t (c # s) \<longleftrightarrow> suffix t s"
  by (auto simp: strict_suffix_def suffix_Cons dest: suffix_length_le)

lemma last_match_at:
  assumes "CHR 0x0A \<notin> set user" "rest tail = Some x" "\<And>t. strict_suffix t tail \<Longrightarrow> rest t = None"
  shows "last_match rest (user @ tail) = Some (user, x)"
  using assms(1)
proof (induction user)
  case Nil
  show ?case
  proof (cases tail)
    case Nil
    then show ?thesis using assms(2) by simp
  next
    case (Cons c s)
    have "last_match rest s = None"
    proof (rule last_match_None)
      fix t assume "suffix t s"
      then have "strict_suffix t tail" using Cons by (simp add: strict_suffix_Cons)
      then show "rest t = None" by (rule assms(3))
    qed
    then show ?thesis using assms(2) Cons by auto
  qed
qed auto

text \<open>A literal cut from the front of the text can only eat into the user or leave too little.\<close>

lemma lit_then_last_match:
  assumes "CHR 0x0A \<notin> set user" "rest tail = Some x" "\<And>t. strict_suffix t tail \<Longrightarrow> rest t = None"
    and "lit p (user @ tail) = Some s" "last_match rest s = Some (u, y)"
  shows "y = x"
proof -
  have "user @ tail = p @ s" using assms(4) by (auto simp: lit_def dest: cut_prefix_Some)
  then obtain vs where vs: "user = p @ vs \<and> vs @ tail = s \<or> user @ vs = p \<and> tail = vs @ s"
    using append_eq_append_conv2 [of user tail p s] by blast
  consider us where "user = p @ us" "s = us @ tail" | us where "us \<noteq> []" "tail = us @ s"
  proof (cases "vs = []")
    case True
    then show ?thesis using vs that(1) [of "[]"] by auto
  next
    case False
    then show ?thesis using vs that by blast
  qed
  then show ?thesis
  proof cases
    case 1
    have "last_match rest (us @ tail) = Some (us, x)" by (rule last_match_at) (use assms 1 in auto)
    then show ?thesis using assms(5) 1 by simp
  next
    case 2
    have "last_match rest s = None"
    proof (rule last_match_None)
      fix t assume "suffix t s"
      then have "suffix t tail" "length t < length tail" using 2 by (auto simp: suffix_def)
      then show "rest t = None" using assms(3) by (metis less_irrefl strict_suffix_def)
    qed
    then show ?thesis using assms(5) by simp
  qed
qed

subsection \<open>Matching what sshd printed\<close>

lemma takeWhile_word:
  assumes "list_all P w" "s = [] \<or> \<not> P (hd s)"
  shows "takeWhile P (w @ s) = w" "dropWhile P (w @ s) = s"
  using assms by (induction w) (cases s; auto)+

lemma word_at_word:
  "w \<noteq> [] \<Longrightarrow> list_all nonspace w \<Longrightarrow> s = [] \<or> is_space (hd s) \<Longrightarrow> word_at (w @ s) = Some (w, s)"
  using takeWhile_word [of nonspace w s] by (auto simp: word_at_def nonspace_def)

lemma digits_at_digits:
  "d \<noteq> [] \<Longrightarrow> list_all is_digit d \<Longrightarrow> s = [] \<or> \<not> is_digit (hd s) \<Longrightarrow> digits_at (d @ s) = Some s"
  using takeWhile_word [of is_digit d s] by (auto simp: digits_at_def)

lemma lit_append [simp]: "lit p (p @ s) = Some s"
  by (simp add: lit_def)

lemma lit_Cons [simp]:
  "lit (d # p) (c # s) = (if c = d then lit p s else None)" "lit [] s = Some s" "lit (d # p) [] = None"
  by (auto simp: lit_def cut_prefix_def)

lemma lit_mem: "lit p s = Some t \<Longrightarrow> c \<in> set p \<or> c \<in> set t \<Longrightarrow> c \<in> set s"
  by (auto simp: lit_def dest!: cut_prefix_Some)

lemma word_at_mem: "word_at s = Some (w, t) \<Longrightarrow> c \<in> set t \<Longrightarrow> c \<in> set s"
  by (auto simp: word_at_def Let_def split: if_splits dest: set_dropWhileD)

lemma is_digit_nonspace: "is_digit c \<Longrightarrow> nonspace c"
  by (auto simp: is_digit_iff nonspace_def is_space_def)

lemma addr_char_nonspace: "addr_char c \<Longrightarrow> nonspace c"
  by (auto simp: addr_char_def dest: is_digit_nonspace) (auto simp: nonspace_def is_space_def)

lemma addr_char_not:
  "addr_char c \<Longrightarrow> c \<noteq> CHR ''m'' \<and> c \<noteq> CHR ''o''" "is_digit c \<Longrightarrow> c \<noteq> CHR ''m'' \<and> c \<noteq> CHR ''o''"
  by (auto simp: addr_char_def is_digit_iff)

lemma preauth_end_props:
  assumes "preauth_end fin"
  shows "fin = [] \<or> is_space (hd fin)" "fin = [] \<or> \<not> is_digit (hd fin)"
    "CHR ''m'' \<notin> set fin" "CHR ''o'' \<notin> set fin"
  using assms by (auto simp: preauth_end_def is_space_def is_digit_iff)

lemma peer_okD:
  assumes "peer_ok addr port fin"
  shows "addr \<noteq> []" "list_all nonspace addr" "port \<noteq> []" "list_all is_digit port" "preauth_end fin"
    "CHR ''m'' \<notin> set addr" "CHR ''o'' \<notin> set addr" "CHR ''m'' \<notin> set port" "CHR ''o'' \<notin> set port"
  using assms addr_char_not by (auto simp: peer_ok_def list_all_iff dest: addr_char_nonspace)

lemma addr_port_at_peer:
  assumes "peer_ok addr port fin" "s = [] \<or> \<not> is_digit (hd s)"
  shows "addr_port_at (addr @ '' port '' @ port @ s) = Some (addr, s)"
proof -
  note peer = peer_okD [OF assms(1)]
  have "word_at (addr @ '' port '' @ port @ s) = Some (addr, '' port '' @ port @ s)"
    by (rule word_at_word) (use peer in \<open>auto simp: is_space_def\<close>)
  then show ?thesis
    using digits_at_digits [OF peer(3,4) assms(2)] by (simp add: addr_port_at_def)
qed

text \<open>Every matcher that starts with \<open> from \<close> needs the letter of that word.\<close>

lemma from_only_once:
  assumes "strict_suffix t ('' from '' @ s)" "CHR ''m'' \<notin> set s"
  shows "lit '' from '' t = None"
proof -
  have sub: "CHR ''m'' \<notin> set t \<Longrightarrow> lit '' from '' t = None"
    using lit_mem [of "'' from ''" t _ "CHR ''m''"] by (cases "lit '' from '' t") auto
  have "suffix t (''from '' @ s)" using assms(1) by (simp add: strict_suffix_Cons)
  then consider "t = ''from '' @ s" | "t = ''rom '' @ s" | "t = ''om '' @ s" | "t = ''m '' @ s" | "t = '' '' @ s" | "suffix t s"
    by (auto simp: suffix_Cons)
  then show ?thesis
  proof cases
    case 6
    then show ?thesis using sub assms(2) by (auto dest: set_mono_suffix)
  qed (use sub assms(2) in auto)
qed

lemma port_only_once:
  assumes "strict_suffix t ('' '' @ addr @ '' port '' @ s)" "list_all nonspace addr" "CHR ''o'' \<notin> set s"
  shows "space_addr t = None"
proof -
  have sub: "CHR ''o'' \<notin> set u \<Longrightarrow> addr_port_at u = None" for u
    using lit_mem [of "'' port ''" _ _ "CHR ''o''"] word_at_mem [of u _ _ "CHR ''o''"]
    by (auto simp: addr_port_at_def split: option.splits)
  have "suffix t (addr @ '' port '' @ s)" using assms(1) by (simp add: strict_suffix_Cons)
  then consider u where "suffix u addr" "u \<noteq> []" "t = u @ '' port '' @ s" | "suffix t ('' port '' @ s)"
    unfolding suffix_append by (metis append_Nil suffix_order.refl)
  then show ?thesis
  proof cases
    case 1
    then have "nonspace (hd t)" "t \<noteq> []"
      using assms(2) set_mono_suffix [of u addr] by (auto simp: list_all_iff intro: hd_in_set)
    then have "lit '' '' t = None" by (cases t) (auto simp: nonspace_def is_space_def)
    then show ?thesis by (simp add: space_addr_def)
  next
    case 2
    then consider "t = '' port '' @ s" | "t = ''port '' @ s" | "t = ''ort '' @ s" | "t = ''rt '' @ s" | "t = ''t '' @ s"
      | "t = '' '' @ s" | "suffix t s"
      by (auto simp: suffix_Cons)
    then show ?thesis
    proof cases
      case 1
      have "word_at (''port'' @ '' '' @ s) = Some (''port'', '' '' @ s)"
        by (rule word_at_word) (auto simp: nonspace_def is_space_def)
      then have "addr_port_at (''port '' @ s) = None"
        using lit_mem [of "'' port ''" "'' '' @ s" _ "CHR ''o''"] assms(3)
        by (auto simp: addr_port_at_def split: option.splits)
      then show ?thesis using 1 by (simp add: space_addr_def)
    next
      case 7
      then have "CHR ''o'' \<notin> set u" if "lit '' '' t = Some u" for u
        using assms(3) lit_mem [OF that, of "CHR ''o''"] by (auto dest: set_mono_suffix)
      then show ?thesis using sub by (auto simp: space_addr_def split: option.splits)
    qed (use sub assms(3) in \<open>auto simp: space_addr_def\<close>)
  qed
qed

lemma from_ssh2_peer:
  assumes "peer_ok addr port fin"
  shows "from_ssh2 preauth_end ('' from '' @ addr @ '' port '' @ port @ '' ssh2'' @ fin) = Some addr"
    "from_ssh2 detail_end ('' from '' @ addr @ '' port '' @ port @ '' ssh2'' @ fin) = Some addr"
    "strict_suffix t ('' from '' @ addr @ '' port '' @ port @ '' ssh2'' @ fin) \<Longrightarrow> from_ssh2 fi t = None"
  using addr_port_at_peer [OF assms, of "'' ssh2'' @ fin"] peer_okD [OF assms]
    preauth_end_props [of fin] from_only_once [of t "addr @ '' port '' @ port @ '' ssh2'' @ fin"]
  by (auto simp: from_ssh2_def detail_end_def is_digit_iff)

lemma from_port_peer:
  assumes "peer_ok addr port fin"
  shows "from_port ('' from '' @ addr @ '' port '' @ port) = Some addr"
    "strict_suffix t ('' from '' @ addr @ '' port '' @ port) \<Longrightarrow> from_port t = None"
proof -
  note peer = peer_okD [OF assms]
  have "word_at (addr @ '' port '' @ port) = Some (addr, '' port '' @ port)"
    by (rule word_at_word) (use peer in \<open>auto simp: is_space_def\<close>)
  then show "from_port ('' from '' @ addr @ '' port '' @ port) = Some addr"
    using digits_at_digits [OF peer(3,4), of "[]"] by (simp add: from_port_def)
  show "strict_suffix t ('' from '' @ addr @ '' port '' @ port) \<Longrightarrow> from_port t = None"
    using from_only_once [of t "addr @ '' port '' @ port"] peer by (auto simp: from_port_def)
qed

lemma space_addr_peer:
  assumes "peer_ok addr port fin"
  shows "space_addr ('' '' @ addr @ '' port '' @ port @ fin) = Some addr"
    "strict_suffix t ('' '' @ addr @ '' port '' @ port @ fin) \<Longrightarrow> space_addr t = None"
  using addr_port_at_peer [OF assms, of fin] peer_okD [OF assms] preauth_end_props [of fin]
    port_only_once [of t addr "port @ fin"]
  by (auto simp: space_addr_def)

lemma for_user_peer:
  assumes "peer_ok addr port fin" "CHR 0x0A \<notin> set user" "fi = preauth_end \<or> fi = detail_end"
  shows "\<exists>inv u. for_user fi method (user @ '' from '' @ addr @ '' port '' @ port @ '' ssh2'' @ fin)
           = Some (method, inv, u, addr)"
proof -
  let ?tail = "'' from '' @ addr @ '' port '' @ port @ '' ssh2'' @ fin"
  have tail: "from_ssh2 fi ?tail = Some addr" using from_ssh2_peer(1,2) [OF assms(1)] assms(3) by auto
  have none: "\<And>t. strict_suffix t ?tail \<Longrightarrow> from_ssh2 fi t = None" by (rule from_ssh2_peer(3) [OF assms(1)])
  show ?thesis
    using last_match_at [of user "from_ssh2 fi" ?tail, OF assms(2) tail none]
      lit_then_last_match [of user "from_ssh2 fi" ?tail, OF assms(2) tail none, of "''invalid user ''"]
    by (auto simp: for_user_def split: option.splits)
qed

lemma record_match:
  assumes "record_ok r" "peer_ok addr port fin" "CHR 0x0A \<notin> set user"
  shows "\<exists>p m. p \<in> set failurePatterns \<and> fp_re p (record_text r user addr port fin) = Some m \<and> snd (snd (snd m)) = addr
           \<and> first_pattern ip_canon (record_text r user addr port fin) failurePatterns = pattern_event ip_canon p m"
proof (cases r)
  case (Failed_rec meth unk)
  let ?s = "unknown_mark unk @ user @ '' from '' @ addr @ '' port '' @ port @ '' ssh2'' @ fin"
  have w: "word_at (meth @ '' for '' @ ?s) = Some (meth, '' for '' @ ?s)"
    by (rule word_at_word) (use assms(1) Failed_rec in \<open>auto simp: is_space_def\<close>)
  obtain inv u where u: "for_user detail_end meth ?s = Some (meth, inv, u, addr)"
    using for_user_peer [OF assms(2), of "unknown_mark unk @ user" detail_end meth] assms(3)
    by (auto simp: unknown_mark_def)
  have "failedRe (record_text r user addr port fin) = Some (meth, inv, u, addr)"
    unfolding failedRe_def Failed_rec record_text.simps lit_append using w u by simp
  then show ?thesis
    by (intro exI [of _ "failurePatterns ! 0"] exI [of _ "(meth, inv, u, addr)"]) (simp add: failurePatterns_def)
next
  case Invalid_user_rec
  have "last_match from_port (user @ '' from '' @ addr @ '' port '' @ port) = Some (user, addr)"
    by (rule last_match_at) (use assms(3) from_port_peer [OF assms(2)] in simp_all)
  then have "invalidUserRe (record_text r user addr port fin) = Some ([], False, user, addr)"
    unfolding invalidUserRe_def Invalid_user_rec record_text.simps lit_append by simp
  moreover have "failedRe (record_text r user addr port fin) = None"
    by (simp add: failedRe_def Invalid_user_rec)
  ultimately show ?thesis
    by (intro exI [of _ "failurePatterns ! 1"] exI [of _ "([], False, user, addr)"]) (simp add: failurePatterns_def)
next
  case (Closed_rec verb unk)
  have "last_match space_addr (user @ '' '' @ addr @ '' port '' @ port @ fin) = Some (user, addr)"
    by (rule last_match_at) (use assms(3) space_addr_peer [OF assms(2)] in simp_all)
  moreover have "closed_front (verb @ s) = Some s" for s
    using assms(1) Closed_rec by (auto simp: closed_front_def closed_verb_def)
  ultimately have "closedRe (record_text r user addr port fin) = Some ([], unk, user, addr)"
    unfolding closedRe_def Closed_rec record_text.simps by (cases unk) simp_all
  moreover have "failedRe (record_text r user addr port fin) = None" "invalidUserRe (record_text r user addr port fin) = None"
    using assms(1) Closed_rec by (auto simp: failedRe_def invalidUserRe_def closed_verb_def)
  ultimately show ?thesis
    by (intro exI [of _ "failurePatterns ! 2"] exI [of _ "([], unk, user, addr)"]) (simp add: failurePatterns_def)
next
  case (Max_attempts_rec unk)
  let ?s = "unknown_mark unk @ user @ '' from '' @ addr @ '' port '' @ port @ '' ssh2'' @ fin"
  obtain inv u where u: "for_user preauth_end [] ?s = Some ([], inv, u, addr)"
    using for_user_peer [OF assms(2), of "unknown_mark unk @ user" preauth_end "[]"] assms(3)
    by (auto simp: unknown_mark_def)
  have "maxAttemptsRe (record_text r user addr port fin) = Some ([], inv, u, addr)"
    unfolding maxAttemptsRe_def Max_attempts_rec record_text.simps lit_append using u by simp
  moreover have "failedRe (record_text r user addr port fin) = None" "invalidUserRe (record_text r user addr port fin) = None"
    "closedRe (record_text r user addr port fin) = None"
    by (simp_all add: failedRe_def invalidUserRe_def closedRe_def closed_front_def Max_attempts_rec)
  ultimately show ?thesis
    by (intro exI [of _ "failurePatterns ! 3"] exI [of _ "([], inv, u, addr)"]) (simp add: failurePatterns_def)
qed

section \<open>Properties\<close>



text \<open>
  The text after the protocol name is to the right of the address. sshd names the key there, and for a
  certificate also the identity its owner wrote into it, so a text that looks like the end of a record
  takes the place of the address: here the failure of \<open>203.0.113.5\<close> is counted for \<open>192.0.2.1\<close>.
\<close>

theorem ssh_detail_forges_address:
  "map_option fe_Address (ParseFailure Some
     ''Failed publickey for root from 203.0.113.5 port 22 ssh2: RSA-CERT SHA256:x ID a from 192.0.2.1 port 1 ssh2: b (serial 0)'')
     = Some ''192.0.2.1''"
  by code_simp

end
