(* ===== verification/Ssh_Pressure.thy ===== *)
theory Ssh_Pressure
  imports Ssh_Parse "HOL-Library.AList" "HOL-Library.Product_Lexorder"
begin

text \<open>
  Counting rejected SSH attempts per window and source (\<open>src/internal/sshwatch/pressure.go\<close>).

  The two Go maps are association lists with distinct keys. Go walks a map in an order it does not
  promise; the code picks a minimum of a total order or sorts by one, so the order of the lists is not
  visible, which the lemmas on \<open>evictWeakest\<close> and on the ranking show. Counters are natural numbers. The
  lock serialises the calls, so a run is a list of calls.
\<close>

section \<open>Definitions\<close>

definition defaultWindow :: duration where "defaultWindow = 10 * minute"
definition defaultSuspectWindow :: duration where "defaultSuspectWindow = 60 * minute"
definition defaultMaxSources :: int where "defaultMaxSources = 1024"
definition defaultMaxTopSources :: int where "defaultMaxTopSources = 10"
definition defaultMaxSuspects :: int where "defaultMaxSuspects = 16"
definition maxAddrLen :: nat where "maxAddrLen = 64"

record source_pressure =
  sp_Address :: string
  sp_Failures :: nat
  sp_InvalidUser :: nat

record suspect_success =
  su_Address :: string
  su_User :: string
  su_Method :: string
  su_PriorFailures :: nat
  su_Successes :: nat
  su_At :: gotime

record pressure_window =
  pw_Start :: gotime
  pw_End :: gotime
  pw_Failures :: nat
  pw_InvalidUser :: nat
  pw_Sources :: nat
  pw_SourcesDropped :: nat
  pw_TopSources :: "source_pressure list"
  pw_SuspectSuccess :: "suspect_success list"

record login =
  lg_Event :: login_event
  lg_PriorFailures :: nat

record aggregator_options =
  ao_Window :: duration
  ao_SuspectWindow :: duration
  ao_MaxSources :: int
  ao_MaxTopSources :: int
  ao_MaxSuspects :: int

definition withDefaults :: "aggregator_options \<Rightarrow> aggregator_options" where
  "withDefaults opt =
     \<lparr>ao_Window = (if ao_Window opt \<le> 0 then defaultWindow else ao_Window opt),
      ao_SuspectWindow = (if ao_SuspectWindow opt \<le> 0 then defaultSuspectWindow else ao_SuspectWindow opt),
      ao_MaxSources = (if ao_MaxSources opt \<le> 0 then defaultMaxSources else ao_MaxSources opt),
      ao_MaxTopSources = (if ao_MaxTopSources opt \<le> 0 then defaultMaxTopSources else ao_MaxTopSources opt),
      ao_MaxSuspects = (if ao_MaxSuspects opt \<le> 0 then defaultMaxSuspects else ao_MaxSuspects opt)\<rparr>"

record source_state =
  ss_windowFailures :: nat
  ss_windowInvalid :: nat
  ss_priorFailures :: nat
  ss_last :: gotime

record aggregator =
  ag_opts :: aggregator_options
  ag_start :: gotime
  ag_failures :: nat
  ag_invalid :: nat
  ag_sources :: nat
  ag_dropped :: nat
  ag_src :: "(string \<times> source_state) list"
  ag_suspects :: "(string \<times> suspect_success) list"

definition NewAggregator :: "aggregator_options \<Rightarrow> aggregator" where
  "NewAggregator opt =
     \<lparr>ag_opts = withDefaults opt, ag_start = 0, ag_failures = 0, ag_invalid = 0, ag_sources = 0, ag_dropped = 0,
      ag_src = [], ag_suspects = []\<rparr>"

definition weaker :: "source_state \<Rightarrow> string \<Rightarrow> source_state \<Rightarrow> string \<Rightarrow> bool" where
  "weaker a addrA b addrB \<longleftrightarrow>
     (if ss_priorFailures a \<noteq> ss_priorFailures b then ss_priorFailures a < ss_priorFailures b
      else if ss_last a \<noteq> ss_last b then ss_last a < ss_last b
      else addrA < addrB)"

text \<open>The loop of \<open>evictWeakest\<close>: the weakest entry so far.\<close>

fun find_weakest :: "string \<Rightarrow> (string \<times> source_state) option \<Rightarrow> (string \<times> source_state) list
    \<Rightarrow> (string \<times> source_state) option" where
  "find_weakest keep found [] = found"
| "find_weakest keep found ((addr, st) # rest) =
     (if addr = keep then find_weakest keep found rest
      else case found of
        None \<Rightarrow> find_weakest keep (Some (addr, st)) rest
      | Some (victim, f) \<Rightarrow>
          (if weaker st addr f victim then find_weakest keep (Some (addr, st)) rest
           else find_weakest keep found rest))"

definition evictWeakest :: "string \<Rightarrow> aggregator \<Rightarrow> aggregator" where
  "evictWeakest keep a =
     (case find_weakest keep None (ag_src a) of
        None \<Rightarrow> a
      | Some (victim, _) \<Rightarrow> a\<lparr>ag_src := AList.delete victim (ag_src a), ag_dropped := ag_dropped a + 1\<rparr>)"

definition zero_source :: source_state where
  "zero_source = \<lparr>ss_windowFailures = 0, ss_windowInvalid = 0, ss_priorFailures = 0, ss_last = 0\<rparr>"

text \<open>What a failure does to the entry of its source.\<close>

definition bump_source :: "aggregator_options \<Rightarrow> gotime \<Rightarrow> bool \<Rightarrow> source_state \<Rightarrow> source_state" where
  "bump_source opt now invalid st =
     (let st = (if time_sub now (ss_last st) > ao_SuspectWindow opt then st\<lparr>ss_priorFailures := 0\<rparr> else st)
      in st\<lparr>ss_windowFailures := ss_windowFailures st + 1,
            ss_windowInvalid := ss_windowInvalid st + (if invalid then 1 else 0),
            ss_priorFailures := ss_priorFailures st + 1,
            ss_last := now\<rparr>)"

text \<open>The state after counting, before the cap is enforced.\<close>

definition counted :: "gotime \<Rightarrow> failure_event \<Rightarrow> aggregator \<Rightarrow> aggregator" where
  "counted now ev a =
     (let st = (case map_of (ag_src a) (fe_Address ev) of None \<Rightarrow> zero_source | Some st \<Rightarrow> st)
      in a\<lparr>ag_failures := ag_failures a + 1,
           ag_invalid := ag_invalid a + (if fe_Invalid ev then 1 else 0),
           ag_sources := ag_sources a + (if ss_windowFailures st = 0 then 1 else 0),
           ag_src := AList.update (fe_Address ev) (bump_source (ag_opts a) now (fe_Invalid ev) st) (ag_src a)\<rparr>)"

definition recordFailure :: "gotime \<Rightarrow> failure_event \<Rightarrow> aggregator \<Rightarrow> aggregator" where
  "recordFailure now ev a =
     (let a = counted now ev a
      in if int (length (ag_src a)) > ao_MaxSources (ag_opts a) then evictWeakest (fe_Address ev) a else a)"

definition canonicalAddr :: "(string \<Rightarrow> string option) \<Rightarrow> string \<Rightarrow> string" where
  "canonicalAddr ip_canon s = (case ip_canon s of Some ip \<Rightarrow> ip | None \<Rightarrow> clampLen s maxAddrLen)"

definition suspect_key :: "string \<Rightarrow> string \<Rightarrow> string" where
  "suspect_key addr user = addr @ [CHR 0x00] @ user"

definition add_suspect :: "string \<Rightarrow> login_event \<Rightarrow> nat \<Rightarrow> gotime \<Rightarrow> aggregator \<Rightarrow> aggregator" where
  "add_suspect addr ev prior now a =
     (let user = clampLen (le_User ev) maxUserLen;
          key = suspect_key addr user
      in case map_of (ag_suspects a) key of
           Some s \<Rightarrow>
             a\<lparr>ag_suspects := AList.update key
                 (s\<lparr>su_PriorFailures := prior, su_Successes := su_Successes s + 1, su_At := now\<rparr>) (ag_suspects a)\<rparr>
         | None \<Rightarrow>
             (if int (length (ag_suspects a)) \<ge> ao_MaxSuspects (ag_opts a) then a
              else a\<lparr>ag_suspects := AList.update key
                 \<lparr>su_Address = addr, su_User = user, su_Method = clampLen (le_Method ev) maxUserLen,
                  su_PriorFailures = prior, su_Successes = 1, su_At = now\<rparr> (ag_suspects a)\<rparr>))"

definition recordLogin :: "(string \<Rightarrow> string option) \<Rightarrow> gotime \<Rightarrow> login_event \<Rightarrow> aggregator \<Rightarrow> login \<times> aggregator" where
  "recordLogin ip_canon now ev a =
     (let addr = canonicalAddr ip_canon (le_Address ev)
      in case map_of (ag_src a) addr of
           None \<Rightarrow> (\<lparr>lg_Event = ev, lg_PriorFailures = 0\<rparr>, a)
         | Some st \<Rightarrow>
             (if time_sub now (ss_last st) > ao_SuspectWindow (ag_opts a) \<or> ss_priorFailures st = 0
              then (\<lparr>lg_Event = ev, lg_PriorFailures = 0\<rparr>, a)
              else (\<lparr>lg_Event = ev, lg_PriorFailures = ss_priorFailures st\<rparr>,
                    add_suspect addr ev (ss_priorFailures st) now a)))"

definition ssh_Observe :: "(string \<Rightarrow> string option) \<Rightarrow> gotime \<Rightarrow> string \<Rightarrow> aggregator \<Rightarrow> login option \<times> aggregator" where
  "ssh_Observe ip_canon now line a =
     (let a = (if ag_start a = 0 then a\<lparr>ag_start := now\<rparr> else a)
      in case ParseFailure ip_canon line of
           Some ev \<Rightarrow> (None, recordFailure now ev a)
         | None \<Rightarrow>
             (case ssh_Parse line of
                None \<Rightarrow> (None, a)
              | Some ev \<Rightarrow> (case recordLogin ip_canon now ev a of (out, a') \<Rightarrow> (Some out, a'))))"

definition pressure_of :: "string \<times> source_state \<Rightarrow> source_pressure" where
  "pressure_of x = \<lparr>sp_Address = fst x, sp_Failures = ss_windowFailures (snd x), sp_InvalidUser = ss_windowInvalid (snd x)\<rparr>"

definition source_rank :: "source_pressure \<Rightarrow> int \<times> string" where
  "source_rank p = (- int (sp_Failures p), sp_Address p)"

definition suspect_rank :: "suspect_success \<Rightarrow> int \<times> string \<times> string" where
  "suspect_rank s = (- int (su_PriorFailures s), su_Address s, su_User s)"

definition summarize :: "gotime \<Rightarrow> aggregator \<Rightarrow> pressure_window" where
  "summarize now a =
     \<lparr>pw_Start = ag_start a, pw_End = now, pw_Failures = ag_failures a, pw_InvalidUser = ag_invalid a,
      pw_Sources = ag_sources a, pw_SourcesDropped = ag_dropped a,
      pw_TopSources = take (nat (ao_MaxTopSources (ag_opts a)))
        (sort_key source_rank (map pressure_of (filter (\<lambda>(_, st). ss_windowFailures st \<noteq> 0) (ag_src a)))),
      pw_SuspectSuccess = sort_key suspect_rank (map snd (ag_suspects a))\<rparr>"

definition reset_window :: "gotime \<Rightarrow> aggregator \<Rightarrow> aggregator" where
  "reset_window now a =
     a\<lparr>ag_start := now, ag_failures := 0, ag_invalid := 0, ag_sources := 0, ag_dropped := 0,
       ag_src := map (\<lambda>(addr, st). (addr, st\<lparr>ss_windowFailures := 0, ss_windowInvalid := 0\<rparr>))
         (filter (\<lambda>(_, st). \<not> time_sub now (ss_last st) > ao_SuspectWindow (ag_opts a)) (ag_src a)),
       ag_suspects := []\<rparr>"

definition ssh_Roll :: "gotime \<Rightarrow> aggregator \<Rightarrow> pressure_window option \<times> aggregator" where
  "ssh_Roll now a =
     (if ag_start a = 0 \<or> now < ag_start a then (None, a\<lparr>ag_start := now\<rparr>)
      else if time_sub now (ag_start a) < ao_Window (ag_opts a) then (None, a)
      else
        let w = summarize now a
        in (if pw_Failures w > 0 \<or> pw_SuspectSuccess w \<noteq> [] then Some w else None, reset_window now a))"

subsection \<open>Runs\<close>

datatype ssh_call = Observe_call gotime string | Roll_call gotime

fun call_time :: "ssh_call \<Rightarrow> gotime" where
  "call_time (Observe_call now line) = now"
| "call_time (Roll_call now) = now"

fun ssh_step :: "(string \<Rightarrow> string option) \<Rightarrow> aggregator \<Rightarrow> ssh_call \<Rightarrow> aggregator" where
  "ssh_step ip_canon a (Observe_call now line) = snd (ssh_Observe ip_canon now line a)"
| "ssh_step ip_canon a (Roll_call now) = snd (ssh_Roll now a)"

definition ssh_run :: "(string \<Rightarrow> string option) \<Rightarrow> aggregator_options \<Rightarrow> ssh_call list \<Rightarrow> aggregator" where
  "ssh_run ip_canon opt cs = foldl (ssh_step ip_canon) (NewAggregator opt) cs"

subsection \<open>The specification: the failures of the window in full\<close>

definition closes :: "gotime \<Rightarrow> aggregator \<Rightarrow> bool" where
  "closes now a \<longleftrightarrow> ag_start a \<noteq> 0 \<and> ag_start a \<le> now \<and> \<not> time_sub now (ag_start a) < ao_Window (ag_opts a)"

fun window_step :: "(string \<Rightarrow> string option) \<Rightarrow> aggregator \<Rightarrow> failure_event list \<Rightarrow> ssh_call \<Rightarrow> failure_event list" where
  "window_step ip_canon a h (Observe_call now line) =
     (case ParseFailure ip_canon line of None \<Rightarrow> h | Some ev \<Rightarrow> h @ [ev])"
| "window_step ip_canon a h (Roll_call now) = (if closes now a then [] else h)"

fun window_events :: "(string \<Rightarrow> string option) \<Rightarrow> aggregator \<Rightarrow> failure_event list \<Rightarrow> ssh_call list \<Rightarrow> failure_event list" where
  "window_events ip_canon a h [] = h"
| "window_events ip_canon a h (c # cs) = window_events ip_canon (ssh_step ip_canon a c) (window_step ip_canon a h c) cs"

definition events_from :: "string \<Rightarrow> failure_event list \<Rightarrow> failure_event list" where
  "events_from addr h = filter (\<lambda>ev. fe_Address ev = addr) h"

definition plain_ranking :: "failure_event list \<Rightarrow> source_pressure list" where
  "plain_ranking h = sort_key source_rank
     (map (\<lambda>addr. \<lparr>sp_Address = addr, sp_Failures = length (events_from addr h),
                    sp_InvalidUser = length (filter fe_Invalid (events_from addr h))\<rparr>)
       (remdups (map fe_Address h)))"

definition tracked_failures :: "aggregator \<Rightarrow> string \<Rightarrow> nat" where
  "tracked_failures a addr = (case map_of (ag_src a) addr of None \<Rightarrow> 0 | Some st \<Rightarrow> ss_windowFailures st)"

definition tracked_invalid :: "aggregator \<Rightarrow> string \<Rightarrow> nat" where
  "tracked_invalid a addr = (case map_of (ag_src a) addr of None \<Rightarrow> 0 | Some st \<Rightarrow> ss_windowInvalid st)"

definition count_ok :: "aggregator \<Rightarrow> failure_event list \<Rightarrow> bool" where
  "count_ok a h \<longleftrightarrow>
     ag_failures a = length h \<and> ag_invalid a = length (filter fe_Invalid h)
     \<and> card (fe_Address ` set h) \<le> ag_sources a \<and> ag_sources a \<le> ag_failures a
     \<and> (\<forall>addr. tracked_failures a addr \<le> length (events_from addr h))
     \<and> (ag_dropped a = 0 \<longrightarrow>
          ag_sources a = card (fe_Address ` set h)
          \<and> (\<forall>addr. tracked_failures a addr = length (events_from addr h)
                \<and> tracked_invalid a addr = length (filter fe_Invalid (events_from addr h))))"

definition table_ok :: "aggregator \<Rightarrow> bool" where
  "table_ok a \<longleftrightarrow>
     distinct (map fst (ag_src a)) \<and> distinct (map fst (ag_suspects a))
     \<and> 0 < ao_MaxSources (ag_opts a) \<and> int (length (ag_src a)) \<le> ao_MaxSources (ag_opts a)
     \<and> 0 < ao_MaxSuspects (ag_opts a) \<and> int (length (ag_suspects a)) \<le> ao_MaxSuspects (ag_opts a)
     \<and> list_all (\<lambda>(addr, st). 0 < ss_priorFailures st) (ag_src a)"

definition agg_ok :: "aggregator \<Rightarrow> failure_event list \<Rightarrow> bool" where
  "agg_ok a h \<longleftrightarrow> table_ok a \<and> count_ok a h"

section \<open>Lemmas\<close>

lemma update_size: "length (AList.update k v xs) = (if k \<in> fst ` set xs then length xs else length xs + 1)"
  by (induction xs) auto

lemma delete_size:
  assumes "distinct (map fst xs)" "k \<in> fst ` set xs"
  shows "length (AList.delete k xs) = length xs - 1"
  using assms
proof (induction xs)
  case (Cons x xs)
  show ?case
  proof (cases "fst x = k")
    case True
    then have "AList.delete k xs = xs" using Cons.prems(1) by (intro AList.delete_id) auto
    then show ?thesis using True by (cases x) simp
  next
    case False
    then have k: "k \<in> fst ` set xs" using Cons.prems(2) by auto
    then have "length xs > 0" by (cases xs) auto
    then show ?thesis using Cons.IH [OF _ k] Cons.prems(1) False by (cases x) simp
  qed
qed simp

lemma update_member:
  "distinct (map fst xs) \<Longrightarrow>
     (k', v') \<in> set (AList.update k v xs) \<longleftrightarrow> (k' = k \<and> v' = v \<or> k' \<noteq> k \<and> (k', v') \<in> set xs)"
  by (induction xs) (auto simp: image_iff)

lemma weaker_irrefl: "\<not> weaker a x a x"
  by (simp add: weaker_def)

lemma weaker_asym: "weaker a x b y \<Longrightarrow> \<not> weaker b y a x"
  by (auto simp: weaker_def split: if_splits)

lemma weaker_step: "\<not> weaker b y a x \<Longrightarrow> \<not> weaker a x c z \<Longrightarrow> \<not> weaker b y c z"
  by (auto simp: weaker_def split: if_splits)

text \<open>One turn of the loop keeps the least of what it has seen.\<close>

lemma find_weakest_turn:
  obtains found' where "find_weakest keep found (x # xs) = find_weakest keep found' xs"
    "found' = found \<or> fst x \<noteq> keep \<and> found' = Some x"
    "found \<noteq> None \<or> fst x \<noteq> keep \<Longrightarrow> found' \<noteq> None"
    "\<And>y v f. found = Some y \<or> y = x \<and> fst x \<noteq> keep \<Longrightarrow> found' = Some (v, f) \<Longrightarrow> \<not> weaker (snd y) (fst y) f v"
proof (cases x)
  case x: (Pair k st)
  consider (keep) "k = keep" | (first) "k \<noteq> keep" "found = None"
    | (take) v f where "k \<noteq> keep" "found = Some (v, f)" "weaker st k f v"
    | (leave) v f where "k \<noteq> keep" "found = Some (v, f)" "\<not> weaker st k f v"
    by (cases found) auto
  then show thesis
  proof cases
    case keep then show ?thesis using that [of found] by (auto simp: x weaker_irrefl)
  next
    case first then show ?thesis using that [of "Some x"] by (auto simp: x weaker_irrefl)
  next
    case take then show ?thesis using that [of "Some x"] weaker_asym [OF take(3)] by (fastforce simp: x weaker_irrefl)
  next
    case leave then show ?thesis using that [of found] by (fastforce simp: x weaker_irrefl)
  qed
qed

lemma find_weakest_found:
  "find_weakest keep found xs = Some (v, f) \<Longrightarrow> found = Some (v, f) \<or> v \<noteq> keep \<and> (v, f) \<in> set xs"
proof (induction xs arbitrary: found)
  case (Cons x xs)
  obtain found' where f: "find_weakest keep found (x # xs) = find_weakest keep found' xs"
    "found' = found \<or> fst x \<noteq> keep \<and> found' = Some x"
    by (rule find_weakest_turn)
  show ?case using Cons.IH [of found'] Cons.prems f by (cases x) auto
qed simp

lemma find_weakest_None: "find_weakest keep found xs = None \<Longrightarrow> found = None \<and> fst ` set xs \<subseteq> {keep}"
proof (induction xs arbitrary: found)
  case (Cons x xs)
  obtain found' where f: "find_weakest keep found (x # xs) = find_weakest keep found' xs"
    "found \<noteq> None \<or> fst x \<noteq> keep \<Longrightarrow> found' \<noteq> None"
    using find_weakest_turn [of keep found x xs] by metis
  show ?case using Cons.IH [of found'] Cons.prems f(1) f(2) by (cases found) auto
qed simp

text \<open>The victim is the least entry other than the new one, so the order of the walk does not matter.\<close>

lemma find_weakest_least:
  "find_weakest keep found xs = Some (v, f) \<Longrightarrow> found = Some y \<or> y \<in> set xs \<and> fst y \<noteq> keep
     \<Longrightarrow> \<not> weaker (snd y) (fst y) f v"
proof (induction xs arbitrary: found y)
  case (Cons x xs)
  obtain found' where f: "find_weakest keep found (x # xs) = find_weakest keep found' xs"
    "found \<noteq> None \<or> fst x \<noteq> keep \<Longrightarrow> found' \<noteq> None"
    "\<And>y v f. found = Some y \<or> y = x \<and> fst x \<noteq> keep \<Longrightarrow> found' = Some (v, f) \<Longrightarrow> \<not> weaker (snd y) (fst y) f v"
    using find_weakest_turn [of keep found x xs] by metis
  have least: "found' = Some z \<or> z \<in> set xs \<and> fst z \<noteq> keep \<Longrightarrow> \<not> weaker (snd z) (fst z) f v" for z
    by (rule Cons.IH) (use Cons.prems(1) f(1) in auto)
  show ?case
  proof (cases "found = Some y \<or> y = x \<and> fst x \<noteq> keep")
    case True
    then obtain v' f' where v': "found' = Some (v', f')" using f(2) by (metis option.exhaust option.distinct(1) surj_pair)
    show ?thesis using weaker_step [OF f(3) [OF True v']] least [of "(v', f')"] v' by simp
  next
    case False
    then show ?thesis using least Cons.prems(2) by auto
  qed
qed (auto simp: weaker_irrefl)

subsection \<open>The invariant\<close>

lemma events_from_snoc:
  "events_from addr (h @ [ev]) = events_from addr h @ (if fe_Address ev = addr then [ev] else [])"
  by (simp add: events_from_def)

lemma events_from_Nil_iff: "events_from addr h = [] \<longleftrightarrow> addr \<notin> fe_Address ` set h"
  by (auto simp: events_from_def filter_empty_conv)

lemma bump_source_simps [simp]:
  "ss_windowFailures (bump_source opt now i st) = Suc (ss_windowFailures st)"
  "ss_windowInvalid (bump_source opt now i st) = ss_windowInvalid st + (if i then 1 else 0)"
  "0 < ss_priorFailures (bump_source opt now i st)"
  "ss_last (bump_source opt now i st) = now"
  by (simp_all add: bump_source_def Let_def)

lemma counted_tracked:
  "tracked_failures (counted now ev a) addr = tracked_failures a addr + (if addr = fe_Address ev then 1 else 0)"
  "tracked_invalid (counted now ev a) addr =
     tracked_invalid a addr + (if addr = fe_Address ev \<and> fe_Invalid ev then 1 else 0)"
  by (auto simp: counted_def tracked_failures_def tracked_invalid_def Let_def AList.update_conv' zero_source_def
      split: option.splits)

lemma counted_sources:
  "ag_sources (counted now ev a) = ag_sources a + (if tracked_failures a (fe_Address ev) = 0 then 1 else 0)"
  by (auto simp: counted_def tracked_failures_def Let_def zero_source_def split: option.splits)

lemma counted_simps [simp]:
  "ag_opts (counted now ev a) = ag_opts a" "ag_start (counted now ev a) = ag_start a"
  "ag_failures (counted now ev a) = Suc (ag_failures a)"
  "ag_invalid (counted now ev a) = ag_invalid a + (if fe_Invalid ev then 1 else 0)"
  "ag_dropped (counted now ev a) = ag_dropped a" "ag_suspects (counted now ev a) = ag_suspects a"
  by (simp_all add: counted_def Let_def)

lemma counted_src:
  assumes "distinct (map fst (ag_src a))" "list_all (\<lambda>(addr, st). 0 < ss_priorFailures st) (ag_src a)"
  shows "distinct (map fst (ag_src (counted now ev a)))"
    "list_all (\<lambda>(addr, st). 0 < ss_priorFailures st) (ag_src (counted now ev a))"
    "length (ag_src (counted now ev a)) \<le> Suc (length (ag_src a))"
    "fe_Address ev \<in> fst ` set (ag_src (counted now ev a))"
  using assms
  by (auto simp: counted_def Let_def AList.distinct_update update_size list_all_iff update_member dom_update)
    (simp add: AList.dom_update [simplified])?

lemma count_ok_counted:
  assumes "count_ok a h"
  shows "count_ok (counted now ev a) (h @ [ev])"
proof -
  have le: "tracked_failures a (fe_Address ev) \<le> length (events_from (fe_Address ev) h)"
    using assms by (simp add: count_ok_def)
  have new: "tracked_failures a (fe_Address ev) = 0" if "fe_Address ev \<notin> fe_Address ` set h"
    using le that events_from_Nil_iff [of "fe_Address ev" h] by simp
  have old: "0 < tracked_failures a (fe_Address ev)" if "ag_dropped a = 0" "fe_Address ev \<in> fe_Address ` set h"
  proof -
    have "events_from (fe_Address ev) h \<noteq> []" using that(2) events_from_Nil_iff by blast
    then show ?thesis using assms that(1) by (simp add: count_ok_def)
  qed
  have card: "card (insert (fe_Address ev) (fe_Address ` set h))
      = card (fe_Address ` set h) + (if fe_Address ev \<in> fe_Address ` set h then 0 else 1)"
    by (simp add: card_insert_if)
  show ?thesis
    using assms new old le
    by (auto simp: count_ok_def counted_sources counted_tracked events_from_snoc card) (metis le_zero_eq list.size(3))
qed

text \<open>Dropping an entry loses only what its source contributed to the ranking.\<close>

lemma evictWeakest_cases:
  assumes "1 < length (ag_src a)" "distinct (map fst (ag_src a))"
  obtains v f where "(v, f) \<in> set (ag_src a)" "v \<noteq> keep"
    "evictWeakest keep a = a\<lparr>ag_src := AList.delete v (ag_src a), ag_dropped := ag_dropped a + 1\<rparr>"
    "\<And>k st. (k, st) \<in> set (ag_src a) \<Longrightarrow> k \<noteq> keep \<Longrightarrow> \<not> weaker st k f v"
proof (cases "find_weakest keep None (ag_src a)")
  case None
  then have "set (map fst (ag_src a)) \<subseteq> {keep}" using find_weakest_None [OF None] by auto
  then have "card (set (map fst (ag_src a))) \<le> card {keep}" by (intro card_mono) auto
  then show ?thesis using assms(1) distinct_card [OF assms(2)] by simp
next
  case (Some x)
  obtain v f where x: "x = (v, f)" by (cases x)
  have "v \<noteq> keep" "(v, f) \<in> set (ag_src a)" using find_weakest_found [OF Some [unfolded x]] by auto
  moreover have "\<not> weaker st k f v" if "(k, st) \<in> set (ag_src a)" "k \<noteq> keep" for k st
    using find_weakest_least [OF Some [unfolded x], of "(k, st)"] that by simp
  ultimately show ?thesis using that Some x by (simp add: evictWeakest_def)
qed

lemma recordFailure_cases:
  assumes "table_ok a"
  obtains (kept) "recordFailure now ev a = counted now ev a"
      "int (length (ag_src (counted now ev a))) \<le> ao_MaxSources (ag_opts a)"
  | (evicted) v f where "(v, f) \<in> set (ag_src (counted now ev a))" "v \<noteq> fe_Address ev"
      "recordFailure now ev a = (counted now ev a)\<lparr>ag_src := AList.delete v (ag_src (counted now ev a)),
         ag_dropped := ag_dropped a + 1\<rparr>"
      "int (length (ag_src (counted now ev a))) > ao_MaxSources (ag_opts a)"
      "\<And>k st. (k, st) \<in> set (ag_src (counted now ev a)) \<Longrightarrow> k \<noteq> fe_Address ev \<Longrightarrow> \<not> weaker st k f v"
proof (cases "int (length (ag_src (counted now ev a))) > ao_MaxSources (ag_opts a)")
  case True
  let ?c = "counted now ev a"
  have src: "distinct (map fst (ag_src ?c))" "fe_Address ev \<in> fst ` set (ag_src ?c)"
    using assms counted_src by (auto simp: table_ok_def)
  have "1 < length (ag_src ?c)" using True assms by (auto simp: table_ok_def)
  then obtain v f where "(v, f) \<in> set (ag_src ?c)" "v \<noteq> fe_Address ev"
    "evictWeakest (fe_Address ev) ?c = ?c\<lparr>ag_src := AList.delete v (ag_src ?c), ag_dropped := ag_dropped ?c + 1\<rparr>"
    "\<And>k st. (k, st) \<in> set (ag_src ?c) \<Longrightarrow> k \<noteq> fe_Address ev \<Longrightarrow> \<not> weaker st k f v"
    using evictWeakest_cases [of ?c "fe_Address ev"] src by blast
  then show ?thesis using evicted [of v f] True by (simp add: recordFailure_def Let_def)
next
  case False
  then show ?thesis using kept by (simp add: recordFailure_def Let_def)
qed

lemma agg_ok_recordFailure:
  assumes "agg_ok a h"
  shows "agg_ok (recordFailure now ev a) (h @ [ev])"
proof -
  have table: "table_ok a" and count: "count_ok (counted now ev a) (h @ [ev])"
    using assms count_ok_counted by (auto simp: agg_ok_def)
  let ?c = "counted now ev a"
  have src: "distinct (map fst (ag_src ?c))" "list_all (\<lambda>(addr, st). 0 < ss_priorFailures st) (ag_src ?c)"
    "length (ag_src ?c) \<le> Suc (length (ag_src a))"
    using table counted_src by (auto simp: table_ok_def)
  show ?thesis
    using table
  proof (cases rule: recordFailure_cases [of a now ev])
    case kept
    then show ?thesis using table count src by (simp add: agg_ok_def table_ok_def)
  next
    case (evicted v f)
    let ?r = "recordFailure now ev a"
    have v: "v \<in> fst ` set (ag_src ?c)" using evicted(1) by force
    have t: "tracked_failures ?r x \<le> tracked_failures ?c x" for x
      using evicted(3) by (simp add: tracked_failures_def AList.delete_conv')
    have "count_ok ?r (h @ [ev])"
      using count order_trans [OF t] evicted(3) unfolding count_ok_def by simp
    moreover have "table_ok ?r"
      using table src evicted(3,4) delete_size [OF src(1) v]
      by (auto simp: table_ok_def list_all_iff AList.delete_eq intro: distinct_map_filter)
    ultimately show ?thesis by (simp add: agg_ok_def)
  qed
qed

lemma recordLogin_keeps:
  "recordLogin ip_canon now ev a = (out, a') \<Longrightarrow>
     ag_src a' = ag_src a \<and> ag_opts a' = ag_opts a \<and> ag_start a' = ag_start a \<and> ag_failures a' = ag_failures a
     \<and> ag_invalid a' = ag_invalid a \<and> ag_sources a' = ag_sources a \<and> ag_dropped a' = ag_dropped a"
  by (auto simp: recordLogin_def add_suspect_def Let_def split: option.splits if_splits)

lemma recordLogin_suspects:
  "recordLogin ip_canon now ev a = (out, a') \<Longrightarrow> table_ok a \<Longrightarrow>
     distinct (map fst (ag_suspects a')) \<and> int (length (ag_suspects a')) \<le> ao_MaxSuspects (ag_opts a)"
  by (auto simp: recordLogin_def add_suspect_def table_ok_def Let_def AList.distinct_update update_size
      dest!: map_of_SomeD split: option.splits if_splits) (force simp: image_iff)+

lemma agg_ok_recordLogin:
  "recordLogin ip_canon now ev a = (out, a') \<Longrightarrow> agg_ok a h \<Longrightarrow> agg_ok a' h"
  using recordLogin_keeps [of ip_canon now ev a out a'] recordLogin_suspects [of ip_canon now ev a out a']
  by (auto simp: agg_ok_def table_ok_def count_ok_def tracked_failures_def tracked_invalid_def)

lemma agg_ok_start: "agg_ok (a\<lparr>ag_start := t\<rparr>) h = agg_ok a h"
  by (simp add: agg_ok_def table_ok_def count_ok_def tracked_failures_def tracked_invalid_def)

lemma reset_tracked: "tracked_failures (reset_window now a) addr = 0" "tracked_invalid (reset_window now a) addr = 0"
proof -
  have "ss_windowFailures st = 0 \<and> ss_windowInvalid st = 0" if "map_of (ag_src (reset_window now a)) addr = Some st" for st
    using map_of_SomeD [OF that] by (auto simp: reset_window_def)
  then show "tracked_failures (reset_window now a) addr = 0" "tracked_invalid (reset_window now a) addr = 0"
    by (auto simp: tracked_failures_def tracked_invalid_def split: option.splits)
qed

lemma agg_ok_reset: "table_ok a \<Longrightarrow> agg_ok (reset_window now a) []"
proof -
  assume a: "table_ok a"
  let ?P = "\<lambda>(addr :: string, st). \<not> time_sub now (ss_last st) > ao_SuspectWindow (ag_opts a)"
  have "map fst (ag_src (reset_window now a)) = map fst (filter ?P (ag_src a))"
    "int (length (ag_src (reset_window now a))) \<le> int (length (ag_src a))"
    by (auto simp: reset_window_def split_def)
  moreover have "distinct (map fst (filter ?P (ag_src a)))"
    using a by (auto simp: table_ok_def intro: distinct_map_filter)
  moreover have "list_all (\<lambda>(addr, st). 0 < ss_priorFailures st) (ag_src (reset_window now a))"
    using a by (auto simp: reset_window_def table_ok_def list_all_iff)
  moreover have "ag_opts (reset_window now a) = ag_opts a" "ag_suspects (reset_window now a) = []"
    by (simp_all add: reset_window_def)
  ultimately have "table_ok (reset_window now a)" using a unfolding table_ok_def by (auto dest: order_trans)
  moreover have "count_ok (reset_window now a) []"
    by (simp add: count_ok_def reset_tracked events_from_def) (simp add: reset_window_def)
  ultimately show ?thesis by (simp add: agg_ok_def)
qed

lemma ssh_Roll_cases:
  "ssh_Roll now a =
     (if closes now a
      then (let w = summarize now a in if pw_Failures w > 0 \<or> pw_SuspectSuccess w \<noteq> [] then Some w else None, reset_window now a)
      else (None, if ag_start a = 0 \<or> now < ag_start a then a\<lparr>ag_start := now\<rparr> else a))"
  by (auto simp: ssh_Roll_def closes_def Let_def)

lemma agg_ok_step: "agg_ok a h \<Longrightarrow> agg_ok (ssh_step ip_canon a c) (window_step ip_canon a h c)"
proof (cases c)
  case (Observe_call now line)
  assume "agg_ok a h"
  then have ok: "agg_ok (if ag_start a = 0 then a\<lparr>ag_start := now\<rparr> else a) h" by (simp add: agg_ok_start)
  show ?thesis
  proof (cases "ParseFailure ip_canon line")
    case None
    then show ?thesis
      using ok Observe_call agg_ok_recordLogin
      by (auto simp: ssh_Observe_def Let_def agg_ok_start split: option.splits prod.splits if_splits)
  next
    case (Some ev)
    then show ?thesis using agg_ok_recordFailure [OF ok, of now ev] Observe_call by (simp add: ssh_Observe_def Let_def)
  qed
next
  case (Roll_call now)
  assume "agg_ok a h"
  then show ?thesis
    using agg_ok_reset [of a now] Roll_call by (auto simp: ssh_Roll_cases agg_ok_start agg_ok_def [of a])
qed

lemma agg_ok_run: "agg_ok a h \<Longrightarrow> agg_ok (foldl (ssh_step ip_canon) a cs) (window_events ip_canon a h cs)"
  by (induction cs arbitrary: a h) (simp_all add: agg_ok_step)

lemma agg_ok_New: "agg_ok (NewAggregator opt) []"
  by (simp add: agg_ok_def table_ok_def count_ok_def NewAggregator_def withDefaults_def tracked_failures_def
      tracked_invalid_def events_from_def defaultMaxSources_def defaultMaxSuspects_def)

lemma run_ok: "agg_ok (ssh_run ip_canon opt cs) (window_events ip_canon (NewAggregator opt) [] cs)"
  unfolding ssh_run_def by (rule agg_ok_run [OF agg_ok_New])

lemma step_opts: "ag_opts (ssh_step ip_canon a c) = ag_opts a"
proof (cases c)
  case (Observe_call now line)
  have evict: "ag_opts (evictWeakest k b) = ag_opts b" for k b by (auto simp: evictWeakest_def split: option.splits)
  show ?thesis
    using recordLogin_keeps Observe_call
    by (auto simp: ssh_Observe_def recordFailure_def evict Let_def split: option.splits prod.splits)
next
  case (Roll_call now)
  then show ?thesis by (simp add: ssh_Roll_cases reset_window_def)
qed

lemma run_opts: "ag_opts (foldl (ssh_step ip_canon) a cs) = ag_opts a"
  by (induction cs arbitrary: a) (simp_all add: step_opts)

subsection \<open>The ranking\<close>

lemma source_rank_inj: "inj_on source_rank A" if "inj_on sp_Address A"
  using that by (auto simp: inj_on_def source_rank_def)

lemma ranking_plain:
  assumes "distinct (map fst (ag_src a))"
    and "\<And>addr. tracked_failures a addr = length (events_from addr h)"
    and "\<And>addr. tracked_invalid a addr = length (filter fe_Invalid (events_from addr h))"
  shows "sort_key source_rank (map pressure_of (filter (\<lambda>(_, st). ss_windowFailures st \<noteq> 0) (ag_src a))) = plain_ranking h"
proof -
  let ?f = "\<lambda>addr. \<lparr>sp_Address = addr, sp_Failures = length (events_from addr h),
                    sp_InvalidUser = length (filter fe_Invalid (events_from addr h))\<rparr>"
  let ?xs = "filter (\<lambda>(_, st). ss_windowFailures st \<noteq> 0) (ag_src a)"
  have dist: "distinct (map fst ?xs)" using assms(1) by (rule distinct_map_filter)
  have entry: "ss_windowFailures st = length (events_from k h)"
    "ss_windowInvalid st = length (filter fe_Invalid (events_from k h))" if "(k, st) \<in> set (ag_src a)" for k st
    using assms(2,3) [of k] map_of_is_SomeI [OF assms(1) that] by (simp_all add: tracked_failures_def tracked_invalid_def)
  have eq: "map pressure_of ?xs = map ?f (map fst ?xs)" by (auto simp: pressure_of_def entry)
  have "set (map fst ?xs) = fe_Address ` set h"
  proof (intro equalityI subsetI)
    fix k assume "k \<in> set (map fst ?xs)"
    then obtain st where "(k, st) \<in> set (ag_src a)" "ss_windowFailures st \<noteq> 0" by auto
    then show "k \<in> fe_Address ` set h" using entry events_from_Nil_iff [of k h] by auto
  next
    fix k assume "k \<in> fe_Address ` set h"
    then have "tracked_failures a k \<noteq> 0" using assms(2) [of k] events_from_Nil_iff [of k h] by auto
    then show "k \<in> set (map fst ?xs)"
      by (force simp: tracked_failures_def split: option.splits dest: map_of_SomeD)
  qed
  then have "mset (map fst ?xs) = mset (remdups (map fe_Address h))"
    using dist by (intro set_eq_iff_mset_eq_distinct [THEN iffD1]) auto
  then have "mset (map pressure_of ?xs) = mset (map ?f (remdups (map fe_Address h)))"
    unfolding eq mset_map by simp
  moreover have "inj_on source_rank (set (map pressure_of ?xs))"
    unfolding eq by (intro source_rank_inj) (auto simp: inj_on_def)
  ultimately show ?thesis
    unfolding plain_ranking_def by (intro sort_key_inj_key_eq) auto
qed

subsection \<open>A source stays tracked\<close>

definition suspect_at :: "string \<Rightarrow> gotime \<Rightarrow> gotime \<Rightarrow> aggregator \<Rightarrow> bool" where
  "suspect_at addr u now a \<longleftrightarrow> (\<exists>st. (addr, st) \<in> set (ag_src a) \<and> u \<le> ss_last st \<and> ss_last st \<le> now)"

lemma time_sub_le: "t - u \<le> d \<Longrightarrow> 0 \<le> d \<Longrightarrow> time_sub t u \<le> d"
  by (auto simp: time_sub_def)

lemma suspect_counted:
  assumes "distinct (map fst (ag_src a))" "suspect_at addr u now a \<or> fe_Address ev = addr" "u \<le> t" "t \<le> now"
  shows "suspect_at addr u now (counted t ev a)"
  using assms
  by (cases "fe_Address ev = addr") (auto simp: suspect_at_def counted_def Let_def update_member)

lemma suspect_step:
  assumes "table_ok a" "int (length (ag_src a)) < ao_MaxSources (ag_opts a)"
    and "u \<le> call_time c" "call_time c \<le> now" "now - u \<le> ao_SuspectWindow (ag_opts a)"
    and "suspect_at addr u now a \<or> (\<exists>line ev. c = Observe_call u line \<and> ParseFailure ip_canon line = Some ev \<and> fe_Address ev = addr)"
  shows "suspect_at addr u now (ssh_step ip_canon a c) \<and> length (ag_src (ssh_step ip_canon a c)) \<le> Suc (length (ag_src a))"
proof -
  have fail: "suspect_at addr u now (recordFailure t ev b) \<and> length (ag_src (recordFailure t ev b)) \<le> Suc (length (ag_src a))"
    if "ag_src b = ag_src a" "ag_opts b = ag_opts a" "suspect_at addr u now b \<or> fe_Address ev = addr" "u \<le> t" "t \<le> now"
    for b t ev
  proof -
    have b: "distinct (map fst (ag_src b))" "list_all (\<lambda>(addr, st). 0 < ss_priorFailures st) (ag_src b)"
      using assms(1) that by (auto simp: table_ok_def)
    then have "length (ag_src (counted t ev b)) \<le> Suc (length (ag_src a))" using counted_src(3) [OF b, of t ev] that by simp
    moreover from this have "recordFailure t ev b = counted t ev b" using assms(2) that by (simp add: recordFailure_def)
    ultimately show ?thesis using suspect_counted [OF b(1) that(3-5)] by simp
  qed
  have reset: "suspect_at addr u now (reset_window t a)" if t: "suspect_at addr u now a" "u \<le> t" "t \<le> now" for t
  proof -
    obtain st where st: "(addr, st) \<in> set (ag_src a)" "u \<le> ss_last st" "ss_last st \<le> now"
      using t(1) by (auto simp: suspect_at_def)
    have "time_sub t (ss_last st) \<le> ao_SuspectWindow (ag_opts a)"
      using st t assms(5) by (intro time_sub_le) auto
    then show ?thesis
      using st by (auto simp: suspect_at_def reset_window_def image_iff intro!: exI bexI [of _ "(addr, st)"])
  qed
  have size: "length (ag_src (reset_window t a)) \<le> Suc (length (ag_src a))" for t
    by (auto simp: reset_window_def intro: le_SucI)
  show ?thesis
  proof (cases c)
    case (Observe_call t line)
    define b where "b = (if ag_start a = 0 then a\<lparr>ag_start := t\<rparr> else a)"
    have b: "ag_src b = ag_src a" "ag_opts b = ag_opts a" "suspect_at addr u now b = suspect_at addr u now a"
      by (simp_all add: b_def suspect_at_def)
    show ?thesis
    proof (cases "ParseFailure ip_canon line")
      case None
      then have "suspect_at addr u now a" using assms(6) Observe_call by auto
      moreover have "ag_src (ssh_step ip_canon a c) = ag_src a"
        using None Observe_call b recordLogin_keeps [of ip_canon t _ b]
        by (auto simp: ssh_Observe_def b_def [symmetric] split: option.splits prod.splits)
      ultimately show ?thesis by (simp add: suspect_at_def)
    next
      case (Some ev)
      then have "suspect_at addr u now b \<or> fe_Address ev = addr" using assms(6) Observe_call b by auto
      then show ?thesis
        using fail [OF b(1,2), of ev t] assms(3,4) Some Observe_call by (simp add: ssh_Observe_def b_def [symmetric])
    qed
  next
    case (Roll_call t)
    then have "suspect_at addr u now a" using assms(6) by auto
    then show ?thesis
      using reset [of t] size [of t] assms(3,4) Roll_call by (simp add: ssh_Roll_cases) (simp add: suspect_at_def)
  qed
qed

lemma suspect_run:
  assumes "agg_ok a h" "int (length (ag_src a) + length cs) \<le> ao_MaxSources (ag_opts a)"
    and "list_all (\<lambda>c. u \<le> call_time c \<and> call_time c \<le> now) cs" "now - u \<le> ao_SuspectWindow (ag_opts a)"
    and "suspect_at addr u now a"
  shows "suspect_at addr u now (foldl (ssh_step ip_canon) a cs)"
  using assms
proof (induction cs arbitrary: a h)
  case (Cons c cs)
  have a: "table_ok a" using Cons.prems(1) by (simp add: agg_ok_def)
  have "suspect_at addr u now (ssh_step ip_canon a c) \<and> length (ag_src (ssh_step ip_canon a c)) \<le> Suc (length (ag_src a))"
    by (rule suspect_step [OF a]) (use Cons.prems in simp_all)
  then show ?case
    using Cons.IH [OF agg_ok_step [OF Cons.prems(1)]] Cons.prems by (simp add: step_opts)
qed simp

section \<open>Properties\<close>

text \<open>
  C30. A report says exactly what happened. When a window in which an attempt was rejected closes, a report
  is sent; its totals are the numbers of rejected attempts and of unknown accounts among the lines
  observed since the last one, it never names fewer sources than there were, and when nothing had to be
  dropped the number of sources and the ranking are those computed from the full list of attempts,
  whatever the order in which the maps are walked.
\<close>

theorem pressure_report_exact:
  assumes "a = ssh_run ip_canon opt cs" "h = window_events ip_canon (NewAggregator opt) [] cs"
    and "closes now a" "h \<noteq> []"
  shows "\<exists>w. fst (ssh_Roll now a) = Some w \<and> pw_Failures w = length h \<and> pw_InvalidUser w = length (filter fe_Invalid h)
           \<and> card (fe_Address ` set h) \<le> pw_Sources w
           \<and> (pw_SourcesDropped w = 0 \<longrightarrow>
                pw_Sources w = card (fe_Address ` set h)
                \<and> pw_TopSources w = take (nat (ao_MaxTopSources (withDefaults opt))) (plain_ranking h))"
proof -
  have ok: "table_ok a" "count_ok a h" using run_ok [of ip_canon opt cs] assms(1,2) by (simp_all add: agg_ok_def)
  have opts: "ag_opts a = withDefaults opt" using assms(1) by (simp add: ssh_run_def run_opts NewAggregator_def)
  have "fst (ssh_Roll now a) = Some (summarize now a)"
    using assms(3,4) ok(2) by (simp add: ssh_Roll_cases count_ok_def summarize_def)
  moreover have "pw_TopSources (summarize now a) = take (nat (ao_MaxTopSources (withDefaults opt))) (plain_ranking h)"
    if "ag_dropped a = 0"
    using ranking_plain [of a h] ok that by (simp add: summarize_def opts table_ok_def count_ok_def)
  ultimately show ?thesis using ok(2) by (auto simp: count_ok_def) (auto simp: summarize_def)
qed

theorem pressure_report_exact_witness:
  "\<exists>w. fst (ssh_Roll 600000000001 (ssh_run Some \<lparr>ao_Window = 0, ao_SuspectWindow = 0, ao_MaxSources = 0, ao_MaxTopSources = 0, ao_MaxSuspects = 0\<rparr>
           [Observe_call 1 ''Invalid user a from ::1 port 1''])) = Some w \<and> pw_Failures w = 1"
proof -
  let ?opt = "\<lparr>ao_Window = 0, ao_SuspectWindow = 0, ao_MaxSources = 0, ao_MaxTopSources = 0, ao_MaxSuspects = 0\<rparr>"
  let ?cs = "[Observe_call 1 ''Invalid user a from ::1 port 1'']"
  have "closes 600000000001 (ssh_run Some ?opt ?cs)" by code_simp
  moreover have "length (window_events Some (NewAggregator ?opt) [] ?cs) = 1" by code_simp
  ultimately show ?thesis
    using pressure_report_exact [OF refl refl, of 600000000001 Some ?opt ?cs] by fastforce
qed

text \<open>
  Memory is bounded whatever is thrown at the node: in every run at most \<open>MaxSources\<close> sources and
  \<open>MaxSuspects\<close> suspects are held, every number with a positive default, and a report lists at most
  \<open>MaxTopSources\<close> and \<open>MaxSuspects\<close> of them.
\<close>

theorem pressure_memory_bounded:
  "int (length (ag_src (ssh_run ip_canon opt cs))) \<le> ao_MaxSources (withDefaults opt)
   \<and> int (length (ag_suspects (ssh_run ip_canon opt cs))) \<le> ao_MaxSuspects (withDefaults opt)
   \<and> (case fst (ssh_Roll now (ssh_run ip_canon opt cs)) of
        None \<Rightarrow> True
      | Some w \<Rightarrow> int (length (pw_TopSources w)) \<le> ao_MaxTopSources (withDefaults opt)
                  \<and> int (length (pw_SuspectSuccess w)) \<le> ao_MaxSuspects (withDefaults opt))"
proof -
  let ?a = "ssh_run ip_canon opt cs"
  have opts: "ag_opts ?a = withDefaults opt" by (simp add: ssh_run_def run_opts NewAggregator_def)
  have ok: "int (length (ag_src ?a)) \<le> ao_MaxSources (withDefaults opt)"
    "int (length (ag_suspects ?a)) \<le> ao_MaxSuspects (withDefaults opt)"
    using run_ok [of ip_canon opt cs] by (simp_all add: agg_ok_def table_ok_def opts)
  have "0 < ao_MaxTopSources (withDefaults opt)" by (simp add: withDefaults_def defaultMaxTopSources_def)
  then show ?thesis
    using ok by (auto simp: ssh_Roll_cases summarize_def Let_def opts split: option.splits if_splits)
qed

text \<open>
  The login that matters is not missed. When an attempt from an address is rejected, then any calls are
  made that cannot overflow the table, the closing of windows included, and within the suspect window a
  login from that address is accepted, the login is reported with a positive number of earlier failures.
\<close>

theorem suspect_success_not_missed:
  assumes "a = ssh_run ip_canon opt cs" "ParseFailure ip_canon line = Some ev"
    and "int (length (ag_src a) + 1 + length cs') \<le> ao_MaxSources (withDefaults opt)"
    and "list_all (\<lambda>c. u \<le> call_time c \<and> call_time c \<le> now) cs'" "u \<le> now" "now - u \<le> ao_SuspectWindow (withDefaults opt)"
    and "ParseFailure ip_canon line' = None" "ssh_Parse line' = Some lev"
    and "canonicalAddr ip_canon (le_Address lev) = fe_Address ev"
  shows "\<exists>out. fst (ssh_Observe ip_canon now line' (foldl (ssh_step ip_canon) a (Observe_call u line # cs'))) = Some out
           \<and> lg_Event out = lev \<and> 0 < lg_PriorFailures out"
proof -
  have opts: "ag_opts a = withDefaults opt" using assms(1) by (simp add: ssh_run_def run_opts NewAggregator_def)
  obtain h where ok: "agg_ok a h" using run_ok assms(1) by blast
  let ?a1 = "ssh_step ip_canon a (Observe_call u line)" and ?h1 = "window_step ip_canon a h (Observe_call u line)"
  let ?b = "foldl (ssh_step ip_canon) ?a1 cs'"
  have opts1: "ag_opts ?a1 = withDefaults opt" by (simp only: step_opts opts)
  have ok1: "agg_ok ?a1 ?h1" by (rule agg_ok_step [OF ok])
  have t: "table_ok a" using ok by (simp add: agg_ok_def)
  have first: "suspect_at (fe_Address ev) u now ?a1 \<and> length (ag_src ?a1) \<le> Suc (length (ag_src a))"
    by (rule suspect_step [OF t]) (use assms opts in simp_all)
  have sus: "suspect_at (fe_Address ev) u now ?b"
    by (rule suspect_run [OF ok1]) (use assms first opts1 in \<open>simp_all del: ssh_step.simps\<close>)
  have table: "table_ok ?b" using agg_ok_run [OF ok1, of ip_canon cs'] by (simp add: agg_ok_def)
  obtain st where st: "map_of (ag_src ?b) (fe_Address ev) = Some st" "u \<le> ss_last st" "0 < ss_priorFailures st"
    using sus table by (auto simp: suspect_at_def table_ok_def list_all_iff)
  have "time_sub now (ss_last st) \<le> ao_SuspectWindow (ag_opts ?b)"
    using st assms(5,6) by (intro time_sub_le) (auto simp: run_opts opts1 simp del: ssh_step.simps)
  then show ?thesis
    using st assms(7-9) by (auto simp: ssh_Observe_def recordLogin_def Let_def split: prod.splits)
qed

theorem suspect_success_not_missed_witness:
  "\<exists>out. fst (ssh_Observe Some 3 ''Accepted password for root from ::1 port 9 ssh2''
      (foldl (ssh_step Some)
        (ssh_run Some \<lparr>ao_Window = 0, ao_SuspectWindow = 0, ao_MaxSources = 0, ao_MaxTopSources = 0, ao_MaxSuspects = 0\<rparr> [])
        [Observe_call 1 ''Invalid user a from ::1 port 1'', Roll_call 2])) = Some out
     \<and> lg_Event out = \<lparr>le_User = ''root'', le_Address = ''::1'', le_Method = ''password''\<rparr> \<and> 0 < lg_PriorFailures out"
  by (rule suspect_success_not_missed [OF refl, where
        ev = "\<lparr>fe_User = ''a'', fe_Address = ''::1'', fe_Method = [], fe_Invalid = True, fe_Aborted = False\<rparr>"];
      code_simp)

text \<open>
  The number of sources is too large when a source that was dropped fails again: here two addresses
  take turns in a table of one entry, and the window reports four sources.
\<close>

theorem sources_overcounted:
  "map_option pw_Sources (fst (ssh_Roll 5
     (ssh_run Some \<lparr>ao_Window = 1, ao_SuspectWindow = 0, ao_MaxSources = 1, ao_MaxTopSources = 0, ao_MaxSuspects = 0\<rparr>
       [Observe_call 1 ''Invalid user a from ::1 port 1'', Observe_call 2 ''Invalid user a from ::2 port 1'',
        Observe_call 3 ''Invalid user a from ::1 port 1'', Observe_call 4 ''Invalid user a from ::2 port 1'']))) = Some 4"
  by code_simp

end
