(* ===== verification/Linechain_Patch.thy ===== *)
theory Linechain_Patch
  imports Go_Path "HOL-Library.AList"
begin

text \<open>
  The documents of a line chain (\<open>src/internal/linechain/sidecar_patch.go\<close> and the digest helpers of
  \<open>manager.go\<close>).

  A JSON object is the list of its fields with their raw texts; reading and writing JSON and SHA-256 in
  hexadecimal are the fields of \<open>lc_json\<close>, an argument of the definitions. Of the text of an error, what Go's
  library adds and quoted values are left out.
\<close>

section \<open>Definitions\<close>

definition semanticSidecarMetadataSchema :: string where
  "semanticSidecarMetadataSchema = ''lattice.singbox-metadata.v2''"
definition semanticSidecarPatchSchema :: string where
  "semanticSidecarPatchSchema = ''lattice.singbox-linechain-sidecar-patch.v1''"
definition semanticArtifactSchema :: string where
  "semanticArtifactSchema = ''lattice.singbox-linechain-artifact.v2''"

record sidecar_patch =
  sc_Schema :: string
  sc_SourceLineUUID :: string
  sc_SourceInboundTag :: string
  sc_ExpectedDownstreamLineUUID :: "string option"
  sc_DesiredDownstreamLineUUID :: "string option"

record artifact_binding =
  ab_Schema :: string
  ab_Operation :: string
  ab_FragmentBasename :: string
  ab_PreviousFragmentSHA256 :: "string option"
  ab_FragmentSHA256 :: "string option"
  ab_SidecarPatchSHA256 :: string

type_synonym json_fields = "(string \<times> string) list"

text \<open>
  Go's \<open>encoding/json\<close>: \<open>js_fields\<close> reads one object without repeated names and nothing after it,
  \<open>js_array\<close> an array that is not null, \<open>js_string\<close> a string; the others write.
\<close>

record lc_json =
  js_sha256 :: "string \<Rightarrow> string"
  js_fields :: "string \<Rightarrow> json_fields option"
  js_array :: "string \<Rightarrow> string list option"
  js_string :: "string \<Rightarrow> string option"
  js_put_fields :: "json_fields \<Rightarrow> string option"
  js_put_array :: "string list \<Rightarrow> string option"
  js_patch :: "string \<Rightarrow> sidecar_patch option"
  js_put_patch :: "sidecar_patch \<Rightarrow> string option"
  js_put_binding :: "artifact_binding \<Rightarrow> string option"

definition lower_hex :: "char \<Rightarrow> bool" where
  "lower_hex c \<longleftrightarrow> is_digit c \<or> c \<in> set ''abcdef''"

definition validSHA :: "string \<Rightarrow> bool" where
  "validSHA s \<longleftrightarrow> length s = 64 \<and> list_all lower_hex s"

definition lc_digest :: "lc_json \<Rightarrow> string \<Rightarrow> string" where
  "lc_digest js b = js_sha256 js b"

definition digest_ptr :: "lc_json \<Rightarrow> string option \<Rightarrow> string" where
  "digest_ptr js s = (case s of None \<Rightarrow> [] | Some b \<Rightarrow> lc_digest js b)"

text \<open>A shape: \<open>x\<close> a hexadecimal digit, \<open>y\<close> one of \<open>89ab\<close>, others themselves.\<close>

fun hex_shape :: "string \<Rightarrow> string \<Rightarrow> bool" where
  "hex_shape [] s \<longleftrightarrow> s = []"
| "hex_shape (p # ps) [] \<longleftrightarrow> False"
| "hex_shape (p # ps) (c # s) \<longleftrightarrow>
     (if p = CHR ''x'' then lower_hex c else if p = CHR ''y'' then c \<in> set ''89ab'' else c = p) \<and> hex_shape ps s"

definition lowercaseUUIDv4RE :: "string \<Rightarrow> bool" where
  "lowercaseUUIDv4RE s \<longleftrightarrow> hex_shape ''xxxxxxxx-xxxx-4xxx-yxxx-xxxxxxxxxxxx'' s"

definition linechainBasenameRE :: "string \<Rightarrow> bool" where
  "linechainBasenameRE s \<longleftrightarrow>
     (case cut_prefix s ''lattice-linechain-'' of
        None \<Rightarrow> False
      | Some rest \<Rightarrow>
          length rest = 25 \<and> list_all lower_hex (take 20 rest) \<and> drop 20 rest = ''.json'')"

definition decodeJSONObject :: "lc_json \<Rightarrow> string \<Rightarrow> string + json_fields" where
  "decodeJSONObject js raw =
     (if trim_space raw = [] \<or> trim_space raw = ''null'' then Inl ''must be a non-null object''
      else case js_fields js raw of None \<Rightarrow> Inl ''must be an object'' | Some fs \<Rightarrow> Inr fs)"

definition nullable_uuid :: "string option \<Rightarrow> bool" where
  "nullable_uuid v \<longleftrightarrow> (case v of None \<Rightarrow> True | Some s \<Rightarrow> lowercaseUUIDv4RE s)"

definition patchFields :: "string list" where
  "patchFields = [''schema'', ''source_line_uuid'', ''source_inbound_tag'', ''expected_downstream_line_uuid'',
     ''desired_downstream_line_uuid'']"

definition canonicalSemanticSidecarPatch :: "lc_json \<Rightarrow> string \<Rightarrow> string + sidecar_patch \<times> string" where
  "canonicalSemanticSidecarPatch js raw =
     (case decodeJSONObject js raw of
        Inl e \<Rightarrow> Inl (''decode semantic sidecar patch: '' @ e)
      | Inr fs \<Rightarrow>
      (case List.find (\<lambda>name. map_of fs name = None) patchFields of
        Some name \<Rightarrow> Inl (''semantic sidecar patch field '' @ name @ '' must be present'')
      | None \<Rightarrow>
          (if length fs \<noteq> 5 then Inl ''semantic sidecar patch has unknown fields''
           else case js_patch js raw of
             None \<Rightarrow> Inl ''decode semantic sidecar patch''
           | Some patch \<Rightarrow>
               (if sc_Schema patch \<noteq> semanticSidecarPatchSchema \<or> \<not> lowercaseUUIDv4RE (sc_SourceLineUUID patch)
                   \<or> trim_space (sc_SourceInboundTag patch) = []
                   \<or> sc_SourceInboundTag patch \<noteq> trim_space (sc_SourceInboundTag patch)
                then Inl ''semantic sidecar patch identity is invalid''
                else if \<not> nullable_uuid (sc_ExpectedDownstreamLineUUID patch)
                   \<or> \<not> nullable_uuid (sc_DesiredDownstreamLineUUID patch)
                then Inl ''semantic sidecar downstream identity is invalid''
                else case js_put_patch js patch of
                  None \<Rightarrow> Inl ''encode semantic sidecar patch''
                | Some canonical \<Rightarrow>
                    (if raw \<noteq> canonical then Inl ''semantic sidecar patch is not canonical''
                     else Inr (patch, canonical))))))"

definition fragment_shape :: "artifact_binding \<Rightarrow> bool" where
  "fragment_shape b \<longleftrightarrow>
     ab_Operation b = ''create'' \<and> ab_PreviousFragmentSHA256 b = None \<and> ab_FragmentSHA256 b \<noteq> None
     \<or> ab_Operation b = ''replace'' \<and> ab_PreviousFragmentSHA256 b \<noteq> None \<and> ab_FragmentSHA256 b \<noteq> None
     \<or> ab_Operation b = ''remove'' \<and> ab_PreviousFragmentSHA256 b \<noteq> None \<and> ab_FragmentSHA256 b = None"

definition nullable_sha :: "string option \<Rightarrow> bool" where
  "nullable_sha v \<longleftrightarrow> (case v of None \<Rightarrow> True | Some s \<Rightarrow> validSHA s)"

definition canonicalSemanticArtifactBinding :: "lc_json \<Rightarrow> artifact_binding \<Rightarrow> string option" where
  "canonicalSemanticArtifactBinding js b =
     (if ab_Schema b \<noteq> semanticArtifactSchema \<or> \<not> linechainBasenameRE (ab_FragmentBasename b)
         \<or> \<not> validSHA (ab_SidecarPatchSHA256 b) then None
      else if \<not> fragment_shape b then None
      else if \<not> nullable_sha (ab_PreviousFragmentSHA256 b) \<or> \<not> nullable_sha (ab_FragmentSHA256 b) then None
      else js_put_binding js b)"

definition verifySemanticArtifactBinding ::
  "lc_json \<Rightarrow> string option \<Rightarrow> string \<Rightarrow> artifact_binding \<Rightarrow> string \<Rightarrow> string option" where
  "verifySemanticArtifactBinding js fragment patch b issued =
     (if ab_FragmentSHA256 b = None \<and> fragment \<noteq> None then Some ''semantic artifact fragment output must be absent''
      else if ab_FragmentSHA256 b \<noteq> None \<and> map_option (lc_digest js) fragment \<noteq> ab_FragmentSHA256 b
      then Some ''semantic artifact fragment digest binding mismatch''
      else if lc_digest js patch \<noteq> ab_SidecarPatchSHA256 b
      then Some ''semantic artifact sidecar patch digest binding mismatch''
      else case canonicalSemanticArtifactBinding js b of
        None \<Rightarrow> Some ''semantic artifact binding is invalid''
      | Some canonical \<Rightarrow>
          (if \<not> validSHA issued \<or> lc_digest js canonical \<noteq> issued
           then Some ''semantic artifact digest binding mismatch'' else None))"

subsection \<open>Merging a patch into the sidecar\<close>

definition field_string :: "lc_json \<Rightarrow> json_fields \<Rightarrow> string \<Rightarrow> string option" where
  "field_string js fs name = (case map_of fs name of None \<Rightarrow> None | Some raw \<Rightarrow> js_string js raw)"

definition semanticInboundIdentity :: "lc_json \<Rightarrow> string \<Rightarrow> string + string \<times> string" where
  "semanticInboundIdentity js raw =
     (case decodeJSONObject js raw of
        Inl e \<Rightarrow> Inl e
      | Inr value \<Rightarrow>
      (case field_string js value ''line_uuid'' of
        None \<Rightarrow> Inl ''line_uuid must be a lowercase UUIDv4 string''
      | Some uuid \<Rightarrow>
          (if \<not> lowercaseUUIDv4RE uuid then Inl ''line_uuid must be a lowercase UUIDv4 string''
           else case field_string js value ''tag'' of
             None \<Rightarrow> Inl ''tag must be a non-empty canonical string''
           | Some tag \<Rightarrow>
               (if trim_space tag = [] \<or> tag \<noteq> trim_space tag
                then Inl ''tag must be a non-empty canonical string'' else Inr (uuid, tag)))))"

definition currentDownstreamIdentity :: "lc_json \<Rightarrow> json_fields \<Rightarrow> string + string option" where
  "currentDownstreamIdentity js inbound =
     (case map_of inbound ''chain'' of
        None \<Rightarrow> Inr None
      | Some raw \<Rightarrow>
      (case decodeJSONObject js raw of
        Inl e \<Rightarrow> Inl (''current semantic sidecar chain: '' @ e)
      | Inr chain \<Rightarrow>
      (case map_of chain ''downstream_line_uuid'' of
        None \<Rightarrow> Inl ''current semantic sidecar chain downstream_line_uuid must be present''
      | Some rawDownstream \<Rightarrow>
          (if trim_space rawDownstream = ''null'' then Inr None
           else case js_string js rawDownstream of
             None \<Rightarrow> Inl ''current semantic sidecar downstream_line_uuid is invalid''
           | Some value \<Rightarrow>
               (if lowercaseUUIDv4RE value then Inr (Some value)
                else Inl ''current semantic sidecar downstream_line_uuid is invalid'')))))"

definition validateSemanticSidecarTop :: "lc_json \<Rightarrow> json_fields \<Rightarrow> string option" where
  "validateSemanticSidecarTop js doc =
     (if field_string js doc ''schema'' \<noteq> Some semanticSidecarMetadataSchema then Some ''unsupported schema''
      else case map_of doc ''inbounds'' of
        None \<Rightarrow> Some ''inbounds must be an array''
      | Some raw \<Rightarrow> (if js_array js raw = None then Some ''inbounds must be an array'' else None))"

text \<open>The search for the inbound the patch names; \<open>i\<close> is the index of the first of \<open>raws\<close>.\<close>

fun find_inbound :: "lc_json \<Rightarrow> sidecar_patch \<Rightarrow> nat \<Rightarrow> string list \<Rightarrow> string list \<Rightarrow> nat option \<Rightarrow> string list
    \<Rightarrow> string + nat option" where
  "find_inbound js patch i uuids tags found [] = Inr found"
| "find_inbound js patch i uuids tags found (raw # raws) =
     (case semanticInboundIdentity js raw of
        Inl e \<Rightarrow> Inl (''current semantic sidecar inbound '' @ show_nat i @ '': '' @ e)
      | Inr (uuid, tag) \<Rightarrow>
          (if uuid \<in> set uuids then Inl ''current semantic sidecar has duplicate line_uuid''
           else if tag \<in> set tags then Inl ''current semantic sidecar has duplicate tag''
           else if uuid = sc_SourceLineUUID patch \<or> tag = sc_SourceInboundTag patch then
             (if uuid \<noteq> sc_SourceLineUUID patch \<or> tag \<noteq> sc_SourceInboundTag patch \<or> found \<noteq> None
              then Inl ''current semantic sidecar source identity is ambiguous''
              else find_inbound js patch (i + 1) (uuid # uuids) (tag # tags) (Some i) raws)
           else find_inbound js patch (i + 1) (uuid # uuids) (tag # tags) found raws))"

text \<open>What \<open>json.Marshal\<close> makes of the chain; an identifier needs no escapes.\<close>

definition chain_text :: "string \<Rightarrow> string" where
  "chain_text uuid =
     [CHR ''{'', CHR 0x22] @ ''downstream_line_uuid'' @ [CHR 0x22, CHR '':'', CHR 0x22] @ uuid @ [CHR 0x22, CHR ''}'']"

definition set_chain :: "sidecar_patch \<Rightarrow> json_fields \<Rightarrow> json_fields" where
  "set_chain patch inbound =
     (case sc_DesiredDownstreamLineUUID patch of
        None \<Rightarrow> AList.delete ''chain'' inbound
      | Some uuid \<Rightarrow> AList.update ''chain'' (chain_text uuid) inbound)"

definition put_inbound :: "lc_json \<Rightarrow> json_fields \<Rightarrow> string list \<Rightarrow> nat \<Rightarrow> json_fields \<Rightarrow> string option" where
  "put_inbound js doc inbounds i inbound =
     (case js_put_fields js inbound of
        None \<Rightarrow> None
      | Some encodedInbound \<Rightarrow>
      (case js_put_array js (inbounds[i := encodedInbound]) of
        None \<Rightarrow> None
      | Some encodedInbounds \<Rightarrow>
          map_option (\<lambda>out. out @ [CHR 0x0A]) (js_put_fields js (AList.update ''inbounds'' encodedInbounds doc))))"

definition inbounds_of :: "lc_json \<Rightarrow> json_fields \<Rightarrow> string list" where
  "inbounds_of js doc =
     (case map_of doc ''inbounds'' of
        None \<Rightarrow> []
      | Some raw \<Rightarrow> (case js_array js raw of None \<Rightarrow> [] | Some l \<Rightarrow> l))"

definition mergeManagedSidecar :: "lc_json \<Rightarrow> string \<Rightarrow> sidecar_patch \<Rightarrow> string + string" where
  "mergeManagedSidecar js current patch =
     (case decodeJSONObject js current of
        Inl e \<Rightarrow> Inl (''decode current semantic sidecar: '' @ e)
      | Inr doc \<Rightarrow>
      (case validateSemanticSidecarTop js doc of
        Some e \<Rightarrow> Inl (''current semantic sidecar: '' @ e)
      | None \<Rightarrow>
      (case find_inbound js patch 0 [] [] None (inbounds_of js doc) of
        Inl e \<Rightarrow> Inl e
      | Inr None \<Rightarrow> Inl ''current semantic sidecar source identity is missing''
      | Inr (Some i) \<Rightarrow>
      (case decodeJSONObject js (inbounds_of js doc ! i) of
        Inl e \<Rightarrow> Inl e
      | Inr inbound \<Rightarrow>
      (case currentDownstreamIdentity js inbound of
        Inl e \<Rightarrow> Inl e
      | Inr downstream \<Rightarrow>
          (if downstream \<noteq> sc_ExpectedDownstreamLineUUID patch
           then Inl ''current semantic sidecar downstream identity changed''
           else case put_inbound js doc (inbounds_of js doc) i (set_chain patch inbound) of
             None \<Rightarrow> Inl ''encode semantic sidecar''
           | Some out \<Rightarrow> Inr out))))))"

section \<open>Lemmas\<close>

lemma find_inbound_index:
  assumes "find_inbound js patch i uuids tags found raws = Inr (Some k)"
  shows "found = Some k \<or> i \<le> k \<and> k < i + length raws \<and>
      semanticInboundIdentity js (raws ! (k - i)) = Inr (sc_SourceLineUUID patch, sc_SourceInboundTag patch)"
  using assms
proof (induction js patch i uuids tags found raws rule: find_inbound.induct)
  case (2 js patch i uuids tags found raw raws)
  then obtain uuid tag where id: "semanticInboundIdentity js raw = Inr (uuid, tag)"
    by (auto split: sum.splits)
  show ?case
  proof (cases "uuid = sc_SourceLineUUID patch \<or> tag = sc_SourceInboundTag patch")
    case True
    then show ?thesis using 2 id by (auto split: if_splits simp: nth_Cons')
  next
    case False
    then show ?thesis using 2 id by (auto split: if_splits simp: nth_Cons')
  qed
qed simp

lemma find_inbound_found: "find_inbound js patch i uuids tags (Some f) raws = Inr r \<Longrightarrow> r = Some f"
  by (induction js patch i uuids tags "Some f" raws rule: find_inbound.induct) (auto split: sum.splits if_splits)

lemma find_inbound_others:
  assumes "find_inbound js patch i uuids tags found raws = Inr (Some k)" "j < length raws"
  shows "\<exists>uuid tag. semanticInboundIdentity js (raws ! j) = Inr (uuid, tag) \<and>
      (i + j \<noteq> k \<longrightarrow> uuid \<noteq> sc_SourceLineUUID patch \<and> tag \<noteq> sc_SourceInboundTag patch)"
  using assms
proof (induction js patch i uuids tags found raws arbitrary: j rule: find_inbound.induct)
  case (2 js patch i uuids tags found raw raws)
  then obtain uuid tag where id: "semanticInboundIdentity js raw = Inr (uuid, tag)"
    by (auto split: sum.splits)
  let ?src = "uuid = sc_SourceLineUUID patch \<or> tag = sc_SourceInboundTag patch"
  have i: "k = i" if ?src
    using 2(3) id that by (auto split: if_splits dest: find_inbound_found)
  show ?case
  proof (cases j)
    case 0
    then show ?thesis using id i by auto
  next
    case (Suc j')
    then show ?thesis using 2 id by (auto split: if_splits)
  qed
qed simp

section \<open>Properties\<close>


definition demo_uuid :: string where "demo_uuid = ''00000000-0000-4000-8000-000000000001''"

text \<open>A codec that knows the texts of one small document.\<close>

definition demo_json :: lc_json where
  "demo_json =
     \<lparr>js_sha256 = (\<lambda>s. s),
      js_fields = (\<lambda>s. if s = ''D'' then Some [(''schema'', ''S''), (''inbounds'', ''I'')]
        else if s = ''i'' then Some [(''line_uuid'', ''U''), (''tag'', ''T'')] else None),
      js_array = (\<lambda>s. if s = ''I'' then Some [''i''] else None),
      js_string = (\<lambda>s. if s = ''S'' then Some semanticSidecarMetadataSchema else if s = ''U'' then Some demo_uuid
        else if s = ''T'' then Some ''in'' else None),
      js_put_fields = (\<lambda>fs. Some (concat (map snd fs))),
      js_put_array = (\<lambda>l. Some (concat l)),
      js_patch = (\<lambda>_. None), js_put_patch = (\<lambda>_. None), js_put_binding = (\<lambda>_. None)\<rparr>"

definition demo_patch :: sidecar_patch where
  "demo_patch = \<lparr>sc_Schema = semanticSidecarPatchSchema, sc_SourceLineUUID = demo_uuid, sc_SourceInboundTag = ''in'',
     sc_ExpectedDownstreamLineUUID = None, sc_DesiredDownstreamLineUUID = Some demo_uuid\<rparr>"


end
