(* ===== verification/Linechain.thy ===== *)
theory Linechain
  imports Linechain_Patch Task_Outbox
begin

text \<open>
  The transaction that publishes the two files of a line chain (\<open>src/internal/linechain/manager.go\<close>).

  The node is a list of paths, each with the contents a crash may leave there: the first is what a
  process sees, a successful write leaves one, and a write that fails after the rename leaves the new
  content before the old ones. What the system answers to each call is a list in the state: the call is
  \<open>Done\<close>, it fails before or after its effect, or the process dies before or after it. So a crash may
  come at every call. A sync is credited only to the path it was made for, and a file that is not a
  trusted one is a read that fails.

  An operation is a function from the state to an error or a value and the new state. The encoding of a
  journal is a parameter (\<open>le_marshal\<close>, \<open>le_decode\<close>); the texts of errors are kept where the code has fixed
  ones, without what they wrap.
\<close>

section \<open>Definitions\<close>

subsection \<open>Files and calls that fail\<close>

datatype lc_answer = Done | NotDone | Unsynced | Dies | DiesAfter

datatype lc_error = Crash | NotFound | Fault string

record lc_world =
  lw_files :: "(string \<times> string option list) list"
  lw_io :: "lc_answer list"

type_synonym 'a lc = "lc_world \<Rightarrow> (lc_error + 'a) \<times> lc_world"

definition lc_ret :: "'a \<Rightarrow> 'a lc" where
  "lc_ret x = (\<lambda>w. (Inr x, w))"

definition lc_fail :: "lc_error \<Rightarrow> 'a lc" where
  "lc_fail e = (\<lambda>w. (Inl e, w))"

definition lc_bind :: "'a lc \<Rightarrow> ('a \<Rightarrow> 'b lc) \<Rightarrow> 'b lc" where
  "lc_bind m f = (\<lambda>w. case m w of (Inl e, w') \<Rightarrow> (Inl e, w') | (Inr x, w') \<Rightarrow> f x w')"

text \<open>The error of a call as a value; a crash is not one.\<close>

definition lc_attempt :: "'a lc \<Rightarrow> (lc_error + 'a) lc" where
  "lc_attempt m = (\<lambda>w. case m w of
     (Inl e, w') \<Rightarrow> (if e = Crash then (Inl Crash, w') else (Inr (Inl e), w'))
   | (Inr x, w') \<Rightarrow> (Inr (Inr x), w'))"

definition lc_ask :: "lc_answer lc" where
  "lc_ask = (\<lambda>w. case lw_io w of [] \<Rightarrow> (Inr Dies, w) | a # as \<Rightarrow> (Inr a, w\<lparr>lw_io := as\<rparr>))"

definition poss :: "lc_world \<Rightarrow> string \<Rightarrow> string option list" where
  "poss w p = (case map_of (lw_files w) p of None \<Rightarrow> [None] | Some l \<Rightarrow> l)"

definition seen_at :: "lc_world \<Rightarrow> string \<Rightarrow> string option" where
  "seen_at w p = hd (poss w p)"

definition set_poss :: "string \<Rightarrow> string option list \<Rightarrow> unit lc" where
  "set_poss p l = (\<lambda>w. (Inr (), w\<lparr>lw_files := AList.update p l (lw_files w)\<rparr>))"

text \<open>A call that changes nothing.\<close>

definition lc_call :: "unit lc" where
  "lc_call = lc_bind lc_ask (\<lambda>a. case a of
     Done \<Rightarrow> lc_ret () | NotDone \<Rightarrow> lc_fail (Fault ''failed'') | Unsynced \<Rightarrow> lc_fail (Fault ''failed'')
   | Dies \<Rightarrow> lc_fail Crash | DiesAfter \<Rightarrow> lc_fail Crash)"

text \<open>Replacing the content of a path and making that durable.\<close>

definition lc_replace :: "string \<Rightarrow> string option \<Rightarrow> unit lc" where
  "lc_replace p c = lc_bind lc_ask (\<lambda>a. case a of
     Done \<Rightarrow> set_poss p [c]
   | NotDone \<Rightarrow> lc_fail (Fault ''failed'')
   | Unsynced \<Rightarrow> (\<lambda>w. lc_bind (set_poss p (c # poss w p)) (\<lambda>_. lc_fail (Fault ''not synced'')) w)
   | Dies \<Rightarrow> lc_fail Crash
   | DiesAfter \<Rightarrow> (\<lambda>w. lc_bind (set_poss p (c # poss w p)) (\<lambda>_. lc_fail Crash) w))"

definition lc_writeFile :: "string \<Rightarrow> string \<Rightarrow> unit lc" where
  "lc_writeFile p data = lc_replace p (Some data)"

definition validateParents :: "string \<Rightarrow> unit lc" where
  "validateParents p = lc_call"

definition publish :: "string \<Rightarrow> string option \<Rightarrow> unit lc" where
  "publish p content =
     lc_bind (validateParents p) (\<lambda>_. case content of None \<Rightarrow> lc_replace p None | Some s \<Rightarrow> lc_writeFile p s)"

definition writeBackup :: "string \<Rightarrow> string option \<Rightarrow> unit lc" where
  "writeBackup p data = (case data of None \<Rightarrow> lc_ret () | Some d \<Rightarrow> lc_writeFile p d)"

definition maxArtifactSize :: nat where "maxArtifactSize = 4194304"

definition readValidatedFile :: "string \<Rightarrow> string option lc" where
  "readValidatedFile p =
     lc_bind lc_call (\<lambda>_ w.
       case seen_at w p of
         None \<Rightarrow> (Inr None, w)
       | Some b \<Rightarrow> (if length b > maxArtifactSize then (Inl (Fault ''linechain file exceeds''), w) else (Inr (Some b), w)))"

subsection \<open>The journal\<close>

definition journalVersion :: int where "journalVersion = 2"

record lc_journal =
  jr_Version :: int
  jr_TaskID :: string
  jr_LeaseID :: string
  jr_FragmentPath :: string
  jr_SidecarPath :: string
  jr_FragmentOld :: string
  jr_SidecarOld :: string
  jr_ArtifactSHA256 :: string
  jr_SidecarPatchSHA256 :: string
  jr_FragmentOutputSHA256 :: string
  jr_SidecarOutputSHA256 :: string
  jr_TaskScriptSHA :: string
  jr_FragmentHadOld :: bool
  jr_SidecarHadOld :: bool
  jr_Phase :: string
  jr_Result :: "task_result option"

record lc_wire =
  wr_Version :: int
  wr_DurableProtocol :: string
  wr_Operation :: string
  wr_FragmentBasename :: string
  wr_Fragment :: "string option"
  wr_PreviousFragmentSHA256 :: "string option"
  wr_FragmentSHA256 :: "string option"
  wr_SidecarPatchSHA256 :: string
  wr_ArtifactSHA256 :: string

record lc_env =
  le_json :: lc_json
  le_wire :: "string \<Rightarrow> lc_wire option"
  le_marshal :: "lc_journal \<Rightarrow> string option"
  le_decode :: "string \<Rightarrow> lc_journal option"
  le_marshal_result :: "task_result \<Rightarrow> string option"

record lc_manager =
  mg_dir :: string
  mg_configDir :: string
  mg_sidecarPath :: string

definition Configured :: "lc_manager \<Rightarrow> bool" where
  "Configured m \<longleftrightarrow> mg_configDir m \<noteq> [] \<and> mg_sidecarPath m \<noteq> []"

definition journalPath :: "lc_env \<Rightarrow> lc_manager \<Rightarrow> string \<Rightarrow> string \<Rightarrow> string" where
  "journalPath env m taskID leaseID =
     path_join (mg_dir m) (lc_digest (le_json env) (taskID @ [CHR 0x00] @ leaseID) @ ''.json'')"

definition fragment_backup :: "string \<Rightarrow> string" where "fragment_backup jp = jp @ ''.fragment.old''"
definition sidecar_backup :: "string \<Rightarrow> string" where "sidecar_backup jp = jp @ ''.sidecar.old''"

definition writeJournal :: "lc_env \<Rightarrow> string \<Rightarrow> lc_journal \<Rightarrow> unit lc" where
  "writeJournal env jp j =
     (case le_marshal env j of None \<Rightarrow> lc_fail (Fault ''encode'') | Some b \<Rightarrow> lc_writeFile jp b)"

definition maxDocumentSize :: nat where "maxDocumentSize = 4194304"

definition readJournal :: "lc_env \<Rightarrow> string \<Rightarrow> lc_journal lc" where
  "readJournal env jp =
     lc_bind lc_call (\<lambda>_ w.
       case seen_at w jp of
         None \<Rightarrow> (Inl NotFound, w)
       | Some b \<Rightarrow>
           (if length b > maxDocumentSize then (Inl (Fault ''linechain journal exceeds''), w)
            else case le_decode env b of
              None \<Rightarrow> (Inl (Fault ''decode''), w)
            | Some j \<Rightarrow>
                (if jr_Version j \<noteq> journalVersion \<or> jr_TaskID j = [] \<or> jr_LeaseID j = []
                 then (Inl (Fault ''invalid linechain journal identity''), w) else (Inr j, w))))"

definition journalTerminal :: "string \<Rightarrow> bool" where
  "journalTerminal phase \<longleftrightarrow> phase = ''terminal_desired'' \<or> phase = ''terminal_old''"

definition validPhase :: "string \<Rightarrow> bool" where
  "validPhase phase \<longleftrightarrow>
     phase \<in> set [''prepared'', ''fragment_published'', ''pair_published'', ''desired_verified'',
       ''old_restored'', ''terminal_desired'', ''terminal_old'']"

definition result_matches :: "lc_journal \<Rightarrow> bool" where
  "result_matches j \<longleftrightarrow>
     (case jr_Result j of
        None \<Rightarrow> True
      | Some r \<Rightarrow> tr_TaskID r = jr_TaskID j \<and> tr_LeaseID r = jr_LeaseID j \<and> tr_FinishedAt r \<noteq> 0)"

definition digests_valid :: "lc_journal \<Rightarrow> bool" where
  "digests_valid j \<longleftrightarrow>
     (if jr_FragmentHadOld j then validSHA (jr_FragmentOld j) else jr_FragmentOld j = [])
     \<and> (if jr_SidecarHadOld j then validSHA (jr_SidecarOld j) else jr_SidecarOld j = [])
     \<and> (jr_FragmentOutputSHA256 j = [] \<or> validSHA (jr_FragmentOutputSHA256 j))
     \<and> validSHA (jr_SidecarOutputSHA256 j) \<and> validSHA (jr_SidecarPatchSHA256 j) \<and> validSHA (jr_ArtifactSHA256 j)
     \<and> validSHA (jr_TaskScriptSHA j)"

definition check_backup :: "lc_env \<Rightarrow> string \<Rightarrow> bool \<Rightarrow> string \<Rightarrow> unit lc" where
  "check_backup env jp had want =
     lc_bind (readValidatedFile jp) (\<lambda>data.
       if (data \<noteq> None) \<noteq> had \<or> had \<and> digest_ptr (le_json env) data \<noteq> want
       then lc_fail (Fault ''linechain journal backup shape does not match authority'') else lc_ret ())"

definition validateJournal :: "lc_env \<Rightarrow> lc_manager \<Rightarrow> string \<Rightarrow> lc_journal \<Rightarrow> unit lc" where
  "validateJournal env m jp j =
     (let fragmentName = path_base (jr_FragmentPath j); terminal = journalTerminal (jr_Phase j)
      in if \<not> Configured m then lc_fail (Fault ''linechain journal exists before runtime layout is configured'')
         else if clean_path jp \<noteq> journalPath env m (jr_TaskID j) (jr_LeaseID j)
         then lc_fail (Fault ''linechain journal filename does not match task and lease'')
         else if clean_path (jr_FragmentPath j) \<noteq> path_join (mg_configDir m) fragmentName \<or> \<not> linechainBasenameRE fragmentName
         then lc_fail (Fault ''linechain journal fragment path is outside local authority'')
         else if clean_path (jr_SidecarPath j) \<noteq> mg_sidecarPath m
         then lc_fail (Fault ''linechain journal sidecar path is outside local authority'')
         else if \<not> validPhase (jr_Phase j) then lc_fail (Fault ''linechain journal has unknown phase'')
         else if terminal \<noteq> (jr_Result j \<noteq> None)
         then lc_fail (Fault ''linechain journal phase/result shape is inconsistent'')
         else if \<not> result_matches j
         then lc_fail (Fault ''linechain journal terminal result does not match its identity'')
         else if \<not> digests_valid j then lc_fail (Fault ''linechain journal artifact digest shape is invalid'')
         else if terminal then lc_ret ()
         else lc_bind (check_backup env (fragment_backup jp) (jr_FragmentHadOld j) (jr_FragmentOld j)) (\<lambda>_.
                check_backup env (sidecar_backup jp) (jr_SidecarHadOld j) (jr_SidecarOld j)))"

subsection \<open>Restoring and verifying\<close>

text \<open>Both files are read; an error of either counts as no match.\<close>

definition pairMatches :: "lc_env \<Rightarrow> lc_journal \<Rightarrow> bool \<Rightarrow> bool lc" where
  "pairMatches env j desired =
     lc_bind (lc_attempt (readValidatedFile (jr_FragmentPath j))) (\<lambda>ra.
     lc_bind (lc_attempt (readValidatedFile (jr_SidecarPath j))) (\<lambda>rb.
       case ra of
         Inl _ \<Rightarrow> lc_ret False
       | Inr a \<Rightarrow>
           (case rb of
              Inl _ \<Rightarrow> lc_ret False
            | Inr b \<Rightarrow>
                lc_ret (if desired
                  then digest_ptr (le_json env) a = jr_FragmentOutputSHA256 j
                    \<and> digest_ptr (le_json env) b = jr_SidecarOutputSHA256 j
                  else (a \<noteq> None) = jr_FragmentHadOld j \<and> (b \<noteq> None) = jr_SidecarHadOld j
                    \<and> digest_ptr (le_json env) a = jr_FragmentOld j \<and> digest_ptr (le_json env) b = jr_SidecarOld j))))"

definition checkRestartVerify :: "unit lc" where
  "checkRestartVerify = lc_bind lc_call (\<lambda>_. lc_bind lc_call (\<lambda>_. lc_call))"

definition restore_one :: "lc_env \<Rightarrow> string \<Rightarrow> string \<Rightarrow> bool \<Rightarrow> string \<Rightarrow> unit lc" where
  "restore_one env dst backup had want =
     (if had then
        lc_bind (readValidatedFile backup) (\<lambda>data. case data of
          None \<Rightarrow> lc_fail (Fault ''required linechain backup is missing'')
        | Some d \<Rightarrow>
            (if lc_digest (le_json env) d \<noteq> want then lc_fail (Fault ''backup digest mismatch'')
             else publish dst (Some d)))
      else publish dst None)"

definition restoreOld :: "lc_env \<Rightarrow> string \<Rightarrow> lc_journal \<Rightarrow> lc_journal lc" where
  "restoreOld env jp j =
     lc_bind (restore_one env (jr_FragmentPath j) (fragment_backup jp) (jr_FragmentHadOld j) (jr_FragmentOld j)) (\<lambda>_.
     lc_bind (restore_one env (jr_SidecarPath j) (sidecar_backup jp) (jr_SidecarHadOld j) (jr_SidecarOld j)) (\<lambda>_.
     lc_bind (pairMatches env j False) (\<lambda>ok.
       if \<not> ok then lc_fail (Fault ''restored pair digest mismatch'')
       else lc_bind (writeJournal env jp (j\<lparr>jr_Phase := ''old_restored''\<rparr>)) (\<lambda>_.
              lc_ret (j\<lparr>jr_Phase := ''old_restored''\<rparr>)))))"

definition lc_rollback :: "lc_env \<Rightarrow> string \<Rightarrow> lc_journal \<Rightarrow> lc_error \<Rightarrow> 'a lc" where
  "lc_rollback env jp j cause =
     lc_bind (restoreOld env jp j) (\<lambda>_. lc_bind checkRestartVerify (\<lambda>_. lc_fail cause))"

text \<open>Restoring the old pair and verifying that the service runs with it.\<close>

definition back_to_old :: "lc_env \<Rightarrow> string \<Rightarrow> lc_journal \<Rightarrow> lc_journal lc" where
  "back_to_old env jp j =
     lc_bind (restoreOld env jp j) (\<lambda>j. lc_bind checkRestartVerify (\<lambda>_. lc_ret (j\<lparr>jr_Phase := ''terminal_old''\<rparr>)))"

subsection \<open>Recovery\<close>

record recovery_authority =
  ra_TaskScriptSHA :: string
  ra_ArtifactSHA256 :: string
  ra_Phase :: string
  ra_ResultSHA256 :: string
  ra_JournalSHA256 :: string

definition resultSHA :: "lc_env \<Rightarrow> task_result option \<Rightarrow> string" where
  "resultSHA env r =
     (case r of
        None \<Rightarrow> []
      | Some x \<Rightarrow> (case le_marshal_result env x of None \<Rightarrow> [] | Some b \<Rightarrow> lc_digest (le_json env) b))"

definition journalSHA :: "lc_env \<Rightarrow> lc_journal \<Rightarrow> string" where
  "journalSHA env j = (case le_marshal env j of None \<Rightarrow> [] | Some b \<Rightarrow> lc_digest (le_json env) b)"

definition authority_holds :: "lc_env \<Rightarrow> lc_journal \<Rightarrow> recovery_authority option \<Rightarrow> bool" where
  "authority_holds env j expected \<longleftrightarrow>
     (case expected of
        None \<Rightarrow> True
      | Some want \<Rightarrow>
          journalSHA env j = ra_JournalSHA256 want \<and> jr_TaskScriptSHA j = ra_TaskScriptSHA want
          \<and> jr_ArtifactSHA256 j = ra_ArtifactSHA256 want \<and> jr_Phase j = ra_Phase want
          \<and> resultSHA env (jr_Result j) = ra_ResultSHA256 want)"

definition recovered_result :: "lc_journal \<Rightarrow> string \<Rightarrow> gotime \<Rightarrow> int \<Rightarrow> string \<Rightarrow> task_result" where
  "recovered_result j nodeID now code err =
     \<lparr>tr_TaskID = jr_TaskID j, tr_LeaseID = jr_LeaseID j, tr_NodeID = nodeID, tr_ExitCode = code, tr_Error = err,
      tr_StartedAt = 0, tr_FinishedAt = now, tr_Rest = []\<rparr>"

text \<open>The part of \<open>recoverOne\<close> that decides a transaction without a result.\<close>

definition decide :: "lc_env \<Rightarrow> string \<Rightarrow> string \<Rightarrow> gotime \<Rightarrow> lc_journal \<Rightarrow> (lc_journal \<times> task_result) lc" where
  "decide env jp nodeID now j =
     lc_bind (if jr_Phase j = ''desired_verified'' then pairMatches env j True else lc_ret False) (\<lambda>exact.
       if exact then
         lc_bind (lc_attempt checkRestartVerify) (\<lambda>verified. case verified of
           Inr _ \<Rightarrow> lc_ret (j\<lparr>jr_Phase := ''terminal_desired''\<rparr>, recovered_result j nodeID now 0 [])
         | Inl _ \<Rightarrow>
             lc_bind (back_to_old env jp j) (\<lambda>j'. lc_ret (j', recovered_result j nodeID now (-1)
               ''recovered desired runtime verification failed; exact old pair restored and verified'')))
       else
         lc_bind (back_to_old env jp j) (\<lambda>j'. lc_ret (j', recovered_result j nodeID now (-1)
           ''linechain transaction interrupted; exact old pair restored'')))"

text \<open>Removing a file without a sync, and the sync of the directory.\<close>

definition lc_remove :: "string \<Rightarrow> unit lc" where
  "lc_remove p = lc_bind lc_ask (\<lambda>a. case a of
     Done \<Rightarrow> (\<lambda>w. set_poss p (None # poss w p) w)
   | NotDone \<Rightarrow> lc_fail (Fault ''failed'') | Unsynced \<Rightarrow> lc_fail (Fault ''failed'')
   | Dies \<Rightarrow> lc_fail Crash
   | DiesAfter \<Rightarrow> (\<lambda>w. lc_bind (set_poss p (None # poss w p)) (\<lambda>_. lc_fail Crash) w))"

definition settle_file :: "string \<Rightarrow> unit lc" where
  "settle_file p = (\<lambda>w. set_poss p [seen_at w p] w)"

definition Cleanup :: "lc_env \<Rightarrow> lc_manager \<Rightarrow> string \<Rightarrow> string \<Rightarrow> unit lc" where
  "Cleanup env m taskID leaseID =
     (let jp = journalPath env m taskID leaseID
      in lc_bind (lc_remove (fragment_backup jp)) (\<lambda>_.
         lc_bind (lc_remove (sidecar_backup jp)) (\<lambda>_.
         lc_bind (lc_remove jp) (\<lambda>_.
         lc_bind lc_call (\<lambda>_.
         lc_bind (settle_file (fragment_backup jp)) (\<lambda>_.
         lc_bind (settle_file (sidecar_backup jp)) (\<lambda>_. settle_file jp)))))))"

text \<open>
  \<open>recoverOne\<close>; \<open>complete\<close> says whether the caller has a callback for the result, which may fail, and
  \<open>script\<close> is empty when the caller does not name one.
\<close>

definition recoverOne ::
  "lc_env \<Rightarrow> lc_manager \<Rightarrow> string \<Rightarrow> bool \<Rightarrow> string \<Rightarrow> string \<Rightarrow> recovery_authority option \<Rightarrow> gotime \<Rightarrow> task_result lc" where
  "recoverOne env m jp complete nodeID script expected now =
     lc_bind (readJournal env jp) (\<lambda>j.
     lc_bind (validateJournal env m jp j) (\<lambda>_.
       if script \<noteq> [] \<and> jr_TaskScriptSHA j \<noteq> script
       then lc_fail (Fault ''linechain retry task script does not match journal authority'')
       else if \<not> authority_holds env j expected
       then lc_fail (Fault ''linechain journal changed after authority capture'')
       else
         lc_bind
           (case jr_Result j of
              Some r \<Rightarrow> lc_ret r
            | None \<Rightarrow>
                lc_bind (decide env jp nodeID now j) (\<lambda>(j', r).
                lc_bind (writeJournal env jp (j'\<lparr>jr_Result := Some r\<rparr>)) (\<lambda>_. lc_ret r)))
           (\<lambda>r. if complete
                then lc_bind lc_call (\<lambda>_. lc_bind (Cleanup env m (jr_TaskID j) (jr_LeaseID j)) (\<lambda>_. lc_ret r))
                else lc_ret r)))"

text \<open>\<open>os.ReadDir\<close> of the transaction directory: the names of its journals, in order.\<close>

definition lc_journals :: "lc_manager \<Rightarrow> lc_world \<Rightarrow> string list" where
  "lc_journals m w =
     sort (map fst (filter (\<lambda>(p, l). hd l \<noteq> None \<and> path_dir p = mg_dir m \<and> has_suffix p ''.json'') (lw_files w)))"

fun recover_journals ::
  "lc_env \<Rightarrow> lc_manager \<Rightarrow> bool \<Rightarrow> string \<Rightarrow> ((string \<times> recovery_authority) list) option \<Rightarrow> gotime \<Rightarrow> string list \<Rightarrow> unit lc" where
  "recover_journals env m complete nodeID authority now [] = lc_ret ()"
| "recover_journals env m complete nodeID authority now (jp # paths) =
     lc_bind
       (case authority of
          None \<Rightarrow> lc_ret None
        | Some au \<Rightarrow>
            lc_bind (readJournal env jp) (\<lambda>j. case map_of au (jr_TaskID j @ [CHR 0x00] @ jr_LeaseID j) of
              None \<Rightarrow> lc_fail (Fault ''linechain recovery journal is outside captured authority'')
            | Some v \<Rightarrow> lc_ret (Some v)))
       (\<lambda>expected.
         lc_bind (recoverOne env m jp complete nodeID [] expected now) (\<lambda>_.
           recover_journals env m complete nodeID authority now paths))"

definition RequireRecoveredAuthorized ::
  "lc_env \<Rightarrow> lc_manager \<Rightarrow> bool \<Rightarrow> string \<Rightarrow> ((string \<times> recovery_authority) list) option \<Rightarrow> gotime \<Rightarrow> unit lc" where
  "RequireRecoveredAuthorized env m complete nodeID authority now =
     lc_bind lc_call (\<lambda>_ w. recover_journals env m complete nodeID authority now (lc_journals m w) w)"

text \<open>What recovery checks against the outbox.\<close>

record journal_ref =
  jf_TaskID :: string
  jf_LeaseID :: string
  jf_Phase :: string
  jf_Result :: "task_result option"
  jf_Terminal :: bool
  jf_TaskScriptSHA :: string
  jf_ArtifactSHA256 :: string
  jf_JournalSHA256 :: string

definition journal_ref_of :: "lc_env \<Rightarrow> lc_journal \<Rightarrow> journal_ref" where
  "journal_ref_of env j =
     \<lparr>jf_TaskID = jr_TaskID j, jf_LeaseID = jr_LeaseID j, jf_Phase = jr_Phase j, jf_Result = jr_Result j,
      jf_Terminal = journalTerminal (jr_Phase j), jf_TaskScriptSHA = jr_TaskScriptSHA j, jf_ArtifactSHA256 = jr_ArtifactSHA256 j,
      jf_JournalSHA256 = journalSHA env j\<rparr>"

fun snapshot_journals :: "lc_env \<Rightarrow> lc_manager \<Rightarrow> journal_ref list \<Rightarrow> string list \<Rightarrow> string list \<Rightarrow> journal_ref list lc" where
  "snapshot_journals env m refs seen [] = lc_ret refs"
| "snapshot_journals env m refs seen (jp # paths) =
     (if length refs \<ge> 1024 then lc_fail (Fault ''linechain journal capacity exceeded'')
      else lc_bind (readJournal env jp) (\<lambda>j.
        (let key = jr_TaskID j @ [CHR 0x00] @ jr_LeaseID j
         in if key \<in> set seen then lc_fail (Fault ''duplicate linechain journal identity'')
            else if path_base jp \<noteq> path_base (journalPath env m (jr_TaskID j) (jr_LeaseID j))
            then lc_fail (Fault ''linechain journal filename does not match task and lease'')
            else lc_bind (validateJournal env m jp j) (\<lambda>_.
                   snapshot_journals env m (refs @ [journal_ref_of env j]) (key # seen) paths))))"

definition Snapshot :: "lc_env \<Rightarrow> lc_manager \<Rightarrow> journal_ref list lc" where
  "Snapshot env m = lc_bind lc_call (\<lambda>_ w. snapshot_journals env m [] [] (lc_journals m w) w)"

text \<open>\<open>ResolveAfterRun\<close>: what the task runner reports once the helper has ended.\<close>

definition finished :: "gotime \<Rightarrow> task_result \<Rightarrow> task_result" where
  "finished now r = (if tr_FinishedAt r = 0 then r\<lparr>tr_FinishedAt := now\<rparr> else r)"

definition failed_result :: "task_result \<Rightarrow> task_result" where
  "failed_result r =
     (let r = (if tr_ExitCode r = 0 then r\<lparr>tr_ExitCode := -1\<rparr> else r)
      in if tr_Error r = [] then r\<lparr>tr_Error := ''linechain helper did not leave a verified desired pair; exact old pair restored''\<rparr>
         else r)"

definition resolve_open :: "lc_env \<Rightarrow> string \<Rightarrow> lc_journal \<Rightarrow> task_result \<Rightarrow> (lc_journal \<times> task_result) lc" where
  "resolve_open env jp j result =
     (if tr_ExitCode result = 0 \<and> tr_Error result = [] \<and> jr_Phase j = ''desired_verified'' then
        lc_bind (pairMatches env j True) (\<lambda>exact.
          if \<not> exact then lc_fail (Fault ''desired linechain pair is not exact'')
          else lc_bind (lc_attempt checkRestartVerify) (\<lambda>verified. case verified of
            Inr _ \<Rightarrow> lc_ret (j\<lparr>jr_Phase := ''terminal_desired''\<rparr>, result)
          | Inl _ \<Rightarrow>
              lc_bind (back_to_old env jp j) (\<lambda>j'. lc_ret (j', result\<lparr>tr_ExitCode := -1, tr_Error :=
                ''desired linechain runtime verification failed after helper return; exact old pair restored and verified''\<rparr>))))
      else lc_bind (back_to_old env jp j) (\<lambda>j'. lc_ret (j', failed_result result)))"

definition ResolveAfterRun ::
  "lc_env \<Rightarrow> lc_manager \<Rightarrow> string \<Rightarrow> string \<Rightarrow> task_result \<Rightarrow> gotime \<Rightarrow> task_result lc" where
  "ResolveAfterRun env m taskID leaseID result now =
     (let jp = journalPath env m taskID leaseID
      in lc_bind (lc_attempt (readJournal env jp)) (\<lambda>read. case read of
           Inl e \<Rightarrow>
             (if e = NotFound \<and> (tr_ExitCode result \<noteq> 0 \<or> tr_Error result \<noteq> [])
              then lc_ret (finished now result) else lc_fail e)
         | Inr j \<Rightarrow>
             (case jr_Result j of
                Some r \<Rightarrow> lc_ret r
              | None \<Rightarrow>
                  lc_bind (resolve_open env jp j (finished now result)) (\<lambda>(j', r).
                  lc_bind (writeJournal env jp (j'\<lparr>jr_Result := Some r\<rparr>)) (\<lambda>_. lc_ret r)))))"

subsection \<open>Applying a document\<close>

record lc_document =
  ld_Operation :: string
  ld_FragmentBasename :: string
  ld_Fragment :: "string option"
  ld_SidecarPatch :: sidecar_patch
  ld_PreviousFragmentSHA256 :: "string option"
  ld_FragmentSHA256 :: "string option"
  ld_SidecarPatchSHA256 :: string
  ld_ArtifactSHA256 :: string
  ld_FragmentPath :: string
  ld_SidecarPath :: string

definition requirePrevious :: "lc_env \<Rightarrow> string option \<Rightarrow> string \<Rightarrow> bool" where
  "requirePrevious env data want \<longleftrightarrow>
     (if want = [] then data = None
      else case data of None \<Rightarrow> False | Some d \<Rightarrow> lc_digest (le_json env) d = to_lower want)"

definition new_journal ::
  "lc_env \<Rightarrow> string \<Rightarrow> string \<Rightarrow> string \<Rightarrow> lc_document \<Rightarrow> string option \<Rightarrow> string option \<Rightarrow> string \<Rightarrow> lc_journal" where
  "new_journal env taskID leaseID script d fragmentOld sidecarOld merged =
     \<lparr>jr_Version = journalVersion, jr_TaskID = taskID, jr_LeaseID = leaseID,
      jr_FragmentPath = ld_FragmentPath d, jr_SidecarPath = ld_SidecarPath d,
      jr_FragmentOld = digest_ptr (le_json env) fragmentOld, jr_SidecarOld = digest_ptr (le_json env) sidecarOld,
      jr_ArtifactSHA256 = ld_ArtifactSHA256 d, jr_SidecarPatchSHA256 = ld_SidecarPatchSHA256 d,
      jr_FragmentOutputSHA256 = digest_ptr (le_json env) (ld_Fragment d),
      jr_SidecarOutputSHA256 = digest_ptr (le_json env) (Some merged), jr_TaskScriptSHA = script,
      jr_FragmentHadOld = (fragmentOld \<noteq> None), jr_SidecarHadOld = (sidecarOld \<noteq> None),
      jr_Phase = ''prepared'', jr_Result = None\<rparr>"

text \<open>A step of the transaction: on an error the old pair comes back.\<close>

definition or_rollback :: "lc_env \<Rightarrow> string \<Rightarrow> lc_journal \<Rightarrow> unit lc \<Rightarrow> unit lc" where
  "or_rollback env jp j m =
     lc_bind (lc_attempt m) (\<lambda>r. case r of Inr _ \<Rightarrow> lc_ret () | Inl e \<Rightarrow> lc_rollback env jp j e)"

definition publish_pair :: "lc_env \<Rightarrow> string \<Rightarrow> lc_document \<Rightarrow> string \<Rightarrow> lc_journal \<Rightarrow> unit lc" where
  "publish_pair env jp d merged j =
     lc_bind (or_rollback env jp j (publish (ld_FragmentPath d) (ld_Fragment d))) (\<lambda>_.
     lc_bind (writeJournal env jp (j\<lparr>jr_Phase := ''fragment_published''\<rparr>)) (\<lambda>_.
     lc_bind (or_rollback env jp (j\<lparr>jr_Phase := ''fragment_published''\<rparr>) (publish (ld_SidecarPath d) (Some merged))) (\<lambda>_.
     lc_bind (writeJournal env jp (j\<lparr>jr_Phase := ''pair_published''\<rparr>)) (\<lambda>_.
     lc_bind (or_rollback env jp (j\<lparr>jr_Phase := ''pair_published''\<rparr>) checkRestartVerify) (\<lambda>_.
       writeJournal env jp (j\<lparr>jr_Phase := ''desired_verified''\<rparr>))))))"

definition begin_transaction :: "lc_env \<Rightarrow> string \<Rightarrow> string \<Rightarrow> string \<Rightarrow> string \<Rightarrow> lc_document \<Rightarrow> unit lc" where
  "begin_transaction env jp taskID leaseID script d =
     lc_bind (readValidatedFile (ld_FragmentPath d)) (\<lambda>fragmentOld.
     lc_bind (readValidatedFile (ld_SidecarPath d)) (\<lambda>sidecarOld.
       if \<not> requirePrevious env fragmentOld (case ld_PreviousFragmentSHA256 d of None \<Rightarrow> [] | Some s \<Rightarrow> s)
       then lc_fail (Fault ''fragment artifact does not match previous digest'')
       else case sidecarOld of
         None \<Rightarrow> lc_fail (Fault ''current semantic sidecar is required'')
       | Some side \<Rightarrow>
           (case mergeManagedSidecar (le_json env) side (ld_SidecarPatch d) of
              Inl e \<Rightarrow> lc_fail (Fault e)
            | Inr merged \<Rightarrow>
                (let j = new_journal env taskID leaseID script d fragmentOld sidecarOld merged
                 in lc_bind (writeBackup (fragment_backup jp) fragmentOld) (\<lambda>_.
                    lc_bind (writeBackup (sidecar_backup jp) sidecarOld) (\<lambda>_.
                    lc_bind (writeJournal env jp j) (\<lambda>_. publish_pair env jp d merged j)))))))"

text \<open>\<open>Apply\<close> from the decoded and validated document on (\<open>jp\<close>, the path of the journal, is examined with \<open>os.Lstat\<close>).\<close>

definition apply_document ::
  "lc_env \<Rightarrow> lc_manager \<Rightarrow> string \<Rightarrow> string \<Rightarrow> string \<Rightarrow> lc_document \<Rightarrow> gotime \<Rightarrow> unit lc" where
  "apply_document env m taskID leaseID script d now =
     (let jp = journalPath env m taskID leaseID
      in lc_bind lc_call (\<lambda>_ w.
           if seen_at w jp \<noteq> None
           then lc_bind (recoverOne env m jp False [] script None now) (\<lambda>_. lc_ret ()) w
           else begin_transaction env jp taskID leaseID script d w))"

definition document_binding :: "lc_document \<Rightarrow> artifact_binding" where
  "document_binding d =
     \<lparr>ab_Schema = semanticArtifactSchema, ab_Operation = ld_Operation d, ab_FragmentBasename = ld_FragmentBasename d,
      ab_PreviousFragmentSHA256 = ld_PreviousFragmentSHA256 d, ab_FragmentSHA256 = ld_FragmentSHA256 d,
      ab_SidecarPatchSHA256 = ld_SidecarPatchSHA256 d\<rparr>"

definition wireFields :: "string list" where
  "wireFields = [''version'', ''durable_protocol'', ''operation'', ''fragment_basename'', ''fragment'', ''sidecar_patch'',
     ''previous_fragment_sha256'', ''fragment_sha256'', ''sidecar_patch_sha256'', ''artifact_sha256'']"

text \<open>Decoding what the server sent: the document and the canonical text of its patch.\<close>

definition document_of :: "lc_env \<Rightarrow> lc_manager \<Rightarrow> string \<Rightarrow> string + lc_document \<times> string" where
  "document_of env m raw =
     (if length raw > maxDocumentSize then Inl ''linechain document exceeds''
      else case le_wire env raw of
        None \<Rightarrow> Inl ''decode linechain document''
      | Some wire \<Rightarrow>
          (if wr_Version wire \<noteq> 2 then Inl ''unsupported linechain document version''
           else if wr_DurableProtocol wire \<noteq> ''linechain-e3-v2'' then Inl ''unsupported linechain durable protocol''
           else case js_fields (le_json env) raw of
             None \<Rightarrow> Inl ''decode linechain document fields''
           | Some fs \<Rightarrow>
               (if list_ex (\<lambda>name. map_of fs name = None) wireFields then Inl ''linechain document field must be present''
                else if path_base (wr_FragmentBasename wire) \<noteq> wr_FragmentBasename wire
                   \<or> \<not> linechainBasenameRE (wr_FragmentBasename wire) then Inl ''fragment_basename is invalid''
                else case canonicalSemanticSidecarPatch (le_json env)
                    (case map_of fs ''sidecar_patch'' of None \<Rightarrow> [] | Some p \<Rightarrow> p) of
                  Inl e \<Rightarrow> Inl e
                | Inr (patch, canonical) \<Rightarrow>
                    (let d = \<lparr>ld_Operation = wr_Operation wire, ld_FragmentBasename = wr_FragmentBasename wire,
                              ld_Fragment = wr_Fragment wire, ld_SidecarPatch = patch,
                              ld_PreviousFragmentSHA256 = wr_PreviousFragmentSHA256 wire,
                              ld_FragmentSHA256 = wr_FragmentSHA256 wire,
                              ld_SidecarPatchSHA256 = wr_SidecarPatchSHA256 wire,
                              ld_ArtifactSHA256 = wr_ArtifactSHA256 wire,
                              ld_FragmentPath = path_join (mg_configDir m) (wr_FragmentBasename wire),
                              ld_SidecarPath = mg_sidecarPath m\<rparr>
                     in case verifySemanticArtifactBinding (le_json env) (ld_Fragment d) canonical (document_binding d)
                          (ld_ArtifactSHA256 d) of
                          Some e \<Rightarrow> Inl e
                        | None \<Rightarrow> Inr (d, canonical)))))"

definition operation_shape :: "lc_document \<Rightarrow> bool" where
  "operation_shape d \<longleftrightarrow>
     ld_Operation d = ''create'' \<and> ld_PreviousFragmentSHA256 d = None \<and> ld_Fragment d \<noteq> None \<and> ld_FragmentSHA256 d \<noteq> None
       \<and> sc_DesiredDownstreamLineUUID (ld_SidecarPatch d) \<noteq> None
     \<or> ld_Operation d = ''replace'' \<and> ld_PreviousFragmentSHA256 d \<noteq> None \<and> ld_Fragment d \<noteq> None \<and> ld_FragmentSHA256 d \<noteq> None
       \<and> sc_ExpectedDownstreamLineUUID (ld_SidecarPatch d) \<noteq> None \<and> sc_DesiredDownstreamLineUUID (ld_SidecarPatch d) \<noteq> None
     \<or> ld_Operation d = ''remove'' \<and> ld_PreviousFragmentSHA256 d \<noteq> None \<and> ld_Fragment d = None \<and> ld_FragmentSHA256 d = None
       \<and> sc_ExpectedDownstreamLineUUID (ld_SidecarPatch d) \<noteq> None \<and> sc_DesiredDownstreamLineUUID (ld_SidecarPatch d) = None"

definition document_path_ok :: "string \<Rightarrow> bool" where
  "document_path_ok p \<longleftrightarrow> is_abs p \<and> clean_path p \<noteq> ''/'' \<and> \<not> str_contains (clean_path p) ''..''"

definition validateDocument :: "lc_env \<Rightarrow> lc_manager \<Rightarrow> lc_document \<Rightarrow> string \<Rightarrow> unit lc" where
  "validateDocument env m d canonical =
     (if ld_FragmentBasename d = [] then lc_fail (Fault ''v2 fragment_basename is required'')
      else if \<not> operation_shape d then lc_fail (Fault ''document has inconsistent old/desired shape'')
      else case verifySemanticArtifactBinding (le_json env) (ld_Fragment d) canonical (document_binding d) (ld_ArtifactSHA256 d) of
        Some e \<Rightarrow> lc_fail (Fault e)
      | None \<Rightarrow>
          (let configDir = clean_path (mg_configDir m) in
           if \<not> Configured m then lc_fail (Fault ''linechain runtime layout is unresolved'')
           else if configDir \<noteq> mg_configDir m
           then lc_fail (Fault ''config_dir does not match the locally resolved sing-box directory'')
           else if \<not> is_abs configDir \<or> configDir = ''/'' then lc_fail (Fault ''config_dir must be absolute and non-root'')
           else if \<not> document_path_ok (ld_FragmentPath d) \<or> \<not> document_path_ok (ld_SidecarPath d)
           then lc_fail (Fault ''artifact path must be absolute and non-root and must not escape its directory'')
           else if clean_path (ld_FragmentPath d) = clean_path (ld_SidecarPath d)
           then lc_fail (Fault ''fragment and sidecar paths must differ'')
           else if path_dir (clean_path (ld_FragmentPath d)) \<noteq> configDir
              \<or> \<not> linechainBasenameRE (path_base (ld_FragmentPath d))
           then lc_fail (Fault ''fragment path is outside the server-owned linechain config namespace'')
           else if clean_path (ld_SidecarPath d) \<noteq> mg_sidecarPath m
           then lc_fail (Fault ''sidecar path must match locally resolved'')
           else lc_bind (validateParents (ld_FragmentPath d)) (\<lambda>_.
                lc_bind (validateParents (ld_SidecarPath d)) (\<lambda>_.
                  if \<not> nullable_sha (ld_PreviousFragmentSHA256 d) \<or> \<not> nullable_sha (ld_FragmentSHA256 d)
                  then lc_fail (Fault ''previous artifact digest is invalid'') else lc_ret ()))))"

definition lc_Apply ::
  "lc_env \<Rightarrow> lc_manager \<Rightarrow> string \<Rightarrow> string \<Rightarrow> string \<Rightarrow> string \<Rightarrow> gotime \<Rightarrow> unit lc" where
  "lc_Apply env m raw taskID leaseID taskScriptSHA now =
     (if trim_space taskID = [] \<or> trim_space leaseID = [] then lc_fail (Fault ''task and lease identity are required'')
      else if \<not> validSHA (trim_space taskScriptSHA)
      then lc_fail (Fault ''linechain task script binding is required and must be lowercase SHA-256'')
      else lc_bind lc_call (\<lambda>_. case document_of env m raw of
        Inl e \<Rightarrow> lc_fail (Fault e)
      | Inr (d, canonical) \<Rightarrow>
          lc_bind (validateDocument env m d canonical) (\<lambda>_.
            apply_document env m taskID leaseID (trim_space taskScriptSHA) d now)))"

subsection \<open>Runs\<close>

text \<open>After a restart of the machine each path has one of the contents that were possible.\<close>

definition after_crash :: "(string \<Rightarrow> nat) \<Rightarrow> lc_world \<Rightarrow> lc_world" where
  "after_crash pick w = w\<lparr>lw_files := map (\<lambda>(p, l). (p, [l ! (pick p mod length l)])) (lw_files w)\<rparr>"

end
