(* ===== verification/Linechain_Recovery.thy ===== *)
theory Linechain_Recovery
  imports Linechain
begin

text \<open>
  What a line chain transaction guarantees: whatever fails and whenever the machine stops, the node is
  left with exactly the old or exactly the desired pair of files once the transaction has a result.

  Assertions speak of the contents a crash may leave at each path. \<open>lc_holds\<close> is the triple of an operation:
  from the precondition, a normal end gives the second assertion and an error or a crash the third.
\<close>

section \<open>Definitions\<close>

type_synonym lc_view = "string \<Rightarrow> string option list"

definition lc_holds :: "(lc_view \<Rightarrow> bool) \<Rightarrow> 'a lc \<Rightarrow> ('a \<Rightarrow> lc_view \<Rightarrow> bool) \<Rightarrow> (lc_view \<Rightarrow> bool) \<Rightarrow> bool" where
  "lc_holds A m B E \<longleftrightarrow>
     (\<forall>w. A (poss w) \<longrightarrow> (case m w of (Inl e, w') \<Rightarrow> E (poss w') | (Inr x, w') \<Rightarrow> B x (poss w')))"

text \<open>A transaction: its document, and the files it found.\<close>

record lc_txn =
  tx_env :: lc_env
  tx_mgr :: lc_manager
  tx_task :: string
  tx_lease :: string
  tx_script :: string
  tx_raw :: string
  tx_doc :: lc_document
  tx_old :: "string option"
  tx_side :: string
  tx_merged :: string

definition tx_journal :: "lc_txn \<Rightarrow> string" where
  "tx_journal t = journalPath (tx_env t) (tx_mgr t) (tx_task t) (tx_lease t)"

definition tx_fragment :: "lc_txn \<Rightarrow> string" where "tx_fragment t = ld_FragmentPath (tx_doc t)"
definition tx_sidecar :: "lc_txn \<Rightarrow> string" where "tx_sidecar t = ld_SidecarPath (tx_doc t)"
definition tx_new :: "lc_txn \<Rightarrow> string option" where "tx_new t = ld_Fragment (tx_doc t)"

definition jof :: "lc_txn \<Rightarrow> string \<Rightarrow> task_result option \<Rightarrow> lc_journal" where
  "jof t ph res =
     (new_journal (tx_env t) (tx_task t) (tx_lease t) (tx_script t) (tx_doc t) (tx_old t) (Some (tx_side t)) (tx_merged t))
       \<lparr>jr_Phase := ph, jr_Result := res\<rparr>"

definition pair_old :: "lc_txn \<Rightarrow> lc_view \<Rightarrow> bool" where
  "pair_old t g \<longleftrightarrow> set (g (tx_fragment t)) = {tx_old t} \<and> set (g (tx_sidecar t)) = {Some (tx_side t)}"

definition pair_new :: "lc_txn \<Rightarrow> lc_view \<Rightarrow> bool" where
  "pair_new t g \<longleftrightarrow> set (g (tx_fragment t)) = {tx_new t} \<and> set (g (tx_sidecar t)) = {Some (tx_merged t)}"

definition txn_ok :: "lc_txn \<Rightarrow> bool" where
  "txn_ok t \<longleftrightarrow>
     distinct [tx_journal t, fragment_backup (tx_journal t), sidecar_backup (tx_journal t), tx_fragment t, tx_sidecar t]
     \<and> mergeManagedSidecar (le_json (tx_env t)) (tx_side t) (ld_SidecarPatch (tx_doc t)) = Inr (tx_merged t)
     \<and> (\<forall>j b. le_marshal (tx_env t) j = Some b \<longrightarrow> le_decode (tx_env t) b = Some j)
     \<and> inj_on (digest_ptr (le_json (tx_env t))) {tx_old t, tx_new t}
     \<and> inj_on (digest_ptr (le_json (tx_env t))) {Some (tx_side t), Some (tx_merged t)}"

definition openPhases :: "string set" where
  "openPhases = {''prepared'', ''fragment_published'', ''pair_published'', ''desired_verified'', ''old_restored''}"

text \<open>A text of the journal that fits the files: of an open phase, or with a result that is true.\<close>

definition sure :: "lc_txn \<Rightarrow> lc_view \<Rightarrow> bool" where
  "sure t g \<longleftrightarrow>
     (hd (g (tx_fragment t)) = tx_new t \<longrightarrow> set (g (tx_fragment t)) = {tx_new t})
     \<and> (hd (g (tx_sidecar t)) = Some (tx_merged t) \<longrightarrow> set (g (tx_sidecar t)) = {Some (tx_merged t)})"

definition open_text :: "lc_txn \<Rightarrow> lc_view \<Rightarrow> string \<Rightarrow> bool" where
  "open_text t g b \<longleftrightarrow>
     (\<exists>ph \<in> openPhases. le_marshal (tx_env t) (jof t ph None) = Some b
        \<and> (ph = ''desired_verified'' \<longrightarrow> sure t g))"

definition succeeded :: "task_result \<Rightarrow> bool" where
  "succeeded r \<longleftrightarrow> tr_ExitCode r = 0 \<and> tr_Error r = []"

definition result_true :: "lc_txn \<Rightarrow> lc_view \<Rightarrow> task_result \<Rightarrow> bool" where
  "result_true t g r \<longleftrightarrow> (if succeeded r then pair_new t g else pair_old t g)"

definition final_text :: "lc_txn \<Rightarrow> lc_view \<Rightarrow> string \<Rightarrow> bool" where
  "final_text t g b \<longleftrightarrow>
     (\<exists>ph r. le_marshal (tx_env t) (jof t ph (Some r)) = Some b \<and> journalTerminal ph \<and> result_true t g r)"

definition files_ok :: "lc_txn \<Rightarrow> lc_view \<Rightarrow> bool" where
  "files_ok t g \<longleftrightarrow>
     (\<forall>p. g p \<noteq> []) \<and> set (g (tx_fragment t)) \<subseteq> {tx_old t, tx_new t}
     \<and> set (g (tx_sidecar t)) \<subseteq> {Some (tx_side t), Some (tx_merged t)}
     \<and> (tx_old t = None \<longrightarrow> set (g (fragment_backup (tx_journal t))) = {None})"

definition backups_ok :: "lc_txn \<Rightarrow> lc_view \<Rightarrow> bool" where
  "backups_ok t g \<longleftrightarrow>
     set (g (fragment_backup (tx_journal t))) = {tx_old t} \<and> set (g (sidecar_backup (tx_journal t))) = {Some (tx_side t)}"

text \<open>No journal yet, a transaction under way, or one with a result.\<close>

definition txn_idle :: "lc_txn \<Rightarrow> lc_view \<Rightarrow> bool" where
  "txn_idle t g \<longleftrightarrow> files_ok t g \<and> set (g (tx_journal t)) = {None} \<and> pair_old t g"

definition txn_work :: "lc_txn \<Rightarrow> lc_view \<Rightarrow> bool" where
  "txn_work t g \<longleftrightarrow>
     files_ok t g \<and> backups_ok t g \<and> hd (g (tx_journal t)) \<noteq> None
     \<and> (\<forall>x \<in> set (g (tx_journal t)). case x of None \<Rightarrow> pair_old t g | Some b \<Rightarrow> open_text t g b)"

definition txn_final :: "lc_txn \<Rightarrow> lc_view \<Rightarrow> bool" where
  "txn_final t g \<longleftrightarrow>
     files_ok t g \<and> backups_ok t g \<and> (\<exists>b. hd (g (tx_journal t)) = Some b \<and> final_text t g b)
     \<and> (\<forall>x \<in> set (g (tx_journal t)). case x of None \<Rightarrow> pair_old t g | Some b \<Rightarrow> open_text t g b \<or> final_text t g b)"

definition txn_inv :: "lc_txn \<Rightarrow> lc_view \<Rightarrow> bool" where
  "txn_inv t g \<longleftrightarrow> txn_idle t g \<or> txn_work t g \<or> txn_final t g"

definition pair_digests :: "lc_env \<Rightarrow> lc_journal \<Rightarrow> bool \<Rightarrow> lc_view \<Rightarrow> bool" where
  "pair_digests env j desired g \<longleftrightarrow>
     (if desired then digest_ptr (le_json env) (hd (g (jr_FragmentPath j))) = jr_FragmentOutputSHA256 j
        \<and> digest_ptr (le_json env) (hd (g (jr_SidecarPath j))) = jr_SidecarOutputSHA256 j
      else digest_ptr (le_json env) (hd (g (jr_FragmentPath j))) = jr_FragmentOld j
        \<and> digest_ptr (le_json env) (hd (g (jr_SidecarPath j))) = jr_SidecarOld j)"

definition decided :: "lc_txn \<Rightarrow> lc_journal \<times> task_result \<Rightarrow> lc_view \<Rightarrow> bool" where
  "decided t jr g \<longleftrightarrow>
     (\<exists>ph. fst jr = jof t ph None \<and> journalTerminal ph \<and> result_true t g (snd jr)) \<and> txn_work t g"

definition open_at :: "lc_txn \<Rightarrow> lc_journal \<Rightarrow> lc_view \<Rightarrow> bool" where
  "open_at t j g \<longleftrightarrow>
     (\<exists>ph \<in> openPhases. j = jof t ph None \<and> (ph = ''desired_verified'' \<longrightarrow> sure t g)) \<and> txn_work t g"

definition final_at :: "lc_txn \<Rightarrow> lc_journal \<Rightarrow> lc_view \<Rightarrow> bool" where
  "final_at t j g \<longleftrightarrow> (\<exists>ph r. j = jof t ph (Some r) \<and> journalTerminal ph \<and> result_true t g r) \<and> txn_final t g"

section \<open>Lemmas\<close>

subsection \<open>The rules of the triple\<close>

lemma holdsI:
  assumes "\<And>w e w'. A (poss w) \<Longrightarrow> m w = (Inl e, w') \<Longrightarrow> E (poss w')"
    "\<And>w x w'. A (poss w) \<Longrightarrow> m w = (Inr x, w') \<Longrightarrow> B x (poss w')"
  shows "lc_holds A m B E"
  unfolding lc_holds_def using assms by (auto split: prod.split sum.split)

lemma holdsD:
  assumes "lc_holds A m B E" "A (poss w)"
  shows "m w = (Inl e, w') \<Longrightarrow> E (poss w')" "m w = (Inr x, w') \<Longrightarrow> B x (poss w')"
  using assms unfolding lc_holds_def by (metis (mono_tags, lifting) case_prod_conv sum.case)+

lemma holds_ret: "(\<And>g. A g \<Longrightarrow> B x g) \<Longrightarrow> lc_holds A (lc_ret x) B E"
  by (simp add: lc_holds_def lc_ret_def)

lemma holds_fail: "(\<And>g. A g \<Longrightarrow> E g) \<Longrightarrow> lc_holds A (lc_fail e) B E"
  by (simp add: lc_holds_def lc_fail_def)

lemma holds_bind:
  assumes "lc_holds A m B E" "\<And>x. lc_holds (B x) (f x) C E"
  shows "lc_holds A (lc_bind m f) C E"
proof (rule holdsI)
  fix w e w' assume w: "A (poss w)" "lc_bind m f w = (Inl e, w')"
  then show "E (poss w')"
    using holdsD [OF assms(1) w(1)] holdsD(1) [OF assms(2)]
    by (auto simp: lc_bind_def split: prod.splits sum.splits)
next
  fix w y w' assume w: "A (poss w)" "lc_bind m f w = (Inr y, w')"
  then show "C y (poss w')"
    using holdsD [OF assms(1) w(1)] holdsD(2) [OF assms(2)]
    by (auto simp: lc_bind_def split: prod.splits sum.splits)
qed

lemma holds_pre: "(\<And>g. A g \<Longrightarrow> A' g) \<Longrightarrow> lc_holds A' m B E \<Longrightarrow> lc_holds A m B E"
  by (simp add: lc_holds_def)

lemma holds_post: "lc_holds A m B' E' \<Longrightarrow> (\<And>x g. B' x g \<Longrightarrow> B x g) \<Longrightarrow> (\<And>g. E' g \<Longrightarrow> E g) \<Longrightarrow> lc_holds A m B E"
  by (rule holdsI) (auto dest: holdsD)

lemma holds_attempt:
  assumes "lc_holds A m B E'" "\<And>g. E' g \<Longrightarrow> E g"
  shows "lc_holds A (lc_attempt m) (\<lambda>r g. case r of Inl _ \<Rightarrow> E' g | Inr x \<Rightarrow> B x g) E"
  by (rule holdsI) (use holdsD [OF assms(1)] assms(2) in \<open>auto simp: lc_attempt_def split: prod.splits sum.splits if_splits\<close>)

lemma if_holds: "lc_holds A m B E \<Longrightarrow> lc_holds A m' B E \<Longrightarrow> lc_holds A (if c then m else m') B E"
  by simp

lemma holds_fact: "(P \<Longrightarrow> lc_holds A m B E) \<Longrightarrow> lc_holds (\<lambda>g. P \<and> A g) m B E"
  by (simp add: lc_holds_def)

lemma poss_cong: "lw_files w = lw_files w' \<Longrightarrow> poss w = poss w'"
  by (rule ext) (simp add: poss_def)

lemma poss_io [simp]: "poss (w\<lparr>lw_io := io\<rparr>) = poss w"
  by (rule poss_cong) simp

lemma poss_update [simp]: "poss (w\<lparr>lw_files := AList.update p l (lw_files w)\<rparr>) = (poss w)(p := l)"
  by (rule ext) (simp add: poss_def AList.update_conv')

lemma poss_update_io [simp]:
  "poss (w\<lparr>lw_io := io, lw_files := AList.update p l (lw_files w)\<rparr>) = (poss w)(p := l)"
  by (rule ext) (simp add: poss_def AList.update_conv')

lemma holds_call: "(\<And>g. A g \<Longrightarrow> E g) \<Longrightarrow> lc_holds A lc_call (\<lambda>_. A) E"
  by (auto simp: lc_holds_def lc_call_def lc_bind_def lc_ask_def lc_ret_def lc_fail_def split: list.splits lc_answer.splits)

lemma holds_replace:
  assumes "\<And>g. A g \<Longrightarrow> B (g(p := [c]))" "\<And>g. A g \<Longrightarrow> E g" "\<And>g. A g \<Longrightarrow> E (g(p := c # g p))"
  shows "lc_holds A (lc_replace p c) (\<lambda>_. B) E"
  using assms
  by (auto simp: lc_holds_def lc_replace_def lc_bind_def lc_ask_def lc_fail_def set_poss_def split: list.splits lc_answer.splits)

lemma holds_read:
  "(\<And>g. A g \<Longrightarrow> E g) \<Longrightarrow> lc_holds A (readValidatedFile p) (\<lambda>x g. x = hd (g p) \<and> A g) E"
  by (auto simp: lc_holds_def readValidatedFile_def lc_call_def lc_bind_def lc_ask_def lc_ret_def lc_fail_def seen_at_def
      split: list.splits lc_answer.splits option.splits)

lemma holds_publish:
  assumes "\<And>g. A g \<Longrightarrow> B (g(p := [c]))" "\<And>g. A g \<Longrightarrow> E g" "\<And>g. A g \<Longrightarrow> E (g(p := c # g p))"
  shows "lc_holds A (publish p c) (\<lambda>_. B) E"
  unfolding publish_def validateParents_def
proof (rule holds_bind [OF holds_call])
  show "lc_holds A (case c of None \<Rightarrow> lc_replace p None | Some s \<Rightarrow> lc_writeFile p s) (\<lambda>_. B) E"
    using holds_replace [of A B p c E] assms by (cases c) (simp_all add: lc_writeFile_def)
qed (rule assms(2))

lemma holds_journal:
  assumes "\<And>g b. A g \<Longrightarrow> le_marshal env j = Some b \<Longrightarrow> B (g(p := [Some b]))" "\<And>g. A g \<Longrightarrow> E g"
    "\<And>g b. A g \<Longrightarrow> le_marshal env j = Some b \<Longrightarrow> E (g(p := Some b # g p))"
  shows "lc_holds A (writeJournal env p j) (\<lambda>_. B) E"
proof (cases "le_marshal env j")
  case None
  then show ?thesis using holds_fail [of A E] assms(2) by (simp add: writeJournal_def)
next
  case (Some b)
  then show ?thesis using holds_replace [of A B p "Some b" E] assms by (simp add: writeJournal_def lc_writeFile_def)
qed

lemma holds_verify: "(\<And>g. A g \<Longrightarrow> E g) \<Longrightarrow> lc_holds A checkRestartVerify (\<lambda>_. A) E"
  unfolding checkRestartVerify_def by (intro holds_bind [OF holds_call] holds_call) auto

lemma holds_attempt_verify: "(\<And>g. A g \<Longrightarrow> E g) \<Longrightarrow> lc_holds A (lc_attempt checkRestartVerify) (\<lambda>_. A) E"
  by (rule holds_post [OF holds_attempt [OF holds_verify [where E = A]]]) (auto split: sum.splits)

lemma holds_pairMatches:
  assumes "\<And>g. A g \<Longrightarrow> E g"
  shows "lc_holds A (pairMatches env j desired) (\<lambda>ok g. A g \<and> (ok \<longrightarrow> pair_digests env j desired g)) E"
  unfolding pairMatches_def
proof (rule holds_bind)
  show "lc_holds A (lc_attempt (readValidatedFile (jr_FragmentPath j)))
      (\<lambda>r g. case r of Inl _ \<Rightarrow> A g | Inr x \<Rightarrow> x = hd (g (jr_FragmentPath j)) \<and> A g) E"
    by (rule holds_attempt [OF holds_read]) (use assms in auto)
next
  fix ra
  let ?R = "\<lambda>g. case ra of Inl _ \<Rightarrow> A g | Inr x \<Rightarrow> x = hd (g (jr_FragmentPath j)) \<and> A g"
  show "lc_holds ?R
     (lc_bind (lc_attempt (readValidatedFile (jr_SidecarPath j))) (\<lambda>rb.
       case ra of
         Inl _ \<Rightarrow> lc_ret False
       | Inr a \<Rightarrow>
           (case rb of
              Inl _ \<Rightarrow> lc_ret False
            | Inr b \<Rightarrow>
                lc_ret (if desired
                  then digest_ptr (le_json env) a = jr_FragmentOutputSHA256 j
                    \<and> digest_ptr (le_json env) b = jr_SidecarOutputSHA256 j
                  else (a \<noteq> None) = jr_FragmentHadOld j \<and> (b \<noteq> None) = jr_SidecarHadOld j
                    \<and> digest_ptr (le_json env) a = jr_FragmentOld j \<and> digest_ptr (le_json env) b = jr_SidecarOld j))))
     (\<lambda>ok g. A g \<and> (ok \<longrightarrow> pair_digests env j desired g)) E" (is "lc_holds _ (lc_bind _ ?f) ?B _")
  proof (rule holds_bind)
    show "lc_holds ?R (lc_attempt (readValidatedFile (jr_SidecarPath j)))
        (\<lambda>r g. case r of Inl _ \<Rightarrow> ?R g | Inr x \<Rightarrow> x = hd (g (jr_SidecarPath j)) \<and> ?R g) E"
      by (rule holds_attempt [OF holds_read]) (use assms in \<open>auto split: sum.splits\<close>)
    show "lc_holds (\<lambda>g. case rb of Inl _ \<Rightarrow> ?R g | Inr x \<Rightarrow> x = hd (g (jr_SidecarPath j)) \<and> ?R g) (?f rb) ?B E" for rb
      by (cases ra; cases rb) (auto intro!: holds_ret simp: pair_digests_def)
  qed
qed

subsection \<open>The paths and journals of a transaction\<close>

lemma txn_paths:
  assumes "txn_ok t"
  shows "tx_journal t \<noteq> tx_fragment t" "tx_journal t \<noteq> tx_sidecar t" "tx_fragment t \<noteq> tx_sidecar t"
    "fragment_backup (tx_journal t) \<noteq> tx_journal t" "sidecar_backup (tx_journal t) \<noteq> tx_journal t"
    "fragment_backup (tx_journal t) \<noteq> sidecar_backup (tx_journal t)"
    "fragment_backup (tx_journal t) \<noteq> tx_fragment t" "fragment_backup (tx_journal t) \<noteq> tx_sidecar t"
    "sidecar_backup (tx_journal t) \<noteq> tx_fragment t" "sidecar_backup (tx_journal t) \<noteq> tx_sidecar t"
  using assms unfolding txn_ok_def by auto

lemma txn_paths':
  assumes "txn_ok t"
  shows "tx_fragment t \<noteq> tx_journal t" "tx_sidecar t \<noteq> tx_journal t" "tx_sidecar t \<noteq> tx_fragment t"
    "tx_journal t \<noteq> fragment_backup (tx_journal t)" "tx_journal t \<noteq> sidecar_backup (tx_journal t)"
    "sidecar_backup (tx_journal t) \<noteq> fragment_backup (tx_journal t)"
    "tx_fragment t \<noteq> fragment_backup (tx_journal t)" "tx_sidecar t \<noteq> fragment_backup (tx_journal t)"
    "tx_fragment t \<noteq> sidecar_backup (tx_journal t)" "tx_sidecar t \<noteq> sidecar_backup (tx_journal t)"
  using assms unfolding txn_ok_def by auto

lemma jof_simps [simp]:
  "jr_Phase (jof t ph res) = ph" "jr_Result (jof t ph res) = res" "jr_FragmentPath (jof t ph res) = tx_fragment t"
  "jr_SidecarPath (jof t ph res) = tx_sidecar t" "jr_TaskID (jof t ph res) = tx_task t" "jr_LeaseID (jof t ph res) = tx_lease t"
  "jr_FragmentOld (jof t ph res) = digest_ptr (le_json (tx_env t)) (tx_old t)"
  "jr_SidecarOld (jof t ph res) = digest_ptr (le_json (tx_env t)) (Some (tx_side t))"
  "jr_FragmentOutputSHA256 (jof t ph res) = digest_ptr (le_json (tx_env t)) (tx_new t)"
  "jr_SidecarOutputSHA256 (jof t ph res) = digest_ptr (le_json (tx_env t)) (Some (tx_merged t))"
  "jr_FragmentHadOld (jof t ph res) = (tx_old t \<noteq> None)" "jr_SidecarHadOld (jof t ph res) = True"
  "(jof t ph res)\<lparr>jr_Phase := ph'\<rparr> = jof t ph' res" "(jof t ph res)\<lparr>jr_Result := res'\<rparr> = jof t ph res'"
  by (simp_all add: jof_def new_journal_def tx_fragment_def tx_sidecar_def tx_new_def)

lemma jof_decode: "txn_ok t \<Longrightarrow> le_marshal (tx_env t) (jof t ph res) = Some b \<Longrightarrow> le_decode (tx_env t) b = Some (jof t ph res)"
  by (simp add: txn_ok_def)

lemma set_one: "l \<noteq> [] \<Longrightarrow> set l \<subseteq> {x} \<Longrightarrow> set l = {x}" "set l = {x} \<Longrightarrow> l \<noteq> [] \<Longrightarrow> hd l = x"
  using subset_singletonD [of "set l" x] hd_in_set [of l] by auto

lemma work_inv: "txn_work t g \<Longrightarrow> txn_inv t g"
  by (simp add: txn_inv_def)

text \<open>Publishing an old file keeps a transaction under way.\<close>

lemma work_old_fragment:
  assumes t: "txn_ok t" and g: "txn_work t g"
  shows "txn_work t (g(tx_fragment t := [tx_old t]))" "txn_work t (g(tx_fragment t := tx_old t # g (tx_fragment t)))"
  using g txn_paths [OF t] txn_paths' [OF t]
  by (auto simp: txn_work_def files_ok_def backups_ok_def pair_old_def open_text_def sure_def split: option.splits)
    (fastforce+)?

lemma work_old_sidecar:
  assumes t: "txn_ok t" and g: "txn_work t g"
  shows "txn_work t (g(tx_sidecar t := [Some (tx_side t)]))"
    "txn_work t (g(tx_sidecar t := Some (tx_side t) # g (tx_sidecar t)))"
  using g txn_paths [OF t] txn_paths' [OF t]
  by (auto simp: txn_work_def files_ok_def backups_ok_def pair_old_def open_text_def sure_def split: option.splits)
    (fastforce+)?

lemma work_journal:
  assumes t: "txn_ok t" and g: "txn_work t g" and b: "le_marshal (tx_env t) (jof t ph None) = Some b" "open_text t g b"
  shows "txn_work t (g(tx_journal t := [Some b]))" "txn_work t (g(tx_journal t := Some b # g (tx_journal t)))"
  using g b(2) txn_paths [OF t] txn_paths' [OF t]
  by (auto simp: txn_work_def files_ok_def backups_ok_def pair_old_def open_text_def sure_def split: option.splits)

lemma journal_frame:
  assumes t: "txn_ok t" and l: "l \<noteq> []"
  shows "backups_ok t (g(tx_journal t := l)) = backups_ok t g" "pair_old t (g(tx_journal t := l)) = pair_old t g"
    "pair_new t (g(tx_journal t := l)) = pair_new t g" "sure t (g(tx_journal t := l)) = sure t g"
    "open_text t (g(tx_journal t := l)) b = open_text t g b" "result_true t (g(tx_journal t := l)) r = result_true t g r"
    "final_text t (g(tx_journal t := l)) b = final_text t g b"
    "files_ok t g \<Longrightarrow> files_ok t (g(tx_journal t := l))"
  using txn_paths [OF t] txn_paths' [OF t] l
  by (simp_all add: files_ok_def backups_ok_def pair_old_def pair_new_def sure_def open_text_def result_true_def final_text_def)

lemma open_textI:
  "ph \<in> openPhases \<Longrightarrow> ph \<noteq> ''desired_verified'' \<Longrightarrow> le_marshal (tx_env t) (jof t ph None) = Some b \<Longrightarrow> open_text t g b"
  by (auto simp: open_text_def)

lemma holds_restore_fragment:
  assumes t: "txn_ok t"
  shows "lc_holds (txn_work t)
     (restore_one (tx_env t) (tx_fragment t) (fragment_backup (tx_journal t)) (tx_old t \<noteq> None) (digest_ptr (le_json (tx_env t)) (tx_old t)))
     (\<lambda>_ g. txn_work t g \<and> set (g (tx_fragment t)) = {tx_old t}) (txn_work t)"
proof (cases "tx_old t")
  case None
  then show ?thesis
    using work_old_fragment [OF t] by (auto simp: restore_one_def intro!: holds_publish)
next
  case (Some f)
  have "lc_holds (\<lambda>g. x = hd (g (fragment_backup (tx_journal t))) \<and> txn_work t g)
      (case x of None \<Rightarrow> lc_fail (Fault ''required linechain backup is missing'')
        | Some d \<Rightarrow>
            (if lc_digest (le_json (tx_env t)) d \<noteq> digest_ptr (le_json (tx_env t)) (tx_old t)
             then lc_fail (Fault ''backup digest mismatch'') else publish (tx_fragment t) (Some d)))
      (\<lambda>_ g. txn_work t g \<and> set (g (tx_fragment t)) = {tx_old t}) (txn_work t)" for x
  proof (cases "x = tx_old t")
    case True
    then show ?thesis
      using work_old_fragment [OF t] Some by (auto simp: digest_ptr_def intro!: holds_publish)
  next
    case False
    then have "\<not> (x = hd (g (fragment_backup (tx_journal t))) \<and> txn_work t g)" for g
      using set_one(2) [of "g (fragment_backup (tx_journal t))" "tx_old t"]
      by (auto simp: txn_work_def backups_ok_def files_ok_def)
    then show ?thesis unfolding lc_holds_def by blast
  qed
  then have "lc_holds (txn_work t)
      (lc_bind (readValidatedFile (fragment_backup (tx_journal t))) (\<lambda>x. case x of
          None \<Rightarrow> lc_fail (Fault ''required linechain backup is missing'')
        | Some d \<Rightarrow>
            (if lc_digest (le_json (tx_env t)) d \<noteq> digest_ptr (le_json (tx_env t)) (tx_old t)
             then lc_fail (Fault ''backup digest mismatch'') else publish (tx_fragment t) (Some d))))
      (\<lambda>_ g. txn_work t g \<and> set (g (tx_fragment t)) = {tx_old t}) (txn_work t)"
    by (rule holds_bind [OF holds_read, rotated]) simp
  moreover have "tx_old t \<noteq> None" using Some by simp
  ultimately show ?thesis by (simp add: restore_one_def)
qed

lemma holds_restore_sidecar:
  assumes t: "txn_ok t"
  shows "lc_holds (\<lambda>g. txn_work t g \<and> set (g (tx_fragment t)) = {tx_old t})
     (restore_one (tx_env t) (tx_sidecar t) (sidecar_backup (tx_journal t)) True (digest_ptr (le_json (tx_env t)) (Some (tx_side t))))
     (\<lambda>_ g. txn_work t g \<and> pair_old t g) (txn_work t)"
proof -
  let ?A = "\<lambda>g. txn_work t g \<and> set (g (tx_fragment t)) = {tx_old t}"
  have "lc_holds (\<lambda>g. x = hd (g (sidecar_backup (tx_journal t))) \<and> ?A g)
      (case x of None \<Rightarrow> lc_fail (Fault ''required linechain backup is missing'')
        | Some d \<Rightarrow>
            (if lc_digest (le_json (tx_env t)) d \<noteq> digest_ptr (le_json (tx_env t)) (Some (tx_side t))
             then lc_fail (Fault ''backup digest mismatch'') else publish (tx_sidecar t) (Some d)))
      (\<lambda>_ g. txn_work t g \<and> pair_old t g) (txn_work t)" for x
  proof (cases "x = Some (tx_side t)")
    case True
    then show ?thesis
      using work_old_sidecar [OF t] txn_paths [OF t] by (auto simp: digest_ptr_def pair_old_def intro!: holds_publish)
  next
    case False
    then have "\<not> (x = hd (g (sidecar_backup (tx_journal t))) \<and> ?A g)" for g
      using set_one(2) [of "g (sidecar_backup (tx_journal t))" "Some (tx_side t)"]
      by (auto simp: txn_work_def backups_ok_def files_ok_def)
    then show ?thesis unfolding lc_holds_def by blast
  qed
  then show ?thesis
    unfolding restore_one_def by (auto intro!: holds_bind [OF holds_read])
qed

lemma holds_restoreOld:
  assumes t: "txn_ok t"
  shows "lc_holds (txn_work t) (restoreOld (tx_env t) (tx_journal t) (jof t ph None))
     (\<lambda>j g. j = jof t ''old_restored'' None \<and> txn_work t g \<and> pair_old t g) (txn_work t)"
proof -
  let ?B = "\<lambda>g. txn_work t g \<and> pair_old t g"
  have w: "lc_holds ?B (writeJournal (tx_env t) (tx_journal t) (jof t ''old_restored'' None)) (\<lambda>_. ?B) (txn_work t)"
  proof (rule holds_journal)
    fix g b assume g: "?B g" and b: "le_marshal (tx_env t) (jof t ''old_restored'' None) = Some b"
    have "open_text t g b" by (rule open_textI [OF _ _ b]) (auto simp: openPhases_def)
    then show "?B (g(tx_journal t := [Some b]))" "txn_work t (g(tx_journal t := Some b # g (tx_journal t)))"
      using work_journal [OF t _ b] g txn_paths [OF t] by (auto simp: pair_old_def)
  qed auto
  show ?thesis
    unfolding restoreOld_def jof_simps
    by (rule holds_bind [OF holds_restore_fragment [OF t]], rule holds_bind [OF holds_restore_sidecar [OF t]],
        rule holds_bind [OF holds_pairMatches])
      (auto intro!: holds_fail holds_bind [OF holds_pre [OF _ w]] holds_ret)
qed

lemma holds_back_to_old:
  assumes t: "txn_ok t"
  shows "lc_holds (txn_work t) (back_to_old (tx_env t) (tx_journal t) (jof t ph None))
     (\<lambda>j g. j = jof t ''terminal_old'' None \<and> txn_work t g \<and> pair_old t g) (txn_work t)"
  unfolding back_to_old_def
  by (rule holds_bind [OF holds_restoreOld [OF t]], rule holds_bind [OF holds_verify]) (auto intro!: holds_ret)

subsection \<open>Deciding a transaction\<close>

lemma decided_old: "\<not> succeeded r \<Longrightarrow> txn_work t g \<Longrightarrow> pair_old t g \<Longrightarrow> decided t (jof t ''terminal_old'' None, r) g"
  by (auto simp: decided_def result_true_def journalTerminal_def)

lemma decided_new: "succeeded r \<Longrightarrow> txn_work t g \<Longrightarrow> pair_new t g \<Longrightarrow> decided t (jof t ''terminal_desired'' None, r) g"
  by (auto simp: decided_def result_true_def journalTerminal_def)

lemma work_hd:
  assumes "txn_work t g"
  shows "hd (g (tx_fragment t)) \<in> {tx_old t, tx_new t}" "hd (g (tx_sidecar t)) \<in> {Some (tx_side t), Some (tx_merged t)}"
  using assms unfolding txn_work_def files_ok_def by (meson hd_in_set subsetD)+

lemma pair_exact:
  assumes t: "txn_ok t" and g: "txn_work t g" "sure t g" and d: "pair_digests (tx_env t) (jof t ph res) True g"
  shows "pair_new t g"
proof -
  let ?d = "digest_ptr (le_json (tx_env t))"
  have "?d (hd (g (tx_fragment t))) = ?d (tx_new t)" "?d (hd (g (tx_sidecar t))) = ?d (Some (tx_merged t))"
    using d by (simp_all add: pair_digests_def)
  then have "hd (g (tx_fragment t)) = tx_new t" "hd (g (tx_sidecar t)) = Some (tx_merged t)"
    using t work_hd [OF g(1)] unfolding txn_ok_def inj_on_def by blast+
  then show ?thesis using g(2) by (simp add: sure_def pair_new_def)
qed

lemma holds_back_decided:
  assumes t: "txn_ok t" and r: "\<not> succeeded r"
  shows "lc_holds (txn_work t) (lc_bind (back_to_old (tx_env t) (tx_journal t) (jof t ph None)) (\<lambda>j'. lc_ret (j', r)))
     (decided t) (txn_work t)"
  by (rule holds_bind [OF holds_back_to_old [OF t]]) (auto intro!: holds_ret decided_old [OF r])

text \<open>Verifying an exact desired pair: it stays, or the old pair comes back.\<close>

lemma holds_verified:
  assumes t: "txn_ok t" and r: "succeeded r" "\<not> succeeded r'"
  shows "lc_holds (\<lambda>g. txn_work t g \<and> pair_new t g)
     (lc_bind (lc_attempt checkRestartVerify) (\<lambda>verified. case verified of
        Inr _ \<Rightarrow> lc_ret ((jof t ph None)\<lparr>jr_Phase := ''terminal_desired''\<rparr>, r)
      | Inl _ \<Rightarrow> lc_bind (back_to_old (tx_env t) (tx_journal t) (jof t ph None)) (\<lambda>j'. lc_ret (j', r'))))
     (decided t) (txn_work t)"
proof (rule holds_bind [OF holds_attempt_verify])
  fix v :: "lc_error + unit"
  show "lc_holds (\<lambda>g. txn_work t g \<and> pair_new t g)
      (case v of
        Inr _ \<Rightarrow> lc_ret ((jof t ph None)\<lparr>jr_Phase := ''terminal_desired''\<rparr>, r)
      | Inl _ \<Rightarrow> lc_bind (back_to_old (tx_env t) (tx_journal t) (jof t ph None)) (\<lambda>j'. lc_ret (j', r')))
      (decided t) (txn_work t)"
    using holds_back_decided [OF t r(2), of ph] decided_new [OF r(1)]
    by (cases v) (auto intro!: holds_ret elim: holds_pre [rotated])
qed auto

lemma holds_decide:
  assumes t: "txn_ok t"
  shows "lc_holds (\<lambda>g. txn_work t g \<and> (ph = ''desired_verified'' \<longrightarrow> sure t g))
     (decide (tx_env t) (tx_journal t) node now (jof t ph None)) (decided t) (txn_work t)"
proof -
  let ?r = "recovered_result (jof t ph None) node now"
  have "lc_holds (\<lambda>g. txn_work t g \<and> (ph = ''desired_verified'' \<longrightarrow> sure t g))
      (if ph = ''desired_verified'' then pairMatches (tx_env t) (jof t ph None) True else lc_ret False)
      (\<lambda>exact g. txn_work t g \<and> (exact \<longrightarrow> pair_new t g)) (txn_work t)"
    by (auto intro!: holds_ret holds_post [OF holds_pairMatches [where E = "txn_work t"]] dest: pair_exact [OF t, rotated])
  moreover have "lc_holds (\<lambda>g. txn_work t g \<and> (exact \<longrightarrow> pair_new t g))
      (if exact then
         lc_bind (lc_attempt checkRestartVerify) (\<lambda>verified. case verified of
           Inr _ \<Rightarrow> lc_ret ((jof t ph None)\<lparr>jr_Phase := ''terminal_desired''\<rparr>, ?r 0 [])
         | Inl _ \<Rightarrow>
             lc_bind (back_to_old (tx_env t) (tx_journal t) (jof t ph None)) (\<lambda>j'. lc_ret (j', ?r (-1)
               ''recovered desired runtime verification failed; exact old pair restored and verified'')))
       else
         lc_bind (back_to_old (tx_env t) (tx_journal t) (jof t ph None)) (\<lambda>j'. lc_ret (j', ?r (-1)
           ''linechain transaction interrupted; exact old pair restored''))) (decided t) (txn_work t)" for exact
    using holds_verified [OF t, of "?r 0 []" "?r (-1) _" ph] holds_back_decided [OF t, of "?r (-1) _" ph]
    by (auto simp: recovered_result_def succeeded_def)
  ultimately show ?thesis unfolding decide_def jof_simps(1) by (rule holds_bind)
qed

lemma holds_final:
  assumes t: "txn_ok t"
  shows "lc_holds (decided t (j, r)) (writeJournal (tx_env t) (tx_journal t) (j\<lparr>jr_Result := Some r\<rparr>))
     (\<lambda>_ g. txn_final t g \<and> result_true t g r) (txn_inv t)"
proof (rule holds_journal)
  fix g b assume g: "decided t (j, r) g" and b: "le_marshal (tx_env t) (j\<lparr>jr_Result := Some r\<rparr>) = Some b"
  then have f: "final_text t g b" "result_true t g r" "txn_work t g"
    unfolding decided_def final_text_def by (force, auto)
  then show "txn_final t (g(tx_journal t := [Some b])) \<and> result_true t (g(tx_journal t := [Some b])) r"
    by (simp add: journal_frame [OF t] txn_final_def txn_work_def)
  show "txn_inv t (g(tx_journal t := Some b # g (tx_journal t)))"
    using f by (auto simp: journal_frame [OF t] txn_inv_def txn_final_def txn_work_def split: option.splits)
qed (auto simp: decided_def work_inv)

subsection \<open>Reading the journal\<close>

lemma seen_journal:
  assumes t: "txn_ok t" and g: "txn_inv t g" "hd (g (tx_journal t)) = Some b" "le_decode (tx_env t) b = Some j"
  shows "open_at t j g \<or> final_at t j g"
proof -
  have b: "Some b \<in> set (g (tx_journal t))"
    using g(1,2) hd_in_set [of "g (tx_journal t)"] by (force simp: txn_inv_def txn_idle_def txn_work_def txn_final_def files_ok_def)
  have "\<not> txn_idle t g" using b by (auto simp: txn_idle_def)
  moreover have "txn_work t g \<Longrightarrow> open_text t g b" using b by (force simp: txn_work_def)
  ultimately consider "txn_work t g" "open_text t g b" | "txn_final t g" "final_text t g b"
    using g(1,2) by (auto simp: txn_inv_def txn_final_def)
  then show ?thesis
    using jof_decode [OF t] g(3) by cases (auto simp: open_at_def final_at_def open_text_def final_text_def)
qed

lemma seen_inv: "open_at t j g \<or> final_at t j g \<Longrightarrow> txn_inv t g"
  by (auto simp: open_at_def final_at_def txn_inv_def)

lemma holds_readJournal:
  assumes t: "txn_ok t"
  shows "lc_holds (txn_inv t) (readJournal (tx_env t) (tx_journal t)) (\<lambda>j g. open_at t j g \<or> final_at t j g) (txn_inv t)"
  unfolding readJournal_def
proof (rule holds_bind [OF holds_call])
  show "lc_holds (txn_inv t) (\<lambda>w. case seen_at w (tx_journal t) of
         None \<Rightarrow> (Inl NotFound, w)
       | Some b \<Rightarrow>
           (if length b > maxDocumentSize then (Inl (Fault ''linechain journal exceeds''), w)
            else case le_decode (tx_env t) b of
              None \<Rightarrow> (Inl (Fault ''decode''), w)
            | Some j \<Rightarrow>
                (if jr_Version j \<noteq> journalVersion \<or> jr_TaskID j = [] \<or> jr_LeaseID j = []
                 then (Inl (Fault ''invalid linechain journal identity''), w) else (Inr j, w))))
      (\<lambda>j g. open_at t j g \<or> final_at t j g) (txn_inv t)"
    by (rule holdsI) (use seen_journal [OF t] in \<open>auto simp: seen_at_def split: option.splits if_splits\<close>)
qed auto

lemma holds_validateJournal:
  assumes "\<And>g. A g \<Longrightarrow> E g"
  shows "lc_holds A (validateJournal env m jp j) (\<lambda>_. A) E"
proof -
  have c: "lc_holds A (check_backup env p had want) (\<lambda>_. A) E" for p had want
    unfolding check_backup_def by (rule holds_bind [OF holds_read]) (use assms in \<open>auto intro!: holds_fail holds_ret\<close>)
  show ?thesis
    unfolding validateJournal_def Let_def
    by (intro if_holds holds_fail holds_ret holds_bind [OF c] c) (auto intro: assms)
qed

text \<open>From a journal that was read: a result that is true of the files.\<close>

lemma holds_settled:
  assumes t: "txn_ok t"
    and d: "\<And>ph. ph \<in> openPhases \<Longrightarrow>
      lc_holds (\<lambda>g. txn_work t g \<and> (ph = ''desired_verified'' \<longrightarrow> sure t g)) (f (jof t ph None)) (decided t) (txn_work t)"
  shows "lc_holds (\<lambda>g. open_at t j g \<or> final_at t j g)
     (case jr_Result j of
        Some r \<Rightarrow> lc_ret r
      | None \<Rightarrow>
          lc_bind (f j) (\<lambda>(j', r).
          lc_bind (writeJournal (tx_env t) (tx_journal t) (j'\<lparr>jr_Result := Some r\<rparr>)) (\<lambda>_. lc_ret r)))
     (\<lambda>r g. txn_final t g \<and> result_true t g r) (txn_inv t)"
proof (cases "jr_Result j")
  case None
  have "lc_holds (open_at t j) (f j) (decided t) (txn_inv t)"
  proof (cases "\<exists>ph \<in> openPhases. j = jof t ph None")
    case True
    then obtain ph where ph: "ph \<in> openPhases" "j = jof t ph None" by blast
    show ?thesis
      unfolding ph(2) by (rule holds_pre [OF _ holds_post [OF d [OF ph(1)]]])
        (auto simp: open_at_def work_inv dest: arg_cong [of _ _ jr_Phase])
  next
    case False
    then show ?thesis unfolding lc_holds_def open_at_def by blast
  qed
  then have "lc_holds (open_at t j)
      (lc_bind (f j) (\<lambda>(j', r).
        lc_bind (writeJournal (tx_env t) (tx_journal t) (j'\<lparr>jr_Result := Some r\<rparr>)) (\<lambda>_. lc_ret r)))
      (\<lambda>r g. txn_final t g \<and> result_true t g r) (txn_inv t)"
    by (rule holds_bind) (auto intro!: holds_bind [OF holds_final [OF t]] holds_ret)
  then show ?thesis
    using None by (auto simp: final_at_def elim!: holds_pre [rotated])
next
  case (Some r)
  then show ?thesis by (auto simp: open_at_def final_at_def intro!: holds_ret)
qed

lemma holds_recoverOne:
  assumes t: "txn_ok t"
  shows "lc_holds (txn_inv t) (recoverOne (tx_env t) m (tx_journal t) False node script expected now)
     (\<lambda>r g. txn_final t g \<and> result_true t g r) (txn_inv t)"
  unfolding recoverOne_def
proof (rule holds_bind [OF holds_readJournal [OF t]], rule holds_bind [OF holds_validateJournal])
  fix j
  let ?S = "\<lambda>g. open_at t j g \<or> final_at t j g"
  show "lc_holds ?S
      (if script \<noteq> [] \<and> jr_TaskScriptSHA j \<noteq> script
       then lc_fail (Fault ''linechain retry task script does not match journal authority'')
       else if \<not> authority_holds (tx_env t) j expected
       then lc_fail (Fault ''linechain journal changed after authority capture'')
       else
         lc_bind
           (case jr_Result j of
              Some r \<Rightarrow> lc_ret r
            | None \<Rightarrow>
                lc_bind (decide (tx_env t) (tx_journal t) node now j) (\<lambda>(j', r).
                lc_bind (writeJournal (tx_env t) (tx_journal t) (j'\<lparr>jr_Result := Some r\<rparr>)) (\<lambda>_. lc_ret r)))
           (\<lambda>r. if False
                then lc_bind lc_call (\<lambda>_. lc_bind (Cleanup (tx_env t) m (jr_TaskID j) (jr_LeaseID j)) (\<lambda>_. lc_ret r))
                else lc_ret r))
      (\<lambda>r g. txn_final t g \<and> result_true t g r) (txn_inv t)"
    (is "lc_holds _ (if _ then _ else if _ then _ else lc_bind ?m _) ?B _")
  proof -
    have f: "lc_holds ?S (lc_fail e) ?B (txn_inv t)" for e by (rule holds_fail) (rule seen_inv)
    have "lc_holds ?S (lc_bind ?m lc_ret) ?B (txn_inv t)"
      by (rule holds_bind [OF holds_settled [OF t holds_decide [OF t]] holds_ret])
    then show ?thesis by (simp add: f)
  qed
qed (rule seen_inv)

subsection \<open>Resolving\<close>

lemma holds_resolve_open:
  assumes t: "txn_ok t"
  shows "lc_holds (\<lambda>g. txn_work t g \<and> (ph = ''desired_verified'' \<longrightarrow> sure t g))
     (resolve_open (tx_env t) (tx_journal t) (jof t ph None) r) (decided t) (txn_work t)"
proof (cases "succeeded r \<and> ph = ''desired_verified''")
  case True
  let ?r = "r\<lparr>tr_ExitCode := -1, tr_Error :=
    ''desired linechain runtime verification failed after helper return; exact old pair restored and verified''\<rparr>"
  have "lc_holds (\<lambda>g. txn_work t g \<and> sure t g) (pairMatches (tx_env t) (jof t ph None) True)
      (\<lambda>exact g. txn_work t g \<and> (exact \<longrightarrow> pair_new t g)) (txn_work t)"
    by (rule holds_post [OF holds_pairMatches [where E = "txn_work t"]]) (auto dest: pair_exact [OF t, rotated])
  moreover have "lc_holds (\<lambda>g. txn_work t g \<and> (exact \<longrightarrow> pair_new t g))
      (if \<not> exact then lc_fail (Fault ''desired linechain pair is not exact'')
       else lc_bind (lc_attempt checkRestartVerify) (\<lambda>verified. case verified of
            Inr _ \<Rightarrow> lc_ret ((jof t ph None)\<lparr>jr_Phase := ''terminal_desired''\<rparr>, r)
          | Inl _ \<Rightarrow> lc_bind (back_to_old (tx_env t) (tx_journal t) (jof t ph None)) (\<lambda>j'. lc_ret (j', ?r))))
      (decided t) (txn_work t)" for exact
  proof (cases exact)
    case True
    show ?thesis
      by (simp only: True not_True_eq_False if_False simp_thms, rule holds_verified [OF t])
        (use \<open>succeeded r \<and> _\<close> in \<open>simp_all add: succeeded_def\<close>)
  qed (auto intro: holds_fail)
  ultimately have "lc_holds (\<lambda>g. txn_work t g \<and> sure t g)
      (lc_bind (pairMatches (tx_env t) (jof t ph None) True) (\<lambda>exact.
        if \<not> exact then lc_fail (Fault ''desired linechain pair is not exact'')
        else lc_bind (lc_attempt checkRestartVerify) (\<lambda>verified. case verified of
            Inr _ \<Rightarrow> lc_ret ((jof t ph None)\<lparr>jr_Phase := ''terminal_desired''\<rparr>, r)
          | Inl _ \<Rightarrow> lc_bind (back_to_old (tx_env t) (tx_journal t) (jof t ph None)) (\<lambda>j'. lc_ret (j', ?r)))))
      (decided t) (txn_work t)"
    by (rule holds_bind)
  moreover have "tr_ExitCode r = 0 \<and> tr_Error r = [] \<and> jr_Phase (jof t ph None) = ''desired_verified''"
    using True by (simp add: succeeded_def)
  ultimately show ?thesis
    using True by (simp only: resolve_open_def if_True simp_thms)
next
  case False
  have "lc_holds (txn_work t)
      (lc_bind (back_to_old (tx_env t) (tx_journal t) (jof t ph None)) (\<lambda>j'. lc_ret (j', failed_result r)))
      (decided t) (txn_work t)"
    by (rule holds_back_decided [OF t]) (auto simp: succeeded_def failed_result_def Let_def)
  then have "lc_holds (\<lambda>g. txn_work t g \<and> (ph = ''desired_verified'' \<longrightarrow> sure t g))
      (lc_bind (back_to_old (tx_env t) (tx_journal t) (jof t ph None)) (\<lambda>j'. lc_ret (j', failed_result r)))
      (decided t) (txn_work t)"
    by (rule holds_pre [rotated]) blast
  then show ?thesis using False unfolding resolve_open_def succeeded_def by auto
qed

lemma finished_succeeded [simp]: "succeeded (finished now r) = succeeded r"
  by (simp add: finished_def succeeded_def)

lemma idle_if_none: "txn_inv t g \<Longrightarrow> hd (g (tx_journal t)) = None \<Longrightarrow> txn_idle t g"
  by (auto simp: txn_inv_def txn_work_def txn_final_def)

text \<open>A journal that is not found is none at all.\<close>

lemma readJournal_none: "readJournal env p w = (Inl NotFound, w') \<Longrightarrow> hd (poss w' p) = None"
  by (auto simp: readJournal_def lc_call_def lc_bind_def lc_ask_def lc_ret_def lc_fail_def seen_at_def
      split: list.splits lc_answer.splits option.splits if_splits)

lemma holds_attempt_readJournal:
  assumes t: "txn_ok t"
  shows "lc_holds (txn_inv t) (lc_attempt (readJournal (tx_env t) (tx_journal t)))
     (\<lambda>x g. case x of Inl e \<Rightarrow> txn_inv t g \<and> (e = NotFound \<longrightarrow> txn_idle t g) | Inr j \<Rightarrow> open_at t j g \<or> final_at t j g) (txn_inv t)"
proof (rule holdsI)
  fix w e w' assume w: "txn_inv t (poss w)" "lc_attempt (readJournal (tx_env t) (tx_journal t)) w = (Inl e, w')"
  then show "txn_inv t (poss w')"
    using holdsD(1) [OF holds_readJournal [OF t] w(1)] by (auto simp: lc_attempt_def split: prod.splits sum.splits if_splits)
next
  fix w x w' assume w: "txn_inv t (poss w)" "lc_attempt (readJournal (tx_env t) (tx_journal t)) w = (Inr x, w')"
  show "case x of Inl e \<Rightarrow> txn_inv t (poss w') \<and> (e = NotFound \<longrightarrow> txn_idle t (poss w'))
      | Inr j \<Rightarrow> open_at t j (poss w') \<or> final_at t j (poss w')"
  proof (cases x)
    case (Inl e)
    then have r: "readJournal (tx_env t) (tx_journal t) w = (Inl e, w')"
      using w(2) by (auto simp: lc_attempt_def split: prod.splits sum.splits if_splits)
    have "txn_inv t (poss w')" by (rule holdsD(1) [OF holds_readJournal [OF t] w(1) r])
    then show ?thesis using Inl r idle_if_none readJournal_none by auto
  next
    case (Inr j)
    then have "readJournal (tx_env t) (tx_journal t) w = (Inr j, w')"
      using w(2) by (auto simp: lc_attempt_def split: prod.splits sum.splits if_splits)
    then show ?thesis using Inr holdsD(2) [OF holds_readJournal [OF t] w(1)] by simp
  qed
qed

lemma holds_ResolveAfterRun:
  assumes t: "txn_ok t"
  shows "lc_holds (txn_inv t) (ResolveAfterRun (tx_env t) (tx_mgr t) (tx_task t) (tx_lease t) result now)
     (\<lambda>r g. txn_inv t g \<and> result_true t g r) (txn_inv t)"
  unfolding ResolveAfterRun_def Let_def tx_journal_def [symmetric]
proof (rule holds_bind [OF holds_attempt_readJournal [OF t]])
  fix x
  show "lc_holds
     (\<lambda>g. case x of Inl e \<Rightarrow> txn_inv t g \<and> (e = NotFound \<longrightarrow> txn_idle t g) | Inr j \<Rightarrow> open_at t j g \<or> final_at t j g)
     (case x of
        Inl e \<Rightarrow>
          (if e = NotFound \<and> (tr_ExitCode result \<noteq> 0 \<or> tr_Error result \<noteq> [])
           then lc_ret (finished now result) else lc_fail e)
      | Inr j \<Rightarrow>
          (case jr_Result j of
             Some r \<Rightarrow> lc_ret r
           | None \<Rightarrow>
               lc_bind (resolve_open (tx_env t) (tx_journal t) j (finished now result)) (\<lambda>(j', r).
               lc_bind (writeJournal (tx_env t) (tx_journal t) (j'\<lparr>jr_Result := Some r\<rparr>)) (\<lambda>_. lc_ret r))))
     (\<lambda>r g. txn_inv t g \<and> result_true t g r) (txn_inv t)"
  proof (cases x)
    case (Inl e)
    have "\<not> succeeded (finished now result)" if "tr_ExitCode result \<noteq> 0 \<or> tr_Error result \<noteq> []"
      using that by (simp add: succeeded_def [of result])
    then have "lc_holds (\<lambda>g. txn_inv t g \<and> (e = NotFound \<longrightarrow> txn_idle t g))
        (if e = NotFound \<and> (tr_ExitCode result \<noteq> 0 \<or> tr_Error result \<noteq> [])
         then lc_ret (finished now result) else lc_fail e) (\<lambda>r g. txn_inv t g \<and> result_true t g r) (txn_inv t)"
      by (auto simp: result_true_def txn_idle_def simp del: finished_succeeded intro: holds_ret holds_fail)
    then show ?thesis by (simp only: Inl sum.case)
  next
    case (Inr j)
    have "lc_holds (\<lambda>g. open_at t j g \<or> final_at t j g)
       (case jr_Result j of
             Some r \<Rightarrow> lc_ret r
           | None \<Rightarrow>
               lc_bind (resolve_open (tx_env t) (tx_journal t) j (finished now result)) (\<lambda>(j', r).
               lc_bind (writeJournal (tx_env t) (tx_journal t) (j'\<lparr>jr_Result := Some r\<rparr>)) (\<lambda>_. lc_ret r)))
       (\<lambda>r g. txn_final t g \<and> result_true t g r) (txn_inv t)"
      by (rule holds_settled [OF t holds_resolve_open [OF t]])
    then have "lc_holds (\<lambda>g. open_at t j g \<or> final_at t j g)
       (case jr_Result j of
             Some r \<Rightarrow> lc_ret r
           | None \<Rightarrow>
               lc_bind (resolve_open (tx_env t) (tx_journal t) j (finished now result)) (\<lambda>(j', r).
               lc_bind (writeJournal (tx_env t) (tx_journal t) (j'\<lparr>jr_Result := Some r\<rparr>)) (\<lambda>_. lc_ret r)))
       (\<lambda>r g. txn_inv t g \<and> result_true t g r) (txn_inv t)"
      by (rule holds_post) (auto simp: txn_inv_def)
    then show ?thesis by (simp only: Inr sum.case)
  qed
qed

end
