(* ===== verification/Linechain_Atomic.thy ===== *)
theory Linechain_Atomic
  imports Linechain_Recovery
begin

text \<open>
  The helper keeps the invariant of a transaction, so do crashes, and so a line chain task is atomic
  (\<open>src/internal/linechain/manager.go\<close>, \<open>Apply\<close>, \<open>ResolveAfterRun\<close>, \<open>recoverOne\<close>).
\<close>

section \<open>Definitions\<close>

text \<open>Before the desired pair is verified, no journal a crash may leave speaks of it and one is there.\<close>

definition earlyPhases :: "string set" where
  "earlyPhases = {''prepared'', ''fragment_published'', ''pair_published''}"

definition early :: "lc_txn \<Rightarrow> lc_view \<Rightarrow> bool" where
  "early t g \<longleftrightarrow>
     files_ok t g \<and> backups_ok t g \<and>
     (\<forall>x \<in> set (g (tx_journal t)). \<exists>ph \<in> earlyPhases. \<exists>b. x = Some b \<and> le_marshal (tx_env t) (jof t ph None) = Some b)"

text \<open>The document a task delivers, with its validated parts.\<close>

definition txn_task :: "lc_txn \<Rightarrow> bool" where
  "txn_task t \<longleftrightarrow> (\<exists>canon. document_of (tx_env t) (tx_mgr t) (tx_raw t) = Inr (tx_doc t, canon)) \<and> trim_space (tx_script t) = tx_script t"

datatype lc_op =
  OpApply gotime
| OpResolve task_result gotime
| OpRecover string "recovery_authority option" gotime
| OpCrash "string \<Rightarrow> nat"

text \<open>A step: the helper, the runner once the helper has ended, the recovery at a start, or a crash of the machine.\<close>

fun lc_step :: "lc_txn \<Rightarrow> lc_op \<Rightarrow> lc_world \<Rightarrow> task_result option \<times> lc_world" where
  "lc_step t (OpApply now) w =
     (None, snd (lc_Apply (tx_env t) (tx_mgr t) (tx_raw t) (tx_task t) (tx_lease t) (tx_script t) now w))"
| "lc_step t (OpResolve result now) w =
     (case ResolveAfterRun (tx_env t) (tx_mgr t) (tx_task t) (tx_lease t) result now w of
        (Inl _, w') \<Rightarrow> (None, w') | (Inr r, w') \<Rightarrow> (Some r, w'))"
| "lc_step t (OpRecover node expected now) w =
     (case recoverOne (tx_env t) (tx_mgr t) (tx_journal t) False node [] expected now w of
        (Inl _, w') \<Rightarrow> (None, w') | (Inr r, w') \<Rightarrow> (Some r, w'))"
| "lc_step t (OpCrash pick) w = (None, after_crash pick w)"

definition lc_next :: "lc_txn \<Rightarrow> lc_op \<times> lc_answer list \<Rightarrow> lc_world \<Rightarrow> task_result option \<times> lc_world" where
  "lc_next t oa w = lc_step t (fst oa) (w\<lparr>lw_io := snd oa\<rparr>)"

definition lc_run :: "lc_txn \<Rightarrow> (lc_op \<times> lc_answer list) list \<Rightarrow> lc_world \<Rightarrow> lc_world" where
  "lc_run t ops w = foldl (\<lambda>w oa. snd (lc_next t oa w)) w ops"

section \<open>Lemmas\<close>

subsection \<open>Publishing\<close>

lemma early_work:
  assumes g: "early t g"
  shows "txn_work t g"
proof -
  have o: "\<exists>b. x = Some b \<and> open_text t g b" if x: "x \<in> set (g (tx_journal t))" for x
  proof -
    obtain ph b where ph: "ph \<in> earlyPhases" "x = Some b" "le_marshal (tx_env t) (jof t ph None) = Some b"
      using g x unfolding early_def by blast
    then have "open_text t g b" by (intro open_textI [OF _ _ ph(3)]) (auto simp: earlyPhases_def openPhases_def)
    with ph(2) show ?thesis by blast
  qed
  have "hd (g (tx_journal t)) \<in> set (g (tx_journal t))" using g by (simp add: early_def files_ok_def)
  from o [OF this] have "hd (g (tx_journal t)) \<noteq> None" by auto
  moreover have "\<forall>x \<in> set (g (tx_journal t)). case x of None \<Rightarrow> pair_old t g | Some b \<Rightarrow> open_text t g b"
    using o by (force split: option.split)
  ultimately show ?thesis using g by (simp add: early_def txn_work_def)
qed

lemma early_fragment:
  assumes t: "txn_ok t" and g: "early t g"
  shows "early t (g(tx_fragment t := [tx_new t]))" "early t (g(tx_fragment t := tx_new t # g (tx_fragment t)))"
  using g txn_paths [OF t] txn_paths' [OF t] by (simp_all add: early_def files_ok_def backups_ok_def)

lemma early_sidecar:
  assumes t: "txn_ok t" and g: "early t g"
  shows "early t (g(tx_sidecar t := [Some (tx_merged t)]))" "early t (g(tx_sidecar t := Some (tx_merged t) # g (tx_sidecar t)))"
  using g txn_paths [OF t] txn_paths' [OF t] by (simp_all add: early_def files_ok_def backups_ok_def)

lemma early_journal:
  assumes t: "txn_ok t" and g: "early t g" and ph: "ph \<in> earlyPhases" and b: "le_marshal (tx_env t) (jof t ph None) = Some b"
  shows "early t (g(tx_journal t := [Some b]))" "early t (g(tx_journal t := Some b # g (tx_journal t)))"
  using g ph b unfolding early_def by (simp_all add: journal_frame [OF t]) blast+

lemma holds_or_rollback:
  assumes t: "txn_ok t" and m: "lc_holds A m (\<lambda>_. B) (txn_work t)"
  shows "lc_holds A (or_rollback (tx_env t) (tx_journal t) (jof t ph None) m) (\<lambda>_. B) (txn_work t)"
  unfolding or_rollback_def
proof (rule holds_bind [OF holds_attempt [OF m]])
  fix x :: "lc_error + unit"
  have "lc_holds (txn_work t) (lc_rollback (tx_env t) (tx_journal t) (jof t ph None) e) (\<lambda>_. B) (txn_work t)" for e
    unfolding lc_rollback_def
    by (rule holds_bind [OF holds_restoreOld [OF t]], rule holds_bind [OF holds_verify]) (auto intro: holds_fail)
  then show "lc_holds (\<lambda>g. case x of Inl _ \<Rightarrow> txn_work t g | Inr _ \<Rightarrow> B g)
      (case x of Inr _ \<Rightarrow> lc_ret () | Inl e \<Rightarrow> lc_rollback (tx_env t) (tx_journal t) (jof t ph None) e) (\<lambda>_. B) (txn_work t)"
    by (cases x) (auto intro: holds_ret)
qed

lemma holds_early_journal:
  assumes t: "txn_ok t" and ph: "ph \<in> earlyPhases" and P: "\<And>g l. l \<noteq> [] \<Longrightarrow> P (g(tx_journal t := l)) = P g"
  shows "lc_holds (\<lambda>g. early t g \<and> P g) (writeJournal (tx_env t) (tx_journal t) (jof t ph None))
     (\<lambda>_ g. early t g \<and> P g) (txn_work t)"
  by (rule holds_journal) (use early_journal [OF t _ ph] P early_work in auto)

lemma holds_publish_pair:
  assumes t: "txn_ok t"
  shows "lc_holds (\<lambda>g. early t g \<and> True) (publish_pair (tx_env t) (tx_journal t) (tx_doc t) (tx_merged t) (jof t ''prepared'' None))
     (\<lambda>_. txn_work t) (txn_work t)"
proof -
  let ?F = "\<lambda>g. set (g (tx_fragment t)) = {tx_new t}"
  note p = txn_paths [OF t] txn_paths' [OF t]
  have f: "lc_holds (\<lambda>g. early t g \<and> True) (publish (tx_fragment t) (tx_new t)) (\<lambda>_ g. early t g \<and> ?F g) (txn_work t)"
    by (rule holds_publish) (use early_fragment [OF t] early_work in auto)
  have s: "lc_holds (\<lambda>g. early t g \<and> ?F g) (publish (tx_sidecar t) (Some (tx_merged t))) (\<lambda>_ g. early t g \<and> pair_new t g) (txn_work t)"
    by (rule holds_publish) (use early_sidecar [OF t] early_work p in \<open>auto simp: pair_new_def\<close>)
  have d: "lc_holds (\<lambda>g. early t g \<and> pair_new t g) (writeJournal (tx_env t) (tx_journal t) (jof t ''desired_verified'' None))
      (\<lambda>_. txn_work t) (txn_work t)"
  proof (rule holds_journal)
    fix g b assume g: "early t g \<and> pair_new t g" and b: "le_marshal (tx_env t) (jof t ''desired_verified'' None) = Some b"
    then have "open_text t g b"
      unfolding open_text_def by (intro bexI [of _ "''desired_verified''"]) (auto simp: pair_new_def sure_def openPhases_def)
    then show "txn_work t (g(tx_journal t := [Some b]))" "txn_work t (g(tx_journal t := Some b # g (tx_journal t)))"
      using work_journal [OF t early_work b] g by auto
  qed (auto simp: early_work)
  show ?thesis
    unfolding publish_pair_def jof_simps tx_fragment_def [symmetric] tx_sidecar_def [symmetric] tx_new_def [symmetric]
    by (rule holds_bind [OF holds_or_rollback [OF t f]], rule holds_bind [OF holds_early_journal [OF t]],
        simp add: earlyPhases_def, simp add: p, rule holds_bind [OF holds_or_rollback [OF t s]],
        rule holds_bind [OF holds_early_journal [OF t]], simp add: earlyPhases_def, simp add: journal_frame [OF t],
        rule holds_bind [OF holds_or_rollback [OF t holds_verify] d]) (simp add: early_work)
qed

lemma idle_hd:
  assumes "txn_idle t g"
  shows "hd (g (tx_fragment t)) = tx_old t" "hd (g (tx_sidecar t)) = Some (tx_side t)"
  using assms set_one(2) unfolding txn_idle_def pair_old_def files_ok_def by metis+

lemma idle_backup:
  assumes t: "txn_ok t" and g: "txn_idle t g" and l: "l \<noteq> []"
  shows "tx_old t \<noteq> None \<Longrightarrow> txn_idle t (g(fragment_backup (tx_journal t) := l))"
    "txn_idle t (g(sidecar_backup (tx_journal t) := l))"
  using g l txn_paths [OF t] txn_paths' [OF t]
  unfolding txn_idle_def files_ok_def pair_old_def by simp_all force

lemma holds_backup_fragment:
  assumes t: "txn_ok t"
  shows "lc_holds (txn_idle t) (writeBackup (fragment_backup (tx_journal t)) (tx_old t))
     (\<lambda>_ g. txn_idle t g \<and> set (g (fragment_backup (tx_journal t))) = {tx_old t}) (txn_idle t)"
proof (cases "tx_old t")
  case None
  then show ?thesis by (auto simp: writeBackup_def txn_idle_def files_ok_def intro!: holds_ret)
next
  case (Some d)
  then show ?thesis
    using idle_backup(1) [OF t] by (auto simp: writeBackup_def lc_writeFile_def intro!: holds_replace)
qed

lemma holds_backup_sidecar:
  assumes t: "txn_ok t"
  shows "lc_holds (\<lambda>g. txn_idle t g \<and> set (g (fragment_backup (tx_journal t))) = {tx_old t})
     (writeBackup (sidecar_backup (tx_journal t)) (Some (tx_side t))) (\<lambda>_ g. txn_idle t g \<and> backups_ok t g) (txn_idle t)"
  using idle_backup(2) [OF t] txn_paths [OF t]
  by (auto simp: writeBackup_def lc_writeFile_def backups_ok_def intro!: holds_replace)

lemma holds_prepare:
  assumes t: "txn_ok t"
  shows "lc_holds (\<lambda>g. txn_idle t g \<and> backups_ok t g) (writeJournal (tx_env t) (tx_journal t) (jof t ''prepared'' None))
     (\<lambda>_ g. early t g \<and> True) (txn_inv t)"
proof (rule holds_journal)
  fix g b assume g: "txn_idle t g \<and> backups_ok t g" and b: "le_marshal (tx_env t) (jof t ''prepared'' None) = Some b"
  show "early t (g(tx_journal t := [Some b])) \<and> True"
    using g b by (auto simp: early_def earlyPhases_def journal_frame [OF t] txn_idle_def)
  have "open_text t g b" by (rule open_textI [OF _ _ b]) (auto simp: openPhases_def)
  then show "txn_inv t (g(tx_journal t := Some b # g (tx_journal t)))"
    using g by (auto simp: txn_inv_def txn_work_def journal_frame [OF t] txn_idle_def)
qed (auto simp: txn_inv_def)

lemma holds_begin:
  assumes t: "txn_ok t"
  shows "lc_holds (txn_idle t)
     (begin_transaction (tx_env t) (tx_journal t) (tx_task t) (tx_lease t) (tx_script t) (tx_doc t)) (\<lambda>_. txn_inv t) (txn_inv t)"
proof -
  have w: "lc_holds (txn_idle t)
     (lc_bind (writeBackup (fragment_backup (tx_journal t)) (tx_old t)) (\<lambda>_.
      lc_bind (writeBackup (sidecar_backup (tx_journal t)) (Some (tx_side t))) (\<lambda>_.
      lc_bind (writeJournal (tx_env t) (tx_journal t) (jof t ''prepared'' None)) (\<lambda>_.
        publish_pair (tx_env t) (tx_journal t) (tx_doc t) (tx_merged t) (jof t ''prepared'' None)))))
     (\<lambda>_. txn_inv t) (txn_inv t)"
    by (rule holds_bind [OF holds_post [OF holds_backup_fragment [OF t]]], assumption, simp add: txn_inv_def,
        rule holds_bind [OF holds_post [OF holds_backup_sidecar [OF t]]], assumption, simp add: txn_inv_def,
        rule holds_bind [OF holds_prepare [OF t]], rule holds_post [OF holds_publish_pair [OF t]])
      (auto simp: work_inv)
  have j: "new_journal (tx_env t) (tx_task t) (tx_lease t) (tx_script t) (tx_doc t) (tx_old t) (Some (tx_side t)) (tx_merged t)
      = jof t ''prepared'' None"
    by (simp add: jof_def new_journal_def)
  have m: "mergeManagedSidecar (le_json (tx_env t)) (tx_side t) (ld_SidecarPatch (tx_doc t)) = Inr (tx_merged t)"
    using t by (simp add: txn_ok_def)
  let ?I = "\<lambda>x y g. x = tx_old t \<and> y = Some (tx_side t) \<and> txn_idle t g"
  have r: "lc_holds (?I x y) m' B E" if "lc_holds (txn_idle t) (if x = tx_old t \<and> y = Some (tx_side t) then m' else m'') B E"
    for x y m' m'' B E
    using that by (auto simp: lc_holds_def)
  show ?thesis
    unfolding begin_transaction_def tx_fragment_def [symmetric] tx_sidecar_def [symmetric]
  proof (rule holds_bind [OF holds_read], goal_cases)
    case (2 x)
    show ?case
    proof (rule holds_bind [OF holds_read], goal_cases)
      case (2 y)
      show ?case
        by (rule holds_pre [where A' = "?I x y"], simp add: idle_hd, rule holds_fact, rule holds_fact)
          (use w in \<open>auto simp: m j Let_def txn_inv_def intro!: holds_fail\<close>)
    qed (auto simp: txn_inv_def)
  qed (auto simp: txn_inv_def)
qed

lemma holds_validateDocument:
  assumes "\<And>g. A g \<Longrightarrow> E g"
  shows "lc_holds A (validateDocument env m d canonical) (\<lambda>_. A) E"
proof -
  have f: "lc_holds A (lc_fail e) (\<lambda>_. A) E" for e :: lc_error by (rule holds_fail [OF assms])
  have c: "lc_holds A (lc_bind (validateParents p) (\<lambda>_. lc_bind (validateParents q) (\<lambda>_. if b then lc_fail e else lc_ret ()))) (\<lambda>_. A) E"
    for p q b e
    unfolding validateParents_def
    by (intro holds_bind [OF holds_call] if_holds f holds_ret) (auto intro: assms)
  show ?thesis
    unfolding validateDocument_def Let_def
    by (cases "verifySemanticArtifactBinding (le_json env) (ld_Fragment d) canonical (document_binding d) (ld_ArtifactSHA256 d)";
        simp only: option.case; intro if_holds f c)
qed

lemma holds_apply_document:
  assumes t: "txn_ok t"
  shows "lc_holds (txn_inv t)
     (apply_document (tx_env t) (tx_mgr t) (tx_task t) (tx_lease t) (tx_script t) (tx_doc t) now) (\<lambda>_. txn_inv t) (txn_inv t)"
  unfolding apply_document_def Let_def tx_journal_def [symmetric]
proof (rule holds_bind [OF holds_call])
  fix u
  let ?r = "lc_bind (recoverOne (tx_env t) (tx_mgr t) (tx_journal t) False [] (tx_script t) None now) (\<lambda>_. lc_ret ())"
  let ?b = "begin_transaction (tx_env t) (tx_journal t) (tx_task t) (tx_lease t) (tx_script t) (tx_doc t)"
  have r: "lc_holds (txn_inv t) ?r (\<lambda>_. txn_inv t) (txn_inv t)"
    by (rule holds_bind [OF holds_recoverOne [OF t] holds_ret]) (auto simp: txn_inv_def)
  have b: "lc_holds (\<lambda>g. txn_inv t g \<and> hd (g (tx_journal t)) = None) ?b (\<lambda>_. txn_inv t) (txn_inv t)"
    by (rule holds_pre [OF _ holds_begin [OF t]]) (auto intro: idle_if_none)
  show "lc_holds (txn_inv t) (\<lambda>w. if seen_at w (tx_journal t) \<noteq> None then ?r w else ?b w) (\<lambda>_. txn_inv t) (txn_inv t)"
    using r b unfolding lc_holds_def seen_at_def by simp
qed auto

lemma holds_Apply:
  assumes t: "txn_ok t" "txn_task t"
  shows "lc_holds (txn_inv t)
     (lc_Apply (tx_env t) (tx_mgr t) (tx_raw t) (tx_task t) (tx_lease t) (tx_script t) now) (\<lambda>_. txn_inv t) (txn_inv t)"
proof -
  obtain canon where d: "document_of (tx_env t) (tx_mgr t) (tx_raw t) = Inr (tx_doc t, canon)" "trim_space (tx_script t) = tx_script t"
    using t(2) by (auto simp: txn_task_def)
  show ?thesis
    unfolding lc_Apply_def d sum.case prod.case
    by (intro if_holds holds_fail holds_bind [OF holds_call] holds_bind [OF holds_validateDocument] holds_apply_document [OF t(1)]) auto
qed

subsection \<open>Crashes and runs\<close>

lemma map_of_pick: "map_of (map (\<lambda>(p, l). (p, [h p l])) fs) p = map_option (\<lambda>l. [h p l]) (map_of fs p)"
  by (induction fs) auto

lemma crash_one:
  assumes "poss w p \<noteq> []"
  shows "\<exists>x \<in> set (poss w p). poss (after_crash pick w) p = [x]"
proof (cases "map_of (lw_files w) p")
  case (Some l)
  then have "l \<noteq> []" using assms by (simp add: poss_def)
  with Some show ?thesis by (simp add: poss_def after_crash_def map_of_pick)
qed (simp add: poss_def after_crash_def map_of_pick)

lemma crash_inv:
  assumes t: "txn_ok t" and g: "txn_inv t g" and c: "\<And>p. \<exists>x \<in> set (g p). g' p = [x]"
  shows "txn_inv t g'"
proof -
  have sub: "set (g' p) \<subseteq> set (g p)" "g' p \<noteq> []" for p using c [of p] by auto
  have one: "set (g p) = {x} \<Longrightarrow> set (g' p) = {x}" for p x using c [of p] by auto
  have f: "files_ok t g \<Longrightarrow> files_ok t g'" 
    by (simp add: files_ok_def sub(2) subset_trans [OF sub(1)] one)
  have b: "backups_ok t g \<Longrightarrow> backups_ok t g'" using one unfolding backups_ok_def by blast
  have o: "pair_old t g \<Longrightarrow> pair_old t g'" and n: "pair_new t g \<Longrightarrow> pair_new t g'"
    using one unfolding pair_old_def pair_new_def by blast+
  have r: "result_true t g x \<Longrightarrow> result_true t g' x" for x using o n by (simp add: result_true_def)
  have "sure t g'" using c [of "tx_fragment t"] c [of "tx_sidecar t"] by (auto simp: sure_def)
  then have ot: "open_text t g y \<Longrightarrow> open_text t g' y" for y by (auto simp: open_text_def)
  have ft: "final_text t g y \<Longrightarrow> final_text t g' y" for y using r unfolding final_text_def by blast
  obtain x where x: "x \<in> set (g (tx_journal t))" "g' (tx_journal t) = [x]" using c by blast
  consider "txn_idle t g" | "txn_work t g" | "txn_final t g" using g by (auto simp: txn_inv_def)
  then show ?thesis
  proof cases
    case 1
    then have "txn_idle t g'" using f o one unfolding txn_idle_def by blast
    then show ?thesis by (simp add: txn_inv_def)
  next
    case 2
    then have "case x of None \<Rightarrow> pair_old t g | Some b \<Rightarrow> open_text t g b" using x(1) by (simp add: txn_work_def)
    then show ?thesis
      using 2 x(2) f b o ot by (cases x) (auto simp: txn_inv_def txn_idle_def txn_work_def)
  next
    case 3
    then have "case x of None \<Rightarrow> pair_old t g | Some b \<Rightarrow> open_text t g b \<or> final_text t g b"
      using x(1) by (simp add: txn_final_def)
    then show ?thesis
      using 3 x(2) f b o ot ft by (cases x) (auto simp: txn_inv_def txn_idle_def txn_work_def txn_final_def)
  qed
qed

lemma inv_nonempty: "txn_inv t g \<Longrightarrow> g p \<noteq> []"
  by (auto simp: txn_inv_def txn_idle_def txn_work_def txn_final_def files_ok_def)

lemma lc_next_inv:
  assumes t: "txn_ok t" "txn_task t" and w: "txn_inv t (poss w)"
  shows "txn_inv t (poss (snd (lc_next t oa w)))"
    "fst (lc_next t oa w) = Some r \<Longrightarrow> result_true t (poss (snd (lc_next t oa w))) r"
proof -
  obtain op as where oa: "oa = (op, as)" by fastforce
  have w': "txn_inv t (poss (w\<lparr>lw_io := as\<rparr>))" using w by simp
  have "txn_inv t (poss (snd (lc_next t oa w))) \<and>
    (fst (lc_next t oa w) = Some r \<longrightarrow> result_true t (poss (snd (lc_next t oa w))) r)"
  proof (cases op)
    case (OpApply now)
    then show ?thesis
      using holdsD [OF holds_Apply [OF t, of now] w']
      by (cases "lc_Apply (tx_env t) (tx_mgr t) (tx_raw t) (tx_task t) (tx_lease t) (tx_script t) now (w\<lparr>lw_io := as\<rparr>)")
        (auto simp: lc_next_def oa split: sum.splits elim: sumE)
  next
    case (OpResolve result now)
    then show ?thesis
      using holdsD [OF holds_ResolveAfterRun [OF t(1), of result now] w']
      by (auto simp: lc_next_def oa split: prod.splits sum.splits)
  next
    case (OpRecover node expected now)
    then show ?thesis
      using holdsD [OF holds_recoverOne [OF t(1), of "tx_mgr t" node "[]" expected now] w']
      by (auto simp: lc_next_def oa txn_inv_def split: prod.splits sum.splits)
  next
    case (OpCrash pick)
    then show ?thesis
      using crash_inv [OF t(1) w' crash_one [OF inv_nonempty [OF w']]] by (simp add: lc_next_def oa)
  qed
  then show "txn_inv t (poss (snd (lc_next t oa w)))"
    "fst (lc_next t oa w) = Some r \<Longrightarrow> result_true t (poss (snd (lc_next t oa w))) r" by auto
qed

lemma lc_run_inv:
  "txn_ok t \<Longrightarrow> txn_task t \<Longrightarrow> txn_inv t (poss w) \<Longrightarrow> txn_inv t (poss (lc_run t ops w))"
  by (induction ops arbitrary: w) (auto simp: lc_run_def lc_next_inv(1))

subsection \<open>Properties\<close>

text \<open>
  C7. Atomicity of a line chain task. Take any run of the helper, of the runner after the helper, of recovery and of
  crashes of the machine, in which every call to the system may fail before or after its effect or the process may die.
  The config fragment is always the old or the desired one and so is the sidecar; any journal that a crash may leave
  with a result tells the truth: a success means that both files are the desired ones, a failure that both are
  the old ones, whatever crash follows; and so does any result an operation returns.
\<close>

theorem linechain_atomic:
  assumes "txn_ok t" "txn_task t" "txn_idle t (poss w0)"
  shows "let w = lc_run t ops w0 in
     set (poss w (tx_fragment t)) \<subseteq> {tx_old t, tx_new t}
     \<and> set (poss w (tx_sidecar t)) \<subseteq> {Some (tx_side t), Some (tx_merged t)}
     \<and> (\<forall>b j r. Some b \<in> set (poss w (tx_journal t)) \<longrightarrow> le_decode (tx_env t) b = Some j \<longrightarrow> jr_Result j = Some r
            \<longrightarrow> result_true t (poss w) r)
     \<and> (\<forall>oa r w'. lc_next t oa w = (Some r, w') \<longrightarrow> result_true t (poss w') r)"
proof -
  let ?w = "lc_run t ops w0"
  have i: "txn_inv t (poss ?w)" by (rule lc_run_inv) (use assms in \<open>auto simp: txn_inv_def\<close>)
  have r: "result_true t (poss ?w) r"
    if "Some b \<in> set (poss ?w (tx_journal t))" "le_decode (tx_env t) b = Some j" "jr_Result j = Some r" for b j r
  proof -
    have "open_text t (poss ?w) b \<or> final_text t (poss ?w) b"
      using i that(1) by (force simp: txn_inv_def txn_idle_def txn_work_def txn_final_def)
    then show ?thesis
      using that(2,3) jof_decode [OF assms(1)] by (auto simp: open_text_def final_text_def)
  qed
  have n: "result_true t (poss w') r" if "lc_next t oa ?w = (Some r, w')" for oa r w'
    using lc_next_inv(2) [OF assms(1,2) i, of oa r] that by simp
  have "files_ok t (poss ?w)" using i by (auto simp: txn_inv_def txn_idle_def txn_work_def txn_final_def)
  then show ?thesis using r n by (simp add: Let_def files_ok_def)
qed

text \<open>A task that makes a line: a codec that knows its texts, and the node before it.\<close>

definition sha_of :: "char \<Rightarrow> string" where "sha_of c = replicate 64 c"

definition lcd_merged :: string where "lcd_merged = ''SUT'' @ chain_text demo_uuid @ [CHR 0x0A]"

definition lcd_sha :: "string \<Rightarrow> string" where
  "lcd_sha s = sha_of (if s = ''F'' then CHR ''a'' else if s = ''D'' then CHR ''b'' else if s = lcd_merged then CHR ''c'' else CHR ''d'')"

definition lcd_codec :: lc_json where
  "lcd_codec = demo_json
     \<lparr>js_sha256 := lcd_sha,
      js_fields := (\<lambda>s. if s = ''R'' then Some (map (\<lambda>f. (f, ''P'')) wireFields)
        else if s = ''P'' then Some (map (\<lambda>f. (f, ''v'')) patchFields) else js_fields demo_json s),
      js_patch := (\<lambda>s. if s = ''P'' then Some demo_patch else None), js_put_patch := (\<lambda>_. Some ''P''),
      js_put_binding := (\<lambda>_. Some ''B'')\<rparr>"

definition lcd_basename :: string where "lcd_basename = ''lattice-linechain-00000000000000000000.json''"

definition lcd_wire :: lc_wire where
  "lcd_wire = \<lparr>wr_Version = 2, wr_DurableProtocol = ''linechain-e3-v2'', wr_Operation = ''create'',
     wr_FragmentBasename = lcd_basename, wr_Fragment = Some ''F'', wr_PreviousFragmentSHA256 = None,
     wr_FragmentSHA256 = Some (lcd_sha ''F''), wr_SidecarPatchSHA256 = lcd_sha ''P'', wr_ArtifactSHA256 = lcd_sha ''B''\<rparr>"

definition lcd_doc :: lc_document where
  "lcd_doc = \<lparr>ld_Operation = ''create'', ld_FragmentBasename = lcd_basename, ld_Fragment = Some ''F'', ld_SidecarPatch = demo_patch,
     ld_PreviousFragmentSHA256 = None, ld_FragmentSHA256 = Some (lcd_sha ''F''), ld_SidecarPatchSHA256 = lcd_sha ''P'',
     ld_ArtifactSHA256 = lcd_sha ''B'', ld_FragmentPath = ''/c/'' @ lcd_basename, ld_SidecarPath = ''/s/m''\<rparr>"

text \<open>Journals as the texts of their phases.\<close>

definition lcd_journal :: "string \<Rightarrow> task_result option \<Rightarrow> lc_journal" where
  "lcd_journal ph r =
     (new_journal \<lparr>le_json = lcd_codec, le_wire = Map.empty, le_marshal = Map.empty, le_decode = Map.empty, le_marshal_result = Map.empty\<rparr>
        ''t'' ''l'' (sha_of CHR ''e'') lcd_doc None (Some ''D'') lcd_merged)\<lparr>jr_Phase := ph, jr_Result := r\<rparr>"

definition lcd_result :: "int \<Rightarrow> string \<Rightarrow> task_result" where
  "lcd_result = recovered_result (lcd_journal [] None) ''n'' 7"

definition lcd_table :: "(string \<times> lc_journal) list" where
  "lcd_table =
     map (\<lambda>ph. (ph, lcd_journal ph None))
       [''prepared'', ''fragment_published'', ''pair_published'', ''desired_verified'', ''old_restored'']
     @ [(''D'', lcd_journal ''terminal_desired'' (Some (lcd_result 0 []))),
        (''V'', lcd_journal ''terminal_old'' (Some (lcd_result (-1)
           ''recovered desired runtime verification failed; exact old pair restored and verified''))),
        (''I'', lcd_journal ''terminal_old'' (Some (lcd_result (-1)
           ''linechain transaction interrupted; exact old pair restored'')))]"

definition lcd_env :: lc_env where
  "lcd_env = \<lparr>le_json = lcd_codec, le_wire = [''R'' \<mapsto> lcd_wire],
     le_marshal = (\<lambda>j. map_option fst (List.find (\<lambda>x. snd x = j) lcd_table)), le_decode = map_of lcd_table,
     le_marshal_result = Map.empty\<rparr>"

definition lcd_txn :: lc_txn where
  "lcd_txn = \<lparr>tx_env = lcd_env, tx_mgr = \<lparr>mg_dir = ''/t'', mg_configDir = ''/c'', mg_sidecarPath = ''/s/m''\<rparr>,
     tx_task = ''t'', tx_lease = ''l'', tx_script = sha_of CHR ''e'', tx_raw = ''R'', tx_doc = lcd_doc, tx_old = None,
     tx_side = ''D'', tx_merged = lcd_merged\<rparr>"

definition lcd_world :: lc_world where
  "lcd_world = \<lparr>lw_files = [(''/s/m'', [Some ''D''])], lw_io = []\<rparr>"

lemma lcd_patch_canonical: "canonicalSemanticSidecarPatch lcd_codec ''P'' = Inr (demo_patch, ''P'')" by code_simp
lemma lcd_binding: "verifySemanticArtifactBinding lcd_codec (Some ''F'') ''P'' (document_binding lcd_doc) (lcd_sha ''B'') = None"
  by code_simp
lemma lcd_fields: "js_fields lcd_codec ''R'' = Some (map (\<lambda>f. (f, ''P'')) wireFields)" by (simp add: lcd_codec_def)
lemma lcd_basename_ok: "linechainBasenameRE lcd_basename" "path_base lcd_basename = lcd_basename"
  "path_join ''/c'' lcd_basename = ''/c/'' @ lcd_basename" by code_simp+
lemma lcd_document: "document_of lcd_env \<lparr>mg_dir = ''/t'', mg_configDir = ''/c'', mg_sidecarPath = ''/s/m''\<rparr> ''R'' = Inr (lcd_doc, ''P'')"
proof -
  have f: "\<not> list_ex (\<lambda>name. map_of (map (\<lambda>f. (f, ''P'')) wireFields) name = None) wireFields"
    "map_of (map (\<lambda>f. (f, ''P'')) wireFields) ''sidecar_patch'' = Some ''P''" by code_simp+
  show ?thesis
    using lcd_binding
    by (simp add: document_of_def maxDocumentSize_def lcd_env_def lcd_wire_def lcd_fields lcd_basename_ok lcd_patch_canonical f lcd_doc_def)
qed
lemma lcd_merge: "mergeManagedSidecar lcd_codec ''D'' demo_patch = Inr lcd_merged" by code_simp
lemma lcd_paths:
  "distinct [tx_journal lcd_txn, fragment_backup (tx_journal lcd_txn), sidecar_backup (tx_journal lcd_txn), tx_fragment lcd_txn, tx_sidecar lcd_txn]" by code_simp
lemma lcd_codec_ok: "le_marshal lcd_env j = Some b \<Longrightarrow> le_decode lcd_env b = Some j"
  unfolding lcd_env_def lcd_table_def by (auto split: if_splits)

lemma lcd_simps [simp]:
  "tx_env lcd_txn = lcd_env" "tx_mgr lcd_txn = \<lparr>mg_dir = ''/t'', mg_configDir = ''/c'', mg_sidecarPath = ''/s/m''\<rparr>"
  "tx_task lcd_txn = ''t''" "tx_lease lcd_txn = ''l''" "tx_script lcd_txn = sha_of CHR ''e''" "tx_raw lcd_txn = ''R''"
  "tx_doc lcd_txn = lcd_doc" "tx_old lcd_txn = None" "tx_side lcd_txn = ''D''" "tx_merged lcd_txn = lcd_merged"
  "tx_new lcd_txn = Some ''F''" "le_json lcd_env = lcd_codec" "ld_SidecarPatch lcd_doc = demo_patch"
  "tx_fragment lcd_txn = ''/c/'' @ lcd_basename" "tx_sidecar lcd_txn = ''/s/m''"
  by (simp_all add: lcd_txn_def tx_new_def lcd_doc_def lcd_env_def tx_fragment_def tx_sidecar_def)

lemma lcd_ok: "txn_ok lcd_txn" "txn_task lcd_txn" "txn_idle lcd_txn (poss lcd_world)"
proof -
  have "distinct (map (digest_ptr lcd_codec) [None, Some ''F''])" "distinct (map (digest_ptr lcd_codec) [Some ''D'', Some lcd_merged])"
    by code_simp+
  then have "inj_on (digest_ptr lcd_codec) {None, Some ''F''}" "inj_on (digest_ptr lcd_codec) {Some ''D'', Some lcd_merged}"
    unfolding distinct_map by (metis list.set)+
  then show "txn_ok lcd_txn"
    unfolding txn_ok_def lcd_simps using lcd_paths lcd_merge lcd_codec_ok by simp
  have "trim_space (sha_of CHR ''e'') = sha_of CHR ''e''" by code_simp
  then show "txn_task lcd_txn"
    using lcd_document by (auto simp: txn_task_def)
  have "tx_journal lcd_txn \<noteq> ''/s/m''" "''/c/'' @ lcd_basename \<noteq> ''/s/m''" "fragment_backup (tx_journal lcd_txn) \<noteq> ''/s/m''" by code_simp+
  then show "txn_idle lcd_txn (poss lcd_world)"
    by (simp add: txn_idle_def files_ok_def pair_old_def poss_def lcd_world_def split: option.splits)
qed

theorem linechain_atomic_witness:
  "let w = lc_run lcd_txn [(OpApply 5, replicate 40 Done)] lcd_world in
     set (poss w (''/c/'' @ lcd_basename)) \<subseteq> {None, Some ''F''} \<and> set (poss w ''/s/m'') \<subseteq> {Some ''D'', Some lcd_merged}"
  using linechain_atomic [OF lcd_ok, of "[(OpApply 5, replicate 40 Done)]"] by (simp add: Let_def)

end
