(* ===== verification/Linechain_Live.thy ===== *)
theory Linechain_Live
  imports Linechain_Atomic "HOL-Library.Code_Target_Nat"
begin

text \<open>
  Recovery of a line chain transaction ends: when no call fails, a journal in an open phase gets its
  result. \<open>lc_runs\<close> is total: with the given number of answered calls the operation returns.
\<close>

section \<open>Definitions\<close>

definition lc_runs :: "nat \<Rightarrow> (lc_view \<Rightarrow> bool) \<Rightarrow> 'a lc \<Rightarrow> ('a \<Rightarrow> lc_view \<Rightarrow> bool) \<Rightarrow> bool" where
  "lc_runs k A m B \<longleftrightarrow>
     (\<forall>w n. A (poss w) \<longrightarrow> lw_io w = replicate (k + n) Done \<longrightarrow>
       (\<exists>x w' n'. m w = (Inr x, w') \<and> B x (poss w') \<and> n \<le> n' \<and> lw_io w' = replicate n' Done))"

definition fits :: "string option \<Rightarrow> bool" where
  "fits c \<longleftrightarrow> (case c of None \<Rightarrow> True | Some b \<Rightarrow> length b \<le> maxArtifactSize)"

definition pair_seen :: "lc_env \<Rightarrow> lc_journal \<Rightarrow> bool \<Rightarrow> lc_view \<Rightarrow> bool" where
  "pair_seen env j desired g \<longleftrightarrow>
     (let a = hd (g (jr_FragmentPath j)); b = hd (g (jr_SidecarPath j))
      in if desired
         then digest_ptr (le_json env) a = jr_FragmentOutputSHA256 j \<and> digest_ptr (le_json env) b = jr_SidecarOutputSHA256 j
         else (a \<noteq> None) = jr_FragmentHadOld j \<and> (b \<noteq> None) = jr_SidecarHadOld j
           \<and> digest_ptr (le_json env) a = jr_FragmentOld j \<and> digest_ptr (le_json env) b = jr_SidecarOld j)"

text \<open>
  What a started transaction satisfies: its paths lie where the manager is configured, its digests have
  the form of SHA-256, the files are not too large, and its journals can be encoded.
\<close>

definition txn_paths_ok :: "lc_txn \<Rightarrow> bool" where
  "txn_paths_ok t \<longleftrightarrow>
     Configured (tx_mgr t) \<and> tx_task t \<noteq> [] \<and> tx_lease t \<noteq> [] \<and> clean_path (tx_journal t) = tx_journal t
     \<and> clean_path (tx_fragment t) = path_join (mg_configDir (tx_mgr t)) (path_base (tx_fragment t))
     \<and> linechainBasenameRE (path_base (tx_fragment t)) \<and> clean_path (tx_sidecar t) = mg_sidecarPath (tx_mgr t)"

definition txn_sizes_ok :: "lc_txn \<Rightarrow> bool" where
  "txn_sizes_ok t \<longleftrightarrow> fits (tx_old t) \<and> fits (tx_new t) \<and> fits (Some (tx_side t)) \<and> fits (Some (tx_merged t))"

definition recovery_journals :: "lc_txn \<Rightarrow> string \<Rightarrow> gotime \<Rightarrow> lc_journal list" where
  "recovery_journals t node now =
     [jof t ''old_restored'' None,
      jof t ''terminal_desired'' (Some (recovered_result (jof t ''prepared'' None) node now 0 [])),
      jof t ''terminal_old'' (Some (recovered_result (jof t ''prepared'' None) node now (-1)
        ''recovered desired runtime verification failed; exact old pair restored and verified'')),
      jof t ''terminal_old'' (Some (recovered_result (jof t ''prepared'' None) node now (-1)
        ''linechain transaction interrupted; exact old pair restored''))]"

definition txn_codes :: "lc_txn \<Rightarrow> string \<Rightarrow> gotime \<Rightarrow> bool" where
  "txn_codes t node now \<longleftrightarrow>
     list_all (\<lambda>j. le_marshal (tx_env t) j \<noteq> None) (recovery_journals t node now)
     \<and> list_all (\<lambda>ph. case le_marshal (tx_env t) (jof t ph None) of None \<Rightarrow> True | Some b \<Rightarrow> length b \<le> maxDocumentSize)
         [''prepared'', ''fragment_published'', ''pair_published'', ''desired_verified'', ''old_restored'']"

definition encodable :: "lc_txn \<Rightarrow> string \<Rightarrow> gotime \<Rightarrow> lc_journal \<times> task_result \<Rightarrow> bool" where
  "encodable t node now jr \<longleftrightarrow> (fst jr)\<lparr>jr_Result := Some (snd jr)\<rparr> \<in> set (recovery_journals t node now)"

section \<open>Lemmas\<close>

subsection \<open>The rules of the total triple\<close>

lemma runs_ret: "(\<And>g. A g \<Longrightarrow> B x g) \<Longrightarrow> lc_runs k A (lc_ret x) B"
  by (auto simp: lc_runs_def lc_ret_def)

lemma runs_more:
  assumes "lc_runs k A m B" "k \<le> k'"
  shows "lc_runs k' A m B"
  unfolding lc_runs_def
proof (intro allI impI)
  fix w n assume w: "A (poss w)" "lw_io w = replicate (k' + n) Done"
  then have "lw_io w = replicate (k + (k' - k + n)) Done" using assms(2) by simp
  then obtain x w' n' where "m w = (Inr x, w')" "B x (poss w')" "k' - k + n \<le> n'" "lw_io w' = replicate n' Done"
    using assms(1) w(1) unfolding lc_runs_def by blast
  then show "\<exists>x w' n'. m w = (Inr x, w') \<and> B x (poss w') \<and> n \<le> n' \<and> lw_io w' = replicate n' Done" by force
qed

lemma runs_bind:
  assumes m: "lc_runs k A m B" and f: "\<And>x. lc_runs l (B x) (f x) C"
  shows "lc_runs (k + l) A (lc_bind m f) C"
  unfolding lc_runs_def
proof (intro allI impI)
  fix w n assume w: "A (poss w)" "lw_io w = replicate (k + l + n) Done"
  then have "lw_io w = replicate (k + (l + n)) Done" by (simp add: add.assoc)
  then obtain x w1 n1 where 1: "m w = (Inr x, w1)" "B x (poss w1)" "l + n \<le> n1" "lw_io w1 = replicate n1 Done"
    using m w(1) unfolding lc_runs_def by blast
  then have "lw_io w1 = replicate (l + (n1 - l)) Done" by simp
  then obtain y w2 n2 where 2: "f x w1 = (Inr y, w2)" "C y (poss w2)" "n1 - l \<le> n2" "lw_io w2 = replicate n2 Done"
    using f [of x] 1(2) unfolding lc_runs_def by blast
  then have "lc_bind m f w = (Inr y, w2)" "n \<le> n2" using 1 by (auto simp: lc_bind_def)
  then show "\<exists>x w' n'. lc_bind m f w = (Inr x, w') \<and> C x (poss w') \<and> n \<le> n' \<and> lw_io w' = replicate n' Done"
    using 2 by blast
qed

lemma if_runs: "lc_runs k A m B \<Longrightarrow> lc_runs k A m' B \<Longrightarrow> lc_runs k A (if c then m else m') B"
  by simp

lemma runs_pre: "(\<And>g. A g \<Longrightarrow> A' g) \<Longrightarrow> lc_runs k A' m B \<Longrightarrow> lc_runs k A m B"
  by (simp add: lc_runs_def)

lemma runs_post: "lc_runs k A m B \<Longrightarrow> (\<And>x g. B x g \<Longrightarrow> C x g) \<Longrightarrow> lc_runs k A m C"
  unfolding lc_runs_def by blast

text \<open>What a triple says of the result holds of the result that a total one gives.\<close>

lemma runs_holds:
  assumes "lc_runs k A m C" "lc_holds A m B E"
  shows "lc_runs k A m (\<lambda>x g. B x g \<and> C x g)"
  unfolding lc_runs_def
proof (intro allI impI)
  fix w n assume w: "A (poss w)" "lw_io w = replicate (k + n) Done"
  then obtain x w' n' where "m w = (Inr x, w')" "C x (poss w')" "n \<le> n'" "lw_io w' = replicate n' Done"
    using assms(1) unfolding lc_runs_def by blast
  moreover then have "B x (poss w')" using holdsD(2) [OF assms(2) w(1)] by simp
  ultimately show "\<exists>x w' n'. m w = (Inr x, w') \<and> (B x (poss w') \<and> C x (poss w')) \<and> n \<le> n' \<and> lw_io w' = replicate n' Done"
    by blast
qed

lemma runs_attempt: "lc_runs k A m B \<Longrightarrow> lc_runs k A (lc_attempt m) (\<lambda>r g. case r of Inl _ \<Rightarrow> False | Inr x \<Rightarrow> B x g)"
  unfolding lc_runs_def lc_attempt_def by fastforce

lemma runs_call: "lc_runs 1 A lc_call (\<lambda>_. A)"
  by (auto simp: lc_runs_def lc_call_def lc_bind_def lc_ask_def lc_ret_def)

lemma runs_replace: "(\<And>g. A g \<Longrightarrow> B (g(p := [c]))) \<Longrightarrow> lc_runs 1 A (lc_replace p c) (\<lambda>_. B)"
  by (auto simp: lc_runs_def lc_replace_def lc_bind_def lc_ask_def set_poss_def)

lemma runs_read: "(\<And>g. A g \<Longrightarrow> fits (hd (g p))) \<Longrightarrow> lc_runs 1 A (readValidatedFile p) (\<lambda>x g. x = hd (g p) \<and> A g)"
  unfolding lc_runs_def
proof (intro allI impI)
  fix w n assume a: "\<And>g. A g \<Longrightarrow> fits (hd (g p))" and w: "A (poss w)" "lw_io w = replicate (1 + n) Done"
  have "fits (hd (poss w p))" by (rule a [OF w(1)])
  then have "readValidatedFile p w = (Inr (hd (poss w p)), w\<lparr>lw_io := replicate n Done\<rparr>)"
    using w(2) by (auto simp: readValidatedFile_def lc_call_def lc_bind_def lc_ask_def lc_ret_def seen_at_def fits_def poss_def
        split: option.splits)
  then show "\<exists>x w' n'. readValidatedFile p w = (Inr x, w') \<and> (x = hd (poss w' p) \<and> A (poss w')) \<and> n \<le> n' \<and> lw_io w' = replicate n' Done"
    using w(1) by auto
qed

lemma runs_publish: "(\<And>g. A g \<Longrightarrow> B (g(p := [c]))) \<Longrightarrow> lc_runs (1 + 1) A (publish p c) (\<lambda>_. B)"
  unfolding publish_def validateParents_def
  by (rule runs_bind [OF runs_call]) (cases c; simp only: option.case lc_writeFile_def; rule runs_replace; simp)

lemma runs_journal:
  "le_marshal env j \<noteq> None \<Longrightarrow> lc_runs 1 A (writeJournal env p j) (\<lambda>_ _. True)"
  using runs_replace [of A "\<lambda>_. True" p] by (auto simp: writeJournal_def lc_writeFile_def split: option.splits)

lemma runs_verify: "lc_runs 3 A checkRestartVerify (\<lambda>_. A)"
  unfolding checkRestartVerify_def
  using runs_bind [OF runs_call [of A] runs_bind [OF runs_call [of A] runs_call [of A]]] by (simp add: numeral_3_eq_3)

lemma runs_pairMatches:
  assumes "\<And>g. A g \<Longrightarrow> fits (hd (g (jr_FragmentPath j))) \<and> fits (hd (g (jr_SidecarPath j)))"
  shows "lc_runs 2 A (pairMatches env j desired) (\<lambda>ok g. A g \<and> ok = pair_seen env j desired g)"
proof -
  have "lc_runs (1 + (1 + 0)) A (pairMatches env j desired) (\<lambda>ok g. A g \<and> ok = pair_seen env j desired g)"
    unfolding pairMatches_def
  proof (rule runs_bind [OF runs_attempt [OF runs_read]], goal_cases)
    case (2 ra)
    show ?case
    proof (rule runs_bind [OF runs_attempt [OF runs_read]], goal_cases)
      case (2 rb)
      show ?case by (cases ra; cases rb) (auto simp: pair_seen_def Let_def lc_runs_def lc_ret_def)
    qed (use assms in \<open>auto split: sum.splits\<close>)
  qed (use assms in auto)
  then show ?thesis by (simp add: numeral_2_eq_2)
qed

lemma runs_restore_one:
  assumes "\<And>g. A g \<Longrightarrow> had \<Longrightarrow> hd (g backup) = Some d \<and> fits (Some d) \<and> lc_digest (le_json env) d = want"
  shows "lc_runs 3 A (restore_one env dst backup had want) (\<lambda>_ _. True)"
proof (cases had)
  case True
  have "lc_runs (1 + (1 + 1)) A (restore_one env dst backup had want) (\<lambda>_ _. True)"
    unfolding restore_one_def if_P [OF True]
  proof (rule runs_bind [OF runs_read], goal_cases)
    case (2 x)
    show ?case
    proof (cases "x = Some d \<and> lc_digest (le_json env) d = want")
      case True
      then show ?thesis by (simp only: option.case simp_thms if_False) (rule runs_publish, rule TrueI)
    next
      case False
      then show ?thesis using assms True unfolding lc_runs_def by blast
    qed
  qed (use assms True in auto)
  then show ?thesis by (simp add: numeral_3_eq_3)
next
  case False
  then show ?thesis
    using runs_more [OF runs_publish [of A "\<lambda>_. True"], of 3] by (simp add: restore_one_def)
qed

subsection \<open>Recovering a transaction\<close>

lemma work_fits:
  assumes s: "txn_sizes_ok t" and g: "txn_work t g"
  shows "fits (hd (g (tx_fragment t)))" "fits (hd (g (tx_sidecar t)))"
  using work_hd [OF g] s unfolding txn_sizes_ok_def by auto

lemma work_backups:
  assumes "txn_work t g"
  shows "hd (g (fragment_backup (tx_journal t))) = tx_old t" "hd (g (sidecar_backup (tx_journal t))) = Some (tx_side t)"
  using assms set_one(2) unfolding txn_work_def files_ok_def backups_ok_def by metis+

lemma pair_old_seen:
  assumes "txn_work t g" "pair_old t g"
  shows "pair_seen (tx_env t) (jof t ph None) False g"
proof -
  have "hd (g (tx_fragment t)) = tx_old t" "hd (g (tx_sidecar t)) = Some (tx_side t)"
    using assms set_one(2) unfolding txn_work_def files_ok_def pair_old_def by metis+
  then show ?thesis by (simp add: pair_seen_def Let_def)
qed

lemma runs_restore_fragment:
  assumes t: "txn_ok t" and s: "txn_sizes_ok t"
  shows "lc_runs 3 (txn_work t)
     (restore_one (tx_env t) (tx_fragment t) (fragment_backup (tx_journal t)) (tx_old t \<noteq> None) (digest_ptr (le_json (tx_env t)) (tx_old t)))
     (\<lambda>_ g. txn_work t g \<and> set (g (tx_fragment t)) = {tx_old t})"
proof -
  have "lc_runs 3 (txn_work t)
     (restore_one (tx_env t) (tx_fragment t) (fragment_backup (tx_journal t)) (tx_old t \<noteq> None) (digest_ptr (le_json (tx_env t)) (tx_old t)))
     (\<lambda>_ _. True)"
    by (rule runs_restore_one [where d = "the (tx_old t)"])
      (use s in \<open>auto simp: work_backups txn_sizes_ok_def digest_ptr_def\<close>)
  from runs_post [OF runs_holds [OF this holds_restore_fragment [OF t]]] show ?thesis by simp
qed

lemma runs_restore_sidecar:
  assumes t: "txn_ok t" and s: "txn_sizes_ok t"
  shows "lc_runs 3 (\<lambda>g. txn_work t g \<and> set (g (tx_fragment t)) = {tx_old t})
     (restore_one (tx_env t) (tx_sidecar t) (sidecar_backup (tx_journal t)) True (digest_ptr (le_json (tx_env t)) (Some (tx_side t))))
     (\<lambda>_ g. txn_work t g \<and> pair_old t g)"
proof -
  have "lc_runs 3 (\<lambda>g. txn_work t g \<and> set (g (tx_fragment t)) = {tx_old t})
     (restore_one (tx_env t) (tx_sidecar t) (sidecar_backup (tx_journal t)) True (digest_ptr (le_json (tx_env t)) (Some (tx_side t))))
     (\<lambda>_ _. True)"
    by (rule runs_restore_one [where d = "tx_side t"]) (use s in \<open>auto simp: work_backups txn_sizes_ok_def digest_ptr_def\<close>)
  from runs_post [OF runs_holds [OF this holds_restore_sidecar [OF t]]] show ?thesis by simp
qed

lemma runs_back_to_old:
  assumes t: "txn_ok t" and s: "txn_sizes_ok t" and c: "le_marshal (tx_env t) (jof t ''old_restored'' None) \<noteq> None"
  shows "lc_runs 12 (txn_work t) (back_to_old (tx_env t) (tx_journal t) (jof t ph None))
     (\<lambda>j g. j = jof t ''terminal_old'' None \<and> txn_work t g \<and> pair_old t g)"
proof -
  let ?w = "\<lambda>j. writeJournal (tx_env t) (tx_journal t) (jof t ''old_restored'' None)"
  have f: "fits (hd (g (jr_FragmentPath (jof t ph None)))) \<and> fits (hd (g (jr_SidecarPath (jof t ph None))))"
    if "txn_work t g \<and> pair_old t g" for g
    using that work_fits [OF s] by simp
  have p: "lc_runs 2 (\<lambda>g. txn_work t g \<and> pair_old t g) (pairMatches (tx_env t) (jof t ph None) False) (\<lambda>ok _. ok)"
    by (rule runs_post [OF runs_pairMatches [OF f]]) (use pair_old_seen in auto)
  have w: "lc_runs (1 + 0) (\<lambda>g. ok)
      (if \<not> ok then lc_fail (Fault ''restored pair digest mismatch'')
       else lc_bind (writeJournal (tx_env t) (tx_journal t) (jof t ''old_restored'' None)) (\<lambda>_. lc_ret (jof t ''old_restored'' None)))
      (\<lambda>j g. True)" for ok
  proof (cases ok)
    case True
    show ?thesis
      by (simp only: True not_True_eq_False if_False) (rule runs_bind [OF runs_journal [OF c] runs_ret], rule TrueI)
  qed (simp add: lc_runs_def)
  have "lc_runs (3 + (3 + (2 + (1 + 0)))) (txn_work t) (restoreOld (tx_env t) (tx_journal t) (jof t ph None)) (\<lambda>_ _. True)"
    unfolding restoreOld_def jof_simps
    by (rule runs_bind [OF runs_restore_fragment [OF t s]], rule runs_bind [OF runs_restore_sidecar [OF t s]],
        rule runs_bind [OF p w])
  from runs_post [OF runs_holds [OF this holds_restoreOld [OF t]]]
  have "lc_runs 9 (txn_work t) (restoreOld (tx_env t) (tx_journal t) (jof t ph None))
      (\<lambda>j g. j = jof t ''old_restored'' None \<and> txn_work t g \<and> pair_old t g)" by simp
  then have "lc_runs (9 + (3 + 0)) (txn_work t) (back_to_old (tx_env t) (tx_journal t) (jof t ph None))
     (\<lambda>j g. j = jof t ''terminal_old'' None \<and> txn_work t g \<and> pair_old t g)"
    unfolding back_to_old_def
    by (rule runs_bind) (rule runs_bind [OF runs_verify], rule runs_ret, auto)
  then show ?thesis by simp
qed

lemma recovered_same: "recovered_result (jof t ph res) node now = recovered_result (jof t ''prepared'' None) node now"
  by (intro ext) (simp add: recovered_result_def)

lemma runs_back_result:
  assumes t: "txn_ok t" and s: "txn_sizes_ok t" and c: "txn_codes t node now"
    and m: "err = ''recovered desired runtime verification failed; exact old pair restored and verified''
      \<or> err = ''linechain transaction interrupted; exact old pair restored''"
  shows "lc_runs 12 (txn_work t)
     (lc_bind (back_to_old (tx_env t) (tx_journal t) (jof t ph None)) (\<lambda>j'. lc_ret (j', recovered_result (jof t ph None) node now (-1) err)))
     (\<lambda>jr _. encodable t node now jr)"
proof -
  have c': "le_marshal (tx_env t) (jof t ''old_restored'' None) \<noteq> None"
    using c by (simp add: txn_codes_def recovery_journals_def)
  have "lc_runs (12 + 0) (txn_work t)
     (lc_bind (back_to_old (tx_env t) (tx_journal t) (jof t ph None)) (\<lambda>j'. lc_ret (j', recovered_result (jof t ph None) node now (-1) err)))
     (\<lambda>jr _. encodable t node now jr)"
    by (rule runs_bind [OF runs_back_to_old [OF t s c']], rule runs_ret)
      (use m in \<open>auto simp: encodable_def recovery_journals_def recovered_same [of t ph]\<close>)
  then show ?thesis by simp
qed

lemma runs_decide:
  assumes t: "txn_ok t" and s: "txn_sizes_ok t" and c: "txn_codes t node now"
  shows "lc_runs 14 (txn_work t) (decide (tx_env t) (tx_journal t) node now (jof t ph None)) (\<lambda>jr _. encodable t node now jr)"
proof -
  let ?r = "recovered_result (jof t ph None) node now"
  have f: "fits (hd (g (jr_FragmentPath (jof t ph None)))) \<and> fits (hd (g (jr_SidecarPath (jof t ph None))))"
    if "txn_work t g" for g using that work_fits [OF s] by simp
  have p: "lc_runs 2 (txn_work t) (if ph = ''desired_verified'' then pairMatches (tx_env t) (jof t ph None) True else lc_ret False)
      (\<lambda>_. txn_work t)"
    using runs_post [OF runs_pairMatches [OF f]] by (auto intro: runs_ret)
  have v: "lc_runs (3 + 9) (txn_work t)
      (lc_bind (lc_attempt checkRestartVerify) (\<lambda>verified. case verified of
           Inr _ \<Rightarrow> lc_ret ((jof t ph None)\<lparr>jr_Phase := ''terminal_desired''\<rparr>, ?r 0 [])
         | Inl _ \<Rightarrow>
             lc_bind (back_to_old (tx_env t) (tx_journal t) (jof t ph None)) (\<lambda>j'. lc_ret (j', ?r (-1)
               ''recovered desired runtime verification failed; exact old pair restored and verified''))))
      (\<lambda>jr _. encodable t node now jr)"
  proof (rule runs_bind [OF runs_attempt [OF runs_verify]])
    fix v :: "lc_error + unit"
    show "lc_runs 9 (\<lambda>g. case v of Inl _ \<Rightarrow> False | Inr x \<Rightarrow> txn_work t g)
        (case v of
           Inr _ \<Rightarrow> lc_ret ((jof t ph None)\<lparr>jr_Phase := ''terminal_desired''\<rparr>, ?r 0 [])
         | Inl _ \<Rightarrow>
             lc_bind (back_to_old (tx_env t) (tx_journal t) (jof t ph None)) (\<lambda>j'. lc_ret (j', ?r (-1)
               ''recovered desired runtime verification failed; exact old pair restored and verified'')))
        (\<lambda>jr _. encodable t node now jr)"
      by (cases v)
        (auto intro!: runs_ret simp: encodable_def recovery_journals_def recovered_same [of t ph] lc_runs_def [of _ "\<lambda>_. False"])
  qed
  have "lc_runs (2 + 12) (txn_work t) (decide (tx_env t) (tx_journal t) node now (jof t ph None)) (\<lambda>jr _. encodable t node now jr)"
    unfolding decide_def jof_simps(1)
  proof (rule runs_bind [OF p])
    fix exact
    show "lc_runs 12 (txn_work t)
      (if exact then
         lc_bind (lc_attempt checkRestartVerify) (\<lambda>verified. case verified of
           Inr _ \<Rightarrow> lc_ret ((jof t ph None)\<lparr>jr_Phase := ''terminal_desired''\<rparr>, ?r 0 [])
         | Inl _ \<Rightarrow>
             lc_bind (back_to_old (tx_env t) (tx_journal t) (jof t ph None)) (\<lambda>j'. lc_ret (j', ?r (-1)
               ''recovered desired runtime verification failed; exact old pair restored and verified'')))
       else
         lc_bind (back_to_old (tx_env t) (tx_journal t) (jof t ph None)) (\<lambda>j'. lc_ret (j', ?r (-1)
           ''linechain transaction interrupted; exact old pair restored'')))
      (\<lambda>jr _. encodable t node now jr)"
      by (rule if_runs [OF runs_more [OF v] runs_back_result [OF t s c]]) simp_all
  qed
  then show ?thesis by simp
qed

text \<open>The journal of an open phase is read and found valid.\<close>

lemma runs_readJournal:
  assumes t: "txn_ok t" and p: "txn_paths_ok t" and c: "txn_codes t node now"
  shows "lc_runs 1 (\<lambda>g. txn_work t g) (readJournal (tx_env t) (tx_journal t)) (open_at t)"
  unfolding lc_runs_def
proof (intro allI impI)
  fix w n assume w: "txn_work t (poss w)" "lw_io w = replicate (1 + n) Done"
  have "hd (poss w (tx_journal t)) \<in> set (poss w (tx_journal t))" using w(1) by (simp add: txn_work_def files_ok_def)
  then obtain b where b: "hd (poss w (tx_journal t)) = Some b" "open_text t (poss w) b"
    using w(1) by (cases "hd (poss w (tx_journal t))") (force simp: txn_work_def)+
  then obtain ph where ph: "ph \<in> openPhases" "le_marshal (tx_env t) (jof t ph None) = Some b"
    "ph = ''desired_verified'' \<longrightarrow> sure t (poss w)"
    unfolding open_text_def by blast
  have "length b \<le> maxDocumentSize" using c ph(1,2) by (auto simp: txn_codes_def openPhases_def)
  moreover have "jr_Version (jof t ph None) = journalVersion" by (simp add: jof_def new_journal_def)
  ultimately have "readJournal (tx_env t) (tx_journal t) w = (Inr (jof t ph None), w\<lparr>lw_io := replicate n Done\<rparr>)"
    using w(2) b(1) p jof_decode [OF t ph(2)]
    by (simp add: readJournal_def lc_call_def lc_bind_def lc_ask_def lc_ret_def seen_at_def txn_paths_ok_def)
  moreover have "open_at t (jof t ph None) (poss w)" using ph w(1) unfolding open_at_def by blast
  ultimately show "\<exists>x w' n'. readJournal (tx_env t) (tx_journal t) w = (Inr x, w') \<and> open_at t x (poss w') \<and> n \<le> n' \<and>
      lw_io w' = replicate n' Done"
    by auto
qed

lemma runs_check_backup:
  assumes "\<And>g. A g \<Longrightarrow> fits (hd (g p)) \<and> (hd (g p) \<noteq> None) = had \<and> (had \<longrightarrow> digest_ptr (le_json env) (hd (g p)) = want)"
  shows "lc_runs 1 A (check_backup env p had want) (\<lambda>_. A)"
proof -
  have "lc_runs (1 + 0) A (check_backup env p had want) (\<lambda>_. A)"
    unfolding check_backup_def
  proof (rule runs_bind [OF runs_read], goal_cases)
    case (2 x)
    show ?case
      using assms by (cases "(x \<noteq> None) \<noteq> had \<or> had \<and> digest_ptr (le_json env) x \<noteq> want")
        (auto intro!: runs_ret simp: lc_runs_def lc_ret_def)
  qed (use assms in auto)
  then show ?thesis by simp
qed

lemma jof_digests: "digests_valid (jof t ph res) = digests_valid (jof t ''prepared'' None)"
  by (simp add: digests_valid_def jof_def)

lemma runs_validateJournal:
  assumes t: "txn_ok t" and p: "txn_paths_ok t" and s: "txn_sizes_ok t" and d: "digests_valid (jof t ''prepared'' None)"
    and ph: "ph \<in> openPhases"
  shows "lc_runs 2 (\<lambda>g. open_at t (jof t ph None) g)
     (validateJournal (tx_env t) (tx_mgr t) (tx_journal t) (jof t ph None)) (\<lambda>_ g. open_at t (jof t ph None) g)"
proof -
  let ?A = "\<lambda>g. open_at t (jof t ph None) g"
  have f: "fits (hd (g (fragment_backup (tx_journal t)))) \<and> (hd (g (fragment_backup (tx_journal t))) \<noteq> None) = (tx_old t \<noteq> None)
      \<and> ((tx_old t \<noteq> None) \<longrightarrow> digest_ptr (le_json (tx_env t)) (hd (g (fragment_backup (tx_journal t)))) = digest_ptr (le_json (tx_env t)) (tx_old t))"
    and s': "fits (hd (g (sidecar_backup (tx_journal t)))) \<and> (hd (g (sidecar_backup (tx_journal t))) \<noteq> None) = True
      \<and> (True \<longrightarrow> digest_ptr (le_json (tx_env t)) (hd (g (sidecar_backup (tx_journal t)))) = digest_ptr (le_json (tx_env t)) (Some (tx_side t)))"
    if "?A g" for g
    using that s by (auto simp: open_at_def work_backups txn_sizes_ok_def)
  have "\<not> journalTerminal ph" "validPhase ph" using ph by (auto simp: openPhases_def journalTerminal_def validPhase_def)
  moreover have "tx_journal t = journalPath (tx_env t) (tx_mgr t) (tx_task t) (tx_lease t)" by (simp add: tx_journal_def)
  ultimately have "validateJournal (tx_env t) (tx_mgr t) (tx_journal t) (jof t ph None) =
      lc_bind (check_backup (tx_env t) (fragment_backup (tx_journal t)) (tx_old t \<noteq> None) (digest_ptr (le_json (tx_env t)) (tx_old t)))
        (\<lambda>_. check_backup (tx_env t) (sidecar_backup (tx_journal t)) True (digest_ptr (le_json (tx_env t)) (Some (tx_side t))))"
    using p d unfolding validateJournal_def Let_def jof_simps txn_paths_ok_def jof_digests [of t ph] result_matches_def by simp
  then have "lc_runs (1 + 1) ?A (validateJournal (tx_env t) (tx_mgr t) (tx_journal t) (jof t ph None)) (\<lambda>_. ?A)"
    using runs_bind [OF runs_check_backup [OF f] runs_check_backup [OF s']] by simp
  then show ?thesis by (simp only: one_add_one)
qed

lemma runs_recover_open:
  assumes t: "txn_ok t" and s: "txn_sizes_ok t" and c: "txn_codes t node now"
  shows "lc_runs 15 (txn_work t)
     (lc_bind (decide (tx_env t) (tx_journal t) node now (jof t ph None)) (\<lambda>(j', r).
       lc_bind (writeJournal (tx_env t) (tx_journal t) (j'\<lparr>jr_Result := Some r\<rparr>)) (\<lambda>_. lc_ret r))) (\<lambda>_ _. True)"
proof -
  have "lc_runs (1 + 0) (\<lambda>_. encodable t node now jr)
      (case jr of (j', r) \<Rightarrow> lc_bind (writeJournal (tx_env t) (tx_journal t) (j'\<lparr>jr_Result := Some r\<rparr>)) (\<lambda>_. lc_ret r)) (\<lambda>_ _. True)" for jr
  proof (cases "encodable t node now jr")
    case True
    then have "le_marshal (tx_env t) ((fst jr)\<lparr>jr_Result := Some (snd jr)\<rparr>) \<noteq> None"
      using c by (auto simp: encodable_def txn_codes_def list_all_iff)
    then show ?thesis unfolding case_prod_beta by (intro runs_bind [OF runs_journal] runs_ret) auto
  qed (simp add: lc_runs_def)
  then have "lc_runs (14 + (1 + 0)) (txn_work t)
     (lc_bind (decide (tx_env t) (tx_journal t) node now (jof t ph None)) (\<lambda>(j', r).
       lc_bind (writeJournal (tx_env t) (tx_journal t) (j'\<lparr>jr_Result := Some r\<rparr>)) (\<lambda>_. lc_ret r))) (\<lambda>_ _. True)"
    by (rule runs_bind [OF runs_decide [OF t s c]])
  then show ?thesis by (rule runs_more) simp
qed

lemma runs_recoverOne:
  assumes t: "txn_ok t" and p: "txn_paths_ok t" and s: "txn_sizes_ok t" and d: "digests_valid (jof t ''prepared'' None)"
    and c: "txn_codes t node now"
  shows "lc_runs 18 (txn_work t) (recoverOne (tx_env t) (tx_mgr t) (tx_journal t) False node [] None now) (\<lambda>_ _. True)"
proof -
  have "lc_runs (2 + (15 + 0)) (open_at t j)
      (lc_bind (validateJournal (tx_env t) (tx_mgr t) (tx_journal t) j) (\<lambda>_.
        lc_bind
           (case jr_Result j of
              Some r \<Rightarrow> lc_ret r
            | None \<Rightarrow>
                lc_bind (decide (tx_env t) (tx_journal t) node now j) (\<lambda>(j', r).
                lc_bind (writeJournal (tx_env t) (tx_journal t) (j'\<lparr>jr_Result := Some r\<rparr>)) (\<lambda>_. lc_ret r))) lc_ret)) (\<lambda>_ _. True)" for j
  proof (cases "\<exists>ph \<in> openPhases. j = jof t ph None")
    case True
    then obtain ph where ph: "ph \<in> openPhases" "j = jof t ph None" by blast
    show ?thesis
      unfolding ph(2) jof_simps option.case
      by (rule runs_bind [OF runs_validateJournal [OF t p s d ph(1)]], rule runs_bind [OF runs_pre [OF _ runs_recover_open [OF t s c]]])
        (auto simp: open_at_def intro: runs_ret)
  next
    case False
    then show ?thesis unfolding lc_runs_def open_at_def by blast
  qed
  then have "lc_runs (1 + (2 + (15 + 0))) (txn_work t) (recoverOne (tx_env t) (tx_mgr t) (tx_journal t) False node [] None now) (\<lambda>_ _. True)"
    unfolding recoverOne_def authority_holds_def option.case if_False simp_thms
    by (rule runs_bind [OF runs_readJournal [OF t p c]])
  then show ?thesis by (rule runs_more) simp
qed

section \<open>Properties\<close>


lemma lcd_seen: "seen_at (lc_run lcd_txn [(OpApply 5, replicate 8 Done)] lcd_world) (tx_journal lcd_txn) = Some ''prepared''"
  by code_simp


end
