(* ===== verification/Task_Cycle.thy ===== *)
theory Task_Cycle
  imports Linechain
begin

text \<open>
  The task cycle of the agent (\<open>src/cmd/lattice-agent/main.go\<close>): polling for leased tasks, running them
  under the journal of the outbox, resolving line chain tasks, uploading results, and the worker that
  keeps polling and running apart.

  An operation is a function of the state of the node, which is the outbox, the files of line chains and
  the events so far (tasks given to the runner, results posted and whether from the outbox, entries acknowledged). What the system,
  the server and the runner answer to the \<open>n\<close>-th call is \<open>io n\<close>, which also says whether the process is
  still alive then; dying inside a call of the outbox is that call failing and dying after it. The
  script in a task, base64 and numbers in JSON are parameters (\<open>task_env\<close>). Debug output is left out,
  and of the text of an error what it wraps.
\<close>

section \<open>Definitions\<close>

subsection \<open>State and calls\<close>

record leased_task =
  lt_Task :: task
  lt_DurableResult :: bool
  lt_DurableProtocol :: string

record task_env =
  te_codec :: codec
  te_lc :: lc_env
  te_script :: "task \<Rightarrow> string"
  te_base64 :: "string \<Rightarrow> string option"
  te_int :: "string \<Rightarrow> int option"

record task_cfg =
  tc_NodeID :: string
  tc_LinechainReady :: bool
  tc_manager :: "lc_manager option"

record op_io =
  oi_alive :: bool
  oi_read :: read_io
  oi_write :: write_io
  oi_now :: gotime
  oi_ok :: bool
  oi_synced :: bool
  oi_recover :: "nat \<Rightarrow> recover_io"
  oi_tasks :: "leased_task list option"
  oi_result :: task_result
  oi_helper :: "lc_world \<Rightarrow> lc_world"

datatype cycle_error = Died | OutboxError outbox_error | LineError lc_error | PostFailed | FetchFailed | Refused string

datatype task_event = Ran task bool | Posted task_result bool | Acked string

record agent_state =
  ag_outbox :: outbox
  ag_lc :: lc_world
  ag_n :: nat
  ag_events :: "task_event list"

type_synonym 'a cyc = "agent_state \<Rightarrow> (cycle_error + 'a) \<times> agent_state"

definition cy_ret :: "'a \<Rightarrow> 'a cyc" where
  "cy_ret x = (\<lambda>s. (Inr x, s))"

definition cy_fail :: "cycle_error \<Rightarrow> 'a cyc" where
  "cy_fail e = (\<lambda>s. (Inl e, s))"

definition cy_bind :: "'a cyc \<Rightarrow> ('a \<Rightarrow> 'b cyc) \<Rightarrow> 'b cyc" where
  "cy_bind m f = (\<lambda>s. case m s of (Inl e, s') \<Rightarrow> (Inl e, s') | (Inr x, s') \<Rightarrow> f x s')"

definition cy_attempt :: "'a cyc \<Rightarrow> (cycle_error + 'a) cyc" where
  "cy_attempt m = (\<lambda>s. case m s of
     (Inl e, s') \<Rightarrow> (if e = Died then (Inl Died, s') else (Inr (Inl e), s'))
   | (Inr x, s') \<Rightarrow> (Inr (Inr x), s'))"

definition cy_op :: "(nat \<Rightarrow> op_io) \<Rightarrow> (op_io \<Rightarrow> agent_state \<Rightarrow> 'a \<times> agent_state) \<Rightarrow> 'a cyc" where
  "cy_op io f = (\<lambda>s.
     if \<not> oi_alive (io (ag_n s)) then (Inl Died, s)
     else case f (io (ag_n s)) (s\<lparr>ag_n := Suc (ag_n s)\<rparr>) of (x, s') \<Rightarrow> (Inr x, s'))"

definition note_event :: "task_event \<Rightarrow> agent_state \<Rightarrow> agent_state" where
  "note_event e s = s\<lparr>ag_events := ag_events s @ [e]\<rparr>"

text \<open>The calls of the outbox give what they return as values, an error included.\<close>

definition ob_begin :: "(nat \<Rightarrow> op_io) \<Rightarrow> task_env \<Rightarrow> task \<Rightarrow> string \<Rightarrow> (bool \<times> outbox_error option) cyc" where
  "ob_begin io env t protocol = cy_op io (\<lambda>i s.
     case begin_task (te_codec env) (oi_read i) (oi_write i) (oi_now i) (ag_outbox s) t protocol of
       (ob, committed, err) \<Rightarrow> ((committed, err), s\<lparr>ag_outbox := ob\<rparr>))"

definition ob_complete :: "(nat \<Rightarrow> op_io) \<Rightarrow> task_env \<Rightarrow> task_result \<Rightarrow> (bool \<times> outbox_error option) cyc" where
  "ob_complete io env r = cy_op io (\<lambda>i s.
     case complete_task (te_codec env) (oi_read i) (oi_write i) (oi_now i) (ag_outbox s) r of
       (ob, committed, err) \<Rightarrow> ((committed, err), s\<lparr>ag_outbox := ob\<rparr>))"

definition ob_confirm :: "(nat \<Rightarrow> op_io) \<Rightarrow> outbox_error option cyc" where
  "ob_confirm io = cy_op io (\<lambda>i s.
     case confirmDurability (oi_ok i) (ag_outbox s) of (ob, err) \<Rightarrow> (err, s\<lparr>ag_outbox := ob\<rparr>))"

definition ob_recover :: "(nat \<Rightarrow> op_io) \<Rightarrow> task_env \<Rightarrow> string \<Rightarrow> outbox_error option cyc" where
  "ob_recover io env nodeID = cy_op io (\<lambda>i s.
     case recoverInterrupted (te_codec env) (oi_read i) (oi_ok i) (oi_recover i) (ag_outbox s) nodeID of
       (ob, err) \<Rightarrow> (err, s\<lparr>ag_outbox := ob\<rparr>))"

definition ob_pending :: "(nat \<Rightarrow> op_io) \<Rightarrow> task_env \<Rightarrow> (outbox_error + entry list) cyc" where
  "ob_pending io env = cy_op io (\<lambda>i s. (pending (te_codec env) (oi_read i) (ag_outbox s), s))"

definition ob_snapshot :: "(nat \<Rightarrow> op_io) \<Rightarrow> task_env \<Rightarrow> (outbox_error + entry list) cyc" where
  "ob_snapshot io env = cy_op io (\<lambda>i s. (outbox_snapshot (te_codec env) (oi_read i) (ag_outbox s), s))"

definition ack_key :: "task_env \<Rightarrow> entry \<Rightarrow> string" where
  "ack_key env e =
     (if en_key e = [] then entryKey (te_codec env) (tk_ID (en_Task e)) (tk_LeaseID (en_Task e)) else en_key e)"

definition ob_remove :: "(nat \<Rightarrow> op_io) \<Rightarrow> task_env \<Rightarrow> entry \<Rightarrow> outbox_error option cyc" where
  "ob_remove io env e = cy_op io (\<lambda>i s.
     case remove_entry (te_codec env) (oi_ok i) (oi_synced i) (ag_outbox s) e of
       (ob, err) \<Rightarrow> (err, note_event (Acked (ack_key env e)) (s\<lparr>ag_outbox := ob\<rparr>)))"

text \<open>\<open>postAgentJSON\<close> of a result: the server may have it also when the call fails.\<close>

definition postResult :: "(nat \<Rightarrow> op_io) \<Rightarrow> bool \<Rightarrow> task_result \<Rightarrow> bool cyc" where
  "postResult io durable r = cy_op io (\<lambda>i s. (oi_ok i, note_event (Posted r durable) s))"

text \<open>
  \<open>runTask\<close>: the runner is given the task. The runner of a line chain task starts the helper, which
  works on the files of the line chain.
\<close>

definition runTask :: "(nat \<Rightarrow> op_io) \<Rightarrow> task \<Rightarrow> bool \<Rightarrow> bool \<Rightarrow> task_result cyc" where
  "runTask io t durable viaLinechain = cy_op io (\<lambda>i s.
     (oi_result i, note_event (Ran t durable) (if viaLinechain then s\<lparr>ag_lc := oi_helper i (ag_lc s)\<rparr> else s)))"

definition cy_line :: "'a lc \<Rightarrow> 'a cyc" where
  "cy_line m = (\<lambda>s. case m (ag_lc s) of
     (Inl e, w) \<Rightarrow> (Inl (if e = Crash then Died else LineError e), s\<lparr>ag_lc := w\<rparr>)
   | (Inr x, w) \<Rightarrow> (Inr x, s\<lparr>ag_lc := w\<rparr>))"

definition outbox_do :: "outbox_error option \<Rightarrow> unit cyc" where
  "outbox_do err = (case err of None \<Rightarrow> cy_ret () | Some e \<Rightarrow> cy_fail (OutboxError e))"

subsection \<open>Uploading results\<close>

fun flush_entries :: "(nat \<Rightarrow> op_io) \<Rightarrow> task_env \<Rightarrow> bool \<Rightarrow> entry list \<Rightarrow> unit cyc" where
  "flush_entries io env retain [] = cy_ret ()"
| "flush_entries io env retain (e # es) =
     (case en_Result e of
        None \<Rightarrow> cy_fail (Refused ''pending task result is empty'')
      | Some r \<Rightarrow>
          cy_bind (postResult io True r) (\<lambda>ok.
            if \<not> ok then cy_fail PostFailed
            else if retain \<and> en_DurableProtocol e = ''linechain-e3-v2'' then flush_entries io env retain es
            else cy_bind (ob_remove io env e) (\<lambda>err.
                 cy_bind (outbox_do err) (\<lambda>_. flush_entries io env retain es))))"

definition flushTaskResultsRetain :: "(nat \<Rightarrow> op_io) \<Rightarrow> task_env \<Rightarrow> bool \<Rightarrow> unit cyc" where
  "flushTaskResultsRetain io env retain =
     cy_bind (ob_pending io env) (\<lambda>r. case r of
       Inl e \<Rightarrow> cy_fail (OutboxError e) | Inr es \<Rightarrow> flush_entries io env retain es)"

definition flushTaskResults :: "(nat \<Rightarrow> op_io) \<Rightarrow> task_env \<Rightarrow> unit cyc" where
  "flushTaskResults io env = flushTaskResultsRetain io env False"

subsection \<open>Executing a task\<close>

definition validateDurablePair :: "leased_task \<Rightarrow> lc_manager option \<Rightarrow> bool \<Rightarrow> string option" where
  "validateDurablePair t manager ready =
     (if \<not> lt_DurableResult t then
        (if lt_DurableProtocol t \<noteq> [] then Some ''non-durable task has protocol'' else None)
      else if lt_DurableProtocol t \<noteq> ''linechain-e3-v2'' \<and> lt_DurableProtocol t \<noteq> ''netguard-v1''
      then Some ''durable task has unsupported protocol''
      else if lt_DurableProtocol t = ''linechain-e3-v2'' \<and> (manager = None \<or> \<not> ready)
      then Some ''linechain task received while durable linechain is unavailable''
      else None)"

definition isLinechainTask :: "leased_task \<Rightarrow> bool" where
  "isLinechainTask t \<longleftrightarrow> lt_DurableResult t \<and> lt_DurableProtocol t = ''linechain-e3-v2''"

definition execute_plain :: "(nat \<Rightarrow> op_io) \<Rightarrow> task_cfg \<Rightarrow> task \<Rightarrow> gotime \<Rightarrow> unit cyc" where
  "execute_plain io cfg t now =
     cy_bind (runTask io t False False) (\<lambda>result.
     cy_bind (postResult io False (finished now (result\<lparr>tr_NodeID := tc_NodeID cfg\<rparr>))) (\<lambda>ok.
       if ok then cy_ret () else cy_fail PostFailed))"

definition not_executed :: "task_cfg \<Rightarrow> task \<Rightarrow> gotime \<Rightarrow> task_result" where
  "not_executed cfg t now =
     \<lparr>tr_TaskID = tk_ID t, tr_LeaseID = tk_LeaseID t, tr_NodeID = tc_NodeID cfg, tr_ExitCode = -1,
      tr_Error = ''task was not executed because its durable lease journal could not be written'',
      tr_StartedAt = 0, tr_FinishedAt = now, tr_Rest = []\<rparr>"

definition begin_failed :: "(nat \<Rightarrow> op_io) \<Rightarrow> task_cfg \<Rightarrow> task \<Rightarrow> gotime \<Rightarrow> bool \<Rightarrow> outbox_error \<Rightarrow> unit cyc" where
  "begin_failed io cfg t now committed err =
     (if committed then cy_fail (OutboxError err)
      else cy_bind (postResult io False (not_executed cfg t now)) (\<lambda>ok.
             if ok then cy_fail (OutboxError err) else cy_fail PostFailed))"

definition resolve_result :: "task_env \<Rightarrow> task_cfg \<Rightarrow> leased_task \<Rightarrow> task_result \<Rightarrow> gotime \<Rightarrow> task_result cyc" where
  "resolve_result env cfg leased result now =
     (case tc_manager cfg of
        None \<Rightarrow> cy_ret result
      | Some m \<Rightarrow>
          (if isLinechainTask leased
           then cy_line (ResolveAfterRun (te_lc env) m (tk_ID (lt_Task leased)) (tk_LeaseID (lt_Task leased)) result now)
           else cy_ret result))"

text \<open>The cleanup of a line chain task; when it fails the stable result is uploaded and stays.\<close>

definition cleanup_task :: "(nat \<Rightarrow> op_io) \<Rightarrow> task_env \<Rightarrow> task_cfg \<Rightarrow> leased_task \<Rightarrow> unit cyc" where
  "cleanup_task io env cfg leased =
     (case tc_manager cfg of
        None \<Rightarrow> cy_ret ()
      | Some m \<Rightarrow>
          (if isLinechainTask leased then
             cy_bind (cy_attempt (cy_line (Cleanup (te_lc env) m (tk_ID (lt_Task leased)) (tk_LeaseID (lt_Task leased))))) (\<lambda>r.
               case r of
                 Inr _ \<Rightarrow> cy_ret ()
               | Inl e \<Rightarrow> cy_bind (flushTaskResultsRetain io env True) (\<lambda>_. cy_fail e))
           else cy_ret ()))"

definition complete_failed ::
  "(nat \<Rightarrow> op_io) \<Rightarrow> task_env \<Rightarrow> task_cfg \<Rightarrow> leased_task \<Rightarrow> bool \<Rightarrow> outbox_error \<Rightarrow> unit cyc" where
  "complete_failed io env cfg leased completed err =
     (if completed then
        cy_bind (ob_confirm io) (\<lambda>confirmErr.
        cy_bind (outbox_do confirmErr) (\<lambda>_.
        cy_bind (cleanup_task io env cfg leased) (\<lambda>_.
        cy_bind (flushTaskResults io env) (\<lambda>_. cy_fail (OutboxError err)))))
      else cy_fail (OutboxError err))"

definition execute_durable :: "(nat \<Rightarrow> op_io) \<Rightarrow> task_env \<Rightarrow> task_cfg \<Rightarrow> leased_task \<Rightarrow> gotime \<Rightarrow> unit cyc" where
  "execute_durable io env cfg leased now =
     cy_bind (ob_begin io env (lt_Task leased) (lt_DurableProtocol leased)) (\<lambda>(committed, err). case err of
       Some e \<Rightarrow> begin_failed io cfg (lt_Task leased) now committed e
     | None \<Rightarrow>
         (if \<not> committed then cy_ret ()
          else
            cy_bind (runTask io (lt_Task leased) True (isLinechainTask leased)) (\<lambda>result.
            cy_bind (resolve_result env cfg leased (result\<lparr>tr_NodeID := tc_NodeID cfg\<rparr>) now) (\<lambda>result.
            cy_bind (ob_complete io env result) (\<lambda>(completed, completeErr). case completeErr of
              Some e \<Rightarrow> complete_failed io env cfg leased completed e
            | None \<Rightarrow>
                cy_bind (cleanup_task io env cfg leased) (\<lambda>_. flushTaskResults io env))))))"

definition executeTask :: "(nat \<Rightarrow> op_io) \<Rightarrow> task_env \<Rightarrow> task_cfg \<Rightarrow> leased_task \<Rightarrow> gotime \<Rightarrow> unit cyc" where
  "executeTask io env cfg leased now =
     (case validateDurablePair leased (tc_manager cfg) (tc_LinechainReady cfg) of
        Some e \<Rightarrow> cy_fail (Refused e)
      | None \<Rightarrow>
          (if lt_DurableProtocol leased \<notin> {[], ''linechain-e3-v2'', ''netguard-v1''}
           then cy_fail (Refused ''unsupported durable protocol'')
           else if \<not> lt_DurableResult leased then execute_plain io cfg (lt_Task leased) now
           else execute_durable io env cfg leased now))"

text \<open>The answer to the look at the stop channel is the \<open>oi_ok\<close> of the call.\<close>

fun executeTasks :: "(nat \<Rightarrow> op_io) \<Rightarrow> task_env \<Rightarrow> task_cfg \<Rightarrow> leased_task list \<Rightarrow> unit cyc" where
  "executeTasks io env cfg [] = cy_ret ()"
| "executeTasks io env cfg (t # ts) =
     cy_bind (cy_op io (\<lambda>i s. ((oi_ok i, oi_now i), s))) (\<lambda>(stopped, now).
       if stopped then cy_ret ()
       else cy_bind (executeTask io env cfg t now) (\<lambda>_. executeTasks io env cfg ts))"

subsection \<open>Recovering line chain tasks\<close>

definition linechainTaskScriptSHA :: "task_env \<Rightarrow> string \<Rightarrow> string" where
  "linechainTaskScriptSHA env script = lc_digest (le_json (te_lc env)) script"

definition guardManagedSHARe :: "string \<Rightarrow> bool" where
  "guardManagedSHARe s \<longleftrightarrow> length s = 64 \<and> list_all lower_hex s"

definition wrapper_prefix :: string where
  "wrapper_prefix = ''# lattice-linechain-e3-v2'' @ [CHR 0x0A] @ ''set -eu'' @ [CHR 0x0A] @ '': '' @ [CHR 0x22]
     @ ''${LATTICE_AGENT_BIN:?}'' @ [CHR 0x22] @ '' '' @ [CHR 0x22] @ ''${LATTICE_LINECHAIN_TXN_DIR:?}'' @ [CHR 0x22, CHR 0x0A]
     @ ''printf '' @ [CHR 0x27] @ ''%s'' @ [CHR 0x27] @ '' '' @ [CHR 0x27]"

definition wrapper_suffix :: string where
  "wrapper_suffix = [CHR 0x27] @ '' | base64 -d | '' @ [CHR 0x22] @ ''$LATTICE_AGENT_BIN'' @ [CHR 0x22] @ '' -linechain-apply'' @ [CHR 0x0A]"

definition linechainArtifactSHAFromTaskScript :: "task_env \<Rightarrow> string \<Rightarrow> string option" where
  "linechainArtifactSHAFromTaskScript env script =
     (if \<not> has_prefix script wrapper_prefix \<or> \<not> has_suffix script wrapper_suffix then None
      else case te_base64 env (trim_suffix (case cut_prefix script wrapper_prefix of None \<Rightarrow> script | Some x \<Rightarrow> x) wrapper_suffix) of
        None \<Rightarrow> None
      | Some raw \<Rightarrow>
          (case js_fields (le_json (te_lc env)) raw of
             None \<Rightarrow> None
           | Some fs \<Rightarrow>
               (if (case map_of fs ''version'' of None \<Rightarrow> None | Some v \<Rightarrow> te_int env v) \<noteq> Some 2 then None
                else if field_string (le_json (te_lc env)) fs ''durable_protocol'' \<noteq> Some ''linechain-e3-v2'' then None
                else case field_string (le_json (te_lc env)) fs ''artifact_sha256'' of
                  None \<Rightarrow> None
                | Some artifact \<Rightarrow> (if guardManagedSHARe artifact then Some artifact else None))))"

definition sameTaskResult :: "task_env \<Rightarrow> task_result \<Rightarrow> task_result \<Rightarrow> bool" where
  "sameTaskResult env a b \<longleftrightarrow>
     (case (le_marshal_result (te_lc env) a, le_marshal_result (te_lc env) b) of
        (Some x, Some y) \<Rightarrow> x = y | _ \<Rightarrow> False)"

definition task_key :: "string \<Rightarrow> string \<Rightarrow> string" where
  "task_key taskID leaseID = taskID @ [CHR 0x00] @ leaseID"

text \<open>One entry of the outbox against the journals; the key is matched when both belong together.\<close>

definition check_authority :: "task_env \<Rightarrow> (string \<times> journal_ref) list \<Rightarrow> entry \<Rightarrow> string + string list" where
  "check_authority env journals e =
     (let key = task_key (tk_ID (en_Task e)) (tk_LeaseID (en_Task e)); e3 = en_DurableProtocol e = ''linechain-e3-v2''
      in case map_of journals key of
           None \<Rightarrow>
             (if en_State e = stateLeased \<and> e3 then Inl ''leased E3 outbox lacks exact linechain journal'' else Inr [])
         | Some ref \<Rightarrow>
             (if \<not> e3 then Inl ''linechain journal has mismatched outbox protocol''
              else if jf_TaskScriptSHA ref \<noteq> linechainTaskScriptSHA env (te_script env (en_Task e))
              then Inl ''linechain journal does not match the exact outbox task script''
              else if linechainArtifactSHAFromTaskScript env (te_script env (en_Task e)) \<noteq> Some (jf_ArtifactSHA256 ref)
              then Inl ''linechain journal does not match the issued artifact in the exact outbox script''
              else if en_State e = stateDone \<and>
                \<not> (jf_Terminal ref \<and> (case (en_Result e, jf_Result ref) of (Some a, Some b) \<Rightarrow> sameTaskResult env a b | _ \<Rightarrow> False))
              then Inl ''completed E3 outbox conflicts with linechain terminal result''
              else Inr [key]))"

fun check_entries :: "task_env \<Rightarrow> (string \<times> journal_ref) list \<Rightarrow> string list \<Rightarrow> entry list \<Rightarrow> string + string list" where
  "check_entries env journals matched [] = Inr matched"
| "check_entries env journals matched (e # es) =
     (case check_authority env journals e of
        Inl err \<Rightarrow> Inl err | Inr ks \<Rightarrow> check_entries env journals (ks @ matched) es)"

definition authority_of :: "task_env \<Rightarrow> journal_ref \<Rightarrow> recovery_authority" where
  "authority_of env ref =
     \<lparr>ra_TaskScriptSHA = jf_TaskScriptSHA ref, ra_ArtifactSHA256 = jf_ArtifactSHA256 ref, ra_Phase = jf_Phase ref,
      ra_ResultSHA256 = resultSHA (te_lc env) (jf_Result ref), ra_JournalSHA256 = jf_JournalSHA256 ref\<rparr>"

definition captureLinechainAuthority ::
  "(nat \<Rightarrow> op_io) \<Rightarrow> task_env \<Rightarrow> lc_manager \<Rightarrow> (string \<times> recovery_authority) list cyc" where
  "captureLinechainAuthority io env m =
     cy_bind (ob_snapshot io env) (\<lambda>snap. case snap of
       Inl e \<Rightarrow> cy_fail (OutboxError e)
     | Inr entries \<Rightarrow>
         cy_bind (cy_line (Snapshot (te_lc env) m)) (\<lambda>refs.
           let journals = map (\<lambda>ref. (task_key (jf_TaskID ref) (jf_LeaseID ref), ref)) refs
           in case check_entries env journals [] entries of
                Inl e \<Rightarrow> cy_fail (Refused e)
              | Inr matched \<Rightarrow>
                  (if list_ex (\<lambda>(key, _). key \<notin> set matched) journals
                   then cy_fail (Refused ''linechain journal lacks exact leased E3 outbox'')
                   else cy_ret (map (\<lambda>(key, ref). (key, authority_of env ref)) journals))))"

text \<open>The callback of the recovery: the result goes to the outbox.\<close>

definition complete_recovered :: "(nat \<Rightarrow> op_io) \<Rightarrow> task_env \<Rightarrow> task_result \<Rightarrow> unit cyc" where
  "complete_recovered io env r =
     cy_bind (ob_complete io env r) (\<lambda>(committed, err). case err of
       None \<Rightarrow> cy_ret ()
     | Some e \<Rightarrow>
         (if committed then cy_bind (ob_confirm io) outbox_do else cy_fail (OutboxError e)))"

text \<open>
  \<open>RequireRecoveredAuthorized\<close> with that callback. A journal with a result that is valid carries the
  identity of the result, so the cleanup is for the task and lease of the result.
\<close>

fun recover_tasks ::
  "(nat \<Rightarrow> op_io) \<Rightarrow> task_env \<Rightarrow> lc_manager \<Rightarrow> string \<Rightarrow> (string \<times> recovery_authority) list \<Rightarrow> gotime \<Rightarrow> string list \<Rightarrow> unit cyc" where
  "recover_tasks io env m nodeID authority now [] = cy_ret ()"
| "recover_tasks io env m nodeID authority now (jp # paths) =
     cy_bind (cy_line (readJournal (te_lc env) jp)) (\<lambda>j.
       case map_of authority (task_key (jr_TaskID j) (jr_LeaseID j)) of
         None \<Rightarrow> cy_fail (Refused ''linechain recovery journal is outside captured authority'')
       | Some expected \<Rightarrow>
           cy_bind (cy_line (recoverOne (te_lc env) m jp False nodeID [] (Some expected) now)) (\<lambda>r.
           cy_bind (complete_recovered io env r) (\<lambda>_.
           cy_bind (cy_line (Cleanup (te_lc env) m (tr_TaskID r) (tr_LeaseID r))) (\<lambda>_.
             recover_tasks io env m nodeID authority now paths))))"

definition requireLinechainRecovered :: "(nat \<Rightarrow> op_io) \<Rightarrow> task_env \<Rightarrow> lc_manager \<Rightarrow> string \<Rightarrow> unit cyc" where
  "requireLinechainRecovered io env m nodeID =
     cy_bind (captureLinechainAuthority io env m) (\<lambda>authority.
     cy_bind (cy_op io (\<lambda>i s. ((oi_ok i, oi_now i, lc_journals m (ag_lc s)), s))) (\<lambda>(ok, now, paths).
       if ok then recover_tasks io env m nodeID authority now paths else cy_fail (LineError (Fault ''read'')))) "

subsection \<open>Polling and the worker\<close>

definition pollTasks :: "(nat \<Rightarrow> op_io) \<Rightarrow> task_env \<Rightarrow> task_cfg \<Rightarrow> leased_task list cyc" where
  "pollTasks io env cfg =
     cy_bind (case tc_manager cfg of None \<Rightarrow> cy_ret () | Some m \<Rightarrow> requireLinechainRecovered io env m (tc_NodeID cfg)) (\<lambda>_.
     cy_bind (ob_recover io env (tc_NodeID cfg)) (\<lambda>err.
     cy_bind (outbox_do err) (\<lambda>_.
     cy_bind (flushTaskResults io env) (\<lambda>_.
     cy_bind (cy_op io (\<lambda>i s. (oi_tasks i, s))) (\<lambda>tasks. case tasks of
       None \<Rightarrow> cy_fail FetchFailed | Some ts \<Rightarrow> cy_ret ts)))))"

definition runTasks :: "(nat \<Rightarrow> op_io) \<Rightarrow> task_env \<Rightarrow> task_cfg \<Rightarrow> unit cyc" where
  "runTasks io env cfg = cy_bind (pollTasks io env cfg) (executeTasks io env cfg)"

text \<open>The worker: whether the process runs, whether a batch is in flight, and the batch handed over.\<close>

record task_worker =
  wk_up :: bool
  wk_busy :: bool
  wk_batch :: "leased_task list"

definition newTaskWorker :: task_worker where
  "newTaskWorker = \<lparr>wk_up = True, wk_busy = False, wk_batch = []\<rparr>"

definition worker_down :: "(cycle_error + 'a) \<Rightarrow> task_worker \<Rightarrow> task_worker" where
  "worker_down r wk = (case r of Inl Died \<Rightarrow> wk\<lparr>wk_up := False\<rparr> | _ \<Rightarrow> wk)"

definition worker_poll ::
  "(nat \<Rightarrow> op_io) \<Rightarrow> task_env \<Rightarrow> task_cfg \<Rightarrow> agent_state \<times> task_worker \<Rightarrow> agent_state \<times> task_worker" where
  "worker_poll io env cfg x =
     (case x of (s, wk) \<Rightarrow>
        if wk_busy wk then (s, wk)
        else case pollTasks io env cfg s of
          (Inr (t # ts), s') \<Rightarrow> (s', wk\<lparr>wk_busy := True, wk_batch := t # ts\<rparr>)
        | (r, s') \<Rightarrow> (s', worker_down r wk))"

definition worker_run ::
  "(nat \<Rightarrow> op_io) \<Rightarrow> task_env \<Rightarrow> task_cfg \<Rightarrow> agent_state \<times> task_worker \<Rightarrow> agent_state \<times> task_worker" where
  "worker_run io env cfg x =
     (case x of (s, wk) \<Rightarrow>
        case executeTasks io env cfg (wk_batch wk) s of
          (r, s') \<Rightarrow> (s', worker_down r (wk\<lparr>wk_busy := False, wk_batch := []\<rparr>)))"

text \<open>The check of the main loop before it polls.\<close>

definition main_recover ::
  "(nat \<Rightarrow> op_io) \<Rightarrow> task_env \<Rightarrow> task_cfg \<Rightarrow> agent_state \<times> task_worker \<Rightarrow> agent_state \<times> task_worker" where
  "main_recover io env cfg x =
     (case x of (s, wk) \<Rightarrow>
        case tc_manager cfg of
          None \<Rightarrow> (s, wk)
        | Some m \<Rightarrow>
            (if wk_busy wk then (s, wk)
             else case requireLinechainRecovered io env m (tc_NodeID cfg) s of (r, s') \<Rightarrow> (s', worker_down r wk)))"

text \<open>
  The life of a node: the steps of the agent while it runs, with any answers and any configuration, the
  end of the process, a crash of the machine, and a start. The files of line chains may change in any
  way between the steps.
\<close>

inductive cycle_step :: "task_env \<Rightarrow> agent_state \<times> task_worker \<Rightarrow> agent_state \<times> task_worker \<Rightarrow> bool" for env where
  cs_poll: "wk_up wk \<Longrightarrow> cycle_step env (s, wk) (worker_poll io env cfg (s, wk))"
| cs_run: "wk_up wk \<Longrightarrow> wk_busy wk \<Longrightarrow> cycle_step env (s, wk) (worker_run io env cfg (s, wk))"
| cs_recover: "wk_up wk \<Longrightarrow> cycle_step env (s, wk) (main_recover io env cfg (s, wk))"
| cs_stop: "cycle_step env (s, wk) (s, wk\<lparr>wk_up := False\<rparr>)"
| cs_crash: "outbox_step (te_codec env) (ag_outbox s) Crashed ob \<Longrightarrow>
    cycle_step env (s, wk) (s\<lparr>ag_outbox := ob, ag_lc := after_crash pick (ag_lc s)\<rparr>, wk\<lparr>wk_up := False\<rparr>)"
| cs_open: "\<not> wk_up wk \<Longrightarrow> open_outbox (te_codec env) rio unlinks synced (ag_outbox s) = Inr ob \<Longrightarrow>
    cycle_step env (s, wk) (s\<lparr>ag_outbox := ob\<rparr>, newTaskWorker)"
| cs_files: "cycle_step env (s, wk) (s\<lparr>ag_lc := w\<rparr>, wk)"

inductive cycle_reach :: "task_env \<Rightarrow> agent_state \<times> task_worker \<Rightarrow> agent_state \<times> task_worker \<Rightarrow> bool" for env where
  cr_refl: "cycle_reach env x x"
| cr_step: "cycle_reach env x y \<Longrightarrow> cycle_step env y z \<Longrightarrow> cycle_reach env x z"

end
