(* ===== verification/Task_Cycle_Properties.thy ===== *)
theory Task_Cycle_Properties
  imports Task_Cycle "HOL-Library.Multiset"
begin

text \<open>
  The journal discipline of the task cycle: what the outbox promises of its entries holds of the agent that
  uses it, in every run. The invariant ties the tasks that were run and the results that were uploaded,
  and not acknowledged since, to entries that survive a crash.
\<close>

section \<open>Lemmas\<close>

definition cy_holds :: "(agent_state \<Rightarrow> bool) \<Rightarrow> 'a cyc \<Rightarrow> ('a \<Rightarrow> agent_state \<Rightarrow> bool) \<Rightarrow> (agent_state \<Rightarrow> bool) \<Rightarrow> bool" where
  "cy_holds A m B E \<longleftrightarrow> (\<forall>s. A s \<longrightarrow> (case m s of (Inl e, s') \<Rightarrow> E s' | (Inr x, s') \<Rightarrow> B x s'))"

definition task_entry_key :: "task_env \<Rightarrow> task \<Rightarrow> string" where
  "task_entry_key env t = entryKey (te_codec env) (tk_ID t) (tk_LeaseID t)"

definition result_key :: "task_env \<Rightarrow> task_result \<Rightarrow> string" where
  "result_key env r = entryKey (te_codec env) (tr_TaskID r) (tr_LeaseID r)"

text \<open>The durable tasks that were run and the results that were uploaded, and are not acknowledged yet.\<close>

definition open_event :: "task_env \<Rightarrow> task list \<times> task_result list \<Rightarrow> task_event \<Rightarrow> task list \<times> task_result list" where
  "open_event env x e =
     (case e of
        Ran t durable \<Rightarrow> (if durable then (t # fst x, snd x) else x)
      | Posted r durable \<Rightarrow> (if durable then (fst x, r # snd x) else x)
      | Acked k \<Rightarrow> (filter (\<lambda>t. task_entry_key env t \<noteq> k) (fst x), filter (\<lambda>r. result_key env r \<noteq> k) (snd x)))"

definition opens :: "task_env \<Rightarrow> task_event list \<Rightarrow> task list \<times> task_result list" where
  "opens env evs = foldl (open_event env) ([], []) evs"

definition once_at :: "task_env \<Rightarrow> task list \<times> task_result list \<Rightarrow> task_event \<Rightarrow> bool" where
  "once_at env x e \<longleftrightarrow>
     (case e of
        Ran t durable \<Rightarrow> durable \<longrightarrow> (\<forall>u \<in> set (fst x). tk_ID u \<noteq> tk_ID t)
      | Posted r durable \<Rightarrow> durable \<longrightarrow> (\<forall>u \<in> set (snd x). result_key env u = result_key env r \<longrightarrow> u = r)
      | Acked k \<Rightarrow> True)"

definition once :: "task_env \<Rightarrow> task_event list \<Rightarrow> bool" where
  "once env evs \<longleftrightarrow> (\<forall>p e q. evs = p @ e # q \<longrightarrow> once_at env (opens env p) e)"

abbreviation has_task :: "task_env \<Rightarrow> task \<Rightarrow> outbox \<Rightarrow> bool" where
  "has_task env t \<equiv> journaled (te_codec env) (\<lambda>e. en_Task e = t) (task_entry_key env t)"

abbreviation has_result :: "task_env \<Rightarrow> task_result \<Rightarrow> outbox \<Rightarrow> bool" where
  "has_result env r \<equiv> journaled (te_codec env) (\<lambda>e. en_State e = stateDone \<and> en_Result e = Some r) (result_key env r)"

definition names_ok :: "outbox \<Rightarrow> bool" where
  "names_ok s \<longleftrightarrow> distinct (map fst (ob_files s))"

definition cyc_inv :: "task_env \<Rightarrow> bool \<Rightarrow> agent_state \<Rightarrow> bool" where
  "cyc_inv env g s \<longleftrightarrow>
     once env (ag_events s) \<and> (\<forall>t \<in> set (fst (opens env (ag_events s))). has_task env t (ag_outbox s))
     \<and> (\<forall>r \<in> set (snd (opens env (ag_events s))). has_result env r (ag_outbox s)) \<and> (g \<longrightarrow> gate (ag_outbox s)) \<and> names_ok (ag_outbox s)"

lemma cy_holdsI:
  assumes "\<And>s e s'. A s \<Longrightarrow> m s = (Inl e, s') \<Longrightarrow> E s'" "\<And>s x s'. A s \<Longrightarrow> m s = (Inr x, s') \<Longrightarrow> B x s'"
  shows "cy_holds A m B E"
  unfolding cy_holds_def using assms by (auto split: prod.split sum.split)

lemma cy_holdsD:
  assumes "cy_holds A m B E" "A s"
  shows "m s = (Inl e, s') \<Longrightarrow> E s'" "m s = (Inr x, s') \<Longrightarrow> B x s'"
  using assms unfolding cy_holds_def by (metis (mono_tags, lifting) case_prod_conv sum.case)+

lemma cyh_ret: "(\<And>s. A s \<Longrightarrow> B x s) \<Longrightarrow> cy_holds A (cy_ret x) B E"
  by (simp add: cy_holds_def cy_ret_def)

lemma cyh_fail: "(\<And>s. A s \<Longrightarrow> E s) \<Longrightarrow> cy_holds A (cy_fail e) B E"
  by (simp add: cy_holds_def cy_fail_def)

lemma cyh_bind:
  assumes "cy_holds A m B E" "\<And>x. cy_holds (B x) (f x) C E"
  shows "cy_holds A (cy_bind m f) C E"
proof (rule cy_holdsI)
  fix s e s' assume s: "A s" "cy_bind m f s = (Inl e, s')"
  then show "E s'"
    using cy_holdsD [OF assms(1) s(1)] cy_holdsD(1) [OF assms(2)] by (auto simp: cy_bind_def split: prod.splits sum.splits)
next
  fix s y s' assume s: "A s" "cy_bind m f s = (Inr y, s')"
  then show "C y s'"
    using cy_holdsD [OF assms(1) s(1)] cy_holdsD(2) [OF assms(2)] by (auto simp: cy_bind_def split: prod.splits sum.splits)
qed

lemma cyh_pre: "(\<And>s. A s \<Longrightarrow> A' s) \<Longrightarrow> cy_holds A' m B E \<Longrightarrow> cy_holds A m B E"
  by (simp add: cy_holds_def)

lemma cyh_post: "cy_holds A m B' E' \<Longrightarrow> (\<And>x s. B' x s \<Longrightarrow> B x s) \<Longrightarrow> (\<And>s. E' s \<Longrightarrow> E s) \<Longrightarrow> cy_holds A m B E"
  by (rule cy_holdsI) (auto dest: cy_holdsD)

lemma cyh_if: "cy_holds A m B E \<Longrightarrow> cy_holds A m' B E \<Longrightarrow> cy_holds A (if c then m else m') B E"
  by simp

lemma cyh_unless: "(\<not> c \<Longrightarrow> cy_holds A m B E) \<Longrightarrow> (c \<Longrightarrow> cy_holds A m' B E) \<Longrightarrow> cy_holds A (if \<not> c then m else m') B E"
  by simp

lemma cyh_attempt: "cy_holds A m (\<lambda>_. A) A \<Longrightarrow> cy_holds A (cy_attempt m) (\<lambda>_. A) A"
  by (rule cy_holdsI) (auto simp: cy_attempt_def split: prod.splits sum.splits if_splits dest: cy_holdsD)

lemma cyh_op:
  assumes "\<And>s. A s \<Longrightarrow> E s" "\<And>i s x s'. A s \<Longrightarrow> f i (s\<lparr>ag_n := Suc (ag_n s)\<rparr>) = (x, s') \<Longrightarrow> B x s'"
  shows "cy_holds A (cy_op io f) B E"
  by (rule cy_holdsI) (use assms in \<open>auto simp: cy_op_def split: prod.splits if_splits\<close>)

subsection \<open>Events\<close>

lemma opens_snoc [simp]: "opens env (evs @ [e]) = open_event env (opens env evs) e"
  by (simp add: opens_def)

lemma opens_append: "opens env (p @ q) = foldl (open_event env) (opens env p) q"
  by (simp add: opens_def)

lemma snoc_split: "evs @ [e] = p @ x # q \<longleftrightarrow> (q = [] \<and> evs = p \<and> e = x) \<or> (\<exists>q'. q = q' @ [e] \<and> evs = p @ x # q')"
  by (cases q rule: rev_cases) auto

lemma once_snoc: "once env (evs @ [e]) \<longleftrightarrow> once env evs \<and> once_at env (opens env evs) e"
  unfolding once_def snoc_split by auto

lemma open_run_stays:
  "t \<in> set (fst x) \<Longrightarrow> Acked (task_entry_key env t) \<notin> set q \<Longrightarrow> t \<in> set (fst (foldl (open_event env) x q))"
proof (induction q arbitrary: x)
  case (Cons e q)
  have "t \<in> set (fst (open_event env x e))" using Cons.prems by (cases e) (auto simp: open_event_def)
  then show ?case using Cons by simp
qed simp

lemma open_post_stays:
  "r \<in> set (snd x) \<Longrightarrow> Acked (result_key env r) \<notin> set q \<Longrightarrow> r \<in> set (snd (foldl (open_event env) x q))"
proof (induction q arbitrary: x)
  case (Cons e q)
  have "r \<in> set (snd (open_event env x e))" using Cons.prems by (cases e) (auto simp: open_event_def)
  then show ?case using Cons by simp
qed simp

subsection \<open>Names of the outbox directory stay distinct\<close>

lemma names_simps [simp]:
  "names_ok s \<Longrightarrow> names_ok (put_file n nd s)" "names_ok s \<Longrightarrow> names_ok (drop_file n s)" "names_ok (sync_dir ok s) = names_ok s"
  "names_ok (s\<lparr>ob_unconfirmed := b\<rparr>) = names_ok s"
  by (simp_all add: names_ok_def put_file_def drop_file_def sync_dir_def distinct_update distinct_delete)

lemma names_write: "names_ok s \<Longrightarrow> writeEntry cd io s key e createOnly = (s', c, err) \<Longrightarrow> names_ok s'"
  by (auto simp: writeEntry_def Let_def confirm_write_def split: option.splits if_splits)

lemma names_confirm: "names_ok s \<Longrightarrow> confirmDurability ok s = (s', err) \<Longrightarrow> names_ok s'"
  by (auto simp: confirmDurability_def split: if_splits)

lemma names_recover_loop: "names_ok s \<Longrightarrow> recover_loop cd nodeID ios n s es = (s', err) \<Longrightarrow> names_ok s'"
proof (induction es arbitrary: n s)
  case (Cons e es)
  obtain t c x where w: "writeEntry cd (vio_write (ios n)) s (en_key e) (recovered nodeID (vio_now (ios n)) e) False = (t, c, x)"
    by (metis prod_cases3)
  obtain u y where cf: "confirmDurability (vio_confirm (ios n)) t = (u, y)" by fastforce
  from Cons.prems Cons.IH names_write [OF Cons.prems(1) w] names_confirm [OF _ cf] show ?case
    by (auto simp: w cf split: if_splits option.splits)
qed simp

lemma names_clean_loop: "names_ok s \<Longrightarrow> clean_loop unlinks s ns = (s', r, err) \<Longrightarrow> names_ok s'"
proof (induction ns arbitrary: s s' r err)
  case (Cons n ns)
  obtain t b x where c: "clean_loop unlinks (drop_file n s) ns = (t, b, x)" by (metis prod_cases3)
  have "names_ok t" using Cons.IH [OF _ c] Cons.prems(1) by simp
  then show ?case using Cons by (auto simp: c split: option.splits if_splits)
qed simp

lemma names_step:
  assumes "outbox_step cd s l s'" "names_ok s"
  shows "names_ok s'"
  using assms(1)
proof (cases rule: outbox_step.cases)
  case (step_begin rio wio now t protocol c err)
  then show ?thesis
    using assms(2) names_write by (auto simp: begin_task_def Let_def split: if_splits sum.splits option.splits)
next
  case (step_complete rio wio now r c err)
  then show ?thesis using assms(2) names_write by (auto simp: complete_task_def Let_def split: if_splits sum.splits)
next
  case (step_confirm ok err)
  then show ?thesis using assms(2) names_confirm by blast
next
  case (step_recover rio ok ios nodeID err)
  obtain u y where cf: "confirmDurability ok s = (u, y)" by fastforce
  then show ?thesis
    using step_recover names_confirm [OF assms(2) cf] names_recover_loop
    by (auto simp: recoverInterrupted_def split: option.splits sum.splits)
next
  case (step_remove unlinked synced e err k')
  then show ?thesis using assms(2) by (auto simp: remove_entry_def Let_def split: if_splits)
next
  case (step_open rio unlinks synced)
  obtain t r x where c: "clean_loop unlinks (s\<lparr>ob_unconfirmed := False\<rparr>) (sort (map fst (ob_files s))) = (t, r, x)"
    by (metis prod_cases3)
  have "names_ok t" using names_clean_loop [OF _ c] assms(2) by simp
  then show ?thesis
    using step_open c by (auto simp: open_outbox_def cleanupTemps_def split: option.splits bool.splits sum.splits if_splits)
next
  case (step_crash fs)
  then show ?thesis by (simp add: names_ok_def)
qed

lemma journal_names_distinct: "names_ok s \<Longrightarrow> distinct (journal_names (ob_files s))"
  by (simp add: names_ok_def journal_names_def distinct_map_filter)

lemma readAll_keys:
  assumes "readAll cd rio s = Inr es" "names_ok s"
  shows "distinct (map en_key es)"
proof -
  let ?ns = "journal_names (ob_files s)"
  have l: "list_all2 (\<lambda>n e. read_entry cd rio s (trim_suffix n ''.json'') = Inr e) ?ns es"
    using readAll_Inr(1) [OF assms(1)] .
  have "list_all2 (\<lambda>n e. trim_suffix n ''.json'' = en_key e) ?ns es"
    by (rule list_all2_mono [OF l]) (auto elim: read_entry_Inr)
  then have "map en_key es = map (\<lambda>n. trim_suffix n ''.json'') ?ns"
    by (simp add: list_all2_conv_all_nth list_eq_iff_nth_eq)
  moreover have "inj_on (\<lambda>n. trim_suffix n ''.json'') (set ?ns)"
  proof (rule inj_onI)
    fix a b assume ab: "a \<in> set ?ns" "b \<in> set ?ns" "trim_suffix a ''.json'' = trim_suffix b ''.json''"
    then have "has_suffix a ''.json''" "has_suffix b ''.json''" by (auto simp: journal_names_def)
    then show "a = b" using ab(3) path_of by metis
  qed
  ultimately show ?thesis using journal_names_distinct [OF assms(2)] by (simp add: distinct_map)
qed

subsection \<open>The calls keep the invariant\<close>

lemma inv_frame [simp]: "cyc_inv env g (s\<lparr>ag_n := n\<rparr>) = cyc_inv env g s" "cyc_inv env g (s\<lparr>ag_lc := w\<rparr>) = cyc_inv env g s"
  by (simp_all add: cyc_inv_def)

lemma inv_weaken: "cyc_inv env True s \<Longrightarrow> cyc_inv env g s"
  by (simp add: cyc_inv_def)

lemma cyc_inv_step:
  assumes cd: "codec_ok (te_codec env)" and s: "cyc_inv env g s" and st: "outbox_step (te_codec env) (ag_outbox s) l ob"
    and l: "l = Called \<or> (\<not> g \<and> (l = Crashed \<or> l = Reopened))"
  shows "cyc_inv env g (s\<lparr>ag_outbox := ob\<rparr>)"
  using s l of_task.step_keeps [OF cd st] of_result.step_keeps [OF cd st] gate_step [OF st] names_step [OF st]
  unfolding cyc_inv_def by auto

lemma inv_acked:
  assumes cd: "codec_ok (te_codec env)" and s: "cyc_inv env g s" and st: "outbox_step (te_codec env) (ag_outbox s) (Removed k) ob"
  shows "cyc_inv env g (note_event (Acked k) (s\<lparr>ag_outbox := ob\<rparr>))"
proof -
  have "has_task env t ob" if "t \<in> set (fst (opens env (ag_events s)))" "task_entry_key env t \<noteq> k" for t
    using s that by (intro of_task.step_keeps [OF cd st]) (auto simp: cyc_inv_def)
  moreover have "has_result env r ob" if "r \<in> set (snd (opens env (ag_events s)))" "result_key env r \<noteq> k" for r
    using s that by (intro of_result.step_keeps [OF cd st]) (auto simp: cyc_inv_def)
  ultimately show ?thesis
    using s gate_step [OF st] names_step [OF st] by (auto simp: cyc_inv_def note_event_def once_snoc once_at_def open_event_def)
qed

lemma cyh_called:
  assumes cd: "codec_ok (te_codec env)"
    and f: "\<And>i s x s'. f i s = (x, s') \<Longrightarrow> \<exists>ob. s' = s\<lparr>ag_outbox := ob\<rparr> \<and> outbox_step (te_codec env) (ag_outbox s) Called ob"
  shows "cy_holds (cyc_inv env g) (cy_op io f) (\<lambda>_. cyc_inv env g) (cyc_inv env g)"
proof (rule cyh_op)
  fix i s x s' assume s: "cyc_inv env g s" and x: "f i (s\<lparr>ag_n := Suc (ag_n s)\<rparr>) = (x, s')"
  from f [OF x] obtain ob where ob: "s' = s\<lparr>ag_n := Suc (ag_n s), ag_outbox := ob\<rparr>" "outbox_step (te_codec env) (ag_outbox s) Called ob"
    by auto
  have "cyc_inv env g ((s\<lparr>ag_n := Suc (ag_n s)\<rparr>)\<lparr>ag_outbox := ob\<rparr>)"
    by (rule cyc_inv_step [OF cd]) (use s ob(2) in auto)
  then show "cyc_inv env g s'" using ob(1) by simp
qed

lemma cyh_begin: "codec_ok (te_codec env) \<Longrightarrow> cy_holds (cyc_inv env g) (ob_begin io env t p) (\<lambda>_. cyc_inv env g) (cyc_inv env g)"
  unfolding ob_begin_def by (rule cyh_called) (auto split: prod.splits intro: step_begin)

lemma cyh_complete: "codec_ok (te_codec env) \<Longrightarrow> cy_holds (cyc_inv env g) (ob_complete io env r) (\<lambda>_. cyc_inv env g) (cyc_inv env g)"
  unfolding ob_complete_def by (rule cyh_called) (auto split: prod.splits intro: step_complete)

lemma cyh_confirm: "codec_ok (te_codec env) \<Longrightarrow> cy_holds (cyc_inv env g) (ob_confirm io) (\<lambda>_. cyc_inv env g) (cyc_inv env g)"
  unfolding ob_confirm_def by (rule cyh_called) (auto split: prod.splits intro: step_confirm)

lemma cyh_keep: "(\<And>i s x s'. f i s = (x, s') \<Longrightarrow> s' = s) \<Longrightarrow>
    cy_holds (cyc_inv env g) (cy_op io f) (\<lambda>_. cyc_inv env g) (cyc_inv env g)"
  by (rule cyh_op) fastforce+

lemma cyh_line: "cy_holds (cyc_inv env g) (cy_line m) (\<lambda>_. cyc_inv env g) (cyc_inv env g)"
  by (rule cy_holdsI) (auto simp: cy_line_def split: prod.splits sum.splits)

lemma cyh_outbox_do: "(\<And>s. A s \<Longrightarrow> E s) \<Longrightarrow> cy_holds A (outbox_do err) (\<lambda>_ s. err = None \<and> A s) E"
  unfolding outbox_do_def by (cases err) (auto intro: cyh_ret cyh_fail)

lemma cyh_snapshot: "cy_holds (cyc_inv env g) (ob_snapshot io env) (\<lambda>_. cyc_inv env g) (cyc_inv env g)"
  unfolding ob_snapshot_def by (rule cyh_keep) auto

lemma cyh_recover:
  assumes cd: "codec_ok (te_codec env)"
  shows "cy_holds (cyc_inv env g) (ob_recover io env nodeID) (\<lambda>err s. cyc_inv env g s \<and> (err = None \<longrightarrow> cyc_inv env True s)) (cyc_inv env g)"
  unfolding ob_recover_def
proof (rule cyh_op)
  fix i s x s'
  assume s: "cyc_inv env g s" and x: "(case recoverInterrupted (te_codec env) (oi_read i) (oi_ok i) (oi_recover i)
      (ag_outbox (s\<lparr>ag_n := Suc (ag_n s)\<rparr>)) nodeID of
       (ob, err) \<Rightarrow> (err, s\<lparr>ag_n := Suc (ag_n s), ag_outbox := ob\<rparr>)) = (x, s')"
  then obtain ob where r: "recoverInterrupted (te_codec env) (oi_read i) (oi_ok i) (oi_recover i) (ag_outbox s) nodeID = (ob, x)"
    and s': "s' = (s\<lparr>ag_n := Suc (ag_n s)\<rparr>)\<lparr>ag_outbox := ob\<rparr>"
    by (auto split: prod.splits)
  have i: "cyc_inv env g s'"
    unfolding s' by (rule cyc_inv_step [OF cd _ step_recover]) (use s r in auto)
  moreover have "gate ob" if "x = None"
    using recover_settles [OF cd] r that by (fastforce simp: gate_def)
  ultimately show "cyc_inv env g s' \<and> (x = None \<longrightarrow> cyc_inv env True s')"
    unfolding cyc_inv_def s' by simp
qed

subsection \<open>Running and uploading\<close>

definition may_run :: "task_env \<Rightarrow> task \<Rightarrow> agent_state \<Rightarrow> bool" where
  "may_run env t s \<longleftrightarrow> has_task env t (ag_outbox s) \<and> (\<forall>u \<in> set (fst (opens env (ag_events s))). tk_ID u \<noteq> tk_ID t)"

lemma begin_fresh:
  assumes cd: "codec_ok cd" and b: "begin_task cd rio wio now s t protocol = (s', True, None)"
    and u: "journaled cd (\<lambda>e. en_Task e = u) k s"
  shows "tk_ID u \<noteq> tk_ID t"
proof -
  from b obtain es where es: "readAll cd rio s = Inr es" "begin_seen t protocol (entryKey cd (tk_ID t) (tk_LeaseID t)) es = None"
    by (rule begin_committed)
  obtain nd where nd: "map_of (ob_files s) (path k) = Some nd" "\<not> nd_isDir nd"
    using u by (auto simp: journaled_def holds_in_def)
  from readAll_complete [OF es(1) nd] obtain e where e: "e \<in> set es" "read_entry cd rio s k = Inr e" .
  have "en_Task e = u" using of_task.read_holds [OF u e(2)] .
  then show ?thesis using begin_seen_None [OF es(2) e(1)] by simp
qed

lemma cyh_begin_run:
  assumes cd: "codec_ok (te_codec env)"
  shows "cy_holds (cyc_inv env g) (ob_begin io env t p)
     (\<lambda>(c, err) s. cyc_inv env g s \<and> (c \<and> err = None \<longrightarrow> may_run env t s)) (cyc_inv env g)"
proof -
  have "cy_holds (cyc_inv env g) (ob_begin io env t p) (\<lambda>(c, err) s. c \<and> err = None \<longrightarrow> may_run env t s) (\<lambda>_. True)"
    unfolding ob_begin_def
  proof (rule cyh_op)
    fix i s x s'
    assume s: "cyc_inv env g s" and x: "(case begin_task (te_codec env) (oi_read i) (oi_write i) (oi_now i)
        (ag_outbox (s\<lparr>ag_n := Suc (ag_n s)\<rparr>)) t p of
         (ob, committed, err) \<Rightarrow> ((committed, err), s\<lparr>ag_n := Suc (ag_n s), ag_outbox := ob\<rparr>)) = (x, s')"
    obtain ob c err where b: "begin_task (te_codec env) (oi_read i) (oi_write i) (oi_now i) (ag_outbox s) t p = (ob, c, err)"
      by (metis prod_cases3)
    then have x': "x = (c, err)" "s' = s\<lparr>ag_n := Suc (ag_n s), ag_outbox := ob\<rparr>" using x by auto
    have "may_run env t s'" if "c" "err = None"
      using begin_journals [OF cd, of "oi_read i" "oi_write i" "oi_now i" "ag_outbox s" t p ob]
        begin_fresh [OF cd, of "oi_read i" "oi_write i" "oi_now i" "ag_outbox s" t p ob] b that s
      unfolding may_run_def cyc_inv_def x'(2) task_entry_key_def by auto
    then show "(case x of (c, err) \<Rightarrow> \<lambda>s. c \<and> err = None \<longrightarrow> may_run env t s) s'" by (simp add: x'(1))
  qed simp
  with cyh_begin [OF cd, of g io t p] show ?thesis
    unfolding cy_holds_def by (fastforce split: prod.splits sum.splits)
qed

lemma cyh_run_durable:
  "cy_holds (\<lambda>s. cyc_inv env g s \<and> may_run env t s) (runTask io t True v) (\<lambda>_. cyc_inv env g) (cyc_inv env g)"
  unfolding runTask_def
  by (rule cyh_op) (auto simp: note_event_def cyc_inv_def may_run_def once_snoc once_at_def open_event_def)

lemma cyh_run_plain: "cy_holds (cyc_inv env g) (runTask io t False v) (\<lambda>_. cyc_inv env g) (cyc_inv env g)"
  unfolding runTask_def
  by (rule cyh_op) (auto simp: note_event_def cyc_inv_def once_snoc once_at_def open_event_def split: if_splits)

lemma cyh_post_direct: "cy_holds (cyc_inv env g) (postResult io False r) (\<lambda>_. cyc_inv env g) (cyc_inv env g)"
  unfolding postResult_def by (rule cyh_op) (auto simp: note_event_def cyc_inv_def once_snoc once_at_def open_event_def)

text \<open>Two results of one entry are the same.\<close>

lemma has_result_unique: "has_result env r s \<Longrightarrow> has_result env r' s \<Longrightarrow> result_key env r = result_key env r' \<Longrightarrow> r = r'"
  by (auto simp: journaled_def holds_in_def)

lemma cyh_post_durable:
  "cy_holds (\<lambda>s. cyc_inv env g s \<and> has_result env r (ag_outbox s)) (postResult io True r) (\<lambda>_. cyc_inv env g) (cyc_inv env g)"
  unfolding postResult_def
  by (rule cyh_op)
    (auto simp: note_event_def cyc_inv_def once_snoc once_at_def open_event_def intro: has_result_unique)

text \<open>A pending entry is in the journal that survives a crash, under the key of its result.\<close>

lemma pending_has_result:
  assumes g: "gate ob" and p: "pending (te_codec env) rio ob = Inr es" and e: "e \<in> set es" "en_Result e = Some r"
  shows "has_result env r ob \<and> en_key e = result_key env r \<and> ack_key env e = en_key e"
proof -
  from p e obtain xs where xs: "readAll (te_codec env) rio ob = Inr xs" "e \<in> set xs" "en_State e = stateDone" "\<not> ob_unconfirmed ob"
    by (auto simp: pending_def split: if_splits sum.splits)
  have "read_entry (te_codec env) rio ob (en_key e) = Inr e" using readAll_mem [OF xs(1,2)] .
  then obtain nd x where x: "map_of (ob_files ob) (path (en_key e)) = Some nd" "cd_decode (te_codec env) (nd_content nd) = Some x"
    "check_entry (te_codec env) (en_key e) x = Inr e" "e = x\<lparr>en_key := en_key e\<rparr>" "\<not> nd_isDir nd"
    by (rule read_entry_Inr) blast
  have k: "en_key e = result_key env r"
    using x(3,4) e(2) xs(3) by (auto simp: check_entry_def result_key_def stateDone_def stateLeased_def split: if_splits option.splits)
  have "ack_key env e = en_key e"
    using check_entry_Inr [OF x(3)] x(4) by (metis ack_key_def entry.select_convs(3) entry.surjective entry.update_convs(8))
  moreover have "en_State x = stateDone" "en_Result x = Some r" using x(4) xs(3) e(2) by (metis entry.select_convs entry.surjective entry.update_convs(8))+
  moreover have "map_of (ob_durable ob) (path (en_key e)) = Some nd" using g xs(4) x(1) by (simp add: gate_def)
  ultimately show ?thesis using x(1,2,5) k by (auto simp: journaled_def holds_in_def)
qed

lemma cyh_remove:
  assumes cd: "codec_ok (te_codec env)"
  shows "cy_holds (\<lambda>s. cyc_inv env g s \<and> (\<forall>r \<in> R. has_result env r (ag_outbox s))) (ob_remove io env e)
     (\<lambda>_ s. cyc_inv env g s \<and> (\<forall>r \<in> R. result_key env r \<noteq> ack_key env e \<longrightarrow> has_result env r (ag_outbox s))) (cyc_inv env g)"
  unfolding ob_remove_def
proof (rule cyh_op)
  fix i s x s'
  assume s: "cyc_inv env g s \<and> (\<forall>r \<in> R. has_result env r (ag_outbox s))"
    and x: "(case remove_entry (te_codec env) (oi_ok i) (oi_synced i) (ag_outbox (s\<lparr>ag_n := Suc (ag_n s)\<rparr>)) e of
       (ob, err) \<Rightarrow> (err, note_event (Acked (ack_key env e)) (s\<lparr>ag_n := Suc (ag_n s), ag_outbox := ob\<rparr>))) = (x, s')"
  then obtain ob where r: "remove_entry (te_codec env) (oi_ok i) (oi_synced i) (ag_outbox s) e = (ob, x)"
    and s': "s' = note_event (Acked (ack_key env e)) ((s\<lparr>ag_n := Suc (ag_n s)\<rparr>)\<lparr>ag_outbox := ob\<rparr>)"
    by (auto split: prod.splits)
  have st: "outbox_step (te_codec env) (ag_outbox s) (Removed (ack_key env e)) ob"
    by (rule step_remove [OF r]) (simp add: ack_key_def)
  have "cyc_inv env g s'" unfolding s' by (rule inv_acked [OF cd]) (use s st in auto)
  moreover have "has_result env r (ag_outbox s')" if "r \<in> R" "result_key env r \<noteq> ack_key env e" for r
    using of_result.step_keeps [OF cd st] s that by (auto simp: s' note_event_def)
  ultimately show "cyc_inv env g s' \<and> (\<forall>r \<in> R. result_key env r \<noteq> ack_key env e \<longrightarrow> has_result env r (ag_outbox s'))" by blast
qed auto

lemma flush_keys:
  assumes p: "pending cd rio ob = Inr es" and n: "names_ok ob"
  shows "distinct (map en_key es)"
proof -
  from p obtain xs where xs: "readAll cd rio ob = Inr xs"
    and es: "es = sort_key en_UpdatedAt (sort_key en_key (filter (\<lambda>e. en_State e = stateDone \<and> en_Result e \<noteq> None) xs))"
    by (auto simp: pending_def split: if_splits sum.splits)
  have m: "mset (map en_key es) = mset (map en_key (filter (\<lambda>e. en_State e = stateDone \<and> en_Result e \<noteq> None) xs))"
    unfolding es by simp
  show ?thesis
    unfolding mset_eq_imp_distinct_iff [OF m] by (rule distinct_map_filter [OF readAll_keys [OF xs n]])
qed

text \<open>While pending entries are uploaded, those still to come stay in the journal.\<close>

definition to_upload :: "task_env \<Rightarrow> entry list \<Rightarrow> agent_state \<Rightarrow> bool" where
  "to_upload env es s \<longleftrightarrow>
     cyc_inv env True s \<and> distinct (map en_key es)
     \<and> (\<forall>e \<in> set es. \<forall>r. en_Result e = Some r \<longrightarrow> has_result env r (ag_outbox s) \<and> en_key e = result_key env r \<and> ack_key env e = en_key e)"

lemma cyh_flush_entries:
  assumes cd: "codec_ok (te_codec env)"
  shows "cy_holds (to_upload env es) (flush_entries io env retain es) (\<lambda>_. cyc_inv env True) (cyc_inv env True)"
proof (induction es)
  case Nil
  then show ?case by (auto intro!: cyh_ret simp: to_upload_def)
next
  case (Cons e es)
  show ?case
  proof (cases "en_Result e")
    case None
    then show ?thesis by (auto intro!: cyh_fail simp: to_upload_def)
  next
    case (Some r)
    let ?R = "{r. \<exists>e \<in> set es. en_Result e = Some r}"
    let ?P = "\<lambda>s. cyc_inv env True s \<and> (\<forall>r \<in> ?R. has_result env r (ag_outbox s))"
    let ?K = "distinct (map en_key (e # es)) \<and> en_key e = result_key env r \<and> ack_key env e = en_key e
        \<and> (\<forall>e \<in> set es. \<forall>r. en_Result e = Some r \<longrightarrow> en_key e = result_key env r \<and> ack_key env e = en_key e)"
    have post: "cy_holds (\<lambda>s. ?P s \<and> has_result env r (ag_outbox s)) (postResult io True r) (\<lambda>_. ?P) (cyc_inv env True)"
      unfolding postResult_def
      by (rule cyh_op)
        (auto simp: note_event_def cyc_inv_def once_snoc once_at_def open_event_def intro: has_result_unique)
    have rest: "cy_holds ?P
        (if retain \<and> en_DurableProtocol e = ''linechain-e3-v2'' then flush_entries io env retain es
            else cy_bind (ob_remove io env e) (\<lambda>err.
                 cy_bind (outbox_do err) (\<lambda>_. flush_entries io env retain es)))
        (\<lambda>_. cyc_inv env True) (cyc_inv env True)" if K: ?K
    proof (rule cyh_if)
      show "cy_holds ?P (flush_entries io env retain es) (\<lambda>_. cyc_inv env True) (cyc_inv env True)"
        by (rule cyh_pre [OF _ Cons.IH]) (use K in \<open>auto simp: to_upload_def\<close>)
      have "result_key env r' \<noteq> ack_key env e" if "r' \<in> ?R" for r'
        using that K by (auto simp: image_iff)
      then have rm: "cy_holds ?P (ob_remove io env e) (\<lambda>_. ?P) (cyc_inv env True)"
        by (intro cyh_post [OF cyh_remove [OF cd]]) auto
      show "cy_holds ?P (cy_bind (ob_remove io env e) (\<lambda>err.
                 cy_bind (outbox_do err) (\<lambda>_. flush_entries io env retain es))) (\<lambda>_. cyc_inv env True) (cyc_inv env True)"
      proof (rule cyh_bind [OF rm], rule cyh_bind [OF cyh_outbox_do])
        fix err
        show "cy_holds (\<lambda>s. err = None \<and> ?P s) (flush_entries io env retain es) (\<lambda>_. cyc_inv env True) (cyc_inv env True)"
          by (rule cyh_pre [OF _ Cons.IH]) (use K in \<open>auto simp: to_upload_def\<close>)
      qed auto
    qed
    show ?thesis
    proof (cases ?K)
      case True
      show ?thesis
        unfolding flush_entries.simps Some option.case
        by (rule cyh_pre [OF _ cyh_bind [OF post cyh_if [OF cyh_fail rest [OF True]]]])
          (auto simp: to_upload_def Some)
    next
      case False
      then have "\<not> to_upload env (e # es) s" for s using Some by (auto simp: to_upload_def)
      then show ?thesis by (simp add: cy_holds_def)
    qed
  qed
qed

lemma cyh_flush:
  assumes cd: "codec_ok (te_codec env)"
  shows "cy_holds (cyc_inv env True) (flushTaskResultsRetain io env retain) (\<lambda>_. cyc_inv env True) (cyc_inv env True)"
  unfolding flushTaskResultsRetain_def
proof (rule cyh_bind)
  show "cy_holds (cyc_inv env True) (ob_pending io env)
      (\<lambda>r s. case r of Inl _ \<Rightarrow> cyc_inv env True s | Inr es \<Rightarrow> to_upload env es s) (cyc_inv env True)"
    unfolding ob_pending_def
  proof (rule cyh_op)
    fix i s x s'
    assume s: "cyc_inv env True s"
      and x: "(pending (te_codec env) (oi_read i) (ag_outbox (s\<lparr>ag_n := Suc (ag_n s)\<rparr>)), s\<lparr>ag_n := Suc (ag_n s)\<rparr>) = (x, s')"
    then have s': "s' = s\<lparr>ag_n := Suc (ag_n s)\<rparr>" and p: "pending (te_codec env) (oi_read i) (ag_outbox s) = x" by auto
    show "case x of Inl _ \<Rightarrow> cyc_inv env True s' | Inr es \<Rightarrow> to_upload env es s'"
    proof (cases x)
      case (Inr es)
      have "gate (ag_outbox s)" "names_ok (ag_outbox s)" using s by (simp_all add: cyc_inv_def)
      then show ?thesis
        using s p Inr flush_keys pending_has_result by (fastforce simp: to_upload_def s')
    qed (use s s' in simp)
  qed auto
  show "cy_holds (\<lambda>s. case r of Inl _ \<Rightarrow> cyc_inv env True s | Inr es \<Rightarrow> to_upload env es s)
      (case r of Inl e \<Rightarrow> cy_fail (OutboxError e) | Inr es \<Rightarrow> flush_entries io env retain es) (\<lambda>_. cyc_inv env True) (cyc_inv env True)" for r
    using cyh_flush_entries [OF cd] by (cases r) (auto intro: cyh_fail)
qed

subsection \<open>Executing and polling keep the invariant\<close>

lemmas cyh_kept = cyh_complete cyh_confirm cyh_line cyh_snapshot cyh_run_plain cyh_post_direct cyh_attempt [OF cyh_line]

lemma cyh_cleanup:
  assumes cd: "codec_ok (te_codec env)"
  shows "cy_holds (cyc_inv env True) (cleanup_task io env cfg leased) (\<lambda>_. cyc_inv env True) (cyc_inv env True)"
proof (cases "tc_manager cfg")
  case (Some m)
  have "cy_holds (cyc_inv env True)
      (case r of Inr _ \<Rightarrow> cy_ret () | Inl e \<Rightarrow> cy_bind (flushTaskResultsRetain io env True) (\<lambda>_. cy_fail e))
      (\<lambda>_. cyc_inv env True) (cyc_inv env True)" for r :: "cycle_error + unit"
    by (cases r) (auto intro!: cyh_ret cyh_bind [OF cyh_flush [OF cd]] cyh_fail)
  then show ?thesis
    unfolding cleanup_task_def Some option.case
    by (intro cyh_if cyh_bind [OF cyh_attempt [OF cyh_line]] cyh_ret) auto
qed (auto simp: cleanup_task_def intro: cyh_ret)

lemma cyh_resolve: "cy_holds (cyc_inv env g) (resolve_result env cfg leased r now) (\<lambda>_. cyc_inv env g) (cyc_inv env g)"
  unfolding resolve_result_def by (cases "tc_manager cfg") (auto intro!: cyh_ret cyh_line)

lemma cyh_outbox_done: "cy_holds (cyc_inv env g) (outbox_do err) (\<lambda>_. cyc_inv env g) (cyc_inv env g)"
  by (rule cyh_post [OF cyh_outbox_do [where E = "cyc_inv env g"]]) auto

lemma cyh_complete_failed:
  assumes cd: "codec_ok (te_codec env)"
  shows "cy_holds (cyc_inv env True) (complete_failed io env cfg leased c err) (\<lambda>_. cyc_inv env True) (cyc_inv env True)"
  unfolding complete_failed_def flushTaskResults_def
  by (intro cyh_if cyh_bind [OF cyh_confirm [OF cd]] cyh_bind [OF cyh_outbox_done] cyh_bind [OF cyh_cleanup [OF cd]]
      cyh_bind [OF cyh_flush [OF cd]] cyh_fail)

lemma cyh_begin_failed:
  "cy_holds (cyc_inv env g) (begin_failed io cfg t now c err) (\<lambda>_. cyc_inv env g) (cyc_inv env g)"
  unfolding begin_failed_def by (intro cyh_if cyh_bind [OF cyh_post_direct] cyh_fail)

lemma cyh_durable:
  assumes cd: "codec_ok (te_codec env)"
  shows "cy_holds (cyc_inv env True) (execute_durable io env cfg leased now) (\<lambda>_. cyc_inv env True) (cyc_inv env True)"
  unfolding execute_durable_def
proof (rule cyh_bind [OF cyh_begin_run [OF cd]])
  fix x :: "bool \<times> outbox_error option"
  obtain c err where x: "x = (c, err)" by fastforce
  have fin: "cy_holds (cyc_inv env True)
      (case y of (completed, completeErr) \<Rightarrow> case completeErr of
          Some e \<Rightarrow> complete_failed io env cfg leased completed e
        | None \<Rightarrow> cy_bind (cleanup_task io env cfg leased) (\<lambda>_. flushTaskResults io env))
      (\<lambda>_. cyc_inv env True) (cyc_inv env True)" for y
    by (auto split: prod.split option.split simp: flushTaskResults_def
        intro: cyh_complete_failed [OF cd] cyh_bind [OF cyh_cleanup [OF cd]] cyh_flush [OF cd])
  have run: "cy_holds (\<lambda>s. cyc_inv env True s \<and> may_run env (lt_Task leased) s)
      (cy_bind (runTask io (lt_Task leased) True (isLinechainTask leased)) (\<lambda>result.
            cy_bind (resolve_result env cfg leased (result\<lparr>tr_NodeID := tc_NodeID cfg\<rparr>) now) (\<lambda>result.
            cy_bind (ob_complete io env result) (\<lambda>(completed, completeErr). case completeErr of
              Some e \<Rightarrow> complete_failed io env cfg leased completed e
            | None \<Rightarrow>
                cy_bind (cleanup_task io env cfg leased) (\<lambda>_. flushTaskResults io env)))))
      (\<lambda>_. cyc_inv env True) (cyc_inv env True)"
    by (intro cyh_bind [OF cyh_run_durable] cyh_bind [OF cyh_resolve] cyh_bind [OF cyh_complete [OF cd]] fin)
  show "cy_holds ((\<lambda>(c, err) s. cyc_inv env True s \<and> (c \<and> err = None \<longrightarrow> may_run env (lt_Task leased) s)) x)
      (case x of (committed, err) \<Rightarrow> case err of
       Some e \<Rightarrow> begin_failed io cfg (lt_Task leased) now committed e
     | None \<Rightarrow>
         (if \<not> committed then cy_ret ()
          else
            cy_bind (runTask io (lt_Task leased) True (isLinechainTask leased)) (\<lambda>result.
            cy_bind (resolve_result env cfg leased (result\<lparr>tr_NodeID := tc_NodeID cfg\<rparr>) now) (\<lambda>result.
            cy_bind (ob_complete io env result) (\<lambda>(completed, completeErr). case completeErr of
              Some e \<Rightarrow> complete_failed io env cfg leased completed e
            | None \<Rightarrow>
                cy_bind (cleanup_task io env cfg leased) (\<lambda>_. flushTaskResults io env))))))
      (\<lambda>_. cyc_inv env True) (cyc_inv env True)"
  proof (cases err)
    case (Some e)
    show ?thesis unfolding x Some prod.case option.case by (rule cyh_pre [OF _ cyh_begin_failed]) simp
  next
    case None
    show ?thesis
      unfolding x None prod.case option.case by (rule cyh_unless, rule cyh_ret, simp, rule cyh_pre [OF _ run]) simp
  qed
qed

lemma cyh_executeTask:
  assumes cd: "codec_ok (te_codec env)"
  shows "cy_holds (cyc_inv env True) (executeTask io env cfg leased now) (\<lambda>_. cyc_inv env True) (cyc_inv env True)"
proof -
  have "cy_holds (cyc_inv env True) (execute_plain io cfg (lt_Task leased) now) (\<lambda>_. cyc_inv env True) (cyc_inv env True)"
    unfolding execute_plain_def by (intro cyh_bind [OF cyh_run_plain] cyh_bind [OF cyh_post_direct] cyh_if cyh_ret cyh_fail)
  then show ?thesis
    unfolding executeTask_def
    by (cases "validateDurablePair leased (tc_manager cfg) (tc_LinechainReady cfg)"; simp only: option.case;
        intro cyh_if cyh_fail cyh_durable [OF cd])
qed

lemma cyh_executeTasks:
  assumes cd: "codec_ok (te_codec env)"
  shows "cy_holds (cyc_inv env True) (executeTasks io env cfg ts) (\<lambda>_. cyc_inv env True) (cyc_inv env True)"
proof (induction ts)
  case (Cons t ts)
  have "cy_holds (cyc_inv env True) (case y of (stopped, now) \<Rightarrow> if stopped then cy_ret ()
       else cy_bind (executeTask io env cfg t now) (\<lambda>_. executeTasks io env cfg ts)) (\<lambda>_. cyc_inv env True) (cyc_inv env True)" for y
    by (cases y) (auto intro: cyh_ret cyh_bind [OF cyh_executeTask [OF cd] Cons.IH])
  then show ?case
    unfolding executeTasks.simps by (rule cyh_bind [OF cyh_keep, rotated]) auto
qed (auto intro: cyh_ret)

lemma cyh_recover_tasks:
  assumes cd: "codec_ok (te_codec env)"
  shows "cy_holds (cyc_inv env g) (recover_tasks io env m node au now ps) (\<lambda>_. cyc_inv env g) (cyc_inv env g)"
proof (induction ps)
  case (Cons jp ps)
  have c: "cy_holds (cyc_inv env g) (complete_recovered io env r) (\<lambda>_. cyc_inv env g) (cyc_inv env g)" for r
    unfolding complete_recovered_def
    by (rule cyh_bind [OF cyh_complete [OF cd]])
      (auto split: option.split intro: cyh_ret cyh_fail cyh_bind [OF cyh_confirm [OF cd] cyh_outbox_done])
  show ?case
    unfolding recover_tasks.simps
  proof (rule cyh_bind [OF cyh_line], goal_cases)
    case (1 j)
    show ?case
      by (cases "map_of au (task_key (jr_TaskID j) (jr_LeaseID j))"; simp only: option.case;
          intro cyh_fail cyh_bind [OF cyh_line] cyh_bind [OF c] Cons.IH)
  qed
qed (auto intro: cyh_ret)

lemma cyh_capture:
  "cy_holds (cyc_inv env g) (captureLinechainAuthority io env m) (\<lambda>_. cyc_inv env g) (cyc_inv env g)"
  unfolding captureLinechainAuthority_def
proof (rule cyh_bind [OF cyh_snapshot], goal_cases)
  case (1 x)
  show ?case
    by (cases x; simp only: sum.case; intro cyh_fail cyh_bind [OF cyh_line])
      (auto simp: Let_def intro: cyh_fail cyh_ret split: sum.split)
qed

lemma cyh_requireRecovered:
  assumes cd: "codec_ok (te_codec env)"
  shows "cy_holds (cyc_inv env g) (requireLinechainRecovered io env m node) (\<lambda>_. cyc_inv env g) (cyc_inv env g)"
  unfolding requireLinechainRecovered_def
proof (rule cyh_bind [OF cyh_capture], rule cyh_bind [OF cyh_keep], goal_cases)
  case (2 au y)
  show ?case by (cases y) (auto intro: cyh_fail cyh_recover_tasks [OF cd])
qed auto

lemma cyh_pollTasks:
  assumes cd: "codec_ok (te_codec env)"
  shows "cy_holds (cyc_inv env g) (pollTasks io env cfg) (\<lambda>_. cyc_inv env True) (cyc_inv env g)"
proof -
  have fetch: "cy_holds (cyc_inv env True) (case ts of None \<Rightarrow> cy_fail FetchFailed | Some ts \<Rightarrow> cy_ret ts) (\<lambda>_. cyc_inv env True) (cyc_inv env True)"
    for ts :: "leased_task list option"
    by (cases ts) (auto intro: cyh_fail cyh_ret)
  have rest: "cy_holds (cyc_inv env True) (cy_bind (flushTaskResults io env) (\<lambda>_.
     cy_bind (cy_op io (\<lambda>i s. (oi_tasks i, s))) (\<lambda>tasks. case tasks of
       None \<Rightarrow> cy_fail FetchFailed | Some ts \<Rightarrow> cy_ret ts))) (\<lambda>_. cyc_inv env True) (cyc_inv env g)"
    unfolding flushTaskResults_def
    by (rule cyh_post [OF cyh_bind [OF cyh_flush [OF cd] cyh_bind [OF cyh_keep fetch]]]) (auto intro: inv_weaken)
  have req: "cy_holds (cyc_inv env g) (case tc_manager cfg of None \<Rightarrow> cy_ret () | Some m \<Rightarrow> requireLinechainRecovered io env m (tc_NodeID cfg))
      (\<lambda>_. cyc_inv env g) (cyc_inv env g)"
    using cyh_requireRecovered [OF cd] by (cases "tc_manager cfg") (auto intro: cyh_ret)
  show ?thesis
    unfolding pollTasks_def
    by (rule cyh_bind [OF req], rule cyh_bind [OF cyh_recover [OF cd]], rule cyh_bind [OF cyh_outbox_do])
      (auto intro: cyh_pre [OF _ rest])
qed

subsection \<open>Runs keep the invariant\<close>

definition cyc_ok :: "task_env \<Rightarrow> agent_state \<times> task_worker \<Rightarrow> bool" where
  "cyc_ok env x \<longleftrightarrow> cyc_inv env (wk_up (snd x) \<and> wk_busy (snd x)) (fst x)"

lemma down_busy: "wk_busy (worker_down r wk) = wk_busy wk"
  by (simp add: worker_down_def split: sum.split cycle_error.split)

lemma inv_lower: "cyc_inv env g s \<Longrightarrow> (g' \<Longrightarrow> g) \<Longrightarrow> cyc_inv env g' s"
  by (auto simp: cyc_inv_def)

lemma cy_end: "cy_holds A m (\<lambda>_. B) B \<Longrightarrow> A s \<Longrightarrow> m s = (r, s') \<Longrightarrow> B s'"
  by (cases r) (auto dest: cy_holdsD)

lemma poll_ok:
  assumes cd: "codec_ok (te_codec env)" and x: "cyc_ok env (s, wk)"
  shows "cyc_ok env (worker_poll io env cfg (s, wk))"
proof (cases "wk_busy wk")
  case False
  obtain r s' where p: "pollTasks io env cfg s = (r, s')" by fastforce
  have i: "cyc_inv env False s" using x False by (simp add: cyc_ok_def)
  have f: "cyc_inv env False s'"
    by (rule cy_end [OF cyh_post [OF cyh_pollTasks [OF cd, of False]] i p]) (auto intro: inv_weaken)
  show ?thesis
  proof (cases "\<exists>t ts. r = Inr (t # ts)")
    case True
    then show ?thesis
      using cy_holdsD(2) [OF cyh_pollTasks [OF cd, of False] i] p False
      by (auto simp: worker_poll_def cyc_ok_def intro: inv_weaken)
  next
    case n: False
    then have "worker_poll io env cfg (s, wk) = (s', worker_down r' wk)" if "r' = r" for r'
      using False p that by (auto simp: worker_poll_def worker_down_def split: sum.splits list.splits)
    then show ?thesis using f False by (auto simp: cyc_ok_def down_busy)
  qed
qed (use x in \<open>simp add: worker_poll_def\<close>)

lemma worker_run_ok:
  assumes cd: "codec_ok (te_codec env)" and x: "cyc_ok env (s, wk)" "wk_up wk" "wk_busy wk"
  shows "cyc_ok env (worker_run io env cfg (s, wk))"
proof -
  obtain r s' where p: "executeTasks io env cfg (wk_batch wk) s = (r, s')" by fastforce
  have "cyc_inv env True s'"
    by (rule cy_end [OF cyh_executeTasks [OF cd] _ p]) (use x in \<open>simp add: cyc_ok_def\<close>)
  then show ?thesis by (auto simp: worker_run_def p cyc_ok_def intro: inv_weaken)
qed

lemma recover_ok:
  assumes cd: "codec_ok (te_codec env)" and x: "cyc_ok env (s, wk)"
  shows "cyc_ok env (main_recover io env cfg (s, wk))"
proof (cases "tc_manager cfg = None \<or> wk_busy wk")
  case False
  then obtain m where m: "tc_manager cfg = Some m" by auto
  obtain r s' where p: "requireLinechainRecovered io env m (tc_NodeID cfg) s = (r, s')" by fastforce
  have "cyc_inv env False s'"
    by (rule cy_end [OF cyh_requireRecovered [OF cd] _ p]) (use x False in \<open>simp add: cyc_ok_def\<close>)
  then show ?thesis using False m p by (simp add: main_recover_def cyc_ok_def down_busy)
qed (use x in \<open>auto simp: main_recover_def split: option.splits\<close>)

lemma step_ok:
  assumes cd: "codec_ok (te_codec env)" and st: "cycle_step env x y" and x: "cyc_ok env x"
  shows "cyc_ok env y"
  using st
proof (cases rule: cycle_step.cases)
  case (cs_poll wk s io cfg)
  then show ?thesis using poll_ok [OF cd] x by simp
next
  case (cs_run wk s io cfg)
  then show ?thesis using worker_run_ok [OF cd] x by simp
next
  case (cs_recover wk s io cfg)
  then show ?thesis using recover_ok [OF cd] x by simp
next
  case (cs_stop s wk)
  then show ?thesis using x by (auto simp: cyc_ok_def intro: inv_lower)
next
  case (cs_crash s ob wk pick)
  have i: "cyc_inv env False s" using x cs_crash by (auto simp: cyc_ok_def intro: inv_lower)
  have "cyc_inv env False (s\<lparr>ag_outbox := ob\<rparr>)" by (rule cyc_inv_step [OF cd i cs_crash(3)]) simp
  then have "cyc_inv env False (s\<lparr>ag_outbox := ob, ag_lc := after_crash pick (ag_lc s)\<rparr>)" by (simp only: inv_frame)
  then show ?thesis using cs_crash by (simp add: cyc_ok_def)
next
  case (cs_open wk rio unlinks synced s ob)
  have i: "cyc_inv env False s" using x cs_open by (auto simp: cyc_ok_def intro: inv_lower)
  have "cyc_inv env False (s\<lparr>ag_outbox := ob\<rparr>)" by (rule cyc_inv_step [OF cd i step_open [OF cs_open(4)]]) simp
  then show ?thesis using cs_open by (simp add: cyc_ok_def newTaskWorker_def)
next
  case (cs_files s wk w)
  then show ?thesis using x by (simp add: cyc_ok_def)
qed

text \<open>A node whose agent has not run yet.\<close>

definition cycle_start :: "agent_state \<times> task_worker \<Rightarrow> bool" where
  "cycle_start x \<longleftrightarrow> ag_events (fst x) = [] \<and> \<not> wk_up (snd x) \<and> names_ok (ag_outbox (fst x))"

lemma reach_ok:
  assumes cd: "codec_ok (te_codec env)" and r: "cycle_reach env x y" and x: "cycle_start x"
  shows "cyc_ok env y"
  using r x
proof (induction rule: cycle_reach.induct)
  case (cr_refl x)
  then show ?case by (auto simp: cycle_start_def cyc_ok_def cyc_inv_def once_def opens_def)
next
  case (cr_step x y z)
  then show ?case using step_ok [OF cd cr_step.hyps(2)] by blast
qed

section \<open>Properties\<close>

text \<open>
  C5. The agent runs a durable task at most once. In every run of a node, through failures of any call, the
  end of the process at any call, crashes of the machine and restarts, between two times the runner is
  given durable tasks with the same id, whatever their leases, the entry of the first was acknowledged,
  that is removed after the server had taken its result.
\<close>

theorem durable_task_runs_once:
  assumes "codec_ok (te_codec env)" "cycle_start x" "cycle_reach env x (s, wk)"
    and "ag_events s = p @ Ran t True # q @ Ran t' True # z" "tk_ID t' = tk_ID t"
  shows "Acked (entryKey (te_codec env) (tk_ID t) (tk_LeaseID t)) \<in> set q"
proof (rule ccontr)
  assume n: "Acked (entryKey (te_codec env) (tk_ID t) (tk_LeaseID t)) \<notin> set q"
  have o: "once env (ag_events s)" using reach_ok [OF assms(1,3,2)] by (simp add: cyc_ok_def cyc_inv_def)
  have "ag_events s = (p @ Ran t True # q) @ Ran t' True # z" using assms(4) by simp
  then have "once_at env (opens env (p @ Ran t True # q)) (Ran t' True)" using o unfolding once_def by blast
  moreover have "t \<in> set (fst (opens env (p @ Ran t True # q)))"
    using open_run_stays [of t "open_event env (opens env p) (Ran t True)" env q] n
    by (simp add: opens_append task_entry_key_def open_event_def)
  ultimately show False using assms(5) by (auto simp: once_at_def)
qed

text \<open>
  C6. The server hears one result. In every run of a node, two uploads from the outbox for the same task and
  lease with no acknowledgement between them carry the same result, also across crashes and restarts.
\<close>

theorem uploads_agree:
  assumes "codec_ok (te_codec env)" "cycle_start x" "cycle_reach env x (s, wk)"
    and "ag_events s = p @ Posted r True # q @ Posted r' True # z"
    and "tr_TaskID r' = tr_TaskID r" "tr_LeaseID r' = tr_LeaseID r"
    and "Acked (entryKey (te_codec env) (tr_TaskID r) (tr_LeaseID r)) \<notin> set q"
  shows "r' = r"
proof -
  have o: "once env (ag_events s)" using reach_ok [OF assms(1,3,2)] by (simp add: cyc_ok_def cyc_inv_def)
  have "ag_events s = (p @ Posted r True # q) @ Posted r' True # z" using assms(4) by simp
  then have "once_at env (opens env (p @ Posted r True # q)) (Posted r' True)" using o unfolding once_def by blast
  moreover have "r \<in> set (snd (opens env (p @ Posted r True # q)))"
    using open_post_stays [of r "open_event env (opens env p) (Posted r True)" env q] assms(7)
    by (simp add: opens_append result_key_def open_event_def)
  ultimately show ?thesis using assms(5,6) by (auto simp: once_at_def result_key_def)
qed

text \<open>A node that gets one task twice.\<close>

definition tcd_result :: task_result where
  "tcd_result = \<lparr>tr_TaskID = ''t'', tr_LeaseID = ''l'', tr_NodeID = ''n'', tr_ExitCode = 0, tr_Error = [], tr_StartedAt = 0, tr_FinishedAt = 1,
     tr_Rest = []\<rparr>"

definition tcd_leased :: entry where
  "tcd_leased = demo_leased\<lparr>en_DurableProtocol := ''netguard-v1''\<rparr>"

definition tcd_done :: entry where
  "tcd_done = tcd_leased\<lparr>en_State := ''completed'', en_Result := Some tcd_result\<rparr>"

definition tcd_codec :: codec where
  "tcd_codec = \<lparr>cd_marshal = (\<lambda>e. if e\<lparr>en_key := []\<rparr> = tcd_leased then Some ''L'' else if e\<lparr>en_key := []\<rparr> = tcd_done then Some ''D'' else None),
     cd_decode = (\<lambda>s. if s = ''L'' then Some tcd_leased else if s = ''D'' then Some tcd_done else None), cd_sha256 = (\<lambda>s. s)\<rparr>"

definition tcd_env :: task_env where
  "tcd_env = \<lparr>te_codec = tcd_codec, te_lc = \<lparr>le_json = demo_json, le_wire = Map.empty, le_marshal = Map.empty, le_decode = Map.empty,
     le_marshal_result = Map.empty\<rparr>, te_script = tk_Rest, te_base64 = Map.empty, te_int = Map.empty\<rparr>"

definition tcd_cfg :: task_cfg where
  "tcd_cfg = \<lparr>tc_NodeID = ''n'', tc_LinechainReady = False, tc_manager = None\<rparr>"

definition tcd_task :: leased_task where
  "tcd_task = \<lparr>lt_Task = demo_task, lt_DurableResult = True, lt_DurableProtocol = ''netguard-v1''\<rparr>"

text \<open>All calls work; \<open>ok\<close> says which ones answer well, so not those that look at the stop channel.\<close>

definition tcd_io :: "(nat \<Rightarrow> bool) \<Rightarrow> nat \<Rightarrow> op_io" where
  "tcd_io ok n = \<lparr>oi_alive = True, oi_read = good_read, oi_write = good_write, oi_now = 1, oi_ok = ok n, oi_synced = True, oi_recover = good_recover,
     oi_tasks = Some [tcd_task], oi_result = tcd_result, oi_helper = (\<lambda>w. w)\<rparr>"

definition tcd_start :: agent_state where
  "tcd_start = \<lparr>ag_outbox = empty_outbox, ag_lc = \<lparr>lw_files = [], lw_io = []\<rparr>, ag_n = 0, ag_events = []\<rparr>"

definition tcd_poll :: "agent_state \<times> task_worker \<Rightarrow> agent_state \<times> task_worker" where
  "tcd_poll x = worker_poll (tcd_io (\<lambda>_. True)) tcd_env tcd_cfg x"

definition tcd_run :: "nat list \<Rightarrow> agent_state \<times> task_worker \<Rightarrow> agent_state \<times> task_worker" where
  "tcd_run bad x = worker_run (tcd_io (\<lambda>n. n \<notin> set bad)) tcd_env tcd_cfg x"

definition tcd_1 :: "agent_state \<times> task_worker" where "tcd_1 = tcd_run [3] (tcd_poll (tcd_start, newTaskWorker))"
definition tcd_2 :: "agent_state \<times> task_worker" where "tcd_2 = tcd_run [13] (tcd_poll tcd_1)"
definition tcd_3 :: "agent_state \<times> task_worker" where "tcd_3 = tcd_poll (tcd_run [3, 8] (tcd_poll (tcd_start, newTaskWorker)))"

lemma tcd_codec_ok: "codec_ok (te_codec tcd_env)"
  by (auto simp: codec_ok_def tcd_env_def tcd_codec_def)

lemma tcd_begin: "cycle_start (tcd_start, newTaskWorker\<lparr>wk_up := False\<rparr>)"
  by (simp add: cycle_start_def tcd_start_def names_ok_def empty_outbox_def)

lemma tcd_opens: "cycle_reach tcd_env (tcd_start, newTaskWorker\<lparr>wk_up := False\<rparr>) (tcd_start, newTaskWorker)"
proof -
  have "open_outbox tcd_codec good_read (\<lambda>_. True) True empty_outbox = Inr empty_outbox"
    by (simp add: open_outbox_def cleanupTemps_def readAll_def journal_names_def empty_outbox_def good_read_def)
  then have "cycle_step tcd_env (tcd_start, newTaskWorker\<lparr>wk_up := False\<rparr>) (tcd_start\<lparr>ag_outbox := empty_outbox\<rparr>, newTaskWorker)"
    by (intro cs_open [of _ _ good_read "\<lambda>_. True" True]) (simp_all add: tcd_env_def tcd_start_def)
  then show ?thesis using cr_step [OF cr_refl] by (simp add: tcd_start_def)
qed

lemma tcd_reach_poll: "cycle_reach tcd_env x y \<Longrightarrow> wk_up (snd y) \<Longrightarrow> cycle_reach tcd_env x (tcd_poll y)"
  unfolding tcd_poll_def by (cases y) (auto intro: cr_step cs_poll)

lemma tcd_reach_run: "cycle_reach tcd_env x y \<Longrightarrow> wk_up (snd y) \<Longrightarrow> wk_busy (snd y) \<Longrightarrow> cycle_reach tcd_env x (tcd_run bad y)"
  unfolding tcd_run_def by (cases y) (auto intro: cr_step cs_run)

lemma tcd_up:
  "wk_up (snd (tcd_poll (tcd_start, newTaskWorker)))" "wk_busy (snd (tcd_poll (tcd_start, newTaskWorker)))"
  "wk_up (snd tcd_1)" "wk_up (snd (tcd_poll tcd_1))" "wk_busy (snd (tcd_poll tcd_1))"
  "wk_up (snd (tcd_run [3, 8] (tcd_poll (tcd_start, newTaskWorker))))"
  by code_simp+

lemma tcd_events:
  "ag_events (fst tcd_2) = [] @ Ran demo_task True # [Posted tcd_result True, Acked (''t'' @ [CHR 0x00] @ ''l'')] @ Ran demo_task True # [Posted tcd_result True, Acked (''t'' @ [CHR 0x00] @ ''l'')]"
  "ag_events (fst tcd_3) = [Ran demo_task True] @ Posted tcd_result True # [] @ Posted tcd_result True # [Acked (''t'' @ [CHR 0x00] @ ''l'')]"
  by code_simp+

lemma tcd_reached:
  "cycle_reach tcd_env (tcd_start, newTaskWorker\<lparr>wk_up := False\<rparr>) (fst tcd_2, snd tcd_2)"
  "cycle_reach tcd_env (tcd_start, newTaskWorker\<lparr>wk_up := False\<rparr>) (fst tcd_3, snd tcd_3)"
proof -
  have p: "cycle_reach tcd_env (tcd_start, newTaskWorker\<lparr>wk_up := False\<rparr>) (tcd_poll (tcd_start, newTaskWorker))"
    by (rule tcd_reach_poll [OF tcd_opens]) (simp add: newTaskWorker_def)
  have "cycle_reach tcd_env (tcd_start, newTaskWorker\<lparr>wk_up := False\<rparr>) tcd_2"
    unfolding tcd_2_def
    by (rule tcd_reach_run [OF tcd_reach_poll]) (use tcd_reach_run [OF p tcd_up(1,2)] tcd_up in \<open>simp_all add: tcd_1_def\<close>)
  then show "cycle_reach tcd_env (tcd_start, newTaskWorker\<lparr>wk_up := False\<rparr>) (fst tcd_2, snd tcd_2)" by simp
  have "cycle_reach tcd_env (tcd_start, newTaskWorker\<lparr>wk_up := False\<rparr>) tcd_3"
    unfolding tcd_3_def by (rule tcd_reach_poll [OF tcd_reach_run [OF p tcd_up(1,2)] tcd_up(6)])
  then show "cycle_reach tcd_env (tcd_start, newTaskWorker\<lparr>wk_up := False\<rparr>) (fst tcd_3, snd tcd_3)" by simp
qed

theorem durable_task_runs_once_witness:
  "Acked (entryKey tcd_codec (tk_ID demo_task) (tk_LeaseID demo_task)) \<in> set [Posted tcd_result True, Acked (''t'' @ [CHR 0x00] @ ''l'')]"
  using durable_task_runs_once [OF tcd_codec_ok tcd_begin tcd_reached(1) tcd_events(1)] by (simp add: tcd_env_def)

theorem uploads_agree_witness: "\<exists>r. ag_events (fst tcd_3) = [Ran demo_task True, Posted tcd_result True, Posted r True, Acked (''t'' @ [CHR 0x00] @ ''l'')]
    \<and> r = tcd_result"
  using uploads_agree [OF tcd_codec_ok tcd_begin tcd_reached(2) tcd_events(2)] tcd_events(2) by simp

end
