(* ===== verification/Prefetch.thy ===== *)
theory Prefetch
  imports Go_Path
begin

text \<open>
  The download of an update's binary before its task runs (\<open>src/internal/prefetch\<close>): what the server may
  name, where the file goes, one attempt of a download with its file, and the prefetcher, which runs at most
  one download and stops it while a task runs.

  A disk is a list of paths with what stands there. What the system and the server answer is input, a
  failure of any call included, with the text of its error. The digest of a file is a parameter. Between the
  beginning of an attempt and its end nothing else writes at the name of the download. Log lines and the
  nudge of the heartbeat are left out, and the options that only tests set.
\<close>

unbundle bit_operations_syntax

section \<open>Definitions\<close>

subsection \<open>What the server names\<close>

text \<open>\<open>AgentUpdatePrefetch\<close> and \<open>AgentUpdateConfig\<close> of the SDK, and the states of \<open>AgentPrefetchFacts\<close>.\<close>

record prefetch_target =
  pt_ApprovalID :: string
  pt_Version :: string
  pt_OS :: string
  pt_Arch :: string
  pt_SHA256 :: string
  pt_CompressedSHA256 :: string
  pt_Size :: int
  pt_BinarySize :: int
  pt_InstallPath :: string

record update_config =
  uc_Prefetch :: "prefetch_target option"
  uc_Keep :: "string list"

datatype prefetch_state = PfNone | PfRefused | PfWaiting | PfFetching | PfComplete

definition PartialPrefix :: string where "PartialPrefix = ''.lattice-agent-download-''"
definition defaultInstallPath :: string where "defaultInstallPath = ''/opt/lattice/node-agent/lattice-agent''"
definition oldDefaultInstallPath :: string where "oldDefaultInstallPath = ''/opt/lattice/lattice-agent''"
definition legacyInstallPath :: string where "legacyInstallPath = ''/usr/local/bin/lattice-agent''"
definition maxFileBytes :: int where "maxFileBytes = 48 * 2 ^ 20"
definition reserveBytes :: int where "reserveBytes = 256 * 2 ^ 20"
definition firstBackoff :: duration where "firstBackoff = 30 * second"
definition maxBackoff :: duration where "maxBackoff = 15 * minute"
definition progressRetry :: duration where "progressRetry = 10 * second"
definition minProgress :: int where "minProgress = 16 * 2 ^ 10"
definition RoutePrefix :: string where "RoutePrefix = ''/api/agent/prefetch-binary/''"
definition maxKeep :: nat where "maxKeep = 16"
definition maxReason :: nat where "maxReason = 200"

definition char_from_to :: "char \<Rightarrow> char \<Rightarrow> char \<Rightarrow> bool" where
  "char_from_to lo hi c \<longleftrightarrow> lo \<le> c \<and> c \<le> hi"

definition alnum :: "char \<Rightarrow> bool" where
  "alnum c \<longleftrightarrow> is_digit c \<or> char_from_to (CHR ''A'') (CHR ''Z'') c \<or> char_from_to (CHR ''a'') (CHR ''z'') c"

definition approvalIDRe :: "string \<Rightarrow> bool" where
  "approvalIDRe s \<longleftrightarrow> 1 \<le> length s \<and> length s \<le> 64 \<and> list_all (\<lambda>c. alnum c \<or> c \<in> set ''_-'') s"

definition versionRe :: "string \<Rightarrow> bool" where
  "versionRe s \<longleftrightarrow> s \<noteq> [] \<and> alnum (hd s) \<and> length (tl s) \<le> 63 \<and>
     list_all (\<lambda>c. alnum c \<or> c \<in> set ''._+:-'') (tl s)"

definition digestRe :: "string \<Rightarrow> bool" where
  "digestRe s \<longleftrightarrow> length s = 64 \<and> list_all (\<lambda>c. is_digit c \<or> CHR ''a'' \<le> c \<and> c \<le> CHR ''f'') s"

definition servedDigest :: "prefetch_target \<Rightarrow> string" where
  "servedDigest t = (if pt_CompressedSHA256 t \<noteq> [] then pt_CompressedSHA256 t else pt_SHA256 t)"

definition validateTarget :: "prefetch_target \<Rightarrow> string option" where
  "validateTarget t =
     (if \<not> approvalIDRe (pt_ApprovalID t) then Some ''approval id is not a plain identifier''
      else if \<not> versionRe (pt_Version t) then Some ''version is not a plain version string''
      else if \<not> digestRe (pt_SHA256 t) then Some ''sha256 is not a 64-character lowercase hex digest''
      else if pt_CompressedSHA256 t \<noteq> [] \<and> \<not> digestRe (pt_CompressedSHA256 t)
      then Some ''compressed sha256 is not a 64-character lowercase hex digest''
      else if pt_Size t \<le> 0 \<or> pt_Size t > maxFileBytes \<or> pt_BinarySize t \<le> 0 \<or> pt_BinarySize t > maxFileBytes
      then Some (''sizes must be between 1 and '' @ itoa maxFileBytes @ '' bytes'')
      else if pt_CompressedSHA256 t = [] \<and> pt_Size t \<noteq> pt_BinarySize t
      then Some ''an uncompressed file must be the size of the binary''
      else if \<not> is_abs (pt_InstallPath t) \<or> clean_path (pt_InstallPath t) \<noteq> pt_InstallPath t \<or> CHR 0x00 \<in> set (pt_InstallPath t)
      then Some ''install path is not a clean absolute path''
      else None)"

text \<open>\<open>url.PathEscape\<close> and \<open>url.QueryEscape\<close>.\<close>

definition hex_digit :: "nat \<Rightarrow> char" where
  "hex_digit n = ''0123456789ABCDEF'' ! n"

definition pct_byte :: "char \<Rightarrow> string" where
  "pct_byte c = [CHR ''%'', hex_digit (of_char c div 16), hex_digit (of_char c mod 16)]"

definition path_escape :: "string \<Rightarrow> string" where
  "path_escape s = concat (map (\<lambda>c. if alnum c \<or> c \<in> set ''-_.~$&+=:@'' then [c] else pct_byte c) s)"

definition query_escape :: "string \<Rightarrow> string" where
  "query_escape s = concat (map (\<lambda>c. if alnum c \<or> c \<in> set ''-_.~'' then [c]
     else if c = CHR '' '' then ''+'' else pct_byte c) s)"

definition objectPath :: "prefetch_target \<Rightarrow> string" where
  "objectPath t =
     path_escape (pt_Version t) @ ''/'' @ pt_OS t @ ''/'' @ pt_Arch t @ ''/'' @ pt_SHA256 t @
     (if pt_CompressedSHA256 t \<noteq> [] then ''/'' @ pt_CompressedSHA256 t @ ''.gz'' else [])"

definition ScriptDir :: "string \<Rightarrow> string \<Rightarrow> string option" where
  "ScriptDir installPath executable =
     (let target =
        (if has_suffix executable ''/lattice-agent'' \<and>
            (installPath = defaultInstallPath \<or> installPath = oldDefaultInstallPath \<or> installPath = legacyInstallPath)
         then executable else installPath)
      in if executable = [] \<or> target \<noteq> executable then None else Some (path_dir target))"

text \<open>\<open>boundReason\<close> maps runes; a byte of a longer or malformed one is never printable ASCII.\<close>

definition boundReason :: "string \<Rightarrow> nat \<Rightarrow> string" where
  "boundReason s n = take n (filter (\<lambda>c. CHR 0x20 \<le> c \<and> c \<le> CHR 0x7E) s)"

text \<open>The verb \<open>%q\<close> on printable ASCII.\<close>

definition go_quote :: "string \<Rightarrow> string" where
  "go_quote s = [CHR 0x22] @ concat (map (\<lambda>c. if c = CHR 0x22 \<or> c = CHR 0x5C then [CHR 0x5C, c] else [c]) s) @ [CHR 0x22]"

definition parseContentRange :: "string \<Rightarrow> (int \<times> int) option" where
  "parseContentRange v =
     (let (rest, ok) = (case cut_prefix v ''bytes '' of Some r \<Rightarrow> (r, True) | None \<Rightarrow> (v, False));
          (span, sz, ok2) = str_cut rest ''/'';
          (from, _, ok3) = str_cut span ''-''
      in if \<not> ok \<or> \<not> ok2 \<or> \<not> ok3 then None
         else case parse_int from of None \<Rightarrow> None
              | Some first \<Rightarrow> (case parse_int sz of None \<Rightarrow> None | Some tot \<Rightarrow> Some (first, tot)))"

subsection \<open>The disk\<close>

datatype node_kind = RegularNode | DirNode | LinkNode | OtherNode

text \<open>\<open>nd_own\<close>: the node belongs to the agent's user and has one name.\<close>

record fs_node =
  nd_kind :: node_kind
  nd_data :: string
  nd_mtime :: gotime
  nd_own :: bool

type_synonym disk = "(string \<times> fs_node) list"

definition node_size :: "fs_node \<Rightarrow> int" where
  "node_size nd = int (length (nd_data nd))"

definition below :: "string \<Rightarrow> string \<Rightarrow> bool" where
  "below path q \<longleftrightarrow> q = path \<or> has_prefix q (path @ ''/'')"

definition put_node :: "string \<Rightarrow> fs_node \<Rightarrow> disk \<Rightarrow> disk" where
  "put_node path nd d = (path, nd) # filter (\<lambda>(q, _). q \<noteq> path) d"

definition remove_name :: "string \<Rightarrow> disk \<Rightarrow> disk" where
  "remove_name path d = filter (\<lambda>(q, _). q \<noteq> path) d"

definition remove_all :: "string \<Rightarrow> disk \<Rightarrow> disk" where
  "remove_all path d = filter (\<lambda>(q, _). \<not> below path q) d"

definition new_file :: "gotime \<Rightarrow> fs_node" where
  "new_file now = \<lparr>nd_kind = RegularNode, nd_data = [], nd_mtime = now, nd_own = True\<rparr>"

definition file_data :: "disk \<Rightarrow> string \<Rightarrow> string" where
  "file_data d path = (case map_of d path of None \<Rightarrow> [] | Some nd \<Rightarrow> nd_data nd)"

definition set_data :: "gotime \<Rightarrow> string \<Rightarrow> string \<Rightarrow> disk \<Rightarrow> disk" where
  "set_data now path s d =
     (case map_of d path of None \<Rightarrow> d | Some nd \<Rightarrow> put_node path (nd\<lparr>nd_data := s, nd_mtime := now\<rparr>) d)"

text \<open>Writing at an offset of an open file.\<close>

definition write_at :: "nat \<Rightarrow> string \<Rightarrow> string \<Rightarrow> string" where
  "write_at start new old =
     take start old @ replicate (start - length old) (CHR 0x00) @ new @ drop (start + length new) old"

definition dir_slash :: "string \<Rightarrow> string" where
  "dir_slash dir = (if dir = ''/'' then dir else dir @ ''/'')"

text \<open>\<open>os.ReadDir\<close>: the names in a directory and whether each is a directory.\<close>

definition dir_entries :: "string \<Rightarrow> disk \<Rightarrow> (string \<times> bool) list" where
  "dir_entries dir d =
     concat (map (\<lambda>(q, nd). case cut_prefix q (dir_slash dir) of
       None \<Rightarrow> []
     | Some name \<Rightarrow> (if name = [] \<or> CHR ''/'' \<in> set name then [] else [(name, nd_kind nd = DirNode)])) d)"

text \<open>What \<open>Lstat\<close> says of a directory; the owner is missing when the system does not give it.\<close>

record dir_stat =
  dt_symlink :: bool
  dt_isDir :: bool
  dt_uid :: "int option"
  dt_perm :: int
  dt_sticky :: bool

definition dir_check :: "int \<Rightarrow> string \<Rightarrow> string \<Rightarrow> string + dir_stat \<Rightarrow> string option" where
  "dir_check euid leaf p st = (case st of
     Inl e \<Rightarrow> Some (''cannot inspect '' @ p @ '': '' @ e)
   | Inr fi \<Rightarrow>
       (if dt_symlink fi \<or> \<not> dt_isDir fi then Some (p @ '' is not a plain directory'')
        else case dt_uid fi of
          None \<Rightarrow> Some (''cannot read the owner of '' @ p)
        | Some uid \<Rightarrow>
            (let owned = (uid = 0 \<or> uid = euid);
                 shared = (dt_perm fi AND 18 \<noteq> 0);
                 stickyRoot = (p \<noteq> leaf \<and> uid = 0 \<and> dt_sticky fi)
             in if \<not> owned \<or> shared \<and> \<not> stickyRoot
                then Some (p @ '' can be changed by a user other than root, so the agent does not write there'')
                else None)))"

text \<open>The walk up to the root; a clean absolute path is longer than its parent, so its length is enough.\<close>

fun secure_up :: "nat \<Rightarrow> int \<Rightarrow> (string \<Rightarrow> string + dir_stat) \<Rightarrow> string \<Rightarrow> string \<Rightarrow> string option" where
  "secure_up 0 euid ls leaf p = Some ''the path does not end''"
| "secure_up (Suc n) euid ls leaf p =
     (case dir_check euid leaf p (ls p) of
        Some e \<Rightarrow> Some e
      | None \<Rightarrow> (if p = path_dir p then None else secure_up n euid ls leaf (path_dir p)))"

definition secureDir :: "int \<Rightarrow> (string \<Rightarrow> string + dir_stat) \<Rightarrow> string \<Rightarrow> string option" where
  "secureDir euid ls dir =
     (if \<not> is_abs dir then Some (''the install directory '' @ go_quote dir @ '' is not absolute'')
      else secure_up (length (clean_path dir)) euid ls (clean_path dir) (clean_path dir))"

text \<open>
  The answers to \<open>openPartial\<close>: an error of the first open that no node explains, whether \<open>Stat\<close> of the open
  file works, and the errors of changing the mode, of removing what stands there (with what is then left of a
  directory) and of creating the file.
\<close>

record open_io =
  oo_open :: "string option"
  oo_stat :: bool
  oo_chmod :: "string option"
  oo_remove :: "string option"
  oo_left :: "string \<Rightarrow> bool"
  oo_create :: "string option"
  oo_restat :: bool
  oo_now :: gotime

definition opened :: "open_io \<Rightarrow> string \<Rightarrow> disk \<Rightarrow> disk" where
  "opened io path d = (if map_of d path = None then put_node path (new_file (oo_now io)) d else d)"

definition ownedRegular :: "bool \<Rightarrow> string \<Rightarrow> disk \<Rightarrow> int option" where
  "ownedRegular stat path d = (case map_of d path of
     None \<Rightarrow> None
   | Some nd \<Rightarrow> (if stat \<and> nd_kind nd = RegularNode \<and> nd_own nd then Some (node_size nd) else None))"

text \<open>
  A link, a directory or a socket at the name makes the first open fail with the three errors the code goes
  on after; a pipe opens and is not regular.
\<close>

definition openPartial :: "open_io \<Rightarrow> string \<Rightarrow> disk \<Rightarrow> disk \<times> (string + int)" where
  "openPartial io path d =
     (case oo_open io of
        Some e \<Rightarrow> (d, Inl e)
      | None \<Rightarrow>
          (let d = opened io path d
           in case ownedRegular (oo_stat io) path d of
                Some sz \<Rightarrow> (case oo_chmod io of Some e \<Rightarrow> (d, Inl e) | None \<Rightarrow> (d, Inr sz))
              | None \<Rightarrow>
                  (case oo_remove io of
                     Some e \<Rightarrow> (filter (\<lambda>(q, nd). \<not> has_prefix q (path @ ''/'') \<or> oo_left io q) d,
                       Inl (''remove what stands at the download's name: '' @ e))
                   | None \<Rightarrow>
                       (let d = (if map_option nd_kind (map_of d path) = Some DirNode then remove_all path d else remove_name path d)
                        in case oo_create io of
                             Some e \<Rightarrow> (d, Inl e)
                           | None \<Rightarrow>
                               (let d = put_node path (new_file (oo_now io)) d
                                in if ownedRegular (oo_restat io) path d = None
                                   then (d, Inl ''the new download is not a regular file of this user'')
                                   else (d, Inr 0))))))"

subsection \<open>One attempt\<close>

record prefetch_opts =
  po_Server :: string
  po_NodeID :: string
  po_Token :: string
  po_Executable :: string
  po_AgentVersion :: string
  po_Veto :: bool
  po_Root :: bool
  po_CanRunUpdate :: bool
  po_GOOS :: string
  po_GOARCH :: string

text \<open>
  An answer of the server: its status, two headers, the bytes its body delivers and how it ends (\<open>None\<close> is the
  end of the body, else an error, which may come with the last bytes), and whether the stall timer fired.
\<close>

record response =
  rs_status :: int
  rs_contentRange :: string
  rs_etag :: string
  rs_body :: string
  rs_end :: "string option"
  rs_withLast :: bool
  rs_fired :: bool

text \<open>The answers to one attempt; a write may fail after some bytes.\<close>

record attempt_io =
  ai_lstat :: bool
  ai_free :: "string + int"
  ai_open :: open_io
  ai_reset :: "string option"
  ai_match :: "string option"
  ai_discard :: "string option"
  ai_request :: "string option"
  ai_response :: "string + response"
  ai_restart :: "string option"
  ai_seek :: "string option"
  ai_write :: "(nat \<times> string) option"
  ai_sync :: "string option"
  ai_verify :: "string option"
  ai_drop :: bool
  ai_now :: gotime

record request =
  rq_url :: string
  rq_Authorization :: string
  rq_Range :: "string option"
  rq_IfRange :: "string option"

definition pinned_etag :: "prefetch_target \<Rightarrow> string" where
  "pinned_etag t = [CHR 0x22] @ servedDigest t @ [CHR 0x22]"

definition build_request :: "prefetch_opts \<Rightarrow> prefetch_target \<Rightarrow> int \<Rightarrow> request" where
  "build_request opts t have =
     \<lparr>rq_url = po_Server opts @ RoutePrefix @ objectPath t @ ''?node_id='' @ query_escape (po_NodeID opts),
      rq_Authorization = ''Bearer '' @ po_Token opts,
      rq_Range = (if have > 0 then Some (''bytes='' @ itoa have @ ''-'') else None),
      rq_IfRange = (if have > 0 then Some (pinned_etag t) else None)\<rparr>"

text \<open>Which byte the answer starts at, or why it is not taken.\<close>

definition accept_response :: "prefetch_target \<Rightarrow> int \<Rightarrow> response \<Rightarrow> string + int" where
  "accept_response t have resp =
     (let start =
        (if rs_status resp = 200 then Inr 0
         else if rs_status resp = 206 then
           (case parseContentRange (rs_contentRange resp) of
              Some (start, tot) \<Rightarrow> (if start = have \<and> tot = pt_Size t then Inr start else Inl ())
            | None \<Rightarrow> Inl ())
         else Inl ())
      in case start of
           Inr start \<Rightarrow>
             (if rs_etag resp \<noteq> pinned_etag t
              then Inl (''the server's ETag '' @ go_quote (boundReason (rs_etag resp) 80) @ '' does not name the pinned file'')
              else Inr start)
         | Inl _ \<Rightarrow>
             Inl (if rs_status resp = 206
                  then ''the server answered range '' @ go_quote (boundReason (rs_contentRange resp) 80) @
                       '' for a download of '' @ itoa have @ '' of '' @ itoa (pt_Size t) @ '' bytes''
                  else if rs_status resp \<in> {301, 302, 303, 307, 308}
                  then ''the server answered with a redirect, which prefetch never follows''
                  else ''the server answered '' @ itoa (rs_status resp)))"

text \<open>\<open>io.Copy\<close> of the body, up to a limit: the bytes written and the error.\<close>

definition copy_body :: "attempt_io \<Rightarrow> response \<Rightarrow> int \<Rightarrow> string \<times> string option" where
  "copy_body io resp limit =
     (let got = take (nat limit) (rs_body resp);
          err = (if nat limit \<le> length (rs_body resp) \<and> \<not> rs_withLast resp then None else rs_end resp)
      in case ai_write io of
           Some (n, e) \<Rightarrow> (if n < length got then (take n got, Some e) else (got, err))
         | None \<Rightarrow> (got, err))"

definition copy_result :: "prefetch_target \<Rightarrow> response \<Rightarrow> int \<Rightarrow> string option \<Rightarrow> string option" where
  "copy_result t resp have err = (case err of
     Some e \<Rightarrow>
       Some (if rs_fired resp then ''no bytes for 2m0s; kept '' @ itoa have @ '' bytes''
             else ''download cut after '' @ itoa have @ '' bytes: '' @ e)
   | None \<Rightarrow>
       (if have < pt_Size t
        then Some (''download ended after '' @ itoa have @ '' of '' @ itoa (pt_Size t) @ '' bytes'') else None))"

text \<open>\<open>download\<close>: the disk, the size afterwards, the error, and the request that was made.\<close>

definition download ::
  "prefetch_opts \<Rightarrow> attempt_io \<Rightarrow> prefetch_target \<Rightarrow> string \<Rightarrow> int \<Rightarrow> disk \<Rightarrow> disk \<times> int \<times> string option \<times> request option" where
  "download opts io t path have d =
     (let req = build_request opts t have
      in case ai_request io of
           Some e \<Rightarrow> (d, have, Some e, None)
         | None \<Rightarrow>
             (case ai_response io of
                Inl e \<Rightarrow> (d, have, Some (''request failed: '' @ e), Some req)
              | Inr resp \<Rightarrow>
                  (case accept_response t have resp of
                     Inl e \<Rightarrow> (d, have, Some e, Some req)
                   | Inr start \<Rightarrow>
                       (let whole = (rs_status resp = 200 \<and> have > 0)
                        in if whole \<and> ai_restart io \<noteq> None then (d, have, ai_restart io, Some req)
                           else
                             let d = (if whole then set_data (ai_now io) path [] d else d);
                                 have = (if whole then 0 else have)
                             in if ai_seek io \<noteq> None then (d, have, ai_seek io, Some req)
                                else
                                  let (got, err) = copy_body io resp (pt_Size t - start);
                                      d = (if got = [] then d
                                           else set_data (ai_now io) path (write_at (nat start) got (file_data d path)) d);
                                      have = start + int (length got)
                                  in (d, have, copy_result t resp have err, Some req)))))"

record outcome =
  oc_state :: prefetch_state
  oc_reason :: string
  oc_have :: int
  oc_gained :: int

definition out_of :: "prefetch_state \<Rightarrow> string \<Rightarrow> int \<Rightarrow> int \<Rightarrow> outcome" where
  "out_of st reason have gained = \<lparr>oc_state = st, oc_reason = reason, oc_have = have, oc_gained = gained\<rparr>"

definition kept_bytes :: "attempt_io \<Rightarrow> prefetch_target \<Rightarrow> string \<Rightarrow> disk \<Rightarrow> int" where
  "kept_bytes io t path d = (case map_of d path of
     None \<Rightarrow> 0
   | Some nd \<Rightarrow> (if ai_lstat io \<and> nd_kind nd = RegularNode then min (node_size nd) (pt_Size t) else 0))"

text \<open>The look at the disk before anything is created.\<close>

definition space_refusal :: "attempt_io \<Rightarrow> prefetch_target \<Rightarrow> int \<Rightarrow> string option" where
  "space_refusal io t kept =
     (if kept < pt_Size t then
        (case ai_free io of
           Inl e \<Rightarrow> Some (''cannot read the free space: '' @ e)
         | Inr avail \<Rightarrow>
             (let need = pt_Size t - kept + 3 * pt_BinarySize t + reserveBytes
              in if avail < need
                 then Some (itoa avail @ '' bytes free beside the agent; the download needs '' @ itoa (pt_Size t - kept) @
                   '' more and must leave room for the update and '' @ itoa reserveBytes @ '' spare'')
                 else None))
      else None)"

text \<open>What follows once the file is known to be short: the download and its check.\<close>

definition attempt_download ::
  "prefetch_opts \<Rightarrow> (string \<Rightarrow> string) \<Rightarrow> attempt_io \<Rightarrow> prefetch_target \<Rightarrow> string \<Rightarrow> int \<Rightarrow> disk \<Rightarrow> disk \<times> outcome \<times> request option" where
  "attempt_download opts sha io t path before d =
     (case download opts io t path before d of (d, have, err, req) \<Rightarrow>
        let gained = max (have - before) 0
        in case err of
             Some e \<Rightarrow> (d, out_of PfWaiting e have gained, req)
           | None \<Rightarrow>
               (case ai_sync io of
                  Some e \<Rightarrow> (d, out_of PfWaiting (''cannot sync the download: '' @ e) have 0, req)
                | None \<Rightarrow>
                    (case ai_verify io of
                       Some e \<Rightarrow> (d, out_of PfWaiting (''cannot read the download: '' @ e) have 0, req)
                     | None \<Rightarrow>
                         (if sha (file_data d path) \<noteq> servedDigest t
                          then (if ai_drop io then set_data (ai_now io) path [] d else d,
                                out_of PfWaiting ''the finished download did not match its digest and was discarded'' 0 0, req)
                          else (d, out_of PfComplete [] have gained, req)))))"

text \<open>A file of full length is checked, and emptied when it is not the one.\<close>

definition attempt_full ::
  "prefetch_opts \<Rightarrow> (string \<Rightarrow> string) \<Rightarrow> attempt_io \<Rightarrow> prefetch_target \<Rightarrow> string \<Rightarrow> int \<Rightarrow> disk \<Rightarrow> disk \<times> outcome \<times> request option" where
  "attempt_full opts sha io t path have d =
     (if have = pt_Size t then
        (case ai_match io of
           Some e \<Rightarrow> (d, out_of PfWaiting (''cannot read the download: '' @ e) have 0, None)
         | None \<Rightarrow>
             (if sha (file_data d path) = servedDigest t then (d, out_of PfComplete [] have 0, None)
              else case ai_discard io of
                Some e \<Rightarrow> (d, out_of PfWaiting (''cannot reset the download: '' @ e) have 0, None)
              | None \<Rightarrow> attempt_download opts sha io t path 0 (set_data (ai_now io) path [] d)))
      else attempt_download opts sha io t path have d)"

definition attempt ::
  "prefetch_opts \<Rightarrow> (string \<Rightarrow> string) \<Rightarrow> attempt_io \<Rightarrow> prefetch_target \<Rightarrow> string \<Rightarrow> disk \<Rightarrow> disk \<times> outcome \<times> request option" where
  "attempt opts sha io t path d =
     (let kept = kept_bytes io t path d
      in case space_refusal io t kept of
           Some e \<Rightarrow> (d, out_of PfRefused e kept 0, None)
         | None \<Rightarrow>
             (case openPartial (ai_open io) path d of
                (d, Inl e) \<Rightarrow> (d, out_of PfWaiting (''cannot open the download: '' @ e) 0 0, None)
              | (d, Inr have) \<Rightarrow>
                  (if have > pt_Size t then
                     (case ai_reset io of
                        Some e \<Rightarrow> (d, out_of PfWaiting (''cannot reset the download: '' @ e) have 0, None)
                      | None \<Rightarrow> attempt_full opts sha io t path 0 (set_data (ai_now io) path [] d))
                   else attempt_full opts sha io t path have d)))"

subsection \<open>The prefetcher\<close>

record file_stamp =
  fp_path :: string
  fp_size :: int
  fp_mtime :: gotime

text \<open>A run is known by its number; \<open>pf_cancelled\<close> holds the runs whose context is cancelled.\<close>

record fetch_run =
  fr_id :: nat
  fr_key :: string

record prefetcher =
  pf_known :: bool
  pf_cfg :: update_config
  pf_held :: nat
  pf_closed :: bool
  pf_run :: "fetch_run option"
  pf_key :: string
  pf_state :: prefetch_state
  pf_reason :: string
  pf_bytes :: int
  pf_failures :: nat
  pf_retryAt :: gotime
  pf_verified :: file_stamp
  pf_progress :: int
  pf_cancelled :: "nat list"
  pf_next :: nat

text \<open>The goroutine of a run: what it was started with, and what its attempt came to.\<close>

record fetch_job =
  fj_run :: fetch_run
  fj_target :: prefetch_target
  fj_path :: string
  fj_outcome :: "outcome option"

definition no_stamp :: file_stamp where
  "no_stamp = \<lparr>fp_path = [], fp_size = 0, fp_mtime = 0\<rparr>"

definition new_opts :: "prefetch_opts \<Rightarrow> prefetch_opts" where
  "new_opts opts = opts\<lparr>po_Server := trim_right (po_Server opts) ''/''\<rparr>"

definition new_prefetcher :: prefetcher where
  "new_prefetcher =
     \<lparr>pf_known = False, pf_cfg = \<lparr>uc_Prefetch = None, uc_Keep = []\<rparr>, pf_held = 0, pf_closed = False, pf_run = None,
      pf_key = [], pf_state = PfNone, pf_reason = [], pf_bytes = 0, pf_failures = 0, pf_retryAt = 0,
      pf_verified = no_stamp, pf_progress = 0, pf_cancelled = [], pf_next = 0\<rparr>"

definition stampOf :: "bool \<Rightarrow> disk \<Rightarrow> string \<Rightarrow> file_stamp" where
  "stampOf lstat d path = (case map_of d path of
     None \<Rightarrow> no_stamp
   | Some nd \<Rightarrow> (if lstat then \<lparr>fp_path = path, fp_size = node_size nd, fp_mtime = nd_mtime nd\<rparr> else no_stamp))"

definition stamp_matches :: "bool \<Rightarrow> disk \<Rightarrow> file_stamp \<Rightarrow> string \<Rightarrow> bool" where
  "stamp_matches lstat d st path \<longleftrightarrow>
     \<not> (fp_path st = [] \<or> fp_path st \<noteq> path) \<and>
     (let now = stampOf lstat d path in fp_size now = fp_size st \<and> fp_mtime now = fp_mtime st)"

definition keyLocked :: "prefetcher \<Rightarrow> string" where
  "keyLocked p = (case uc_Prefetch (pf_cfg p) of
     Some t \<Rightarrow> (if pf_known p then pt_ApprovalID t @ ''|'' @ servedDigest t @ ''|'' @ pt_InstallPath t else [])
   | None \<Rightarrow> [])"

definition setLocked :: "prefetch_state \<Rightarrow> string \<Rightarrow> int \<Rightarrow> prefetcher \<Rightarrow> prefetcher" where
  "setLocked st reason bytes p = p\<lparr>pf_state := st, pf_reason := boundReason reason maxReason, pf_bytes := bytes\<rparr>"

definition cancel_run :: "fetch_run \<Rightarrow> prefetcher \<Rightarrow> prefetcher" where
  "cancel_run r p = p\<lparr>pf_cancelled := fr_id r # pf_cancelled p\<rparr>"

text \<open>
  The answers to one decision: \<open>Lstat\<close> of directories, whether the directory can be read, which removals
  succeed, whether \<open>Lstat\<close> of the download works, and the time.
\<close>

record kick_io =
  ki_euid :: int
  ki_dirs :: "string \<Rightarrow> string + dir_stat"
  ki_readDir :: bool
  ki_removed :: "string \<Rightarrow> bool"
  ki_lstat :: bool
  ki_now :: gotime

definition keep_digests :: "update_config \<Rightarrow> string list" where
  "keep_digests cfg =
     filter digestRe (take maxKeep (uc_Keep cfg)) @
     (case uc_Prefetch cfg of
        Some t \<Rightarrow> (if validateTarget t = None then [pt_SHA256 t, servedDigest t] else [])
      | None \<Rightarrow> [])"

fun prune_entries :: "kick_io \<Rightarrow> string list \<Rightarrow> string \<Rightarrow> (string \<times> bool) list \<Rightarrow> disk \<Rightarrow> disk" where
  "prune_entries io keep dir [] d = d"
| "prune_entries io keep dir ((name, isDir) # es) d =
     (let path = path_join dir name
      in prune_entries io keep dir es
           (case cut_prefix name PartialPrefix of
              None \<Rightarrow> d
            | Some digest \<Rightarrow>
                (if digest \<in> set keep \<or> isDir then d else if ki_removed io path then remove_name path d else d)))"

definition pruneLocked :: "kick_io \<Rightarrow> update_config \<Rightarrow> string \<Rightarrow> disk \<Rightarrow> disk" where
  "pruneLocked io cfg dir d =
     (if ki_readDir io then prune_entries io (keep_digests cfg) dir (dir_entries dir d) d else d)"

text \<open>The directory of the agent's own binary, and why it is not to be written.\<close>

definition own_dir :: "prefetch_opts \<Rightarrow> string" where
  "own_dir opts = (if is_abs (po_Executable opts) then path_dir (po_Executable opts) else [])"

definition dir_refusal :: "prefetch_opts \<Rightarrow> kick_io \<Rightarrow> string option" where
  "dir_refusal opts io =
     (if own_dir opts = [] then Some ''the agent cannot read its own path''
      else secureDir (ki_euid io) (ki_dirs io) (own_dir opts))"

text \<open>The refusals of a named file, in their order.\<close>

definition target_refusal :: "prefetch_opts \<Rightarrow> string option \<Rightarrow> prefetch_target \<Rightarrow> string + string" where
  "target_refusal opts dirErr t =
     (if \<not> po_CanRunUpdate opts then Inl ''task execution is disabled on this node, so no update can use the file''
      else case validateTarget t of
        Some e \<Rightarrow> Inl (''the server named a file this agent does not fetch: '' @ e)
      | None \<Rightarrow>
          (if pt_OS t \<noteq> po_GOOS opts \<or> pt_Arch t \<noteq> po_GOARCH opts
           then Inl (''the file is for '' @ pt_OS t @ ''/'' @ pt_Arch t @ '' and this agent runs on '' @ po_GOOS opts @ ''/'' @ po_GOARCH opts)
           else if trim_prefix (pt_Version t) ''v'' = trim_prefix (po_AgentVersion opts) ''v''
           then Inl (''this agent already runs version '' @ pt_Version t)
           else case ScriptDir (pt_InstallPath t) (po_Executable opts) of
             None \<Rightarrow>
               Inl (''the update installs to '' @ boundReason (pt_InstallPath t) 80 @
                 '', not over this agent's own binary, and prefetch writes only beside that'')
           | Some dir \<Rightarrow> (case dirErr of Some e \<Rightarrow> Inl e | None \<Rightarrow> Inr dir)))"

definition start_run :: "prefetch_target \<Rightarrow> string \<Rightarrow> string \<Rightarrow> prefetcher \<Rightarrow> prefetcher \<times> fetch_job option" where
  "start_run t path key p =
     (let run = \<lparr>fr_id = pf_next p, fr_key = key\<rparr>
      in (setLocked PfFetching [] (pf_bytes p) (p\<lparr>pf_run := Some run, pf_next := Suc (pf_next p), pf_progress := pf_bytes p\<rparr>),
          Some \<lparr>fj_run = run, fj_target = t, fj_path = path, fj_outcome = None\<rparr>))"

definition kick_target ::
  "prefetch_opts \<Rightarrow> kick_io \<Rightarrow> string \<Rightarrow> string option \<Rightarrow> prefetch_target \<Rightarrow> disk \<Rightarrow> prefetcher \<Rightarrow> prefetcher \<times> fetch_job option" where
  "kick_target opts io key dirErr t d p =
     (case target_refusal opts dirErr t of
        Inl e \<Rightarrow> (setLocked PfRefused e 0 p, None)
      | Inr dir \<Rightarrow>
          (let path = path_join dir (PartialPrefix @ servedDigest t)
           in if pf_state p = PfComplete \<and> stamp_matches (ki_lstat io) d (pf_verified p) path then (p, None)
              else if ki_now io < pf_retryAt p then (p, None)
              else start_run t path key p))"

definition kick_refuse :: "string \<Rightarrow> prefetcher \<Rightarrow> prefetcher" where
  "kick_refuse reason p = (if uc_Prefetch (pf_cfg p) = None then p else setLocked PfRefused reason 0 p)"

definition switch_key :: "string \<Rightarrow> prefetcher \<Rightarrow> prefetcher" where
  "switch_key key p =
     (if key \<noteq> pf_key p
      then p\<lparr>pf_key := key, pf_state := PfNone, pf_reason := [], pf_bytes := 0, pf_failures := 0, pf_retryAt := 0\<rparr>
      else p)"

definition kickLocked :: "prefetch_opts \<Rightarrow> kick_io \<Rightarrow> disk \<Rightarrow> prefetcher \<Rightarrow> disk \<times> prefetcher \<times> fetch_job option" where
  "kickLocked opts io d p =
     (if pf_closed p \<or> pf_held p > 0 then (d, p, None)
      else
        let key = keyLocked p
        in case pf_run p of
             Some run \<Rightarrow> (d, if fr_key run \<noteq> key then cancel_run run p else p, None)
           | None \<Rightarrow>
               (let p = switch_key key p
                in if \<not> pf_known p then (d, p, None)
                   else if po_Veto opts then (d, kick_refuse ''the node vetoes prefetch (-no-prefetch)'' p, None)
                   else if \<not> po_Root opts
                   then (d, kick_refuse ''the agent does not run as root, and the update continues only a download root owns'' p, None)
                   else
                     let dirErr = dir_refusal opts io;
                         d = (if dirErr = None then pruneLocked io (pf_cfg p) (own_dir opts) d else d)
                     in case uc_Prefetch (pf_cfg p) of
                          None \<Rightarrow> (d, p, None)
                        | Some t \<Rightarrow> (d, kick_target opts io key dirErr t d p)))"

definition Update :: "prefetch_opts \<Rightarrow> kick_io \<Rightarrow> update_config option \<Rightarrow> disk \<Rightarrow> prefetcher \<Rightarrow> disk \<times> prefetcher \<times> fetch_job option" where
  "Update opts io cfg d p =
     kickLocked opts io d (case cfg of
       None \<Rightarrow> p\<lparr>pf_known := False, pf_cfg := \<lparr>uc_Prefetch = None, uc_Keep = []\<rparr>\<rparr>
     | Some c \<Rightarrow> p\<lparr>pf_known := True, pf_cfg := c\<rparr>)"

text \<open>\<open>Hold\<close> up to its wait; the number is that of the run whose end it waits for.\<close>

definition hold_enter :: "prefetcher \<Rightarrow> prefetcher \<times> nat option" where
  "hold_enter p =
     (let p = p\<lparr>pf_held := Suc (pf_held p)\<rparr>
      in case pf_run p of None \<Rightarrow> (p, None) | Some run \<Rightarrow> (cancel_run run p, Some (fr_id run)))"

definition Release :: "prefetcher \<Rightarrow> prefetcher" where
  "Release p = (if pf_held p > 0 then p\<lparr>pf_held := pf_held p - 1\<rparr> else p)"

definition close_enter :: "prefetcher \<Rightarrow> prefetcher \<times> nat option" where
  "close_enter p = hold_enter (p\<lparr>pf_closed := True\<rparr>)"

record prefetch_facts =
  fa_ApprovalID :: string
  fa_SHA256 :: string
  fa_Bytes :: int
  fa_Size :: int
  fa_State :: prefetch_state
  fa_Reason :: string

definition Facts :: "prefetcher \<Rightarrow> prefetch_facts option" where
  "Facts p = (case uc_Prefetch (pf_cfg p) of
     None \<Rightarrow> None
   | Some t \<Rightarrow>
       (if \<not> pf_known p \<or> pf_state p = PfNone then None
        else
          let facts = \<lparr>fa_ApprovalID = boundReason (pt_ApprovalID t) 64, fa_SHA256 = boundReason (servedDigest t) 64,
                       fa_Bytes = pf_bytes p, fa_Size = pt_Size t, fa_State = pf_state p, fa_Reason = pf_reason p\<rparr>
          in if pf_key p \<noteq> keyLocked p
             then Some (facts\<lparr>fa_Bytes := 0, fa_State := PfWaiting, fa_Reason := ''switching to the file the server names now''\<rparr>)
             else if pf_run p \<noteq> None then Some (facts\<lparr>fa_Bytes := pf_progress p\<rparr>)
             else Some facts))"

definition backoff :: "nat \<Rightarrow> duration" where
  "backoff failures = (if failures < 10 then min (firstBackoff * 2 ^ failures) maxBackoff else maxBackoff)"

text \<open>What the end of a run records, while its file is still the one that is reported on.\<close>

definition fetch_record :: "kick_io \<Rightarrow> disk \<Rightarrow> fetch_job \<Rightarrow> outcome \<Rightarrow> prefetcher \<Rightarrow> prefetcher" where
  "fetch_record io d j oc p =
     (if oc_state oc = PfComplete then
        setLocked (oc_state oc) (oc_reason oc) (oc_have oc)
          (p\<lparr>pf_failures := 0, pf_retryAt := 0, pf_verified := stampOf (ki_lstat io) d (fj_path j)\<rparr>)
      else if fr_id (fj_run j) \<in> set (pf_cancelled p) then
        setLocked PfWaiting ''stopped for a task or a new config; the next config pull resumes it'' (oc_have oc) p
      else if oc_gained oc \<ge> minProgress then
        setLocked (oc_state oc) (oc_reason oc) (oc_have oc)
          (p\<lparr>pf_failures := 0, pf_retryAt := ki_now io + progressRetry\<rparr>)
      else
        setLocked (oc_state oc) (oc_reason oc) (oc_have oc)
          (p\<lparr>pf_failures := Suc (pf_failures p), pf_retryAt := ki_now io + backoff (pf_failures p)\<rparr>))"

definition fetch_end :: "prefetch_opts \<Rightarrow> kick_io \<Rightarrow> fetch_job \<Rightarrow> outcome \<Rightarrow> disk \<Rightarrow> prefetcher \<Rightarrow> disk \<times> prefetcher \<times> fetch_job option" where
  "fetch_end opts io j oc d p =
     (let p = (if pf_run p = Some (fj_run j) then p\<lparr>pf_run := None\<rparr> else p);
          p = (if pf_key p = fr_key (fj_run j) then fetch_record io d j oc p else p)
      in kickLocked opts io d p)"

subsection \<open>Runs\<close>

text \<open>
  The prefetcher with its goroutines, the runs that have ended, the calls of \<open>Hold\<close> that wait and how many
  have returned and are not released yet, the disk, and the requests made so far.
\<close>

record prefetch_machine =
  pm_pf :: prefetcher
  pm_disk :: disk
  pm_jobs :: "fetch_job list"
  pm_done :: "nat list"
  pm_waiting :: "nat option list"
  pm_holding :: nat
  pm_requests :: "request list"

definition pm_kicked :: "disk \<times> prefetcher \<times> fetch_job option \<Rightarrow> prefetch_machine \<Rightarrow> prefetch_machine" where
  "pm_kicked r m = (case r of (d, p, j) \<Rightarrow>
     m\<lparr>pm_disk := d, pm_pf := p, pm_jobs := pm_jobs m @ (case j of None \<Rightarrow> [] | Some j \<Rightarrow> [j])\<rparr>)"

definition pm_start :: "disk \<Rightarrow> request list \<Rightarrow> prefetch_machine" where
  "pm_start d reqs =
     \<lparr>pm_pf = new_prefetcher, pm_disk = d, pm_jobs = [], pm_done = [], pm_waiting = [], pm_holding = 0, pm_requests = reqs\<rparr>"

text \<open>
  The steps: a configuration arrives, a task asks for the hold, the hold is granted, the task ends, the agent
  closes, a run makes its attempt, a run ends, its progress is stored, the agent is started again, and others
  (a task, the operator) change the disk.
\<close>

datatype pm_event = PmUpdate | PmHold | PmGranted | PmRelease | PmClose | PmAttempt | PmEnd | PmProgress | PmRestart | PmOthers

inductive pm_step ::
  "prefetch_opts \<Rightarrow> (string \<Rightarrow> string) \<Rightarrow> pm_event \<Rightarrow> prefetch_machine \<Rightarrow> prefetch_machine \<Rightarrow> bool" for opts sha where
  pm_update: "pm_step opts sha PmUpdate m (pm_kicked (Update opts io cfg (pm_disk m) (pm_pf m)) m)"
| pm_hold: "hold_enter (pm_pf m) = (p, w) \<Longrightarrow> pm_step opts sha PmHold m (m\<lparr>pm_pf := p, pm_waiting := pm_waiting m @ [w]\<rparr>)"
| pm_granted: "pm_waiting m = ws @ w # ws' \<Longrightarrow> (case w of None \<Rightarrow> True | Some i \<Rightarrow> i \<in> set (pm_done m)) \<Longrightarrow>
    pm_step opts sha PmGranted m (m\<lparr>pm_waiting := ws @ ws', pm_holding := Suc (pm_holding m)\<rparr>)"
| pm_release: "pm_holding m > 0 \<Longrightarrow>
    pm_step opts sha PmRelease m (m\<lparr>pm_pf := Release (pm_pf m), pm_holding := pm_holding m - 1\<rparr>)"
| pm_close: "close_enter (pm_pf m) = (p, w) \<Longrightarrow> pm_step opts sha PmClose m (m\<lparr>pm_pf := p, pm_waiting := pm_waiting m @ [w]\<rparr>)"
| pm_attempt: "pm_jobs m = js @ j # js' \<Longrightarrow> fj_outcome j = None \<Longrightarrow>
    attempt opts sha io (fj_target j) (fj_path j) (pm_disk m) = (d, oc, req) \<Longrightarrow>
    pm_step opts sha PmAttempt m (m\<lparr>pm_disk := d, pm_jobs := js @ j\<lparr>fj_outcome := Some oc\<rparr> # js',
      pm_requests := pm_requests m @ (case req of None \<Rightarrow> [] | Some r \<Rightarrow> [r])\<rparr>)"
| pm_end: "pm_jobs m = js @ j # js' \<Longrightarrow> fj_outcome j = Some oc \<Longrightarrow>
    pm_step opts sha PmEnd m (pm_kicked (fetch_end opts io j oc (pm_disk m) (pm_pf m))
      (m\<lparr>pm_jobs := js @ js', pm_done := fr_id (fj_run j) # pm_done m\<rparr>))"
| pm_progress: "j \<in> set (pm_jobs m) \<Longrightarrow> fj_outcome j = None \<Longrightarrow>
    pm_step opts sha PmProgress m (m\<lparr>pm_pf := (pm_pf m)\<lparr>pf_progress := n\<rparr>\<rparr>)"
| pm_restart: "pm_step opts sha PmRestart m (pm_start (pm_disk m) (pm_requests m))"
| pm_others: "pm_step opts sha PmOthers m (m\<lparr>pm_disk := d\<rparr>)"

inductive pm_reach :: "prefetch_opts \<Rightarrow> (string \<Rightarrow> string) \<Rightarrow> prefetch_machine \<Rightarrow> bool" for opts sha where
  pm_init: "pm_reach opts sha (pm_start d [])"
| pm_next: "pm_reach opts sha m \<Longrightarrow> pm_step opts sha ev m m' \<Longrightarrow> pm_reach opts sha m'"

end
