(* ===== verification/Prefetch_Properties.thy ===== *)
theory Prefetch_Properties
  imports Prefetch
begin

text \<open>
  What the prefetcher keeps: an attempt changes what stands at its own name only (\<open>frame\<close>, \<open>open_at\<close>) and comes
  closer to the file with every answer of a server that has it (\<open>left\<close>); a decision starts at most one run and touches
  its own downloads only; and the invariant \<open>pm_inv\<close> of the prefetcher with its runs and holds.
\<close>

unbundle bit_operations_syntax

section \<open>One attempt\<close>

text \<open>What stands at a path; the download is open at a path with so many bytes.\<close>

lemma map_of_put [simp]: "map_of (put_node path nd d) q = (if q = path then Some nd else map_of d q)"
  by (induction d) (auto simp: put_node_def)

lemma map_of_remove_name [simp]: "map_of (remove_name path d) q = (if q = path then None else map_of d q)"
  by (induction d) (auto simp: remove_name_def)

lemma map_of_filter_path: "map_of (filter (\<lambda>(q, nd). P q) d) q = (if P q then map_of d q else None)"
  by (induction d) (auto split: if_splits)

lemma map_of_remove_all [simp]: "map_of (remove_all path d) q = (if below path q then None else map_of d q)"
  by (simp add: remove_all_def map_of_filter_path)

lemma below_self [simp]: "below path path"
  by (simp add: below_def)

definition open_at :: "string \<Rightarrow> int \<Rightarrow> disk \<Rightarrow> bool" where
  "open_at path n d \<longleftrightarrow> (\<exists>nd. map_of d path = Some nd \<and> nd_kind nd = RegularNode \<and> nd_own nd \<and> node_size nd = n)"

definition frame :: "string \<Rightarrow> disk \<Rightarrow> disk \<Rightarrow> bool" where
  "frame path d d' \<longleftrightarrow> (\<forall>q. \<not> below path q \<longrightarrow> map_of d' q = map_of d q)"

lemma frame_refl [simp]: "frame path d d"
  by (simp add: frame_def)

lemma frame_trans: "frame path d d' \<Longrightarrow> frame path d' d'' \<Longrightarrow> frame path d d''"
  by (simp add: frame_def)

lemma open_at_size: "open_at path n d \<Longrightarrow> int (length (file_data d path)) = n"
  by (auto simp: open_at_def file_data_def node_size_def)

lemma set_data_file: "open_at path n d \<Longrightarrow> file_data (set_data now path s d) path = s"
  by (auto simp: open_at_def file_data_def set_data_def)

lemma set_data_open: "open_at path n d \<Longrightarrow> open_at path (int (length s)) (set_data now path s d)"
  by (auto simp: open_at_def set_data_def node_size_def)

lemma set_data_frame: "frame path d (set_data now path s d)"
  by (auto simp: frame_def set_data_def split: option.splits)

definition short :: "int \<Rightarrow> string \<Rightarrow> disk \<Rightarrow> disk \<Rightarrow> bool" where
  "short lim path d d' \<longleftrightarrow> (case map_of d' path of
     None \<Rightarrow> True | Some nd \<Rightarrow> nd_kind nd \<noteq> RegularNode \<or> node_size nd \<le> lim \<or> map_of d path = Some nd)"

lemma short_open: "open_at path n d' \<Longrightarrow> n \<le> lim \<Longrightarrow> short lim path d d'"
  by (auto simp: open_at_def short_def)

lemma short_refl [simp]: "short lim path d d"
  by (simp add: short_def split: option.splits)

lemma openPartial_ok:
  assumes "openPartial io path d = (d', Inr n)"
  shows "open_at path n d' \<and> 0 \<le> n"
  using assms
  by (auto simp: openPartial_def Let_def ownedRegular_def open_at_def node_size_def new_file_def split: option.splits if_splits)

lemma openPartial_frame: "openPartial io path d = (d', r) \<Longrightarrow> frame path d d'"
  by (auto simp: openPartial_def Let_def opened_def frame_def map_of_filter_path below_def split: option.splits if_splits)

lemma openPartial_short: "openPartial io path d = (d', Inl e) \<Longrightarrow> 0 \<le> lim \<Longrightarrow> short lim path d d'"
  by (auto simp: openPartial_def Let_def opened_def short_def map_of_filter_path new_file_def node_size_def has_prefix_def
      split: option.splits if_splits)

lemma openPartial_kept: "openPartial io path d = (d', Inr n) \<Longrightarrow> n = 0 \<or> map_of d' path = map_of d path"
  by (auto simp: openPartial_def Let_def opened_def ownedRegular_def new_file_def node_size_def split: option.splits if_splits)

lemma copy_body_prefix: "copy_body io resp limit = (got, err) \<Longrightarrow> 0 \<le> limit \<Longrightarrow> int (length got) \<le> limit"
  by (auto simp: copy_body_def Let_def split: option.splits if_splits)

lemma accept_start: "accept_response t have resp = Inr start \<Longrightarrow> (rs_status resp = 200 \<and> start = 0) \<or> (rs_status resp = 206 \<and> start = have)"
  by (auto simp: accept_response_def Let_def split: if_splits option.splits sum.splits)

lemma write_at_length: "start = length old \<Longrightarrow> write_at start new old = old @ new"
  by (simp add: write_at_def)

lemma copy_result_None: "copy_result t resp n err = None \<Longrightarrow> pt_Size t \<le> n"
  by (auto simp: copy_result_def split: option.splits if_splits)

lemma download_ok:
  assumes o: "open_at path have d" and b: "0 \<le> have" "have < pt_Size t"
    and dl: "download opts io t path have d = (d', have', err, req)"
  shows "open_at path have' d' \<and> 0 \<le> have' \<and> have' \<le> pt_Size t \<and> (err = None \<longrightarrow> have' = pt_Size t) \<and> frame path d d'"
proof (cases "ai_request io = None \<and> (\<exists>resp start. ai_response io = Inr resp \<and> accept_response t have resp = Inr start)")
  case False
  then have "\<exists>e r. download opts io t path have d = (d, have, Some e, r)"
    by (auto simp: download_def Let_def split: option.split sum.split)
  with dl o b show ?thesis by auto
next
  case True
  then obtain resp start where r: "ai_request io = None" "ai_response io = Inr resp" "accept_response t have resp = Inr start"
    by blast
  define whole where "whole \<longleftrightarrow> rs_status resp = 200 \<and> have > 0"
  define d1 where "d1 = (if whole then set_data (ai_now io) path [] d else d)"
  define h1 where "h1 = (if whole then 0 else have)"
  have o1: "open_at path h1 d1" using o set_data_open [OF o, of "[]"] by (simp add: h1_def d1_def)
  have f1: "frame path d d1" by (simp add: d1_def set_data_frame)
  have s: "start = h1" using accept_start [OF r(3)] b by (auto simp: h1_def whole_def)
  have h1: "0 \<le> h1" "h1 < pt_Size t" using b by (auto simp: h1_def)
  obtain got err1 where c: "copy_body io resp (pt_Size t - start) = (got, err1)" by fastforce
  have g: "int (length got) \<le> pt_Size t - start" using copy_body_prefix [OF c] h1 s by simp
  define d2 where "d2 = (if got = [] then d1 else set_data (ai_now io) path (write_at (nat start) got (file_data d1 path)) d1)"
  have "nat start = length (file_data d1 path)" using open_at_size [OF o1] s by simp
  then have "open_at path (start + int (length got)) d2"
    using o1 set_data_open [OF o1, of "file_data d1 path @ got"] s open_at_size [OF o1] by (auto simp: d2_def write_at_length)
  moreover have "frame path d d2" using f1 set_data_frame frame_trans by (auto simp: d2_def)
  moreover have "download opts io t path have d =
      (if whole \<and> ai_restart io \<noteq> None then (d, have, ai_restart io, Some (build_request opts t have))
       else if ai_seek io \<noteq> None then (d1, h1, ai_seek io, Some (build_request opts t have))
       else (d2, start + int (length got), copy_result t resp (start + int (length got)) err1, Some (build_request opts t have)))"
    using r c by (auto simp add: download_def Let_def whole_def d1_def h1_def d2_def)
  ultimately show ?thesis
    using dl o o1 f1 g h1 b s copy_result_None [of t resp "start + int (length got)" err1] by (auto split: if_splits)
qed


lemma attempt_download_ok:
  assumes o: "open_at path have d" and b: "0 \<le> have" "have < pt_Size t"
    and att: "attempt_download opts sha io t path have d = (d', oc, req)"
  shows "\<exists>n. open_at path n d' \<and> 0 \<le> n \<and> n \<le> pt_Size t \<and>
    (oc_state oc = PfComplete \<longrightarrow> n = pt_Size t \<and> oc_have oc = n \<and> sha (file_data d' path) = servedDigest t)" "frame path d d'"
proof -
  obtain d1 h1 e1 r1 where dl: "download opts io t path have d = (d1, h1, e1, r1)" by (metis prod_cases4)
  note D = download_ok [OF o b dl]
  have "\<exists>n. open_at path n (set_data (ai_now io) path [] d1) \<and> 0 \<le> n \<and> n \<le> pt_Size t"
    using D set_data_open [of path h1 d1 "[]"] b by (intro exI [of _ 0]) auto
  with D set_data_frame [of path d1] frame_trans [of path d d1]
  show "\<exists>n. open_at path n d' \<and> 0 \<le> n \<and> n \<le> pt_Size t \<and>
    (oc_state oc = PfComplete \<longrightarrow> n = pt_Size t \<and> oc_have oc = n \<and> sha (file_data d' path) = servedDigest t)" "frame path d d'"
    using att dl b by (auto simp: attempt_download_def Let_def out_of_def split: option.splits if_splits)
qed

lemma attempt_full_ok:
  assumes o: "open_at path have d" and b: "0 \<le> have" "have \<le> pt_Size t" "0 < pt_Size t"
    and att: "attempt_full opts sha io t path have d = (d', oc, req)"
  shows "\<exists>n. open_at path n d' \<and> 0 \<le> n \<and> n \<le> pt_Size t \<and>
    (oc_state oc = PfComplete \<longrightarrow> n = pt_Size t \<and> oc_have oc = n \<and> sha (file_data d' path) = servedDigest t)" (is ?P)
    "frame path d d'"
proof -
  consider "have = pt_Size t" "d' = d" "oc_state oc = PfComplete \<longrightarrow> sha (file_data d path) = servedDigest t \<and> oc_have oc = have"
    | "attempt_download opts sha io t path 0 (set_data (ai_now io) path [] d) = (d', oc, req)"
    | "have < pt_Size t" "attempt_download opts sha io t path have d = (d', oc, req)"
    using att b(2) by (auto simp: attempt_full_def out_of_def split: if_splits option.splits)
  then have "?P \<and> frame path d d'"
  proof cases
    case 1
    with o b show ?thesis by auto
  next
    case 2
    then show ?thesis
      using attempt_download_ok [OF _ _ b(3) 2] set_data_open [OF o, of "[]"] set_data_frame frame_trans by fastforce
  next
    case 3
    then show ?thesis using attempt_download_ok [OF o b(1) 3] by blast
  qed
  then show ?P "frame path d d'" by blast+
qed

lemma attempt_ok:
  assumes b: "0 < pt_Size t" and att: "attempt opts sha io t path d = (d', oc, req)"
  shows "frame path d d'" "short (pt_Size t) path d d'"
    "oc_state oc = PfComplete \<Longrightarrow> open_at path (pt_Size t) d' \<and> oc_have oc = pt_Size t \<and> sha (file_data d' path) = servedDigest t"
proof -
  consider (refused) "d' = d" "oc_state oc = PfRefused"
    | (failed) e where "openPartial (ai_open io) path d = (d', Inl e)" "oc_state oc = PfWaiting"
    | (long) n where "openPartial (ai_open io) path d = (d', Inr n)" "oc_state oc = PfWaiting" "n > pt_Size t"
    | (reset) d1 n where "openPartial (ai_open io) path d = (d1, Inr n)"
        "attempt_full opts sha io t path 0 (set_data (ai_now io) path [] d1) = (d', oc, req)"
    | (full) d1 n where "openPartial (ai_open io) path d = (d1, Inr n)" "n \<le> pt_Size t"
        "attempt_full opts sha io t path n d1 = (d', oc, req)"
    using att by (auto simp: attempt_def Let_def out_of_def split: option.splits prod.splits sum.splits if_splits)
  then have "frame path d d' \<and> short (pt_Size t) path d d' \<and> (oc_state oc = PfComplete \<longrightarrow>
      open_at path (pt_Size t) d' \<and> oc_have oc = pt_Size t \<and> sha (file_data d' path) = servedDigest t)"
  proof cases
    case refused
    then show ?thesis by simp
  next
    case failed
    then show ?thesis using openPartial_frame openPartial_short b by fastforce
  next
    case long
    then show ?thesis using openPartial_frame openPartial_kept [OF long(1)] b
      by (auto simp: short_def split: option.splits)
  next
    case reset
    note o = openPartial_ok [OF reset(1)]
    have "open_at path 0 (set_data (ai_now io) path [] d1)" using set_data_open [of path n d1 "[]"] o by simp
    note F = attempt_full_ok [OF this _ _ b reset(2)]
    show ?thesis using F b short_open openPartial_frame [OF reset(1)] set_data_frame frame_trans by (smt (verit))
  next
    case full
    note o = openPartial_ok [OF full(1)]
    note F = attempt_full_ok [OF _ _ full(2) b full(3)]
    show ?thesis using F o short_open openPartial_frame [OF full(1)] frame_trans by blast
  qed
  then show "frame path d d'" "short (pt_Size t) path d d'"
    "oc_state oc = PfComplete \<Longrightarrow> open_at path (pt_Size t) d' \<and> oc_have oc = pt_Size t \<and> sha (file_data d' path) = servedDigest t"
    by blast+
qed

section \<open>Getting through\<close>

text \<open>The bytes an attempt finds and may continue, and the byte it asks from.\<close>

definition old_data :: "string \<Rightarrow> disk \<Rightarrow> string" where
  "old_data path d = (case map_of d path of
     None \<Rightarrow> [] | Some nd \<Rightarrow> (if nd_kind nd = RegularNode \<and> nd_own nd then nd_data nd else []))"

definition base_data :: "prefetch_target \<Rightarrow> string \<Rightarrow> disk \<Rightarrow> string" where
  "base_data t path d = (if int (length (old_data path d)) < pt_Size t then old_data path d else [])"

text \<open>
  Answers in which nothing fails on the node and the disk has room, and a server that has the file \<open>X\<close>: it
  delivers some bytes of the rest, however few, and may then fail in any way.
\<close>

definition good_io :: "prefetch_target \<Rightarrow> attempt_io \<Rightarrow> bool" where
  "good_io t io \<longleftrightarrow>
     (\<exists>avail. ai_free io = Inr avail \<and> avail \<ge> pt_Size t + 3 * pt_BinarySize t + reserveBytes) \<and>
     oo_open (ai_open io) = None \<and> oo_stat (ai_open io) \<and> oo_chmod (ai_open io) = None \<and> oo_remove (ai_open io) = None \<and>
     oo_create (ai_open io) = None \<and> oo_restat (ai_open io) \<and>
     ai_reset io = None \<and> ai_match io = None \<and> ai_discard io = None \<and> ai_request io = None \<and> ai_restart io = None \<and>
     ai_seek io = None \<and> ai_write io = None \<and> ai_sync io = None \<and> ai_verify io = None \<and> ai_drop io"

definition serves :: "string \<Rightarrow> prefetch_target \<Rightarrow> nat \<Rightarrow> attempt_io \<Rightarrow> bool" where
  "serves X t off io \<longleftrightarrow> (case ai_response io of
     Inl _ \<Rightarrow> False
   | Inr resp \<Rightarrow>
       rs_etag resp = pinned_etag t \<and> rs_body resp \<noteq> [] \<and> has_prefix (drop off X) (rs_body resp) \<and>
       (rs_status resp = 206 \<and> parseContentRange (rs_contentRange resp) = Some (int off, pt_Size t) \<or> off = 0 \<and> rs_status resp = 200))"

lemma open_old: "open_at path n d \<Longrightarrow> file_data d path = old_data path d"
  by (auto simp: open_at_def file_data_def old_data_def)

lemma openPartial_good:
  assumes "good_io t io"
  shows "\<exists>d1. openPartial (ai_open io) path d = (d1, Inr (int (length (old_data path d)))) \<and> file_data d1 path = old_data path d"
  using assms
  by (auto simp: good_io_def openPartial_def Let_def opened_def ownedRegular_def old_data_def file_data_def new_file_def node_size_def
      split: option.splits)

lemma space_good: "good_io t io \<Longrightarrow> space_refusal io t (kept_bytes io t path d) = None"
  by (auto simp: good_io_def space_refusal_def kept_bytes_def node_size_def Let_def split: option.splits sum.splits)

lemma download_good:
  assumes g: "good_io t io" and o: "open_at path (int (length base)) d" and f: "file_data d path = base"
    and s: "serves X t (length base) io" and X: "int (length X) = pt_Size t" and b: "int (length base) < pt_Size t"
  shows "\<exists>d' body err req. download opts io t path (int (length base)) d = (d', int (length (base @ body)), err, req) \<and>
    open_at path (int (length (base @ body))) d' \<and> file_data d' path = base @ body \<and> body \<noteq> [] \<and>
    has_prefix (drop (length base) X) body \<and> (err = None \<longrightarrow> int (length (base @ body)) = pt_Size t)"
proof -
  obtain resp where r: "ai_response io = Inr resp" "rs_etag resp = pinned_etag t" "rs_body resp \<noteq> []"
    "has_prefix (drop (length base) X) (rs_body resp)"
    "rs_status resp = 206 \<and> parseContentRange (rs_contentRange resp) = Some (int (length base), pt_Size t) \<or>
     length base = 0 \<and> rs_status resp = 200"
    using s by (auto simp: serves_def split: sum.splits)
  define d' where "d' = set_data (ai_now io) path (base @ rs_body resp) d"
  have acc: "accept_response t (int (length base)) resp = Inr (int (length base))"
    using r(2,5) by (auto simp: accept_response_def)
  have "length (rs_body resp) \<le> length X - length base"
    using r(4) by (auto simp: has_prefix_def) (metis length_drop length_take min.absorb_iff2 min.cobounded1)
  then have l: "length (rs_body resp) \<le> nat (pt_Size t - int (length base))" using X by simp
  obtain err where c: "copy_body io resp (pt_Size t - int (length base)) = (rs_body resp, err)"
    using g l by (auto simp: copy_body_def good_io_def Let_def)
  have w: "write_at (length base) (rs_body resp) base = base @ rs_body resp" by (simp add: write_at_length)
  have "download opts io t path (int (length base)) d =
     (d', int (length (base @ rs_body resp)), copy_result t resp (int (length (base @ rs_body resp))) err,
      Some (build_request opts t (int (length base))))"
    using g r(1,3,5) acc c f w by (auto simp: download_def good_io_def d'_def Let_def)
  moreover have "open_at path (int (length (base @ rs_body resp))) d'" "file_data d' path = base @ rs_body resp"
    using set_data_open [OF o, of "base @ rs_body resp"] set_data_file [OF o] by (auto simp: d'_def)
  moreover have "int (length (base @ rs_body resp)) \<le> pt_Size t" using l b by simp
  ultimately show ?thesis using r(3,4) copy_result_None by fastforce
qed

lemma attempt_download_good:
  assumes g: "good_io t io" and o: "open_at path (int (length base)) d" and f: "file_data d path = base"
    and s: "serves X t (length base) io" and X: "int (length X) = pt_Size t" and b: "int (length base) < pt_Size t"
    and att: "attempt_download opts sha io t path (int (length base)) d = (d', oc, req)"
  shows "oc_state oc = PfComplete \<or>
    (\<exists>body. body \<noteq> [] \<and> has_prefix (drop (length base) X) body \<and> 
      (old_data path d' = base @ body \<or> sha (base @ body) \<noteq> servedDigest t \<and> int (length (base @ body)) = pt_Size t \<and> old_data path d' = []))"
proof -
  obtain d1 body err r where D: "download opts io t path (int (length base)) d = (d1, int (length (base @ body)), err, r)"
    "open_at path (int (length (base @ body))) d1" "file_data d1 path = base @ body" "body \<noteq> []"
    "has_prefix (drop (length base) X) body" "err = None \<longrightarrow> int (length (base @ body)) = pt_Size t"
    using download_good [OF g o f s X b] by blast
  have e: "old_data path d1 = base @ body" using open_old [OF D(2)] D(3) by simp
  have "old_data path (set_data (ai_now io) path [] d1) = []"
    using open_old [OF set_data_open [OF D(2)]] set_data_file [OF D(2)] by metis
  then have "old_data path d' = base @ body \<or>
      sha (base @ body) \<noteq> servedDigest t \<and> int (length (base @ body)) = pt_Size t \<and> old_data path d' = []"
    using att D(1,3,6) e g by (auto simp: attempt_download_def Let_def good_io_def split: option.splits if_splits)
  then show ?thesis using D(4,5) by blast
qed

lemma attempt_good:
  assumes g: "good_io t io" and s: "serves X t (length (base_data t path d)) io" and X: "int (length X) = pt_Size t" "X \<noteq> []"
    and att: "attempt opts sha io t path d = (d', oc, req)"
  shows "oc_state oc = PfComplete \<or>
    (\<exists>body. body \<noteq> [] \<and> has_prefix (drop (length (base_data t path d)) X) body \<and> 
      (old_data path d' = base_data t path d @ body \<or>
       sha (base_data t path d @ body) \<noteq> servedDigest t \<and> int (length (base_data t path d @ body)) = pt_Size t \<and> old_data path d' = []))"
    "int (length (old_data path d)) = pt_Size t \<Longrightarrow> sha (old_data path d) = servedDigest t \<Longrightarrow> oc_state oc = PfComplete"
proof -
  let ?c = "old_data path d"
  obtain d1 where d1: "openPartial (ai_open io) path d = (d1, Inr (int (length ?c)))" "file_data d1 path = ?c"
    using openPartial_good [OF g] by blast
  have o: "open_at path (int (length ?c)) d1" using openPartial_ok [OF d1(1)] by simp
  have o0: "open_at path 0 (set_data (ai_now io) path [] d1)" "file_data (set_data (ai_now io) path [] d1) path = []"
    using set_data_open [OF o, of "[]"] set_data_file [OF o] by auto
  have pos: "0 < pt_Size t" using X by (cases X) auto
  consider (full) "int (length ?c) = pt_Size t" "sha ?c = servedDigest t" "oc_state oc = PfComplete"
    | (cont) "int (length ?c) < pt_Size t" "attempt_download opts sha io t path (int (length ?c)) d1 = (d', oc, req)"
    | (anew) "\<not> int (length ?c) < pt_Size t" "\<not> (int (length ?c) = pt_Size t \<and> sha ?c = servedDigest t)"
       "attempt_download opts sha io t path 0 (set_data (ai_now io) path [] d1) = (d', oc, req)"
    using att d1 space_good [OF g] g pos
    by (auto simp: attempt_def attempt_full_def Let_def good_io_def out_of_def split: if_splits)
  note cs = this
  from cs show "oc_state oc = PfComplete \<or>
    (\<exists>body. body \<noteq> [] \<and> has_prefix (drop (length (base_data t path d)) X) body \<and> 
      (old_data path d' = base_data t path d @ body \<or>
       sha (base_data t path d @ body) \<noteq> servedDigest t \<and> int (length (base_data t path d @ body)) = pt_Size t \<and> old_data path d' = []))"
  proof cases
    case cont
    then show ?thesis
      using attempt_download_good [OF g o d1(2) _ X(1) cont] s by (simp add: base_data_def)
  next
    case anew
    then have "base_data t path d = []" by (simp add: base_data_def)
    then show ?thesis
      using attempt_download_good [OF g, of path "[]"] o0 s X(1) pos anew(3) by simp
  qed auto
  from cs show "int (length ?c) = pt_Size t \<Longrightarrow> sha ?c = servedDigest t \<Longrightarrow> oc_state oc = PfComplete"
    by cases auto
qed

text \<open>How many attempts are left at most: a wrong partial is first filled up and discarded.\<close>

definition left :: "string \<Rightarrow> string \<Rightarrow> disk \<Rightarrow> nat" where
  "left X path d =
     (if has_prefix X (old_data path d) then length X - length (old_data path d)
      else 2 * length X - min (length (old_data path d)) (length X))"

lemma left_bound: "left X path d \<le> 2 * length X"
  by (auto simp: left_def)

lemma attempt_closer:
  assumes g: "good_io t io" and s: "serves X t (length (base_data t path d)) io" and X: "int (length X) = pt_Size t" "X \<noteq> []"
    and sha: "sha X = servedDigest t" and att: "attempt opts sha io t path d = (d', oc, req)"
  shows "oc_state oc = PfComplete \<or> left X path d' < left X path d"
proof (cases "oc_state oc = PfComplete")
  case False
  let ?c = "old_data path d" and ?b = "base_data t path d"
  note G = attempt_good [OF g s X att]
  from G(1) False obtain body where body: "body \<noteq> []" "has_prefix (drop (length ?b) X) body"
    and r: "old_data path d' = ?b @ body \<or>
       sha (?b @ body) \<noteq> servedDigest t \<and> length (?b @ body) = length X \<and> old_data path d' = []"
    using X(1) by auto
  have pre: "has_prefix X ?b \<Longrightarrow> has_prefix X (?b @ body)" using body(2) by (auto simp: has_prefix_iff)
  have len: "length body \<le> length X - length ?b" using body(2) by (auto simp: has_prefix_iff) (metis length_drop length_append le_add1)
  have full: "has_prefix X (?b @ body) \<Longrightarrow> length (?b @ body) = length X \<Longrightarrow> ?b @ body = X"
    by (auto simp: has_prefix_def)
  have neq: "?c \<noteq> X" using G(2) X(1) sha False by auto
  then have lc: "has_prefix X ?c \<Longrightarrow> length ?c < length X" by (auto simp: has_prefix_iff)
  have b: "?b = (if length ?c < length X then ?c else [])" using X(1) by (simp add: base_data_def)
  from r have "left X path d' < left X path d"
  proof
    assume "old_data path d' = ?b @ body"
    moreover obtain z zs where "body = z # zs" using body(1) by (cases body) auto
    ultimately show ?thesis using pre len lc b X(2) by (cases "length ?c < length X") (auto simp: left_def)
  next
    assume a: "sha (?b @ body) \<noteq> servedDigest t \<and> length (?b @ body) = length X \<and> old_data path d' = []"
    then have "\<not> has_prefix X ?b" using full pre sha by auto
    moreover from this have "?b = ?c" using b by (auto split: if_splits)
    ultimately show ?thesis using a b X(2) by (auto simp: left_def split: if_splits)
  qed
  then show ?thesis ..
qed simp

text \<open>A series of attempts, with the disk each one finds.\<close>

fun attempts :: "prefetch_opts \<Rightarrow> (string \<Rightarrow> string) \<Rightarrow> prefetch_target \<Rightarrow> string \<Rightarrow> (nat \<Rightarrow> attempt_io) \<Rightarrow> disk \<Rightarrow> nat \<Rightarrow> disk" where
  "attempts opts sha t path ios d 0 = d"
| "attempts opts sha t path ios d (Suc n) = fst (attempt opts sha (ios n) t path (attempts opts sha t path ios d n))"

lemma attempts_get_through:
  assumes X: "int (length X) = pt_Size t" "X \<noteq> []" and sha: "sha X = servedDigest t"
    and io: "\<And>n. good_io t (ios n) \<and> serves X t (length (base_data t path (attempts opts sha t path ios d n))) (ios n)"
  shows "\<exists>n \<le> left X path d. oc_state (fst (snd (attempt opts sha (ios n) t path (attempts opts sha t path ios d n)))) = PfComplete"
proof (rule ccontr)
  assume no: "\<not> ?thesis"
  have "n \<le> Suc (left X path d) \<Longrightarrow> left X path (attempts opts sha t path ios d n) + n \<le> left X path d" for n
  proof (induction n)
    case (Suc n)
    obtain d' oc req where a: "attempt opts sha (ios n) t path (attempts opts sha t path ios d n) = (d', oc, req)"
      by (metis prod_cases3)
    have "left X path (attempts opts sha t path ios d n) + n \<le> left X path d" using Suc by simp
    moreover from this have "oc_state oc \<noteq> PfComplete" using no a by (metis add_leD2 fst_conv snd_conv)
    ultimately show ?case using attempt_closer [OF conjunct1 [OF io] conjunct2 [OF io] X sha a] a by auto
  qed simp
  from this [of "Suc (left X path d)"] show False by simp
qed

section \<open>Decisions\<close>

definition job_ok :: "prefetch_opts \<Rightarrow> fetch_job \<Rightarrow> bool" where
  "job_ok opts j \<longleftrightarrow> po_Root opts \<and> \<not> po_Veto opts \<and> is_abs (po_Executable opts) \<and> validateTarget (fj_target j) = None \<and>
     fj_path j = path_join (path_dir (po_Executable opts)) (PartialPrefix @ servedDigest (fj_target j))"

text \<open>What a decision keeps of the prefetcher, and what a run it starts is.\<close>

definition kick_keeps :: "prefetch_opts \<Rightarrow> prefetcher \<Rightarrow> prefetcher \<Rightarrow> fetch_job option \<Rightarrow> bool" where
  "kick_keeps opts p p' jo \<longleftrightarrow>
     pf_held p' = pf_held p \<and> pf_cfg p' = pf_cfg p \<and> (pf_held p > 0 \<longrightarrow> p' = p \<and> jo = None) \<and>
     (case jo of
        None \<Rightarrow> pf_run p' = pf_run p \<and> pf_next p' = pf_next p
      | Some j \<Rightarrow> pf_run p = None \<and> pf_run p' = Some (fj_run j) \<and> fr_id (fj_run j) = pf_next p \<and>
          pf_next p' = Suc (pf_next p) \<and> job_ok opts j)"

lemma ScriptDir_own: "ScriptDir installPath exe = Some dir \<Longrightarrow> dir = path_dir exe"
  by (auto simp: ScriptDir_def Let_def split: if_splits)

lemma target_refusal_ok:
  "target_refusal opts dirErr t = Inr dir \<Longrightarrow> dirErr = None \<and> validateTarget t = None \<and> dir = path_dir (po_Executable opts)"
  by (auto simp: target_refusal_def ScriptDir_own split: if_splits option.splits)

lemma dir_refusal_abs: "dir_refusal opts io = None \<Longrightarrow> is_abs (po_Executable opts)"
  by (auto simp: dir_refusal_def own_dir_def split: if_splits)

lemma kick_target_ok:
  assumes "kick_target opts io key dirErr t d p = (p', jo)"
  shows "pf_held p' = pf_held p" "pf_cfg p' = pf_cfg p"
    "jo = None \<Longrightarrow> pf_run p' = pf_run p \<and> pf_next p' = pf_next p"
    "jo = Some j \<Longrightarrow> pf_run p' = Some (fj_run j) \<and> fr_id (fj_run j) = pf_next p \<and> pf_next p' = Suc (pf_next p) \<and> dirErr = None \<and>
      validateTarget (fj_target j) = None \<and> fj_path j = path_join (path_dir (po_Executable opts)) (PartialPrefix @ servedDigest (fj_target j))"
  using assms target_refusal_ok [of opts dirErr t]
  by (auto simp: kick_target_def setLocked_def start_run_def Let_def split: sum.splits if_splits)

lemma switch_key_simps [simp]:
  "pf_held (switch_key key p) = pf_held p" "pf_cfg (switch_key key p) = pf_cfg p" "pf_next (switch_key key p) = pf_next p"
  "pf_run (switch_key key p) = pf_run p" "pf_known (switch_key key p) = pf_known p"
  by (auto simp: switch_key_def)

lemma kickLocked_keeps:
  assumes "kickLocked opts io d p = (d', p', jo)"
  shows "kick_keeps opts p p' jo" and "d' \<noteq> d \<or> jo \<noteq> None \<Longrightarrow> dir_refusal opts io = None"
    and "d' = d \<or> (\<not> po_Veto opts \<and> po_Root opts \<and> pf_held p = 0 \<and> d' = pruneLocked io (pf_cfg p) (own_dir opts) d)"
proof -
  define q where "q = switch_key (keyLocked p) p"
  have q: "pf_held q = pf_held p" "pf_cfg q = pf_cfg p" "pf_next q = pf_next p" "pf_run q = pf_run p" "pf_known q = pf_known p"
    by (simp_all add: q_def)
  define d1 where "d1 = (if dir_refusal opts io = None then pruneLocked io (pf_cfg p) (own_dir opts) d else d)"
  consider (same) "d' = d" "jo = None" "pf_held p' = pf_held p" "pf_cfg p' = pf_cfg p" "pf_held p > 0 \<longrightarrow> p' = p"
      "pf_run p' = pf_run p" "pf_next p' = pf_next p"
    | (prune) "pf_held p = 0" "pf_run p = None" "po_Root opts" "\<not> po_Veto opts" "d' = d1" "p' = q" "jo = None"
    | (go) t where "pf_held p = 0" "pf_run p = None" "po_Root opts" "\<not> po_Veto opts" "d' = d1"
        "kick_target opts io (keyLocked p) (dir_refusal opts io) t d1 q = (p', jo)"
  proof (cases "pf_closed p \<or> pf_held p > 0 \<or> pf_run p \<noteq> None \<or> \<not> pf_known q \<or> po_Veto opts \<or> \<not> po_Root opts")
    case True
    with assms have "d' = d \<and> jo = None \<and> pf_held p' = pf_held p \<and> pf_cfg p' = pf_cfg p \<and> (pf_held p > 0 \<longrightarrow> p' = p) \<and>
      pf_run p' = pf_run p \<and> pf_next p' = pf_next p"
      by (auto simp: kickLocked_def Let_def q kick_refuse_def setLocked_def cancel_run_def
          split: if_splits option.splits)
    then show thesis using that(1) by blast
  next
    case False
    have "kickLocked opts io d p = (case uc_Prefetch (pf_cfg p) of
        None \<Rightarrow> (d1, q, None) | Some t \<Rightarrow> (d1, kick_target opts io (keyLocked p) (dir_refusal opts io) t d1 q))"
      using False by (cases "uc_Prefetch (pf_cfg p)") (auto simp: kickLocked_def Let_def q_def d1_def)
    with assms False show thesis using that(2,3) by (cases "uc_Prefetch (pf_cfg p)") auto
  qed
  note cs = this
  from cs show "kick_keeps opts p p' jo"
  proof cases
    case go
    then show ?thesis
      using kick_target_ok [of opts io "keyLocked p" "dir_refusal opts io" t d1 q p' jo] dir_refusal_abs [of opts io] q
      by (cases jo) (auto simp: kick_keeps_def job_ok_def)
  qed (auto simp: kick_keeps_def q)
  from cs show "dir_refusal opts io = None" if "d' \<noteq> d \<or> jo \<noteq> None"
  proof cases
    case go
    then show ?thesis using that kick_target_ok(4) [OF go(6)] by (cases jo) (auto simp: d1_def split: if_splits)
  qed (use that in \<open>auto simp: d1_def split: if_splits\<close>)
  from cs show "d' = d \<or> (\<not> po_Veto opts \<and> po_Root opts \<and> pf_held p = 0 \<and> d' = pruneLocked io (pf_cfg p) (own_dir opts) d)"
    by cases (auto simp: d1_def split: if_splits)
qed

lemma kickLocked_held: "pf_held p > 0 \<Longrightarrow> kickLocked opts io d p = (d, p, None)"
  by (simp add: kickLocked_def)

section \<open>The hold\<close>

definition waits_ok :: "fetch_run option \<Rightarrow> nat option \<Rightarrow> bool" where
  "waits_ok run w \<longleftrightarrow> run = None \<or> map_option fr_id run = w"

definition run_ok :: "prefetch_opts \<Rightarrow> fetch_run option \<Rightarrow> fetch_job list \<Rightarrow> nat list \<Rightarrow> nat \<Rightarrow> bool" where
  "run_ok opts run jobs ended nxt \<longleftrightarrow> (case run of
     None \<Rightarrow> jobs = []
   | Some r \<Rightarrow> (\<exists>j. jobs = [j] \<and> fj_run j = r \<and> job_ok opts j) \<and> fr_id r \<notin> set ended \<and> fr_id r < nxt)"

lemma run_ok_simps [simp]:
  "run_ok opts None jobs ended nxt \<longleftrightarrow> jobs = []"
  "run_ok opts (Some r) jobs ended nxt \<longleftrightarrow> (\<exists>j. jobs = [j] \<and> fj_run j = r \<and> job_ok opts j) \<and> fr_id r \<notin> set ended \<and> fr_id r < nxt"
  by (auto simp: run_ok_def)

definition pm_inv :: "prefetch_opts \<Rightarrow> prefetch_machine \<Rightarrow> bool" where
  "pm_inv opts m \<longleftrightarrow>
     run_ok opts (pf_run (pm_pf m)) (pm_jobs m) (pm_done m) (pf_next (pm_pf m)) \<and>
     (\<forall>i \<in> set (pm_done m). i < pf_next (pm_pf m)) \<and>
     pf_held (pm_pf m) = length (pm_waiting m) + pm_holding m \<and>
     (\<forall>w \<in> set (pm_waiting m). waits_ok (pf_run (pm_pf m)) w) \<and>
     (pm_holding m > 0 \<longrightarrow> pf_run (pm_pf m) = None)"

lemma pm_inv_run: "pm_inv opts m \<Longrightarrow> pf_run (pm_pf m) = None \<longleftrightarrow> pm_jobs m = []"
  by (cases "pf_run (pm_pf m)") (auto simp: pm_inv_def)

lemma pm_inv_start: "pm_inv opts (pm_start d reqs)"
  by (simp add: pm_inv_def pm_start_def new_prefetcher_def)

lemma pm_inv_job: "pm_inv opts m \<Longrightarrow> j \<in> set (pm_jobs m) \<Longrightarrow>
  pm_jobs m = [j] \<and> pf_run (pm_pf m) = Some (fj_run j) \<and> job_ok opts j \<and> pm_holding m = 0"
  by (cases "pf_run (pm_pf m)") (auto simp: pm_inv_def)

text \<open>A decision while no run is there keeps the invariant.\<close>

lemma pm_inv_kicked:
  assumes i: "pm_inv opts m" and k: "kick_keeps opts (pm_pf m) p' jo"
  shows "pm_inv opts (pm_kicked (d', p', jo) m)"
proof (cases jo)
  case None
  with k have "pf_run p' = pf_run (pm_pf m)" "pf_next p' = pf_next (pm_pf m)" "pf_held p' = pf_held (pm_pf m)"
    by (auto simp: kick_keeps_def)
  with None i show ?thesis by (simp add: pm_inv_def pm_kicked_def waits_ok_def)
next
  case (Some j)
  with k have k': "pf_held (pm_pf m) = 0" "pf_run (pm_pf m) = None" "pf_run p' = Some (fj_run j)"
    "fr_id (fj_run j) = pf_next (pm_pf m)" "pf_next p' = Suc (pf_next (pm_pf m))" "job_ok opts j" "pf_held p' = 0"
    by (auto simp: kick_keeps_def)
  with Some i show ?thesis by (auto simp: pm_inv_def pm_kicked_def less_Suc_eq)
qed

lemma pm_inv_frame: "pm_inv opts m \<Longrightarrow> pm_inv opts (m\<lparr>pm_disk := d, pm_requests := r\<rparr>)"
  by (simp add: pm_inv_def)

lemma pm_inv_enter:
  assumes "pm_inv opts m" "hold_enter (pm_pf m) = (p, w)"
  shows "pm_inv opts (m\<lparr>pm_pf := p, pm_waiting := pm_waiting m @ [w]\<rparr>)"
  using assms by (auto simp: pm_inv_def hold_enter_def Let_def cancel_run_def waits_ok_def split: option.splits)

lemma pm_inv_end:
  assumes i: "pm_inv opts m" and j: "pm_jobs m = js @ j # js'"
  shows "pm_inv opts (pm_kicked (fetch_end opts io j oc (pm_disk m) (pm_pf m))
      (m\<lparr>pm_jobs := js @ js', pm_done := fr_id (fj_run j) # pm_done m\<rparr>))"
proof -
  have J: "pm_jobs m = [j]" "pf_run (pm_pf m) = Some (fj_run j)" "pm_holding m = 0"
    using pm_inv_job [OF i, of j] j by auto
  with j have e: "js @ js' = []" by (cases js) auto
  define p where "p = (pm_pf m)\<lparr>pf_run := None\<rparr>"
  define q where "q = (if pf_key p = fr_key (fj_run j) then fetch_record io (pm_disk m) j oc p else p)"
  have q: "pf_run q = None" "pf_next q = pf_next (pm_pf m)" "pf_held q = pf_held (pm_pf m)"
    by (auto simp: q_def p_def fetch_record_def setLocked_def)
  define m1 where "m1 = m\<lparr>pm_pf := q, pm_jobs := [], pm_done := fr_id (fj_run j) # pm_done m\<rparr>"
  have "pm_inv opts m1"
    using i J q by (auto simp: pm_inv_def m1_def waits_ok_def split: option.splits)
  moreover obtain d' p' jo where k: "kickLocked opts io (pm_disk m) q = (d', p', jo)" by (metis prod_cases3)
  ultimately have "pm_inv opts (pm_kicked (d', p', jo) m1)"
    using pm_inv_kicked kickLocked_keeps(1) [OF k] by (simp add: m1_def)
  moreover have "fetch_end opts io j oc (pm_disk m) (pm_pf m) = (d', p', jo)"
    using k J unfolding fetch_end_def Let_def p_def q_def by (auto split: if_splits)
  ultimately show ?thesis using e by (simp add: pm_kicked_def m1_def)
qed

lemma pm_inv_step: "pm_step opts sha ev m m' \<Longrightarrow> pm_inv opts m \<Longrightarrow> pm_inv opts m'"
proof (induction rule: pm_step.induct)
  case (pm_update m io cfg)
  define q where "q = (case cfg of None \<Rightarrow> (pm_pf m)\<lparr>pf_known := False, pf_cfg := \<lparr>uc_Prefetch = None, uc_Keep = []\<rparr>\<rparr>
     | Some c \<Rightarrow> (pm_pf m)\<lparr>pf_known := True, pf_cfg := c\<rparr>)"
  have q: "pf_run q = pf_run (pm_pf m)" "pf_next q = pf_next (pm_pf m)" "pf_held q = pf_held (pm_pf m)"
    by (auto simp: q_def split: option.splits)
  obtain d' p' jo where k: "kickLocked opts io (pm_disk m) q = (d', p', jo)" by (metis prod_cases3)
  have "pm_inv opts (m\<lparr>pm_pf := q\<rparr>)" using pm_update q by (simp add: pm_inv_def waits_ok_def)
  from pm_inv_kicked [OF this, of p' jo d'] have "pm_inv opts (pm_kicked (d', p', jo) (m\<lparr>pm_pf := q\<rparr>))"
    using kickLocked_keeps(1) [OF k] by simp
  then show ?case using k by (simp add: Update_def q_def pm_kicked_def)
next
  case (pm_hold m p w)
  then show ?case by (rule pm_inv_enter [rotated])
next
  case (pm_granted m ws w ws')
  then show ?case by (auto simp: pm_inv_def waits_ok_def split: option.splits)
next
  case (pm_release m)
  then show ?case by (auto simp: pm_inv_def Release_def waits_ok_def split: option.splits)
next
  case (pm_close m p w)
  have "pm_inv opts (m\<lparr>pm_pf := (pm_pf m)\<lparr>pf_closed := True\<rparr>\<rparr>)" using pm_close by (simp add: pm_inv_def waits_ok_def)
  from pm_inv_enter [OF this, of p w] pm_close show ?case by (simp add: close_enter_def)
next
  case (pm_attempt m js j js' io d oc req)
  have "pm_jobs m = [j]" "pf_run (pm_pf m) = Some (fj_run j)" "job_ok opts j"
    using pm_inv_job [OF pm_attempt(4), of j] pm_attempt(1) by auto
  moreover from this have "js = []" "js' = []" using pm_attempt(1) by (cases js; simp)+
  ultimately show ?case using pm_attempt(4) by (auto simp: pm_inv_def job_ok_def)
next
  case (pm_end m js j js' oc io)
  then show ?case using pm_inv_end by blast
next
  case (pm_progress j m n)
  then show ?case by (simp add: pm_inv_def waits_ok_def)
next
  case (pm_restart m)
  then show ?case by (simp add: pm_inv_start)
next
  case (pm_others m d)
  then show ?case by (simp add: pm_inv_def)
qed

lemma pm_reach_inv: "pm_reach opts sha m \<Longrightarrow> pm_inv opts m"
  by (induction rule: pm_reach.induct) (auto simp: pm_inv_start intro: pm_inv_step)

section \<open>Where it writes\<close>

lemma rooted_path_inject:
  assumes "list_all plain_elem es" "list_all plain_elem fs" "rooted_path es = rooted_path fs"
  shows "es = fs"
proof -
  have "(if es = [] then [[]] else es) = (if fs = [] then [[]] else fs)"
    using split_rooted [OF assms(1), of "[]"] split_rooted [OF assms(2), of "[]"] assms(3) by simp
  moreover have "es \<noteq> [[]]" "fs \<noteq> [[]]" using assms by (auto simp: plain_elem_def)
  ultimately show ?thesis by (auto split: if_splits)
qed

lemma rooted_path_length: "list_all plain_elem es \<Longrightarrow> length es < length (rooted_path es)"
proof (induction es rule: rev_induct)
  case (snoc e es)
  then have "e \<noteq> []" "length es < length (rooted_path es)" by (auto simp: plain_elem_def)
  then show ?case by (cases e) (auto simp: rooted_path_snoc)
qed (simp add: rooted_path_def)

text \<open>A directory that no user but root and the agent's own can change; \<open>leaf\<close> for the directory itself.\<close>

definition dir_safe :: "int \<Rightarrow> bool \<Rightarrow> string + dir_stat \<Rightarrow> bool" where
  "dir_safe euid leaf st \<longleftrightarrow> (\<exists>fi uid. st = Inr fi \<and> \<not> dt_symlink fi \<and> dt_isDir fi \<and> dt_uid fi = Some uid \<and> (uid = 0 \<or> uid = euid) \<and>
     (dt_perm fi AND 18 = 0 \<or> \<not> leaf \<and> uid = 0 \<and> dt_sticky fi))"

lemma dir_check_safe: "dir_check euid leaf p st = None \<longleftrightarrow> dir_safe euid (p = leaf) st"
  by (auto simp: dir_check_def dir_safe_def Let_def split: sum.splits option.splits)

lemma secure_up_all:
  assumes "list_all plain_elem es" "length es < n"
  shows "secure_up n euid ls leaf (rooted_path es) = None \<longleftrightarrow>
    (\<forall>k \<le> length es. dir_check euid leaf (rooted_path (take k es)) (ls (rooted_path (take k es))) = None)"
  using assms
proof (induction n arbitrary: es)
  case (Suc n)
  show ?case
  proof (cases es rule: rev_cases)
    case Nil
    then show ?thesis by (simp add: path_dir_root split: option.splits)
  next
    case (snoc fs e)
    with Suc.prems have p: "list_all plain_elem fs" "plain_elem e" "length fs < n" by auto
    have neq: "rooted_path (fs @ [e]) \<noteq> rooted_path fs" using rooted_path_inject [of "fs @ [e]" fs] p by auto
    show ?thesis
      using Suc.IH [OF p(1,3)] path_dir_rooted [OF p(1,2)] neq snoc by (auto simp: le_Suc_eq split: option.splits)
  qed
qed simp

lemma secureDir_safe:
  assumes "is_abs dir" "clean_path dir = rooted_path es" "list_all plain_elem es" "secureDir euid ls dir = None" "k \<le> length es"
  shows "dir_safe euid (k = length es) (ls (rooted_path (take k es)))"
proof -
  have "list_all plain_elem (take k es)" using assms(3) by (auto simp: list_all_iff dest: in_set_takeD)
  from rooted_path_inject [OF this assms(3)] have "rooted_path (take k es) = rooted_path es \<longleftrightarrow> take k es = es" by auto
  moreover have "take k es = es \<longleftrightarrow> k = length es" using assms(5) by (auto simp: take_all_iff)
  ultimately have "rooted_path (take k es) = rooted_path es \<longleftrightarrow> k = length es" by simp
  then show ?thesis
    using secure_up_all [OF assms(3) rooted_path_length [OF assms(3)], of euid ls "rooted_path es"] assms
    by (auto simp: secureDir_def dir_check_safe)
qed

lemma dir_entries_name: "(name, isDir) \<in> set (dir_entries dir d) \<Longrightarrow> name \<noteq> [] \<and> CHR ''/'' \<notin> set name"
  by (auto simp: dir_entries_def split: option.splits if_splits)

lemma prune_entries_only:
  assumes "map_of (prune_entries io keep dir es d) q \<noteq> map_of d q"
  shows "map_of (prune_entries io keep dir es d) q = None \<and>
    (\<exists>digest isDir. (PartialPrefix @ digest, isDir) \<in> set es \<and> q = path_join dir (PartialPrefix @ digest) \<and> digest \<notin> set keep)"
  using assms
proof (induction io keep dir es d rule: prune_entries.induct)
  case (2 io keep dir name isDir es d)
  define d1 where "d1 = (case cut_prefix name PartialPrefix of None \<Rightarrow> d
     | Some digest \<Rightarrow> (if digest \<in> set keep \<or> isDir then d
         else if ki_removed io (path_join dir name) then remove_name (path_join dir name) d else d))"
  have r: "prune_entries io keep dir ((name, isDir) # es) d = prune_entries io keep dir es d1" by (simp add: d1_def Let_def)
  note IH = "2.IH" [OF refl, folded d1_def]
  show ?case
  proof (cases "map_of (prune_entries io keep dir es d1) q = map_of d1 q")
    case True
    with "2.prems" r have "map_of d1 q \<noteq> map_of d q" by simp
    then show ?thesis using True r cut_prefix_Some [of name PartialPrefix]
      by (auto simp: d1_def split: option.splits if_splits)
  next
    case False
    then show ?thesis using IH r by fastforce
  qed
qed simp

lemma prune_name: "CHR ''/'' \<notin> set digest \<Longrightarrow> plain_elem (PartialPrefix @ digest)"
  by (simp add: plain_elem_def PartialPrefix_def)

lemma digest_plain: "digestRe s \<Longrightarrow> CHR ''/'' \<notin> set s"
  by (auto simp: digestRe_def list_all_iff is_digit_def less_eq_char_def)

lemma validate_ok:
  assumes "validateTarget t = None"
  shows "digestRe (servedDigest t)" "0 < pt_Size t" "pt_Size t \<le> maxFileBytes"
  using assms by (auto simp: validateTarget_def servedDigest_def split: if_splits)

lemma job_path:
  assumes "job_ok opts j" "path_dir (po_Executable opts) = rooted_path es" "list_all plain_elem es"
  shows "fj_path j = rooted_path (es @ [PartialPrefix @ servedDigest (fj_target j)])"
    "CHR ''/'' \<notin> set (servedDigest (fj_target j))"
  using assms validate_ok(1) [of "fj_target j"] digest_plain path_join_rooted prune_name by (auto simp: job_ok_def)

text \<open>The files of the agent's directory that a step may touch.\<close>

definition own_file :: "prefetch_opts \<Rightarrow> string list \<Rightarrow> bool" where
  "own_file opts es \<longleftrightarrow> po_Root opts \<and> \<not> po_Veto opts \<and> list_all plain_elem es \<and> path_dir (po_Executable opts) = rooted_path es"

lemma kick_touches:
  assumes k: "kickLocked opts io d p = (d', p', jo)" and c: "map_of d' q \<noteq> map_of d q"
  shows "map_of d' q = None \<and> pf_held p = 0 \<and> (\<exists>es digest. own_file opts es \<and> CHR ''/'' \<notin> set digest \<and> digest \<notin> set (keep_digests (pf_cfg p')) \<and>
     q = rooted_path (es @ [PartialPrefix @ digest]))"
proof -
  have "d' \<noteq> d" using c by auto
  then have p: "dir_refusal opts io = None" "\<not> po_Veto opts" "po_Root opts" "pf_held p = 0" "d' = pruneLocked io (pf_cfg p) (own_dir opts) d"
    and cfg: "pf_cfg p' = pf_cfg p"
    using kickLocked_keeps [OF k] by (auto simp: kick_keeps_def)
  have a: "is_abs (po_Executable opts)" using dir_refusal_abs [OF p(1)] .
  obtain es where es: "list_all plain_elem es" "path_dir (po_Executable opts) = rooted_path es" using path_dir_abs [OF a] by blast
  have pr: "map_of (prune_entries io (keep_digests (pf_cfg p)) (rooted_path es) (dir_entries (rooted_path es) d) d) q \<noteq> map_of d q"
    "map_of d' q = map_of (prune_entries io (keep_digests (pf_cfg p)) (rooted_path es) (dir_entries (rooted_path es) d) d) q"
    using c p(5) a es by (auto simp: pruneLocked_def own_dir_def split: if_splits)
  obtain digest isDir where g: "map_of d' q = None" "(PartialPrefix @ digest, isDir) \<in> set (dir_entries (rooted_path es) d)"
    "q = path_join (rooted_path es) (PartialPrefix @ digest)" "digest \<notin> set (keep_digests (pf_cfg p))"
    using prune_entries_only [OF pr(1)] pr(2) by auto
  have "CHR ''/'' \<notin> set digest" using dir_entries_name [OF g(2)] by simp
  then show ?thesis using g p es cfg path_join_rooted [OF es(1) prune_name] by (auto simp: own_file_def)
qed

section \<open>Pace\<close>

lemma kick_waits:
  assumes k: "kickLocked opts io d p = (d', p', jo)" and "keyLocked p = pf_key p" "ki_now io < pf_retryAt p"
  shows "jo = None \<and> pf_retryAt p' = pf_retryAt p \<and> pf_key p' = pf_key p"
proof -
  have s: "switch_key (keyLocked p) p = p" using assms(2) by (simp add: switch_key_def)
  have t: "kick_target opts io key dirErr t e p = (p', jo) \<Longrightarrow> jo = None \<and> pf_retryAt p' = pf_retryAt p \<and> pf_key p' = pf_key p" for key dirErr t e
    using assms(3) by (auto simp: kick_target_def setLocked_def Let_def split: sum.splits if_splits)
  show ?thesis using k unfolding kickLocked_def Let_def s
    by (auto simp: kick_refuse_def setLocked_def cancel_run_def dest: t split: if_splits option.splits)
qed

lemma backoff_bounds: "firstBackoff \<le> backoff n \<and> backoff n \<le> maxBackoff"
proof -
  have "(1::int) \<le> 2 ^ n" by simp
  then have "firstBackoff \<le> firstBackoff * 2 ^ n" by (simp add: firstBackoff_def)
  then show ?thesis by (auto simp: backoff_def firstBackoff_def maxBackoff_def min_def)
qed

definition pause :: "outcome \<Rightarrow> prefetcher \<Rightarrow> duration" where
  "pause oc p = (if oc_gained oc \<ge> minProgress then progressRetry else backoff (pf_failures p))"

lemma pause_bounds: "10 * second \<le> pause oc p \<and> pause oc p \<le> 15 * minute"
  using backoff_bounds [of "pf_failures p"] by (auto simp: pause_def progressRetry_def firstBackoff_def maxBackoff_def)

lemma fetch_record_pause:
  assumes "oc_state oc \<noteq> PfComplete" "fr_id (fj_run j) \<notin> set (pf_cancelled p)"
  shows "pf_retryAt (fetch_record io d j oc p) = ki_now io + pause oc p"
    "keyLocked (fetch_record io d j oc p) = keyLocked p" "pf_key (fetch_record io d j oc p) = pf_key p"
  using assms by (auto simp: fetch_record_def setLocked_def pause_def keyLocked_def split: option.splits)

lemma keyLocked_run [simp]: "keyLocked (p\<lparr>pf_run := r\<rparr>) = keyLocked p"
  by (simp add: keyLocked_def split: option.split)

section \<open>Properties\<close>

text \<open>
  C8. A task that runs has the download to itself. In every life of the agent, with configurations, holds,
  closing, attempts that end in any way and restarts in any order: from the moment a hold is granted until it is
  released no run exists, and nothing the prefetcher does changes the disk.
\<close>

theorem prefetch_held_still:
  assumes "pm_reach opts sha m" "pm_holding m > 0" "pm_step opts sha ev m m'" "ev \<noteq> PmOthers"
  shows "pm_jobs m = [] \<and> pm_disk m' = pm_disk m"
proof -
  have i: "pm_inv opts m" using pm_reach_inv [OF assms(1)] .
  then have j: "pm_jobs m = []" "pf_held (pm_pf m) > 0" using assms(2) by (auto simp: pm_inv_def)
  from assms(3) have "pm_disk m' = pm_disk m"
  proof cases
    case (pm_update io cfg)
    have "pf_held (case cfg of None \<Rightarrow> (pm_pf m)\<lparr>pf_known := False, pf_cfg := \<lparr>uc_Prefetch = None, uc_Keep = []\<rparr>\<rparr>
      | Some c \<Rightarrow> (pm_pf m)\<lparr>pf_known := True, pf_cfg := c\<rparr>) > 0" using j(2) by (auto split: option.splits)
    from kickLocked_held [OF this] show ?thesis using pm_update by (simp add: Update_def pm_kicked_def)
  qed (use j assms(4) in \<open>auto simp: pm_start_def\<close>)
  with j(1) show ?thesis ..
qed


text \<open>
  Only into a directory nobody else can change. A decision removes a file or starts a download only when every
  directory from the root to that of the agent's binary is a plain directory of root or the agent's user that no
  one else may write, or, above the last, a sticky one of root.
\<close>

theorem prefetch_dir_secure:
  assumes "kickLocked opts io d p = (d', p', jo)" "d' \<noteq> d \<or> jo \<noteq> None"
  shows "\<exists>es. list_all plain_elem es \<and> path_dir (po_Executable opts) = rooted_path es \<and>
    (\<forall>k \<le> length es. dir_safe (ki_euid io) (k = length es) (ki_dirs io (rooted_path (take k es))))"
proof -
  have r: "dir_refusal opts io = None" using kickLocked_keeps(2) [OF assms] .
  obtain es where es: "list_all plain_elem es" "path_dir (po_Executable opts) = rooted_path es"
    using path_dir_abs dir_refusal_abs [OF r] by blast
  have "secureDir (ki_euid io) (ki_dirs io) (rooted_path es) = None"
    using r es dir_refusal_abs [OF r] by (auto simp: dir_refusal_def own_dir_def split: if_splits)
  then show ?thesis
    using es secureDir_safe [of "rooted_path es" es] clean_path_rooted [OF es(1)] by (auto simp: is_abs_def rooted_path_def)
qed

text \<open>
  Complete means the pinned file. An attempt for a file that passed the checks calls it complete only when a regular file of the
  agent's user with one name stands there, of the named size and with the named digest; and whatever fails, it
  leaves no regular file longer than the named size that it did not find.
\<close>

theorem prefetch_complete_pinned:
  assumes "validateTarget t = None" "attempt opts sha io t path d = (d', oc, req)"
  shows "(oc_state oc = PfComplete \<longrightarrow> (\<exists>nd. map_of d' path = Some nd \<and> nd_kind nd = RegularNode \<and> nd_own nd \<and>
      int (length (nd_data nd)) = pt_Size t \<and> sha (nd_data nd) = servedDigest t)) \<and>
    (\<forall>nd. map_of d' path = Some nd \<and> nd_kind nd = RegularNode \<and> int (length (nd_data nd)) > pt_Size t \<longrightarrow> map_of d path = Some nd)"
  using attempt_ok(2,3) [OF validate_ok(2) [OF assms(1)] assms(2)]
  by (auto simp: short_def open_at_def file_data_def node_size_def)

text \<open>
  C10. A download gets through. Whatever stands at the name of the download, if nothing fails on the node, the disk has
  room, and the server, which has the file, answers every attempt with at least one byte of what was asked for before it
  fails in any way, then one of the first attempts, at most one more than twice the file's bytes, completes it.
\<close>

theorem prefetch_gets_through:
  assumes "int (length X) = pt_Size t" "X \<noteq> []" "sha X = servedDigest t"
    and "\<And>n. good_io t (ios n) \<and> serves X t (length (base_data t path (attempts opts sha t path ios d n))) (ios n)"
  shows "\<exists>n \<le> 2 * length X. oc_state (fst (snd (attempt opts sha (ios n) t path (attempts opts sha t path ios d n)))) = PfComplete"
  using attempts_get_through [OF assms] left_bound [of X path d] order_trans by blast


section \<open>Witnesses\<close>

definition pfd_digest :: string where
  "pfd_digest = replicate 64 (CHR ''a'')"

definition pfd_sha :: "string \<Rightarrow> string" where
  "pfd_sha s = (if s = ''ab'' then pfd_digest else [])"

definition pfd_opts :: prefetch_opts where
  "pfd_opts = \<lparr>po_Server = ''https://s'', po_NodeID = ''n'', po_Token = ''t'', po_Executable = ''/opt/a'', po_AgentVersion = ''v1'',
     po_Veto = False, po_Root = True, po_CanRunUpdate = True, po_GOOS = ''linux'', po_GOARCH = ''amd64''\<rparr>"

definition pfd_target :: prefetch_target where
  "pfd_target = \<lparr>pt_ApprovalID = ''x'', pt_Version = ''v2'', pt_OS = ''linux'', pt_Arch = ''amd64'', pt_SHA256 = pfd_digest,
     pt_CompressedSHA256 = [], pt_Size = 2, pt_BinarySize = 2, pt_InstallPath = ''/opt/a''\<rparr>"

definition pfd_cfg :: update_config where
  "pfd_cfg = \<lparr>uc_Prefetch = Some pfd_target, uc_Keep = []\<rparr>"

definition pfd_dir :: "string \<Rightarrow> string + dir_stat" where
  "pfd_dir p = Inr \<lparr>dt_symlink = False, dt_isDir = True, dt_uid = Some 0, dt_perm = 493, dt_sticky = False\<rparr>"

definition pfd_kick :: kick_io where
  "pfd_kick = \<lparr>ki_euid = 0, ki_dirs = pfd_dir, ki_readDir = True, ki_removed = (\<lambda>_. True), ki_lstat = True, ki_now = 5\<rparr>"

definition pfd_path :: string where
  "pfd_path = ''/opt/.lattice-agent-download-'' @ pfd_digest"

definition pfd_stale :: string where
  "pfd_stale = ''/opt/.lattice-agent-download-old''"

definition pfd_disk :: disk where
  "pfd_disk = [(pfd_stale, new_file 1), (''/opt/a'', new_file 1)]"

definition pfd_io :: attempt_io where
  "pfd_io = \<lparr>ai_lstat = True, ai_free = Inr (2 ^ 40),
     ai_open = \<lparr>oo_open = None, oo_stat = True, oo_chmod = None, oo_remove = None, oo_left = (\<lambda>_. True), oo_create = None, oo_restat = True, oo_now = 6\<rparr>,
     ai_reset = None, ai_match = None, ai_discard = None, ai_request = None,
     ai_response = Inr \<lparr>rs_status = 200, rs_contentRange = [], rs_etag = pinned_etag pfd_target, rs_body = ''ab'', rs_end = None,
       rs_withLast = False, rs_fired = False\<rparr>,
     ai_restart = None, ai_seek = None, ai_write = None, ai_sync = None, ai_verify = None, ai_drop = True, ai_now = 7\<rparr>"

lemma pfd_valid: "validateTarget pfd_target = None"
  by code_simp

text \<open>A configuration removes the stale file and starts the download.\<close>

definition pfd_start :: prefetch_machine where
  "pfd_start = pm_start pfd_disk []"

definition pfd_fetching :: prefetch_machine where
  "pfd_fetching = pm_kicked (Update pfd_opts pfd_kick (Some pfd_cfg) (pm_disk pfd_start) (pm_pf pfd_start)) pfd_start"

lemma pfd_fetching_step: "pm_step pfd_opts pfd_sha PmUpdate pfd_start pfd_fetching"
  unfolding pfd_fetching_def by (rule pm_update)

lemma pfd_reach_start: "pm_reach pfd_opts pfd_sha pfd_start"
  unfolding pfd_start_def by (rule pm_init)

lemma pfd_removed: "map_of (pm_disk pfd_fetching) pfd_stale = None" "map_of (pm_disk pfd_start) pfd_stale = Some (new_file 1)"
  by code_simp+

lemma pfd_job: "map fj_path (pm_jobs pfd_fetching) = [pfd_path]"
  by code_simp

definition pfd_held :: prefetch_machine where
  "pfd_held = (let m = pfd_start\<lparr>pm_pf := (pm_pf pfd_start)\<lparr>pf_held := 1\<rparr>, pm_waiting := [None]\<rparr>
     in m\<lparr>pm_waiting := [], pm_holding := 1\<rparr>)"

lemma pfd_reach_held: "pm_reach pfd_opts pfd_sha pfd_held"
proof -
  let ?m = "pfd_start\<lparr>pm_pf := (pm_pf pfd_start)\<lparr>pf_held := 1\<rparr>, pm_waiting := [None]\<rparr>"
  have "hold_enter (pm_pf pfd_start) = ((pm_pf pfd_start)\<lparr>pf_held := 1\<rparr>, None)"
    by (simp add: hold_enter_def pfd_start_def pm_start_def new_prefetcher_def)
  from pm_hold [OF this, of pfd_opts pfd_sha] have "pm_step pfd_opts pfd_sha PmHold pfd_start ?m"
    by (simp add: pfd_start_def pm_start_def)
  moreover have "pm_step pfd_opts pfd_sha PmGranted ?m pfd_held"
    using pm_granted [of ?m "[]" None "[]" pfd_opts pfd_sha] by (simp add: pfd_held_def pfd_start_def pm_start_def)
  ultimately show ?thesis using pfd_reach_start pm_next by blast
qed

theorem prefetch_held_still_witness:
  "pm_holding pfd_held = 1 \<and>
   pm_disk (pm_kicked (Update pfd_opts pfd_kick (Some pfd_cfg) (pm_disk pfd_held) (pm_pf pfd_held)) pfd_held) = pfd_disk"
  using prefetch_held_still [OF pfd_reach_held _ pm_update [of _ _ pfd_held pfd_kick "Some pfd_cfg"]]
  by (simp add: pfd_held_def pfd_start_def pm_start_def)


lemma pfd_kicks: "fst (kickLocked pfd_opts pfd_kick pfd_disk (new_prefetcher\<lparr>pf_known := True, pf_cfg := pfd_cfg\<rparr>)) \<noteq> pfd_disk"
  by code_simp

theorem prefetch_dir_secure_witness:
  "\<exists>es. path_dir ''/opt/a'' = rooted_path es \<and> (\<forall>k \<le> length es. dir_safe 0 (k = length es) (pfd_dir (rooted_path (take k es))))"
proof -
  obtain d' p' jo where k: "kickLocked pfd_opts pfd_kick pfd_disk (new_prefetcher\<lparr>pf_known := True, pf_cfg := pfd_cfg\<rparr>) = (d', p', jo)"
    by (metis prod_cases3)
  from prefetch_dir_secure [OF k] pfd_kicks k show ?thesis by (auto simp: pfd_kick_def pfd_opts_def)
qed

definition pfd_got :: disk where
  "pfd_got = (pfd_path, \<lparr>nd_kind = RegularNode, nd_data = ''ab'', nd_mtime = 7, nd_own = True\<rparr>) # pfd_disk"

lemma pfd_attempt:
  "map_of (fst (attempt pfd_opts pfd_sha pfd_io pfd_target pfd_path pfd_disk)) pfd_path = map_of pfd_got pfd_path"
  "oc_state (fst (snd (attempt pfd_opts pfd_sha pfd_io pfd_target pfd_path pfd_disk))) = PfComplete"
  "attempt pfd_opts pfd_sha pfd_io pfd_target pfd_path pfd_got = (pfd_got, out_of PfComplete [] 2 0, None)"
  "fst (attempt pfd_opts pfd_sha pfd_io pfd_target pfd_path pfd_disk) = pfd_got"
  by code_simp+

theorem prefetch_complete_pinned_witness:
  "\<exists>nd. map_of (fst (attempt pfd_opts pfd_sha pfd_io pfd_target pfd_path pfd_disk)) pfd_path = Some nd \<and>
     length (nd_data nd) = 2 \<and> pfd_sha (nd_data nd) = pfd_digest"
proof -
  obtain d' oc req where a: "attempt pfd_opts pfd_sha pfd_io pfd_target pfd_path pfd_disk = (d', oc, req)" by (metis prod_cases3)
  from prefetch_complete_pinned [OF pfd_valid a] pfd_attempt(2) a show ?thesis
    by (auto simp: pfd_target_def servedDigest_def)
qed

lemma pfd_attempts: "attempts pfd_opts pfd_sha pfd_target pfd_path (\<lambda>_. pfd_io) pfd_disk n = (if n = 0 then pfd_disk else pfd_got)"
  by (induction n) (auto simp: pfd_attempt)

lemma pfd_io_good: "good_io pfd_target pfd_io \<and> serves ''ab'' pfd_target 0 pfd_io"
  by (simp add: good_io_def serves_def pfd_io_def pfd_target_def reserveBytes_def)

lemma pfd_base: "base_data pfd_target pfd_path pfd_disk = []" "base_data pfd_target pfd_path pfd_got = []"
  by code_simp+

theorem prefetch_gets_through_witness:
  "\<exists>n \<le> 4. oc_state (fst (snd (attempt pfd_opts pfd_sha pfd_io pfd_target pfd_path
     (attempts pfd_opts pfd_sha pfd_target pfd_path (\<lambda>_. pfd_io) pfd_disk n)))) = PfComplete"
proof -
  have "good_io pfd_target pfd_io \<and>
      serves ''ab'' pfd_target (length (base_data pfd_target pfd_path (attempts pfd_opts pfd_sha pfd_target pfd_path (\<lambda>_. pfd_io) pfd_disk n))) pfd_io" for n
    using pfd_io_good pfd_base by (simp add: pfd_attempts)
  moreover have "int (length ''ab'') = pt_Size pfd_target" "pfd_sha ''ab'' = servedDigest pfd_target"
    by (simp_all add: pfd_target_def servedDigest_def pfd_sha_def)
  ultimately show ?thesis using prefetch_gets_through [of "''ab''" pfd_target pfd_sha "\<lambda>_. pfd_io"] by simp
qed

definition pfd_failed :: outcome where
  "pfd_failed = out_of PfWaiting ''the server answered 500'' 0 0"

definition pfd_ended :: "disk \<times> prefetcher \<times> fetch_job option" where
  "pfd_ended = fetch_end pfd_opts pfd_kick (hd (pm_jobs pfd_fetching)) pfd_failed [] (pm_pf pfd_fetching)"


end
