(* ===== verification/Beacon_Client.thy ===== *)
theory Beacon_Client
  imports Go_Prelude Complex_Main
begin

text \<open>
  The client of the measurement beacon (\<open>src/internal/beacon/client.go\<close>): the keyring of a node and one
  run of a beacon check, which sends signed requests on a schedule over one connected socket and takes
  the replies.

  The wire format, the parser of endpoints and the numbers of the SDK are parameters (\<open>client_env\<close>). What
  the clock, the context and the socket answer in one turn of the loop is input (\<open>client_turn\<close>), and a run
  is a list of turns. Round trip times in milliseconds are exact where Go uses a float64.
\<close>

section \<open>Definitions\<close>

subsection \<open>The keyring\<close>

record path_key =
  pk_epoch :: "32 word"
  pk_key :: string

record keyring =
  kr_sourceID :: "32 word"
  kr_keys :: "(string \<times> path_key) list"

text \<open>The part of \<open>AgentBeaconConfig\<close> (SDK) that is the client's.\<close>

record key_entry =
  ke_TargetNode :: string
  ke_Epoch :: "32 word"
  ke_Key :: string

record beacon_config =
  cb_SourceID :: "32 word"
  cb_Keys :: "key_entry list"

definition clear_bytes :: "string \<Rightarrow> string" where
  "clear_bytes b = map (\<lambda>_. CHR 0x00) b"

definition put_key :: "string \<Rightarrow> path_key \<Rightarrow> (string \<times> path_key) list \<Rightarrow> (string \<times> path_key) list" where
  "put_key target pk ks = (target, pk) # filter (\<lambda>(t, _). t \<noteq> target) ks"

fun take_keys :: "nat \<Rightarrow> (string \<times> path_key) list \<Rightarrow> key_entry list \<Rightarrow> (string \<times> path_key) list" where
  "take_keys keyLen ks [] = ks"
| "take_keys keyLen ks (e # es) =
     (let target = trim_space (ke_TargetNode e)
      in if target = [] \<or> ke_Epoch e = 0 \<or> length (ke_Key e) \<noteq> keyLen then take_keys keyLen ks es
         else case map_of ks target of
           Some have' \<Rightarrow>
             (if pk_epoch have' \<ge> ke_Epoch e then take_keys keyLen ks es
              else take_keys keyLen (put_key target \<lparr>pk_epoch = ke_Epoch e, pk_key = ke_Key e\<rparr> ks) es)
         | None \<Rightarrow> take_keys keyLen (put_key target \<lparr>pk_epoch = ke_Epoch e, pk_key = ke_Key e\<rparr> ks) es)"

text \<open>\<open>Set\<close>: the new keyring, the configuration as it leaves it, and the replaced keys.\<close>

definition Keyring_Set ::
  "nat \<Rightarrow> beacon_config option \<Rightarrow> keyring \<Rightarrow> keyring \<times> beacon_config option \<times> path_key list" where
  "Keyring_Set keyLen cfg k =
     (let next' = (case cfg of None \<Rightarrow> [] | Some c \<Rightarrow> take_keys keyLen [] (cb_Keys c));
          source = (case cfg of None \<Rightarrow> 0 | Some c \<Rightarrow> cb_SourceID c);
          cfg' = map_option (\<lambda>c. c\<lparr>cb_Keys := map (\<lambda>e. e\<lparr>ke_Key := clear_bytes (ke_Key e)\<rparr>) (cb_Keys c)\<rparr>) cfg;
          old = map (\<lambda>(_, pk). pk\<lparr>pk_key := clear_bytes (pk_key pk)\<rparr>) (kr_keys k)
      in (\<lparr>kr_sourceID = source, kr_keys = next'\<rparr>, cfg', old))"

definition lookup :: "string \<Rightarrow> keyring \<Rightarrow> ((32 word) \<times> path_key) option" where
  "lookup target k = (case map_of (kr_keys k) target of
     None \<Rightarrow> None
   | Some pk \<Rightarrow> (if kr_sourceID k = 0 then None else Some (kr_sourceID k, pk)))"

definition keyring_text :: "keyring \<Rightarrow> string" where
  "keyring_text k =
     ''beacon keyring: source '' @ show_nat (unat (kr_sourceID k)) @ '', '' @ show_nat (length (kr_keys k)) @ '' targets''"

subsection \<open>A check and its result\<close>

text \<open>\<open>Monitor\<close> and \<open>MonitorResult\<close> of the SDK, as far as the client uses them.\<close>

record monitor =
  mo_ID :: string
  mo_Target :: string
  mo_TargetNode :: string
  mo_TimeoutSec :: int

datatype path_reason =
    NoReason
  | DestinationRefused
  | BeaconNoKey
  | BeaconNotListening
  | BeaconStale
  | BeaconUnknownEpoch
  | BeaconRateLimited

record beacon_result =
  mr_MonitorID :: string
  mr_At :: gotime
  mr_Success :: bool
  mr_LatencyMs :: rat
  mr_Sent :: int
  mr_Lost :: int
  mr_RTTsMs :: "rat list"
  mr_Reason :: path_reason
  mr_Error :: string

datatype wire_status = StatusOK | StatusStale | StatusUnknownEpoch | StatusOther nat

record wire_request =
  wq_Epoch :: "32 word"
  wq_SourceID :: "32 word"
  wq_Seq :: "32 word"
  wq_SentUnixNano :: gotime
  wq_Nonce :: string

record wire_reply =
  wp_Nonce :: string
  wp_Seq :: "32 word"
  wp_Status :: wire_status

record 'e client_env =
  ce_KeyLen :: nat
  ce_MonitorPackets :: "monitor \<Rightarrow> int"
  ce_PacketsMax :: int
  ce_SpacingMs :: int
  ce_ParseEndpoint :: "string \<Rightarrow> string + 'e"
  ce_EncodeRequest :: "string \<Rightarrow> wire_request \<Rightarrow> string + string"
  ce_ParseReply :: "string \<Rightarrow> string \<Rightarrow> wire_reply option"

definition defaultTimeout :: duration where "defaultTimeout = 5 * second"

definition monitorTimeout :: "monitor \<Rightarrow> duration" where
  "monitorTimeout m = (if mo_TimeoutSec m \<le> 0 then defaultTimeout else wrap64 (mo_TimeoutSec m * second))"

definition packets :: "'e client_env \<Rightarrow> monitor \<Rightarrow> int" where
  "packets env m = min (max (ce_MonitorPackets env m) 1) (ce_PacketsMax env)"

definition spacing :: "'e client_env \<Rightarrow> duration" where
  "spacing env = ce_SpacingMs env * millisecond"

definition RunBudget :: "'e client_env \<Rightarrow> monitor \<Rightarrow> duration" where
  "RunBudget env m = wrap64 ((packets env m - 1) * spacing env + monitorTimeout m)"

record bc_request =
  br_seq :: "32 word"
  br_nonce :: string
  br_sentAt :: gotime
  br_sent :: bool
  br_answered :: bool
  br_ok :: bool
  br_rtt :: duration

record run_outcome =
  ro_refusals :: nat
  ro_status :: "wire_status option"
  ro_err :: "string option"

subsection \<open>One run\<close>

text \<open>The loop's variables; \<open>cr_wire\<close> are the datagrams handed to the socket.\<close>

record client_run =
  cr_reqs :: "bc_request list"
  cr_out :: run_outcome
  cr_planned :: nat
  cr_final :: gotime
  cr_next :: nat
  cr_sent :: nat
  cr_answered :: nat
  cr_readErrs :: nat
  cr_wire :: "string list"

record run_cfg =
  rc_start :: gotime
  rc_timeout :: duration
  rc_sourceID :: "32 word"
  rc_key :: path_key

datatype write_answer = WriteOk | WriteRefused | WriteError string
datatype read_answer = ReadData string | ReadDeadline | ReadRefused | ReadError string bool

text \<open>
  One turn: the context's error at its head, the clock, the clock before the write, the answers of the
  socket, the clock after the read, and whether the context has ended by then. A read error says whether
  the socket is closed.
\<close>

record client_turn =
  ct_ctx :: "string option"
  ct_now :: gotime
  ct_sentAt :: gotime
  ct_write :: write_answer
  ct_deadline :: "string option"
  ct_read :: read_answer
  ct_recvAt :: gotime
  ct_ended :: bool

definition reply_index :: "wire_reply \<Rightarrow> bc_request list \<Rightarrow> nat option" where
  "reply_index rep reqs =
     (case filter (\<lambda>i. br_sent (reqs ! i) \<and> \<not> br_answered (reqs ! i) \<and> br_nonce (reqs ! i) = wp_Nonce rep \<and>
        br_seq (reqs ! i) = wp_Seq rep) [0..<length reqs] of [] \<Rightarrow> None | i # _ \<Rightarrow> Some i)"

definition matchReply ::
  "'e client_env \<Rightarrow> run_cfg \<Rightarrow> string \<Rightarrow> gotime \<Rightarrow> client_run \<Rightarrow> client_run \<times> bool" where
  "matchReply env rc b recvAt s =
     (case ce_ParseReply env b (pk_key (rc_key rc)) of
        None \<Rightarrow> (s, False)
      | Some rep \<Rightarrow>
          (case reply_index rep (cr_reqs s) of
             None \<Rightarrow> (s, False)
           | Some i \<Rightarrow>
               (let r = cr_reqs s ! i;
                    rtt = time_sub recvAt (br_sentAt r)
                in if rtt > rc_timeout rc then (s, False)
                   else if wp_Status rep = StatusOK
                   then (s\<lparr>cr_reqs := (cr_reqs s)[i := r\<lparr>br_answered := True, br_ok := True, br_rtt := rtt\<rparr>]\<rparr>, True)
                   else (s\<lparr>cr_reqs := (cr_reqs s)[i := r\<lparr>br_answered := True\<rparr>],
                           cr_out := (cr_out s)\<lparr>ro_status := Some (wp_Status rep)\<rparr>\<rparr>, True))))"

definition count_refusal :: "client_run \<Rightarrow> client_run" where
  "count_refusal s = s\<lparr>cr_out := (cr_out s)\<lparr>ro_refusals := Suc (ro_refusals (cr_out s))\<rparr>\<rparr>"

definition run_error :: "string \<Rightarrow> client_run \<Rightarrow> client_run" where
  "run_error e s = s\<lparr>cr_out := (cr_out s)\<lparr>ro_err := Some e\<rparr>\<rparr>"

definition wire_of :: "run_cfg \<Rightarrow> gotime \<Rightarrow> bc_request \<Rightarrow> wire_request" where
  "wire_of rc now r =
     \<lparr>wq_Epoch = pk_epoch (rc_key rc), wq_SourceID = rc_sourceID rc, wq_Seq = br_seq r, wq_SentUnixNano = now, wq_Nonce = br_nonce r\<rparr>"

definition send_turn :: "'e client_env \<Rightarrow> run_cfg \<Rightarrow> client_turn \<Rightarrow> client_run \<Rightarrow> client_run" where
  "send_turn env rc t s =
     (let i = cr_next s; r = cr_reqs s ! i
      in case ce_EncodeRequest env (pk_key (rc_key rc)) (wire_of rc (ct_now t) r) of
           Inl e \<Rightarrow> run_error (''send: '' @ e) s\<lparr>cr_planned := i\<rparr>
         | Inr pkt \<Rightarrow>
             (let r = r\<lparr>br_sentAt := ct_sentAt t\<rparr>;
                  s = s\<lparr>cr_reqs := (cr_reqs s)[i := r], cr_wire := cr_wire s @ [pkt]\<rparr>
              in case ct_write t of
                   WriteRefused \<Rightarrow> (count_refusal s)\<lparr>cr_next := Suc i\<rparr>
                 | WriteError e \<Rightarrow> (run_error (''send: '' @ e) s)\<lparr>cr_planned := i\<rparr>
                 | WriteOk \<Rightarrow>
                     s\<lparr>cr_reqs := (cr_reqs s)[i := r\<lparr>br_sent := True\<rparr>], cr_sent := Suc (cr_sent s),
                       cr_final := ct_sentAt t + rc_timeout rc, cr_next := Suc i\<rparr>))"

definition read_deadline :: "'e client_env \<Rightarrow> run_cfg \<Rightarrow> client_run \<Rightarrow> gotime" where
  "read_deadline env rc s =
     (if cr_next s < cr_planned s then rc_start rc + int (cr_next s) * spacing env else cr_final s)"

text \<open>The result of a turn: the state, and whether the run returned.\<close>

definition read_turn :: "'e client_env \<Rightarrow> run_cfg \<Rightarrow> client_turn \<Rightarrow> client_run \<Rightarrow> client_run \<times> bool" where
  "read_turn env rc t s =
     (case ct_deadline t of
        Some e \<Rightarrow> (run_error (''read: '' @ e) s, True)
      | None \<Rightarrow>
          (case ct_read t of
             ReadDeadline \<Rightarrow> (s\<lparr>cr_readErrs := 0\<rparr>, False)
           | ReadRefused \<Rightarrow> (count_refusal s, False)
           | ReadError e isClosed \<Rightarrow>
               (let s = s\<lparr>cr_readErrs := Suc (cr_readErrs s)\<rparr>
                in if cr_readErrs s \<ge> 3 \<or> isClosed \<or> ct_ended t then (run_error (''read: '' @ e) s, True) else (s, False))
           | ReadData b \<Rightarrow>
               (case matchReply env rc b (ct_recvAt t) (s\<lparr>cr_readErrs := 0\<rparr>) of (s, matched) \<Rightarrow>
                  (if matched then s\<lparr>cr_answered := Suc (cr_answered s)\<rparr> else s, False))))"

definition sends :: "'e client_env \<Rightarrow> run_cfg \<Rightarrow> client_turn \<Rightarrow> client_run \<Rightarrow> bool" where
  "sends env rc t s \<longleftrightarrow> cr_next s < cr_planned s \<and> \<not> ct_now t < rc_start rc + int (cr_next s) * spacing env"

definition over :: "client_turn \<Rightarrow> client_run \<Rightarrow> bool" where
  "over t s \<longleftrightarrow> cr_next s = cr_planned s \<and> (cr_answered s = cr_sent s \<or> \<not> ct_now t < cr_final s)"

definition run_turn :: "'e client_env \<Rightarrow> run_cfg \<Rightarrow> client_turn \<Rightarrow> client_run \<Rightarrow> client_run \<times> bool" where
  "run_turn env rc t s =
     (case ct_ctx t of
        Some e \<Rightarrow> (run_error (''run cut short: '' @ e) s, True)
      | None \<Rightarrow>
          (if sends env rc t s then (send_turn env rc t s, False)
           else if over t s then (s, True)
           else read_turn env rc t s))"

fun run_loop :: "'e client_env \<Rightarrow> run_cfg \<Rightarrow> client_turn list \<Rightarrow> client_run \<Rightarrow> client_run \<times> bool" where
  "run_loop env rc [] s = (s, False)"
| "run_loop env rc (t # ts) s =
     (case run_turn env rc t s of (s', ended) \<Rightarrow> if ended then (s', True) else run_loop env rc ts s')"

subsection \<open>The result\<close>

definition median :: "rat list \<Rightarrow> rat" where
  "median values =
     (if values = [] then 0
      else
        let sorted' = sort values; mid = length sorted' div 2
        in if length sorted' mod 2 = 1 then sorted' ! mid else (sorted' ! (mid - 1) + sorted' ! mid) / 2)"

definition statusReason :: "wire_status \<Rightarrow> path_reason \<times> string" where
  "statusReason st = (case st of
     StatusStale \<Rightarrow>
       (BeaconStale, ''the target's beacon answered stale: this node's clock is more than a minute from the target's'')
   | StatusUnknownEpoch \<Rightarrow>
       (BeaconUnknownEpoch, ''the target's beacon answered unknown epoch: this node's key is behind a rotation'')
   | _ \<Rightarrow> (BeaconRateLimited, ''the target's beacon answered rate limited''))"

definition rtt_ms :: "bc_request \<Rightarrow> rat" where
  "rtt_ms r = of_int (go_div (br_rtt r) 1000) / 1000"

definition failure_of :: "run_outcome \<Rightarrow> int \<Rightarrow> path_reason \<times> string" where
  "failure_of out sent =
     (if ro_refusals out \<ge> 2 \<or> ro_refusals out = 1 \<and> sent \<le> 1
      then (BeaconNotListening, ''nothing listens at the beacon endpoint: the target refused the datagrams (port unreachable) after '' @
        itoa sent @ '' sent'')
      else case ro_status out of
        Some st \<Rightarrow> statusReason st
      | None \<Rightarrow>
          (case ro_err out of
             Some e \<Rightarrow> (NoReason, ''beacon request after '' @ itoa sent @ '' sent: '' @ e)
           | None \<Rightarrow> (NoReason, ''no reply to '' @ itoa sent @ '' beacon requests'')))"

definition fillResult :: "bc_request list \<Rightarrow> run_outcome \<Rightarrow> beacon_result \<Rightarrow> beacon_result" where
  "fillResult reqs out res =
     (let left = filter br_sent reqs;
          sent = int (length left);
          rtts = map rtt_ms (filter br_ok left);
          res = res\<lparr>mr_Sent := sent, mr_RTTsMs := rtts, mr_Lost := sent - int (length rtts)\<rparr>
      in if rtts \<noteq> [] then res\<lparr>mr_Success := True, mr_LatencyMs := median rtts\<rparr>
         else case failure_of out sent of (reason, text) \<Rightarrow> res\<lparr>mr_Reason := reason, mr_Error := text\<rparr>)"

definition new_request :: "nat \<Rightarrow> string \<Rightarrow> bc_request" where
  "new_request i nonce =
     \<lparr>br_seq = word_of_nat (i + 1), br_nonce = nonce, br_sentAt = 0, br_sent = False, br_answered = False, br_ok = False, br_rtt = 0\<rparr>"

definition new_run :: "bc_request list \<Rightarrow> client_run" where
  "new_run reqs =
     \<lparr>cr_reqs = reqs, cr_out = \<lparr>ro_refusals = 0, ro_status = None, ro_err = None\<rparr>, cr_planned = length reqs, cr_final = 0,
      cr_next = 0, cr_sent = 0, cr_answered = 0, cr_readErrs = 0, cr_wire = []\<rparr>"

text \<open>The answers to one check: the clock, the random nonces, the socket, the clock at the start of the run, and its turns.\<close>

record probe_io =
  pb_At :: gotime
  pb_nonces :: "string + (nat \<Rightarrow> string)"
  pb_dial :: "string option"
  pb_start :: gotime
  pb_turns :: "client_turn list"

definition refuse :: "path_reason \<Rightarrow> string \<Rightarrow> beacon_result \<Rightarrow> beacon_result" where
  "refuse reason e res = res\<lparr>mr_Reason := reason, mr_Error := e\<rparr>"

text \<open>\<open>Probe\<close>; \<open>None\<close> when the run has not returned after the given turns.\<close>

definition Probe :: "'e client_env \<Rightarrow> probe_io \<Rightarrow> keyring \<Rightarrow> monitor \<Rightarrow> beacon_result option" where
  "Probe env io k m =
     (let res = \<lparr>mr_MonitorID = mo_ID m, mr_At = pb_At io, mr_Success = False, mr_LatencyMs = 0, mr_Sent = 0, mr_Lost = 0,
                 mr_RTTsMs = [], mr_Reason = NoReason, mr_Error = []\<rparr>;
          target = trim_space (mo_TargetNode m)
      in if target = [] then Some (refuse DestinationRefused ''destination refused: a beacon check must name its target node'' res)
         else case ce_ParseEndpoint env (mo_Target m) of
           Inl e \<Rightarrow> Some (refuse DestinationRefused (''destination refused: '' @ e) res)
         | Inr _ \<Rightarrow>
             (case lookup target k of
                None \<Rightarrow> Some (refuse BeaconNoKey (''this agent holds no beacon key for target node '' @ target) res)
              | Some (sourceID, pk) \<Rightarrow>
                  (case pb_nonces io of
                     Inl e \<Rightarrow> Some (refuse NoReason (''beacon nonce: '' @ e) res)
                   | Inr nonces \<Rightarrow>
                       (case pb_dial io of
                          Some e \<Rightarrow> Some (refuse NoReason (''beacon socket: '' @ e) res)
                        | None \<Rightarrow>
                            (let reqs = map (\<lambda>i. new_request i (nonces i)) [0..<nat (packets env m)];
                                 rc = \<lparr>rc_start = pb_start io, rc_timeout = monitorTimeout m, rc_sourceID = sourceID, rc_key = pk\<rparr>
                             in case run_loop env rc (pb_turns io) (new_run reqs) of
                                  (s, ended) \<Rightarrow> if ended then Some (fillResult (cr_reqs s) (cr_out s) res) else None)))))"

section \<open>The keys of a configuration\<close>

definition key_valid :: "nat \<Rightarrow> string \<Rightarrow> key_entry \<Rightarrow> bool" where
  "key_valid keyLen target e \<longleftrightarrow> trim_space (ke_TargetNode e) = target \<and> target \<noteq> [] \<and> ke_Epoch e \<noteq> 0 \<and> length (ke_Key e) = keyLen"

definition key_of :: "key_entry \<Rightarrow> path_key" where
  "key_of e = \<lparr>pk_epoch = ke_Epoch e, pk_key = ke_Key e\<rparr>"

definition better :: "path_key option \<Rightarrow> key_entry \<Rightarrow> path_key option" where
  "better best e = (case best of None \<Rightarrow> Some (key_of e) | Some b \<Rightarrow> if pk_epoch b \<ge> ke_Epoch e then Some b else Some (key_of e))"

lemma map_of_put_key [simp]: "map_of (put_key target pk ks) t = (if t = target then Some pk else map_of ks t)"
  by (induction ks) (auto simp: put_key_def)

lemma take_keys_best: "map_of (take_keys keyLen ks es) target = foldl better (map_of ks target) (filter (key_valid keyLen target) es)"
proof (induction keyLen ks es rule: take_keys.induct)
  case (2 keyLen ks e es)
  then show ?case
    by (cases "map_of ks (trim_space (ke_TargetNode e))") (auto simp: key_valid_def better_def key_of_def Let_def)
qed simp

text \<open>The first of the entries with the newest epoch.\<close>

lemma best_newest: "vs \<noteq> [] \<Longrightarrow> \<exists>a e b. vs = a @ e # b \<and> foldl better None vs = Some (key_of e) \<and>
    (\<forall>x \<in> set a. ke_Epoch x < ke_Epoch e) \<and> (\<forall>x \<in> set b. ke_Epoch x \<le> ke_Epoch e)"
proof (induction vs rule: rev_induct)
  case (snoc v vs)
  show ?case
  proof (cases "vs = []")
    case True
    then show ?thesis by (intro exI [of _ "[]"] exI [of _ v]) (simp add: better_def)
  next
    case False
    with snoc.IH obtain a e b where e: "vs = a @ e # b" "foldl better None vs = Some (key_of e)"
      "\<forall>x \<in> set a. ke_Epoch x < ke_Epoch e" "\<forall>x \<in> set b. ke_Epoch x \<le> ke_Epoch e" by blast
    have f: "foldl better None (vs @ [v]) = Some (if ke_Epoch v \<le> ke_Epoch e then key_of e else key_of v)"
      using e(2) by (simp add: better_def key_of_def)
    show ?thesis
    proof (cases "ke_Epoch v \<le> ke_Epoch e")
      case True
      with e f have "vs @ [v] = a @ e # (b @ [v]) \<and> foldl better None (vs @ [v]) = Some (key_of e) \<and>
        (\<forall>x \<in> set a. ke_Epoch x < ke_Epoch e) \<and> (\<forall>x \<in> set (b @ [v]). ke_Epoch x \<le> ke_Epoch e)" by simp
      then show ?thesis by blast
    next
      case False
      with e f have "vs @ [v] = vs @ v # [] \<and> foldl better None (vs @ [v]) = Some (key_of v) \<and>
        (\<forall>x \<in> set vs. ke_Epoch x < ke_Epoch v) \<and> (\<forall>x \<in> set []. ke_Epoch x \<le> ke_Epoch v)" by auto
      then show ?thesis by blast
    qed
  qed
qed simp

section \<open>A run\<close>

text \<open>What a request's marks stand for, over the turns so far.\<close>

definition req_ok :: "'e client_env \<Rightarrow> run_cfg \<Rightarrow> client_turn list \<Rightarrow> bc_request \<Rightarrow> bool" where
  "req_ok env rc ts r \<longleftrightarrow>
     (br_answered r \<longrightarrow> br_sent r) \<and>
     (br_sent r \<longrightarrow> (\<exists>u \<in> set ts. ct_write u = WriteOk \<and> ct_sentAt u = br_sentAt r)) \<and>
     (br_ok r \<longrightarrow> br_answered r \<and> (\<exists>t \<in> set ts. \<exists>b rep. ct_read t = ReadData b \<and> ce_ParseReply env b (pk_key (rc_key rc)) = Some rep \<and>
        wp_Nonce rep = br_nonce r \<and> wp_Seq rep = br_seq r \<and> wp_Status rep = StatusOK \<and>
        br_rtt r = time_sub (ct_recvAt t) (br_sentAt r) \<and> br_rtt r \<le> rc_timeout rc))"

definition names_of :: "bc_request list \<Rightarrow> ((32 word) \<times> string) list" where
  "names_of reqs = map (\<lambda>r. (br_seq r, br_nonce r)) reqs"

definition run_inv :: "'e client_env \<Rightarrow> run_cfg \<Rightarrow> ((32 word) \<times> string) list \<Rightarrow> client_turn list \<Rightarrow> client_run \<Rightarrow> bool" where
  "run_inv env rc names ts s \<longleftrightarrow>
     names_of (cr_reqs s) = names \<and> list_all (req_ok env rc ts) (cr_reqs s) \<and>
     cr_next s \<le> cr_planned s \<and> cr_planned s \<le> length (cr_reqs s) \<and>
     (\<forall>i < length (cr_reqs s). cr_next s \<le> i \<longrightarrow> \<not> br_sent (cr_reqs s ! i))"

lemma req_ok_mono: "req_ok env rc ts r \<Longrightarrow> set ts \<subseteq> set ts' \<Longrightarrow> req_ok env rc ts' r"
  unfolding req_ok_def by blast

lemma run_inv_mono: "run_inv env rc names ts s \<Longrightarrow> set ts \<subseteq> set ts' \<Longrightarrow> run_inv env rc names ts' s"
  unfolding run_inv_def list_all_iff using req_ok_mono by blast

lemma run_inv_out:
  "run_inv env rc names ts s \<Longrightarrow> cr_reqs s' = cr_reqs s \<Longrightarrow> cr_next s' = cr_next s \<Longrightarrow> cr_planned s' = cr_planned s \<Longrightarrow>
    run_inv env rc names ts s'"
  by (simp add: run_inv_def)

text \<open>One request is changed, and stays what it was for the others.\<close>

lemma run_inv_change:
  assumes i: "run_inv env rc names ts s" "k < length (cr_reqs s)"
    and r: "br_seq r = br_seq (cr_reqs s ! k)" "br_nonce r = br_nonce (cr_reqs s ! k)" "req_ok env rc ts r"
    and n: "cr_next s \<le> n" "n \<le> cr_planned s" "br_sent r \<Longrightarrow> k < n"
  shows "run_inv env rc names ts (s\<lparr>cr_reqs := (cr_reqs s)[k := r], cr_next := n\<rparr>)"
proof -
  have "names_of ((cr_reqs s)[k := r]) = names_of (cr_reqs s)"
    using i(2) r(1,2) list_update_id [of "names_of (cr_reqs s)" k] by (simp add: names_of_def map_update)
  then show ?thesis using i r(3) n by (auto simp: run_inv_def list_all_length nth_list_update)
qed

lemma reply_index_some:
  assumes "reply_index rep reqs = Some i"
  shows "i < length reqs" "br_sent (reqs ! i)" "\<not> br_answered (reqs ! i)" "br_nonce (reqs ! i) = wp_Nonce rep" "br_seq (reqs ! i) = wp_Seq rep"
proof -
  let ?P = "\<lambda>i. br_sent (reqs ! i) \<and> \<not> br_answered (reqs ! i) \<and> br_nonce (reqs ! i) = wp_Nonce rep \<and> br_seq (reqs ! i) = wp_Seq rep"
  obtain js where "filter ?P [0..<length reqs] = i # js" using assms unfolding reply_index_def by (auto split: list.splits)
  then have "i \<in> set (filter ?P [0..<length reqs])" by (metis list.set_intros(1))
  then show "i < length reqs" "br_sent (reqs ! i)" "\<not> br_answered (reqs ! i)" "br_nonce (reqs ! i) = wp_Nonce rep" "br_seq (reqs ! i) = wp_Seq rep"
    by auto
qed

lemma run_inv_sent: "run_inv env rc names ts s \<Longrightarrow> i < length (cr_reqs s) \<Longrightarrow> br_sent (cr_reqs s ! i) \<Longrightarrow> i < cr_next s"
  by (auto simp: run_inv_def leI)

lemma run_inv_req: "run_inv env rc names ts s \<Longrightarrow> i < length (cr_reqs s) \<Longrightarrow> req_ok env rc ts (cr_reqs s ! i)"
  by (simp add: run_inv_def list_all_length)

lemma match_inv:
  assumes i: "run_inv env rc names ts s" and t: "t \<in> set ts" "ct_read t = ReadData b"
    and m: "matchReply env rc b (ct_recvAt t) s = (s', matched)"
  shows "run_inv env rc names ts s'"
proof (cases matched)
  case False
  then have "s' = s" using m by (auto simp: matchReply_def Let_def split: option.splits if_splits)
  then show ?thesis using i by simp
next
  case True
  then obtain rep k where r: "ce_ParseReply env b (pk_key (rc_key rc)) = Some rep" "reply_index rep (cr_reqs s) = Some k"
    "time_sub (ct_recvAt t) (br_sentAt (cr_reqs s ! k)) \<le> rc_timeout rc"
    using m by (auto simp: matchReply_def Let_def split: option.splits if_splits)
  note K = reply_index_some [OF r(2)]
  note Q = run_inv_req [OF i K(1)]
  define r' where "r' = (if wp_Status rep = StatusOK
     then (cr_reqs s ! k)\<lparr>br_answered := True, br_ok := True, br_rtt := time_sub (ct_recvAt t) (br_sentAt (cr_reqs s ! k))\<rparr>
     else (cr_reqs s ! k)\<lparr>br_answered := True\<rparr>)"
  have "req_ok env rc ts r'" using Q K r t unfolding req_ok_def r'_def by auto
  then have "run_inv env rc names ts (s\<lparr>cr_reqs := (cr_reqs s)[k := r'], cr_next := cr_next s\<rparr>)"
    using run_inv_change [OF i K(1), of r' "cr_next s"] run_inv_sent [OF i K(1) K(2)] i by (auto simp: r'_def run_inv_def)
  then show ?thesis by (rule run_inv_out) (use m r in \<open>auto simp: matchReply_def Let_def r'_def split: if_splits\<close>)
qed

lemma send_inv:
  assumes i: "run_inv env rc names ts s" and t: "t \<in> set ts" and n: "cr_next s < cr_planned s"
  shows "run_inv env rc names ts (send_turn env rc t s)"
proof (cases "ce_EncodeRequest env (pk_key (rc_key rc)) (wire_of rc (ct_now t) (cr_reqs s ! cr_next s))")
  case (Inl e)
  then show ?thesis using i by (auto simp: send_turn_def run_error_def run_inv_def)
next
  case (Inr pkt)
  have k: "cr_next s < length (cr_reqs s)" using i n by (auto simp: run_inv_def)
  define r where "r = (cr_reqs s ! cr_next s)\<lparr>br_sentAt := ct_sentAt t\<rparr>"
  have ns: "\<not> br_sent (cr_reqs s ! cr_next s)" using i k by (simp add: run_inv_def)
  then have na: "\<not> br_answered r" "\<not> br_ok r" "\<not> br_sent r" using run_inv_req [OF i k] by (auto simp: req_ok_def r_def)
  have r: "req_ok env rc ts r" "br_seq r = br_seq (cr_reqs s ! cr_next s)" "br_nonce r = br_nonce (cr_reqs s ! cr_next s)"
    using na by (auto simp: req_ok_def r_def)
  note C = run_inv_change [OF i k r(2,3,1)]
  show ?thesis
  proof (cases "ct_write t")
    case WriteOk
    have "req_ok env rc ts (r\<lparr>br_sent := True\<rparr>)" using t na WriteOk by (auto simp: req_ok_def r_def)
    with r n have "run_inv env rc names ts (s\<lparr>cr_reqs := (cr_reqs s)[cr_next s := r\<lparr>br_sent := True\<rparr>], cr_next := Suc (cr_next s)\<rparr>)"
      by (intro run_inv_change [OF i k]) auto
    then show ?thesis by (rule run_inv_out) (use Inr WriteOk in \<open>auto simp: send_turn_def Let_def r_def\<close>)
  next
    case WriteRefused
    have "run_inv env rc names ts (s\<lparr>cr_reqs := (cr_reqs s)[cr_next s := r], cr_next := Suc (cr_next s)\<rparr>)"
      using C [of "Suc (cr_next s)"] n na by simp
    then show ?thesis by (rule run_inv_out) (use Inr WriteRefused in \<open>auto simp: send_turn_def Let_def r_def count_refusal_def\<close>)
  next
    case (WriteError e)
    have "run_inv env rc names ts (s\<lparr>cr_reqs := (cr_reqs s)[cr_next s := r], cr_next := cr_next s\<rparr>)" using C [of "cr_next s"] n na by simp
    then show ?thesis using Inr WriteError n by (auto simp: send_turn_def Let_def r_def run_error_def run_inv_def)
  qed
qed

lemma read_cases:
  assumes "read_turn env rc t s = (s', ended)"
  shows "(cr_reqs s' = cr_reqs s \<and> cr_next s' = cr_next s \<and> cr_planned s' = cr_planned s) \<or>
    (\<exists>b s1 matched. ct_read t = ReadData b \<and> matchReply env rc b (ct_recvAt t) (s\<lparr>cr_readErrs := 0\<rparr>) = (s1, matched) \<and>
        cr_reqs s' = cr_reqs s1 \<and> cr_next s' = cr_next s1 \<and> cr_planned s' = cr_planned s1)"
proof (cases "ct_deadline t")
  case None
  show ?thesis
  proof (cases "ct_read t")
    case (ReadData b)
    with None assms show ?thesis
      by (cases "matchReply env rc b (ct_recvAt t) (s\<lparr>cr_readErrs := 0\<rparr>)"; cases "snd (matchReply env rc b (ct_recvAt t) (s\<lparr>cr_readErrs := 0\<rparr>))")
        (auto simp: read_turn_def)
  qed (use None assms in \<open>auto simp: read_turn_def count_refusal_def run_error_def Let_def split: if_splits\<close>)
qed (use assms in \<open>auto simp: read_turn_def run_error_def\<close>)

lemma turn_inv:
  assumes i: "run_inv env rc names ts s" and t: "run_turn env rc t s = (s', ended)"
  shows "run_inv env rc names (ts @ [t]) s'"
proof -
  have j: "run_inv env rc names (ts @ [t]) s" by (rule run_inv_mono [OF i]) auto
  have t': "t \<in> set (ts @ [t])" by simp
  consider (same) "cr_reqs s' = cr_reqs s" "cr_next s' = cr_next s" "cr_planned s' = cr_planned s"
    | (send) "cr_next s < cr_planned s" "s' = send_turn env rc t s"
    | (data) b s1 matched where "ct_read t = ReadData b" "matchReply env rc b (ct_recvAt t) (s\<lparr>cr_readErrs := 0\<rparr>) = (s1, matched)"
        "cr_reqs s' = cr_reqs s1" "cr_next s' = cr_next s1" "cr_planned s' = cr_planned s1"
  proof (cases "ct_ctx t = None \<and> \<not> sends env rc t s \<and> \<not> over t s")
    case True
    then have "read_turn env rc t s = (s', ended)" using t by (simp add: run_turn_def)
    from read_cases [OF this] show thesis using that(1,3) by blast
  next
    case False
    then consider (ctx) "ct_ctx t \<noteq> None" | (sending) "ct_ctx t = None" "sends env rc t s" | (ending) "ct_ctx t = None" "\<not> sends env rc t s" "over t s"
      by (cases "ct_ctx t = None"; cases "sends env rc t s") auto
    then show thesis
    proof cases
      case ctx
      then show thesis by (intro that(1)) (use t in \<open>auto simp: run_turn_def run_error_def\<close>)
    next
      case sending
      then show thesis by (intro that(2)) (use t in \<open>auto simp: run_turn_def sends_def\<close>)
    next
      case ending
      then show thesis by (intro that(1)) (use t in \<open>auto simp: run_turn_def\<close>)
    qed
  qed
  then show ?thesis
  proof cases
    case same
    then show ?thesis using run_inv_out [OF j] by blast
  next
    case send
    then show ?thesis using send_inv [OF j t'] by simp
  next
    case data
    have "run_inv env rc names (ts @ [t]) (s\<lparr>cr_readErrs := 0\<rparr>)" by (rule run_inv_out [OF j]) auto
    from match_inv [OF this t' data(1,2)] show ?thesis using run_inv_out data(3-5) by blast
  qed
qed

lemma loop_inv: "run_inv env rc names ts s \<Longrightarrow> run_loop env rc ts' s = (s', ended) \<Longrightarrow> run_inv env rc names (ts @ ts') s'"
proof (induction ts' arbitrary: ts s)
  case (Cons t ts')
  obtain s1 e where t: "run_turn env rc t s = (s1, e)" by fastforce
  note i = turn_inv [OF Cons.prems(1) t]
  show ?case
  proof (cases e)
    case True
    then have "s' = s1" using Cons.prems(2) t by simp
    then show ?thesis using run_inv_mono [OF i, of "ts @ t # ts'"] by auto
  next
    case False
    then show ?thesis using Cons.IH [OF i] Cons.prems(2) t by simp
  qed
qed simp

lemma new_run_inv: "run_inv env rc (names_of (map (\<lambda>i. new_request i (nonces i)) [0..<n])) [] (new_run (map (\<lambda>i. new_request i (nonces i)) [0..<n]))"
  by (auto simp: run_inv_def new_run_def list_all_iff req_ok_def new_request_def)

section \<open>The end of a run\<close>

text \<open>How many turns of a run read something other than the end of the wait.\<close>

definition noisy :: "'e client_env \<Rightarrow> run_cfg \<Rightarrow> client_turn \<Rightarrow> client_run \<Rightarrow> bool" where
  "noisy env rc t s \<longleftrightarrow> \<not> sends env rc t s \<and> ct_read t \<noteq> ReadDeadline"

fun noise :: "'e client_env \<Rightarrow> run_cfg \<Rightarrow> client_turn list \<Rightarrow> client_run \<Rightarrow> nat" where
  "noise env rc [] s = 0"
| "noise env rc (t # ts) s = (if noisy env rc t s then 1 else 0) + noise env rc ts (fst (run_turn env rc t s))"

text \<open>The clock: after a wait that ran out it is not before the end of that wait.\<close>

fun clock_ok :: "'e client_env \<Rightarrow> run_cfg \<Rightarrow> client_turn list \<Rightarrow> client_run \<Rightarrow> bool" where
  "clock_ok env rc [] s = True"
| "clock_ok env rc (t # ts) s =
     ((\<not> sends env rc t s \<and> ct_read t = ReadDeadline \<longrightarrow> (case ts of [] \<Rightarrow> True | u # _ \<Rightarrow> read_deadline env rc s \<le> ct_now u)) \<and>
      clock_ok env rc ts (fst (run_turn env rc t s)))"

lemma send_shrinks: "cr_next s < cr_planned s \<Longrightarrow>
    cr_planned (send_turn env rc t s) - cr_next (send_turn env rc t s) < cr_planned s - cr_next s"
  by (auto simp: send_turn_def Let_def run_error_def count_refusal_def split: sum.splits write_answer.splits)

lemma match_keeps: "matchReply env rc b at' s = (s', m) \<Longrightarrow> cr_next s' = cr_next s \<and> cr_planned s' = cr_planned s"
  by (auto simp: matchReply_def Let_def split: option.splits if_splits)

lemma read_keeps: "read_turn env rc t s = (s', ended) \<Longrightarrow> cr_next s' = cr_next s \<and> cr_planned s' = cr_planned s"
  using read_cases [of env rc t s s' ended] match_keeps by fastforce

text \<open>What a turn that does not end the run was.\<close>

lemma turn_cases:
  assumes "run_turn env rc t s = (s', False)"
  shows "(cr_next s < cr_planned s \<and> sends env rc t s \<and> s' = send_turn env rc t s) \<or>
    (\<not> sends env rc t s \<and> \<not> over t s \<and> read_turn env rc t s = (s', False))"
  using assms by (auto simp: run_turn_def sends_def split: option.splits if_splits)

lemma read_timeout:
  assumes "read_turn env rc t s = (s', False)" "ct_read t = ReadDeadline"
  shows "s' = s\<lparr>cr_readErrs := 0\<rparr>"
  using assms by (auto simp: read_turn_def split: option.splits)

lemma run_bounded:
  "clock_ok env rc ts s \<Longrightarrow> cr_next s \<le> cr_planned s \<Longrightarrow> run_loop env rc ts s = (s', False) \<Longrightarrow>
    length ts \<le> 2 * (cr_planned s - cr_next s) + 1 + noise env rc ts s"
proof (induction ts arbitrary: s rule: length_induct)
  case (1 ts)
  show ?case
  proof (cases ts)
    case (Cons t us)
    obtain s1 where t: "run_turn env rc t s = (s1, False)" and r: "run_loop env rc us s1 = (s', False)"
      using "1.prems"(3) Cons by (auto split: prod.splits if_splits)
    have c: "clock_ok env rc us s1" using "1.prems"(1) Cons t by simp
    consider (send) "cr_next s < cr_planned s" "sends env rc t s" "s1 = send_turn env rc t s"
      | (noise) "\<not> sends env rc t s" "ct_read t \<noteq> ReadDeadline" "read_turn env rc t s = (s1, False)"
      | (wait) "\<not> sends env rc t s" "\<not> over t s" "ct_read t = ReadDeadline" "read_turn env rc t s = (s1, False)"
      using turn_cases [OF t] by blast
    then show ?thesis
    proof cases
      case send
      note S = send_shrinks [OF send(1), of env rc t]
      have "cr_next s1 \<le> cr_planned s1" using send
        by (auto simp: send_turn_def Let_def run_error_def count_refusal_def split: sum.splits write_answer.splits)
      then have "length us \<le> 2 * (cr_planned s1 - cr_next s1) + 1 + noise env rc us s1" using "1.IH" Cons c r by simp
      then show ?thesis using S send t Cons by (simp add: noisy_def)
    next
      case noise
      note K = read_keeps [OF noise(3)]
      have "cr_next s1 \<le> cr_planned s1" using K "1.prems"(2) by simp
      then have "length us \<le> 2 * (cr_planned s1 - cr_next s1) + 1 + noise env rc us s1" using "1.IH" Cons c r by simp
      then show ?thesis using K noise t Cons by (simp add: noisy_def)
    next
      case wait
      note W = read_timeout [OF wait(4,3)]
      show ?thesis
      proof (cases us)
        case Nil
        then show ?thesis using Cons by simp
      next
        case (Cons u vs)
        have d: "read_deadline env rc s \<le> ct_now u" using "1.prems"(1) wait \<open>ts = t # us\<close> Cons by simp
        have np: "\<not> over u s1 \<or> sends env rc u s1" using Cons r by (auto simp: run_turn_def split: option.splits if_splits)
        have sn: "sends env rc u s1"
        proof (cases "cr_next s < cr_planned s")
          case True
          then show ?thesis using d W by (simp add: sends_def read_deadline_def)
        next
          case False
          then have "over u s1" using d W "1.prems"(2) by (simp add: over_def read_deadline_def)
          then show ?thesis using np by simp
        qed
        obtain s2 where u: "run_turn env rc u s1 = (s2, False)" and r2: "run_loop env rc vs s2 = (s', False)"
          using r Cons by (auto split: prod.splits if_splits)
        have s2: "cr_next s1 < cr_planned s1" "s2 = send_turn env rc u s1" using turn_cases [OF u] sn by auto
        note S = send_shrinks [OF s2(1), of env rc u]
        have "cr_next s2 \<le> cr_planned s2" using s2
          by (auto simp: send_turn_def Let_def run_error_def count_refusal_def split: sum.splits write_answer.splits)
        then have "length vs \<le> 2 * (cr_planned s2 - cr_next s2) + 1 + noise env rc vs s2"
          using "1.IH" \<open>ts = t # us\<close> Cons c r2 u by simp
        then show ?thesis using S s2 u t W \<open>ts = t # us\<close> Cons wait sn by (simp add: noisy_def)
      qed
    qed
  qed simp
qed

lemma fill_fields:
  "mr_RTTsMs (fillResult reqs out r0) = map rtt_ms (filter br_ok (filter br_sent reqs))"
  "mr_Sent (fillResult reqs out r0) = int (length (filter br_sent reqs))"
  "mr_Lost (fillResult reqs out r0) = int (length (filter br_sent reqs)) - int (length (filter br_ok (filter br_sent reqs)))"
  "filter br_ok (filter br_sent reqs) \<noteq> [] \<Longrightarrow> mr_Success (fillResult reqs out r0)"
  by (cases "failure_of out (int (length (filter br_sent reqs)))"; simp add: fillResult_def Let_def)+

lemma probe_ran:
  assumes "Probe env io k m = Some res" "mr_RTTsMs res \<noteq> []"
  shows "\<exists>ep source pk nonces s. ce_ParseEndpoint env (mo_Target m) = Inr ep \<and> lookup (trim_space (mo_TargetNode m)) k = Some (source, pk) \<and>
    pb_nonces io = Inr nonces \<and> run_loop env \<lparr>rc_start = pb_start io, rc_timeout = monitorTimeout m, rc_sourceID = source, rc_key = pk\<rparr>
      (pb_turns io) (new_run (map (\<lambda>i. new_request i (nonces i)) [0..<nat (packets env m)])) = (s, True) \<and>
    (\<exists>r0. res = fillResult (cr_reqs s) (cr_out s) r0)"
  using assms by (auto simp: Probe_def Let_def refuse_def split: if_splits sum.splits option.splits prod.splits)

section \<open>Properties\<close>

text \<open>
  A configuration gives each target its newest key. After \<open>Set\<close> a target is found exactly when the node has a
  source id and some entry for it is well formed, and then with the key of the first entry among those with the newest
  epoch; the key bytes of the configuration and of the keys that were replaced are wiped.
\<close>

theorem keyring_newest:
  assumes "Keyring_Set keyLen (Some cfg) k = (k', cfg', old)" "vs = filter (key_valid keyLen target) (cb_Keys cfg)"
  shows "(case lookup target k' of
      None \<Rightarrow> cb_SourceID cfg = 0 \<or> vs = []
    | Some (source, pk) \<Rightarrow> source = cb_SourceID cfg \<and> source \<noteq> 0 \<and>
        (\<exists>a e b. vs = a @ e # b \<and> pk = key_of e \<and> (\<forall>x \<in> set a. ke_Epoch x < ke_Epoch e) \<and> (\<forall>x \<in> set b. ke_Epoch x \<le> ke_Epoch e))) \<and>
    (\<forall>c. cfg' = Some c \<longrightarrow> (\<forall>e \<in> set (cb_Keys c). set (ke_Key e) \<subseteq> {CHR 0x00})) \<and> (\<forall>pk \<in> set old. set (pk_key pk) \<subseteq> {CHR 0x00})"
proof -
  have k': "k' = \<lparr>kr_sourceID = cb_SourceID cfg, kr_keys = take_keys keyLen [] (cb_Keys cfg)\<rparr>"
    using assms(1) by (auto simp: Keyring_Set_def Let_def)
  have m: "map_of (kr_keys k') target = foldl better None vs" using k' take_keys_best [of keyLen "[]"] assms(2) by simp
  have "case lookup target k' of
      None \<Rightarrow> cb_SourceID cfg = 0 \<or> vs = []
    | Some (source, pk) \<Rightarrow> source = cb_SourceID cfg \<and> source \<noteq> 0 \<and>
        (\<exists>a e b. vs = a @ e # b \<and> pk = key_of e \<and> (\<forall>x \<in> set a. ke_Epoch x < ke_Epoch e) \<and> (\<forall>x \<in> set b. ke_Epoch x \<le> ke_Epoch e))"
  proof (cases "vs = []")
    case True
    then show ?thesis using m by (simp add: lookup_def)
  next
    case False
    from best_newest [OF this] obtain a e b where e: "vs = a @ e # b" "foldl better None vs = Some (key_of e)"
      "\<forall>x \<in> set a. ke_Epoch x < ke_Epoch e" "\<forall>x \<in> set b. ke_Epoch x \<le> ke_Epoch e" by blast
    have "lookup target k' = (if cb_SourceID cfg = 0 then None else Some (cb_SourceID cfg, key_of e))"
      using m e(2) k' by (simp add: lookup_def)
    then show ?thesis using e by auto
  qed
  moreover have "(\<forall>c. cfg' = Some c \<longrightarrow> (\<forall>e \<in> set (cb_Keys c). set (ke_Key e) \<subseteq> {CHR 0x00})) \<and> (\<forall>pk \<in> set old. set (pk_key pk) \<subseteq> {CHR 0x00})"
    using assms(1) by (auto simp: Keyring_Set_def Let_def clear_bytes_def)
  ultimately show ?thesis by blast
qed


text \<open>
  C39. A run ends. With a clock that has reached the end of every wait that ran out, a run of \<open>n\<close> requests has returned
  after at most \<open>2n + 2\<close> turns besides those that read a datagram, a refusal or an error.
\<close>

theorem beacon_run_ends:
  assumes "clock_ok env rc ts (new_run reqs)" "length ts > 2 * length reqs + 1 + noise env rc ts (new_run reqs)"
  shows "snd (run_loop env rc ts (new_run reqs))"
proof (rule ccontr)
  assume "\<not> ?thesis"
  then obtain s' where "run_loop env rc ts (new_run reqs) = (s', False)" by (metis (full_types) prod.collapse)
  from run_bounded [OF assms(1) _ this] assms(2) show False by (simp add: new_run_def)
qed

section \<open>Witnesses\<close>

definition bcd_entry :: "32 word \<Rightarrow> string \<Rightarrow> key_entry" where
  "bcd_entry epoch key = \<lparr>ke_TargetNode = '' b '', ke_Epoch = epoch, ke_Key = key\<rparr>"

definition bcd_config :: beacon_config where
  "bcd_config = \<lparr>cb_SourceID = 7, cb_Keys = [bcd_entry 1 ''old!'', bcd_entry 2 ''new!'', bcd_entry 2 ''late'']\<rparr>"

definition bcd_env :: "unit client_env" where
  "bcd_env = \<lparr>ce_KeyLen = 4, ce_MonitorPackets = (\<lambda>_. 1), ce_PacketsMax = 10, ce_SpacingMs = 200,
     ce_ParseEndpoint = (\<lambda>_. Inr ()), ce_EncodeRequest = (\<lambda>_ _. Inr ''q''),
     ce_ParseReply = (\<lambda>b key. if b = key then Some \<lparr>wp_Nonce = ''n'', wp_Seq = 1, wp_Status = StatusOK\<rparr> else None)\<rparr>"

definition bcd_ring :: keyring where
  "bcd_ring = fst (Keyring_Set 4 (Some bcd_config) \<lparr>kr_sourceID = 0, kr_keys = []\<rparr>)"

definition bcd_turn :: "gotime \<Rightarrow> read_answer \<Rightarrow> client_turn" where
  "bcd_turn now r = \<lparr>ct_ctx = None, ct_now = now, ct_sentAt = now, ct_write = WriteOk, ct_deadline = None, ct_read = r,
     ct_recvAt = now + 3000000, ct_ended = False\<rparr>"

definition bcd_turns :: "client_turn list" where
  "bcd_turns = [bcd_turn 0 ReadDeadline, bcd_turn 1000000 (ReadData ''new!''), bcd_turn 9000000000 ReadDeadline,
     bcd_turn 9000000000 ReadDeadline, bcd_turn 9000000000 ReadDeadline]"

definition bcd_io :: probe_io where
  "bcd_io = \<lparr>pb_At = 1, pb_nonces = Inr (\<lambda>_. ''n''), pb_dial = None, pb_start = 0, pb_turns = bcd_turns\<rparr>"

definition bcd_monitor :: monitor where
  "bcd_monitor = \<lparr>mo_ID = ''m'', mo_Target = ''192.0.2.1:9'', mo_TargetNode = ''b'', mo_TimeoutSec = 5\<rparr>"

theorem keyring_newest_witness:
  "\<exists>pk. lookup ''b'' bcd_ring = Some (7, pk) \<and> pk_key pk = ''new!''"
proof -
  obtain k' cfg' old where s: "Keyring_Set 4 (Some bcd_config) \<lparr>kr_sourceID = 0, kr_keys = []\<rparr> = (k', cfg', old)" by (metis prod_cases3)
  have k: "k' = bcd_ring" using s by (simp add: bcd_ring_def)
  have v: "filter (key_valid 4 ''b'') (cb_Keys bcd_config) = [bcd_entry 1 ''old!'', bcd_entry 2 ''new!'', bcd_entry 2 ''late'']" by code_simp
  from keyring_newest [OF s v [symmetric]] k show ?thesis
    by (auto simp: bcd_config_def bcd_entry_def key_of_def Cons_eq_append_conv word_le_def split: option.splits)
qed

lemma bcd_probe: "map_option mr_RTTsMs (Probe bcd_env bcd_io bcd_ring bcd_monitor) = Some [4]"
  by code_simp


definition bcd_rc :: run_cfg where
  "bcd_rc = \<lparr>rc_start = 0, rc_timeout = 5000000000, rc_sourceID = 7, rc_key = \<lparr>pk_epoch = 2, pk_key = ''new!''\<rparr>\<rparr>"

theorem beacon_run_ends_witness:
  "snd (run_loop bcd_env bcd_rc bcd_turns (new_run [new_request 0 ''n'']))"
proof -
  have "clock_ok bcd_env bcd_rc bcd_turns (new_run [new_request 0 ''n''])"
    "2 * length [new_request 0 ''n''] + 1 + noise bcd_env bcd_rc bcd_turns (new_run [new_request 0 ''n'']) < length bcd_turns"
    by code_simp+
  then show ?thesis by (rule beacon_run_ends)
qed

end
