(* ===== verification/Loop_Health.thy ===== *)
theory Loop_Health
  imports Go_Prelude
begin

text \<open>
  The agent's account of its own progress (\<open>src/cmd/lattice-agent/keepalive.go\<close>) and the watchdog that judges
  it (\<open>src/cmd/lattice-agent/supervise.go\<close>). The work loop, the heartbeat and the watchdog are goroutines
  over one record under its mutex, so a run is a sequence of the record's operations, each with the clock's
  reading. Of the heartbeat the state it sends is modelled, of the systemd socket the answers. Log lines are
  left out.
\<close>

section \<open>Definitions\<close>

subsection \<open>Text\<close>

text \<open>The runes of a byte string as UTF-8; a byte that does not decode is U+FFFD.\<close>

definition byte :: "string \<Rightarrow> nat \<Rightarrow> nat" where
  "byte s i = (if i < length s then of_char (s ! i) else 0)"

definition cont :: "nat \<Rightarrow> bool" where
  "cont b \<longleftrightarrow> b div 64 = 2"

definition rune_len :: "string \<Rightarrow> nat" where
  "rune_len s =
     (let b = byte s 0; c = byte s 1
      in if b < 128 then 1
         else if 194 \<le> b \<and> b \<le> 223 \<and> cont c then 2
         else if 224 \<le> b \<and> b \<le> 239 \<and> cont c \<and> cont (byte s 2) \<and> (b = 224 \<longrightarrow> 160 \<le> c) \<and> (b = 237 \<longrightarrow> c \<le> 159) then 3
         else if 240 \<le> b \<and> b \<le> 244 \<and> cont c \<and> cont (byte s 2) \<and> cont (byte s 3) \<and> (b = 240 \<longrightarrow> 144 \<le> c) \<and> (b = 244 \<longrightarrow> c \<le> 143) then 4
         else 0)"

function runes :: "string \<Rightarrow> string list" where
  "runes s =
     (if s = [] then []
      else if rune_len s = 0 then [CHR 0xEF, CHR 0xBF, CHR 0xBD] # runes (drop 1 s)
      else take (rune_len s) s # runes (drop (rune_len s) s))"
  by pat_completeness auto

termination by (relation "measure length") auto

declare runes.simps [simp del]

definition loopErrorMaxRunes :: nat where "loopErrorMaxRunes = 200"

definition plain_rune :: "string \<Rightarrow> string" where
  "plain_rune r = (case r of [c] \<Rightarrow> (if c < CHR 0x20 \<or> c = CHR 0x7F then '' '' else r) | _ \<Rightarrow> r)"

definition boundedLoopError :: "string option \<Rightarrow> string" where
  "boundedLoopError err = (case err of
     None \<Rightarrow> []
   | Some e \<Rightarrow>
       (let rs = map plain_rune (runes (trim_space e))
        in if length rs > loopErrorMaxRunes then concat (take loopErrorMaxRunes rs) @ ''...'' else concat rs))"

subsection \<open>Loop health\<close>

record loop_step_state =
  ls_LastOKAt :: gotime
  ls_LastErrorAt :: gotime
  ls_LastError :: string
  ls_ConsecutiveErrors :: nat

record loop_health =
  lh_startedAt :: gotime
  lh_workProgress :: gotime
  lh_beatProgress :: gotime
  lh_cycleStarted :: gotime
  lh_cycleCompleted :: gotime
  lh_cycleDuration :: duration
  lh_step :: string
  lh_stepSince :: gotime
  lh_steps :: "(string \<times> loop_step_state) list"
  lh_linechainBlocked :: string
  lh_linechainBlockedSince :: gotime
  lh_taskBusySince :: gotime
  lh_watchdog :: bool

definition newLoopHealth :: "gotime \<Rightarrow> loop_health" where
  "newLoopHealth t =
     \<lparr>lh_startedAt = t, lh_workProgress = t, lh_beatProgress = 0, lh_cycleStarted = 0, lh_cycleCompleted = 0, lh_cycleDuration = 0,
      lh_step = [], lh_stepSince = 0, lh_steps = [], lh_linechainBlocked = [], lh_linechainBlockedSince = 0, lh_taskBusySince = 0,
      lh_watchdog = False\<rparr>"

definition cycleStart :: "gotime \<Rightarrow> loop_health \<Rightarrow> loop_health" where
  "cycleStart t h = h\<lparr>lh_cycleStarted := t, lh_workProgress := t\<rparr>"

definition cycleEnd :: "gotime \<Rightarrow> loop_health \<Rightarrow> loop_health" where
  "cycleEnd t h =
     h\<lparr>lh_cycleCompleted := t,
       lh_cycleDuration := (if lh_cycleStarted h \<noteq> 0 then time_sub t (lh_cycleStarted h) else lh_cycleDuration h),
       lh_workProgress := t\<rparr>"

definition waiting :: "gotime \<Rightarrow> loop_health \<Rightarrow> loop_health" where
  "waiting t h = h\<lparr>lh_step := [], lh_stepSince := 0, lh_workProgress := t\<rparr>"

text \<open>\<open>run\<close> before and after the step's function.\<close>

definition run_begin :: "string \<Rightarrow> gotime \<Rightarrow> loop_health \<Rightarrow> loop_health" where
  "run_begin step t h = h\<lparr>lh_step := step, lh_stepSince := t, lh_workProgress := t\<rparr>"

definition new_step :: loop_step_state where
  "new_step = \<lparr>ls_LastOKAt = 0, ls_LastErrorAt = 0, ls_LastError = [], ls_ConsecutiveErrors = 0\<rparr>"

definition step_outcome :: "gotime \<Rightarrow> string option \<Rightarrow> loop_step_state \<Rightarrow> loop_step_state" where
  "step_outcome t err st = (case err of
     None \<Rightarrow> st\<lparr>ls_LastOKAt := t, ls_ConsecutiveErrors := 0, ls_LastError := []\<rparr>
   | Some e \<Rightarrow> st\<lparr>ls_LastErrorAt := t, ls_LastError := boundedLoopError (Some e), ls_ConsecutiveErrors := Suc (ls_ConsecutiveErrors st)\<rparr>)"

definition step_of :: "loop_health \<Rightarrow> string \<Rightarrow> loop_step_state" where
  "step_of h step = (case map_of (lh_steps h) step of None \<Rightarrow> new_step | Some st \<Rightarrow> st)"

definition put_step :: "string \<Rightarrow> loop_step_state \<Rightarrow> (string \<times> loop_step_state) list \<Rightarrow> (string \<times> loop_step_state) list" where
  "put_step step st ss = (step, st) # filter (\<lambda>(n, _). n \<noteq> step) ss"

definition run_end :: "string \<Rightarrow> gotime \<Rightarrow> string option \<Rightarrow> loop_health \<Rightarrow> loop_health" where
  "run_end step t err h =
     h\<lparr>lh_workProgress := t, lh_step := [], lh_stepSince := 0, lh_steps := put_step step (step_outcome t err (step_of h step)) (lh_steps h)\<rparr>"

definition setLinechainBlocked :: "gotime \<Rightarrow> string \<Rightarrow> loop_health \<Rightarrow> loop_health" where
  "setLinechainBlocked t err h =
     (let text = boundedLoopError (Some err)
      in h\<lparr>lh_linechainBlockedSince := (if lh_linechainBlocked h = [] then t else lh_linechainBlockedSince h),
           lh_linechainBlocked := (if text = [] then ''blocked'' else text)\<rparr>)"

definition clearLinechainBlocked :: "loop_health \<Rightarrow> loop_health" where
  "clearLinechainBlocked h = h\<lparr>lh_linechainBlocked := [], lh_linechainBlockedSince := 0\<rparr>"

definition linechainIsBlocked :: "loop_health \<Rightarrow> bool" where
  "linechainIsBlocked h \<longleftrightarrow> lh_linechainBlocked h \<noteq> []"

definition setTaskBusy :: "gotime \<Rightarrow> bool \<Rightarrow> loop_health \<Rightarrow> loop_health" where
  "setTaskBusy t busy h =
     (if busy \<and> lh_taskBusySince h = 0 then h\<lparr>lh_taskBusySince := t\<rparr>
      else if \<not> busy then h\<lparr>lh_taskBusySince := 0\<rparr> else h)"

definition beat :: "gotime \<Rightarrow> loop_health \<Rightarrow> loop_health" where
  "beat t h = h\<lparr>lh_beatProgress := t\<rparr>"

definition setWatchdog :: "bool \<Rightarrow> loop_health \<Rightarrow> loop_health" where
  "setWatchdog on h = h\<lparr>lh_watchdog := on\<rparr>"

text \<open>The payload of a heartbeat, without the fields its caller fills in.\<close>

record health_payload =
  hp_StartedAt :: gotime
  hp_CycleStartedAt :: gotime
  hp_CycleCompletedAt :: gotime
  hp_CycleDurationMs :: int
  hp_Step :: string
  hp_StepSince :: gotime
  hp_LinechainBlocked :: string
  hp_LinechainBlockedSince :: gotime
  hp_Steps :: "(string \<times> loop_step_state) list"
  hp_TaskBusySince :: gotime
  hp_Watchdog :: bool

definition snapshot :: "loop_health \<Rightarrow> health_payload" where
  "snapshot h =
     \<lparr>hp_StartedAt = lh_startedAt h, hp_CycleStartedAt = lh_cycleStarted h, hp_CycleCompletedAt = lh_cycleCompleted h,
      hp_CycleDurationMs = go_div (lh_cycleDuration h) millisecond, hp_Step = lh_step h, hp_StepSince = lh_stepSince h,
      hp_LinechainBlocked = lh_linechainBlocked h, hp_LinechainBlockedSince = lh_linechainBlockedSince h, hp_Steps = lh_steps h,
      hp_TaskBusySince = lh_taskBusySince h, hp_Watchdog = lh_watchdog h\<rparr>"

text \<open>
  What a beat sends: whether the node says it can run line chain tasks, and the payload. The two are read one
  after the other, so another goroutine may come between.
\<close>

definition beat_ready :: "bool \<Rightarrow> loop_health \<Rightarrow> bool" where
  "beat_ready linechainReady h \<longleftrightarrow> linechainReady \<and> \<not> linechainIsBlocked h"

subsection \<open>The watchdog\<close>

definition loopStallFloor :: duration where "loopStallFloor = 5 * minute"
definition agentWatchdogTimeout :: duration where "agentWatchdogTimeout = 2 * minute"

text \<open>The text of a duration truncated to seconds.\<close>

definition seconds_text :: "duration \<Rightarrow> string" where
  "seconds_text d =
     (let n = go_div d second; u = \<bar>n\<bar>
      in (if n < 0 then ''-'' else []) @ (if 3600 \<le> u then itoa (u div 3600) @ ''h'' else []) @
         (if 60 \<le> u then itoa (u div 60 mod 60) @ ''m'' else []) @ itoa (u mod 60) @ ''s'')"

definition stalled :: "duration \<Rightarrow> gotime \<Rightarrow> loop_health \<Rightarrow> string option" where
  "stalled bound t h =
     (let d = time_sub t (lh_workProgress h); e = time_sub t (lh_beatProgress h)
      in if d > bound
         then Some (''work loop has not moved for '' @ seconds_text d @ '' ('' @
           (if lh_step h \<noteq> [] then ''in step '' @ lh_step h else ''between steps'') @ '')'')
         else if lh_beatProgress h = 0 then None
         else if e > bound then Some (''heartbeat has not moved for '' @ seconds_text e)
         else None)"

definition loopStallBound :: "duration \<Rightarrow> duration" where
  "loopStallBound interval = (let b = wrap64 (3 * interval) in if b > loopStallFloor then b else loopStallFloor)"

text \<open>The environment of the process as far as the watchdog reads it.\<close>

record sd_env =
  sd_WATCHDOG_USEC :: string
  sd_WATCHDOG_PID :: string
  sd_NOTIFY_SOCKET :: string
  sd_pid :: int

definition watchdogInterval :: "sd_env \<Rightarrow> duration" where
  "watchdogInterval env =
     (let usec = trim_space (sd_WATCHDOG_USEC env); pid = trim_space (sd_WATCHDOG_PID env)
      in if usec = [] then 0
         else if pid \<noteq> [] \<and> pid \<noteq> itoa (sd_pid env) then 0
         else case parse_int usec of
           None \<Rightarrow> 0
         | Some n \<Rightarrow> (if n \<le> 0 then 0 else wrap64 (n * 1000)))"

text \<open>\<open>armWatchdog\<close>, with what \<open>notify\<close> answers; the second component is the state line sent.\<close>

definition armWatchdog :: "sd_env \<Rightarrow> bool \<Rightarrow> duration \<times> string option" where
  "armWatchdog env notifyOk =
     (if watchdogInterval env > 0 then (watchdogInterval env, None)
      else if sd_NOTIFY_SOCKET env = [] then (0, None)
      else (if notifyOk then agentWatchdogTimeout else 0, Some (''WATCHDOG_USEC='' @ itoa (go_div agentWatchdogTimeout 1000))))"

text \<open>One tick of \<open>runWatchdog\<close>: whether it withholds from now on, and whether it sends \<open>WATCHDOG=1\<close>.\<close>

definition watchdog_tick :: "duration \<Rightarrow> gotime \<Rightarrow> loop_health \<Rightarrow> bool \<times> bool" where
  "watchdog_tick bound t h = (if stalled bound t h \<noteq> None then (True, False) else (False, True))"

subsection \<open>Runs\<close>

datatype health_event =
    CycleStarted
  | CycleEnded
  | Waits
  | StepBegins string
  | StepEnds string "string option"
  | Beats
  | Blocked string
  | Unblocked
  | TaskBusy bool
  | WatchdogOn

definition health_step :: "gotime \<times> health_event \<Rightarrow> loop_health \<Rightarrow> loop_health" where
  "health_step ev h = (case ev of (t, e) \<Rightarrow> (case e of
     CycleStarted \<Rightarrow> cycleStart t h
   | CycleEnded \<Rightarrow> cycleEnd t h
   | Waits \<Rightarrow> waiting t h
   | StepBegins step \<Rightarrow> run_begin step t h
   | StepEnds step err \<Rightarrow> run_end step t err h
   | Beats \<Rightarrow> beat t h
   | Blocked err \<Rightarrow> setLinechainBlocked t err h
   | Unblocked \<Rightarrow> clearLinechainBlocked h
   | TaskBusy busy \<Rightarrow> setTaskBusy t busy h
   | WatchdogOn \<Rightarrow> setWatchdog True h))"

definition health_run :: "gotime \<Rightarrow> (gotime \<times> health_event) list \<Rightarrow> loop_health" where
  "health_run t evs = fold health_step evs (newLoopHealth t)"

text \<open>
  \<open>recoverThenSupervise\<close>: the outcomes of recovery and the clock before, after, at the heartbeat's start and at
  the wait of each round; the first failure starts the heartbeat, unless it runs already, and the end arms the
  watchdog, for which \<open>WatchdogOn\<close> stands. The events are those of the record; \<open>None\<close> when recovery has not succeeded after the given rounds.
\<close>

record recover_round =
  rr_begin :: gotime
  rr_end :: gotime
  rr_err :: "string option"
  rr_blocked :: gotime
  rr_waits :: gotime

fun recoverThenSupervise :: "bool \<Rightarrow> recover_round list \<Rightarrow> (gotime \<times> health_event) list \<times> bool" where
  "recoverThenSupervise beating [] = ([], False)"
| "recoverThenSupervise beating (r # rs) =
     (let begins = [(rr_begin r, StepBegins ''linechain_recovery''), (rr_end r, StepEnds ''linechain_recovery'' (rr_err r))]
      in case rr_err r of
           None \<Rightarrow> (begins @ [(rr_end r, Unblocked), (rr_end r, WatchdogOn)], True)
         | Some e \<Rightarrow>
             (case recoverThenSupervise True rs of (evs, armed) \<Rightarrow>
                (begins @ [(rr_blocked r, Blocked e)] @ (if beating then [] else [(rr_blocked r, Beats)]) @ [(rr_waits r, Waits)] @ evs,
                 armed)))"

section \<open>Plain definitions over all events\<close>

fun is_work :: "health_event \<Rightarrow> bool" where
  "is_work CycleStarted = True"
| "is_work CycleEnded = True"
| "is_work Waits = True"
| "is_work (StepBegins step) = True"
| "is_work (StepEnds step err) = True"
| "is_work e = False"

definition work_times :: "(gotime \<times> health_event) list \<Rightarrow> gotime list" where
  "work_times evs = map fst (filter (\<lambda>(_, e). is_work e) evs)"

definition beat_times :: "(gotime \<times> health_event) list \<Rightarrow> gotime list" where
  "beat_times evs = map fst (filter (\<lambda>(_, e). e = Beats) evs)"

definition outcomes :: "string \<Rightarrow> (gotime \<times> health_event) list \<Rightarrow> string option list" where
  "outcomes step evs = concat (map (\<lambda>(_, e). case e of StepEnds s err \<Rightarrow> (if s = step then [err] else []) | _ \<Rightarrow> []) evs)"

definition blockings :: "(gotime \<times> health_event) list \<Rightarrow> bool list" where
  "blockings evs = concat (map (\<lambda>(_, e). case e of Blocked _ \<Rightarrow> [True] | Unblocked \<Rightarrow> [False] | _ \<Rightarrow> []) evs)"

text \<open>The errors at the end of a list of outcomes.\<close>

definition error_streak :: "string option list \<Rightarrow> string option list" where
  "error_streak os = takeWhile (\<lambda>x. x \<noteq> None) (rev os)"

lemma health_run_snoc: "health_run t (evs @ [ev]) = health_step ev (health_run t evs)"
  by (simp add: health_run_def)

lemma map_of_put_step [simp]: "map_of (put_step step st ss) n = (if n = step then Some st else map_of ss n)"
  by (induction ss) (auto simp: put_step_def)

lemmas health_ops = health_step_def cycleStart_def cycleEnd_def waiting_def run_begin_def run_end_def beat_def setLinechainBlocked_def
  clearLinechainBlocked_def setTaskBusy_def setWatchdog_def Let_def

lemma work_progress: "lh_workProgress (health_run t evs) = last (t # work_times evs)"
proof (induction evs rule: rev_induct)
  case (snoc ev evs)
  then show ?case
    by (cases ev; cases "snd ev") (auto simp: health_run_snoc health_ops work_times_def)
qed (simp add: health_run_def newLoopHealth_def work_times_def)

lemma beat_progress: "lh_beatProgress (health_run t evs) = last (0 # beat_times evs)"
proof (induction evs rule: rev_induct)
  case (snoc ev evs)
  then show ?case
    by (cases ev; cases "snd ev") (auto simp: health_run_snoc health_ops beat_times_def)
qed (simp add: health_run_def newLoopHealth_def beat_times_def)

lemma step_errors:
  "ls_ConsecutiveErrors (step_of (health_run t evs) step) = length (error_streak (outcomes step evs)) \<and>
   ls_LastError (step_of (health_run t evs) step) =
     (case error_streak (outcomes step evs) of [] \<Rightarrow> [] | err # _ \<Rightarrow> boundedLoopError err)"
proof (induction evs rule: rev_induct)
  case Nil
  then show ?case by (simp add: health_run_def newLoopHealth_def step_of_def new_step_def outcomes_def error_streak_def)
next
  case (snoc ev evs)
  obtain u e where ev: "ev = (u, e)" by fastforce
  show ?case
  proof (cases "\<exists>err. e = StepEnds step err")
    case True
    then obtain err where e: "e = StepEnds step err" by blast
    show ?thesis using snoc
      by (cases err) (auto simp: ev e health_run_snoc health_step_def run_end_def step_of_def [of "_\<lparr>lh_workProgress := _\<rparr>"]
          step_of_def [of "_ \<lparr>lh_steps := _\<rparr>"] step_outcome_def outcomes_def error_streak_def step_of_def split: list.splits option.splits)
  next
    case False
    then have "outcomes step (evs @ [ev]) = outcomes step evs" by (cases e) (auto simp: outcomes_def ev)
    moreover have "step_of (health_run t (evs @ [ev])) step = step_of (health_run t evs) step"
      using False by (cases e) (auto simp: ev health_run_snoc health_ops step_of_def)
    ultimately show ?thesis using snoc by simp
  qed
qed

lemma blocked_iff: "linechainIsBlocked (health_run t evs) = last (False # blockings evs)"
proof (induction evs rule: rev_induct)
  case (snoc ev evs)
  then show ?case
    by (cases ev; cases "snd ev") (auto simp: health_run_snoc health_ops blockings_def linechainIsBlocked_def)
qed (simp add: health_run_def newLoopHealth_def blockings_def linechainIsBlocked_def)

section \<open>Properties\<close>

text \<open>
  C25. The watchdog is fed exactly while both loops move. At a tick after any events of the work loop, the heartbeat
  and the tasks, the agent sends its keepalive exactly when the work loop recorded something no longer ago than the
  bound, or started no longer ago if it never did, and so did the heartbeat if it was started.
\<close>

theorem watchdog_exact:
  assumes "\<forall>(u, e) \<in> set evs. u \<noteq> 0"
  shows "snd (watchdog_tick bound now (health_run t evs)) \<longleftrightarrow>
    time_sub now (last (t # work_times evs)) \<le> bound \<and> (beat_times evs = [] \<or> time_sub now (last (beat_times evs)) \<le> bound)"
proof -
  have "0 \<notin> set (beat_times evs)" using assms by (auto simp: beat_times_def)
  then have "last (0 # beat_times evs) = 0 \<longleftrightarrow> beat_times evs = []"
    using last_in_set [of "beat_times evs"] by (cases "beat_times evs = []") (simp, metis last.simps)
  then show ?thesis by (auto simp: watchdog_tick_def stalled_def Let_def work_progress beat_progress)
qed

text \<open>
  The account of the steps is exact. After any events the errors in a row that the heartbeat reports for a step are
  those since its last success, its text is the last of them, bounded, and empty after a success; and the node withholds
  its durable task capability exactly while recovery was last reported as blocked.
\<close>

theorem loop_health_exact:
  "ls_ConsecutiveErrors (step_of (health_run t evs) step) = length (error_streak (outcomes step evs)) \<and>
   ls_LastError (step_of (health_run t evs) step) =
     (case error_streak (outcomes step evs) of [] \<Rightarrow> [] | err # _ \<Rightarrow> boundedLoopError err) \<and>
   (beat_ready ready (health_run t evs) \<longleftrightarrow> ready \<and> \<not> last (False # blockings evs))"
  using step_errors [of t evs step] blocked_iff [of t evs] by (simp add: beat_ready_def)

text \<open>
  Recovery comes before the watchdog. The watchdog is armed exactly when a round of recovery succeeded, by its last
  event, and then recovery is not reported as blocked.
\<close>

theorem recovery_before_watchdog:
  assumes "recoverThenSupervise beating rs = (evs, armed)"
  shows "(armed \<longleftrightarrow> (\<exists>r \<in> set rs. rr_err r = None)) \<and> (\<forall>u \<in> set (butlast evs). snd u \<noteq> WatchdogOn) \<and>
    (armed \<longrightarrow> snd (last evs) = WatchdogOn \<and> \<not> linechainIsBlocked (health_run t (pre @ evs)))"
  using assms
proof (induction rs arbitrary: beating evs armed pre)
  case Nil
  then show ?case by simp
next
  case (Cons r rs)
  show ?case
  proof (cases "rr_err r")
    case None
    then show ?thesis using Cons.prems by (auto simp: blocked_iff blockings_def Let_def)
  next
    case (Some e)
    obtain evs1 where e1: "recoverThenSupervise True rs = (evs1, armed)"
      and ev: "\<exists>front. evs = front @ evs1 \<and> front \<noteq> [] \<and> (\<forall>u \<in> set front. snd u \<noteq> WatchdogOn)"
      using Cons.prems Some by (auto simp: Let_def split: prod.splits if_splits)
    obtain front where f: "evs = front @ evs1" "\<forall>u \<in> set front. snd u \<noteq> WatchdogOn" using ev by blast
    note IH = Cons.IH [OF e1]
    show ?thesis
    proof (cases "evs1 = []")
      case True
      then have "\<not> armed" using e1 by (cases rs) (auto simp: Let_def split: option.splits prod.splits)
      then show ?thesis using IH [of "[]"] f True Some by (auto dest: in_set_butlastD)
    next
      case False
      then show ?thesis using IH [of "pre @ front"] f Some by (auto simp: butlast_append)
    qed
  qed
qed

section \<open>Witnesses\<close>

definition lhd_events :: "(gotime \<times> health_event) list" where
  "lhd_events = [(2 * second, CycleStarted), (3 * second, StepBegins ''config''), (4 * second, Beats)]"

theorem watchdog_exact_witness:
  "\<not> snd (watchdog_tick (5 * minute) (304 * second) (health_run second lhd_events)) \<and>
   snd (watchdog_tick (5 * minute) (303 * second) (health_run second lhd_events))"
  using watchdog_exact [of lhd_events "5 * minute" "304 * second" second] watchdog_exact [of lhd_events "5 * minute" "303 * second" second]
  by (auto simp: lhd_events_def work_times_def beat_times_def time_sub_def)

definition lhd_rounds :: "recover_round list" where
  "lhd_rounds = [\<lparr>rr_begin = 1, rr_end = 2, rr_err = Some ''x'', rr_blocked = 3, rr_waits = 4\<rparr>,
     \<lparr>rr_begin = 5, rr_end = 6, rr_err = None, rr_blocked = 0, rr_waits = 0\<rparr>]"

theorem recovery_before_watchdog_witness:
  "snd (recoverThenSupervise False lhd_rounds) \<and> snd (last (fst (recoverThenSupervise False lhd_rounds))) = WatchdogOn"
  using recovery_before_watchdog [of False lhd_rounds "fst (recoverThenSupervise False lhd_rounds)" "snd (recoverThenSupervise False lhd_rounds)"]
  by (auto simp: lhd_rounds_def)

end
