(* ===== verification/Terminal_Stream.thy ===== *)
theory Terminal_Stream
  imports Go_Prelude
begin

text \<open>
  The streaming web terminal (\<open>src/cmd/lattice-agent/terminal_stream.go\<close>): the ring of recent output, the sink that
  replays it to a connection and then forwards, the frames of the browser, and the loop that keeps a shell
  alive over dropped connections. Connections are numbered, as their pointers are only compared. The pseudo
  terminal, the websocket and the clock are answers; decoding JSON is a parameter.
\<close>

section \<open>Definitions\<close>

subsection \<open>The output\<close>

definition terminalStreamRingBytes :: nat where "terminalStreamRingBytes = 512 * 1024"
definition terminalStreamRedialMin :: duration where "terminalStreamRedialMin = 500 * millisecond"
definition terminalStreamRedialMax :: duration where "terminalStreamRedialMax = 8 * second"
definition terminalStreamDetachCeiling :: duration where "terminalStreamDetachCeiling = 90 * second"
definition terminalStreamIdleCap :: duration where "terminalStreamIdleCap = 30 * minute"
definition terminalStreamMaxLife :: duration where "terminalStreamMaxLife = 8 * 60 * minute"

record output_ring =
  rg_buf :: string
  rg_capBytes :: nat
  rg_headOff :: int
  rg_totalOff :: int

definition newOutputRing :: "nat \<Rightarrow> output_ring" where
  "newOutputRing capBytes = \<lparr>rg_buf = [], rg_capBytes = capBytes, rg_headOff = 0, rg_totalOff = 0\<rparr>"

definition ring_append :: "string \<Rightarrow> output_ring \<Rightarrow> output_ring" where
  "ring_append p r =
     (let buf = rg_buf r @ p;
          r = r\<lparr>rg_totalOff := rg_totalOff r + int (length p), rg_buf := buf\<rparr>
      in if length buf > rg_capBytes r
         then r\<lparr>rg_buf := drop (length buf - rg_capBytes r) buf, rg_headOff := rg_headOff r + int (length buf - rg_capBytes r)\<rparr>
         else r)"

definition tailFrom :: "int \<Rightarrow> output_ring \<Rightarrow> string \<times> bool" where
  "tailFrom off r =
     (if off \<ge> rg_totalOff r then ([], False)
      else if off < rg_headOff r then (rg_buf r, True)
      else (drop (nat (off - rg_headOff r)) (rg_buf r), False))"

record stream_sink =
  sk_ring :: output_ring
  sk_conn :: "nat option"

definition newStreamSink :: stream_sink where
  "newStreamSink = \<lparr>sk_ring = newOutputRing terminalStreamRingBytes, sk_conn = None\<rparr>"

text \<open>What was written to which connection, and whether the connection took it.\<close>

type_synonym conn_write = "nat \<times> string \<times> bool"

definition sink_Write :: "string \<Rightarrow> bool \<Rightarrow> stream_sink \<Rightarrow> stream_sink \<times> conn_write list" where
  "sink_Write p ok s =
     (let s = s\<lparr>sk_ring := ring_append p (sk_ring s)\<rparr>
      in case sk_conn s of
           None \<Rightarrow> (s, [])
         | Some c \<Rightarrow> (if ok then s else s\<lparr>sk_conn := None\<rparr>, [(c, p, ok)]))"

definition gap_notice :: string where
  "gap_notice = [CHR 0x0D, CHR 0x0A, CHR 0x1B] @ ''[33m[lattice] reconnected '' @ [CHR 0xE2, CHR 0x80, CHR 0x94] @
     '' earlier output was dropped'' @ [CHR 0x1B] @ ''[0m'' @ [CHR 0x0D, CHR 0x0A]"

definition resumeOnce :: "nat \<Rightarrow> int \<Rightarrow> bool \<Rightarrow> bool \<Rightarrow> stream_sink \<Rightarrow> stream_sink \<times> conn_write list \<times> bool" where
  "resumeOnce conn browserOff noticeOk tailOk s =
     (if sk_conn s = Some conn then (s, [], False)
      else
        let (tail, gap) = tailFrom browserOff (sk_ring s);
            notice = (if gap then [(conn, gap_notice, noticeOk)] else [])
        in if tail \<noteq> [] \<and> \<not> tailOk then (s, notice @ [(conn, tail, False)], True)
           else (s\<lparr>sk_conn := Some conn\<rparr>, notice @ (if tail \<noteq> [] then [(conn, tail, True)] else []), True))"

definition detach :: "nat \<Rightarrow> stream_sink \<Rightarrow> stream_sink" where
  "detach conn s = (if sk_conn s = Some conn then s\<lparr>sk_conn := None\<rparr> else s)"

subsection \<open>The frames of the browser\<close>

datatype frame_action = Ignore | Resume int | Stdin string | Resize int int | ClosePty

definition clamp_size :: "int \<Rightarrow> int" where
  "clamp_size n = (if n > 1000 then 1000 else n)"

text \<open>\<open>pumpInput\<close> on one frame; \<open>decode\<close> reads the JSON of a resize frame.\<close>

definition frame_of :: "(string \<Rightarrow> (int \<times> int) option) \<Rightarrow> string \<Rightarrow> frame_action" where
  "frame_of decode payload = (case payload of
     [] \<Rightarrow> Ignore
   | op' # rest \<Rightarrow>
       (if op' = CHR 0x04 then
          Resume (case parse_int rest of None \<Rightarrow> 0 | Some off \<Rightarrow> if off < 0 then 0 else off)
        else if op' = CHR 0x00 then (if rest \<noteq> [] then Stdin rest else Ignore)
        else if op' = CHR 0x01 then
          (case decode rest of
             None \<Rightarrow> Ignore
           | Some (cols, rows) \<Rightarrow> (if cols > 0 \<and> rows > 0 then Resize (clamp_size cols) (clamp_size rows) else Ignore))
        else if op' = CHR 0x02 then ClosePty
        else Ignore))"

text \<open>
  The effects of the frames of one connection: what reaches the shell and the sink, until the connection ends, the
  terminal takes no more (\<open>ptyOk\<close>) or the browser closes it; \<open>pu_touches\<close> counts the calls of \<open>touch\<close>, which defer
  the idle cap.
\<close>

record pump_state =
  pu_sink :: stream_sink
  pu_writes :: "conn_write list"
  pu_stdin :: "string list"
  pu_sizes :: "(int \<times> int) list"
  pu_resumed :: bool
  pu_closed :: bool
  pu_touches :: nat

fun pumpInput ::
  "(string \<Rightarrow> (int \<times> int) option) \<Rightarrow> nat \<Rightarrow> (string \<times> bool \<times> bool \<times> bool) list \<Rightarrow> pump_state \<Rightarrow> pump_state" where
  "pumpInput decode conn [] s = s"
| "pumpInput decode conn ((payload, ptyOk, noticeOk, tailOk) # fs) s =
     (case frame_of decode payload of
        Ignore \<Rightarrow> pumpInput decode conn fs s
      | Resume off \<Rightarrow>
          (case resumeOnce conn off noticeOk tailOk (pu_sink s) of (sk, ws, done) \<Rightarrow>
             pumpInput decode conn fs (s\<lparr>pu_sink := sk, pu_writes := pu_writes s @ ws, pu_resumed := pu_resumed s \<or> done\<rparr>))
      | Stdin b \<Rightarrow>
          (if ptyOk then pumpInput decode conn fs (s\<lparr>pu_stdin := pu_stdin s @ [b], pu_touches := Suc (pu_touches s)\<rparr>) else s)
      | Resize cols rows \<Rightarrow>
          pumpInput decode conn fs (s\<lparr>pu_sizes := pu_sizes s @ [(cols, rows)], pu_touches := Suc (pu_touches s)\<rparr>)
      | ClosePty \<Rightarrow> s\<lparr>pu_closed := True, pu_touches := Suc (pu_touches s)\<rparr>)"

subsection \<open>Keeping the shell alive\<close>

record redial =
  rd_backoff :: duration
  rd_disconnectedSince :: gotime

datatype dial_answer = DialGone | DialFailed | DialServed bool

text \<open>A dial that failed, by the status of the response if there was one.\<close>

definition dial_error :: "int option \<Rightarrow> dial_answer" where
  "dial_error status = (case status of
     Some st \<Rightarrow> (if st = 404 \<or> st = 401 then DialGone else DialFailed)
   | None \<Rightarrow> DialFailed)"

text \<open>The scheme of the address that is dialled, from the scheme of the server's.\<close>

definition stream_scheme :: "string \<Rightarrow> string option" where
  "stream_scheme scheme =
     (if scheme = ''https'' then Some ''wss''
      else if scheme = ''http'' then Some ''ws''
      else if scheme = ''ws'' \<or> scheme = ''wss'' then Some scheme
      else None)"

text \<open>
  One turn of the loop of \<open>runStream\<close>: which branch the select at its head takes, of the end of the session's context, the
  exit of the shell, and neither,
  the answer of the dial (with a served connection, whether a browser resumed on it), whether the context has ended
  after a failed dial, the clock at the two places it is read, and whether the sleep ran to its end.
\<close>

record redial_turn =
  rt_ended :: bool
  rt_ptyDone :: bool
  rt_dial :: dial_answer
  rt_endedAfter :: bool
  rt_since :: gotime
  rt_now :: gotime
  rt_slept :: bool

datatype stream_end = Capped | ShellExited | SessionGone | GaveUp

definition new_redial :: redial where
  "new_redial = \<lparr>rd_backoff = terminalStreamRedialMin, rd_disconnectedSince = 0\<rparr>"

definition longer :: "redial \<Rightarrow> redial" where
  "longer s = s\<lparr>rd_backoff := min (rd_backoff s * 2) terminalStreamRedialMax\<rparr>"

definition redial_step :: "redial_turn \<Rightarrow> redial \<Rightarrow> redial + stream_end" where
  "redial_step t s =
     (if rt_ended t then Inr Capped
      else if rt_ptyDone t then Inr ShellExited
      else case rt_dial t of
        DialGone \<Rightarrow> Inr SessionGone
      | DialFailed \<Rightarrow>
          (if rt_endedAfter t then Inr Capped
           else
             let s = (if rd_disconnectedSince s = 0 then s\<lparr>rd_disconnectedSince := rt_since t\<rparr> else s)
             in if time_sub (rt_now t) (rd_disconnectedSince s) > terminalStreamDetachCeiling then Inr GaveUp
                else if \<not> rt_slept t then Inl s
                else Inl (longer s))
      | DialServed bridged \<Rightarrow>
          (let s = (if bridged then s\<lparr>rd_disconnectedSince := 0, rd_backoff := terminalStreamRedialMin\<rparr>
                    else if rd_disconnectedSince s = 0 then s\<lparr>rd_disconnectedSince := rt_since t\<rparr> else s)
           in if rd_disconnectedSince s \<noteq> 0 \<and> time_sub (rt_now t) (rd_disconnectedSince s) > terminalStreamDetachCeiling
              then Inr GaveUp
              else if \<not> rt_slept t then Inl s
              else if \<not> bridged then Inl (longer s) else Inl s))"

fun redial_loop :: "redial_turn list \<Rightarrow> redial \<Rightarrow> redial + stream_end" where
  "redial_loop [] s = Inl s"
| "redial_loop (t # ts) s = (case redial_step t s of Inr e \<Rightarrow> Inr e | Inl s' \<Rightarrow> redial_loop ts s')"

text \<open>The caps, at a tick of the watchdog of a session.\<close>

definition cap_reason :: "gotime \<Rightarrow> gotime \<Rightarrow> gotime \<Rightarrow> string option" where
  "cap_reason now lastActivity started =
     (if time_sub now lastActivity > terminalStreamIdleCap then Some ''terminal session idle timeout''
      else if time_sub now started > terminalStreamMaxLife then Some ''terminal session reached maximum duration''
      else None)"

text \<open>\<open>finishStream\<close>: the message of the final status; it is posted after \<open>Capped\<close> and \<open>ShellExited\<close> only.\<close>

definition finish_message :: "string option \<Rightarrow> bool \<Rightarrow> string" where
  "finish_message reason shuttingDown =
     (let msg = (case reason of None \<Rightarrow> [] | Some r \<Rightarrow> r)
      in if msg = [] \<and> shuttingDown then ''agent shutting down'' else msg)"

text \<open>The transport of new sessions: the server's override, when it names one.\<close>

definition setTerminalTransportOverride :: "string \<Rightarrow> string" where
  "setTerminalTransportOverride transport = (if transport = ''poll'' \<or> transport = ''stream'' then transport else [])"

definition effectiveTerminalTransport :: "string \<Rightarrow> string \<Rightarrow> string" where
  "effectiveTerminalTransport override startup = (if override \<noteq> [] then override else startup)"

text \<open>
  What happens to the sink, in the order its lock serialises it: output of the shell, a resume (from a frame or from
  the timer of \<open>serveStreamConn\<close>), the detach at the end of a connection.
\<close>

datatype sink_event = Wrote string bool | Resumed nat int bool bool | Detached nat

definition sink_step :: "sink_event \<Rightarrow> stream_sink \<Rightarrow> stream_sink \<times> conn_write list" where
  "sink_step e s = (case e of
     Wrote p ok \<Rightarrow> sink_Write p ok s
   | Resumed c off noticeOk tailOk \<Rightarrow> (case resumeOnce c off noticeOk tailOk s of (s', ws, _) \<Rightarrow> (s', ws))
   | Detached c \<Rightarrow> (detach c s, []))"

fun sink_run :: "sink_event list \<Rightarrow> stream_sink \<Rightarrow> stream_sink \<times> conn_write list" where
  "sink_run [] s = (s, [])"
| "sink_run (e # es) s =
     (case sink_step e s of (s', ws) \<Rightarrow> case sink_run es s' of (s'', ws') \<Rightarrow> (s'', ws @ ws'))"

section \<open>The ring\<close>

definition ring_of :: "string \<Rightarrow> output_ring \<Rightarrow> bool" where
  "ring_of out r \<longleftrightarrow> rg_totalOff r = int (length out) \<and> rg_headOff r = int (length out - rg_capBytes r) \<and>
     rg_buf r = drop (length out - rg_capBytes r) out"

lemma ring_new: "ring_of [] (newOutputRing n)"
  by (simp add: ring_of_def newOutputRing_def)

lemma ring_append_cap [simp]: "rg_capBytes (ring_append p r) = rg_capBytes r"
  by (simp add: ring_append_def Let_def)

lemma ring_append_of:
  assumes "ring_of out r"
  shows "ring_of (out @ p) (ring_append p r)"
proof -
  let ?c = "rg_capBytes r" and ?n = "length out - rg_capBytes r"
  have b: "rg_buf r = drop ?n out" "rg_headOff r = int ?n" "rg_totalOff r = int (length out)"
    using assms by (auto simp: ring_of_def)
  have l: "length (rg_buf r @ p) = length out - ?n + length p" by (simp add: b)
  have d: "drop k (drop ?n out @ p) = drop (k + ?n) (out @ p)" for k
    by (cases "k \<le> length out - ?n") (auto simp: add.commute)
  show ?thesis
  proof (cases "length (rg_buf r @ p) > ?c")
    case True
    then have "length (rg_buf r @ p) - ?c + ?n = length (out @ p) - ?c" using l by (cases "length out \<le> ?c") auto
    then show ?thesis using True b l d by (auto simp: ring_of_def ring_append_def Let_def)
  next
    case False
    then have "p = [] \<or> length (out @ p) \<le> ?c" using l by (cases "length out \<le> ?c") auto
    then show ?thesis using False b by (auto simp: ring_of_def ring_append_def Let_def)
  qed
qed

lemma tail_of:
  assumes "ring_of out r" "0 \<le> off"
  shows "tailFrom off r =
    (drop (max (nat off) (length out - rg_capBytes r)) out, nat off < length out - rg_capBytes r)"
  using assms by (auto simp: ring_of_def tailFrom_def nat_diff_distrib' le_nat_iff max_def nat_le_iff)

section \<open>The sink\<close>

fun outputs :: "sink_event list \<Rightarrow> string" where
  "outputs [] = []"
| "outputs (Wrote p ok # es) = p @ outputs es"
| "outputs (e # es) = outputs es"

definition taken :: "nat \<Rightarrow> conn_write list \<Rightarrow> string" where
  "taken c ws = concat (map (\<lambda>(d, p, ok). if d = c \<and> ok then p else []) ws)"

lemma taken_simps [simp]:
  "taken c [] = []"
  "taken c ((d, p, ok) # ws) = (if d = c \<and> ok then p else []) @ taken c ws"
  "taken c (ws @ ws') = taken c ws @ taken c ws'"
  by (auto simp: taken_def)

text \<open>\<open>c\<close> is the live connection after each of the events.\<close>

fun stays :: "nat \<Rightarrow> sink_event list \<Rightarrow> stream_sink \<Rightarrow> bool" where
  "stays c [] s \<longleftrightarrow> sk_conn s = Some c"
| "stays c (e # es) s \<longleftrightarrow> sk_conn s = Some c \<and> stays c es (fst (sink_step e s))"

definition sink_of :: "string \<Rightarrow> stream_sink \<Rightarrow> bool" where
  "sink_of out s \<longleftrightarrow> ring_of out (sk_ring s) \<and> rg_capBytes (sk_ring s) = terminalStreamRingBytes"

lemmas sink_ops = sink_step_def sink_Write_def resumeOnce_def detach_def Let_def

lemma sink_step_of: "sink_of out s \<Longrightarrow> sink_of (out @ outputs [e]) (fst (sink_step e s))"
  by (cases e) (auto simp: sink_of_def sink_ops ring_append_of split: option.splits prod.splits)

lemma outputs_Cons: "outputs (e # es) = outputs [e] @ outputs es"
  by (cases e) auto

lemma sink_run_of: "sink_of out s \<Longrightarrow> sink_of (out @ outputs es) (fst (sink_run es s))"
proof (induction es arbitrary: out s)
  case (Cons e es)
  show ?case using Cons.IH [OF sink_step_of [OF Cons.prems, of e]]
    by (simp add: outputs_Cons [of e es] case_prod_beta)
qed simp

lemma sink_new: "sink_of [] newStreamSink"
  by (simp add: sink_of_def newStreamSink_def ring_new) (simp add: newOutputRing_def)

lemma sink_run_app:
  "sink_run (es @ fs) s = (case sink_run es s of (s', ws) \<Rightarrow> case sink_run fs s' of (s'', ws') \<Rightarrow> (s'', ws @ ws'))"
  by (induction es arbitrary: s) (auto split: prod.splits)

lemma sink_step_live:
  "sk_conn s = Some c \<Longrightarrow> sk_conn (fst (sink_step e s)) = Some c \<Longrightarrow> taken c (snd (sink_step e s)) = outputs [e]"
  by (cases e) (auto simp: sink_ops split: if_splits option.splits prod.splits)

lemma stays_live: "stays c es s \<Longrightarrow> sk_conn s = Some c"
  by (cases es) auto

lemma stays_taken: "stays c es s \<Longrightarrow> taken c (snd (sink_run es s)) = outputs es"
proof (induction es arbitrary: s)
  case (Cons e es)
  then have "sk_conn s = Some c" "stays c es (fst (sink_step e s))" by auto
  then show ?case using Cons.IH [of "fst (sink_step e s)"] sink_step_live [OF _ stays_live, of s c es e]
    by (simp add: outputs_Cons [of e es] case_prod_beta)
qed simp

lemma resume_taken:
  assumes "sink_of out s" "0 \<le> off" "sk_conn s \<noteq> Some c" "sk_conn (fst (sink_step (Resumed c off nOk tOk) s)) = Some c"
  shows "taken c (snd (sink_step (Resumed c off nOk tOk) s)) =
    (if nat off < length out - terminalStreamRingBytes \<and> nOk then gap_notice else []) @
    drop (max (nat off) (length out - terminalStreamRingBytes)) out"
  using assms tail_of [of out "sk_ring s" off]
  by (auto simp: sink_of_def sink_ops split: if_splits)

text \<open>
  C23. A browser that resumes sees the terminal exactly: in every run of a session's sink, from the resume of a
  connection at the offset the browser has rendered, and for as long as that connection is the live one, what
  the connection took is, byte for byte and in order, all output of the shell beyond that offset, whatever was
  written before the resume, after it, or while no browser was attached, and whatever other connections did. Where
  the offset lies before what the ring still holds, it is the notice of the gap and everything from the oldest byte
  held on. The ring never exceeds its bound.
\<close>

theorem terminal_resume_exact:
  assumes "0 \<le> off" "sk_conn (fst (sink_run before newStreamSink)) \<noteq> Some c"
    and "stays c after (fst (sink_run (before @ [Resumed c off nOk tOk]) newStreamSink))"
  shows "taken c (drop (length (snd (sink_run before newStreamSink)))
      (snd (sink_run (before @ Resumed c off nOk tOk # after) newStreamSink))) =
    (if nat off < length (outputs before) - terminalStreamRingBytes \<and> nOk then gap_notice else []) @
    drop (max (nat off) (length (outputs before) - terminalStreamRingBytes)) (outputs before) @ outputs after \<and>
    length (rg_buf (sk_ring (fst (sink_run (before @ Resumed c off nOk tOk # after) newStreamSink)))) \<le>
      terminalStreamRingBytes"
proof
  obtain s ws where s: "sink_run before newStreamSink = (s, ws)" by fastforce
  obtain s' ws' where s': "sink_step (Resumed c off nOk tOk) s = (s', ws')" by fastforce
  have o: "sink_of (outputs before) s" using sink_run_of [OF sink_new, of before] by (simp add: s)
  have st: "stays c after s'" using assms(3) by (simp add: sink_run_app s s')
  have "taken c ws' = (if nat off < length (outputs before) - terminalStreamRingBytes \<and> nOk then gap_notice else []) @
      drop (max (nat off) (length (outputs before) - terminalStreamRingBytes)) (outputs before)"
    using resume_taken [OF o assms(1), of c nOk tOk] assms(2) stays_live [OF st] by (simp add: s s')
  then show "taken c (drop (length (snd (sink_run before newStreamSink)))
      (snd (sink_run (before @ Resumed c off nOk tOk # after) newStreamSink))) =
    (if nat off < length (outputs before) - terminalStreamRingBytes \<and> nOk then gap_notice else []) @
    drop (max (nat off) (length (outputs before) - terminalStreamRingBytes)) (outputs before) @ outputs after"
    using stays_taken [OF st] by (simp add: sink_run_app s s' case_prod_beta)
  show "length (rg_buf (sk_ring (fst (sink_run (before @ Resumed c off nOk tOk # after) newStreamSink)))) \<le>
      terminalStreamRingBytes"
    using sink_run_of [OF sink_new, of "before @ Resumed c off nOk tOk # after"] by (auto simp: sink_of_def ring_of_def)
qed

text \<open>
  The shell writes \<open>abc\<close>, a first connection resumes, \<open>de\<close> fails to reach it; a second connection of a browser that
  has rendered two bytes takes the other three and what follows, once, the late timer notwithstanding.
\<close>

theorem terminal_resume_exact_witness:
  "taken 2 (drop 2 (snd (sink_run ([Wrote ''abc'' True, Resumed 1 0 True True, Wrote ''de'' False] @
      Resumed 2 2 True True # [Wrote ''f'' True, Detached 1, Resumed 2 0 True True, Wrote ''g'' True]) newStreamSink))) = ''cdefg''"
  using terminal_resume_exact [of 2 "[Wrote ''abc'' True, Resumed 1 0 True True, Wrote ''de'' False]" 2
      "[Wrote ''f'' True, Detached 1, Resumed 2 0 True True, Wrote ''g'' True]" True True]
  by (simp add: sink_ops newStreamSink_def newOutputRing_def ring_append_def tailFrom_def terminalStreamRingBytes_def)

section \<open>The frames\<close>

lemma frame_resize:
  "frame_of decode payload = Resize cols rows \<Longrightarrow> 1 \<le> cols \<and> cols \<le> 1000 \<and> 1 \<le> rows \<and> rows \<le> 1000"
  by (auto simp: frame_of_def clamp_size_def split: list.splits if_splits option.splits)

lemma frame_resume: "frame_of decode payload = Resume off \<Longrightarrow> 0 \<le> off"
  by (auto simp: frame_of_def split: list.splits if_splits option.splits)

lemma pump_sizes:
  "(cols, rows) \<in> set (pu_sizes (pumpInput decode conn fs s)) \<Longrightarrow>
   (cols, rows) \<in> set (pu_sizes s) \<or> 1 \<le> cols \<and> cols \<le> 1000 \<and> 1 \<le> rows \<and> rows \<le> 1000"
proof (induction fs arbitrary: s)
  case (Cons f fs)
  obtain payload ptyOk noticeOk tailOk where f: "f = (payload, ptyOk, noticeOk, tailOk)" by (cases f)
  show ?case
  proof (cases "frame_of decode payload")
    case (Resize c r)
    then show ?thesis using Cons.IH Cons.prems frame_resize [OF Resize] by (fastforce simp: f)
  qed (use Cons in \<open>auto simp: f split: prod.splits if_splits dest!: Cons.IH\<close>)
qed simp

lemma resumeOnce_of: "sink_of out s \<Longrightarrow> sink_of out (fst (resumeOnce c off nOk tOk s))"
  by (auto simp: sink_of_def resumeOnce_def Let_def split: prod.splits)

lemma pump_sink: "sink_of out (pu_sink s) \<Longrightarrow> sink_of out (pu_sink (pumpInput decode conn fs s))"
proof (induction fs arbitrary: s)
  case (Cons f fs)
  obtain payload ptyOk noticeOk tailOk where f: "f = (payload, ptyOk, noticeOk, tailOk)" by (cases f)
  show ?case
  proof (cases "frame_of decode payload")
    case (Resume off)
    then show ?thesis using Cons.IH resumeOnce_of [OF Cons.prems, of conn off noticeOk tailOk] by (simp add: f case_prod_beta)
  qed (use Cons in \<open>simp_all add: f\<close>)
qed simp

lemma small_word: "1 \<le> n \<Longrightarrow> n \<le> 1000 \<Longrightarrow> uint (word_of_int n :: 16 word) = n"
  by (simp add: uint_word_of_int)

text \<open>
  Whatever frames a browser sends, and whatever sizes they decode to, every window size given to the terminal is
  between one and a thousand in both directions, so that the sixteen bits it is converted to hold it without
  wrapping; and no frame takes anything from, or adds anything to, the output recorded for replay.
\<close>

theorem terminal_frames_bounded:
  assumes "sink_of out (pu_sink s)" "pu_sizes s = []"
    and "(cols, rows) \<in> set (pu_sizes (pumpInput decode conn frames s))"
  shows "1 \<le> cols" "cols \<le> 1000" "1 \<le> rows" "rows \<le> 1000"
    and "uint (word_of_int cols :: 16 word) = cols" "uint (word_of_int rows :: 16 word) = rows"
    and "sink_of out (pu_sink (pumpInput decode conn frames s))"
  using pump_sizes [OF assms(3)] assms(2) pump_sink [OF assms(1)] by (auto simp: small_word)

theorem terminal_frames_bounded_witness:
  "uint (word_of_int 1000 :: 16 word) = 1000 \<and>
   pu_sizes (pumpInput (\<lambda>_. Some (70000, 24)) 1 [([CHR 0x01], True, True, True)]
     \<lparr>pu_sink = newStreamSink, pu_writes = [], pu_stdin = [], pu_sizes = [], pu_resumed = False, pu_closed = False, pu_touches = 0\<rparr>) = [(1000, 24)]"
  using terminal_frames_bounded(5) [of "[]" "\<lparr>pu_sink = newStreamSink, pu_writes = [], pu_stdin = [], pu_sizes = [],
      pu_resumed = False, pu_closed = False, pu_touches = 0\<rparr>" 1000 24 "\<lambda>_. Some (70000, 24)" 1 "[([CHR 0x01], True, True, True)]"]
  by (simp add: sink_new frame_of_def clamp_size_def)

section \<open>The loop\<close>

definition bridged :: "redial_turn \<Rightarrow> bool" where
  "bridged t \<longleftrightarrow> rt_dial t = DialServed True"

definition backoff_ok :: "redial \<Rightarrow> bool" where
  "backoff_ok s \<longleftrightarrow> terminalStreamRedialMin \<le> rd_backoff s \<and> rd_backoff s \<le> terminalStreamRedialMax"

lemma redial_step_backoff: "backoff_ok s \<Longrightarrow> redial_step t s = Inl s' \<Longrightarrow> backoff_ok s'"
  by (auto simp: redial_step_def backoff_ok_def longer_def Let_def terminalStreamRedialMin_def terminalStreamRedialMax_def
      split: if_splits dial_answer.splits)

lemma redial_loop_backoff: "backoff_ok s \<Longrightarrow> redial_loop ts s = Inl s' \<Longrightarrow> backoff_ok s'"
  by (induction ts arbitrary: s) (auto split: sum.splits dest: redial_step_backoff)

text \<open>Since when no browser has been bridged, after the turns \<open>ts\<close>.\<close>

definition since_ok :: "redial_turn list \<Rightarrow> redial \<Rightarrow> bool" where
  "since_ok ts s \<longleftrightarrow> rd_disconnectedSince s = 0 \<or>
     (\<exists>a t b. ts = a @ t # b \<and> rd_disconnectedSince s = rt_since t \<and> (\<forall>u\<in>set (t # b). \<not> bridged u))"

definition since_after :: "redial_turn \<Rightarrow> redial \<Rightarrow> gotime" where
  "since_after u s = (if rd_disconnectedSince s = 0 then rt_since u else rd_disconnectedSince s)"

lemma redial_step_since:
  "redial_step u s = Inl s' \<Longrightarrow> rd_disconnectedSince s' = (if bridged u then 0 else since_after u s)"
  by (auto simp: redial_step_def longer_def Let_def bridged_def since_after_def split: if_splits dial_answer.splits)

lemma redial_step_gaveUp:
  "redial_step u s = Inr GaveUp \<Longrightarrow>
   \<not> bridged u \<and> time_sub (rt_now u) (since_after u s) > terminalStreamDetachCeiling"
  by (auto simp: redial_step_def Let_def bridged_def since_after_def split: if_splits dial_answer.splits)

lemma since_after_ok:
  assumes "since_ok ts s" "\<not> bridged u"
  obtains a t b where "ts @ [u] = a @ t # b" "since_after u s = rt_since t" "\<forall>v\<in>set (t # b). \<not> bridged v"
proof (cases "rd_disconnectedSince s = 0")
  case True
  then show thesis using that [of ts u "[]"] assms(2) by (simp add: since_after_def)
next
  case False
  then obtain a t b where "ts = a @ t # b" "rd_disconnectedSince s = rt_since t" "\<forall>v\<in>set (t # b). \<not> bridged v"
    using assms(1) by (auto simp: since_ok_def)
  then show thesis using that [of a t "b @ [u]"] assms(2) False by (auto simp: since_after_def)
qed

lemma redial_step_since_ok:
  assumes "since_ok ts s" "redial_step u s = Inl s'"
  shows "since_ok (ts @ [u]) s'"
proof (cases "bridged u")
  case True
  then show ?thesis using redial_step_since [OF assms(2)] by (simp add: since_ok_def)
next
  case False
  then show ?thesis using since_after_ok [OF assms(1) False] redial_step_since [OF assms(2)]
    by (metis since_ok_def)
qed

lemma redial_loop_gaveUp:
  "since_ok pre s \<Longrightarrow> redial_loop ts s = Inr GaveUp \<Longrightarrow>
   \<exists>a t b u c. pre @ ts = a @ t # b @ c \<and> u = last (t # b) \<and> (\<forall>v\<in>set (t # b). \<not> bridged v) \<and>
     time_sub (rt_now u) (rt_since t) > terminalStreamDetachCeiling"
proof (induction ts arbitrary: pre s)
  case (Cons v ts)
  show ?case
  proof (cases "redial_step v s")
    case (Inl s')
    then show ?thesis using Cons.IH [OF redial_step_since_ok [OF Cons.prems(1) Inl]] Cons.prems(2) by simp
  next
    case (Inr e)
    then have g: "redial_step v s = Inr GaveUp" using Cons.prems(2) by simp
    obtain a t b where w: "pre @ [v] = a @ t # b" "since_after v s = rt_since t" "\<forall>v\<in>set (t # b). \<not> bridged v"
      using since_after_ok [OF Cons.prems(1)] redial_step_gaveUp [OF g] by blast
    have "last (t # b) = v" using arg_cong [OF w(1), of last] by simp
    then show ?thesis using w redial_step_gaveUp [OF g] arg_cong [OF w(1), of "\<lambda>xs. xs @ ts"]
      by (intro exI [of _ a] exI [of _ t] exI [of _ b] exI [of _ v] exI [of _ ts]) auto
  qed
qed simp

text \<open>
  C24. A dropped connection does not kill the shell: the loop that keeps a terminal alive gives up on the server only at
  a turn more than ninety seconds after an earlier one, with no browser resumed in that turn or any from the earlier
  one on; and whatever its turns, it waits between half a second and eight seconds before dialling again.
\<close>

theorem terminal_survives_drops:
  assumes "redial_loop turns new_redial = r"
  shows "case r of
     Inl s \<Rightarrow> 500 * millisecond \<le> rd_backoff s \<and> rd_backoff s \<le> 8 * second
   | Inr e \<Rightarrow> e = GaveUp \<longrightarrow>
       (\<exists>a t b u c. turns = a @ t # b @ c \<and> u = last (t # b) \<and> (\<forall>v\<in>set (t # b). \<not> bridged v) \<and>
         time_sub (rt_now u) (rt_since t) > 90 * second)"
proof (cases r)
  case (Inl s)
  have "backoff_ok new_redial"
    by (simp add: backoff_ok_def new_redial_def terminalStreamRedialMin_def terminalStreamRedialMax_def)
  then show ?thesis using redial_loop_backoff [of new_redial turns s] assms Inl
    by (simp add: backoff_ok_def terminalStreamRedialMin_def terminalStreamRedialMax_def)
next
  case (Inr e)
  have "since_ok [] new_redial" by (simp add: since_ok_def new_redial_def)
  then show ?thesis using redial_loop_gaveUp [of "[]" new_redial turns] assms Inr
    by (auto simp: terminalStreamDetachCeiling_def)
qed

definition failed_turn :: "gotime \<Rightarrow> redial_turn" where
  "failed_turn t = \<lparr>rt_ended = False, rt_ptyDone = False, rt_dial = DialFailed, rt_endedAfter = False, rt_since = t,
     rt_now = t, rt_slept = True\<rparr>"

theorem terminal_survives_drops_witness:
  "redial_loop [failed_turn second, failed_turn (91 * second), failed_turn (92 * second)] new_redial = Inr GaveUp \<and>
   (\<exists>a t b u c. [failed_turn second, failed_turn (91 * second), failed_turn (92 * second)] = a @ t # b @ c \<and>
     u = last (t # b) \<and> (\<forall>v\<in>set (t # b). \<not> bridged v) \<and> time_sub (rt_now u) (rt_since t) > 90 * second)"
proof -
  have l: "redial_loop [failed_turn second, failed_turn (91 * second), failed_turn (92 * second)] new_redial = Inr GaveUp"
    by code_simp
  then show ?thesis using terminal_survives_drops [OF l] by simp
qed

text \<open>
  A connection on which the browser sends no resume frame within two seconds is served from the timer, and does not
  count as bridged: after one drop, a second one minutes later ends the shell at once, however well it was served
  in between.
\<close>

lemma unbridged_service_not_counted:
  assumes "redial_loop [failed_turn second, (failed_turn t)\<lparr>rt_dial := DialServed False\<rparr>] new_redial = Inl s"
  shows "time_sub t second \<le> 90 * second"
  using assms by (auto simp: new_redial_def failed_turn_def redial_step_def Let_def longer_def
      terminalStreamDetachCeiling_def split: if_splits)

end
